(* ===== verification/Prelude.thy ===== *)
theory Prelude
  imports Complex_Main "HOL-Library.Product_Lexorder"
begin

text \<open>
  Shared vocabulary of the development.

  \<^item> 256-bit unsigned integers (\<open>alloy_primitives::U256\<close>) are natural numbers together with the
    operations the code applies to them, each with its behaviour at the 256-bit boundary written
    out: checked (\<open>None\<close> past the boundary), saturating (clamped at the boundary) and plain
    operators (wrap modulo \<open>2 ^ 256\<close>).
  \<^item> \<open>Result<T, E>\<close> is the sum \<open>'e + 'a\<close> with \<open>Inl\<close> for \<open>Err\<close> and \<open>Inr\<close> for \<open>Ok\<close>; the \<open>?\<close>
    operator is \<open>rbind\<close>.
  \<^item> Fixed-size byte identifiers (\<open>Address\<close>, \<open>B256\<close> and the newtypes over them) are natural
    numbers: the big-endian reading, under which the derived \<open>Ord\<close> of the byte arrays is the
    order of the numbers and the all-zero value is \<open>0\<close>.

  The collection \<open>u256\<close> holds the unfoldings of the word operations and \<open>res\<close> the rules that
  take a successful chain of \<open>?\<close> apart.
\<close>

section \<open>Identifiers\<close>

type_synonym address = nat
type_synonym b256 = nat
type_synonym u256 = nat
type_synonym u64 = nat
type_synonym intent_id = b256
type_synonym maker_id = address
type_synonym strategy_hash = b256
type_synonym reservation_id = b256
type_synonym rebate_batch_id = b256
type_synonym chain_id = u64

named_theorems u256
named_theorems res

section \<open>256-bit arithmetic\<close>

definition u256_max :: nat where
  "u256_max = 2 ^ 256 - 1"

definition u64_max :: nat where
  "u64_max = 2 ^ 64 - 1"

abbreviation is_u256 :: "nat \<Rightarrow> bool" where
  "is_u256 x \<equiv> x \<le> u256_max"

definition checked_add :: "u256 \<Rightarrow> u256 \<Rightarrow> u256 option" where
  "checked_add a b = (if a + b \<le> u256_max then Some (a + b) else None)"

definition checked_sub :: "u256 \<Rightarrow> u256 \<Rightarrow> u256 option" where
  "checked_sub a b = (if b \<le> a then Some (a - b) else None)"

definition checked_mul :: "u256 \<Rightarrow> u256 \<Rightarrow> u256 option" where
  "checked_mul a b = (if a * b \<le> u256_max then Some (a * b) else None)"

definition sat_add :: "u256 \<Rightarrow> u256 \<Rightarrow> u256" where
  "sat_add a b = min (a + b) u256_max"

definition sat_sub :: "u256 \<Rightarrow> u256 \<Rightarrow> u256" where
  "sat_sub a b = (if b \<le> a then a - b else 0)"

definition sat_mul :: "u256 \<Rightarrow> u256 \<Rightarrow> u256" where
  "sat_mul a b = min (a * b) u256_max"

definition wrap_add :: "u256 \<Rightarrow> u256 \<Rightarrow> u256" where
  "wrap_add a b = (a + b) mod (u256_max + 1)"

definition wrap_sub :: "u256 \<Rightarrow> u256 \<Rightarrow> u256" where
  "wrap_sub a b = (a + (u256_max + 1) - b) mod (u256_max + 1)"

definition wrap_mul :: "u256 \<Rightarrow> u256 \<Rightarrow> u256" where
  "wrap_mul a b = (a * b) mod (u256_max + 1)"

definition sat_add64 :: "u64 \<Rightarrow> u64 \<Rightarrow> u64" where
  "sat_add64 a b = min (a + b) u64_max"

lemmas [u256] = checked_add_def checked_sub_def checked_mul_def sat_add_def sat_mul_def

lemma u256_max_pos [simp]: "0 < u256_max"
  by (simp add: u256_max_def)

lemma sat_sub_eq [simp]: "sat_sub a b = a - b"
  by (simp add: sat_sub_def)

lemma sat_add_exact: "a + b \<le> u256_max \<Longrightarrow> sat_add a b = a + b"
  by (simp add: sat_add_def)

lemma sat_add_bound [simp]: "sat_add a b \<le> u256_max"
  by (simp add: sat_add_def)

lemma sat_mul_bound [simp]: "sat_mul a b \<le> u256_max"
  by (simp add: sat_mul_def)

lemma sat_add_zero [simp]: "a \<le> u256_max \<Longrightarrow> sat_add a 0 = a" "a \<le> u256_max \<Longrightarrow> sat_add 0 a = a"
  by (simp_all add: sat_add_def)

lemma sat_add_ge: "a \<le> u256_max \<Longrightarrow> a \<le> sat_add a b"
  by (simp add: sat_add_def)

lemma wrap_add_exact: "a + b \<le> u256_max \<Longrightarrow> wrap_add a b = a + b"
  by (simp add: wrap_add_def)

lemma wrap_sub_exact: "b \<le> a \<Longrightarrow> a \<le> u256_max \<Longrightarrow> wrap_sub a b = a - b"
proof -
  assume le: "b \<le> a" and a: "a \<le> u256_max"
  have "a + (u256_max + 1) - b = (a - b) + (u256_max + 1)" using le by simp
  then have "wrap_sub a b = ((a - b) + (u256_max + 1)) mod (u256_max + 1)"
    by (simp only: wrap_sub_def)
  also have "\<dots> = (a - b) mod (u256_max + 1)" by (rule mod_add_self2)
  also have "\<dots> = a - b" using a by simp
  finally show ?thesis .
qed

lemma wrap_mul_exact: "a * b \<le> u256_max \<Longrightarrow> wrap_mul a b = a * b"
  by (simp add: wrap_mul_def)

lemma checked_add_Some [simp]: "checked_add a b = Some c \<longleftrightarrow> c = a + b \<and> a + b \<le> u256_max"
  by (auto simp: checked_add_def)

lemma checked_sub_Some [simp]: "checked_sub a b = Some c \<longleftrightarrow> b \<le> a \<and> c = a - b"
  by (auto simp: checked_sub_def)

lemma checked_mul_Some [simp]: "checked_mul a b = Some c \<longleftrightarrow> c = a * b \<and> a * b \<le> u256_max"
  by (auto simp: checked_mul_def)

lemma checked_sub_None [simp]: "checked_sub a b = None \<longleftrightarrow> a < b"
  by (auto simp: checked_sub_def)

section \<open>Results\<close>

abbreviation is_ok :: "'e + 'a \<Rightarrow> bool" where
  "is_ok r \<equiv> \<not> isl r"

definition rbind :: "'e + 'a \<Rightarrow> ('a \<Rightarrow> 'e + 'b) \<Rightarrow> 'e + 'b" where
  "rbind m f = (case m of Inl e \<Rightarrow> Inl e | Inr x \<Rightarrow> f x)"

definition ok_or :: "'e \<Rightarrow> 'a option \<Rightarrow> 'e + 'a" where
  "ok_or e x = (case x of None \<Rightarrow> Inl e | Some v \<Rightarrow> Inr v)"

definition to_option :: "'e + 'a \<Rightarrow> 'a option" where
  "to_option r = (case r of Inl _ \<Rightarrow> None | Inr v \<Rightarrow> Some v)"

definition unwrap_or :: "'a \<Rightarrow> 'a option \<Rightarrow> 'a" where
  "unwrap_or d x = (case x of None \<Rightarrow> d | Some v \<Rightarrow> v)"

fun try_fold :: "('s \<Rightarrow> 'a \<Rightarrow> 'e + 's) \<Rightarrow> 's \<Rightarrow> 'a list \<Rightarrow> 'e + 's" where
  "try_fold f s [] = Inr s"
| "try_fold f s (x # xs) = rbind (f s x) (\<lambda>s'. try_fold f s' xs)"

lemma rbind_simps [simp]:
  "rbind (Inl e) f = Inl e"
  "rbind (Inr x) f = f x"
  by (simp_all add: rbind_def)

lemma rbind_Inr [res]: "rbind m f = Inr y \<longleftrightarrow> (\<exists>x. m = Inr x \<and> f x = Inr y)"
  by (cases m) auto

lemma rbind_Inr_right [simp]: "rbind m Inr = m"
  by (cases m) auto

lemma rbind_Inl: "rbind m f = Inl e \<longleftrightarrow> m = Inl e \<or> (\<exists>x. m = Inr x \<and> f x = Inl e)"
  by (cases m) auto

lemma ok_or_Inr [simp]: "ok_or e x = Inr v \<longleftrightarrow> x = Some v"
  by (cases x) (auto simp: ok_or_def)

lemma ok_or_Inl [simp]: "ok_or e x = Inl e' \<longleftrightarrow> x = None \<and> e' = e"
  by (cases x) (auto simp: ok_or_def)

lemma ok_or_simps [simp]: "ok_or e (Some v) = Inr v" "ok_or e None = Inl e"
  by (simp_all add: ok_or_def)

lemma to_option_Some [simp]: "to_option r = Some v \<longleftrightarrow> r = Inr v"
  by (cases r) (auto simp: to_option_def)

lemma to_option_simps [simp]: "to_option (Inr v) = Some v" "to_option (Inl e) = None"
  by (simp_all add: to_option_def)

lemma unwrap_or_simps [simp]: "unwrap_or d (Some v) = v" "unwrap_or d None = d"
  by (simp_all add: unwrap_or_def)

lemma is_ok_iff: "is_ok r \<longleftrightarrow> (\<exists>v. r = Inr v)"
  by (cases r) auto

section \<open>Lists\<close>

lemma sum_list_zero_iff_nat: "sum_list (xs :: nat list) = 0 \<longleftrightarrow> (\<forall>x \<in> set xs. x = 0)"
  by (induction xs) auto

lemma sum_list_member_le: "x \<in> set xs \<Longrightarrow> f x \<le> (\<Sum>y\<leftarrow>xs. f y :: nat)"
  by (induction xs) auto

lemma sum_list_mono2:
  "list_all2 (\<le>) xs ys \<Longrightarrow> sum_list xs \<le> sum_list (ys :: nat list)"
  by (induction rule: list_all2_induct) auto

lemma map_filter_all:
  "(\<And>x. x \<in> set xs \<Longrightarrow> g (f x) = Some (h x)) \<Longrightarrow> List.map_filter g (map f xs) = map h xs"
  by (induction xs) (simp_all add: map_filter_simps)

lemma option_eqI: "(\<And>v. x = Some v \<longleftrightarrow> y = Some v) \<Longrightarrow> x = y"
  by (cases x; cases y) auto

lemma map_filter_cong':
  "(\<And>x. x \<in> set xs \<Longrightarrow> f x = g x) \<Longrightarrow> List.map_filter f xs = List.map_filter g xs"
  by (induction xs) (simp_all add: map_filter_simps split: option.split)

end
