(* ===== verification/Btree.thy ===== *)
theory Btree
  imports Prelude
begin

text \<open>
  Ordered maps and sets. The code keeps its state in \<open>std::collections::BTreeMap\<close> and \<open>BTreeSet\<close>,
  and several operations depend on the ascending key order of their iterators (the first account
  short of capacity, the order of a TTL sweep, the candidate order of a pair). The model is the
  ascending association list of the entries: \<open>bm_get\<close>, \<open>bm_insert\<close>, \<open>bm_remove\<close> are \<open>get\<close>,
  \<open>insert\<close>, \<open>remove\<close>, and the list itself is what \<open>iter\<close>/\<open>into_iter\<close> yields.

  The locale \<open>ordered_map\<close> states the contract the clients rely on (what a lookup returns after an
  update, and that updates keep the entries in strictly ascending key order); the interpretation
  \<open>bm\<close> discharges it for these definitions.
\<close>

type_synonym ('k, 'v) bmap = "('k \<times> 'v) list"
type_synonym 'k bset = "'k list"

named_theorems bm_simps

section \<open>Operations\<close>

fun bm_get :: "('k, 'v) bmap \<Rightarrow> 'k \<Rightarrow> 'v option" where
  "bm_get [] k = None"
| "bm_get ((k', v) # m) k = (if k = k' then Some v else bm_get m k)"

fun bm_insert :: "'k :: linorder \<Rightarrow> 'v \<Rightarrow> ('k, 'v) bmap \<Rightarrow> ('k, 'v) bmap" where
  "bm_insert k v [] = [(k, v)]"
| "bm_insert k v ((k', v') # m) =
     (if k < k' then (k, v) # (k', v') # m
      else if k = k' then (k, v) # m
      else (k', v') # bm_insert k v m)"

definition bm_remove :: "'k \<Rightarrow> ('k, 'v) bmap \<Rightarrow> ('k, 'v) bmap" where
  "bm_remove k m = filter (\<lambda>e. fst e \<noteq> k) m"

definition bm_keys :: "('k, 'v) bmap \<Rightarrow> 'k list" where
  "bm_keys m = map fst m"

definition bm_values :: "('k, 'v) bmap \<Rightarrow> 'v list" where
  "bm_values m = map snd m"

definition bm_contains :: "('k, 'v) bmap \<Rightarrow> 'k \<Rightarrow> bool" where
  "bm_contains m k = (bm_get m k \<noteq> None)"

definition bm_wf :: "('k :: linorder, 'v) bmap \<Rightarrow> bool" where
  "bm_wf m = sorted_wrt (<) (map fst m)"

fun bs_insert :: "'k :: linorder \<Rightarrow> 'k bset \<Rightarrow> 'k bset" where
  "bs_insert k [] = [k]"
| "bs_insert k (k' # s) =
     (if k < k' then k # k' # s else if k = k' then k' # s else k' # bs_insert k s)"

definition bs_remove :: "'k \<Rightarrow> 'k bset \<Rightarrow> 'k bset" where
  "bs_remove k s = filter (\<lambda>x. x \<noteq> k) s"

definition bs_of_list :: "'k :: linorder list \<Rightarrow> 'k bset" where
  "bs_of_list xs = fold bs_insert xs []"

definition bm_sum :: "('k \<Rightarrow> 'v \<Rightarrow> nat) \<Rightarrow> ('k, 'v) bmap \<Rightarrow> nat" where
  "bm_sum f m = (\<Sum>(k, v)\<leftarrow>m. f k v)"

section \<open>The contract of an ordered map\<close>

lemma entries_by_keys:
  assumes "map fst xs = map fst ys" and "set xs = set ys" and "distinct (map fst ys)"
  shows "xs = ys"
  using assms
proof (induction xs ys rule: list_induct2')
  case (4 x xs y ys)
  have fst: "fst x = fst y" and keys: "map fst xs = map fst ys" using 4(2) by simp_all
  have notin: "fst y \<notin> fst ` set ys" "fst x \<notin> fst ` set xs"
    using 4(4) fst arg_cong [OF keys, of set] by simp_all
  have "x \<in> set (y # ys)" using 4(3) by auto
  then have xy: "x = y" using notin fst by (metis image_eqI set_ConsD)
  have "x \<notin> set xs" "y \<notin> set ys" using notin by (meson image_eqI)+
  then have "set xs = set ys" using 4(3) xy by (simp add: insert_ident)
  then show ?case using 4 keys xy by simp
qed auto

locale ordered_map =
  fixes get :: "'m \<Rightarrow> 'k :: linorder \<Rightarrow> 'v option"
    and insert :: "'k \<Rightarrow> 'v \<Rightarrow> 'm \<Rightarrow> 'm"
    and remove :: "'k \<Rightarrow> 'm \<Rightarrow> 'm"
    and empty :: 'm
    and entries :: "'m \<Rightarrow> ('k \<times> 'v) list"
    and wf :: "'m \<Rightarrow> bool"
  assumes get_empty: "get empty k = None"
    and get_insert: "get (insert k v m) k' = (if k' = k then Some v else get m k')"
    and get_remove: "get (remove k m) k' = (if k' = k then None else get m k')"
    and get_entries: "wf m \<Longrightarrow> get m k = Some v \<longleftrightarrow> (k, v) \<in> set (entries m)"
    and entries_sorted: "wf m \<Longrightarrow> sorted_wrt (<) (map fst (entries m))"
    and wf_empty: "wf empty"
    and wf_insert: "wf m \<Longrightarrow> wf (insert k v m)"
    and wf_remove: "wf m \<Longrightarrow> wf (remove k m)"
begin

lemma distinct_keys: "wf m \<Longrightarrow> distinct (map fst (entries m))"
  using entries_sorted strict_sorted_iff by blast

text \<open>Two well-formed maps with the same lookups iterate identically.\<close>

lemma entries_ext:
  assumes "wf m" and "wf m'" and "\<And>k. get m k = get m' k"
  shows "entries m = entries m'"
proof -
  have keys: "set (map fst (entries m)) = set (map fst (entries m'))"
    using assms by (force simp: get_entries [symmetric])
  have "map fst (entries m) = map fst (entries m')"
    using assms(1,2) keys entries_sorted strict_sorted_equal by blast
  moreover have "set (entries m) = set (entries m')"
    using assms by (auto simp: get_entries [symmetric])
  ultimately show ?thesis
    by (rule entries_by_keys [OF _ _ distinct_keys [OF assms(2)]])
qed

lemma insert_overwrites:
  assumes "wf m"
  shows "entries (insert k v (insert k u m)) = entries (insert k v m)"
  by (rule entries_ext) (auto simp: assms get_insert wf_insert)

lemma insert_commutes:
  assumes "wf m" and "k \<noteq> k'"
  shows "entries (insert k v (insert k' v' m)) = entries (insert k' v' (insert k v m))"
  by (rule entries_ext) (auto simp: assms get_insert wf_insert)

end

section \<open>The association list meets the contract\<close>

lemma bm_get_insert [simp, bm_simps]:
  "bm_get (bm_insert k v m) k' = (if k' = k then Some v else bm_get m k')"
  by (induction m) auto

lemma bm_get_remove [simp, bm_simps]:
  "bm_get (bm_remove k m) k' = (if k' = k then None else bm_get m k')"
  by (induction m) (auto simp: bm_remove_def)

lemma set_keys_insert [simp]: "fst ` set (bm_insert k v m) = insert k (fst ` set m)"
  by (induction k v m rule: bm_insert.induct) (simp_all add: insert_commute)

lemma bm_wf_Nil [simp]: "bm_wf []"
  by (simp add: bm_wf_def)

lemma bm_wf_Cons: "bm_wf ((k, v) # m) \<longleftrightarrow> (\<forall>k' \<in> fst ` set m. k < k') \<and> bm_wf m"
  by (auto simp: bm_wf_def)

lemma bm_wf_insert [simp, intro]: "bm_wf m \<Longrightarrow> bm_wf (bm_insert k v m)"
proof (induction k v m rule: bm_insert.induct)
  case (2 k v k' v' m)
  consider "k < k'" | "k = k'" | "k' < k" by (rule linorder_cases)
  then show ?case
    using 2 by cases (fastforce simp: bm_wf_Cons simp del: image_set)+
qed (simp add: bm_wf_Cons)

lemma bm_wf_remove [simp, intro]: "bm_wf m \<Longrightarrow> bm_wf (bm_remove k m)"
  unfolding bm_wf_def bm_remove_def by (induction m) auto

lemma bm_get_None_iff: "bm_get m k = None \<longleftrightarrow> k \<notin> fst ` set m"
  by (induction m k rule: bm_get.induct) simp_all

lemma bm_get_set: "bm_get m k = Some v \<Longrightarrow> (k, v) \<in> set m"
  by (induction m) (auto split: if_splits)

lemma bm_get_iff: "bm_wf m \<Longrightarrow> bm_get m k = Some v \<longleftrightarrow> (k, v) \<in> set m"
  by (induction m k rule: bm_get.induct) (auto simp: bm_wf_Cons dest: bm_get_set)

interpretation bm: ordered_map bm_get bm_insert bm_remove "[]" "\<lambda>m. m" bm_wf
  by unfold_locales (auto simp: bm_get_iff, simp add: bm_wf_def)

lemma bm_contains_iff [simp]: "bm_contains m k \<longleftrightarrow> k \<in> fst ` set m"
  by (simp add: bm_contains_def bm_get_None_iff)

section \<open>Sums over a map\<close>

lemma bm_sum_Nil [simp]: "bm_sum f [] = 0"
  by (simp add: bm_sum_def)

lemma bm_sum_Cons [simp]: "bm_sum f ((k, v) # m) = f k v + bm_sum f m"
  by (simp add: bm_sum_def)

text \<open>
  Overwriting one entry moves the sum by the difference of the two contributions; stated
  additively, since the contributions are natural numbers.
\<close>

lemma bm_sum_insert:
  "bm_wf m \<Longrightarrow>
   bm_sum f (bm_insert k v m) + (case bm_get m k of None \<Rightarrow> 0 | Some u \<Rightarrow> f k u) =
   bm_sum f m + f k v"
proof (induction m)
  case Nil
  then show ?case by simp
next
  case (Cons e m)
  obtain k' v' where e: "e = (k', v')" by (cases e)
  have wf: "\<forall>x \<in> fst ` set m. k' < x" "bm_wf m"
    using Cons.prems by (simp_all add: e bm_wf_Cons)
  show ?case
  proof (cases "k < k'")
    case True
    then have "bm_get m k = None"
      using wf(1) by (force simp: bm_get_None_iff)
    with True show ?thesis using less_irrefl by (simp add: e) blast
  next
    case False
    with Cons.IH wf(2) show ?thesis by (auto simp: e)
  qed
qed

lemma bm_sum_insert_new:
  "bm_wf m \<Longrightarrow> bm_get m k = None \<Longrightarrow> bm_sum f (bm_insert k v m) = bm_sum f m + f k v"
  using bm_sum_insert [of m f k v] by simp

lemma bm_sum_insert_old:
  "bm_wf m \<Longrightarrow> bm_get m k = Some u \<Longrightarrow>
   bm_sum f (bm_insert k v m) + f k u = bm_sum f m + f k v"
  using bm_sum_insert [of m f k v] by simp

text \<open>
  The form the state machines need: one entry is rewritten and, at the same time, the weight of
  that entry (and only that one) may be read differently.
\<close>

lemma bm_sum_change:
  assumes "bm_wf m" and "bm_get m k = Some u" and "\<And>k' v'. k' \<noteq> k \<Longrightarrow> f k' v' = g k' v'"
  shows "bm_sum g (bm_insert k v m) + f k u = bm_sum f m + g k v"
  using assms(1,2)
proof (induction m)
  case Nil
  then show ?case by simp
next
  case (Cons e m)
  obtain k' v' where e: "e = (k', v')" by (cases e)
  have wf: "\<forall>x \<in> fst ` set m. k' < x" "bm_wf m"
    using Cons.prems by (simp_all add: e bm_wf_Cons)
  show ?case
  proof (cases "k = k'")
    case True
    have "bm_sum g m = bm_sum f m"
      using wf(1) True assms(3) by (induction m) force+
    with True Cons.prems(2) show ?thesis by (simp add: e)
  next
    case False
    with Cons.prems(2) have get: "bm_get m k = Some u" by (simp add: e)
    then have "k' < k" using wf(1) by (force dest: bm_get_set)
    moreover have "\<not> k < k'" using \<open>k' < k\<close> by simp
    ultimately show ?thesis
      using Cons.IH [OF wf(2) get] assms(3) [of k' v'] False by (simp add: e)
  qed
qed

lemma bm_sum_ge: "bm_get m k = Some u \<Longrightarrow> f k u \<le> bm_sum f m"
  by (induction m) (auto split: if_splits)

lemma bm_sum_cong:
  "(\<And>k v. (k, v) \<in> set m \<Longrightarrow> f k v = g k v) \<Longrightarrow> bm_sum f m = bm_sum g m"
  by (induction m) auto

lemma bm_sum_zero: "(\<And>k v. (k, v) \<in> set m \<Longrightarrow> f k v = 0) \<Longrightarrow> bm_sum f m = 0"
  by (induction m) auto

section \<open>Sets\<close>

lemma bs_insert_set [simp]: "set (bs_insert k s) = insert k (set s)"
  by (induction s) auto

lemma bs_remove_set [simp]: "set (bs_remove k s) = set s - {k}"
  by (auto simp: bs_remove_def)

lemma bs_insert_sorted [simp]: "sorted_wrt (<) s \<Longrightarrow> sorted_wrt (<) (bs_insert k s)"
  by (induction s) auto

lemma bs_remove_sorted [simp]: "sorted_wrt (<) s \<Longrightarrow> sorted_wrt (<) (bs_remove k s)"
  by (simp add: bs_remove_def sorted_wrt_filter)

lemma fold_bs_insert_set: "set (fold bs_insert xs s) = set xs \<union> set s"
  by (induction xs arbitrary: s) auto

lemma fold_bs_insert_sorted: "sorted_wrt (<) s \<Longrightarrow> sorted_wrt (<) (fold bs_insert xs s)"
  by (induction xs arbitrary: s) auto

lemma bs_of_list_set [simp]: "set (bs_of_list xs) = set xs"
  by (simp add: bs_of_list_def fold_bs_insert_set)

lemma bs_of_list_sorted [simp]: "sorted_wrt (<) (bs_of_list xs)"
  by (simp add: bs_of_list_def fold_bs_insert_sorted)

end
