(* ===== verification/Keys.thy ===== *)
theory Keys
  imports Btree
begin

text \<open>
  The composite keys the program orders its maps by, with the lexicographic orders Rust derives
  for them (fields in declaration order, enum variants in declaration order): the ledger's
  \<open>AccountKey\<close> (primitives/ledger/account.rs), the registry's \<open>StrategyKey\<close> and \<open>EventCursor\<close>
  (primitives/registry/event.rs) and \<open>TokenPair\<close> (primitives/registry/strategy.rs). Each is a
  linear order, so it can key a map of \<^theory_text>\<open>Btree\<close>.
\<close>

section \<open>Strategy keys\<close>

datatype strategy_key = StrategyKey (sk_maker: maker_id) (sk_app: address) (sk_hash: strategy_hash)

instantiation strategy_key :: linorder
begin

definition less_eq_strategy_key :: "strategy_key \<Rightarrow> strategy_key \<Rightarrow> bool" where
  "less_eq_strategy_key a b \<longleftrightarrow>
     (sk_maker a, sk_app a, sk_hash a) \<le> (sk_maker b, sk_app b, sk_hash b)"

definition less_strategy_key :: "strategy_key \<Rightarrow> strategy_key \<Rightarrow> bool" where
  "less_strategy_key a b \<longleftrightarrow>
     (sk_maker a, sk_app a, sk_hash a) < (sk_maker b, sk_app b, sk_hash b)"

instance
  by standard
    (auto simp: less_eq_strategy_key_def less_strategy_key_def less_eq_prod_def less_prod_def
      intro: strategy_key.expand)

end

section \<open>Token pairs\<close>

datatype token_pair = TokenPair (tp_lo: address) (tp_hi: address)

definition token_pair_new :: "address \<Rightarrow> address \<Rightarrow> token_pair" where
  "token_pair_new a b = TokenPair (min a b) (max a b)"

instantiation token_pair :: linorder
begin

definition less_eq_token_pair :: "token_pair \<Rightarrow> token_pair \<Rightarrow> bool" where
  "less_eq_token_pair a b \<longleftrightarrow> (tp_lo a, tp_hi a) \<le> (tp_lo b, tp_hi b)"

definition less_token_pair :: "token_pair \<Rightarrow> token_pair \<Rightarrow> bool" where
  "less_token_pair a b \<longleftrightarrow> (tp_lo a, tp_hi a) < (tp_lo b, tp_hi b)"

instance
  by standard
    (auto simp: less_eq_token_pair_def less_token_pair_def less_eq_prod_def less_prod_def
      intro: token_pair.expand)

end

lemma token_pair_new_commute: "token_pair_new a b = token_pair_new b a"
  by (simp add: token_pair_new_def min.commute max.commute)

section \<open>Event cursors\<close>

datatype event_cursor = EventCursor (ec_block: u64) (ec_log: u64)

instantiation event_cursor :: linorder
begin

definition less_eq_event_cursor :: "event_cursor \<Rightarrow> event_cursor \<Rightarrow> bool" where
  "less_eq_event_cursor a b \<longleftrightarrow> (ec_block a, ec_log a) \<le> (ec_block b, ec_log b)"

definition less_event_cursor :: "event_cursor \<Rightarrow> event_cursor \<Rightarrow> bool" where
  "less_event_cursor a b \<longleftrightarrow> (ec_block a, ec_log a) < (ec_block b, ec_log b)"

instance
  by standard
    (auto simp: less_eq_event_cursor_def less_event_cursor_def less_eq_prod_def less_prod_def
      intro: event_cursor.expand)

end

section \<open>Ledger accounts\<close>

datatype account_key =
    WalletBudget (ak_maker: maker_id) (ak_token: address)
  | StrategyVirtual (ak_maker: maker_id) (ak_hash: strategy_hash) (ak_token: address)

text \<open>The derived order compares the variant first, then the fields.\<close>

fun ak_rank :: "account_key \<Rightarrow> nat \<times> nat \<times> nat \<times> nat" where
  "ak_rank (WalletBudget m t) = (0, m, t, 0)"
| "ak_rank (StrategyVirtual m h t) = (1, m, h, t)"

lemma ak_rank_inj: "ak_rank a = ak_rank b \<Longrightarrow> a = b"
  by (cases a; cases b) auto

instantiation account_key :: linorder
begin

definition less_eq_account_key :: "account_key \<Rightarrow> account_key \<Rightarrow> bool" where
  "less_eq_account_key a b \<longleftrightarrow> ak_rank a \<le> ak_rank b"

definition less_account_key :: "account_key \<Rightarrow> account_key \<Rightarrow> bool" where
  "less_account_key a b \<longleftrightarrow> ak_rank a < ak_rank b"

instance
  by standard (auto simp: less_eq_account_key_def less_account_key_def intro: ak_rank_inj)

end

lemmas key_less_simps =
  less_eq_strategy_key_def less_strategy_key_def less_eq_token_pair_def less_token_pair_def
  less_eq_event_cursor_def less_event_cursor_def less_eq_account_key_def less_account_key_def

end
