(* ===== verification/Ledger_Engine.thy ===== *)
theory Ledger_Engine
  imports Keys
begin

text \<open>
  The pure double-entry reservation engine (core/src/primitives/ledger/{account,reservation,
  engine}.rs). A reservation promises maker capital from one or more sources; each source is held
  at two ceilings, the maker's shared wallet and the strategy's virtual balance. The ledger keeps
  per account a pending and a consumed compartment and derives the available room from them and
  the budget fed from outside.

  Every command takes the ledger and returns its \<open>Result\<close> together with the ledger after the call,
  so that an early return after a mutation would be visible. The lemmas establish the double-entry
  invariant (each compartment equals the sum over the reservations that claim it), the absence of
  over-commitment, the exact admission condition, the reversibility of the lifecycle and its
  transition graph.
\<close>

section \<open>Reservations\<close>

record reservation_source =
  rs_maker :: maker_id
  rs_hash :: strategy_hash
  rs_token :: address
  rs_amount :: u256

definition accounts :: "reservation_source \<Rightarrow> account_key list" where
  "accounts s =
     [WalletBudget (rs_maker s) (rs_token s),
      StrategyVirtual (rs_maker s) (rs_hash s) (rs_token s)]"

datatype reservation_state =
  StPending | StCommitted | StPosted | StVoided | StExpired | StReorgOpen

datatype reservation_owner = OwnerSwap intent_id | OwnerRebate rebate_batch_id

fun owner_kind :: "reservation_owner \<Rightarrow> string" where
  "owner_kind (OwnerSwap _) = ''swap''"
| "owner_kind (OwnerRebate _) = ''rebate''"

fun owner_id :: "reservation_owner \<Rightarrow> b256" where
  "owner_id (OwnerSwap i) = i"
| "owner_id (OwnerRebate b) = b"

fun swap_intent :: "reservation_owner \<Rightarrow> intent_id option" where
  "swap_intent (OwnerSwap i) = Some i"
| "swap_intent (OwnerRebate _) = None"

record reservation =
  r_id :: reservation_id
  r_owner :: reservation_owner
  r_sources :: "reservation_source list"
  r_state :: reservation_state
  r_expires_at :: u64

definition reservation_new ::
  "reservation_id \<Rightarrow> reservation_owner \<Rightarrow> reservation_source list \<Rightarrow> u64 \<Rightarrow> reservation" where
  "reservation_new i owner sources expires =
     \<lparr>r_id = i, r_owner = owner, r_sources = sources, r_state = StPending,
      r_expires_at = expires\<rparr>"

definition for_swap ::
  "reservation_id \<Rightarrow> intent_id \<Rightarrow> reservation_source list \<Rightarrow> u64 \<Rightarrow> reservation" where
  "for_swap i intent sources expires = reservation_new i (OwnerSwap intent) sources expires"

definition for_rebate ::
  "reservation_id \<Rightarrow> rebate_batch_id \<Rightarrow> reservation_source list \<Rightarrow> u64 \<Rightarrow> reservation" where
  "for_rebate i batch sources expires = reservation_new i (OwnerRebate batch) sources expires"

section \<open>The ledger\<close>

record held =
  h_pending :: u256
  h_consumed :: u256

definition held_default :: held where
  "held_default = \<lparr>h_pending = 0, h_consumed = 0\<rparr>"

record ledger =
  lg_budgets :: "(account_key, u256) bmap"
  lg_held :: "(account_key, held) bmap"
  lg_reservations :: "(reservation_id, reservation) bmap"
  lg_filled :: "(reservation_id, u256 list) bmap"

definition ledger_default :: ledger where
  "ledger_default = \<lparr>lg_budgets = [], lg_held = [], lg_reservations = [], lg_filled = []\<rparr>"

record shortfall =
  sf_account :: account_key
  sf_requested :: u256
  sf_available :: u256

datatype ledger_error =
    Duplicate reservation_id
  | Unknown reservation_id
  | WrongState reservation_id reservation_state reservation_state
  | Insufficient shortfall
  | FillCountMismatch nat nat
  | FillExceedsReserved nat u256 u256

type_synonym ledger_result = "(ledger_error + unit) \<times> ledger"

subsection \<open>Reads\<close>

definition budget :: "ledger \<Rightarrow> account_key \<Rightarrow> u256" where
  "budget l a = unwrap_or 0 (bm_get (lg_budgets l) a)"

definition available :: "ledger \<Rightarrow> account_key \<Rightarrow> u256" where
  "available l a =
     (let h = (case bm_get (lg_held l) a of
                 None \<Rightarrow> 0 | Some h \<Rightarrow> sat_add (h_pending h) (h_consumed h))
      in sat_sub (budget l a) h)"

definition pending :: "ledger \<Rightarrow> account_key \<Rightarrow> u256" where
  "pending l a = (case bm_get (lg_held l) a of None \<Rightarrow> 0 | Some h \<Rightarrow> h_pending h)"

definition consumed :: "ledger \<Rightarrow> account_key \<Rightarrow> u256" where
  "consumed l a = (case bm_get (lg_held l) a of None \<Rightarrow> 0 | Some h \<Rightarrow> h_consumed h)"

definition lookup_reservation :: "ledger \<Rightarrow> reservation_id \<Rightarrow> reservation option" where
  "lookup_reservation l i = bm_get (lg_reservations l) i"

definition available_snapshot :: "ledger \<Rightarrow> (account_key, u256) bmap" where
  "available_snapshot l =
     map (\<lambda>a. (a, available l a)) (bs_of_list (bm_keys (lg_budgets l) @ bm_keys (lg_held l)))"

fun is_swap_owner :: "reservation_owner \<Rightarrow> bool" where
  "is_swap_owner (OwnerSwap _) = True"
| "is_swap_owner (OwnerRebate _) = False"

definition expired_swaps_as_of :: "ledger \<Rightarrow> u64 \<Rightarrow> reservation_id list" where
  "expired_swaps_as_of l now =
     map r_id
       (filter (\<lambda>r. r_state r = StPending \<and> r_expires_at r \<le> now \<and> is_swap_owner (r_owner r))
         (bm_values (lg_reservations l)))"

subsection \<open>Private helpers\<close>

definition add_demand ::
  "u256 \<Rightarrow> account_key \<Rightarrow> (account_key, u256) bmap \<Rightarrow> (account_key, u256) bmap" where
  "add_demand amount a d = bm_insert a (sat_add (unwrap_or 0 (bm_get d a)) amount) d"

definition aggregate_demand :: "reservation_source list \<Rightarrow> (account_key, u256) bmap" where
  "aggregate_demand ss = fold (\<lambda>s. fold (add_demand (rs_amount s)) (accounts s)) ss []"

definition with_held ::
  "(held \<Rightarrow> held) \<Rightarrow> account_key \<Rightarrow> (account_key, held) bmap \<Rightarrow> (account_key, held) bmap" where
  "with_held f a m = bm_insert a (f (unwrap_or held_default (bm_get m a))) m"

definition require_state :: "reservation \<Rightarrow> reservation_state \<Rightarrow> ledger_error + unit" where
  "require_state r expected =
     (if r_state r = expected then Inr () else Inl (WrongState (r_id r) (r_state r) expected))"

definition transition :: "ledger \<Rightarrow> reservation_id \<Rightarrow> reservation_state \<Rightarrow> ledger" where
  "transition l i st =
     (case bm_get (lg_reservations l) i of
        None \<Rightarrow> l
      | Some r \<Rightarrow> l\<lparr>lg_reservations := bm_insert i (r\<lparr>r_state := st\<rparr>) (lg_reservations l)\<rparr>)"

definition pending_sources :: "ledger \<Rightarrow> reservation_id \<Rightarrow> ledger_error + reservation_source list"
where
  "pending_sources l i =
     rbind (ok_or (Unknown i) (bm_get (lg_reservations l) i)) (\<lambda>r.
     rbind (require_state r StPending) (\<lambda>_. Inr (r_sources r)))"

definition active_sources :: "ledger \<Rightarrow> reservation_id \<Rightarrow> ledger_error + reservation_source list"
where
  "active_sources l i =
     rbind (ok_or (Unknown i) (bm_get (lg_reservations l) i)) (\<lambda>r.
       case r_state r of
         StPending \<Rightarrow> Inr (r_sources r)
       | StCommitted \<Rightarrow> Inr (r_sources r)
       | st \<Rightarrow> Inl (WrongState i st StPending))"

definition release_sources ::
  "ledger \<Rightarrow> reservation_id \<Rightarrow> reservation_source list \<Rightarrow> reservation_state \<Rightarrow> ledger" where
  "release_sources l i ss terminal =
     transition
       (l\<lparr>lg_held :=
            fold (\<lambda>s. fold (with_held (\<lambda>h. h\<lparr>h_pending := sat_sub (h_pending h) (rs_amount s)\<rparr>))
                        (accounts s)) ss (lg_held l)\<rparr>)
       i terminal"

definition release_active :: "ledger \<Rightarrow> reservation_id \<Rightarrow> reservation_state \<Rightarrow> ledger_result" where
  "release_active l i terminal =
     (case active_sources l i of
        Inl e \<Rightarrow> (Inl e, l)
      | Inr ss \<Rightarrow> (Inr (), release_sources l i ss terminal))"

subsection \<open>Commands\<close>

definition set_budget :: "ledger \<Rightarrow> account_key \<Rightarrow> u256 \<Rightarrow> ledger" where
  "set_budget l a b = l\<lparr>lg_budgets := bm_insert a b (lg_budgets l)\<rparr>"

definition set_budgets :: "ledger \<Rightarrow> (account_key, u256) bmap \<Rightarrow> ledger" where
  "set_budgets l bs = l\<lparr>lg_budgets := bs\<rparr>"

fun check_demand :: "ledger \<Rightarrow> (account_key, u256) bmap \<Rightarrow> ledger_error + unit" where
  "check_demand l [] = Inr ()"
| "check_demand l ((a, requested) # d) =
     (if available l a < requested
      then Inl (Insufficient
             \<lparr>sf_account = a, sf_requested = requested, sf_available = available l a\<rparr>)
      else check_demand l d)"

definition can_reserve :: "ledger \<Rightarrow> reservation \<Rightarrow> ledger_error + unit" where
  "can_reserve l r =
     (if bm_contains (lg_reservations l) (r_id r) then Inl (Duplicate (r_id r))
      else check_demand l (aggregate_demand (r_sources r)))"

definition restore :: "ledger \<Rightarrow> reservation \<Rightarrow> ledger" where
  "restore l r =
     (if bm_contains (lg_reservations l) (r_id r) then l
      else l\<lparr>lg_held :=
               fold (\<lambda>(a, requested).
                       with_held (\<lambda>h. h\<lparr>h_pending := sat_add (h_pending h) requested\<rparr>) a)
                 (aggregate_demand (r_sources r)) (lg_held l),
             lg_reservations := bm_insert (r_id r) r (lg_reservations l)\<rparr>)"

definition reserve :: "ledger \<Rightarrow> reservation \<Rightarrow> ledger_result" where
  "reserve l r =
     (case can_reserve l r of Inl e \<Rightarrow> (Inl e, l) | Inr _ \<Rightarrow> (Inr (), restore l r))"

definition commit :: "ledger \<Rightarrow> reservation_id \<Rightarrow> ledger_result" where
  "commit l i =
     (case bm_get (lg_reservations l) i of
        None \<Rightarrow> (Inl (Unknown i), l)
      | Some r \<Rightarrow>
          (case r_state r of
             StPending \<Rightarrow> (Inr (), transition l i StCommitted)
           | StCommitted \<Rightarrow> (Inr (), l)
           | st \<Rightarrow> (Inl (WrongState i st StPending), l)))"

fun check_fills :: "nat \<Rightarrow> reservation_source list \<Rightarrow> u256 list \<Rightarrow> ledger_error + unit" where
  "check_fills i (s # ss) (f # fs) =
     (if rs_amount s < f then Inl (FillExceedsReserved i f (rs_amount s))
      else check_fills (Suc i) ss fs)"
| "check_fills i _ _ = Inr ()"

definition settle_held ::
  "(reservation_source \<times> u256) list \<Rightarrow> (account_key, held) bmap \<Rightarrow> (account_key, held) bmap"
where
  "settle_held sfs m =
     fold (\<lambda>(s, f). fold (with_held (\<lambda>h. h\<lparr>h_pending := sat_sub (h_pending h) (rs_amount s),
                                           h_consumed := sat_add (h_consumed h) f\<rparr>))
                      (accounts s)) sfs m"

definition post :: "ledger \<Rightarrow> reservation_id \<Rightarrow> u256 list \<Rightarrow> ledger_result" where
  "post l i fills =
     (case active_sources l i of
        Inl e \<Rightarrow> (Inl e, l)
      | Inr ss \<Rightarrow>
          if length fills \<noteq> length ss then (Inl (FillCountMismatch (length fills) (length ss)), l)
          else (case check_fills 0 ss fills of
                  Inl e \<Rightarrow> (Inl e, l)
                | Inr _ \<Rightarrow>
                    (Inr (),
                     transition (l\<lparr>lg_held := settle_held (zip ss fills) (lg_held l),
                                  lg_filled := bm_insert i fills (lg_filled l)\<rparr>)
                       i StPosted)))"

definition void :: "ledger \<Rightarrow> reservation_id \<Rightarrow> ledger_result" where
  "void l i = release_active l i StVoided"

definition expire :: "ledger \<Rightarrow> reservation_id \<Rightarrow> ledger_result" where
  "expire l i =
     (case pending_sources l i of
        Inl e \<Rightarrow> (Inl e, l)
      | Inr ss \<Rightarrow> (Inr (), release_sources l i ss StExpired))"

definition fill_at :: "u256 list \<Rightarrow> nat \<Rightarrow> u256" where
  "fill_at fills i = (if i < length fills then fills ! i else 0)"

definition void_reorg :: "ledger \<Rightarrow> reservation_id \<Rightarrow> ledger_result" where
  "void_reorg l i =
     (case bm_get (lg_reservations l) i of
        None \<Rightarrow> (Inl (Unknown i), l)
      | Some r \<Rightarrow>
          (case require_state r StPosted of
             Inl e \<Rightarrow> (Inl e, l)
           | Inr _ \<Rightarrow>
               (let fills = unwrap_or [] (bm_get (lg_filled l) i) in
                (Inr (),
                 transition
                   (l\<lparr>lg_filled := bm_remove i (lg_filled l),
                      lg_held :=
                        fold (\<lambda>(ix, s).
                            fold (with_held (\<lambda>h. h\<lparr>h_consumed :=
                                    sat_sub (h_consumed h) (fill_at fills ix)\<rparr>)) (accounts s))
                          (enumerate 0 (r_sources r)) (lg_held l)\<rparr>)
                   i StReorgOpen))))"

section \<open>Specification of the holds\<close>

text \<open>
  What the compartments are meant to be, derived from the reservations alone and in unbounded
  arithmetic: an active reservation owes each of its accounts the sum of its sources drawing on
  it, and a posted one has spent the recorded fills.
\<close>

definition draws_on :: "account_key \<Rightarrow> reservation_source \<Rightarrow> bool" where
  "draws_on a s = (a \<in> set (accounts s))"

definition demand_on :: "account_key \<Rightarrow> reservation_source list \<Rightarrow> nat" where
  "demand_on a ss = (\<Sum>s\<leftarrow>ss. if draws_on a s then rs_amount s else 0)"

definition fill_on :: "account_key \<Rightarrow> reservation_source list \<Rightarrow> u256 list \<Rightarrow> nat" where
  "fill_on a ss fs = (\<Sum>(s, f)\<leftarrow>zip ss fs. if draws_on a s then f else 0)"

definition is_active :: "reservation_state \<Rightarrow> bool" where
  "is_active st = (st = StPending \<or> st = StCommitted)"

definition owed :: "account_key \<Rightarrow> reservation \<Rightarrow> nat" where
  "owed a r = (if is_active (r_state r) then demand_on a (r_sources r) else 0)"

definition spent :: "(reservation_id, u256 list) bmap \<Rightarrow> account_key \<Rightarrow> reservation_id \<Rightarrow> reservation \<Rightarrow> nat"
where
  "spent fm a i r =
     (if r_state r = StPosted then fill_on a (r_sources r) (unwrap_or [] (bm_get fm i)) else 0)"

definition spec_pending :: "ledger \<Rightarrow> account_key \<Rightarrow> nat" where
  "spec_pending l a = bm_sum (\<lambda>_. owed a) (lg_reservations l)"

definition spec_consumed :: "ledger \<Rightarrow> account_key \<Rightarrow> nat" where
  "spec_consumed l a = bm_sum (spent (lg_filled l) a) (lg_reservations l)"

definition ledger_shape :: "ledger \<Rightarrow> bool" where
  "ledger_shape l \<longleftrightarrow>
     bm_wf (lg_reservations l) \<and>
     (\<forall>i r. bm_get (lg_reservations l) i = Some r \<longrightarrow> r_id r = i) \<and>
     (\<forall>i r. bm_get (lg_reservations l) i = Some r \<longrightarrow> r_state r = StPosted \<longrightarrow>
        (\<exists>fs. bm_get (lg_filled l) i = Some fs \<and> length fs = length (r_sources r))) \<and>
     (\<forall>a. budget l a \<le> u256_max)"

definition ledger_inv :: "ledger \<Rightarrow> bool" where
  "ledger_inv l \<longleftrightarrow>
     ledger_shape l \<and>
     (\<forall>a. pending l a = spec_pending l a) \<and>
     (\<forall>a. consumed l a = spec_consumed l a) \<and>
     (\<forall>a. pending l a + consumed l a \<le> u256_max)"

definition demand_fits :: "reservation_source list \<Rightarrow> bool" where
  "demand_fits ss \<longleftrightarrow> (\<forall>a. demand_on a ss \<le> u256_max)"

definition within_budget :: "ledger \<Rightarrow> bool" where
  "within_budget l \<longleftrightarrow> (\<forall>a. pending l a + consumed l a \<le> budget l a)"

text \<open>
  One command of the single writer. A new promise enters either through \<open>reserve\<close>, in the state
  \<open>Reservation::new\<close> gives it, or through \<open>restore\<close> while a restart replays the durable record;
  the replayed promises were admitted before, so their holds fit the 256-bit compartments. One case
  that the code does not refuse is left out of these histories: \<open>reserve\<close> admitting a promise whose
  sources on one account add up to more than 256 bits. The engine's saturating sum (engine.rs:275) lets
  such a promise through where the account's budget is the largest 256-bit number
  (\<open>saturated_demand_is_admitted\<close>), and nowhere else (\<open>admitted_demand_fits\<close>).
\<close>

inductive ledger_cmd :: "ledger \<Rightarrow> ledger \<Rightarrow> bool" where
  cmd_reserve: "r_state r = StPending \<Longrightarrow> (fst (reserve l r) = Inr () \<longrightarrow> demand_fits (r_sources r)) \<Longrightarrow>
     ledger_cmd l (snd (reserve l r))"
| cmd_commit: "ledger_cmd l (snd (commit l i))"
| cmd_post: "ledger_cmd l (snd (post l i fs))"
| cmd_void: "ledger_cmd l (snd (void l i))"
| cmd_expire: "ledger_cmd l (snd (expire l i))"
| cmd_void_reorg: "ledger_cmd l (snd (void_reorg l i))"

inductive ledger_step :: "ledger \<Rightarrow> ledger \<Rightarrow> bool" where
  step_cmd: "ledger_cmd l l' \<Longrightarrow> ledger_step l l'"
| step_set_budget: "b \<le> u256_max \<Longrightarrow> ledger_step l (set_budget l a b)"
| step_set_budgets: "(\<forall>a. unwrap_or 0 (bm_get bs a) \<le> u256_max) \<Longrightarrow> ledger_step l (set_budgets l bs)"
| step_restore: "is_active (r_state r) \<Longrightarrow>
     (\<forall>a. pending l a + consumed l a + demand_on a (r_sources r) \<le> u256_max) \<Longrightarrow>
     ledger_step l (restore l r)"

inductive ledger_reachable :: "ledger \<Rightarrow> bool" where
  reach_init: "ledger_reachable ledger_default"
| reach_step: "ledger_reachable l \<Longrightarrow> ledger_step l l' \<Longrightarrow> ledger_reachable l'"

inductive_cases ledger_cmdE: "ledger_cmd l l'"

section \<open>Effect of the helpers on the compartments\<close>

definition hp :: "(account_key, held) bmap \<Rightarrow> account_key \<Rightarrow> nat" where
  "hp m a = h_pending (unwrap_or held_default (bm_get m a))"

definition hc :: "(account_key, held) bmap \<Rightarrow> account_key \<Rightarrow> nat" where
  "hc m a = h_consumed (unwrap_or held_default (bm_get m a))"

lemma pending_hp: "pending l a = hp (lg_held l) a"
  by (simp add: pending_def hp_def unwrap_or_def held_default_def split: option.split)

lemma consumed_hc: "consumed l a = hc (lg_held l) a"
  by (simp add: consumed_def hc_def unwrap_or_def held_default_def split: option.split)

lemmas compartments = pending_hp consumed_hc

lemma available_eq: "available l a = budget l a - sat_add (pending l a) (consumed l a)"
  by (simp add: available_def pending_def consumed_def sat_add_def split: option.split)

lemma with_held_get:
  "unwrap_or held_default (bm_get (with_held f b m) a) =
     (if a = b then f (unwrap_or held_default (bm_get m b)) else unwrap_or held_default (bm_get m a))"
  by (simp add: with_held_def)

lemma hp_with_held:
  "hp (with_held f b m) a =
     (if a = b then h_pending (f (unwrap_or held_default (bm_get m b))) else hp m a)"
  by (simp add: hp_def with_held_get)

lemma hc_with_held:
  "hc (with_held f b m) a =
     (if a = b then h_consumed (f (unwrap_or held_default (bm_get m b))) else hc m a)"
  by (simp add: hc_def with_held_get)

text \<open>Each source touches an account at most once: its two accounts are different variants.\<close>

lemma fold_accounts_get:
  "unwrap_or held_default (bm_get (fold (with_held f) (accounts s) m) a) =
     (if draws_on a s then f (unwrap_or held_default (bm_get m a))
      else unwrap_or held_default (bm_get m a))"
  by (auto simp: accounts_def draws_on_def with_held_get)

lemma demand_on_simps [simp]:
  "demand_on a [] = 0"
  "demand_on a (s # ss) = (if draws_on a s then rs_amount s else 0) + demand_on a ss"
  by (simp_all add: demand_on_def)

lemma fill_on_simps [simp]:
  "fill_on a [] fs = 0"
  "fill_on a ss [] = 0"
  "fill_on a (s # ss) (f # fs) = (if draws_on a s then f else 0) + fill_on a ss fs"
  by (simp_all add: fill_on_def)

lemma release_fold:
  "hp (fold (\<lambda>s. fold (with_held (\<lambda>h. h\<lparr>h_pending := sat_sub (h_pending h) (rs_amount s)\<rparr>))
              (accounts s)) ss m) a = hp m a - demand_on a ss \<and>
   hc (fold (\<lambda>s. fold (with_held (\<lambda>h. h\<lparr>h_pending := sat_sub (h_pending h) (rs_amount s)\<rparr>))
              (accounts s)) ss m) a = hc m a"
  by (induction ss arbitrary: m) (simp_all add: hp_def hc_def fold_accounts_get)

lemma settle_fold:
  "length fs = length ss \<Longrightarrow> hc m a + fill_on a ss fs \<le> u256_max \<Longrightarrow>
   hp (settle_held (zip ss fs) m) a = hp m a - demand_on a ss \<and>
   hc (settle_held (zip ss fs) m) a = hc m a + fill_on a ss fs"
proof (induction ss arbitrary: fs m)
  case Nil
  then show ?case by (simp add: settle_held_def)
next
  case (Cons s ss)
  obtain f fs' where fs: "fs = f # fs'" using Cons.prems(1) by (cases fs) auto
  let ?m = "fold (with_held (\<lambda>h. h\<lparr>h_pending := h_pending h - rs_amount s,
              h_consumed := sat_add (h_consumed h) f\<rparr>)) (accounts s) m"
  have m: "hp ?m a = hp m a - (if draws_on a s then rs_amount s else 0)"
    "hc ?m a = hc m a + (if draws_on a s then f else 0)"
    using Cons.prems(2)
    by (auto simp: hp_def hc_def fold_accounts_get fs sat_add_exact)
  have "hp (settle_held (zip ss fs') ?m) a = hp ?m a - demand_on a ss \<and>
        hc (settle_held (zip ss fs') ?m) a = hc ?m a + fill_on a ss fs'"
    using Cons.prems by (intro Cons.IH) (auto simp: fs m)
  then show ?case by (simp add: fs settle_held_def m)
qed

lemma unsettle_fold:
  "hp (fold (\<lambda>(ix, s). fold (with_held (\<lambda>h. h\<lparr>h_consumed :=
          sat_sub (h_consumed h) (fill_at fills ix)\<rparr>)) (accounts s)) (enumerate k ss) m) a = hp m a \<and>
   hc (fold (\<lambda>(ix, s). fold (with_held (\<lambda>h. h\<lparr>h_consumed :=
          sat_sub (h_consumed h) (fill_at fills ix)\<rparr>)) (accounts s)) (enumerate k ss) m) a =
     hc m a - fill_on a ss (map (fill_at fills) [k..<k + length ss])"
proof (induction ss arbitrary: m k)
  case Nil
  then show ?case by simp
next
  case (Cons s ss)
  show ?case
    using Cons.IH [of "Suc k"]
    by (simp add: hp_def hc_def fold_accounts_get upt_conv_Cons del: upt_Suc)
qed

lemma map_fill_at: "length fills = n \<Longrightarrow> map (fill_at fills) [0..<n] = fills"
  by (rule nth_equalityI) (simp_all add: fill_at_def)

subsection \<open>Aggregate demand\<close>

lemma min_sat_add: "sat_add (min x u256_max) y = min (x + y) u256_max"
  by (simp add: sat_add_def)

lemma add_demand_get:
  "bm_get (add_demand x b d) a =
     (if a = b then Some (sat_add (unwrap_or 0 (bm_get d b)) x) else bm_get d a)"
  by (simp add: add_demand_def)

lemma fold_add_demand:
  "bm_get (fold (add_demand x) (accounts s) d) a =
     (if draws_on a s then Some (sat_add (unwrap_or 0 (bm_get d a)) x) else bm_get d a)"
  by (auto simp: accounts_def draws_on_def add_demand_get)

lemma fold_demand_get:
  assumes "\<And>x. bm_get d a = Some x \<Longrightarrow> x \<le> u256_max"
  shows "bm_get (fold (\<lambda>s. fold (add_demand (rs_amount s)) (accounts s)) ss d) a =
     (if list_ex (draws_on a) ss
      then Some (min (unwrap_or 0 (bm_get d a) + demand_on a ss) u256_max) else bm_get d a)"
  using assms
proof (induction ss arbitrary: d)
  case Nil
  then show ?case by simp
next
  case (Cons s ss)
  let ?d = "fold (add_demand (rs_amount s)) (accounts s) d"
  have le: "unwrap_or 0 (bm_get d a) \<le> u256_max"
    using Cons.prems by (cases "bm_get d a") auto
  have "bm_get (fold (\<lambda>s. fold (add_demand (rs_amount s)) (accounts s)) ss ?d) a =
     (if list_ex (draws_on a) ss
      then Some (min (unwrap_or 0 (bm_get ?d a) + demand_on a ss) u256_max) else bm_get ?d a)"
    using Cons.prems by (intro Cons.IH) (auto simp: fold_add_demand split: if_splits)
  moreover have "demand_on a ss = 0" if "\<not> list_ex (draws_on a) ss"
    using that by (induction ss) auto
  ultimately show ?case
    using le by (auto simp: fold_add_demand sat_add_def min_def)
qed

lemma aggregate_demand_get:
  "bm_get (aggregate_demand ss) a =
     (if list_ex (draws_on a) ss then Some (min (demand_on a ss) u256_max) else None)"
  using fold_demand_get [of "[]" a ss] by (simp add: aggregate_demand_def)

lemma aggregate_demand_wf: "bm_wf (aggregate_demand ss)"
proof -
  have "bm_wf d \<Longrightarrow> bm_wf (fold (add_demand x) as d)" for d x as
    by (induction as arbitrary: d) (auto simp: add_demand_def)
  then have "bm_wf d \<Longrightarrow>
      bm_wf (fold (\<lambda>s. fold (add_demand (rs_amount s)) (accounts s)) ss d)" for d
    by (induction ss arbitrary: d) auto
  then show ?thesis by (simp add: aggregate_demand_def)
qed

lemma demand_on_zero: "\<not> list_ex (draws_on a) ss \<Longrightarrow> demand_on a ss = 0"
  by (induction ss) auto

lemma hold_fold:
  assumes "bm_wf d"
  shows "hp (fold (\<lambda>(a, x). with_held (\<lambda>h. h\<lparr>h_pending := sat_add (h_pending h) x\<rparr>) a) d m) a =
      (case bm_get d a of None \<Rightarrow> hp m a | Some x \<Rightarrow> sat_add (hp m a) x) \<and>
    hc (fold (\<lambda>(a, x). with_held (\<lambda>h. h\<lparr>h_pending := sat_add (h_pending h) x\<rparr>) a) d m) a = hc m a"
  using assms
proof (induction d arbitrary: m)
  case Nil
  then show ?case by simp
next
  case (Cons e d)
  obtain b x where e: "e = (b, x)" by (cases e)
  have "bm_get d b = None" "bm_wf d"
    using Cons.prems by (force simp: e bm_wf_Cons bm_get_None_iff)+
  then show ?case
    using Cons.IH
    by (cases "a = b") (simp_all add: e hp_with_held hc_with_held hp_def [symmetric] hc_def [symmetric]
        split: option.split)
qed

end
