(* ===== verification/Ledger_Store.thy ===== *)
theory Ledger_Store
  imports Ledger_Invariant
begin

text \<open>
  Durable persistence of the reservation lifecycle: the \<open>LedgerStore\<close> port
  (core/src/deps/ledger/store.rs) as a record of operations over an abstract store state, the laws a
  client relies on as the locale \<open>ledger_store\<close>, and the SQLite adapter
  (adapters/src/ledger/sqlite_store.rs) as the provider, with the interpretation discharging the
  laws for it.

  The database is the table of reservation rows plus a schedule of faults: each port call consumes
  one entry and, when it says so, reports a database error without effect (the statement or its
  transaction did not run). JSON columns hold the value they encode.
\<close>

section \<open>The port\<close>

datatype store_error = Conflict reservation_id | Db

type_synonym 's store_result = "(store_error + unit) \<times> 's"

record 's store_ops =
  so_reserve :: "reservation \<Rightarrow> 's \<Rightarrow> 's store_result"
  so_commit :: "reservation_id \<Rightarrow> 's \<Rightarrow> 's store_result"
  so_post :: "reservation_id \<Rightarrow> u256 list \<Rightarrow> 's \<Rightarrow> 's store_result"
  so_void :: "reservation_id \<Rightarrow> 's \<Rightarrow> 's store_result"
  so_expire :: "reservation_id \<Rightarrow> 's \<Rightarrow> 's store_result"
  so_void_reorg :: "reservation_id \<Rightarrow> 's \<Rightarrow> 's store_result"
  so_open_reservations :: "'s \<Rightarrow> (store_error + reservation list) \<times> 's"

text \<open>
  The abstract store is a partial map from ids to reservations, each with its durable state. A
  transition moves a row that is in one of the admitted states and leaves every other row alone.
\<close>

definition move_row ::
  "reservation_state set \<Rightarrow> reservation_state \<Rightarrow> reservation_id \<Rightarrow>
   (reservation_id \<Rightarrow> reservation option) \<Rightarrow> reservation_id \<Rightarrow> reservation option" where
  "move_row from to i rows j =
     (if j = i then map_option (\<lambda>r. if r_state r \<in> from then r\<lparr>r_state := to\<rparr> else r) (rows j)
      else rows j)"

locale ledger_store =
  fixes ops :: "'s store_ops"
    and rows :: "'s \<Rightarrow> reservation_id \<Rightarrow> reservation option"
    and store_wf :: "'s \<Rightarrow> bool"
  assumes fault_free:
      "so_reserve ops r s = (Inl e, s') \<Longrightarrow> rows s' = rows s"
      "so_commit ops i s = (Inl e, s') \<Longrightarrow> rows s' = rows s"
      "so_post ops i fs s = (Inl e, s') \<Longrightarrow> rows s' = rows s"
      "so_void ops i s = (Inl e, s') \<Longrightarrow> rows s' = rows s"
      "so_expire ops i s = (Inl e, s') \<Longrightarrow> rows s' = rows s"
      "so_void_reorg ops i s = (Inl e, s') \<Longrightarrow> rows s' = rows s"
    and reserve_new:
      "store_wf s \<Longrightarrow> so_reserve ops r s = (Inr (), s') \<Longrightarrow> r_state r = StPending \<Longrightarrow>
       rows s (r_id r) = None \<or> rows s (r_id r) = Some r"
      "store_wf s \<Longrightarrow> so_reserve ops r s = (Inr (), s') \<Longrightarrow> r_state r = StPending \<Longrightarrow>
       rows s' = (rows s)(r_id r \<mapsto> r)"
    and transitions:
      "so_commit ops i s = (Inr (), s') \<Longrightarrow> rows s' = move_row {StPending} StCommitted i (rows s)"
      "so_post ops i fs s = (Inr (), s') \<Longrightarrow>
         rows s' = move_row {StPending, StCommitted} StPosted i (rows s)"
      "so_void ops i s = (Inr (), s') \<Longrightarrow>
         rows s' = move_row {StPending, StCommitted} StVoided i (rows s)"
      "so_expire ops i s = (Inr (), s') \<Longrightarrow> rows s' = move_row {StPending} StExpired i (rows s)"
      "so_void_reorg ops i s = (Inr (), s') \<Longrightarrow> rows s' = move_row {StPosted} StReorgOpen i (rows s)"
    and open_rows:
      "so_open_reservations ops s = (ores, s') \<Longrightarrow> rows s' = rows s"
      "store_wf s \<Longrightarrow> so_open_reservations ops s = (Inr rs, s') \<Longrightarrow>
         sorted_wrt (<) (map r_id rs) \<and>
         (\<forall>i r. rows s i = Some r \<and> is_active (r_state r) \<longleftrightarrow> r \<in> set rs \<and> r_id r = i)"
    and wf_kept:
      "store_wf s \<Longrightarrow> so_reserve ops r s = (res, s') \<Longrightarrow> store_wf s'"
      "store_wf s \<Longrightarrow> so_commit ops i s = (res, s') \<Longrightarrow> store_wf s'"
      "store_wf s \<Longrightarrow> so_post ops i fs s = (res, s') \<Longrightarrow> store_wf s'"
      "store_wf s \<Longrightarrow> so_void ops i s = (res, s') \<Longrightarrow> store_wf s'"
      "store_wf s \<Longrightarrow> so_expire ops i s = (res, s') \<Longrightarrow> store_wf s'"
      "store_wf s \<Longrightarrow> so_void_reorg ops i s = (res, s') \<Longrightarrow> store_wf s'"
      "store_wf s \<Longrightarrow> so_open_reservations ops s = (ores, s') \<Longrightarrow> store_wf s'"

section \<open>The SQLite adapter\<close>

record ledger_row =
  lr_owner_kind :: string
  lr_owner_id :: b256
  lr_sources :: "reservation_source list"
  lr_state :: string
  lr_filled :: "u256 list option"
  lr_expires_at :: nat

record sqlite =
  sq_rows :: "(reservation_id, ledger_row) bmap"
  sq_faults :: "bool list"

definition i64_max :: nat where
  "i64_max = 2 ^ 63 - 1"

definition i64_of :: "u64 \<Rightarrow> store_error + nat" where
  "i64_of v = (if v \<le> i64_max then Inr v else Inl Db)"

text \<open>One port call: a scheduled fault reports a database error and has no effect.\<close>

definition with_db ::
  "((reservation_id, ledger_row) bmap \<Rightarrow> (store_error + 'a) \<times> (reservation_id, ledger_row) bmap) \<Rightarrow>
   sqlite \<Rightarrow> (store_error + 'a) \<times> sqlite" where
  "with_db f s =
     (case sq_faults s of
        True # fs \<Rightarrow> (Inl Db, s\<lparr>sq_faults := fs\<rparr>)
      | _ \<Rightarrow> (let (res, rows) = f (sq_rows s) in (res, s\<lparr>sq_rows := rows, sq_faults := tl (sq_faults s)\<rparr>)))"

definition update_row ::
  "(ledger_row \<Rightarrow> ledger_row) \<Rightarrow> string list \<Rightarrow> reservation_id \<Rightarrow>
   (reservation_id, ledger_row) bmap \<Rightarrow> (reservation_id, ledger_row) bmap" where
  "update_row f from i rows =
     (case bm_get rows i of
        None \<Rightarrow> rows
      | Some row \<Rightarrow> if lr_state row \<in> set from then bm_insert i (f row) rows else rows)"

definition sqlite_transition ::
  "reservation_id \<Rightarrow> string \<Rightarrow> string \<Rightarrow> sqlite \<Rightarrow> sqlite store_result" where
  "sqlite_transition i to from =
     with_db (\<lambda>rows. (Inr (), update_row (\<lambda>row. row\<lparr>lr_state := to\<rparr>) [from] i rows))"

definition sqlite_reserve :: "reservation \<Rightarrow> sqlite \<Rightarrow> sqlite store_result" where
  "sqlite_reserve r =
     with_db (\<lambda>rows.
       case i64_of (r_expires_at r) of
         Inl e \<Rightarrow> (Inl e, rows)
       | Inr expires \<Rightarrow>
           (case bm_get rows (r_id r) of
              None \<Rightarrow>
                (Inr (),
                 bm_insert (r_id r)
                   \<lparr>lr_owner_kind = owner_kind (r_owner r), lr_owner_id = owner_id (r_owner r),
                    lr_sources = r_sources r, lr_state = ''pending'', lr_filled = None,
                    lr_expires_at = expires\<rparr> rows)
            | Some stored \<Rightarrow>
                let exact = lr_state stored = ''pending'' \<and>
                            lr_owner_kind stored = owner_kind (r_owner r) \<and>
                            lr_owner_id stored = owner_id (r_owner r) \<and>
                            lr_sources stored = r_sources r \<and> lr_expires_at stored = expires
                in (if exact then Inr () else Inl (Conflict (r_id r)), rows)))"

definition sqlite_commit :: "reservation_id \<Rightarrow> sqlite \<Rightarrow> sqlite store_result" where
  "sqlite_commit i = sqlite_transition i ''committed'' ''pending''"

definition sqlite_post :: "reservation_id \<Rightarrow> u256 list \<Rightarrow> sqlite \<Rightarrow> sqlite store_result" where
  "sqlite_post i filled =
     with_db (\<lambda>rows. (Inr (), update_row (\<lambda>row. row\<lparr>lr_state := ''posted'', lr_filled := Some filled\<rparr>)
                                [''pending'', ''committed''] i rows))"

definition sqlite_void :: "reservation_id \<Rightarrow> sqlite \<Rightarrow> sqlite store_result" where
  "sqlite_void i =
     with_db (\<lambda>rows. (Inr (), update_row (\<lambda>row. row\<lparr>lr_state := ''voided''\<rparr>)
                                [''pending'', ''committed''] i rows))"

definition sqlite_expire :: "reservation_id \<Rightarrow> sqlite \<Rightarrow> sqlite store_result" where
  "sqlite_expire i = sqlite_transition i ''expired'' ''pending''"

definition sqlite_void_reorg :: "reservation_id \<Rightarrow> sqlite \<Rightarrow> sqlite store_result" where
  "sqlite_void_reorg i = sqlite_transition i ''reorg_open'' ''posted''"

definition owner_of :: "string \<Rightarrow> b256 \<Rightarrow> store_error + reservation_owner" where
  "owner_of kind i =
     (if kind = ''swap'' then Inr (OwnerSwap i)
      else if kind = ''rebate'' then Inr (OwnerRebate i)
      else Inl Db)"

definition open_state_of :: "string \<Rightarrow> store_error + reservation_state" where
  "open_state_of st =
     (if st = ''pending'' then Inr StPending
      else if st = ''committed'' then Inr StCommitted
      else Inl Db)"

definition open_row :: "reservation_id \<times> ledger_row \<Rightarrow> store_error + reservation" where
  "open_row ir =
     rbind (owner_of (lr_owner_kind (snd ir)) (lr_owner_id (snd ir))) (\<lambda>owner.
     rbind (open_state_of (lr_state (snd ir))) (\<lambda>st.
       Inr ((reservation_new (fst ir) owner (lr_sources (snd ir)) (lr_expires_at (snd ir)))
              \<lparr>r_state := st\<rparr>)))"

fun collect :: "('e + 'a) list \<Rightarrow> 'e + 'a list" where
  "collect [] = Inr []"
| "collect (x # xs) = rbind x (\<lambda>y. rbind (collect xs) (\<lambda>ys. Inr (y # ys)))"

definition sqlite_open_reservations :: "sqlite \<Rightarrow> (store_error + reservation list) \<times> sqlite" where
  "sqlite_open_reservations =
     with_db (\<lambda>rows.
       (collect (map open_row (filter (\<lambda>(_, row). lr_state row \<in> {''pending'', ''committed''}) rows)),
        rows))"

definition sqlite_ops :: "sqlite store_ops" where
  "sqlite_ops =
     \<lparr>so_reserve = sqlite_reserve, so_commit = sqlite_commit, so_post = sqlite_post,
      so_void = sqlite_void, so_expire = sqlite_expire, so_void_reorg = sqlite_void_reorg,
      so_open_reservations = sqlite_open_reservations\<rparr>"

section \<open>The adapter meets the laws\<close>

text \<open>The reservation a row stands for; the labels are those the statements write.\<close>

fun state_label :: "reservation_state \<Rightarrow> string" where
  "state_label StPending = ''pending''"
| "state_label StCommitted = ''committed''"
| "state_label StPosted = ''posted''"
| "state_label StVoided = ''voided''"
| "state_label StExpired = ''expired''"
| "state_label StReorgOpen = ''reorg_open''"

definition row_state :: "string \<Rightarrow> reservation_state" where
  "row_state st =
     (if st = ''pending'' then StPending else if st = ''committed'' then StCommitted
      else if st = ''posted'' then StPosted else if st = ''voided'' then StVoided
      else if st = ''expired'' then StExpired else StReorgOpen)"

definition row_reservation :: "reservation_id \<Rightarrow> ledger_row \<Rightarrow> reservation" where
  "row_reservation i row =
     \<lparr>r_id = i,
      r_owner = (if lr_owner_kind row = ''swap'' then OwnerSwap (lr_owner_id row)
                 else OwnerRebate (lr_owner_id row)),
      r_sources = lr_sources row, r_state = row_state (lr_state row),
      r_expires_at = lr_expires_at row\<rparr>"

definition sqlite_rows :: "sqlite \<Rightarrow> reservation_id \<Rightarrow> reservation option" where
  "sqlite_rows s i = map_option (row_reservation i) (bm_get (sq_rows s) i)"

definition row_ok :: "ledger_row \<Rightarrow> bool" where
  "row_ok row \<longleftrightarrow> lr_owner_kind row \<in> {''swap'', ''rebate''}"

definition sqlite_wf :: "sqlite \<Rightarrow> bool" where
  "sqlite_wf s \<longleftrightarrow> bm_wf (sq_rows s) \<and> (\<forall>i row. bm_get (sq_rows s) i = Some row \<longrightarrow> row_ok row)"

lemma with_db_cases:
  assumes "with_db f s = (res, s')"
  obtains (fault) "res = Inl Db" and "sq_rows s' = sq_rows s"
    | (run) "f (sq_rows s) = (res, sq_rows s')"
proof (cases "\<exists>fs. sq_faults s = True # fs")
  case True
  then show ?thesis using assms fault by (auto simp: with_db_def)
next
  case False
  then have "with_db f s = (let (res, rows) = f (sq_rows s) in
      (res, s\<lparr>sq_rows := rows, sq_faults := tl (sq_faults s)\<rparr>))"
    by (auto simp: with_db_def split: list.split bool.split)
  then show ?thesis using assms run by (cases "f (sq_rows s)") auto
qed

lemma row_state_simps [simp]:
  "row_state ''pending'' = StPending" "row_state ''committed'' = StCommitted"
  "row_state ''posted'' = StPosted" "row_state ''voided'' = StVoided"
  "row_state ''expired'' = StExpired" "row_state ''reorg_open'' = StReorgOpen"
  by (simp_all add: row_state_def)

lemma row_state_pending: "row_state st = StPending \<longleftrightarrow> st = ''pending''"
  "row_state st = StCommitted \<longleftrightarrow> st = ''committed''"
  "row_state st = StPosted \<longleftrightarrow> st = ''posted''"
  by (auto simp: row_state_def)

lemma owner_label: "owner_kind ow \<in> {''swap'', ''rebate''}"
  "(if owner_kind ow = ''swap'' then OwnerSwap (owner_id ow) else OwnerRebate (owner_id ow)) = ow"
  by (cases ow; simp)+

lemma update_row_rows:
  assumes "\<And>row. row_reservation i (f row) = (row_reservation i row)\<lparr>r_state := to\<rparr>"
    and "\<And>st. st \<in> set from \<longleftrightarrow> row_state st \<in> from'"
  shows "sqlite_rows (s\<lparr>sq_rows := update_row f from i (sq_rows s)\<rparr>) =
         move_row from' to i (sqlite_rows s)"
proof
  fix j
  show "sqlite_rows (s\<lparr>sq_rows := update_row f from i (sq_rows s)\<rparr>) j =
      move_row from' to i (sqlite_rows s) j"
    using assms
    by (cases "bm_get (sq_rows s) i")
      (auto simp: sqlite_rows_def move_row_def update_row_def row_reservation_def)
qed

lemma same_rows:
  "sq_rows s' = sq_rows s \<Longrightarrow> sqlite_rows s' = sqlite_rows s \<and> sqlite_wf s' = sqlite_wf s"
  by (simp add: sqlite_rows_def fun_eq_iff sqlite_wf_def)

lemma update_call:
  assumes "with_db (\<lambda>rows. (Inr (), update_row f from i rows)) s = (res, s')"
    and f: "\<And>row. row_reservation i (f row) = (row_reservation i row)\<lparr>r_state := to\<rparr>"
    and labels: "\<And>st. st \<in> set from \<longleftrightarrow> row_state st \<in> from'"
    and kind: "\<And>row. lr_owner_kind (f row) = lr_owner_kind row"
  shows "(case res of Inl _ \<Rightarrow> sqlite_rows s' = sqlite_rows s
                    | Inr _ \<Rightarrow> sqlite_rows s' = move_row from' to i (sqlite_rows s)) \<and>
         (sqlite_wf s \<longrightarrow> sqlite_wf s')"
  using assms(1)
proof (cases rule: with_db_cases)
  case fault
  then show ?thesis using same_rows [OF fault(2)] by simp
next
  case run
  then have res: "res = Inr ()" and rows: "sq_rows s' = update_row f from i (sq_rows s)" by simp_all
  have "sqlite_rows s' = sqlite_rows (s\<lparr>sq_rows := update_row f from i (sq_rows s)\<rparr>)"
    by (rule same_rows [THEN conjunct1]) (simp add: rows)
  also have "\<dots> = move_row from' to i (sqlite_rows s)" by (rule update_row_rows [OF f labels])
  finally show ?thesis
    by (auto simp: res sqlite_wf_def rows update_row_def row_ok_def kind split: option.splits if_splits)
qed

lemma sqlite_calls:
  "sqlite_commit i s = (res, s') \<Longrightarrow>
     (case res of Inl _ \<Rightarrow> sqlite_rows s' = sqlite_rows s
      | Inr _ \<Rightarrow> sqlite_rows s' = move_row {StPending} StCommitted i (sqlite_rows s)) \<and>
     (sqlite_wf s \<longrightarrow> sqlite_wf s')"
  "sqlite_post i fs s = (res, s') \<Longrightarrow>
     (case res of Inl _ \<Rightarrow> sqlite_rows s' = sqlite_rows s
      | Inr _ \<Rightarrow> sqlite_rows s' = move_row {StPending, StCommitted} StPosted i (sqlite_rows s)) \<and>
     (sqlite_wf s \<longrightarrow> sqlite_wf s')"
  "sqlite_void i s = (res, s') \<Longrightarrow>
     (case res of Inl _ \<Rightarrow> sqlite_rows s' = sqlite_rows s
      | Inr _ \<Rightarrow> sqlite_rows s' = move_row {StPending, StCommitted} StVoided i (sqlite_rows s)) \<and>
     (sqlite_wf s \<longrightarrow> sqlite_wf s')"
  "sqlite_expire i s = (res, s') \<Longrightarrow>
     (case res of Inl _ \<Rightarrow> sqlite_rows s' = sqlite_rows s
      | Inr _ \<Rightarrow> sqlite_rows s' = move_row {StPending} StExpired i (sqlite_rows s)) \<and>
     (sqlite_wf s \<longrightarrow> sqlite_wf s')"
  "sqlite_void_reorg i s = (res, s') \<Longrightarrow>
     (case res of Inl _ \<Rightarrow> sqlite_rows s' = sqlite_rows s
      | Inr _ \<Rightarrow> sqlite_rows s' = move_row {StPosted} StReorgOpen i (sqlite_rows s)) \<and>
     (sqlite_wf s \<longrightarrow> sqlite_wf s')"
  unfolding sqlite_commit_def sqlite_post_def sqlite_void_def sqlite_expire_def
    sqlite_void_reorg_def sqlite_transition_def
  by (erule update_call; simp add: row_reservation_def row_state_pending)+

lemma sqlite_reserve_call:
  assumes "sqlite_reserve r s = (res, s')"
  shows "(isl res \<longrightarrow> sqlite_rows s' = sqlite_rows s) \<and> (sqlite_wf s \<longrightarrow> sqlite_wf s') \<and>
    (\<not> isl res \<longrightarrow> r_state r = StPending \<longrightarrow> sqlite_wf s \<longrightarrow>
       (sqlite_rows s (r_id r) = None \<or> sqlite_rows s (r_id r) = Some r) \<and>
       sqlite_rows s' = (sqlite_rows s)(r_id r \<mapsto> r))"
  using assms unfolding sqlite_reserve_def
proof (cases rule: with_db_cases)
  case fault
  then show ?thesis using same_rows [OF fault(2)] by simp
next
  case run
  have err: ?thesis if "isl res" and "sq_rows s' = sq_rows s"
    using that same_rows [OF that(2)] by simp
  show ?thesis
  proof (cases "i64_of (r_expires_at r)")
    case (Inl e)
    then show ?thesis using run by (intro err) auto
  next
    case (Inr expires)
    then have ex: "expires = r_expires_at r" by (simp add: i64_of_def split: if_splits)
    show ?thesis
    proof (cases "bm_get (sq_rows s) (r_id r)")
      case None
      then show ?thesis
        using run Inr ex owner_label [of "r_owner r"]
        by (auto simp: sqlite_rows_def fun_eq_iff row_reservation_def sqlite_wf_def row_ok_def
            dest!: sym [of _ "sq_rows s'"] split: if_splits) blast+
    next
      case (Some row)
      have rows: "sq_rows s' = sq_rows s" using run Inr Some by (simp add: Let_def)
      have "row_reservation (r_id r) row = r" if "\<not> isl res" "r_state r = StPending"
        using run Inr Some ex that owner_label(2) [of "r_owner r"]
        by (auto simp: row_reservation_def Let_def split: if_splits)
      then show ?thesis
        using same_rows [OF rows] Some by (auto simp: sqlite_rows_def fun_eq_iff)
    qed
  qed
qed

lemma collect_map_Inr:
  "(\<And>x. x \<in> set xs \<Longrightarrow> f x = Inr (g x)) \<Longrightarrow> collect (map f xs) = Inr (map g xs)"
  by (induction xs) simp_all

lemma open_row_ok:
  "row_ok row \<Longrightarrow> lr_state row \<in> {''pending'', ''committed''} \<Longrightarrow>
   open_row (i, row) = Inr (row_reservation i row)"
  by (auto simp: open_row_def owner_of_def open_state_of_def row_reservation_def row_ok_def
      reservation_new_def)

lemma sqlite_open_call:
  assumes "sqlite_open_reservations s = (res, s')"
  shows "sqlite_rows s' = sqlite_rows s \<and> (sqlite_wf s \<longrightarrow> sqlite_wf s') \<and>
    (\<forall>rs. res = Inr rs \<longrightarrow> sqlite_wf s \<longrightarrow>
      sorted_wrt (<) (map r_id rs) \<and>
      (\<forall>i r. sqlite_rows s i = Some r \<and> is_active (r_state r) \<longleftrightarrow> r \<in> set rs \<and> r_id r = i))"
  using assms unfolding sqlite_open_reservations_def
proof (cases rule: with_db_cases)
  case fault
  then show ?thesis using same_rows [OF fault(2)] by simp
next
  case run
  let ?open = "filter (\<lambda>(_, row). lr_state row \<in> {''pending'', ''committed''}) (sq_rows s)"
  have res: "res = collect (map open_row ?open)" and rows: "sq_rows s' = sq_rows s"
    using run by auto
  have "sorted_wrt (<) (map r_id rs) \<and>
      (\<forall>i r. sqlite_rows s i = Some r \<and> is_active (r_state r) \<longleftrightarrow> r \<in> set rs \<and> r_id r = i)"
    if rs: "res = Inr rs" and wf: "sqlite_wf s" for rs
  proof -
    have bwf: "bm_wf (sq_rows s)" using wf by (simp add: sqlite_wf_def)
    have "collect (map open_row ?open) = Inr (map (\<lambda>(i, row). row_reservation i row) ?open)"
      using wf bm_get_iff [OF bwf]
      by (intro collect_map_Inr) (auto simp: sqlite_wf_def intro!: open_row_ok)
    then have eq: "rs = map (\<lambda>(i, row). row_reservation i row) ?open" using rs res by simp
    have "map r_id rs = map fst ?open" by (auto simp: eq row_reservation_def)
    moreover have "sorted_wrt (<) (map fst ?open)"
      using bwf unfolding bm_wf_def sorted_wrt_map by (rule sorted_wrt_filter)
    moreover have "sqlite_rows s i = Some r \<and> is_active (r_state r) \<longleftrightarrow> r \<in> set rs \<and> r_id r = i" for i r
    proof -
      have "sqlite_rows s i = Some r \<longleftrightarrow> (\<exists>row. (i, row) \<in> set (sq_rows s) \<and> r = row_reservation i row)"
        using bm_get_iff [OF bwf] by (auto simp: sqlite_rows_def)
      moreover have "r \<in> set rs \<longleftrightarrow> (\<exists>j row. (j, row) \<in> set (sq_rows s) \<and>
          lr_state row \<in> {''pending'', ''committed''} \<and> r = row_reservation j row)"
        by (auto simp: eq)
      moreover have "is_active (r_state (row_reservation j row)) \<longleftrightarrow>
          lr_state row \<in> {''pending'', ''committed''}" "r_id (row_reservation j row) = j" for j row
        by (auto simp: row_reservation_def is_active_def row_state_pending)
      ultimately show ?thesis by auto
    qed
    ultimately show ?thesis by simp
  qed
  then show ?thesis using same_rows [OF rows] by simp
qed

interpretation sqlite: ledger_store sqlite_ops sqlite_rows sqlite_wf
  by unfold_locales
    (auto simp: sqlite_ops_def dest!: sqlite_calls sqlite_reserve_call sqlite_open_call)

end
