(* ===== verification/Pricing.thy ===== *)
theory Pricing
  imports Prelude
begin

text \<open>
  Exact-rational pricing arithmetic (core/src/primitives/pricing.rs). A \<open>Ratio\<close> is a reduced
  non-negative \<open>BigRational\<close>, here a \<^typ>\<open>rat\<close>, whose numerator and denominator are those of its
  reduced form. Integer square roots (\<open>U256::root(2)\<close>, \<open>BigInt::sqrt\<close>) are the floor square root.
\<close>

section \<open>Integer square root\<close>

fun isqrt :: "nat \<Rightarrow> nat" where
  "isqrt n =
     (if n = 0 then 0
      else let r = 2 * isqrt (n div 4) in if (r + 1) * (r + 1) \<le> n then r + 1 else r)"

declare isqrt.simps [simp del]

lemma isqrt_bounds: "isqrt n * isqrt n \<le> n \<and> n < (isqrt n + 1) * (isqrt n + 1)"
proof (induction n rule: isqrt.induct)
  case (1 n)
  show ?case
  proof (cases "n = 0")
    case True
    then show ?thesis by (simp add: isqrt.simps [of 0])
  next
    case False
    define q where "q = isqrt (n div 4)"
    have IH: "q * q \<le> n div 4" "n div 4 < (q + 1) * (q + 1)"
      using 1 [OF False] by (simp_all add: q_def)
    have up: "4 * (q * q) \<le> n" using IH(1) by linarith
    have "n div 4 + 1 \<le> (q + 1) * (q + 1)" using IH(2) by linarith
    then have "4 * (n div 4 + 1) \<le> 4 * ((q + 1) * (q + 1))" by (rule mult_le_mono2)
    moreover have "n < 4 * (n div 4 + 1)"
      using mod_less_divisor [of 4 n] mult_div_mod_eq [of 4 n] by simp
    ultimately have lo: "n < (2 * q + 2) * (2 * q + 2)" by (simp add: algebra_simps)
    show ?thesis
      using up lo False
      by (simp add: isqrt.simps [of n] Let_def algebra_simps flip: q_def)
  qed
qed

lemma isqrt_le: "isqrt n * isqrt n \<le> n"
  using isqrt_bounds by blast

lemma isqrt_less: "n < (isqrt n + 1) * (isqrt n + 1)"
  using isqrt_bounds by blast

lemma le_isqrt_iff: "r \<le> isqrt n \<longleftrightarrow> r * r \<le> n"
proof
  assume "r \<le> isqrt n"
  then have "r * r \<le> isqrt n * isqrt n" by (intro mult_mono) auto
  then show "r * r \<le> n" using isqrt_le [of n] by linarith
next
  assume le: "r * r \<le> n"
  show "r \<le> isqrt n"
  proof (rule ccontr)
    assume "\<not> r \<le> isqrt n"
    then have "(isqrt n + 1) * (isqrt n + 1) \<le> r * r" by (intro mult_mono) auto
    with le isqrt_less [of n] show False by linarith
  qed
qed

lemma isqrt_eqI: "r * r \<le> n \<Longrightarrow> n < (r + 1) * (r + 1) \<Longrightarrow> isqrt n = r"
  using le_isqrt_iff [of r n] le_isqrt_iff [of "r + 1" n] by linarith

lemma isqrt_mono: "m \<le> n \<Longrightarrow> isqrt m \<le> isqrt n"
  using isqrt_le [of m] by (simp add: le_isqrt_iff)

section \<open>Ratios\<close>

type_synonym ratio = rat

definition ratio_new :: "u256 \<Rightarrow> u256 \<Rightarrow> ratio option" where
  "ratio_new num den = (if den = 0 then None else Some (of_nat num / of_nat den))"

definition ratio_invert :: "ratio \<Rightarrow> ratio option" where
  "ratio_invert r = (if r = 0 then None else Some (1 / r))"

definition ratio_zero :: ratio where
  "ratio_zero = 0"

definition ratio_is_zero :: "ratio \<Rightarrow> bool" where
  "ratio_is_zero r = (r = 0)"

definition ratio_from :: "u256 \<Rightarrow> ratio" where
  "ratio_from n = of_nat n"

definition ratio_mul :: "ratio \<Rightarrow> ratio \<Rightarrow> ratio" where
  "ratio_mul a b = a * b"

definition ratio_add :: "ratio \<Rightarrow> ratio \<Rightarrow> ratio" where
  "ratio_add a b = a + b"

definition from_bigint :: "int \<Rightarrow> u256 option" where
  "from_bigint x = (if 0 \<le> x \<and> nat x \<le> u256_max then Some (nat x) else None)"

definition floor_sqrt :: "ratio \<Rightarrow> u256 option" where
  "floor_sqrt r =
     (case quotient_of r of (num, den) \<Rightarrow> from_bigint (int (isqrt (nat (num * den))) div den))"

definition ratio_floor :: "ratio \<Rightarrow> u256 option" where
  "ratio_floor r = from_bigint \<lfloor>r\<rfloor>"

definition ratio_ceil :: "ratio \<Rightarrow> u256 option" where
  "ratio_ceil r = from_bigint \<lceil>r\<rceil>"

definition doubled :: "ratio \<Rightarrow> ratio" where
  "doubled r = r * 2"

definition midpoint :: "ratio \<Rightarrow> ratio \<Rightarrow> ratio" where
  "midpoint a b = (a + b) / 2"

definition rel_diff_bps :: "ratio \<Rightarrow> ratio \<Rightarrow> u64" where
  "rel_diff_bps a b =
     (if b = 0 then u64_max
      else let bps = nat \<lfloor>\<bar>a - b\<bar> / b * 10000\<rfloor> in if bps \<le> u64_max then bps else u64_max)"

record limited_quote =
  lq_amount_in :: u256
  lq_amount_out :: u256
  lq_limited :: bool

lemmas ratio_defs = ratio_zero_def ratio_is_zero_def ratio_from_def ratio_mul_def ratio_add_def

lemma ratio_new_Some [simp]:
  "ratio_new n d = Some r \<longleftrightarrow> d \<noteq> 0 \<and> r = of_nat n / of_nat d"
  by (auto simp: ratio_new_def)

lemma ratio_parts:
  assumes "0 \<le> r"
  obtains n d where "quotient_of r = (int n, int d)" and "0 < d" and "r = of_nat n / of_nat d"
proof -
  obtain p q where pq: "quotient_of r = (p, q)" by (cases "quotient_of r")
  have q: "0 < q" using quotient_of_denom_pos [OF pq] .
  have r: "r = of_int p / of_int q" by (rule quotient_of_div [OF pq])
  have p: "0 \<le> p" using assms q by (simp add: r zero_le_divide_iff)
  show ?thesis
    by (rule that [of "nat p" "nat q"]) (use p q pq in \<open>simp_all\<close>, simp add: r of_nat_nat)
qed

text \<open>
  \<open>floor_sqrt\<close> is the floor of the real square root, in the form the callers use: an integer is
  below it exactly when its square is at most the ratio.
\<close>

lemma floor_sqrt_iff:
  assumes "0 \<le> r"
  shows "\<exists>s. (\<forall>x :: nat. x \<le> s \<longleftrightarrow> of_nat (x * x) \<le> r) \<and>
             floor_sqrt r = (if s \<le> u256_max then Some s else None)"
proof -
  obtain n d where q: "quotient_of r = (int n, int d)" and d: "0 < d"
    and r: "r = of_nat n / of_nat d" using ratio_parts [OF assms] .
  define s where "s = isqrt (n * d) div d"
  have "x \<le> s \<longleftrightarrow> of_nat (x * x) \<le> r" for x :: nat
  proof -
    have "x \<le> s \<longleftrightarrow> x * d \<le> isqrt (n * d)"
      using d by (simp add: s_def less_eq_div_iff_mult_less_eq)
    also have "\<dots> \<longleftrightarrow> (x * x * d) * d \<le> n * d" by (simp add: le_isqrt_iff ac_simps)
    also have "\<dots> \<longleftrightarrow> x * x * d \<le> n" using d by simp
    also have "\<dots> \<longleftrightarrow> (of_nat (x * x * d) :: rat) \<le> of_nat n" by (simp only: of_nat_le_iff)
    also have "\<dots> \<longleftrightarrow> of_nat (x * x) \<le> r"
      using d by (simp add: r pos_le_divide_eq)
    finally show ?thesis .
  qed
  moreover have "floor_sqrt r = (if s \<le> u256_max then Some s else None)"
    by (simp add: floor_sqrt_def q from_bigint_def s_def flip: of_nat_mult zdiv_int)
  ultimately show ?thesis by blast
qed

end
