(* ===== verification/Registry_Decode.thy ===== *)
theory Registry_Decode
  imports Keys
begin

text \<open>
  Decoding a shipped strategy into the curve it prices as (core/src/primitives/registry/curve.rs).
  A program is a byte sequence of \<open>[opcode][argsLen][args]\<close> instructions; \<open>walk\<close> splits it,
  \<open>classify\<close> sorts the instructions into price-neutral ones, flat fees and curve-defining ones, and
  \<open>curve_of\<close> builds the curve when its parameters are in the contract's domain. The ABI decoder of
  the \<open>Order\<close> envelope (alloy-sol-types) is the parameter \<open>abi_decode\<close>.

  The lemmas show that \<open>walk\<close> inverts the instruction encoding exactly, what a priceable
  classification means in terms of the instructions, and that every priceable curve carries
  parameters the on-chain parser accepts.
\<close>

type_synonym byte = nat
type_synonym instruction = "byte \<times> byte list"

section \<open>Types\<close>

record pegged_params =
  pg_x0 :: u256
  pg_y0 :: u256
  pg_linear_width :: u256
  pg_rate_lt :: u256
  pg_rate_gt :: u256

datatype curve =
    Xyc
  | Concentrate (sqrt_price_min: u256) (sqrt_price_max: u256)
  | Pegged pegged_params

fun curve_label :: "curve \<Rightarrow> string" where
  "curve_label Xyc = ''XYC''"
| "curve_label (Concentrate _ _) = ''Concentrated''"
| "curve_label (Pegged _) = ''Pegged''"

datatype curve_spec = Priceable curve "nat list" | Unsupported

record order =
  o_maker :: address
  o_traits :: u256
  o_data :: "byte list"

section \<open>Constants\<close>

definition OP_XYC_SWAP :: byte where "OP_XYC_SWAP = 0x11"
definition OP_XYC_CONCENTRATE :: byte where "OP_XYC_CONCENTRATE = 0x12"
definition OP_PEGGED_SWAP :: byte where "OP_PEGGED_SWAP = 0x1F"
definition OP_SALT :: byte where "OP_SALT = 0x14"
definition OP_FLAT_FEE :: byte where "OP_FLAT_FEE = 0x15"

definition PRICE_NEUTRAL :: "byte list" where
  "PRICE_NEUTRAL = [OP_SALT, 0x0D, 0x0E, 0x0F, 0x10, 0x21]"

definition CONCENTRATE_ARGS_LEN :: nat where "CONCENTRATE_ARGS_LEN = 64"
definition PEGGED_ARGS_LEN :: nat where "PEGGED_ARGS_LEN = 160"
definition FEE_BPS_DENOMINATOR :: nat where "FEE_BPS_DENOMINATOR = 1000000000"

lemmas opcode_defs = OP_XYC_SWAP_def OP_XYC_CONCENTRATE_def OP_PEGGED_SWAP_def OP_SALT_def
  OP_FLAT_FEE_def PRICE_NEUTRAL_def

section \<open>Operations\<close>

definition be_nat :: "byte list \<Rightarrow> nat" where
  "be_nat bs = fold (\<lambda>b acc. acc * 256 + b) bs 0"

definition slice :: "nat \<Rightarrow> nat \<Rightarrow> 'a list \<Rightarrow> 'a list" where
  "slice i j xs = take (j - i) (drop i xs)"

text \<open>
  The loop of \<open>walk\<close>: at least two bytes left means another instruction, whose arguments must not
  overrun; when the loop ends nothing may be left over.
\<close>

fun walk_loop :: "byte list \<Rightarrow> instruction list \<Rightarrow> instruction list option" where
  "walk_loop (opcode # args_len # tail) instructions =
     (if args_len \<le> length tail
      then walk_loop (drop args_len tail) (instructions @ [(opcode, take args_len tail)])
      else None)"
| "walk_loop rest instructions = (if rest = [] then Some instructions else None)"

definition walk :: "byte list \<Rightarrow> instruction list option" where
  "walk program = walk_loop program []"

definition parse_flat_fee :: "byte list \<Rightarrow> nat option" where
  "parse_flat_fee args =
     (if length args = 4
      then (let bps = be_nat args in if bps \<le> FEE_BPS_DENOMINATOR then Some bps else None)
      else None)"

definition max_linear_width :: u256 where
  "max_linear_width = 5000 * 10 ^ 27"

definition is_pegged_in_domain :: "pegged_params \<Rightarrow> bool" where
  "is_pegged_in_domain p \<longleftrightarrow>
     pg_x0 p \<noteq> 0 \<and> pg_y0 p \<noteq> 0 \<and> pg_rate_lt p \<noteq> 0 \<and> pg_rate_gt p \<noteq> 0 \<and>
     pg_linear_width p \<le> max_linear_width"

definition curve_of :: "instruction list \<Rightarrow> curve option" where
  "curve_of ixs =
     (case ixs of
        [(op, args)] \<Rightarrow>
          if op = OP_XYC_SWAP then Some Xyc
          else if op = OP_PEGGED_SWAP \<and> length args = PEGGED_ARGS_LEN then
            (let params = \<lparr>pg_x0 = be_nat (slice 0 32 args), pg_y0 = be_nat (slice 32 64 args),
                           pg_linear_width = be_nat (slice 64 96 args),
                           pg_rate_lt = be_nat (slice 96 128 args),
                           pg_rate_gt = be_nat (slice 128 160 args)\<rparr>
             in if is_pegged_in_domain params then Some (Pegged params) else None)
          else None
      | [(op_conc, args), (op_swap, _)] \<Rightarrow>
          if op_conc = OP_XYC_CONCENTRATE \<and> op_swap = OP_XYC_SWAP \<and>
             length args = CONCENTRATE_ARGS_LEN then
            (let smin = be_nat (slice 0 32 args); smax = be_nat (slice 32 64 args)
             in if smin \<noteq> 0 \<and> smin < smax then Some (Concentrate smin smax) else None)
          else None
      | _ \<Rightarrow> None)"

text \<open>The loop of \<open>classify\<close>; \<open>None\<close> is its early \<open>return Unsupported\<close>.\<close>

fun classify_loop ::
  "instruction list \<Rightarrow> nat list \<Rightarrow> instruction list \<Rightarrow> (nat list \<times> instruction list) option" where
  "classify_loop [] fees curve_ixs = Some (fees, curve_ixs)"
| "classify_loop ((opcode, args) # rest) fees curve_ixs =
     (if opcode = OP_FLAT_FEE then
        (case parse_flat_fee args of
           Some bps \<Rightarrow> classify_loop rest (fees @ [bps]) curve_ixs
         | None \<Rightarrow> None)
      else if opcode = OP_XYC_SWAP \<or> opcode = OP_XYC_CONCENTRATE \<or> opcode = OP_PEGGED_SWAP then
        classify_loop rest fees (curve_ixs @ [(opcode, args)])
      else if opcode \<in> set PRICE_NEUTRAL then classify_loop rest fees curve_ixs
      else None)"

definition classify :: "byte list \<Rightarrow> curve_spec" where
  "classify program =
     (case walk program of
        None \<Rightarrow> Unsupported
      | Some instructions \<Rightarrow>
          (case classify_loop instructions [] [] of
             None \<Rightarrow> Unsupported
           | Some (fees, curve_ixs) \<Rightarrow>
               (case curve_of curve_ixs of
                  Some c \<Rightarrow> Priceable c fees
                | None \<Rightarrow> Unsupported)))"

definition program_of :: "(byte list \<Rightarrow> order option) \<Rightarrow> byte list \<Rightarrow> byte list option" where
  "program_of abi_decode strategy =
     (case abi_decode strategy of
        None \<Rightarrow> None
      | Some order \<Rightarrow>
          (let start = (o_traits order div 2 ^ 208) mod 65536
           in if start \<le> length (o_data order) then Some (drop start (o_data order)) else None))"

definition decode_strategy :: "(byte list \<Rightarrow> order option) \<Rightarrow> byte list \<Rightarrow> curve_spec" where
  "decode_strategy abi_decode strategy =
     (case program_of abi_decode strategy of
        Some program \<Rightarrow> classify program
      | None \<Rightarrow> Unsupported)"

section \<open>The instruction encoding\<close>

definition encode_instruction :: "instruction \<Rightarrow> byte list" where
  "encode_instruction ix = fst ix # length (snd ix) # snd ix"

definition encode_program :: "instruction list \<Rightarrow> byte list" where
  "encode_program ixs = concat (map encode_instruction ixs)"

lemma encode_program_simps [simp]:
  "encode_program [] = []"
  "encode_program ((op, args) # ixs) = op # length args # args @ encode_program ixs"
  by (simp_all add: encode_program_def encode_instruction_def)

lemma walk_loop_encode: "walk_loop (encode_program ixs) acc = Some (acc @ ixs)"
  by (induction ixs arbitrary: acc) auto

lemma walk_loop_sound:
  "walk_loop p acc = Some out \<Longrightarrow> \<exists>ixs. out = acc @ ixs \<and> p = encode_program ixs"
proof (induction p acc rule: walk_loop.induct)
  case (1 opcode n tail acc)
  then have n: "n \<le> length tail"
    and run: "walk_loop (drop n tail) (acc @ [(opcode, take n tail)]) = Some out"
    by (auto split: if_splits)
  from 1(1) [OF n run] obtain ixs where
    "out = (acc @ [(opcode, take n tail)]) @ ixs" "drop n tail = encode_program ixs" by blast
  then have "out = acc @ ((opcode, take n tail) # ixs)"
    "opcode # n # tail = encode_program ((opcode, take n tail) # ixs)"
    using n append_take_drop_id [of n tail] by (simp_all add: min_absorb2)
  then show ?case by blast
qed (auto intro: exI [of _ "[]"])

lemma walk_eq: "walk p = Some ixs \<longleftrightarrow> p = encode_program ixs"
  using walk_loop_encode [of ixs "[]"] walk_loop_sound [of p "[]" ixs] by (auto simp: walk_def)

text \<open>
  C27. \<open>walk\<close> is the exact inverse of the instruction encoding: a byte sequence splits into a list of
  instructions precisely when it is their concatenated encoding, so parsing neither drops, merges
  nor invents instructions, and a truncated or overlong tail is refused.
\<close>

theorem walk_inverts_encoding: "walk p = Some ixs \<longleftrightarrow> p = encode_program ixs"
  by (rule walk_eq)

section \<open>Meaning of a classification\<close>

definition curve_ix :: "instruction \<Rightarrow> bool" where
  "curve_ix ix \<longleftrightarrow> fst ix \<in> {OP_XYC_SWAP, OP_XYC_CONCENTRATE, OP_PEGGED_SWAP}"

definition fee_of :: "instruction \<Rightarrow> nat option" where
  "fee_of ix = (if fst ix = OP_FLAT_FEE then parse_flat_fee (snd ix) else None)"

definition supported_ix :: "instruction \<Rightarrow> bool" where
  "supported_ix ix \<longleftrightarrow> fee_of ix \<noteq> None \<or> curve_ix ix \<or> fst ix \<in> set PRICE_NEUTRAL"

lemma classify_loop_spec:
  "classify_loop ixs fees cs = Some (f, c) \<longleftrightarrow>
     list_all supported_ix ixs \<and> f = fees @ List.map_filter fee_of ixs \<and> c = cs @ filter curve_ix ixs"
proof (induction ixs arbitrary: fees cs)
  case Nil
  then show ?case by (auto simp: map_filter_simps)
next
  case (Cons ix ixs)
  obtain op args where ix: "ix = (op, args)" by (cases ix)
  consider (fee) "op = OP_FLAT_FEE"
    | (curve) "op \<in> {OP_XYC_SWAP, OP_XYC_CONCENTRATE, OP_PEGGED_SWAP}"
    | (other) "op \<notin> {OP_FLAT_FEE, OP_XYC_SWAP, OP_XYC_CONCENTRATE, OP_PEGGED_SWAP}" by blast
  then show ?case
  proof cases
    case fee
    then have "\<not> curve_ix ix" "op \<notin> set PRICE_NEUTRAL" by (simp_all add: ix curve_ix_def opcode_defs)
    then show ?thesis
      using fee Cons.IH by (cases "parse_flat_fee args")
        (simp_all add: ix supported_ix_def fee_of_def map_filter_simps)
  next
    case curve
    then have "op \<noteq> OP_FLAT_FEE" "curve_ix ix" by (auto simp: ix curve_ix_def opcode_defs)
    then show ?thesis
      using curve Cons.IH by (auto simp: ix supported_ix_def fee_of_def map_filter_simps)
  next
    case other
    then have "\<not> curve_ix ix" "fee_of ix = None" by (auto simp: ix curve_ix_def fee_of_def)
    then show ?thesis
      using other Cons.IH by (simp add: ix supported_ix_def map_filter_simps)
  qed
qed

text \<open>
  C28. A program is priced precisely when it is the encoding of instructions that are all either
  price-neutral, well-formed flat fees or curve opcodes, and its curve opcodes form one of the
  admitted shapes; the fees are then those of the fee instructions in program order. Every other
  program (unknown or jumping opcodes, malformed fees, a second curve) is left unpriced.
\<close>

theorem classify_priceable:
  "classify p = Priceable c fees \<longleftrightarrow>
   (\<exists>ixs. p = encode_program ixs \<and> list_all supported_ix ixs \<and>
          fees = List.map_filter fee_of ixs \<and> curve_of (filter curve_ix ixs) = Some c)"
proof -
  have "classify p = Priceable c fees \<longleftrightarrow>
    (\<exists>ixs cs. walk p = Some ixs \<and> classify_loop ixs [] [] = Some (fees, cs) \<and> curve_of cs = Some c)"
    by (auto simp: classify_def split: option.splits)
  then show ?thesis by (simp add: classify_loop_spec walk_eq)
qed

definition curve_in_domain :: "curve \<Rightarrow> bool" where
  "curve_in_domain c =
     (case c of
        Xyc \<Rightarrow> True
      | Concentrate smin smax \<Rightarrow> 0 < smin \<and> smin < smax \<and> smax \<le> u256_max
      | Pegged p \<Rightarrow> is_pegged_in_domain p \<and> pg_x0 p \<le> u256_max \<and> pg_y0 p \<le> u256_max \<and>
          pg_rate_lt p \<le> u256_max \<and> pg_rate_gt p \<le> u256_max)"

lemma be_nat_bound: "\<forall>b \<in> set bs. b < 256 \<Longrightarrow> be_nat bs < 256 ^ length bs"
proof (induction bs rule: rev_induct)
  case (snoc b bs)
  then have "be_nat bs < 256 ^ length bs" "b < 256" by simp_all
  then have "be_nat bs * 256 + b < (256 ^ length bs - 1) * 256 + 256"
    by (intro add_le_less_mono mult_right_mono) auto
  also have "\<dots> = 256 ^ length (bs @ [b])" by (simp add: algebra_simps)
  finally show ?case by (simp add: be_nat_def)
qed (simp add: be_nat_def)

lemma be_nat_word:
  assumes "\<forall>b \<in> set bs. b < 256" and "length bs \<le> 32"
  shows "be_nat bs \<le> u256_max"
proof -
  have "be_nat bs < 256 ^ length bs" by (rule be_nat_bound [OF assms(1)])
  also have "\<dots> \<le> 256 ^ 32" using assms(2) by (intro power_increasing) auto
  also have "(256 :: nat) ^ 32 = u256_max + 1" by (simp add: u256_max_def)
  finally show ?thesis by simp
qed

lemma slice_bytes:
  "\<forall>b \<in> set xs. b < (256 :: nat) \<Longrightarrow> \<forall>b \<in> set (slice i j xs). b < 256"
  by (auto simp: slice_def dest!: in_set_takeD in_set_dropD)

lemma slice_length: "length (slice i j xs) \<le> j - i"
  by (simp add: slice_def)

lemma curve_of_in_domain:
  assumes "curve_of ixs = Some c" and "\<forall>(op, args) \<in> set ixs. \<forall>b \<in> set args. b < 256"
  shows "curve_in_domain c"
proof -
  have word: "be_nat (slice i j args) \<le> u256_max"
    if "\<forall>b \<in> set args. b < 256" and "j - i \<le> 32" for args i j
    using slice_bytes [OF that(1)] le_trans [OF slice_length that(2)] by (rule be_nat_word)
  show ?thesis
    using assms unfolding curve_of_def Let_def curve_in_domain_def
    by (auto split: list.splits prod.splits if_splits simp: word)
qed

lemma encode_program_bytes:
  "\<forall>b \<in> set (encode_program ixs). b < 256 \<Longrightarrow> \<forall>(op, args) \<in> set ixs. \<forall>b \<in> set args. b < 256"
  by (induction ixs) fastforce+

lemma fee_of_bound: "fee_of ix = Some b \<Longrightarrow> b \<le> FEE_BPS_DENOMINATOR"
  by (auto simp: fee_of_def parse_flat_fee_def Let_def split: if_splits)

text \<open>
  C29. Whatever bytes are shipped and however the envelope decodes, a strategy that becomes priceable
  has parameters inside the domain the contract's parser enforces, each a 256-bit word, and flat
  fees of at most the whole amount.
\<close>

theorem decoded_parameters_in_domain:
  assumes "\<And>s order. abi_decode s = Some order \<Longrightarrow> \<forall>b \<in> set (o_data order). b < 256"
    and "decode_strategy abi_decode strategy = Priceable c fees"
  shows "curve_in_domain c \<and> (\<forall>b \<in> set fees. b \<le> FEE_BPS_DENOMINATOR)"
proof -
  obtain order start where dec: "abi_decode strategy = Some order"
    and cls: "classify (drop start (o_data order)) = Priceable c fees"
    using assms(2)
    by (auto simp: decode_strategy_def program_of_def Let_def split: option.splits if_splits)
  from cls obtain ixs where ixs: "walk (drop start (o_data order)) = Some ixs"
    and run: "classify_loop ixs [] [] = Some (fees, filter curve_ix ixs)"
    and c: "curve_of (filter curve_ix ixs) = Some c"
    by (auto simp: classify_def classify_loop_spec split: option.splits)
  have "drop start (o_data order) = encode_program ixs"
    using ixs by (simp add: walk_eq)
  then have "\<forall>b \<in> set (encode_program ixs). b < 256"
    using assms(1) [OF dec] by (metis in_set_dropD)
  from encode_program_bytes [OF this] have "curve_in_domain c"
    by (intro curve_of_in_domain [OF c]) auto
  moreover have "fees = List.map_filter fee_of ixs" using run by (simp add: classify_loop_spec)
  ultimately show ?thesis by (auto simp: map_filter_def fee_of_bound)
qed

definition ex_abi :: "byte list \<Rightarrow> order option" where
  "ex_abi bs = (if \<forall>b \<in> set bs. b < 256 then Some \<lparr>o_maker = 0, o_traits = 0, o_data = bs\<rparr> else None)"

theorem decoded_parameters_in_domain_witness:
  "decode_strategy ex_abi [0x15, 4, 0, 0x2D, 0xC6, 0xC0, 0x14, 0, 0x11, 0] = Priceable Xyc [3000000] \<and>
   curve_in_domain Xyc \<and> 3000000 \<le> FEE_BPS_DENOMINATOR"
proof -
  have bytes: "\<And>s order. ex_abi s = Some order \<Longrightarrow> \<forall>b \<in> set (o_data order). b < 256"
    by (auto simp: ex_abi_def split: if_splits)
  have run: "decode_strategy ex_abi [0x15, 4, 0, 0x2D, 0xC6, 0xC0, 0x14, 0, 0x11, 0] = Priceable Xyc [3000000]"
    by (simp add: decode_strategy_def program_of_def ex_abi_def classify_def walk_def opcode_defs
        curve_of_def parse_flat_fee_def be_nat_def Let_def FEE_BPS_DENOMINATOR_def)
  from decoded_parameters_in_domain [OF bytes run] run show ?thesis by simp
qed

end
