(* ===== verification/Curves.thy ===== *)
theory Curves
  imports Pricing Registry_Decode
begin

text \<open>
  The closed-form ports of the three swap curves and their fees (core/src/registry/curves.rs), and
  the strategy price built from them (core/src/registry/pricing.rs). Every checked operation of the
  Solidity original is an error branch (\<open>curve_error\<close>); operations that the source leaves unchecked
  are guarded by an earlier test or bounded by their operands, so natural-number arithmetic computes
  them without wrap-around: \<open>(a - 1) / b + 1\<close> is below \<open>a + 1\<close>, the 512-bit product of \<open>mul_div\<close>
  cannot overflow, and the bisections keep \<open>lo \<le> hi\<close>.

  A \<open>Pricing\<close> pool is used through its \<open>quote_exact_in\<close>; the generic routines take that function as
  an argument. This theory holds the definitions; the properties are in the theory \<open>Curve_Laws\<close>.
\<close>

datatype curve_error =
  EmptyReserves | AmountTooLarge | Infeasible | NoSolution | Overflow | DivByZero | InvalidParams

type_synonym quote = "curve_error + u256"

section \<open>Bisection helpers\<close>

definition BISECTION_PRECISION :: nat where
  "BISECTION_PRECISION = 1000000000000"

definition converged :: "u256 \<Rightarrow> u256 \<Rightarrow> bool" where
  "converged lo hi = (let gap = hi - lo in gap \<le> 1 \<or> gap \<le> hi div BISECTION_PRECISION)"

lemma not_converged_mid:
  "\<not> converged lo hi \<Longrightarrow> lo < lo + (hi - lo) div 2 \<and> lo + (hi - lo) div 2 < hi"
  by (auto simp: converged_def Let_def)

text \<open>The loop of \<open>feasible_bound\<close>, and that of \<open>fill_to_limit_numerical\<close> with \<open>clears\<close> for \<open>prices\<close>.\<close>

function bisect :: "(u256 \<Rightarrow> bool) \<Rightarrow> u256 \<Rightarrow> u256 \<Rightarrow> u256" where
  "bisect prices lo hi =
     (if converged lo hi then lo
      else let mid = lo + (hi - lo) div 2 in
        if prices mid then bisect prices mid hi else bisect prices lo mid)"
  by pat_completeness auto
termination
  by (relation "measure (\<lambda>(_, lo, hi). hi - lo)") (auto dest: not_converged_mid)

declare bisect.simps [simp del]

definition feasible_bound :: "u256 \<Rightarrow> (u256 \<Rightarrow> bool) \<Rightarrow> u256" where
  "feasible_bound hi prices = (if prices hi then hi else bisect prices 0 hi)"

definition limited_none :: "bool \<Rightarrow> limited_quote" where
  "limited_none limited = \<lparr>lq_amount_in = 0, lq_amount_out = 0, lq_limited = limited\<rparr>"

definition marginal :: "(u256 \<Rightarrow> quote) \<Rightarrow> u256 \<Rightarrow> u256 \<Rightarrow> curve_error + ratio" where
  "marginal q step a =
     (case q a of
        Inl _ \<Rightarrow> Inr ratio_zero
      | Inr here \<Rightarrow>
          (case q (sat_add a step) of
             Inr ahead \<Rightarrow> ok_or DivByZero (ratio_new (sat_sub ahead here) step)
           | Inl _ \<Rightarrow> Inr ratio_zero))"

text \<open>The loop condition \<open>clears(mid)?\<close> can only fail if \<open>marginal\<close> does.\<close>

function fill_loop ::
  "(u256 \<Rightarrow> curve_error + bool) \<Rightarrow> u256 \<Rightarrow> u256 \<Rightarrow> curve_error + u256" where
  "fill_loop clears lo hi =
     (if converged lo hi then Inr lo
      else let mid = lo + (hi - lo) div 2 in
        (case clears mid of
           Inl e \<Rightarrow> Inl e
         | Inr True \<Rightarrow> fill_loop clears mid hi
         | Inr False \<Rightarrow> fill_loop clears lo mid))"
  by pat_completeness auto
termination
  by (relation "measure (\<lambda>(_, lo, hi). hi - lo)") (auto dest: not_converged_mid)

declare fill_loop.simps [simp del]

definition fill_to_limit_numerical ::
  "(u256 \<Rightarrow> quote) \<Rightarrow> u256 \<Rightarrow> ratio \<Rightarrow> curve_error + limited_quote" where
  "fill_to_limit_numerical q amount_in limit =
     (if amount_in = 0 then Inr (limited_none False)
      else
        let bound = feasible_bound amount_in (\<lambda>input. is_ok (q input)) in
        if bound = 0 then Inr (limited_none True)
        else
          let step = max (bound div 1000000) 1;
              clears = (\<lambda>a. if is_ok (q a) then rbind (marginal q step a) (\<lambda>m. Inr (limit \<le> m))
                            else Inr False)
          in
          rbind (marginal q step bound) (\<lambda>m.
            if limit \<le> m then
              rbind (q bound) (\<lambda>out.
                Inr \<lparr>lq_amount_in = bound, lq_amount_out = out, lq_limited = bound < amount_in\<rparr>)
            else
              rbind (marginal q step 0) (\<lambda>m0.
                if m0 < limit then Inr (limited_none True)
                else
                  rbind (fill_loop clears 0 bound) (\<lambda>lo.
                  rbind (q lo) (\<lambda>out.
                    Inr \<lparr>lq_amount_in = lo, lq_amount_out = out, lq_limited = lo < amount_in\<rparr>)))))"

section \<open>Checked arithmetic\<close>

definition one18 :: u256 where "one18 = 1000000000000000000"
definition one27 :: u256 where "one27 = 1000000000000000000 * 1000000000"

definition cmul :: "u256 \<Rightarrow> u256 \<Rightarrow> quote" where
  "cmul a b = ok_or Overflow (checked_mul a b)"

definition cadd :: "u256 \<Rightarrow> u256 \<Rightarrow> quote" where
  "cadd a b = ok_or Overflow (checked_add a b)"

definition fdiv :: "u256 \<Rightarrow> u256 \<Rightarrow> quote" where
  "fdiv a b = (if b = 0 then Inl DivByZero else Inr (a div b))"

definition ceil_div :: "u256 \<Rightarrow> u256 \<Rightarrow> quote" where
  "ceil_div a b =
     (if b = 0 then Inl DivByZero
      else if a = 0 then Inr 0
      else Inr ((a - 1) div b + 1))"

definition mul_div :: "u256 \<Rightarrow> u256 \<Rightarrow> u256 \<Rightarrow> quote" where
  "mul_div a b denom =
     (if denom = 0 then Inl DivByZero
      else let quotient = (a * b) div denom in
        if quotient > u256_max then Inl Overflow else Inr quotient)"

definition sqrt_floor :: "u256 \<Rightarrow> u256" where
  "sqrt_floor x = isqrt x"

definition sqrt_ceil :: "u256 \<Rightarrow> u256" where
  "sqrt_ceil x = (let r = isqrt x in if r * r < x then r + 1 else r)"

section \<open>Flat fees\<close>

definition bps_denominator :: u256 where "bps_denominator = 1000000000"

definition apply_flat_fee_in :: "u256 \<Rightarrow> nat \<Rightarrow> quote" where
  "apply_flat_fee_in amount fee_bps =
     rbind (cmul amount fee_bps) (\<lambda>product.
     rbind (ceil_div product bps_denominator) (\<lambda>cut.
       ok_or AmountTooLarge (checked_sub amount cut)))"

definition apply_flat_fee_out :: "u256 \<Rightarrow> nat \<Rightarrow> quote" where
  "apply_flat_fee_out amount fee_bps =
     rbind (ok_or InvalidParams
              (case checked_sub bps_denominator fee_bps of
                 None \<Rightarrow> None
               | Some d \<Rightarrow> if d \<noteq> 0 then Some d else None)) (\<lambda>denominator.
     rbind (cmul amount fee_bps) (\<lambda>product.
     rbind (ceil_div product denominator) (\<lambda>cut.
       cadd amount cut)))"

definition shrink_by_fees :: "u256 \<Rightarrow> nat list \<Rightarrow> quote" where
  "shrink_by_fees amount fees = try_fold apply_flat_fee_in amount fees"

definition gross_up_by_fees :: "u256 \<Rightarrow> nat list \<Rightarrow> quote" where
  "gross_up_by_fees amount fees = try_fold apply_flat_fee_out amount (rev fees)"

section \<open>Constant product\<close>

record xyc_pool =
  xp_balance_in :: u256
  xp_balance_out :: u256

definition xyc_from_reserves :: "u256 \<Rightarrow> u256 \<Rightarrow> xyc_pool" where
  "xyc_from_reserves bin bout = \<lparr>xp_balance_in = bin, xp_balance_out = bout\<rparr>"

definition xyc_is_empty :: "xyc_pool \<Rightarrow> bool" where
  "xyc_is_empty p \<longleftrightarrow> xp_balance_in p = 0 \<or> xp_balance_out p = 0"

definition xyc_marginal_price :: "xyc_pool \<Rightarrow> curve_error + ratio" where
  "xyc_marginal_price p =
     (if xyc_is_empty p then Inl EmptyReserves
      else ok_or DivByZero (ratio_new (xp_balance_out p) (xp_balance_in p)))"

definition xyc_quote_exact_in :: "xyc_pool \<Rightarrow> u256 \<Rightarrow> quote" where
  "xyc_quote_exact_in p amount_in =
     (if xyc_is_empty p then Inl EmptyReserves
      else
        rbind (cmul amount_in (xp_balance_out p)) (\<lambda>product.
        rbind (cadd (xp_balance_in p) amount_in) (\<lambda>total.
          fdiv product total)))"

definition xyc_quote_exact_out :: "xyc_pool \<Rightarrow> u256 \<Rightarrow> quote" where
  "xyc_quote_exact_out p amount_out =
     (if xyc_is_empty p then Inl EmptyReserves
      else
        rbind (ok_or AmountTooLarge
                 (case checked_sub (xp_balance_out p) amount_out of
                    None \<Rightarrow> None
                  | Some d \<Rightarrow> if d \<noteq> 0 then Some d else None)) (\<lambda>denominator.
        rbind (cmul amount_out (xp_balance_in p)) (\<lambda>product.
          ceil_div product denominator)))"

definition xyc_quote_with_limit :: "xyc_pool \<Rightarrow> u256 \<Rightarrow> ratio \<Rightarrow> curve_error + limited_quote" where
  "xyc_quote_with_limit p amount_in limit =
     (if xyc_is_empty p then Inl EmptyReserves
      else if ratio_is_zero limit then
        rbind (xyc_quote_exact_in p amount_in) (\<lambda>out.
          Inr \<lparr>lq_amount_in = amount_in, lq_amount_out = out, lq_limited = False\<rparr>)
      else
        rbind (xyc_marginal_price p) (\<lambda>spot.
          if spot \<le> limit then Inr (limited_none (amount_in \<noteq> 0))
          else
            let k = ratio_mul (ratio_from (xp_balance_in p)) (ratio_from (xp_balance_out p)) in
            rbind (ok_or DivByZero (ratio_invert limit)) (\<lambda>inverse.
              let boundary = floor_sqrt (ratio_mul k inverse);
                  amount = (case boundary of
                              None \<Rightarrow> amount_in
                            | Some b \<Rightarrow> min amount_in (sat_sub b (xp_balance_in p)))
              in rbind (xyc_quote_exact_in p amount) (\<lambda>out.
                   Inr \<lparr>lq_amount_in = amount, lq_amount_out = out,
                        lq_limited = amount < amount_in\<rparr>))))"

section \<open>Concentrated liquidity\<close>

definition concentrate_liquidity :: "u256 \<Rightarrow> u256 \<Rightarrow> u256 \<Rightarrow> u256 \<Rightarrow> quote" where
  "concentrate_liquidity balance_lt balance_gt smin smax =
     rbind (mul_div smin one18 smax) (\<lambda>ratio.
     rbind (ok_or InvalidParams (checked_sub one18 ratio)) (\<lambda>alpha.
       if alpha = 0 then Inl InvalidParams
       else
         rbind (mul_div balance_lt smin one18) (\<lambda>b1.
         rbind (mul_div balance_gt one18 smax) (\<lambda>b2.
         rbind (cadd b1 b2) (\<lambda>beta.
         rbind (cmul 4 alpha) (\<lambda>four_alpha.
         rbind (mul_div four_alpha balance_lt one18) (\<lambda>ac.
         rbind (cmul ac balance_gt) (\<lambda>four_ac.
         rbind (cmul beta beta) (\<lambda>beta2.
         rbind (cadd beta2 four_ac) (\<lambda>disc.
         rbind (cadd beta (sqrt_floor disc)) (\<lambda>numerator.
         rbind (cmul 2 alpha) (\<lambda>two_alpha.
           mul_div numerator one18 two_alpha))))))))))))"

definition grow_reserves :: "bool \<Rightarrow> u256 \<Rightarrow> u256 \<Rightarrow> u256 \<Rightarrow> u256 \<Rightarrow> curve_error + xyc_pool" where
  "grow_reserves in_is_lt balance_in balance_out smin smax =
     (let (balance_lt, balance_gt) =
            (if in_is_lt then (balance_in, balance_out) else (balance_out, balance_in))
      in
      rbind (concentrate_liquidity balance_lt balance_gt smin smax) (\<lambda>liquidity.
      rbind (if in_is_lt then
               rbind (cmul liquidity one18) (\<lambda>l. rbind (ceil_div l smax) (\<lambda>add_in.
               rbind (mul_div liquidity smin one18) (\<lambda>add_out. Inr (add_in, add_out))))
             else
               rbind (cmul liquidity smin) (\<lambda>l. rbind (ceil_div l one18) (\<lambda>add_in.
               rbind (mul_div liquidity one18 smax) (\<lambda>add_out. Inr (add_in, add_out)))))
        (\<lambda>(add_in, add_out).
      rbind (cadd balance_in add_in) (\<lambda>vin.
      rbind (cadd balance_out add_out) (\<lambda>vout.
        Inr (xyc_from_reserves vin vout))))))"

record concentrate_pool =
  cp_virtual_pool :: "curve_error + xyc_pool"

definition concentrate_from_reserves_and_bounds ::
  "address \<Rightarrow> address \<Rightarrow> u256 \<Rightarrow> u256 \<Rightarrow> u256 \<Rightarrow> u256 \<Rightarrow> concentrate_pool" where
  "concentrate_from_reserves_and_bounds token_in token_out balance_in balance_out smin smax =
     \<lparr>cp_virtual_pool = grow_reserves (token_in < token_out) balance_in balance_out smin smax\<rparr>"

definition concentrate_quote_exact_in :: "concentrate_pool \<Rightarrow> u256 \<Rightarrow> quote" where
  "concentrate_quote_exact_in p a = rbind (cp_virtual_pool p) (\<lambda>v. xyc_quote_exact_in v a)"

definition concentrate_quote_exact_out :: "concentrate_pool \<Rightarrow> u256 \<Rightarrow> quote" where
  "concentrate_quote_exact_out p a = rbind (cp_virtual_pool p) (\<lambda>v. xyc_quote_exact_out v a)"

definition concentrate_quote_with_limit ::
  "concentrate_pool \<Rightarrow> u256 \<Rightarrow> ratio \<Rightarrow> curve_error + limited_quote" where
  "concentrate_quote_with_limit p a limit =
     rbind (cp_virtual_pool p) (\<lambda>v. xyc_quote_with_limit v a limit)"

section \<open>Pegged\<close>

definition pegged_invariant :: "u256 \<Rightarrow> u256 \<Rightarrow> u256 \<Rightarrow> quote" where
  "pegged_invariant u v a =
     rbind (cmul u one27) (\<lambda>uo.
     rbind (cmul v one27) (\<lambda>vo.
     rbind (cadd u v) (\<lambda>uv.
     rbind (cmul a uv) (\<lambda>auv.
     rbind (fdiv auv one27) (\<lambda>linear.
     rbind (cadd (sqrt_floor uo) (sqrt_floor vo)) (\<lambda>roots.
       cadd roots linear))))))"

definition pegged_invariant_from_reserves ::
  "u256 \<Rightarrow> u256 \<Rightarrow> u256 \<Rightarrow> u256 \<Rightarrow> u256 \<Rightarrow> quote" where
  "pegged_invariant_from_reserves x y x0 y0 a =
     rbind (cmul x one27) (\<lambda>xo.
     rbind (fdiv xo x0) (\<lambda>u.
     rbind (cmul y one27) (\<lambda>yo.
     rbind (fdiv yo y0) (\<lambda>v.
       pegged_invariant u v a))))"

definition pegged_solve :: "u256 \<Rightarrow> u256 \<Rightarrow> u256 \<Rightarrow> quote" where
  "pegged_solve u a invariant_c =
     rbind (cmul u one27) (\<lambda>uo.
     rbind (cmul a u) (\<lambda>aup.
     rbind (fdiv aup one27) (\<lambda>au.
     rbind (cadd (sqrt_floor uo) au) (\<lambda>sqrt_u_plus_au.
       if invariant_c < sqrt_u_plus_au then Inl Infeasible
       else
         let right_side = invariant_c - sqrt_u_plus_au in
         if a = 0 then rbind (cmul right_side right_side) (\<lambda>r2. fdiv r2 one27)
         else
           rbind (cmul 4 a) (\<lambda>fa.
           rbind (cmul fa right_side) (\<lambda>far.
           rbind (fdiv far one27) (\<lambda>four_a_right.
           rbind (cadd one27 four_a_right) (\<lambda>discriminant.
           rbind (cmul discriminant one27) (\<lambda>d.
             let sqrt_discriminant = sqrt_ceil d in
             if sqrt_discriminant < one27 then Inl NoSolution
             else
               rbind (cadd one27 sqrt_discriminant) (\<lambda>denominator.
               rbind (cmul 2 right_side) (\<lambda>rr.
               rbind (cmul rr one27) (\<lambda>rro.
               rbind (fdiv rro denominator) (\<lambda>w.
               rbind (cmul w w) (\<lambda>ww.
                 fdiv ww one27))))))))))))))"

record normalized =
  nz_x0 :: u256
  nz_y0 :: u256
  nz_invariant :: u256

record pegged_pool =
  pp_normalized :: "curve_error + normalized"
  pp_x0_init :: u256
  pp_y0_init :: u256
  pp_linear_width :: u256
  pp_rate_in :: u256
  pp_rate_out :: u256

definition pegged_normalize ::
  "u256 \<Rightarrow> u256 \<Rightarrow> u256 \<Rightarrow> u256 \<Rightarrow> u256 \<Rightarrow> u256 \<Rightarrow> u256 \<Rightarrow> curve_error + normalized" where
  "pegged_normalize balance_in balance_out rate_in rate_out x0_init y0_init a =
     (if balance_in = 0 \<and> balance_out = 0 then Inl EmptyReserves
      else
        rbind (cmul balance_in rate_in) (\<lambda>x0.
        rbind (cmul balance_out rate_out) (\<lambda>y0.
        rbind (pegged_invariant_from_reserves x0 y0 x0_init y0_init a) (\<lambda>invariant.
          Inr \<lparr>nz_x0 = x0, nz_y0 = y0, nz_invariant = invariant\<rparr>))))"

definition pegged_from_reserves_and_params ::
  "address \<Rightarrow> address \<Rightarrow> u256 \<Rightarrow> u256 \<Rightarrow> pegged_params \<Rightarrow> pegged_pool" where
  "pegged_from_reserves_and_params token_in token_out balance_in balance_out params =
     (let (rate_in, rate_out, x0_init, y0_init) =
            (if token_in < token_out
             then (pg_rate_lt params, pg_rate_gt params, pg_x0 params, pg_y0 params)
             else (pg_rate_gt params, pg_rate_lt params, pg_y0 params, pg_x0 params))
      in \<lparr>pp_normalized = pegged_normalize balance_in balance_out rate_in rate_out x0_init y0_init
                            (pg_linear_width params),
          pp_x0_init = x0_init, pp_y0_init = y0_init, pp_linear_width = pg_linear_width params,
          pp_rate_in = rate_in, pp_rate_out = rate_out\<rparr>)"

definition pegged_weight :: "u256 \<Rightarrow> u256 \<Rightarrow> u256 \<Rightarrow> quote" where
  "pegged_weight linear_width balance initial =
     rbind (mul_div balance one27 initial) (\<lambda>coordinate.
     rbind (cmul coordinate one27) (\<lambda>co.
     rbind (cmul 2 (sqrt_floor co)) (\<lambda>root2.
     rbind (mul_div one27 one27 root2) (\<lambda>w.
       cadd w linear_width))))"

definition pegged_marginal_price :: "pegged_pool \<Rightarrow> curve_error + ratio" where
  "pegged_marginal_price p =
     rbind (pp_normalized p) (\<lambda>n.
     rbind (pegged_weight (pp_linear_width p) (nz_x0 n) (pp_x0_init p)) (\<lambda>input_weight.
     rbind (pegged_weight (pp_linear_width p) (nz_y0 n) (pp_y0_init p)) (\<lambda>output_weight.
     rbind (ok_or DivByZero (ratio_new (pp_y0_init p) (pp_x0_init p))) (\<lambda>r1.
     rbind (ok_or DivByZero (ratio_new input_weight output_weight)) (\<lambda>r2.
     rbind (ok_or DivByZero (ratio_new (pp_rate_in p) (pp_rate_out p))) (\<lambda>r3.
       Inr (ratio_mul (ratio_mul r1 r2) r3)))))))"

definition pegged_quote_exact_in :: "pegged_pool \<Rightarrow> u256 \<Rightarrow> quote" where
  "pegged_quote_exact_in p amount_in =
     rbind (pp_normalized p) (\<lambda>n.
     rbind (cmul amount_in (pp_rate_in p)) (\<lambda>scaled.
     rbind (cadd (nz_x0 n) scaled) (\<lambda>x1.
     rbind (cmul x1 one27) (\<lambda>x1o.
     rbind (fdiv x1o (pp_x0_init p)) (\<lambda>u1.
     rbind (pegged_solve u1 (pp_linear_width p) (nz_invariant n)) (\<lambda>v1.
     rbind (cmul v1 (pp_y0_init p)) (\<lambda>vy.
     rbind (ceil_div vy one27) (\<lambda>y1.
     rbind (ok_or AmountTooLarge (checked_sub (nz_y0 n) y1)) (\<lambda>delta_out.
       fdiv delta_out (pp_rate_out p))))))))))"

definition pegged_quote_exact_out :: "pegged_pool \<Rightarrow> u256 \<Rightarrow> quote" where
  "pegged_quote_exact_out p amount_out =
     rbind (pp_normalized p) (\<lambda>n.
     rbind (cmul amount_out (pp_rate_out p)) (\<lambda>scaled.
     rbind (ok_or AmountTooLarge (checked_sub (nz_y0 n) scaled)) (\<lambda>y1.
     rbind (cmul y1 one27) (\<lambda>y1o.
     rbind (fdiv y1o (pp_y0_init p)) (\<lambda>v1.
     rbind (pegged_solve v1 (pp_linear_width p) (nz_invariant n)) (\<lambda>u1.
     rbind (cmul u1 (pp_x0_init p)) (\<lambda>ux.
     rbind (ceil_div ux one27) (\<lambda>x1.
     rbind (ok_or AmountTooLarge (checked_sub x1 (nz_x0 n))) (\<lambda>delta_in.
       ceil_div delta_in (pp_rate_in p))))))))))"

section \<open>Any curve\<close>

datatype curve_pool =
    PoolXyc xyc_pool
  | PoolConcentrate concentrate_pool
  | PoolPegged pegged_pool

fun curve_marginal_price :: "curve_pool \<Rightarrow> curve_error + ratio" where
  "curve_marginal_price (PoolXyc p) = xyc_marginal_price p"
| "curve_marginal_price (PoolConcentrate p) = rbind (cp_virtual_pool p) xyc_marginal_price"
| "curve_marginal_price (PoolPegged p) = pegged_marginal_price p"

fun from_curve :: "curve \<Rightarrow> address \<Rightarrow> address \<Rightarrow> u256 \<Rightarrow> u256 \<Rightarrow> curve_pool" where
  "from_curve Xyc token_in token_out balance_in balance_out =
     PoolXyc (xyc_from_reserves balance_in balance_out)"
| "from_curve (Concentrate smin smax) token_in token_out balance_in balance_out =
     PoolConcentrate
       (concentrate_from_reserves_and_bounds token_in token_out balance_in balance_out smin smax)"
| "from_curve (Pegged params) token_in token_out balance_in balance_out =
     PoolPegged (pegged_from_reserves_and_params token_in token_out balance_in balance_out params)"

fun quote_exact_in :: "curve_pool \<Rightarrow> u256 \<Rightarrow> quote" where
  "quote_exact_in (PoolXyc p) a = xyc_quote_exact_in p a"
| "quote_exact_in (PoolConcentrate p) a = concentrate_quote_exact_in p a"
| "quote_exact_in (PoolPegged p) a = pegged_quote_exact_in p a"

fun quote_exact_out :: "curve_pool \<Rightarrow> u256 \<Rightarrow> quote" where
  "quote_exact_out (PoolXyc p) a = xyc_quote_exact_out p a"
| "quote_exact_out (PoolConcentrate p) a = concentrate_quote_exact_out p a"
| "quote_exact_out (PoolPegged p) a = pegged_quote_exact_out p a"

fun quote_with_limit :: "curve_pool \<Rightarrow> u256 \<Rightarrow> ratio \<Rightarrow> curve_error + limited_quote" where
  "quote_with_limit (PoolXyc p) a limit = xyc_quote_with_limit p a limit"
| "quote_with_limit (PoolConcentrate p) a limit = concentrate_quote_with_limit p a limit"
| "quote_with_limit (PoolPegged p) a limit =
     fill_to_limit_numerical (pegged_quote_exact_in p) a limit"

end
