(* ===== verification/Ledger_Properties.thy ===== *)
theory Ledger_Properties
  imports Ledger_Invariant
begin

text \<open>
  What the reservation engine promises its callers: the books balance in every reachable ledger,
  promises never exceed the fed budgets, admission is exact, refused commands have no effect, the
  compensating commands undo what they compensate, and reservations move only along the lifecycle
  graph. The witnesses run a small concrete history through the operations.
\<close>

section \<open>The books\<close>

text \<open>
  C18. After every sequence of commands, budget feeds and recovery replays in which no promise is admitted
  whose sources on one account add up to more than 256 bits, the two compartments are exactly the
  unbounded sums of what the active reservations owe and what the posted ones have spent at the
  account, and \<open>available\<close> is the budget less both: no hold is lost, duplicated, clamped or orphaned.
  The excluded admission is possible only at an account whose budget is the largest 256-bit number.
\<close>

theorem ledger_books_balance:
  assumes "ledger_reachable l"
  shows "pending l a = spec_pending l a \<and> consumed l a = spec_consumed l a \<and>
         available l a = budget l a - (spec_pending l a + spec_consumed l a)"
  using reachable_inv [OF assms] available_exact [OF reachable_inv [OF assms], of a]
  by (simp add: ledger_inv_def)

text \<open>A small concrete history used by the witnesses: one funded source, promised.\<close>

definition ex_source :: reservation_source where
  "ex_source = \<lparr>rs_maker = 1, rs_hash = 2, rs_token = 3, rs_amount = 40\<rparr>"

definition ex_reservation :: reservation where
  "ex_reservation = for_swap 7 9 [ex_source] 1000"

definition ex_funded :: ledger where
  "ex_funded =
     set_budget (set_budget ledger_default (WalletBudget 1 3) 100) (StrategyVirtual 1 2 3) 50"

definition ex_promised :: ledger where
  "ex_promised = snd (reserve ex_funded ex_reservation)"

lemmas ex_defs = ex_source_def ex_reservation_def ex_funded_def ex_promised_def for_swap_def
  reservation_new_def

lemma ex_fits: "demand_fits (r_sources ex_reservation)"
  by (simp add: demand_fits_def ex_defs u256_max_def)

lemma ex_funded_reachable: "ledger_reachable ex_funded"
  unfolding ex_funded_def
  by (intro reach_step [OF _ step_set_budget] reach_init) (simp_all add: u256_max_def)

lemma ex_promised_reachable: "ledger_reachable ex_promised"
  unfolding ex_promised_def
  by (rule reach_step [OF ex_funded_reachable step_cmd [OF cmd_reserve]])
    (simp_all add: ex_fits, simp add: ex_defs)

lemmas ex_eval = ex_defs reserve_def can_reserve_def restore_def aggregate_demand_def accounts_def
  add_demand_def with_held_def available_def budget_def set_budget_def ledger_default_def
  held_default_def sat_add_def u256_max_def bm_contains_def less_account_key_def less_eq_account_key_def

lemma ex_promised_eval:
  "ex_promised =
   \<lparr>lg_budgets = [(WalletBudget 1 3, 100), (StrategyVirtual 1 2 3, 50)],
    lg_held = [(WalletBudget 1 3, \<lparr>h_pending = 40, h_consumed = 0\<rparr>),
               (StrategyVirtual 1 2 3, \<lparr>h_pending = 40, h_consumed = 0\<rparr>)],
    lg_reservations = [(7, ex_reservation)], lg_filled = []\<rparr>"
  by (simp add: ex_eval del: bm_contains_iff)

theorem ledger_books_balance_witness:
  "ledger_reachable ex_promised \<and> spec_pending ex_promised (WalletBudget 1 3) = 40 \<and>
   available ex_promised (WalletBudget 1 3) = 60"
  using ledger_books_balance [OF ex_promised_reachable, of "WalletBudget 1 3"] ex_promised_reachable
  by (simp add: ex_promised_eval pending_def budget_def consumed_def)

text \<open>
  C19. Absence of over-commitment: while the budgets stand, no command (promise, commit, settlement,
  release, expiry or reorg reversal), whatever its arguments and outcome, takes an account's holds
  past its budget. The only ways over a budget are the external ones, a budget that drops and a
  promise replayed at recovery.
\<close>

theorem no_over_commitment:
  assumes "ledger_reachable l" and "within_budget l" and "ledger_cmd l l'"
  shows "within_budget l'"
  using assms(3)
  by cases (simp_all add: within_commands [OF reachable_inv [OF assms(1)] assms(2)])

lemma ex_funded_within: "within_budget ex_funded"
  by (simp add: within_budget_def ex_funded_def ledger_default_def set_budget_def pending_def
      consumed_def)

theorem no_over_commitment_witness: "within_budget ex_promised"
  unfolding ex_promised_def
  by (rule no_over_commitment [OF ex_funded_reachable ex_funded_within cmd_reserve])
    (simp_all add: ex_fits, simp add: ex_defs)

text \<open>
  C22. Admission is exact, for every promise and every such ledger: \<open>reserve\<close> accepts precisely when the id
  is new and every account the promise draws on has room, beside the standing holds, for the sum of
  all its sources on that account, cut at the largest 256-bit number. The cut matters only for a sum
  over 256 bits at an account with the largest budget, see \<open>saturated_demand_is_admitted\<close>.
\<close>

theorem reserve_admission:
  assumes "ledger_reachable l"
  shows "fst (reserve l r) = Inr () \<longleftrightarrow>
     lookup_reservation l (r_id r) = None \<and>
     (\<forall>a. demand_on a (r_sources r) = 0 \<or>
          pending l a + consumed l a + min (demand_on a (r_sources r)) u256_max \<le> budget l a)"
proof -
  note inv = reachable_inv [OF assms(1)]
  have "fst (reserve l r) = Inr () \<longleftrightarrow> can_reserve l r = Inr ()"
    by (simp add: reserve_def split: sum.split)
  moreover have "min x u256_max \<le> available l a \<longleftrightarrow> x = 0 \<or> pending l a + consumed l a + min x u256_max \<le> budget l a"
    for a x by (auto simp: available_exact [OF inv] min_def u256_max_def)
  ultimately show ?thesis by (simp add: can_reserve_Inr lookup_reservation_def)
qed

theorem reserve_admission_witness: "fst (reserve ex_funded ex_reservation) = Inr ()"
  using reserve_admission [OF ex_funded_reachable, of ex_reservation]
  by (auto simp: min_def u256_max_def ex_defs lookup_reservation_def set_budget_def ledger_default_def pending_def consumed_def
      budget_def draws_on_def accounts_def less_account_key_def)

text \<open>
  A refusal for lack of room names the first account, in key order, whose room the aggregate
  demand exceeds, with the demand and the room found there.
\<close>

theorem reserve_shortfall:
  assumes "can_reserve l r = Inl (Insufficient s)"
  shows "bm_get (aggregate_demand (r_sources r)) (sf_account s) = Some (sf_requested s) \<and>
     sf_available s = available l (sf_account s) \<and> sf_available s < sf_requested s \<and>
     (\<forall>a < sf_account s. min (demand_on a (r_sources r)) u256_max \<le> available l a)"
proof -
  have err: "check_demand l (aggregate_demand (r_sources r)) = Inl (Insufficient s)"
    using assms by (auto simp: can_reserve_def split: if_splits)
  have "(sf_account s, sf_requested s) \<in> set d \<and> sf_available s = available l (sf_account s) \<and>
      sf_available s < sf_requested s \<and> (\<forall>(a, x) \<in> set d. a < sf_account s \<longrightarrow> x \<le> available l a)"
    if "check_demand l d = Inl (Insufficient s)" and "bm_wf d" for d
    using that by (induction d) (force simp: bm_wf_Cons not_less split: if_splits)+
  note first = this [OF err aggregate_demand_wf]
  have "min (demand_on a (r_sources r)) u256_max \<le> available l a" if "a < sf_account s" for a
  proof (cases "bm_get (aggregate_demand (r_sources r)) a")
    case None
    then have "\<not> list_ex (draws_on a) (r_sources r)"
      by (simp add: aggregate_demand_get split: if_splits)
    then show ?thesis by (simp add: demand_on_zero)
  next
    case (Some x)
    then have "x = min (demand_on a (r_sources r)) u256_max"
      by (simp add: aggregate_demand_get split: if_splits)
    moreover have "x \<le> available l a" using first that bm_get_set [OF Some] by auto
    ultimately show ?thesis by simp
  qed
  then show ?thesis using first bm_get_iff [OF aggregate_demand_wf] by blast
qed

definition ex_greedy :: reservation where
  "ex_greedy = for_swap 8 9 [ex_source\<lparr>rs_amount := 70\<rparr>] 1000"

theorem reserve_shortfall_witness:
  "can_reserve ex_funded ex_greedy =
     Inl (Insufficient \<lparr>sf_account = StrategyVirtual 1 2 3, sf_requested = 70, sf_available = 50\<rparr>) \<and>
   available ex_funded (StrategyVirtual 1 2 3) = 50"
proof -
  have run: "can_reserve ex_funded ex_greedy =
     Inl (Insufficient \<lparr>sf_account = StrategyVirtual 1 2 3, sf_requested = 70, sf_available = 50\<rparr>)"
    by (simp add: ex_greedy_def ex_eval del: bm_contains_iff)
  from reserve_shortfall [OF run] show ?thesis by (simp add: run)
qed

section \<open>Refusals and compensation\<close>

text \<open>
  A command that is refused, for whatever reason, leaves the whole ledger as it was: no partial
  hold, no state change, no recorded fill.
\<close>

theorem refused_commands_change_nothing:
  shows "(isl (fst (reserve l r)) \<longrightarrow> snd (reserve l r) = l) \<and>
         (isl (fst (commit l i)) \<longrightarrow> snd (commit l i) = l) \<and>
         (isl (fst (post l i fs)) \<longrightarrow> snd (post l i fs) = l) \<and>
         (isl (fst (void l i)) \<longrightarrow> snd (void l i) = l) \<and>
         (isl (fst (expire l i)) \<longrightarrow> snd (expire l i) = l) \<and>
         (isl (fst (void_reorg l i)) \<longrightarrow> snd (void_reorg l i) = l)"
  by (simp add: isl_def) (metis error_leaves_ledger prod.collapse)

theorem refused_commands_change_nothing_witness:
  "isl (fst (post ex_promised 7 [41])) \<and> snd (post ex_promised 7 [41]) = ex_promised"
proof -
  have "isl (fst (post ex_promised 7 [41]))"
    by (simp add: post_def active_sources_def ex_promised_eval ex_defs)
  with refused_commands_change_nothing [of ex_promised ex_reservation 7 "[41]"]
  show ?thesis by blast
qed

text \<open>
  Releasing undoes reserving: a promise that is admitted and then voided leaves every account
  with the pending, consumed and available amounts it had before.
\<close>

theorem reserve_void_roundtrip:
  assumes "ledger_reachable l" and "demand_fits (r_sources r)" and "r_state r = StPending"
    and "fst (reserve l r) = Inr ()"
  defines "l2 \<equiv> snd (void (snd (reserve l r)) (r_id r))"
  shows "fst (void (snd (reserve l r)) (r_id r)) = Inr () \<and>
     pending l2 a = pending l a \<and> consumed l2 a = consumed l a \<and> available l2 a = available l a \<and>
     lookup_reservation l2 (r_id r) = Some (r\<lparr>r_state := StVoided\<rparr>)"
proof -
  note inv = reachable_inv [OF assms(1)]
  have ok: "can_reserve l r = Inr ()"
    using assms(4) by (auto simp: reserve_def split: sum.splits)
  let ?l1 = "restore l r"
  note eff = reserve_effect [OF inv assms(2) ok]
  have l1: "snd (reserve l r) = ?l1" using ok by (simp add: reserve_def)
  have void: "void ?l1 (r_id r) = (Inr (), release_sources ?l1 (r_id r) (r_sources r) StVoided)"
    using eff(3) by (simp add: release_Inr is_active_def assms(3))
  have "bm_get (lg_reservations (release_sources ?l1 (r_id r) (r_sources r) StVoided)) (r_id r) =
      Some (r\<lparr>r_state := StVoided\<rparr>)"
    using eff(3) by (simp add: release_sources_reservations)
  then show ?thesis
    by (simp add: l2_def l1 void release_sources_effect eff available_eq budget_def lookup_reservation_def)
qed

theorem reserve_void_roundtrip_witness:
  "available (snd (void ex_promised 7)) (WalletBudget 1 3) = 100"
proof -
  have st: "r_state ex_reservation = StPending" and id: "r_id ex_reservation = 7"
    by (simp_all add: ex_defs)
  have ok: "fst (reserve ex_funded ex_reservation) = Inr ()"
    by (simp add: ex_eval del: bm_contains_iff)
  show ?thesis
    using reserve_void_roundtrip [OF ex_funded_reachable ex_fits st ok, of "WalletBudget 1 3"]
    unfolding id ex_promised_def [symmetric]
    by (simp add: ex_funded_def available_def set_budget_def ledger_default_def budget_def
        less_account_key_def)
qed

text \<open>
  A settlement consumes exactly the fills and releases the whole hold, and a reorg reversal
  returns exactly those fills: after \<open>post\<close> then \<open>void_reorg\<close> the account has its old consumed amount
  and the reservation's entire demand back.
\<close>

theorem post_void_reorg_roundtrip:
  assumes "ledger_reachable l" and "lookup_reservation l i = Some r"
    and "fst (post l i fs) = Inr ()"
  defines "l1 \<equiv> snd (post l i fs)"
  defines "l2 \<equiv> snd (void_reorg l1 i)"
  shows "fst (void_reorg l1 i) = Inr () \<and>
     consumed l1 a = consumed l a + fill_on a (r_sources r) fs \<and>
     pending l1 a + demand_on a (r_sources r) = pending l a \<and>
     consumed l2 a = consumed l a \<and>
     pending l2 a + demand_on a (r_sources r) = pending l a \<and>
     lookup_reservation l2 i = Some (r\<lparr>r_state := StReorgOpen\<rparr>)"
proof -
  note inv = reachable_inv [OF assms(1)]
  have get: "bm_get (lg_reservations l) i = Some r" using assms(2) by (simp add: lookup_reservation_def)
  have ok: "post l i fs = (Inr (), l1)"
    using assms(3) by (cases "post l i fs") (simp add: l1_def)
  note eff = post_effect [OF inv ok get]
  have shape: "ledger_shape l1" using inv_post [OF inv ok] by (simp add: ledger_inv_def)
  have get1: "bm_get (lg_reservations l1) i = Some (r\<lparr>r_state := StPosted\<rparr>)" by (simp add: eff(4))
  have ok2: "void_reorg l1 i = (Inr (), l2)"
    by (simp add: void_reorg_def get1 require_state_def Let_def l2_def)
  from ok2 shape show ?thesis
    by (rule void_reorg_Inr) (use get1 eff(1-3) in \<open>auto simp: ok2 eff(5) lookup_reservation_def\<close>)
qed

theorem post_void_reorg_roundtrip_witness:
  "consumed (snd (post ex_promised 7 [25])) (WalletBudget 1 3) = 25 \<and>
   consumed (snd (void_reorg (snd (post ex_promised 7 [25])) 7)) (WalletBudget 1 3) = 0"
proof -
  have get: "lookup_reservation ex_promised 7 = Some ex_reservation"
    by (simp add: lookup_reservation_def ex_promised_eval)
  have ok: "fst (post ex_promised 7 [25]) = Inr ()"
    by (simp add: post_def active_sources_def ex_promised_eval ex_defs)
  show ?thesis
    using post_void_reorg_roundtrip [OF ex_promised_reachable get ok, of "WalletBudget 1 3"]
    by (simp add: ex_promised_eval consumed_def ex_defs draws_on_def accounts_def)
qed

section \<open>The lifecycle\<close>

text \<open>The transition graph documented with \<open>ReservationState\<close>, as a bool-valued relation.\<close>

fun lifecycle_edge :: "reservation_state \<Rightarrow> reservation_state \<Rightarrow> bool" where
  "lifecycle_edge StPending st = (st \<in> {StCommitted, StPosted, StVoided, StExpired})"
| "lifecycle_edge StCommitted st = (st \<in> {StPosted, StVoided})"
| "lifecycle_edge StPosted st = (st = StReorgOpen)"
| "lifecycle_edge StVoided st = False"
| "lifecycle_edge StExpired st = False"
| "lifecycle_edge StReorgOpen st = False"

definition moves_to :: "reservation \<Rightarrow> reservation \<Rightarrow> bool" where
  "moves_to r r' \<longleftrightarrow>
     r' = r \<or> (r' = r\<lparr>r_state := r_state r'\<rparr> \<and> lifecycle_edge (r_state r) (r_state r'))"

lemma moves_to_refl [simp]: "moves_to r r"
  by (simp add: moves_to_def)

lemma moves_to_state:
  "lifecycle_edge (r_state r) st \<Longrightarrow> moves_to r (r\<lparr>r_state := st\<rparr>)"
  by (simp add: moves_to_def)

lemma command_moves:
  assumes "ledger_cmd l l'" and "ledger_shape l" and "bm_get (lg_reservations l) i = Some r"
  shows "\<exists>r'. bm_get (lg_reservations l') i = Some r' \<and> moves_to r r'"
proof -
  note step = ledger_step_cases
    [where P = "\<lambda>l'. \<exists>r'. bm_get (lg_reservations l') i = Some r' \<and> moves_to r r'" and l = l]
  have same: "\<exists>r'. bm_get (lg_reservations l) i = Some r' \<and> moves_to r r'" using assms(3) by simp
  show ?thesis
    using assms(1)
  proof cases
    case (cmd_reserve r0)
    show ?thesis unfolding cmd_reserve
      by (rule step [OF _ same])
        (use assms(3) in \<open>auto dest: error_leaves_ledger simp: reserve_Inr restore_def can_reserve_Inr\<close>)
  next
    case (cmd_commit j)
    show ?thesis unfolding cmd_commit
      by (rule step [OF _ same])
        (use assms(3) in \<open>auto dest: error_leaves_ledger dest!: commit_Inr
           simp: transition_reservations intro!: moves_to_state\<close>)
  next
    case (cmd_post j fs)
    show ?thesis unfolding cmd_post
      by (rule step [OF _ same], metis error_leaves_ledger(3) snd_conv, erule post_Inr)
        (use assms(3) in \<open>auto simp: transition_def is_active_def intro!: moves_to_state\<close>)
  next
    case (cmd_void j)
    show ?thesis unfolding cmd_void
      by (rule step [OF _ same])
        (use assms(3) in \<open>auto dest: error_leaves_ledger simp: release_Inr
           release_sources_reservations is_active_def intro!: moves_to_state\<close>)
  next
    case (cmd_expire j)
    show ?thesis unfolding cmd_expire
      by (rule step [OF _ same])
        (use assms(3) in \<open>auto dest: error_leaves_ledger simp: release_Inr
           release_sources_reservations intro!: moves_to_state\<close>)
  next
    case (cmd_void_reorg j)
    show ?thesis unfolding cmd_void_reorg
      by (rule step [OF _ same], metis error_leaves_ledger(6) snd_conv,
          erule void_reorg_Inr [OF _ assms(2)])
        (use assms(3) in \<open>auto intro!: moves_to_state\<close>)
  qed
qed

lemma step_moves:
  assumes "ledger_step l l'" and "ledger_shape l" and get: "bm_get (lg_reservations l) i = Some r"
  shows "\<exists>r'. bm_get (lg_reservations l') i = Some r' \<and> moves_to r r'"
  using assms(1)
proof cases
  case step_cmd
  then show ?thesis by (rule command_moves [OF _ assms(2,3)])
next
  case (step_restore r0)
  then show ?thesis
    using get by (cases "bm_get (lg_reservations l) (r_id r0)")
      (auto simp: restore_present restore_reservations)
qed (use get in \<open>simp_all add: set_budget_def set_budgets_def\<close>)

text \<open>
  The lifecycle: across any step a recorded reservation is never dropped, keeps its owner, sources
  and expiry, and changes state only along an edge of the graph; in particular voided, expired and
  reorg-opened reservations never move again, so no capital is released twice.
\<close>

theorem reservation_lifecycle:
  assumes "ledger_reachable l" and "ledger_step l l'" and "lookup_reservation l i = Some r"
  shows "\<exists>r'. lookup_reservation l' i = Some r' \<and> moves_to r r'"
proof -
  have "ledger_shape l" using reachable_inv [OF assms(1)] by (simp add: ledger_inv_def)
  then show ?thesis
    using step_moves [OF assms(2)] assms(3) by (simp add: lookup_reservation_def)
qed

theorem reservation_lifecycle_witness:
  "\<exists>r'. lookup_reservation (snd (commit ex_promised 7)) 7 = Some r' \<and> moves_to ex_reservation r' \<and>
        r_state r' = StCommitted"
proof -
  have get: "lookup_reservation ex_promised 7 = Some ex_reservation"
    by (simp add: lookup_reservation_def ex_promised_eval)
  from reservation_lifecycle [OF ex_promised_reachable step_cmd [OF cmd_commit [of _ 7]] get]
  obtain r' where r': "lookup_reservation (snd (commit ex_promised 7)) 7 = Some r'"
    and m: "moves_to ex_reservation r'" by blast
  have "r_state r' = StCommitted"
    using r' by (simp add: lookup_reservation_def commit_def ex_promised_eval transition_def ex_defs)
      (metis reservation.select_convs(4))
  with r' m show ?thesis by blast
qed

section \<open>The boundary of the aggregate\<close>

definition ex_unlimited :: ledger where
  "ex_unlimited =
     set_budget (set_budget ledger_default (WalletBudget 1 3) u256_max) (StrategyVirtual 1 2 3) u256_max"

definition ex_saturating :: reservation where
  "ex_saturating = for_swap 7 9 [ex_source\<lparr>rs_amount := u256_max\<rparr>, ex_source\<lparr>rs_amount := u256_max\<rparr>] 1000"

text \<open>
  Admission is exact only while the aggregate demand fits 256 bits. The per-account sum saturates, so
  at an account funded with the largest representable budget (an unlimited allowance) two sources of
  the largest amount are admitted together, although their sum is twice the budget.
\<close>

theorem saturated_demand_is_admitted:
  "fst (reserve ex_unlimited ex_saturating) = Inr () \<and>
   demand_on (WalletBudget 1 3) (r_sources ex_saturating) = 2 * u256_max \<and>
   budget ex_unlimited (WalletBudget 1 3) = u256_max"
proof -
  have "demand_on (WalletBudget 1 3) (r_sources ex_saturating) = 2 * u256_max"
    by (simp add: ex_saturating_def for_swap_def reservation_new_def ex_source_def draws_on_def
        accounts_def)
  moreover have "budget ex_unlimited (WalletBudget 1 3) = u256_max"
    by (simp add: ex_unlimited_def budget_def set_budget_def ledger_default_def less_account_key_def)
  moreover have "available ex_unlimited a = (if a \<in> {WalletBudget 1 3, StrategyVirtual 1 2 3} then u256_max else 0)" for a
    by (simp add: ex_unlimited_def available_def budget_def set_budget_def ledger_default_def)
  then have "can_reserve ex_unlimited ex_saturating = Inr ()"
    by (auto simp: can_reserve_Inr ex_saturating_def for_swap_def reservation_new_def ex_source_def
        draws_on_def accounts_def ex_unlimited_def set_budget_def ledger_default_def)
  ultimately show ?thesis by (simp add: reserve_def)
qed

end
