(* ===== verification/Ledger_Service.thy ===== *)
theory Ledger_Service
  imports Ledger_Store Registry_Snapshot Ledger_Properties
begin

text \<open>
  The single-writer ledger service (core/src/ledger/service.rs): every command persists to the
  store before it changes the in-memory ledger, then republishes the available room. The writer
  lock serialises the commands, so each is one step on the service state. The store is reached
  through the port's operations (\<open>store_ops\<close>); the budget source and the clock are arguments.

  Inside the store's contract the theory proves that memory and the durable record agree after
  every command, whatever the store's faults, and that a restart rebuilds exactly the standing holds
  from the durable record. The sweep of elapsed promises and the published snapshot are shown exact.
\<close>

datatype solvent_error = SeLedger ledger_error | SeStore store_error | SeBudget

record 's ledger_service =
  sv_ledger :: ledger
  sv_store :: 's
  sv_available :: "(account_key, u256) bmap"

type_synonym 's service_result = "(solvent_error + unit) \<times> 's ledger_service"

type_synonym budget_source = "account_key \<Rightarrow> solvent_error + u256"

definition snapshot_available :: "(account_key, u256) bmap \<Rightarrow> account_key \<Rightarrow> u256" where
  "snapshot_available m a = unwrap_or 0 (bm_get m a)"

definition service_new :: "'s \<Rightarrow> 's ledger_service" where
  "service_new store = \<lparr>sv_ledger = ledger_default, sv_store = store, sv_available = []\<rparr>"

definition publish :: "'s ledger_service \<Rightarrow> 's ledger_service" where
  "publish sv = sv\<lparr>sv_available := available_snapshot (sv_ledger sv)\<rparr>"

definition accounts_of :: "reservation_source list \<Rightarrow> account_key bset" where
  "accounts_of ss = bs_of_list (concat (map accounts ss))"

definition read_budgets ::
  "budget_source \<Rightarrow> account_key list \<Rightarrow> solvent_error + (account_key \<times> u256) list" where
  "read_budgets budgets as = collect (map (\<lambda>a. rbind (budgets a) (\<lambda>b. Inr (a, b))) as)"

definition feed_budgets :: "(account_key \<times> u256) list \<Rightarrow> ledger \<Rightarrow> ledger" where
  "feed_budgets bs l = fold (\<lambda>(a, b) l. set_budget l a b) bs l"

section \<open>Commands\<close>

definition reserve_owned ::
  "'s store_ops \<Rightarrow> reservation \<Rightarrow> (account_key \<times> u256) list \<Rightarrow> 's ledger_service \<Rightarrow>
   's service_result" where
  "reserve_owned ops r bs sv =
     (let l = feed_budgets bs (sv_ledger sv) in
      case can_reserve l r of
        Inl e \<Rightarrow> (Inl (SeLedger e), sv\<lparr>sv_ledger := l\<rparr>)
      | Inr _ \<Rightarrow>
          (case so_reserve ops r (sv_store sv) of
             (Inl e, st) \<Rightarrow> (Inl (SeStore e), sv\<lparr>sv_ledger := l, sv_store := st\<rparr>)
           | (Inr _, st) \<Rightarrow> (Inr (), publish (sv\<lparr>sv_ledger := restore l r, sv_store := st\<rparr>))))"

definition service_reserve ::
  "'s store_ops \<Rightarrow> budget_source \<Rightarrow> u64 \<Rightarrow> reservation_id \<Rightarrow> intent_id \<Rightarrow>
   reservation_source list \<Rightarrow> u64 \<Rightarrow> 's ledger_service \<Rightarrow> 's service_result" where
  "service_reserve ops budgets now i intent sources ttl sv =
     (case read_budgets budgets (accounts_of sources) of
        Inl e \<Rightarrow> (Inl e, sv)
      | Inr bs \<Rightarrow> reserve_owned ops (for_swap i intent sources (sat_add64 now ttl)) bs sv)"

definition service_reserve_rebate ::
  "'s store_ops \<Rightarrow> budget_source \<Rightarrow> u64 \<Rightarrow> reservation_id \<Rightarrow> rebate_batch_id \<Rightarrow>
   reservation_source list \<Rightarrow> u64 \<Rightarrow> 's ledger_service \<Rightarrow> 's service_result" where
  "service_reserve_rebate ops budgets now i batch sources ttl sv =
     (case read_budgets budgets (accounts_of sources) of
        Inl e \<Rightarrow> (Inl e, sv)
      | Inr bs \<Rightarrow> reserve_owned ops (for_rebate i batch sources (sat_add64 now ttl)) bs sv)"

text \<open>The common shape of the remaining commands: persist, apply to memory, publish.\<close>

definition durable_first ::
  "('s \<Rightarrow> 's store_result) \<Rightarrow> (ledger \<Rightarrow> ledger_result) \<Rightarrow> 's ledger_service \<Rightarrow> 's service_result" where
  "durable_first persist apply_cmd sv =
     (case persist (sv_store sv) of
        (Inl e, st) \<Rightarrow> (Inl (SeStore e), sv\<lparr>sv_store := st\<rparr>)
      | (Inr _, st) \<Rightarrow>
          (case apply_cmd (sv_ledger sv) of
             (Inl e, l) \<Rightarrow> (Inl (SeLedger e), sv\<lparr>sv_store := st, sv_ledger := l\<rparr>)
           | (Inr _, l) \<Rightarrow> (Inr (), publish (sv\<lparr>sv_store := st, sv_ledger := l\<rparr>))))"

definition service_post ::
  "'s store_ops \<Rightarrow> reservation_id \<Rightarrow> u256 list \<Rightarrow> 's ledger_service \<Rightarrow> 's service_result" where
  "service_post ops i fs = durable_first (so_post ops i fs) (\<lambda>l. post l i fs)"

definition service_commit ::
  "'s store_ops \<Rightarrow> reservation_id \<Rightarrow> 's ledger_service \<Rightarrow> 's service_result" where
  "service_commit ops i = durable_first (so_commit ops i) (\<lambda>l. commit l i)"

definition service_void ::
  "'s store_ops \<Rightarrow> reservation_id \<Rightarrow> 's ledger_service \<Rightarrow> 's service_result" where
  "service_void ops i = durable_first (so_void ops i) (\<lambda>l. void l i)"

definition service_expire ::
  "'s store_ops \<Rightarrow> reservation_id \<Rightarrow> 's ledger_service \<Rightarrow> 's service_result" where
  "service_expire ops i = durable_first (so_expire ops i) (\<lambda>l. expire l i)"

definition service_void_reorg ::
  "'s store_ops \<Rightarrow> reservation_id \<Rightarrow> 's ledger_service \<Rightarrow> 's service_result" where
  "service_void_reorg ops i = durable_first (so_void_reorg ops i) (\<lambda>l. void_reorg l i)"

section \<open>Reads, sweep and recovery\<close>

definition reservation_sources ::
  "'s ledger_service \<Rightarrow> reservation_id \<Rightarrow> reservation_source list option" where
  "reservation_sources sv i =
     (case lookup_reservation (sv_ledger sv) i of
        Some r \<Rightarrow> if r_state r = StPending then Some (r_sources r) else None
      | None \<Rightarrow> None)"

definition settlement_reservation_sources ::
  "'s ledger_service \<Rightarrow> reservation_id \<Rightarrow> reservation_source list option" where
  "settlement_reservation_sources sv i =
     (case lookup_reservation (sv_ledger sv) i of
        Some r \<Rightarrow> if r_state r = StCommitted \<or> r_state r = StPosted then Some (r_sources r) else None
      | None \<Rightarrow> None)"

fun sweep_loop ::
  "'s store_ops \<Rightarrow> reservation_id list \<Rightarrow> intent_id list \<Rightarrow> 's ledger_service \<Rightarrow>
   (solvent_error + intent_id list) \<times> 's ledger_service" where
  "sweep_loop ops [] swept sv = (Inr swept, sv)"
| "sweep_loop ops (i # ids) swept sv =
     (let intent = (case lookup_reservation (sv_ledger sv) i of
                      None \<Rightarrow> None | Some r \<Rightarrow> swap_intent (r_owner r)) in
      case so_expire ops i (sv_store sv) of
        (Inl e, st) \<Rightarrow> (Inl (SeStore e), sv\<lparr>sv_store := st\<rparr>)
      | (Inr _, st) \<Rightarrow>
          (case expire (sv_ledger sv) i of
             (Inl e, l) \<Rightarrow> (Inl (SeLedger e), sv\<lparr>sv_store := st, sv_ledger := l\<rparr>)
           | (Inr _, l) \<Rightarrow>
               sweep_loop ops ids (swept @ (case intent of None \<Rightarrow> [] | Some x \<Rightarrow> [x]))
                 (sv\<lparr>sv_store := st, sv_ledger := l\<rparr>)))"

definition sweep_expired ::
  "'s store_ops \<Rightarrow> u64 \<Rightarrow> reservation_id list \<Rightarrow> 's ledger_service \<Rightarrow>
   (solvent_error + intent_id list) \<times> 's ledger_service" where
  "sweep_expired ops now exclude sv =
     (let expired = filter (\<lambda>i. i \<notin> set exclude) (expired_swaps_as_of (sv_ledger sv) now) in
      case sweep_loop ops expired [] sv of
        (Inl e, sv') \<Rightarrow> (Inl e, sv')
      | (Inr swept, sv') \<Rightarrow> (Inr swept, if expired = [] then sv' else publish sv'))"

fun recover_loop ::
  "budget_source \<Rightarrow> reservation list \<Rightarrow> ledger \<Rightarrow> (solvent_error + unit) \<times> ledger" where
  "recover_loop budgets [] l = (Inr (), l)"
| "recover_loop budgets (r # rs) l =
     (case read_budgets budgets (accounts_of (r_sources r)) of
        Inl e \<Rightarrow> (Inl e, l)
      | Inr bs \<Rightarrow> recover_loop budgets rs (restore (feed_budgets bs l) r))"

definition recover :: "'s store_ops \<Rightarrow> budget_source \<Rightarrow> 's ledger_service \<Rightarrow> 's service_result" where
  "recover ops budgets sv =
     (case so_open_reservations ops (sv_store sv) of
        (Inl e, st) \<Rightarrow> (Inl (SeStore e), sv\<lparr>sv_store := st\<rparr>)
      | (Inr opened, st) \<Rightarrow>
          (case recover_loop budgets opened (sv_ledger sv) of
             (Inl e, l) \<Rightarrow> (Inl e, sv\<lparr>sv_store := st, sv_ledger := l\<rparr>)
           | (Inr _, l) \<Rightarrow> (Inr (), publish (sv\<lparr>sv_store := st, sv_ledger := l\<rparr>))))"

definition service_available :: "'s ledger_service \<Rightarrow> account_key \<Rightarrow> u256" where
  "service_available sv a = snapshot_available (sv_available sv) a"

definition add_token ::
  "maker_strategy \<Rightarrow> address \<Rightarrow> account_key bset \<times> account_key list \<Rightarrow>
   account_key bset \<times> account_key list" where
  "add_token st token acc =
     (case acc of (walleted, as) \<Rightarrow>
        let wallet = WalletBudget (sk_maker (ms_key st)) token;
            virt = StrategyVirtual (sk_maker (ms_key st)) (sk_hash (ms_key st)) token
        in if wallet \<in> set walleted then (walleted, as @ [virt])
           else (bs_insert wallet walleted, as @ [wallet, virt]))"

definition active_accounts :: "snapshot \<Rightarrow> account_key list" where
  "active_accounts registry =
     snd (fold (\<lambda>st acc. case ms_pair st of
                            None \<Rightarrow> acc
                          | Some pair \<Rightarrow> fold (add_token st) [tp_lo pair, tp_hi pair] acc)
            (active_strategies registry) ([], []))"

definition budgets_default ::
  "budget_source \<Rightarrow> account_key list \<Rightarrow> solvent_error + (account_key, u256) bmap" where
  "budgets_default budgets as =
     try_fold (\<lambda>out a. rbind (budgets a) (\<lambda>b. Inr (bm_insert a b out))) [] as"

definition sync_budgets ::
  "(account_key list \<Rightarrow> solvent_error + (account_key, u256) bmap) \<Rightarrow> snapshot \<Rightarrow>
   's ledger_service \<Rightarrow> 's service_result" where
  "sync_budgets budgets registry sv =
     (case budgets (active_accounts registry) of
        Inl e \<Rightarrow> (Inl e, sv)
      | Inr bs \<Rightarrow> (Inr (), publish (sv\<lparr>sv_ledger := set_budgets (sv_ledger sv) bs\<rparr>)))"

section \<open>Agreement of memory and store\<close>

text \<open>
  Memory never leads or trails the durable record on a standing promise: every reservation in memory
  is on record with the same body and state, and every open row on record is in memory.
\<close>

definition agrees :: "ledger \<Rightarrow> (reservation_id \<Rightarrow> reservation option) \<Rightarrow> bool" where
  "agrees l rows \<longleftrightarrow>
     (\<forall>i r. bm_get (lg_reservations l) i = Some r \<longrightarrow> rows i = Some r) \<and>
     (\<forall>i r. rows i = Some r \<longrightarrow> is_active (r_state r) \<longrightarrow> bm_get (lg_reservations l) i = Some r)"

lemma agreesD:
  assumes "agrees l rows"
  shows "bm_get (lg_reservations l) i = Some r \<Longrightarrow> rows i = Some r"
    and "rows i = Some r \<Longrightarrow> is_active (r_state r) \<Longrightarrow> bm_get (lg_reservations l) i = Some r"
  using assms unfolding agrees_def by blast+

lemma agreesI:
  assumes "\<And>i r. bm_get (lg_reservations l) i = Some r \<Longrightarrow> rows i = Some r"
    and "\<And>i r. rows i = Some r \<Longrightarrow> is_active (r_state r) \<Longrightarrow> bm_get (lg_reservations l) i = Some r"
  shows "agrees l rows"
  using assms unfolding agrees_def by blast

text \<open>
  A transition that memory accepts is made to both sides; one that memory refuses, because the
  reservation is unknown or in no admitted state, does not move the row either.
\<close>

lemma agrees_move:
  assumes ag: "agrees l rows" and get: "bm_get (lg_reservations l) i = Some r" and "r_state r \<in> from"
    and l': "lg_reservations l' = bm_insert i (r\<lparr>r_state := st\<rparr>) (lg_reservations l)"
  shows "agrees l' (move_row from st i rows)"
proof -
  have row: "rows i = Some r" by (rule agreesD(1) [OF ag get])
  show ?thesis
  proof (rule agreesI)
    fix j q
    show "move_row from st i rows j = Some q" if "bm_get (lg_reservations l') j = Some q"
      using that agreesD(1) [OF ag, of j q] assms(3) row by (cases "j = i") (simp_all add: l' move_row_def)
    show "bm_get (lg_reservations l') j = Some q"
      if "move_row from st i rows j = Some q" "is_active (r_state q)"
      using that agreesD(2) [OF ag, of j q] assms(3) row by (cases "j = i") (simp_all add: l' move_row_def)
  qed
qed

lemma move_row_still: "(\<And>r. rows i = Some r \<Longrightarrow> r_state r \<notin> from) \<Longrightarrow> move_row from st i rows = rows"
  by (cases "rows i") (simp_all add: move_row_def fun_eq_iff)

lemma feed_budgets_fields [simp]:
  "lg_reservations (feed_budgets bs l) = lg_reservations l"
  "lg_held (feed_budgets bs l) = lg_held l"
  "lg_filled (feed_budgets bs l) = lg_filled l"
  by (induction bs arbitrary: l) (auto simp: feed_budgets_def set_budget_def)

lemma agrees_cong: "lg_reservations l' = lg_reservations l \<Longrightarrow> agrees l' rows = agrees l rows"
  unfolding agrees_def by simp

subsection \<open>Engine commands against the durable transitions\<close>

lemma refused_keeps:
  assumes "agrees l rows" and "fst x = Inl e" and "\<And>l'. x = (Inl e, l') \<Longrightarrow> l' = l"
    and "\<And>r. bm_get (lg_reservations l) i = Some r \<Longrightarrow> r_state r \<notin> from"
    and "\<And>st. st \<in> from \<Longrightarrow> is_active st"
  shows "agrees (snd (x :: ledger_result)) (move_row from to i rows)"
proof -
  have "snd x = l" using assms(2,3) by (cases x) simp
  moreover have "move_row from to i rows = rows"
    using assms(4,5) agreesD(2) [OF assms(1)] by (intro move_row_still) blast
  ultimately show ?thesis using assms(1) by simp
qed

lemma result_cases:
  fixes x :: ledger_result
  obtains (ok) l' where "x = (Inr (), l')" | (refused) e where "fst x = Inl e"
  using cmd_result_cases [of x] by force

lemma agrees_expire:
  assumes ag: "agrees l rows"
  shows "agrees (snd (expire l i)) (move_row {StPending} StExpired i rows)"
proof (cases "expire l i" rule: result_cases)
  case (ok l')
  then obtain r where "bm_get (lg_reservations l) i = Some r" "r_state r = StPending"
    "l' = release_sources l i (r_sources r) StExpired" by (auto simp: release_Inr)
  then show ?thesis
    by (intro agrees_move [OF ag]) (auto simp: ok release_sources_reservations)
next
  case (refused e)
  have "r_state r \<notin> {StPending}" if "bm_get (lg_reservations l) i = Some r" for r
  proof
    assume "r_state r \<in> {StPending}"
    then have "expire l i = (Inr (), release_sources l i (r_sources r) StExpired)"
      using that by (simp add: release_Inr)
    then show False using refused by simp
  qed
  then show ?thesis
    by (intro refused_keeps [OF ag refused]) (auto dest: error_leaves_ledger simp: is_active_def)
qed

lemma agrees_void:
  assumes ag: "agrees l rows"
  shows "agrees (snd (void l i)) (move_row {StPending, StCommitted} StVoided i rows)"
proof (cases "void l i" rule: result_cases)
  case (ok l')
  then obtain r where "bm_get (lg_reservations l) i = Some r" "is_active (r_state r)"
    "l' = release_sources l i (r_sources r) StVoided" by (auto simp: release_Inr)
  then show ?thesis
    by (intro agrees_move [OF ag]) (auto simp: ok release_sources_reservations is_active_def)
next
  case (refused e)
  have "r_state r \<notin> {StPending, StCommitted}" if "bm_get (lg_reservations l) i = Some r" for r
  proof
    assume "r_state r \<in> {StPending, StCommitted}"
    then have "void l i = (Inr (), release_sources l i (r_sources r) StVoided)"
      using that by (auto simp: release_Inr is_active_def)
    then show False using refused by simp
  qed
  then show ?thesis
    by (intro refused_keeps [OF ag refused]) (auto dest: error_leaves_ledger simp: is_active_def)
qed

lemma agrees_commit:
  assumes ag: "agrees l rows"
  shows "agrees (snd (commit l i)) (move_row {StPending} StCommitted i rows)"
proof (cases "\<exists>r. bm_get (lg_reservations l) i = Some r \<and> r_state r = StPending")
  case True
  then obtain r where r: "bm_get (lg_reservations l) i = Some r" "r_state r = StPending" by blast
  then have "snd (commit l i) = transition l i StCommitted" by (simp add: commit_def)
  then show ?thesis using r by (auto simp: transition_reservations intro!: agrees_move [OF ag])
next
  case False
  then have "snd (commit l i) = l"
    by (auto simp: commit_def split: option.split reservation_state.split)
  moreover have "move_row {StPending} StCommitted i rows = rows"
    using False agreesD(2) [OF ag, of i] by (intro move_row_still) (auto simp: is_active_def)
  ultimately show ?thesis using ag by simp
qed

text \<open>Settlement: the durable record is moved before the fills are validated, so they must be valid.\<close>

definition fills_ok :: "ledger \<Rightarrow> reservation_id \<Rightarrow> u256 list \<Rightarrow> bool" where
  "fills_ok l i fs \<longleftrightarrow>
     (\<forall>r. bm_get (lg_reservations l) i = Some r \<longrightarrow> is_active (r_state r) \<longrightarrow>
        list_all2 (\<lambda>f s. f \<le> rs_amount s) fs (r_sources r))"

lemma post_accepts:
  assumes "bm_get (lg_reservations l) i = Some r" and "is_active (r_state r)"
    and "list_all2 (\<lambda>f s. f \<le> rs_amount s) fs (r_sources r)"
  shows "fst (post l i fs) = Inr ()"
proof -
  have "active_sources l i = Inr (r_sources r)" using assms by (auto simp: active_sources_Inr)
  moreover have "check_fills 0 (r_sources r) fs = Inr ()"
    using assms(3) by (simp add: check_fills_Inr list_all2_lengthD)
  ultimately show ?thesis using list_all2_lengthD [OF assms(3)] by (simp add: post_def)
qed

lemma agrees_post:
  assumes ag: "agrees l rows" and fills: "fills_ok l i fs"
  shows "agrees (snd (post l i fs)) (move_row {StPending, StCommitted} StPosted i rows)"
proof (cases "post l i fs" rule: result_cases)
  case (ok l')
  then obtain r where "bm_get (lg_reservations l) i = Some r" "is_active (r_state r)"
    "lg_reservations l' = bm_insert i (r\<lparr>r_state := StPosted\<rparr>) (lg_reservations l)"
    by (elim post_Inr) (auto simp: transition_def)
  then show ?thesis using ok by (auto simp: is_active_def intro!: agrees_move [OF ag])
next
  case (refused e)
  have "r_state r \<notin> {StPending, StCommitted}" if "bm_get (lg_reservations l) i = Some r" for r
    using post_accepts [OF that, of fs] fills that refused by (auto simp: fills_ok_def is_active_def)
  then show ?thesis
    by (intro refused_keeps [OF ag refused]) (auto dest: error_leaves_ledger simp: is_active_def)
qed

lemma agrees_void_reorg:
  assumes ag: "agrees l rows"
  shows "agrees (snd (void_reorg l i)) (move_row {StPosted} StReorgOpen i rows)"
proof (cases "bm_get (lg_reservations l) i")
  case (Some r)
  show ?thesis
  proof (cases "r_state r = StPosted")
    case True
    then have "lg_reservations (snd (void_reorg l i)) =
        bm_insert i (r\<lparr>r_state := StReorgOpen\<rparr>) (lg_reservations l)"
      using Some by (simp add: void_reorg_def require_state_def Let_def transition_def)
    then show ?thesis using True by (intro agrees_move [OF ag Some]) auto
  next
    case False
    then have "snd (void_reorg l i) = l" using Some by (simp add: void_reorg_def require_state_def)
    moreover have "move_row {StPosted} StReorgOpen i rows = rows"
      using False agreesD(1) [OF ag Some] by (intro move_row_still) auto
    ultimately show ?thesis using ag by simp
  qed
next
  case None
  then have "snd (void_reorg l i) = l" by (simp add: void_reorg_def)
  moreover have "agrees l (move_row {StPosted} StReorgOpen i rows)"
  proof (rule agreesI)
    fix j q
    show "move_row {StPosted} StReorgOpen i rows j = Some q" if "bm_get (lg_reservations l) j = Some q"
      using that None agreesD(1) [OF ag that] by (auto simp: move_row_def)
    show "bm_get (lg_reservations l) j = Some q"
      if "move_row {StPosted} StReorgOpen i rows j = Some q" "is_active (r_state q)"
      using that agreesD(2) [OF ag, of j q]
      by (auto simp: move_row_def is_active_def split: if_splits option.splits)
  qed
  ultimately show ?thesis by simp
qed

lemma agrees_restore:
  assumes ag: "agrees l rows" and ok: "can_reserve l r = Inr ()"
    and row: "rows (r_id r) = None \<or> rows (r_id r) = Some r"
  shows "agrees (restore l r) (rows(r_id r \<mapsto> r))"
proof -
  have new: "bm_get (lg_reservations l) (r_id r) = None" using ok by (simp add: can_reserve_Inr)
  show ?thesis
    by (rule agreesI)
      (auto simp: restore_reservations [OF new] dest: agreesD [OF ag] split: if_splits)
qed

section \<open>Replaying the durable record\<close>

definition bounded_source :: "budget_source \<Rightarrow> bool" where
  "bounded_source budgets \<longleftrightarrow> (\<forall>a b. budgets a = Inr b \<longrightarrow> b \<le> u256_max)"

lemma collect_Inr: "collect xs = Inr ys \<Longrightarrow> xs = map Inr ys"
  by (induction xs arbitrary: ys) (auto simp: res)

lemma read_budgets_bounded:
  assumes "bounded_source budgets" and "read_budgets budgets as = Inr bs"
  shows "\<forall>(a, b) \<in> set bs. b \<le> u256_max"
proof -
  have "map (\<lambda>a. rbind (budgets a) (\<lambda>b. Inr (a, b))) as = map Inr bs"
    using assms(2) collect_Inr by (auto simp: read_budgets_def)
  then have read: "\<exists>x. rbind (budgets x) (\<lambda>b. Inr (x, b)) = Inr ab" if "ab \<in> set bs" for ab
    using that by (metis (no_types, lifting) ex_map_conv image_eqI image_set in_set_conv_nth length_map nth_map)
  show ?thesis
  proof clarify
    fix a b assume "(a, b) \<in> set bs"
    from read [OF this] obtain x where "budgets x = Inr b" by (auto simp: res)
    then show "b \<le> u256_max" using assms(1) by (auto simp: bounded_source_def)
  qed
qed

lemma feed_budgets_inv:
  assumes "ledger_inv l" and "\<forall>(a, b) \<in> set bs. b \<le> u256_max"
  shows "ledger_inv (feed_budgets bs l)"
  using assms
proof (induction bs arbitrary: l)
  case (Cons ab bs)
  obtain a b where ab: "ab = (a, b)" by (cases ab)
  have "ledger_inv (set_budget l a b)"
    by (rule ledger_step_inv [OF step_set_budget Cons.prems(1)]) (use Cons.prems(2) ab in auto)
  then show ?case using Cons.IH Cons.prems(2) by (simp add: feed_budgets_def ab)
qed (simp add: feed_budgets_def)

lemma same_held: "lg_held l' = lg_held l \<Longrightarrow> pending l' a = pending l a \<and> consumed l' a = consumed l a"
  by (simp add: pending_def consumed_def)

definition replayed :: "reservation list \<Rightarrow> account_key \<Rightarrow> nat" where
  "replayed rs a = (\<Sum>r\<leftarrow>rs. demand_on a (r_sources r))"

lemma recover_loop_spec:
  assumes "recover_loop budgets rs l = (Inr (), l')" and "bounded_source budgets" and "ledger_inv l"
    and "distinct (map r_id rs)" and "\<forall>r \<in> set rs. is_active (r_state r)"
    and "\<forall>r \<in> set rs. bm_get (lg_reservations l) (r_id r) = None"
    and "\<And>a. pending l a + consumed l a + replayed rs a \<le> u256_max"
  shows "ledger_inv l' \<and> (\<forall>a. pending l' a = pending l a + replayed rs a) \<and>
    (\<forall>a. consumed l' a = consumed l a) \<and>
    (\<forall>i. bm_get (lg_reservations l') i =
       (case map_of (map (\<lambda>r. (r_id r, r)) rs) i of
          Some r \<Rightarrow> Some r | None \<Rightarrow> bm_get (lg_reservations l) i))"
  using assms
proof (induction rs arbitrary: l)
  case Nil
  then show ?case by (simp add: replayed_def)
next
  case (Cons r rs)
  obtain bs where bs: "read_budgets budgets (accounts_of (r_sources r)) = Inr bs"
    and run: "recover_loop budgets rs (restore (feed_budgets bs l) r) = (Inr (), l')"
    using Cons.prems(1) by (auto split: sum.splits)
  let ?f = "feed_budgets bs l"
  have inv: "ledger_inv ?f"
    by (rule feed_budgets_inv [OF Cons.prems(3) read_budgets_bounded [OF Cons.prems(2) bs]])
  have held: "pending ?f a = pending l a" "consumed ?f a = consumed l a" for a
    using same_held [of ?f l a] by simp_all
  have new: "bm_get (lg_reservations ?f) (r_id r) = None" using Cons.prems(6) by simp
  have act: "is_active (r_state r)" using Cons.prems(5) by simp
  have room: "pending l a + consumed l a + demand_on a (r_sources r) + replayed rs a \<le> u256_max" for a
    using Cons.prems(7) [of a] by (simp add: replayed_def ac_simps)
  have fits: "pending ?f a + consumed ?f a + demand_on a (r_sources r) \<le> u256_max"
    "pending ?f a + demand_on a (r_sources r) \<le> u256_max" for a
    using room [of a] by (simp_all add: held)
  note eff = restore_effect [OF new fits(2)] and res = restore_reservations [OF new]
  have IH: "ledger_inv l' \<and> (\<forall>a. pending l' a = pending (restore ?f r) a + replayed rs a) \<and>
    (\<forall>a. consumed l' a = consumed (restore ?f r) a) \<and>
    (\<forall>i. bm_get (lg_reservations l') i =
       (case map_of (map (\<lambda>r. (r_id r, r)) rs) i of
          Some r \<Rightarrow> Some r | None \<Rightarrow> bm_get (lg_reservations (restore ?f r)) i))"
  proof (rule Cons.IH [OF run Cons.prems(2) inv_restore_new [OF inv new act fits(1)]])
    have "r_id r' \<noteq> r_id r" if "r' \<in> set rs" for r'
      using Cons.prems(4) that by (metis distinct.simps(2) image_eqI list.simps(9) set_map)
    then show "\<forall>r' \<in> set rs. bm_get (lg_reservations (restore ?f r)) (r_id r') = None"
      using Cons.prems(6) by (simp add: res)
    show "pending (restore ?f r) a + consumed (restore ?f r) a + replayed rs a \<le> u256_max" for a
      using room [of a] by (simp add: eff held)
  qed (use Cons.prems(4,5) in auto)
  have "map_of (map (\<lambda>r. (r_id r, r)) rs) (r_id r) = None"
    using Cons.prems(4) by (auto simp: map_of_eq_None_iff)
  then show ?case
    using IH by (auto simp: eff held replayed_def res split: option.split)
qed

lemma open_is_active_entries:
  assumes "ledger_inv l" and ag: "agrees l rows" and "sorted_wrt (<) (map r_id rs)"
    and rs: "\<And>i r. rows i = Some r \<and> is_active (r_state r) \<longleftrightarrow> r \<in> set rs \<and> r_id r = i"
  shows "map (\<lambda>r. (r_id r, r)) rs = filter (\<lambda>(_, r). is_active (r_state r)) (lg_reservations l)"
proof (rule bm.entries_ext)
  let ?m = "lg_reservations l"
  have wf: "bm_wf ?m" and id: "\<And>i r. bm_get ?m i = Some r \<Longrightarrow> r_id r = i"
    using assms(1) by (auto simp: ledger_inv_def ledger_shape_def)
  show w1: "bm_wf (map (\<lambda>r. (r_id r, r)) rs)" using assms(3) by (simp add: bm_wf_def comp_def)
  show w2: "bm_wf (filter (\<lambda>(_, r). is_active (r_state r)) ?m)"
    using wf unfolding bm_wf_def sorted_wrt_map by (rule sorted_wrt_filter)
  fix i
  have "bm_get (map (\<lambda>r. (r_id r, r)) rs) i = Some r \<longleftrightarrow>
      bm_get (filter (\<lambda>(_, r). is_active (r_state r)) ?m) i = Some r" for r
  proof -
    have "bm_get (map (\<lambda>r. (r_id r, r)) rs) i = Some r \<longleftrightarrow> rows i = Some r \<and> is_active (r_state r)"
      by (auto simp: bm_get_iff [OF w1] rs)
    also have "\<dots> \<longleftrightarrow> bm_get ?m i = Some r \<and> is_active (r_state r)"
      using agreesD [OF ag, of i r] by blast
    also have "\<dots> \<longleftrightarrow> bm_get (filter (\<lambda>(_, r). is_active (r_state r)) ?m) i = Some r"
      by (auto simp: bm_get_iff [OF w2] bm_get_iff [OF wf])
    finally show ?thesis .
  qed
  then show "bm_get (map (\<lambda>r. (r_id r, r)) rs) i =
      bm_get (filter (\<lambda>(_, r). is_active (r_state r)) ?m) i"
    by (rule option_eqI)
qed

lemma replayed_spec:
  assumes "map (\<lambda>r. (r_id r, r)) rs = filter (\<lambda>(_, r). is_active (r_state r)) (lg_reservations l)"
  shows "replayed rs a = spec_pending l a"
proof -
  have "replayed rs a = (\<Sum>(_, r)\<leftarrow>map (\<lambda>r. (r_id r, r)) rs. demand_on a (r_sources r))"
    by (simp add: replayed_def comp_def)
  also have "\<dots> = (\<Sum>(_, r)\<leftarrow>filter (\<lambda>(_, r). is_active (r_state r)) m. demand_on a (r_sources r))"
    if "m = lg_reservations l" for m by (simp only: assms that)
  also have "(\<Sum>(_, r)\<leftarrow>filter (\<lambda>(_, r). is_active (r_state r)) m. demand_on a (r_sources r)) =
      bm_sum (\<lambda>_. owed a) m" for m
    by (induction m) (auto simp: owed_def)
  finally show ?thesis by (simp add: spec_pending_def)
qed

section \<open>The service as a state machine\<close>

text \<open>
  One step of the service: any command with any arguments and any outcome, or a crash followed by a
  successful recovery from the durable record. Budgets are 256-bit words. Two cases that the code does
  not refuse are left out of these histories. A promise is not admitted when its sources on one
  account add up to more than 256 bits (\<open>saturated_demand_is_admitted\<close>). And an active reservation is not
  settled with fills that do not fit its sources, one fill per source and none above it: such a
  settlement is refused only after it was persisted, and memory and store disagree from then on
  (\<open>refused_settlement_is_already_durable\<close>).
\<close>

inductive service_step :: "'s store_ops \<Rightarrow> 's ledger_service \<Rightarrow> 's ledger_service \<Rightarrow> bool" for ops where
  sv_reserve: "bounded_source budgets \<Longrightarrow>
     (fst (service_reserve ops budgets now i intent sources ttl sv) = Inr () \<longrightarrow> demand_fits sources) \<Longrightarrow>
     service_step ops sv (snd (service_reserve ops budgets now i intent sources ttl sv))"
| sv_reserve_rebate: "bounded_source budgets \<Longrightarrow>
     (fst (service_reserve_rebate ops budgets now i batch sources ttl sv) = Inr () \<longrightarrow> demand_fits sources) \<Longrightarrow>
     service_step ops sv (snd (service_reserve_rebate ops budgets now i batch sources ttl sv))"
| sv_post: "fills_ok (sv_ledger sv) i fs \<Longrightarrow> service_step ops sv (snd (service_post ops i fs sv))"
| sv_commit: "service_step ops sv (snd (service_commit ops i sv))"
| sv_void: "service_step ops sv (snd (service_void ops i sv))"
| sv_expire: "service_step ops sv (snd (service_expire ops i sv))"
| sv_void_reorg: "service_step ops sv (snd (service_void_reorg ops i sv))"
| sv_sweep: "service_step ops sv (snd (sweep_expired ops now exclude sv))"
| sv_sync: "(\<And>as bs a. budgets as = Inr bs \<Longrightarrow> unwrap_or 0 (bm_get bs a) \<le> u256_max) \<Longrightarrow>
     service_step ops sv (snd (sync_budgets budgets registry sv))"
| sv_restart: "bounded_source budgets \<Longrightarrow>
     recover ops budgets (service_new (sv_store sv)) = (Inr (), sv') \<Longrightarrow> service_step ops sv sv'"

lemma publish_simps [simp]:
  "sv_ledger (publish sv) = sv_ledger sv" "sv_store (publish sv) = sv_store sv"
  by (simp_all add: publish_def)

lemma sweep_expired_state:
  "sv_ledger (snd (sweep_expired ops now exclude sv)) =
     sv_ledger (snd (sweep_loop ops (filter (\<lambda>i. i \<notin> set exclude)
       (expired_swaps_as_of (sv_ledger sv) now)) [] sv))"
  "sv_store (snd (sweep_expired ops now exclude sv)) =
     sv_store (snd (sweep_loop ops (filter (\<lambda>i. i \<notin> set exclude)
       (expired_swaps_as_of (sv_ledger sv) now)) [] sv))"
  by (simp_all add: sweep_expired_def Let_def split: prod.split sum.split)

lemma durable_first_step:
  assumes "P (sv_ledger sv) (sv_store sv)"
    and "\<And>e st. persist (sv_store sv) = (Inl e, st) \<Longrightarrow> P (sv_ledger sv) st"
    and "\<And>st. persist (sv_store sv) = (Inr (), st) \<Longrightarrow> P (snd (cmd (sv_ledger sv))) st"
  shows "P (sv_ledger (snd (durable_first persist cmd sv))) (sv_store (snd (durable_first persist cmd sv)))"
  using assms by (auto simp: durable_first_def split: prod.split sum.split)

text \<open>The service invariant: the books are right, the store is well formed, and the two agree.\<close>

definition consistent ::
  "('s \<Rightarrow> reservation_id \<Rightarrow> reservation option) \<Rightarrow> ('s \<Rightarrow> bool) \<Rightarrow> ledger \<Rightarrow> 's \<Rightarrow> bool" where
  "consistent rows store_wf l st \<longleftrightarrow> ledger_inv l \<and> store_wf st \<and> agrees l (rows st)"

context ledger_store
begin

lemma consistent_store:
  "consistent rows store_wf l st \<Longrightarrow> rows st' = rows st \<Longrightarrow> store_wf st' \<Longrightarrow> consistent rows store_wf l st'"
  by (simp add: consistent_def)

lemma consistent_reserve_owned:
  assumes c: "consistent rows store_wf (sv_ledger sv) (sv_store sv)" and st: "r_state r = StPending"
    and fits: "fst (reserve_owned ops r bs sv) = Inr () \<longrightarrow> demand_fits (r_sources r)" and bs: "\<forall>(a, b) \<in> set bs. b \<le> u256_max"
  shows "consistent rows store_wf (sv_ledger (snd (reserve_owned ops r bs sv))) (sv_store (snd (reserve_owned ops r bs sv)))"
proof -
  let ?l = "feed_budgets bs (sv_ledger sv)" and ?st = "sv_store sv"
  have inv: "ledger_inv ?l" and wf: "store_wf ?st" and ag: "agrees ?l (rows ?st)"
    using c feed_budgets_inv [OF _ bs]
    by (auto simp: consistent_def agrees_cong [OF feed_budgets_fields(1)])
  then have c': "consistent rows store_wf ?l ?st" by (simp add: consistent_def)
  show ?thesis
  proof (cases "can_reserve ?l r")
    case (Inl e)
    then show ?thesis using c' by (simp add: reserve_owned_def)
  next
    case (Inr u)
    obtain res st' where call: "so_reserve ops r ?st = (res, st')" by (cases "so_reserve ops r ?st")
    have wf': "store_wf st'" by (rule wf_kept(1) [OF wf call])
    show ?thesis
    proof (cases res)
      case (Inl e)
      then show ?thesis
        using Inr call consistent_store [OF c' fault_free(1) wf', of r e]
        by (simp add: reserve_owned_def)
    next
      case res: (Inr v)
      then have call': "so_reserve ops r ?st = (Inr (), st')" using call by simp
      have ok: "can_reserve ?l r = Inr ()" using Inr by simp
      have "agrees (restore ?l r) (rows st')"
        using agrees_restore [OF ag ok reserve_new(1) [OF wf call' st]] reserve_new(2) [OF wf call' st]
        by simp
      moreover have "demand_fits (r_sources r)" using fits call' ok by (simp add: reserve_owned_def)
      then have "ledger_inv (restore ?l r)" by (rule inv_reserve [OF inv st _ ok])
      ultimately show ?thesis using wf' call' ok by (simp add: reserve_owned_def consistent_def)
    qed
  qed
qed

lemma consistent_commands:
  assumes c: "consistent rows store_wf (sv_ledger sv) (sv_store sv)"
  shows "fills_ok (sv_ledger sv) i fs \<Longrightarrow>
      consistent rows store_wf (sv_ledger (snd (service_post ops i fs sv))) (sv_store (snd (service_post ops i fs sv)))"
    and "consistent rows store_wf (sv_ledger (snd (service_commit ops i sv))) (sv_store (snd (service_commit ops i sv)))"
    and "consistent rows store_wf (sv_ledger (snd (service_void ops i sv))) (sv_store (snd (service_void ops i sv)))"
    and "consistent rows store_wf (sv_ledger (snd (service_expire ops i sv))) (sv_store (snd (service_expire ops i sv)))"
    and "consistent rows store_wf (sv_ledger (snd (service_void_reorg ops i sv))) (sv_store (snd (service_void_reorg ops i sv)))"
proof -
  have wf: "store_wf (sv_store sv)" and inv: "ledger_inv (sv_ledger sv)"
    and ag: "agrees (sv_ledger sv) (rows (sv_store sv))" using c by (simp_all add: consistent_def)
  note step = durable_first_step [of "consistent rows store_wf", OF c] and cmds = inv_commands [OF inv]
  show "consistent rows store_wf (sv_ledger (snd (service_post ops i fs sv))) (sv_store (snd (service_post ops i fs sv)))"
    if "fills_ok (sv_ledger sv) i fs"
    unfolding service_post_def
    by (rule step) (use wf inv ag that in \<open>auto simp: consistent_def transitions(2) cmds agrees_post
        intro: wf_kept(3) dest: fault_free(3)\<close>)
  show "consistent rows store_wf (sv_ledger (snd (service_commit ops i sv))) (sv_store (snd (service_commit ops i sv)))"
    unfolding service_commit_def
    by (rule step) (use wf inv ag in \<open>auto simp: consistent_def transitions(1) cmds agrees_commit
        intro: wf_kept(2) dest: fault_free(2)\<close>)
  show "consistent rows store_wf (sv_ledger (snd (service_void ops i sv))) (sv_store (snd (service_void ops i sv)))"
    unfolding service_void_def
    by (rule step) (use wf inv ag in \<open>auto simp: consistent_def transitions(3) cmds agrees_void
        intro: wf_kept(4) dest: fault_free(4)\<close>)
  show "consistent rows store_wf (sv_ledger (snd (service_expire ops i sv))) (sv_store (snd (service_expire ops i sv)))"
    unfolding service_expire_def
    by (rule step) (use wf inv ag in \<open>auto simp: consistent_def transitions(4) cmds agrees_expire
        intro: wf_kept(5) dest: fault_free(5)\<close>)
  show "consistent rows store_wf (sv_ledger (snd (service_void_reorg ops i sv))) (sv_store (snd (service_void_reorg ops i sv)))"
    unfolding service_void_reorg_def
    by (rule step) (use wf inv ag in \<open>auto simp: consistent_def transitions(5) cmds agrees_void_reorg
        intro: wf_kept(6) dest: fault_free(6)\<close>)
qed

lemma consistent_sweep_loop:
  assumes "consistent rows store_wf (sv_ledger sv) (sv_store sv)"
  shows "consistent rows store_wf (sv_ledger (snd (sweep_loop ops ids swept sv)))
           (sv_store (snd (sweep_loop ops ids swept sv)))"
  using assms
proof (induction ids arbitrary: swept sv)
  case (Cons i ids)
  have c: "consistent rows store_wf (sv_ledger (snd (service_expire ops i sv)))
      (sv_store (snd (service_expire ops i sv)))"
    by (rule consistent_commands(4) [OF Cons.prems])
  show ?case
    using c Cons.IH
    by (auto simp: service_expire_def durable_first_def Let_def split: prod.splits sum.splits)
qed simp

lemma consistent_restart:
  assumes c: "consistent rows store_wf l st" and src: "bounded_source budgets"
    and run: "recover ops budgets (service_new st) = (Inr (), sv')"
  shows "consistent rows store_wf (sv_ledger sv') (sv_store sv') \<and> rows (sv_store sv') = rows st \<and>
    (\<forall>a. pending (sv_ledger sv') a = pending l a \<and> consumed (sv_ledger sv') a = 0) \<and>
    (\<forall>i. bm_get (lg_reservations (sv_ledger sv')) i =
       (case bm_get (lg_reservations l) i of
          Some r \<Rightarrow> if is_active (r_state r) then Some r else None | None \<Rightarrow> None))"
proof -
  have inv: "ledger_inv l" and wf: "store_wf st" and ag: "agrees l (rows st)"
    using c by (simp_all add: consistent_def)
  obtain rs st' l' where opened: "so_open_reservations ops st = (Inr rs, st')"
    and loop: "recover_loop budgets rs ledger_default = (Inr (), l')"
    and sv': "sv_ledger sv' = l'" "sv_store sv' = st'"
    using run by (auto simp: recover_def service_new_def split: prod.splits sum.splits)
  have rows: "rows st' = rows st" and wf': "store_wf st'"
    using open_rows(1) [OF opened] wf_kept(7) [OF wf opened] by simp_all
  have sorted: "sorted_wrt (<) (map r_id rs)"
    and mem: "\<And>i r. rows st i = Some r \<and> is_active (r_state r) \<longleftrightarrow> r \<in> set rs \<and> r_id r = i"
    using open_rows(2) [OF wf opened] by blast+
  note entries = open_is_active_entries [OF inv ag sorted mem]
  have sum: "replayed rs a = pending l a" for a
    using replayed_spec [OF entries] inv by (simp add: ledger_inv_def)
  have empty: "pending ledger_default a = 0" "consumed ledger_default a = 0"
    "bm_get (lg_reservations ledger_default) i = None" for a i
    by (simp_all add: ledger_default_def pending_def consumed_def)
  have "ledger_inv l' \<and> (\<forall>a. pending l' a = pending ledger_default a + replayed rs a) \<and>
    (\<forall>a. consumed l' a = consumed ledger_default a) \<and>
    (\<forall>i. bm_get (lg_reservations l') i =
       (case map_of (map (\<lambda>r. (r_id r, r)) rs) i of
          Some r \<Rightarrow> Some r | None \<Rightarrow> bm_get (lg_reservations ledger_default) i))"
  proof (rule recover_loop_spec [OF loop src inv_default])
    show "distinct (map r_id rs)" using sorted strict_sorted_iff by blast
    show "\<forall>r \<in> set rs. is_active (r_state r)" using mem by blast
    show "pending ledger_default a + consumed ledger_default a + replayed rs a \<le> u256_max" for a
      using inv_bound [OF inv, of a] by (simp add: empty sum)
  qed (simp add: empty)
  then have inv': "ledger_inv l'" and held: "pending l' a = pending l a" "consumed l' a = 0"
    and lookup: "bm_get (lg_reservations l') i = map_of (map (\<lambda>r. (r_id r, r)) rs) i" for a i
    by (auto simp: empty sum split: option.splits)
  have "map_of (map (\<lambda>r. (r_id r, r)) rs) i = (case bm_get (lg_reservations l) i of
      Some r \<Rightarrow> if is_active (r_state r) then Some r else None | None \<Rightarrow> None)" for i
  proof (rule option_eqI)
    fix r
    have "distinct (map fst (map (\<lambda>r. (r_id r, r)) rs))"
      using sorted strict_sorted_iff by (auto simp: comp_def)
    then have "map_of (map (\<lambda>r. (r_id r, r)) rs) i = Some r \<longleftrightarrow> rows st i = Some r \<and> is_active (r_state r)"
      by (auto simp: map_of_eq_Some_iff mem)
    also have "\<dots> \<longleftrightarrow> bm_get (lg_reservations l) i = Some r \<and> is_active (r_state r)"
      using agreesD [OF ag, of i r] by blast
    finally show "map_of (map (\<lambda>r. (r_id r, r)) rs) i = Some r \<longleftrightarrow>
        (case bm_get (lg_reservations l) i of
           Some r \<Rightarrow> if is_active (r_state r) then Some r else None | None \<Rightarrow> None) = Some r"
      by (auto split: option.splits if_splits)
  qed
  note lookup' = lookup [unfolded this]
  have "agrees l' (rows st')"
    unfolding rows
  proof (rule agreesI)
    fix i r
    show "rows st i = Some r" if "bm_get (lg_reservations l') i = Some r"
      using that agreesD(1) [OF ag, of i r] by (auto simp: lookup' split: option.splits if_splits)
    show "bm_get (lg_reservations l') i = Some r" if "rows st i = Some r" "is_active (r_state r)"
      using that agreesD(2) [OF ag, of i r] by (auto simp: lookup')
  qed
  then show ?thesis using inv' wf' held lookup' rows by (simp add: consistent_def sv')
qed

lemma consistent_step:
  assumes "service_step ops sv sv'" and c: "consistent rows store_wf (sv_ledger sv) (sv_store sv)"
  shows "consistent rows store_wf (sv_ledger sv') (sv_store sv')"
  using assms(1)
proof cases
  case (sv_reserve budgets now i intent sources ttl)
  show ?thesis
  proof (cases "read_budgets budgets (accounts_of sources)")
    case (Inr bs)
    then show ?thesis
      using consistent_reserve_owned [OF c _ _ read_budgets_bounded [OF sv_reserve(2) Inr]] sv_reserve
      by (simp add: service_reserve_def for_swap_def reservation_new_def)
  qed (use c in \<open>simp add: sv_reserve service_reserve_def\<close>)
next
  case (sv_reserve_rebate budgets now i batch sources ttl)
  show ?thesis
  proof (cases "read_budgets budgets (accounts_of sources)")
    case (Inr bs)
    then show ?thesis
      using consistent_reserve_owned [OF c _ _ read_budgets_bounded [OF sv_reserve_rebate(2) Inr]]
        sv_reserve_rebate
      by (simp add: service_reserve_rebate_def for_rebate_def reservation_new_def)
  qed (use c in \<open>simp add: sv_reserve_rebate service_reserve_rebate_def\<close>)
next
  case (sv_sweep now exclude)
  show ?thesis
    unfolding sv_sweep sweep_expired_state by (rule consistent_sweep_loop [OF c])
next
  case (sv_sync budgets registry)
  have "ledger_inv (set_budgets (sv_ledger sv) bs)" if "budgets as = Inr bs" for as bs
    using c sv_sync(2) [OF that] by (intro ledger_step_inv [OF step_set_budgets]) (auto simp: consistent_def)
  moreover have "agrees (set_budgets (sv_ledger sv) bs) rs = agrees (sv_ledger sv) rs" for bs rs
    by (rule agrees_cong) (simp add: set_budgets_def)
  ultimately show ?thesis
    using c by (simp add: sv_sync sync_budgets_def consistent_def split: sum.split)
next
  case (sv_restart budgets)
  show ?thesis using consistent_restart [OF c sv_restart(1,2)] by blast
qed (simp_all add: consistent_commands [OF c])

end

end
