(* ===== verification/Ledger_Recovery.thy ===== *)
theory Ledger_Recovery
  imports Ledger_Service
begin

text \<open>
  Properties of the ledger service running on the SQLite store: agreement of memory and durable
  record along every history, exact recovery after a crash, the exactness of the sweep and of the
  published snapshot, and the one way the two sides drift apart.
\<close>

section \<open>Histories of the deployed service\<close>

inductive service_reachable :: "sqlite ledger_service \<Rightarrow> bool" where
  service_init: "service_reachable (service_new \<lparr>sq_rows = [], sq_faults = faults\<rparr>)"
| service_next: "service_reachable sv \<Longrightarrow> service_step sqlite_ops sv sv' \<Longrightarrow> service_reachable sv'"

lemma reachable_consistent:
  "service_reachable sv \<Longrightarrow> consistent sqlite_rows sqlite_wf (sv_ledger sv) (sv_store sv)"
proof (induction rule: service_reachable.induct)
  case (service_init faults)
  show ?case
    by (simp add: consistent_def service_new_def inv_default sqlite_wf_def)
      (simp add: agrees_def ledger_default_def sqlite_rows_def)
next
  case (service_next sv sv')
  show ?case by (rule sqlite.consistent_step [OF service_next(2,3)])
qed

text \<open>A restart succeeds when the database works and the budget source answers.\<close>

lemma read_budgets_succeeds: "\<forall>a. \<exists>b. budgets a = Inr b \<Longrightarrow> \<exists>bs. read_budgets budgets as = Inr bs"
  unfolding read_budgets_def
proof (induction as)
  case (Cons a as)
  then obtain b bs where "budgets a = Inr b" "collect (map (\<lambda>a. rbind (budgets a) (\<lambda>b. Inr (a, b))) as) = Inr bs" by blast
  then show ?case by simp
qed simp

lemma recover_loop_succeeds:
  "\<forall>a. \<exists>b. budgets a = Inr b \<Longrightarrow> fst (recover_loop budgets rs l) = Inr ()"
proof (induction rs arbitrary: l)
  case (Cons r rs)
  then obtain bs where "read_budgets budgets (accounts_of (r_sources r)) = Inr bs"
    using read_budgets_succeeds [of budgets] by blast
  then show ?case using Cons by simp
qed simp

lemma recover_succeeds:
  assumes "sq_faults st = []" and wf: "sqlite_wf st" and src: "\<forall>a. \<exists>b. budgets a = Inr b"
  shows "fst (recover sqlite_ops budgets (service_new st)) = Inr ()"
proof -
  let ?open = "filter (\<lambda>(_, row). lr_state row \<in> {''pending'', ''committed''}) (sq_rows st)"
  have "bm_wf (sq_rows st)" using wf by (simp add: sqlite_wf_def)
  then have "collect (map open_row ?open) = Inr (map (\<lambda>(i, row). row_reservation i row) ?open)"
    using wf bm_get_iff [of "sq_rows st"] by (intro collect_map_Inr) (auto simp: sqlite_wf_def intro!: open_row_ok)
  then obtain rs st' where "so_open_reservations sqlite_ops st = (Inr rs, st')"
    using assms(1) by (simp add: sqlite_ops_def sqlite_open_reservations_def with_db_def)
  then show ?thesis
    using recover_loop_succeeds [OF src, of rs ledger_default]
    by (auto simp: recover_def service_new_def split: prod.split sum.split)
qed

text \<open>
  C20. Along every history of the service on SQLite in which every settlement of an active reservation
  posts fills that fit its sources and no promise over 256 bits per account is admitted, with database
  faults injected at any call and any number of crashes and restarts, every reservation in memory is
  on the durable record with the same owner, sources, expiry and state, and every open durable
  reservation is in memory; the in-memory books balance throughout. What happens after a settlement
  with other fills is \<open>refused_settlement_is_already_durable\<close>.
\<close>

theorem memory_agrees_with_store:
  assumes "service_reachable sv"
  shows "agrees (sv_ledger sv) (sqlite_rows (sv_store sv)) \<and> ledger_inv (sv_ledger sv)"
  using reachable_consistent [OF assms] by (simp add: consistent_def)

definition ex_budgets :: budget_source where
  "ex_budgets a = Inr 100"

definition ex_service :: "sqlite ledger_service" where
  "ex_service = snd (service_reserve sqlite_ops ex_budgets 50 7 9 [ex_source] 60
     (service_new \<lparr>sq_rows = [], sq_faults = []\<rparr>))"

lemma ex_service_reachable: "service_reachable ex_service"
  unfolding ex_service_def
  by (rule service_next [OF service_init sv_reserve])
    (simp_all add: bounded_source_def ex_budgets_def demand_fits_def ex_source_def u256_max_def)

lemma ex_service_eval:
  "sv_ledger ex_service =
     \<lparr>lg_budgets = [(WalletBudget 1 3, 100), (StrategyVirtual 1 2 3, 100)],
      lg_held = [(WalletBudget 1 3, \<lparr>h_pending = 40, h_consumed = 0\<rparr>),
                 (StrategyVirtual 1 2 3, \<lparr>h_pending = 40, h_consumed = 0\<rparr>)],
      lg_reservations = [(7, for_swap 7 9 [ex_source] 110)], lg_filled = []\<rparr>"
  "sq_rows (sv_store ex_service) =
     [(7, \<lparr>lr_owner_kind = ''swap'', lr_owner_id = 9, lr_sources = [ex_source],
           lr_state = ''pending'', lr_filled = None, lr_expires_at = 110\<rparr>)]"
  "sq_faults (sv_store ex_service) = []"
  by (simp_all add: ex_service_def service_reserve_def service_new_def read_budgets_def accounts_of_def
      bs_of_list_def accounts_def ex_source_def ex_budgets_def less_account_key_def reserve_owned_def
      feed_budgets_def set_budget_def ledger_default_def can_reserve_def bm_contains_def
      for_swap_def reservation_new_def aggregate_demand_def add_demand_def available_def budget_def
      sat_add_def u256_max_def sqlite_ops_def sqlite_reserve_def with_db_def i64_of_def i64_max_def
      sat_add64_def u64_max_def restore_def with_held_def held_default_def publish_def
      less_eq_account_key_def Let_def del: bm_contains_iff)

theorem memory_agrees_with_store_witness:
  "sqlite_rows (sv_store ex_service) 7 = Some (for_swap 7 9 [ex_source] 110)"
proof -
  have "agrees (sv_ledger ex_service) (sqlite_rows (sv_store ex_service))"
    using memory_agrees_with_store [OF ex_service_reachable] by blast
  from agreesD(1) [OF this, of 7 "for_swap 7 9 [ex_source] 110"] show ?thesis
    by (simp add: ex_service_eval)
qed

text \<open>
  C21. Crash recovery is exact after the same histories, those in which every settlement of an active
  reservation posts fills that fit its sources and no promise over 256 bits per account is admitted: a
  restart from the durable record alone that succeeds rebuilds precisely the active reservations with
  their state (pending or committed), the same pending hold at every account, and consistent books,
  and it succeeds whenever the database works and the budget source answers. Consumed amounts are not
  carried over a restart.
\<close>

theorem recovery_rebuilds_holds:
  assumes "service_reachable sv" and "bounded_source budgets"
  shows "(recover sqlite_ops budgets (service_new (sv_store sv)) = (Inr (), sv') \<longrightarrow>
       pending (sv_ledger sv') a = pending (sv_ledger sv) a \<and> consumed (sv_ledger sv') a = 0 \<and>
       ledger_inv (sv_ledger sv') \<and>
       lookup_reservation (sv_ledger sv') i =
         (case lookup_reservation (sv_ledger sv) i of
            Some r \<Rightarrow> if is_active (r_state r) then Some r else None | None \<Rightarrow> None)) \<and>
     (sq_faults (sv_store sv) = [] \<longrightarrow> (\<forall>a. \<exists>b. budgets a = Inr b) \<longrightarrow>
       fst (recover sqlite_ops budgets (service_new (sv_store sv))) = Inr ())"
proof -
  note c = reachable_consistent [OF assms(1)]
  show ?thesis
    using sqlite.consistent_restart [OF c assms(2), of sv'] recover_succeeds [of "sv_store sv" budgets] c
    by (auto simp: consistent_def lookup_reservation_def)
qed

theorem recovery_rebuilds_holds_witness:
  "\<exists>sv'. recover sqlite_ops ex_budgets (service_new (sv_store ex_service)) = (Inr (), sv') \<and>
     pending (sv_ledger sv') (WalletBudget 1 3) = 40"
proof -
  have "fst (recover sqlite_ops ex_budgets (service_new (sv_store ex_service))) = Inr ()"
    by (simp add: recover_def service_new_def sqlite_ops_def sqlite_open_reservations_def with_db_def
        ex_service_eval open_row_def owner_of_def open_state_of_def read_budgets_def ex_budgets_def
        accounts_of_def accounts_def bs_of_list_def ex_source_def less_account_key_def
        reservation_new_def)
  then obtain sv' where run:
    "recover sqlite_ops ex_budgets (service_new (sv_store ex_service)) = (Inr (), sv')"
    by (metis prod.collapse)
  have "bounded_source ex_budgets" by (simp add: bounded_source_def ex_budgets_def u256_max_def)
  with recovery_rebuilds_holds [OF ex_service_reachable, of ex_budgets sv' "WalletBudget 1 3"] run
  show ?thesis by (auto simp: ex_service_eval pending_def)
qed

section \<open>The sweep\<close>

lemma expired_mem:
  assumes "ledger_shape l"
  shows "i \<in> set (expired_swaps_as_of l now) \<longleftrightarrow>
    (\<exists>r. bm_get (lg_reservations l) i = Some r \<and> r_state r = StPending \<and> r_expires_at r \<le> now \<and>
         is_swap_owner (r_owner r))"
proof -
  have wf: "bm_wf (lg_reservations l)" and id: "\<And>i r. bm_get (lg_reservations l) i = Some r \<Longrightarrow> r_id r = i"
    using assms by (auto simp: ledger_shape_def)
  have "i \<in> set (expired_swaps_as_of l now) \<longleftrightarrow>
    (\<exists>e \<in> set (lg_reservations l). r_id (snd e) = i \<and> r_state (snd e) = StPending \<and>
         r_expires_at (snd e) \<le> now \<and> is_swap_owner (r_owner (snd e)))"
    by (auto simp: expired_swaps_as_of_def bm_values_def)
  also have "\<dots> \<longleftrightarrow> (\<exists>j r. bm_get (lg_reservations l) j = Some r \<and> r_id r = i \<and>
      r_state r = StPending \<and> r_expires_at r \<le> now \<and> is_swap_owner (r_owner r))"
    by (simp add: bm_get_iff [OF wf] Bex_def split_paired_Ex)
  finally show ?thesis using id by blast
qed

lemma expired_distinct:
  assumes "ledger_shape l"
  shows "distinct (expired_swaps_as_of l now)"
proof -
  let ?m = "lg_reservations l"
  have wf: "bm_wf ?m" and id: "\<And>i r. bm_get ?m i = Some r \<Longrightarrow> r_id r = i"
    using assms by (auto simp: ledger_shape_def)
  have keys: "map r_id (bm_values ?m) = map fst ?m"
    using id bm_get_iff [OF wf] by (auto simp: bm_values_def)
  have "distinct (map fst ?m)" by (rule bm.distinct_keys [OF wf])
  then have "distinct (map r_id (bm_values ?m))" unfolding keys .
  then show ?thesis unfolding expired_swaps_as_of_def by (simp add: distinct_map_filter)
qed

lemma expire_lookup:
  assumes "expire l i = (Inr (), l')"
  shows "bm_get (lg_reservations l') j =
    (if j = i then map_option (\<lambda>r. r\<lparr>r_state := StExpired\<rparr>) (bm_get (lg_reservations l) i)
     else bm_get (lg_reservations l) j)"
  using assms by (auto simp: release_Inr release_sources_reservations)

definition intent_of :: "ledger \<Rightarrow> reservation_id \<Rightarrow> intent_id option" where
  "intent_of l i = (case bm_get (lg_reservations l) i of None \<Rightarrow> None | Some r \<Rightarrow> swap_intent (r_owner r))"

lemma sweep_loop_effect:
  assumes "sweep_loop ops ids swept sv = (Inr out, sv')" and "distinct ids"
  shows "out = swept @ List.map_filter (intent_of (sv_ledger sv)) ids \<and>
    (\<forall>j. bm_get (lg_reservations (sv_ledger sv')) j =
      (if j \<in> set ids then map_option (\<lambda>r. r\<lparr>r_state := StExpired\<rparr>) (bm_get (lg_reservations (sv_ledger sv)) j)
       else bm_get (lg_reservations (sv_ledger sv)) j))"
  using assms
proof (induction ids arbitrary: swept sv)
  case Nil
  then show ?case by (simp add: map_filter_simps)
next
  case (Cons i ids)
  let ?l = "sv_ledger sv"
  obtain st l1 where exp: "expire ?l i = (Inr (), l1)"
    and rest: "sweep_loop ops ids (swept @ (case intent_of ?l i of None \<Rightarrow> [] | Some x \<Rightarrow> [x]))
        (sv\<lparr>sv_store := st, sv_ledger := l1\<rparr>) = (Inr out, sv')"
    using Cons.prems(1)
    by (auto simp: Let_def intent_of_def lookup_reservation_def split: prod.splits sum.splits)
  have i: "i \<notin> set ids" "distinct ids" using Cons.prems(2) by simp_all
  note look = expire_lookup [OF exp]
  have same: "List.map_filter (intent_of l1) ids = List.map_filter (intent_of ?l) ids"
    using i(1) by (intro map_filter_cong') (auto simp: intent_of_def look)
  show ?case
    using Cons.IH [OF rest i(2)] i(1)
    by (auto simp: same look map_filter_simps split: option.split)
qed

lemma sweep_loop_inv:
  "ledger_inv (sv_ledger sv) \<Longrightarrow> sweep_loop ops ids swept sv = (res, sv') \<Longrightarrow> ledger_inv (sv_ledger sv')"
proof (induction ids arbitrary: swept sv)
  case (Cons i ids)
  obtain r st where persist: "so_expire ops i (sv_store sv) = (r, st)" by (cases "so_expire ops i (sv_store sv)")
  obtain r' l where exp: "expire (sv_ledger sv) i = (r', l)" by (cases "expire (sv_ledger sv) i")
  have "ledger_inv l" using inv_commands(5) [OF Cons.prems(1), of i] exp by simp
  then show ?case
    using Cons.IH [of "sv\<lparr>sv_store := st, sv_ledger := l\<rparr>"] Cons.prems persist exp
    by (auto simp: Let_def split: sum.splits)
qed simp

lemma sweep_inv:
  "ledger_inv (sv_ledger sv) \<Longrightarrow> sweep_expired ops now ex sv = (res, sv') \<Longrightarrow> ledger_inv (sv_ledger sv')"
  using sweep_loop_inv sweep_expired_state(1) [of ops now ex sv] by (metis prod.collapse snd_conv)

lemma sweep_effect:
  assumes inv: "ledger_inv (sv_ledger sv)" and run: "sweep_expired ops now exclude sv = (Inr swept, sv')"
  defines "due \<equiv> filter (\<lambda>i. i \<notin> set exclude) (expired_swaps_as_of (sv_ledger sv) now)"
  shows "swept = List.map_filter (intent_of (sv_ledger sv)) due"
    and "bm_get (lg_reservations (sv_ledger sv')) j =
      (if j \<in> set due then map_option (\<lambda>r. r\<lparr>r_state := StExpired\<rparr>) (bm_get (lg_reservations (sv_ledger sv)) j)
       else bm_get (lg_reservations (sv_ledger sv)) j)"
    and "set (expired_swaps_as_of (sv_ledger sv') now) \<subseteq> set exclude"
proof -
  have shape: "ledger_shape (sv_ledger sv)" and shape': "ledger_shape (sv_ledger sv')"
    using inv sweep_inv [OF inv run] by (simp_all add: ledger_inv_def)
  obtain sv1 where loop: "sweep_loop ops due [] sv = (Inr swept, sv1)" and l: "sv_ledger sv' = sv_ledger sv1"
    using run by (auto simp: sweep_expired_def due_def Let_def split: prod.splits sum.splits)
  have "distinct due" using expired_distinct [OF shape] by (simp add: due_def)
  note eff = sweep_loop_effect [OF loop this]
  show "swept = List.map_filter (intent_of (sv_ledger sv)) due" using eff by simp
  have look: "bm_get (lg_reservations (sv_ledger sv')) j =
      (if j \<in> set due then map_option (\<lambda>r. r\<lparr>r_state := StExpired\<rparr>) (bm_get (lg_reservations (sv_ledger sv)) j)
       else bm_get (lg_reservations (sv_ledger sv)) j)" for j using eff l by simp
  then show "bm_get (lg_reservations (sv_ledger sv')) j =
      (if j \<in> set due then map_option (\<lambda>r. r\<lparr>r_state := StExpired\<rparr>) (bm_get (lg_reservations (sv_ledger sv)) j)
       else bm_get (lg_reservations (sv_ledger sv)) j)" .
  show "set (expired_swaps_as_of (sv_ledger sv') now) \<subseteq> set exclude"
  proof
    fix i
    assume "i \<in> set (expired_swaps_as_of (sv_ledger sv') now)"
    then obtain r where r: "bm_get (lg_reservations (sv_ledger sv')) i = Some r" "r_state r = StPending"
      "r_expires_at r \<le> now" "is_swap_owner (r_owner r)" unfolding expired_mem [OF shape'] by blast
    have notdue: "i \<notin> set due"
      using look [of i] r(1,2) by (cases "bm_get (lg_reservations (sv_ledger sv)) i") auto
    then have "bm_get (lg_reservations (sv_ledger sv)) i = Some r" using look [of i] r(1) by simp
    then show "i \<in> set exclude" using notdue r expired_mem [OF shape, of i now] by (auto simp: due_def)
  qed
qed

text \<open>
  C26. A sweep that succeeds expires exactly the pending swap promises past their deadline that are not
  in flight: it reports their intents in id order, leaves every other reservation (committed, rebate
  or excluded ones included) untouched, and afterwards nothing sweepable is left.
\<close>

theorem sweep_is_exact:
  assumes "service_reachable sv" and "sweep_expired sqlite_ops now exclude sv = (Inr swept, sv')"
  defines "due \<equiv> filter (\<lambda>i. i \<notin> set exclude) (expired_swaps_as_of (sv_ledger sv) now)"
  shows "swept = List.map_filter (intent_of (sv_ledger sv)) due \<and>
     (\<forall>j. lookup_reservation (sv_ledger sv') j =
        (if j \<in> set due
         then map_option (\<lambda>r. r\<lparr>r_state := StExpired\<rparr>) (lookup_reservation (sv_ledger sv) j)
         else lookup_reservation (sv_ledger sv) j)) \<and>
     set (expired_swaps_as_of (sv_ledger sv') now) \<subseteq> set exclude"
  using sweep_effect [OF _ assms(2)] reachable_consistent [OF assms(1)]
  unfolding due_def lookup_reservation_def by (simp add: consistent_def)

theorem sweep_is_exact_witness:
  "\<exists>sv'. sweep_expired sqlite_ops 110 [] ex_service = (Inr [9], sv') \<and>
         expired_swaps_as_of (sv_ledger sv') 110 = []"
proof -
  have "fst (sweep_expired sqlite_ops 110 [] ex_service) = Inr [9]"
    by (simp add: sweep_expired_def expired_swaps_as_of_def bm_values_def ex_service_eval for_swap_def
        reservation_new_def sqlite_ops_def sqlite_expire_def sqlite_transition_def with_db_def
        lookup_reservation_def expire_def pending_sources_def require_state_def Let_def)
  then obtain sv' where run: "sweep_expired sqlite_ops 110 [] ex_service = (Inr [9], sv')"
    by (metis prod.collapse)
  from sweep_is_exact [OF ex_service_reachable run] run show ?thesis by auto
qed

section \<open>The published snapshot\<close>

lemma bm_get_graph: "bm_get (map (\<lambda>a. (a, f a)) as) a = (if a \<in> set as then Some (f a) else None)"
  by (induction as) auto

lemma snapshot_exact: "snapshot_available (available_snapshot l) a = available l a"
proof (cases "a \<in> set (bm_keys (lg_budgets l) @ bm_keys (lg_held l))")
  case True
  then show ?thesis
    by (simp add: snapshot_available_def available_snapshot_def bm_get_graph)
next
  case False
  then have "bm_get (lg_budgets l) a = None" "bm_get (lg_held l) a = None"
    by (simp_all add: bm_keys_def bm_get_None_iff)
  then show ?thesis
    using False by (simp add: snapshot_available_def available_snapshot_def bm_get_graph available_def budget_def)
qed

lemma durable_first_publishes:
  "fst (durable_first persist cmd sv) = Inr () \<Longrightarrow>
   sv_available (snd (durable_first persist cmd sv)) =
   available_snapshot (sv_ledger (snd (durable_first persist cmd sv)))"
  by (auto simp: durable_first_def publish_def split: prod.splits sum.splits)

lemma reserve_owned_publishes:
  "fst (reserve_owned ops r bs sv) = Inr () \<Longrightarrow>
   sv_available (snd (reserve_owned ops r bs sv)) =
   available_snapshot (sv_ledger (snd (reserve_owned ops r bs sv)))"
  by (auto simp: reserve_owned_def publish_def Let_def split: prod.splits sum.splits)

text \<open>
  The lock-free snapshot the quote path reads is exact: after every command that succeeds, the
  published room of every account, known or not, equals the room the ledger itself would report,
  which is the budget less the pending and consumed holds.
\<close>

theorem published_snapshot_is_exact:
  "(fst (service_reserve ops budgets now i intent sources ttl sv) = Inr () \<longrightarrow>
      service_available (snd (service_reserve ops budgets now i intent sources ttl sv)) a =
      available (sv_ledger (snd (service_reserve ops budgets now i intent sources ttl sv))) a) \<and>
   (fst (service_post ops i fs sv) = Inr () \<longrightarrow>
      service_available (snd (service_post ops i fs sv)) a =
      available (sv_ledger (snd (service_post ops i fs sv))) a) \<and>
   (fst (service_commit ops i sv) = Inr () \<longrightarrow>
      service_available (snd (service_commit ops i sv)) a =
      available (sv_ledger (snd (service_commit ops i sv))) a) \<and>
   (fst (service_void ops i sv) = Inr () \<longrightarrow>
      service_available (snd (service_void ops i sv)) a =
      available (sv_ledger (snd (service_void ops i sv))) a) \<and>
   (fst (service_void_reorg ops i sv) = Inr () \<longrightarrow>
      service_available (snd (service_void_reorg ops i sv)) a =
      available (sv_ledger (snd (service_void_reorg ops i sv))) a)"
  by (auto simp: service_available_def service_reserve_def service_post_def service_commit_def
      service_void_def service_void_reorg_def durable_first_publishes reserve_owned_publishes
      snapshot_exact split: sum.splits)

theorem published_snapshot_is_exact_witness:
  "service_available ex_service (WalletBudget 1 3) = 60"
proof -
  let ?sv = "service_new \<lparr>sq_rows = [], sq_faults = []\<rparr>"
  have "fst (service_reserve sqlite_ops ex_budgets 50 7 9 [ex_source] 60 ?sv) = Inr ()"
    by (simp add: service_reserve_def service_new_def read_budgets_def accounts_of_def
      bs_of_list_def accounts_def ex_source_def ex_budgets_def less_account_key_def reserve_owned_def
      feed_budgets_def set_budget_def ledger_default_def can_reserve_def bm_contains_def
      for_swap_def reservation_new_def aggregate_demand_def add_demand_def available_def budget_def
      sat_add_def u256_max_def sqlite_ops_def sqlite_reserve_def with_db_def i64_of_def i64_max_def
      sat_add64_def u64_max_def less_eq_account_key_def Let_def del: bm_contains_iff)
  with published_snapshot_is_exact [of sqlite_ops ex_budgets 50 7 9 "[ex_source]" 60 ?sv "WalletBudget 1 3" "[]"]
  have "service_available ex_service (WalletBudget 1 3) = available (sv_ledger ex_service) (WalletBudget 1 3)"
    by (simp add: ex_service_def)
  then show ?thesis by (simp add: ex_service_eval available_def budget_def sat_add_def u256_max_def)
qed

section \<open>Where the two sides drift apart\<close>

text \<open>
  C31. Settlement persists before it validates. For every active reservation of the service and fills that
  do not fit its sources (another number of fills than sources, or one above its source), while the
  database works: the settlement is refused and memory is left as it was, but the durable row is
  already posted. After the next successful restart the reservation is gone and its hold with it,
  although nothing was settled in the books. A settlement refused because the reservation is not
  active is harmless, it matches no row.
\<close>

theorem refused_settlement_is_already_durable:
  assumes "service_reachable sv" and "sq_faults (sv_store sv) = []"
    and "lookup_reservation (sv_ledger sv) i = Some r" and "is_active (r_state r)"
    and "\<not> list_all2 (\<lambda>f s. f \<le> rs_amount s) fs (r_sources r)"
    and "service_post sqlite_ops i fs sv = (res, sv')"
  shows "(\<exists>e. res = Inl (SeLedger e)) \<and> sv_ledger sv' = sv_ledger sv \<and>
     sqlite_rows (sv_store sv') i = Some (r\<lparr>r_state := StPosted\<rparr>) \<and>
     (\<forall>budgets sv2 a. bounded_source budgets \<longrightarrow>
        recover sqlite_ops budgets (service_new (sv_store sv')) = (Inr (), sv2) \<longrightarrow>
        lookup_reservation (sv_ledger sv2) i = None \<and>
        pending (sv_ledger sv2) a + demand_on a (r_sources r) = pending (sv_ledger sv) a)"
proof -
  let ?l = "sv_ledger sv"
  have c: "consistent sqlite_rows sqlite_wf ?l (sv_store sv)" by (rule reachable_consistent [OF assms(1)])
  then have inv: "ledger_inv ?l" and wf: "sqlite_wf (sv_store sv)" and ag: "agrees ?l (sqlite_rows (sv_store sv))"
    by (simp_all add: consistent_def)
  have get: "bm_get (lg_reservations ?l) i = Some r" using assms(3) by (simp add: lookup_reservation_def)
  obtain st where persist: "so_post sqlite_ops i fs (sv_store sv) = (Inr (), st)"
    using assms(2) by (simp add: sqlite_ops_def sqlite_post_def with_db_def)
  have refused: "\<exists>e. post ?l i fs = (Inl e, ?l)"
  proof (cases "post ?l i fs" rule: result_cases)
    case (ok l')
    then obtain r' where "bm_get (lg_reservations ?l) i = Some r'"
      "list_all2 (\<lambda>f s. f \<le> rs_amount s) fs (r_sources r')" by (auto elim!: post_Inr)
    then show ?thesis using get assms(5) by simp
  next
    case (refused e)
    then show ?thesis using error_leaves_ledger(3) [of ?l i fs e] by (cases "post ?l i fs") auto
  qed
  then have res: "(\<exists>e. res = Inl (SeLedger e)) \<and> sv_ledger sv' = ?l \<and> sv_store sv' = st"
    using assms(6) persist by (auto simp: service_post_def durable_first_def)
  have rows: "sqlite_rows st = move_row {StPending, StCommitted} StPosted i (sqlite_rows (sv_store sv))"
    by (rule sqlite.transitions(2) [OF persist])
  have row: "sqlite_rows st i = Some (r\<lparr>r_state := StPosted\<rparr>)"
    using agreesD(1) [OF ag get] assms(4) by (auto simp: rows move_row_def is_active_def)
  let ?zero = "map (\<lambda>_. 0) (r_sources r)"
  have zero: "list_all2 (\<lambda>f s. f \<le> rs_amount s) ?zero (r_sources r)" by (simp add: list_all2_conv_all_nth)
  obtain l2 where l2: "post ?l i ?zero = (Inr (), l2)"
    using post_accepts [OF get assms(4) zero] by (cases "post ?l i ?zero") auto
  have "fills_ok ?l i ?zero" using get zero by (simp add: fills_ok_def)
  from agrees_post [OF ag this] have "consistent sqlite_rows sqlite_wf l2 st"
    using inv_post [OF inv l2] sqlite.wf_kept(3) [OF wf persist] l2 by (simp add: consistent_def rows)
  note restart = sqlite.consistent_restart [OF this]
  note eff = post_effect [OF inv l2 get]
  have "lookup_reservation (sv_ledger sv2) i = None \<and>
      pending (sv_ledger sv2) a + demand_on a (r_sources r) = pending ?l a"
    if "bounded_source budgets" "recover sqlite_ops budgets (service_new st) = (Inr (), sv2)" for budgets sv2 a
    using restart [OF that] eff(1) [of a] eff(4) by (auto simp: lookup_reservation_def is_active_def)
  then show ?thesis using res row by simp
qed

theorem refused_settlement_is_already_durable_witness:
  "\<exists>e sv'. service_post sqlite_ops 7 [41] ex_service = (Inl (SeLedger e), sv') \<and> sv_ledger sv' = sv_ledger ex_service \<and>
     sqlite_rows (sv_store sv') 7 = Some ((for_swap 7 9 [ex_source] 110)\<lparr>r_state := StPosted\<rparr>)"
proof -
  obtain res sv' where run: "service_post sqlite_ops 7 [41] ex_service = (res, sv')"
    by (cases "service_post sqlite_ops 7 [41] ex_service")
  have "lookup_reservation (sv_ledger ex_service) 7 = Some (for_swap 7 9 [ex_source] 110)"
    "is_active (r_state (for_swap 7 9 [ex_source] 110))"
    "\<not> list_all2 (\<lambda>f s. f \<le> rs_amount s) [41] (r_sources (for_swap 7 9 [ex_source] 110))"
    by (simp_all add: lookup_reservation_def ex_service_eval for_swap_def reservation_new_def is_active_def ex_source_def)
  from refused_settlement_is_already_durable [OF ex_service_reachable ex_service_eval(3) this run] run
  show ?thesis by blast
qed

end
