(* ===== verification/Curve_Laws.thy ===== *)
theory Curve_Laws
  imports Curves
begin

text \<open>
  What the curve ports promise. The exact-in and exact-out quotes of the constant-product curve, of
  the concentrated curve and of the stacked flat fees each form an inverse pair in the sense of the
  locale \<open>quote_inverse\<close>: the exact-out quote is the least input whose exact-in quote reaches the
  requested output. The contract composes, so the fee-wrapped curve has it too. Further: the
  product of the reserves never shrinks, the price-limited quote is the largest fill at or above
  the limit, and the bisections end on a value their predicate accepts, as close to the boundary as
  documented.
\<close>

lemmas curve_ops = cmul_def cadd_def fdiv_def ceil_div_def

lemma cmul_Inr [simp]: "cmul a b = Inr c \<longleftrightarrow> c = a * b \<and> a * b \<le> u256_max"
  by (simp add: cmul_def)

lemma cadd_Inr [simp]: "cadd a b = Inr c \<longleftrightarrow> c = a + b \<and> a + b \<le> u256_max"
  by (simp add: cadd_def)

lemma fdiv_Inr [simp]: "fdiv a b = Inr c \<longleftrightarrow> b \<noteq> 0 \<and> c = a div b"
  by (auto simp: fdiv_def)

lemma ceil_div_le:
  assumes "ceil_div a b = Inr c"
  shows "c \<le> x \<longleftrightarrow> a \<le> x * b"
proof (cases "a = 0")
  case True
  then show ?thesis using assms by (auto simp: ceil_div_def split: if_splits)
next
  case False
  then have b: "0 < b" and c: "c = (a - 1) div b + 1"
    using assms by (auto simp: ceil_div_def split: if_splits)
  have "c \<le> x \<longleftrightarrow> (a - 1) div b < x" by (simp add: c Suc_le_eq)
  also have "\<dots> \<longleftrightarrow> a - 1 < x * b" using b by (rule div_less_iff_less_mult)
  finally show ?thesis using False by linarith
qed

lemma ceil_div_pos: "ceil_div a b = Inr c \<Longrightarrow> 0 < b"
  by (auto simp: ceil_div_def split: if_splits)

section \<open>Inverse pairs of quotes\<close>

locale quote_inverse =
  fixes fwd :: "u256 \<Rightarrow> 'e + u256" and bwd :: "u256 \<Rightarrow> 'e + u256"
  assumes least_input: "bwd y = Inr x \<Longrightarrow> fwd j = Inr z \<Longrightarrow> y \<le> z \<longleftrightarrow> x \<le> j"
begin

text \<open>Paying the quoted input delivers at least the requested output.\<close>

lemma covers: "bwd y = Inr x \<Longrightarrow> fwd x = Inr z \<Longrightarrow> y \<le> z"
  using least_input by blast

text \<open>Any smaller input that can be quoted delivers less.\<close>

lemma smaller_falls_short: "bwd y = Inr x \<Longrightarrow> fwd j = Inr z \<Longrightarrow> j < x \<Longrightarrow> z < y"
  using least_input [of y x j z] by linarith

end

locale quote_stage = outer: quote_inverse f1 b1 + inner: quote_inverse f2 b2
  for f1 b1 f2 b2 :: "u256 \<Rightarrow> 'e + u256"
begin

text \<open>Two stages in sequence, inverted in the opposite order.\<close>

lemma staged: "quote_inverse (\<lambda>j. rbind (f1 j) f2) (\<lambda>y. rbind (b2 y) b1)"
  by unfold_locales
    (auto simp: res, (metis inner.least_input outer.least_input)+)

end

sublocale quote_stage \<subseteq> staged: quote_inverse "\<lambda>j. rbind (f1 j) f2" "\<lambda>y. rbind (b2 y) b1"
  by (rule staged)

subsection \<open>Constant product\<close>

lemma xyc_exact_in_Inr:
  "xyc_quote_exact_in p a = Inr out \<longleftrightarrow>
   \<not> xyc_is_empty p \<and> a * xp_balance_out p \<le> u256_max \<and> xp_balance_in p + a \<le> u256_max \<and>
   out = (a * xp_balance_out p) div (xp_balance_in p + a)"
  by (auto simp: xyc_quote_exact_in_def res xyc_is_empty_def)

lemma xyc_exact_out_Inr:
  "xyc_quote_exact_out p y = Inr x \<longleftrightarrow>
   \<not> xyc_is_empty p \<and> y < xp_balance_out p \<and> y * xp_balance_in p \<le> u256_max \<and>
   ceil_div (y * xp_balance_in p) (xp_balance_out p - y) = Inr x"
  by (auto simp: xyc_quote_exact_out_def res split: option.splits if_splits)

lemma xyc_least_input:
  assumes "xyc_quote_exact_out p y = Inr x" and "xyc_quote_exact_in p j = Inr z"
  shows "y \<le> z \<longleftrightarrow> x \<le> j"
proof -
  let ?X = "xp_balance_in p" and ?Y = "xp_balance_out p"
  have y: "y < ?Y" and x: "ceil_div (y * ?X) (?Y - y) = Inr x" and X: "0 < ?X"
    using assms(1) by (auto simp: xyc_exact_out_Inr xyc_is_empty_def)
  have z: "z = (j * ?Y) div (?X + j)" using assms(2) by (simp add: xyc_exact_in_Inr)
  have "y \<le> z \<longleftrightarrow> y * (?X + j) \<le> j * ?Y"
    using X by (simp add: z less_eq_div_iff_mult_less_eq)
  also have "\<dots> \<longleftrightarrow> y * ?X \<le> j * (?Y - y)"
    using y mult_le_mono2 [of y ?Y j] by (auto simp: algebra_simps diff_mult_distrib2 le_diff_conv2)
  also have "\<dots> \<longleftrightarrow> x \<le> j" by (simp add: ceil_div_le [OF x])
  finally show ?thesis .
qed

interpretation xyc: quote_inverse "xyc_quote_exact_in p" "xyc_quote_exact_out p" for p
  by unfold_locales (rule xyc_least_input)

interpretation concentrate:
  quote_inverse "concentrate_quote_exact_in p" "concentrate_quote_exact_out p" for p
  by unfold_locales
    (auto simp: concentrate_quote_exact_in_def concentrate_quote_exact_out_def res xyc_least_input)

subsection \<open>Flat fees\<close>

lemma fee_in_Inr:
  "apply_flat_fee_in a b = Inr z \<longleftrightarrow>
   a * b \<le> u256_max \<and> (\<exists>cut. ceil_div (a * b) bps_denominator = Inr cut \<and> cut \<le> a \<and> z = a - cut)"
  by (auto simp: apply_flat_fee_in_def res)

lemma fee_out_Inr:
  "apply_flat_fee_out a b = Inr x \<longleftrightarrow>
   b < bps_denominator \<and> a * b \<le> u256_max \<and>
   (\<exists>cut. ceil_div (a * b) (bps_denominator - b) = Inr cut \<and> a + cut \<le> u256_max \<and> x = a + cut)"
  by (auto simp: apply_flat_fee_out_def res split: option.splits if_splits)

lemma fee_least_input:
  assumes "apply_flat_fee_out y b = Inr x" and "apply_flat_fee_in j b = Inr z"
  shows "y \<le> z \<longleftrightarrow> x \<le> j"
proof -
  let ?B = bps_denominator
  obtain c where b: "b < ?B" and c: "ceil_div (y * b) (?B - b) = Inr c" and x: "x = y + c"
    using assms(1) by (auto simp: fee_out_Inr)
  obtain d where d: "ceil_div (j * b) ?B = Inr d" and dj: "d \<le> j" and z: "z = j - d"
    using assms(2) by (auto simp: fee_in_Inr)
  show ?thesis
  proof (cases "y \<le> j")
    case False
    then show ?thesis using z x dj by auto
  next
    case True
    then obtain k where j: "j = y + k" using le_Suc_ex by blast
    obtain e where B: "?B = b + e" using le_Suc_ex [OF less_imp_le [OF b]] by auto
    have "y \<le> z \<longleftrightarrow> d \<le> k" using dj by (auto simp: z j)
    also have "\<dots> \<longleftrightarrow> (y + k) * b \<le> k * (b + e)" using ceil_div_le [OF d, of k] by (simp only: j B)
    also have "\<dots> \<longleftrightarrow> y * b \<le> k * e" by (simp add: algebra_simps)
    also have "\<dots> \<longleftrightarrow> c \<le> k" unfolding ceil_div_le [OF c, of k] B by simp
    finally show ?thesis by (simp add: x j)
  qed
qed

interpretation flat_fee: quote_inverse "\<lambda>a. apply_flat_fee_in a b" "\<lambda>a. apply_flat_fee_out a b" for b
  by unfold_locales (rule fee_least_input)

lemma try_fold_append:
  "try_fold f s (xs @ ys) = rbind (try_fold f s xs) (\<lambda>s'. try_fold f s' ys)"
proof (induction xs arbitrary: s)
  case (Cons x xs)
  then show ?case by (cases "f s x") simp_all
qed simp

lemma stacked_fees_inverse:
  "quote_inverse (\<lambda>a. shrink_by_fees a fees) (\<lambda>a. gross_up_by_fees a fees)"
proof (induction fees)
  case Nil
  show ?case by unfold_locales (simp add: shrink_by_fees_def gross_up_by_fees_def)
next
  case (Cons b fees)
  have "quote_stage (\<lambda>a. apply_flat_fee_in a b) (\<lambda>a. apply_flat_fee_out a b)
      (\<lambda>a. shrink_by_fees a fees) (\<lambda>a. gross_up_by_fees a fees)"
    by (rule quote_stage.intro [OF flat_fee.quote_inverse_axioms Cons.IH])
  from quote_stage.staged [OF this] show ?case
    by (simp add: shrink_by_fees_def gross_up_by_fees_def try_fold_append)
qed

interpretation stacked_fees:
  quote_inverse "\<lambda>a. shrink_by_fees a fees" "\<lambda>a. gross_up_by_fees a fees" for fees
  by (rule stacked_fees_inverse)

text \<open>A curve behind its strategy's fees: shrink then quote, quote then gross up.\<close>

interpretation xyc_behind_fees: quote_stage
  "\<lambda>a. shrink_by_fees a fees" "\<lambda>a. gross_up_by_fees a fees"
  "xyc_quote_exact_in p" "xyc_quote_exact_out p" for fees p
  by (rule quote_stage.intro [OF stacked_fees_inverse xyc.quote_inverse_axioms])

interpretation concentrate_behind_fees: quote_stage
  "\<lambda>a. shrink_by_fees a fees" "\<lambda>a. gross_up_by_fees a fees"
  "concentrate_quote_exact_in p" "concentrate_quote_exact_out p" for fees p
  by (rule quote_stage.intro [OF stacked_fees_inverse concentrate.quote_inverse_axioms])

section \<open>Properties of the constant-product curve\<close>

definition pool_ok :: "xyc_pool \<Rightarrow> bool" where
  "pool_ok p \<longleftrightarrow> xp_balance_in p \<le> u256_max \<and> xp_balance_out p \<le> u256_max"

definition ex_pool :: xyc_pool where
  "ex_pool = xyc_from_reserves 1000 2000"

lemmas ex_pool_simps = ex_pool_def xyc_from_reserves_def xyc_is_empty_def u256_max_def

text \<open>
  The exact-in quote never lets the reserve product shrink, never drains the output reserve, and
  is the best such quote: one unit more would shrink the product. All rounding favours the maker.
\<close>

theorem xyc_product_never_shrinks:
  assumes "xyc_quote_exact_in p a = Inr out"
  shows "out < xp_balance_out p \<and>
     xp_balance_in p * xp_balance_out p \<le> (xp_balance_in p + a) * (xp_balance_out p - out) \<and>
     (xp_balance_in p + a) * (xp_balance_out p - (out + 1)) < xp_balance_in p * xp_balance_out p"
proof -
  define X Y where "X = xp_balance_in p" and "Y = xp_balance_out p"
  have X: "0 < X" and Y: "0 < Y" and out: "out = a * Y div (X + a)"
    using assms by (auto simp: xyc_exact_in_Inr xyc_is_empty_def X_def Y_def)
  have lo: "out * (X + a) \<le> a * Y" by (simp add: out)
  have hi: "a * Y < (out + 1) * (X + a)"
    using X dividend_less_div_times [of "X + a" "a * Y"] by (simp add: out)
  have "a * Y < Y * (X + a)" using X Y by (simp add: algebra_simps)
  with lo have "out * (X + a) < Y * (X + a)" by (rule le_less_trans)
  then have lt: "out < Y" by simp
  then obtain r where r: "Y = out + 1 + r" using less_iff_Suc_add [of out Y] by auto
  have "X * Y \<le> (X + a) * (Y - out)" using lo unfolding r by (simp add: algebra_simps)
  moreover have "(X + a) * (Y - (out + 1)) < X * Y" using hi unfolding r by (simp add: algebra_simps)
  ultimately show ?thesis using lt by (simp add: X_def Y_def)
qed

theorem xyc_product_never_shrinks_witness:
  "xyc_quote_exact_in ex_pool 100 = Inr 181 \<and>
   1000 * 2000 \<le> (1000 + 100) * (2000 - 181 :: nat)"
proof -
  have run: "xyc_quote_exact_in ex_pool 100 = Inr 181"
    by (simp add: xyc_exact_in_Inr ex_pool_simps)
  from xyc_product_never_shrinks [OF run] run show ?thesis
    by (simp add: ex_pool_def xyc_from_reserves_def)
qed

text \<open>The consumed input of a price-limited quote, characterised among all inputs up to the offered one.\<close>

lemma xyc_limited_char:
  assumes "xp_balance_in p \<le> u256_max" and "0 \<le> limit" and "xyc_quote_with_limit p a limit = Inr lq"
  defines "X \<equiv> xp_balance_in p" and "k \<equiv> xp_balance_in p * xp_balance_out p"
    and "x \<equiv> lq_amount_in lq"
  shows "x \<le> a \<and> xyc_quote_exact_in p x = Inr (lq_amount_out lq) \<and> (lq_limited lq \<longleftrightarrow> x < a) \<and>
     (\<forall>y \<le> a. y \<le> x \<longleftrightarrow> y = 0 \<or> limit * of_nat ((X + y) * (X + y)) \<le> of_nat k)"
proof -
  have ne: "\<not> xyc_is_empty p"
    using assms(3) by (auto simp: xyc_quote_with_limit_def split: if_splits)
  define Y where "Y = xp_balance_out p"
  have X: "0 < X" and Y: "0 < Y" and k: "k = X * Y"
    using ne by (auto simp: xyc_is_empty_def X_def Y_def k_def)
  consider (free) "limit = 0" | (tight) "0 < limit" "of_nat Y / of_nat X \<le> limit"
    | (bounded) "0 < limit" "limit < of_nat Y / of_nat X" using assms(2) by force
  then show ?thesis
  proof cases
    case free
    then show ?thesis
      using assms(3) ne by (auto simp: xyc_quote_with_limit_def ratio_defs res x_def)
  next
    case tight
    then have lq: "lq = limited_none (a \<noteq> 0)"
      using assms(3) ne X
      by (auto simp: xyc_quote_with_limit_def ratio_defs xyc_marginal_price_def X_def Y_def
          ratio_new_def)
    have over: "\<not> limit * of_nat ((X + y) * (X + y)) \<le> of_nat k" if "y \<noteq> 0" for y
    proof -
      have "of_nat k \<le> limit * of_nat (X * X)"
        using tight(2) X by (simp add: k pos_divide_le_eq mult.commute mult.left_commute mult_mono)
      also have "X * X < (X + y) * (X + y)" using that X by (intro mult_strict_mono) auto
      then have "limit * of_nat (X * X) < limit * of_nat ((X + y) * (X + y))"
        using tight(1) by (intro mult_strict_left_mono) (simp_all only: of_nat_less_iff)
      finally show ?thesis by simp
    qed
    have x: "x = 0" by (simp add: x_def lq limited_none_def)
    have "y \<le> x \<longleftrightarrow> y = 0 \<or> limit * of_nat ((X + y) * (X + y)) \<le> of_nat k" for y
      using over [of y] unfolding x by blast
    moreover have "xyc_quote_exact_in p x = Inr (lq_amount_out lq)" "lq_limited lq \<longleftrightarrow> x < a"
      using assms(1) ne by (simp_all add: x lq limited_none_def xyc_exact_in_Inr)
    ultimately show ?thesis by (simp add: x)
  next
    case bounded
    let ?K = "of_nat k * (1 / limit)"
    obtain s where s: "\<And>x :: nat. x \<le> s \<longleftrightarrow> of_nat (x * x) \<le> ?K"
      and root: "floor_sqrt ?K = (if s \<le> u256_max then Some s else None)"
      using floor_sqrt_iff [of ?K] bounded by auto
    have bd: "x' \<le> s \<longleftrightarrow> limit * of_nat (x' * x') \<le> of_nat k" for x' :: nat
      using bounded(1) s [of x'] by (simp add: pos_le_divide_eq mult.commute)
    define amt where "amt = (if s \<le> u256_max then min a (s - X) else a)"
    have spot: "\<not> of_nat Y / of_nat X \<le> limit" using bounded(2) by simp
    have "xyc_marginal_price p = Inr (of_nat Y / of_nat X)"
      using ne X by (simp add: xyc_marginal_price_def X_def Y_def ratio_new_def)
    then have "xyc_quote_with_limit p a limit = rbind (xyc_quote_exact_in p amt) (\<lambda>out.
        Inr \<lparr>lq_amount_in = amt, lq_amount_out = out, lq_limited = amt < a\<rparr>)"
      using ne bounded(1) spot root
      by (simp add: xyc_quote_with_limit_def ratio_defs ratio_invert_def amt_def k_def X_def
          Let_def)
    then have "rbind (xyc_quote_exact_in p amt) (\<lambda>out.
        Inr \<lparr>lq_amount_in = amt, lq_amount_out = out, lq_limited = amt < a\<rparr>) = Inr lq"
      using assms(3) by simp
    then have xa: "x = amt" and quote: "xyc_quote_exact_in p x = Inr (lq_amount_out lq)"
      and lim: "lq_limited lq \<longleftrightarrow> x < a"
      by (auto simp: res x_def)
    note x = xa [unfolded amt_def]
    have "X + x \<le> u256_max" using quote by (simp add: xyc_exact_in_Inr X_def)
    then have "y \<le> x \<longleftrightarrow> y = 0 \<or> X + y \<le> s" if "y \<le> a" for y using x that by (auto split: if_splits)
    moreover have "x \<le> a" using x by (simp split: if_splits)
    ultimately show ?thesis using quote lim unfolding bd by blast
  qed
qed

text \<open>
  C25. The price-limited quote is the largest admissible fill: the consumed input is quoted exactly,
  its marginal price (the product over the squared input reserve) has not fallen below the limit,
  it is flagged limited precisely when input is left over, and then one more unit of input would
  push the marginal price below the limit.
\<close>

theorem xyc_limited_quote_is_maximal:
  assumes "pool_ok p" and "0 \<le> limit" and "xyc_quote_with_limit p a limit = Inr lq"
  defines "X \<equiv> xp_balance_in p" and "k \<equiv> xp_balance_in p * xp_balance_out p"
    and "x \<equiv> lq_amount_in lq"
  shows "x \<le> a \<and> xyc_quote_exact_in p x = Inr (lq_amount_out lq) \<and>
     (x = 0 \<or> limit * of_nat ((X + x) * (X + x)) \<le> of_nat k) \<and>
     (lq_limited lq \<longleftrightarrow> x < a) \<and>
     (x < a \<longrightarrow> of_nat k < limit * of_nat ((X + x + 1) * (X + x + 1)))"
proof -
  have X: "xp_balance_in p \<le> u256_max" using assms(1) by (simp add: pool_ok_def)
  note char = xyc_limited_char [OF X assms(2,3), folded X_def k_def x_def]
  then have below: "y \<le> x \<longleftrightarrow> y = 0 \<or> limit * of_nat ((X + y) * (X + y)) \<le> of_nat k" if "y \<le> a" for y
    using that by blast
  have "x < a \<longrightarrow> of_nat k < limit * of_nat ((X + x + 1) * (X + x + 1))"
    using below [of "x + 1"] by (simp add: not_le [symmetric] add.assoc)
  then show ?thesis using char below [of x] by blast
qed

theorem xyc_limited_quote_is_maximal_witness:
  "xyc_quote_with_limit ex_pool 500 (3 / 2) =
     Inr \<lparr>lq_amount_in = 154, lq_amount_out = 266, lq_limited = True\<rparr> \<and>
   of_nat 2000000 < (3 / 2 :: rat) * of_nat (1155 * 1155)"
proof -
  have root: "floor_sqrt (4000000 / 3) = Some 1154"
  proof -
    obtain s where s: "\<And>x :: nat. x \<le> s \<longleftrightarrow> of_nat (x * x) \<le> (4000000 / 3 :: rat)"
      and root: "floor_sqrt (4000000 / 3) = (if s \<le> u256_max then Some s else None)"
      using floor_sqrt_iff [of "4000000 / 3"] by auto
    have "1154 \<le> s" "\<not> 1155 \<le> s" by (simp_all add: s)
    then have "s = 1154" by simp
    then show ?thesis using root by (simp add: u256_max_def)
  qed
  have run: "xyc_quote_with_limit ex_pool 500 (3 / 2) =
     Inr \<lparr>lq_amount_in = 154, lq_amount_out = 266, lq_limited = True\<rparr>"
    by (simp add: xyc_quote_with_limit_def ex_pool_simps xyc_marginal_price_def ratio_new_def
        ratio_defs ratio_invert_def root xyc_quote_exact_in_def cmul_def cadd_def checked_mul_def
        checked_add_def fdiv_def Let_def)
  have ok: "pool_ok ex_pool" by (simp add: pool_ok_def ex_pool_simps)
  from xyc_limited_quote_is_maximal [OF ok _ run] run show ?thesis
    by (simp add: ex_pool_def xyc_from_reserves_def)
qed

section \<open>Bisections\<close>

lemma bisect_spec:
  assumes "lo \<le> hi"
  shows "lo \<le> bisect P lo hi \<and> bisect P lo hi \<le> hi \<and> (bisect P lo hi = lo \<or> P (bisect P lo hi)) \<and>
    (\<exists>h \<le> hi. bisect P lo hi \<le> h \<and> converged (bisect P lo hi) h \<and> (h = hi \<or> \<not> P h))"
  using assms
proof (induction P lo hi rule: bisect.induct)
  case (1 P lo hi)
  define mid where "mid = lo + (hi - lo) div 2"
  show ?case
  proof (cases "converged lo hi")
    case True
    then show ?thesis using 1(3) by (auto simp: bisect.simps [of P lo hi])
  next
    case False
    note mid = not_converged_mid [OF False, folded mid_def]
    show ?thesis
    proof (cases "P mid")
      case True
      then show ?thesis
        using 1(1) [OF False mid_def True] mid False
        by (auto simp: bisect.simps [of P lo hi] Let_def simp flip: mid_def)
    next
      case notP: False
      have step: "bisect P lo hi = bisect P lo mid"
        using False notP by (simp add: bisect.simps [of P lo hi] Let_def flip: mid_def)
      from 1(2) [OF False mid_def notP] mid obtain h where
        "h \<le> mid" "bisect P lo mid \<le> h" "converged (bisect P lo mid) h" "h = mid \<or> \<not> P h"
        by auto
      then show ?thesis
        using 1(2) [OF False mid_def notP] mid notP unfolding step
        by (auto intro: exI [of _ h])
    qed
  qed
qed

text \<open>
  \<open>feasible_bound\<close> always returns, with an input at most the requested one that prices (or zero);
  when feasibility is monotone the result is within one part in a trillion (or one unit) of every
  feasible input up to the request, so it under-fills by at most the documented precision and never
  over-promises.
\<close>

theorem feasible_bound_sound:
  fixes hi :: u256
  assumes mono: "\<And>x y. x \<le> y \<Longrightarrow> prices y \<Longrightarrow> prices x"
  defines "r \<equiv> feasible_bound hi prices"
  shows "r \<le> hi \<and> (r = 0 \<or> prices r) \<and>
     (\<forall>x \<le> hi. prices x \<longrightarrow> x \<le> r + max 1 (hi div BISECTION_PRECISION))"
proof (cases "prices hi")
  case True
  then show ?thesis by (auto simp: r_def feasible_bound_def)
next
  case False
  then have r: "r = bisect prices 0 hi" by (simp add: r_def feasible_bound_def)
  obtain h where h: "h \<le> hi" "r \<le> h" "converged r h" "h = hi \<or> \<not> prices h"
    using bisect_spec [of 0 hi prices] by (auto simp: r)
  have "x \<le> r + max 1 (hi div BISECTION_PRECISION)" if "prices x" for x
  proof -
    have "\<not> prices h" using h(4) False by auto
    then have "x < h" using that mono [of h x] by force
    moreover have "h - r \<le> max 1 (hi div BISECTION_PRECISION)"
      using h(1,3) div_le_mono [OF h(1), of BISECTION_PRECISION]
      by (auto simp: converged_def Let_def max_def)
    ultimately show ?thesis by linarith
  qed
  then show ?thesis using bisect_spec [of 0 hi prices] by (auto simp: r)
qed

theorem feasible_bound_sound_witness:
  "feasible_bound 100 (\<lambda>x. x < 38) \<le> 100 \<and>
   37 \<le> feasible_bound 100 (\<lambda>x. x < 38) + max 1 (100 div BISECTION_PRECISION)"
  using feasible_bound_sound [of "\<lambda>x. x < 38" 100] by auto

lemma feasible_bound_cases:
  "feasible_bound hi P \<le> hi \<and> (feasible_bound hi P = 0 \<or> P (feasible_bound hi P))"
  using bisect_spec [of 0 hi P] by (auto simp: feasible_bound_def)

lemma marginal_total: "0 < step \<Longrightarrow> \<exists>m \<ge> 0. marginal q step a = Inr m"
  by (auto simp: marginal_def ratio_zero_def ratio_new_def split: sum.split)

lemma marginal_positive: "marginal q step a = Inr m \<Longrightarrow> 0 < m \<Longrightarrow> is_ok (q a)"
  by (auto simp: marginal_def ratio_zero_def split: sum.splits)

lemma fill_loop_spec:
  assumes "\<And>a. clears a = Inr (P a)" and "lo \<le> hi"
  shows "\<exists>r. fill_loop clears lo hi = Inr r \<and> lo \<le> r \<and> r \<le> hi \<and> (r = lo \<or> P r)"
  using assms
proof (induction clears lo hi rule: fill_loop.induct)
  case (1 c lo hi)
  define mid where "mid = lo + (hi - lo) div 2"
  show ?case
  proof (cases "converged lo hi")
    case True
    then show ?thesis using 1(4) by (simp add: fill_loop.simps [of c lo hi])
  next
    case False
    note mid = not_converged_mid [OF False, folded mid_def]
    have step: "fill_loop c lo hi = (if P mid then fill_loop c mid hi else fill_loop c lo mid)"
      using False by (simp add: fill_loop.simps [of c lo hi] Let_def 1(3) flip: mid_def)
    show ?thesis
    proof (cases "P mid")
      case True
      obtain r where "fill_loop c mid hi = Inr r" "mid \<le> r" "r \<le> hi" "r = mid \<or> P r"
        using 1(1) [OF False mid_def _ _ 1(3)] 1(3) [of mid] True mid by auto
      then show ?thesis using True mid by (auto simp: step)
    next
      case notP: False
      obtain r where "fill_loop c lo mid = Inr r" "lo \<le> r" "r \<le> mid" "r = lo \<or> P r"
        using 1(2) [OF False mid_def _ _ 1(3)] 1(3) [of mid] notP mid by auto
      then show ?thesis using notP mid by (auto simp: step)
    qed
  qed
qed

text \<open>
  C30. The numerical price-limited fill, used for curves without a closed-form inverse, is total: for any
  pool and any limit it returns a fill of at most the request, whose output is the pool's own quote
  for that input (or nothing at all), whose marginal price still clears the limit, and which is
  reported unlimited only when the whole request was consumed.
\<close>

theorem numerical_fill_total:
  assumes "0 \<le> limit"
  shows "\<exists>lq. fill_to_limit_numerical q amount_in limit = Inr lq \<and> lq_amount_in lq \<le> amount_in \<and>
     (lq = limited_none (lq_limited lq) \<or> q (lq_amount_in lq) = Inr (lq_amount_out lq)) \<and>
     (lq_amount_in lq \<noteq> 0 \<longrightarrow> (\<exists>step m. marginal q step (lq_amount_in lq) = Inr m \<and> limit \<le> m)) \<and>
     (\<not> lq_limited lq \<longrightarrow> lq_amount_in lq = amount_in)"
proof -
  define bound where "bound = feasible_bound amount_in (\<lambda>input. is_ok (q input))"
  define step where "step = max (bound div 1000000) 1"
  have le: "bound \<le> amount_in" and ok: "bound = 0 \<or> is_ok (q bound)"
    using feasible_bound_cases [of amount_in "\<lambda>i. is_ok (q i)"] by (auto simp: bound_def)
  define mg where "mg a = (case marginal q step a of Inr m \<Rightarrow> m | Inl _ \<Rightarrow> 0)" for a
  have "0 < step" by (simp add: step_def)
  then have mg: "marginal q step a = Inr (mg a)" and mg0: "0 \<le> mg a" for a
    using marginal_total [of step q a] by (auto simp: mg_def)
  define clears where "clears a = (if is_ok (q a) then rbind (marginal q step a) (\<lambda>m. Inr (limit \<le> m))
      else Inr False)" for a :: u256
  have clears: "clears a = Inr (is_ok (q a) \<and> limit \<le> mg a)" for a
    by (simp add: clears_def mg)
  have run: "fill_to_limit_numerical q amount_in limit =
     (if amount_in = 0 then Inr (limited_none False)
      else if bound = 0 then Inr (limited_none True)
      else if limit \<le> mg bound then
        rbind (q bound) (\<lambda>out.
          Inr \<lparr>lq_amount_in = bound, lq_amount_out = out, lq_limited = bound < amount_in\<rparr>)
      else if mg 0 < limit then Inr (limited_none True)
      else rbind (fill_loop clears 0 bound) (\<lambda>lo. rbind (q lo) (\<lambda>out.
          Inr \<lparr>lq_amount_in = lo, lq_amount_out = out, lq_limited = lo < amount_in\<rparr>)))"
    unfolding fill_to_limit_numerical_def Let_def bound_def [symmetric] step_def [symmetric]
      clears_def [abs_def, symmetric]
    by (simp add: mg)
  consider (none) "amount_in = 0 \<or> bound = 0 \<or> \<not> limit \<le> mg bound \<and> mg 0 < limit"
    | (all) "amount_in \<noteq> 0" "bound \<noteq> 0" "limit \<le> mg bound"
    | (loop) "amount_in \<noteq> 0" "bound \<noteq> 0" "\<not> limit \<le> mg bound" "limit \<le> mg 0" by linarith
  then show ?thesis
  proof cases
    case none
    then show ?thesis by (auto simp: run limited_none_def)
  next
    case all
    then obtain out where "q bound = Inr out" using ok by (auto simp: is_ok_iff)
    then show ?thesis using all le mg by (auto simp: run)
  next
    case loop
    obtain r where r: "fill_loop clears 0 bound = Inr r" "r \<le> bound"
      "r = 0 \<or> is_ok (q r) \<and> limit \<le> mg r"
      using fill_loop_spec [of clears "\<lambda>a. is_ok (q a) \<and> limit \<le> mg a" 0 bound, OF clears] by auto
    have "0 < mg 0" using loop(3,4) mg0 [of bound] by linarith
    then have "is_ok (q 0)" using marginal_positive [OF mg] by blast
    then obtain out where "q r = Inr out" using r(3) by (auto simp: is_ok_iff)
    then show ?thesis using loop r le mg by (auto simp: run)
  qed
qed

theorem numerical_fill_total_witness:
  "\<exists>lq. fill_to_limit_numerical (xyc_quote_exact_in ex_pool) 500 (3 / 2) = Inr lq \<and>
        lq_amount_in lq \<le> 500"
  using numerical_fill_total [of "3 / 2" "xyc_quote_exact_in ex_pool" 500] by auto

section \<open>The pegged curve\<close>

text \<open>
  A pegged quote never promises more than the maker's real output reserve, whatever the
  parameters, and never quotes for a pool whose normalisation reverts.
\<close>

theorem pegged_output_within_reserve:
  assumes "pegged_quote_exact_in
      (pegged_from_reserves_and_params token_in token_out balance_in balance_out params) a = Inr out"
  shows "out \<le> balance_out"
proof -
  let ?p = "pegged_from_reserves_and_params token_in token_out balance_in balance_out params"
  obtain n y1 where n: "pp_normalized ?p = Inr n" and rate: "pp_rate_out ?p \<noteq> 0"
    and out: "out = (nz_y0 n - y1) div pp_rate_out ?p"
    using assms by (auto simp: pegged_quote_exact_in_def res)
  have y0: "nz_y0 n = balance_out * pp_rate_out ?p"
    using n by (auto simp: pegged_from_reserves_and_params_def pegged_normalize_def res Let_def
        split: if_splits)
  have "out \<le> nz_y0 n div pp_rate_out ?p" by (simp add: out div_le_mono)
  also have "\<dots> = balance_out" using rate by (simp add: y0)
  finally show ?thesis .
qed

definition ex_pegged :: pegged_params where
  "ex_pegged = \<lparr>pg_x0 = 10, pg_y0 = 10, pg_linear_width = 0, pg_rate_lt = 1, pg_rate_gt = 1\<rparr>"

theorem pegged_output_within_reserve_witness:
  "pegged_quote_exact_in (pegged_from_reserves_and_params 1 2 10 10 ex_pegged) 30 = Inr 10 \<and>
   (10 :: nat) \<le> 10"
proof -
  have root: "isqrt 1000000000000000000000000000000000000000000000000000000 = 1000000000000000000000000000"
    "isqrt 4000000000000000000000000000000000000000000000000000000 = 2000000000000000000000000000"
    by (rule isqrt_eqI; simp)+
  have run: "pegged_quote_exact_in (pegged_from_reserves_and_params 1 2 10 10 ex_pegged) 30 = Inr 10"
    by (simp add: pegged_quote_exact_in_def pegged_from_reserves_and_params_def pegged_normalize_def
        pegged_invariant_from_reserves_def pegged_invariant_def pegged_solve_def ex_pegged_def
        cmul_def cadd_def checked_mul_def checked_add_def fdiv_def ceil_div_def one27_def
        sqrt_floor_def root u256_max_def)
  from pegged_output_within_reserve [OF run] run show ?thesis by simp
qed

text \<open>
  The price of an output on a pegged curve can round down to nothing: where the normalised reserve is
  coarser than the output asked for, the solved reserve does not move and neither does the input.
\<close>

definition ex_coarse :: pegged_params where
  "ex_coarse = \<lparr>pg_x0 = 10, pg_y0 = 10000000000000000000000000000, pg_linear_width = 0, pg_rate_lt = 1, pg_rate_gt = 1\<rparr>"

theorem pegged_output_can_be_free:
  "is_pegged_in_domain ex_coarse \<and>
   pegged_quote_exact_out (pegged_from_reserves_and_params 1 2 10 10000000000000000000000000005 ex_coarse) 5 = Inr 0"
proof -
  have root: "isqrt 1000000000000000000000000000000000000000000000000000000 = 1000000000000000000000000000"
    by (rule isqrt_eqI; simp)
  show ?thesis
    by (simp add: pegged_quote_exact_out_def pegged_from_reserves_and_params_def pegged_normalize_def
        pegged_invariant_from_reserves_def pegged_invariant_def pegged_solve_def ex_coarse_def
        cmul_def cadd_def checked_mul_def checked_add_def checked_sub_def fdiv_def ceil_div_def one27_def
        sqrt_floor_def root u256_max_def is_pegged_in_domain_def max_linear_width_def)
qed

end
