(* ===== verification/Registry_Laws.thy ===== *)
theory Registry_Laws
  imports Registry_Snapshot Curve_Laws
begin

text \<open>
  Correctness of the registry fold: the pair index is kept consistent by every event, so the
  candidate funnel of a pair equals the scan over all strategies; tombstones are permanent; and the
  two directions of a strategy's price are inverse to each other for the closed-form curves, fees
  included.
\<close>

section \<open>The pair index\<close>

definition bucket :: "(token_pair, strategy_key bset) bmap \<Rightarrow> token_pair \<Rightarrow> strategy_key list" where
  "bucket m pair = unwrap_or [] (bm_get m pair)"

definition quoting :: "snapshot \<Rightarrow> token_pair \<Rightarrow> strategy_key set" where
  "quoting s pair =
     {key. \<exists>st. bm_get (sn_strategies s) key = Some st \<and> ms_active st \<and> ms_pair st = Some pair}"

definition index_shape :: "(token_pair, strategy_key bset) bmap \<Rightarrow> bool" where
  "index_shape m \<longleftrightarrow> bm_wf m \<and> (\<forall>pair. sorted_wrt (<) (bucket m pair) \<and> bm_get m pair \<noteq> Some [])"

definition snapshot_inv :: "snapshot \<Rightarrow> bool" where
  "snapshot_inv s \<longleftrightarrow>
     bm_wf (sn_strategies s) \<and>
     (\<forall>key st. bm_get (sn_strategies s) key = Some st \<longrightarrow> ms_key st = key \<and> bm_wf (ms_balances st)) \<and>
     index_shape (sn_by_pair s) \<and>
     (\<forall>pair. set (bucket (sn_by_pair s) pair) = quoting s pair)"

lemma leave_bucket_set:
  "set (bucket (leave_bucket m key old) pair) =
     set (bucket m pair) - (if old = Some pair then {key} else {})"
  by (auto simp: leave_bucket_def bucket_def Let_def bs_remove_def filter_empty_conv
      split: option.splits if_splits)

lemma enter_bucket_set:
  "set (bucket (enter_bucket m key new) pair) =
     (if new = Some pair then {key} else {}) \<union> set (bucket m pair)"
  by (auto simp: enter_bucket_def bucket_def split: option.splits)

lemma reindex_bucket:
  "set (bucket (reindex m key old new) pair) =
     (if old = new then set (bucket m pair)
      else (if new = Some pair then {key} else {}) \<union>
           (set (bucket m pair) - (if old = Some pair then {key} else {})))"
  by (simp add: reindex_def leave_bucket_set enter_bucket_set)

lemma bucket_sorted: "index_shape m \<Longrightarrow> bm_get m pair = Some keys \<Longrightarrow> sorted_wrt (<) keys"
  by (metis bucket_def index_shape_def unwrap_or_simps(1))

lemma leave_bucket_shape: "index_shape m \<Longrightarrow> index_shape (leave_bucket m key old)"
  using bucket_sorted [of m]
  by (auto simp: leave_bucket_def index_shape_def bucket_def Let_def split: option.split)

lemma enter_bucket_shape: "index_shape m \<Longrightarrow> index_shape (enter_bucket m key new)"
proof -
  have "bs_insert key xs \<noteq> []" for xs by (cases xs) auto
  then show "index_shape m \<Longrightarrow> index_shape (enter_bucket m key new)"
    by (auto simp: enter_bucket_def index_shape_def bucket_def split: option.split)
qed

lemma reindex_shape: "index_shape m \<Longrightarrow> index_shape (reindex m key old new)"
  by (simp add: reindex_def leave_bucket_shape enter_bucket_shape)

lemma pair_same_keys:
  "bm_keys (ms_balances a) = bm_keys (ms_balances b) \<Longrightarrow> ms_pair a = ms_pair b"
  by (simp add: ms_pair_def)

lemma insert_present_keys:
  "bm_wf m \<Longrightarrow> bm_get m k = Some u \<Longrightarrow> bm_keys (bm_insert k v m) = bm_keys m"
proof (induction m)
  case (Cons e m)
  obtain k' v' where e: "e = (k', v')" by (cases e)
  have wf: "\<forall>x \<in> fst ` set m. k' < x" "bm_wf m" using Cons.prems(1) by (simp_all add: e bm_wf_Cons)
  show ?case
  proof (cases "k = k'")
    case False
    then have get: "bm_get m k = Some u" using Cons.prems(2) by (simp add: e)
    then have "k' < k" using wf(1) by (force dest: bm_get_set)
    then have "\<not> k < k'" "k \<noteq> k'" by simp_all
    then show ?thesis using Cons.IH [OF wf(2) get] by (simp add: e bm_keys_def)
  qed (simp add: e bm_keys_def)
qed simp

text \<open>The general step: one strategy is replaced and the index is told its old and new pair.\<close>

lemma inv_replace:
  assumes inv: "snapshot_inv s" and st': "ms_key st' = key" "bm_wf (ms_balances st')"
    and old: "\<And>pair. key \<in> quoting s pair \<Longrightarrow> old = Some pair"
    and kept: "\<And>pair. old = new \<Longrightarrow> old = Some pair \<Longrightarrow> key \<in> quoting s pair"
    and new: "new = (if ms_active st' then ms_pair st' else None)"
    and s': "s' = s\<lparr>sn_strategies := bm_insert key st' (sn_strategies s),
                    sn_by_pair := reindex (sn_by_pair s) key old new\<rparr>"
  shows "snapshot_inv s'"
proof -
  have shape: "index_shape (sn_by_pair s)" using inv by (simp add: snapshot_inv_def)
  have "set (bucket (sn_by_pair s') pair) = quoting s' pair" for pair
  proof -
    have bucket: "set (bucket (sn_by_pair s) pair) = quoting s pair"
      using inv by (simp add: snapshot_inv_def)
    have "k \<in> set (bucket (sn_by_pair s') pair) \<longleftrightarrow> k \<in> quoting s' pair" for k
    proof (cases "k = key")
      case True
      have "key \<in> quoting s' pair \<longleftrightarrow> new = Some pair" by (auto simp: quoting_def s' new)
      then show ?thesis
        using True old [of pair] kept [of pair] by (auto simp: s' reindex_bucket bucket)
    next
      case False
      have "k \<in> quoting s' pair \<longleftrightarrow> k \<in> quoting s pair" using False by (simp add: quoting_def s')
      then show ?thesis using False by (auto simp: s' reindex_bucket bucket)
    qed
    then show ?thesis by blast
  qed
  then show ?thesis
    using inv st' reindex_shape [OF shape] by (auto simp: snapshot_inv_def s')
qed

lemma quoting_iff:
  "bm_get (sn_strategies s) key = Some st \<Longrightarrow>
   key \<in> quoting s pair \<longleftrightarrow> ms_active st \<and> ms_pair st = Some pair"
  by (simp add: quoting_def)

lemma inv_apply_event:
  assumes inv: "snapshot_inv s"
  shows "snapshot_inv (apply_event abi_decode s e)"
proof -
  define key where "key = event_key e"
  have wf: "ms_key st = key \<and> bm_wf (ms_balances st)" if "bm_get (sn_strategies s) key = Some st" for st
    using inv that by (simp add: snapshot_inv_def)
  have idx: "index_shape (sn_by_pair s)" using inv by (simp add: snapshot_inv_def)
  show ?thesis
  proof (cases e)
    case (Shipped maker app h strategy)
    have key: "StrategyKey maker app h = key" by (simp add: key_def event_key_def Shipped)
    show ?thesis
    proof (cases "bm_get (sn_strategies s) key")
      case None
      have "snapshot_inv (s\<lparr>sn_strategies := bm_insert key (maker_strategy_new abi_decode key strategy)
          (sn_strategies s), sn_by_pair := reindex (sn_by_pair s) key None None\<rparr>)"
        by (rule inv_replace [OF inv _ _ _ _ _ refl])
          (simp_all add: maker_strategy_new_def None ms_pair_def bm_keys_def quoting_def)
      then show ?thesis
        using None by (simp add: Shipped Let_def key bm_contains_def reindex_def del: bm_contains_iff)
    next
      case (Some st)
      then show ?thesis using inv
        by (simp add: Shipped Let_def key bm_contains_def del: bm_contains_iff)
    qed
  next
    case (Pushed maker app h token amount)
    have key: "StrategyKey maker app h = key" by (simp add: key_def event_key_def Pushed)
    show ?thesis
    proof (cases "\<exists>st. bm_get (sn_strategies s) key = Some st \<and> ms_active st")
      case True
      then obtain st where st: "bm_get (sn_strategies s) key = Some st" "ms_active st" by blast
      show ?thesis
        using wf [OF st(1)] st
        by (intro inv_replace [OF inv, of _ key]) (auto simp: Pushed Let_def key quoting_iff)
    next
      case False
      then show ?thesis using inv by (auto simp: Pushed Let_def key split: option.split)
    qed
  next
    case (Pulled maker app h token amount)
    have key: "StrategyKey maker app h = key" by (simp add: key_def event_key_def Pulled)
    show ?thesis
    proof (cases "\<exists>st b. bm_get (sn_strategies s) key = Some st \<and> ms_active st \<and>
        bm_get (ms_balances st) token = Some b")
      case True
      then obtain st b where st: "bm_get (sn_strategies s) key = Some st" "ms_active st"
        "bm_get (ms_balances st) token = Some b" by blast
      let ?st = "st\<lparr>ms_balances := bm_insert token (sat_sub b amount) (ms_balances st)\<rparr>"
      have "ms_pair ?st = ms_pair st"
        by (rule pair_same_keys) (use wf [OF st(1)] insert_present_keys [OF _ st(3)] in simp)
      then have "snapshot_inv (s\<lparr>sn_strategies := bm_insert key ?st (sn_strategies s),
          sn_by_pair := reindex (sn_by_pair s) key (ms_pair st) (ms_pair st)\<rparr>)"
        using wf [OF st(1)] st
        by (intro inv_replace [OF inv, of ?st key "ms_pair st" "ms_pair st"]) (auto simp: quoting_iff)
      then show ?thesis using st by (simp add: Pulled Let_def key reindex_def)
    next
      case False
      then show ?thesis using inv by (auto simp: Pulled Let_def key split: option.split)
    qed
  next
    case (Docked maker app h)
    have key: "StrategyKey maker app h = key" by (simp add: key_def event_key_def Docked)
    show ?thesis
    proof (cases "bm_get (sn_strategies s) key")
      case None
      then show ?thesis using inv by (simp add: Docked Let_def key)
    next
      case (Some st)
      then show ?thesis
        using wf [OF Some]
        by (intro inv_replace [OF inv, of "st\<lparr>ms_active := False\<rparr>" key "ms_pair st" None])
          (auto simp: Docked Let_def key quoting_iff)
    qed
  qed
qed

lemma inv_apply_events: "snapshot_inv s \<Longrightarrow> snapshot_inv (apply_events abi_decode es s)"
  by (induction es arbitrary: s) (simp_all add: apply_events_def inv_apply_event)

lemma inv_snapshot_default: "snapshot_inv snapshot_default"
  by (simp add: snapshot_inv_def snapshot_default_def index_shape_def bucket_def quoting_def)

lemma funnel_eq_scan:
  assumes inv: "snapshot_inv s"
  shows "active_strategies_for_pair s pair =
    filter (\<lambda>st. ms_active st \<and> ms_pair st = Some pair) (bm_values (sn_strategies s))"
proof -
  define P where "P = (\<lambda>e :: strategy_key \<times> maker_strategy. ms_active (snd e) \<and> ms_pair (snd e) = Some pair)"
  let ?m = "sn_strategies s"
  have wf: "bm_wf ?m" using inv by (simp add: snapshot_inv_def)
  have "set (bucket (sn_by_pair s) pair) = quoting s pair"
    using inv by (simp add: snapshot_inv_def)
  also have "\<dots> = set (map fst (filter P ?m))"
    using bm_get_iff [OF wf] by (force simp: quoting_def P_def)
  finally have same: "set (bucket (sn_by_pair s) pair) = set (map fst (filter P ?m))" .
  have "sorted_wrt (<) (bucket (sn_by_pair s) pair)"
    using inv by (simp add: snapshot_inv_def index_shape_def)
  moreover have "sorted_wrt (<) (map fst (filter P ?m))"
    using wf unfolding bm_wf_def by (induction ?m) (auto simp: sorted_wrt_map sorted_wrt_filter)
  ultimately have keys: "bucket (sn_by_pair s) pair = map fst (filter P ?m)"
    using same strict_sorted_equal by blast
  have get: "bm_get ?m (fst e) = Some (snd e)" if "e \<in> set (filter P ?m)" for e
    using that bm_get_iff [OF wf, of "fst e" "snd e"] by simp
  have "List.map_filter (\<lambda>key. case bm_get ?m key of None \<Rightarrow> None
        | Some st \<Rightarrow> if ms_active st then Some st else None) (map fst (filter P ?m)) =
      map snd (filter P ?m)"
    by (rule map_filter_all) (use get in \<open>auto simp: P_def\<close>)
  then have "active_strategies_for_pair s pair = map snd (filter P ?m)"
    by (simp add: active_strategies_for_pair_def keys [unfolded bucket_def])
  then show ?thesis by (simp add: bm_values_def filter_map P_def o_def)
qed

section \<open>Properties\<close>

text \<open>
  C23. After any sequence of events the router's indexed candidate funnel for a pair is exactly the scan
  of all strategies for the active ones that trade the pair, in key order: the incremental index
  never misses a maker, never lists a docked or re-tokened one, and never lists one twice.
\<close>

theorem pair_index_equals_scan:
  "active_strategies_for_pair (apply_events abi_decode es snapshot_default) pair =
   filter (\<lambda>st. ms_active st \<and> ms_pair st = Some pair)
     (bm_values (sn_strategies (apply_events abi_decode es snapshot_default)))"
  by (rule funnel_eq_scan [OF inv_apply_events [OF inv_snapshot_default]])

text \<open>Tombstones: a docked strategy keeps its balances, curve and inactivity under every later event.\<close>

lemma apply_event_tombstone:
  "bm_get (sn_strategies s) key = Some st \<Longrightarrow> \<not> ms_active st \<Longrightarrow>
   bm_get (sn_strategies (apply_event abi_decode s e)) key = Some st"
  by (cases e) (auto simp: Let_def bm_contains_def simp del: bm_contains_iff split: option.split)

lemma apply_event_curve:
  "bm_get (sn_strategies s) key = Some st \<Longrightarrow>
   \<exists>st'. bm_get (sn_strategies (apply_event abi_decode s e)) key = Some st' \<and>
         ms_curve st' = ms_curve st \<and> ms_program st' = ms_program st"
  by (cases e) (auto simp: Let_def bm_contains_def simp del: bm_contains_iff split: option.split)

text \<open>
  Docking is final and shipping is immutable: once a strategy is known, no event sequence changes its
  decoded curve or program, and once it is docked no event sequence changes anything of it, so
  replaying a re-ship, a late push or a second dock cannot resurrect it.
\<close>

theorem docked_strategies_stay_docked:
  assumes "bm_get (sn_strategies s) key = Some st"
  shows "(\<exists>st'. bm_get (sn_strategies (apply_events abi_decode es s)) key = Some st' \<and>
            ms_curve st' = ms_curve st \<and> ms_program st' = ms_program st) \<and>
     (\<not> ms_active st \<longrightarrow>
        bm_get (sn_strategies (apply_events abi_decode es s)) key = Some st)"
  using assms
proof (induction es arbitrary: s st)
  case Nil
  then show ?case by (simp add: apply_events_def)
next
  case (Cons e es)
  have run: "apply_events abi_decode (e # es) s = apply_events abi_decode es (apply_event abi_decode s e)"
    by (simp add: apply_events_def)
  obtain st1 where st1: "bm_get (sn_strategies (apply_event abi_decode s e)) key = Some st1"
    "ms_curve st1 = ms_curve st" "ms_program st1 = ms_program st"
    using apply_event_curve [OF Cons.prems] by blast
  have "st1 = st" if "\<not> ms_active st"
    using apply_event_tombstone [OF Cons.prems that] st1(1) by simp
  then show ?case using Cons.IH [OF st1(1)] st1 unfolding run by auto
qed

definition ex_ship :: "aqua_event list" where
  "ex_ship = [Shipped 1 2 3 [0x11, 0], Pushed 1 2 3 10 500, Pushed 1 2 3 11 700, Docked 1 2 3]"

theorem docked_strategies_stay_docked_witness:
  "\<exists>st. bm_get (sn_strategies (apply_events ex_abi [Pushed 1 2 3 10 5, Shipped 1 2 3 []]
          (apply_events ex_abi ex_ship snapshot_default))) (StrategyKey 1 2 3) = Some st \<and>
        \<not> ms_active st \<and> ms_balance st 10 = 500"
proof -
  let ?st = "\<lparr>ms_key = StrategyKey 1 2 3, ms_curve = decode_strategy ex_abi [0x11, 0],
    ms_balances = [(10, 500), (11, 700)], ms_active = False, ms_program = [0x11, 0]\<rparr>"
  have "bm_get (sn_strategies (apply_events ex_abi ex_ship snapshot_default)) (StrategyKey 1 2 3) = Some ?st"
    by (simp add: apply_events_def ex_ship_def snapshot_default_def maker_strategy_new_def
        ms_balance_def sat_add_def u256_max_def Let_def)
  from docked_strategies_stay_docked [OF this, of ex_abi "[Pushed 1 2 3 10 5, Shipped 1 2 3 []]"]
  show ?thesis by (auto simp: ms_balance_def)
qed

section \<open>The two directions of a price\<close>

definition closed_form :: "curve_spec \<Rightarrow> bool" where
  "closed_form spec = (case spec of Priceable (Pegged _) _ \<Rightarrow> False | Priceable _ _ \<Rightarrow> True | Unsupported \<Rightarrow> False)"

lemma quote_exact_in_abs:
  "quote_exact_in (PoolXyc p) = xyc_quote_exact_in p"
  "quote_exact_in (PoolConcentrate cp) = concentrate_quote_exact_in cp"
  by (simp_all add: fun_eq_iff)

lemma lift_curve_Inr [simp]: "lift_curve r = Inr v \<longleftrightarrow> r = Inr v"
  by (cases r) (simp_all add: lift_curve_def)

text \<open>
  C24. For the constant-product and concentrated curves, with any stack of flat fees, the exact-out
  price is the least gross input that buys the output: an input the exact-in price accepts yields at
  least the requested output precisely when it is at least the exact-out price. So paying the
  quoted price always delivers, and nothing less does.
\<close>

theorem exact_out_price_is_least_input:
  assumes "closed_form (ms_curve st)"
    and "price st token_in token_out y False = Inr x"
    and "price st token_in token_out j True = Inr z"
  shows "y \<le> z \<longleftrightarrow> x \<le> j"
proof -
  obtain c fees where c: "ms_curve st = Priceable c fees"
    using assms(1) by (cases "ms_curve st") (auto simp: closed_form_def)
  show ?thesis
  proof (cases c)
    case Xyc
    then show ?thesis
      using assms(2,3) by (intro xyc_behind_fees.staged.least_input)
        (auto simp: price_def c Let_def quote_exact_in_abs)
  next
    case (Concentrate smin smax)
    then show ?thesis
      using assms(2,3)
      by (intro concentrate_behind_fees.staged.least_input)
        (auto simp: price_def c Let_def quote_exact_in_abs)
  next
    case (Pegged params)
    then show ?thesis using assms(1) by (simp add: closed_form_def c)
  qed
qed

definition ex_strategy :: maker_strategy where
  "ex_strategy = \<lparr>ms_key = StrategyKey 1 2 3, ms_curve = Priceable Xyc [3000000],
     ms_balances = [(10, 1000), (11, 2000)], ms_active = True, ms_program = []\<rparr>"

theorem exact_out_price_is_least_input_witness:
  "price ex_strategy 10 11 181 False = Inr 101 \<and> price ex_strategy 10 11 101 True = Inr 181 \<and>
   ((181 :: nat) \<le> 181 \<longleftrightarrow> (101 :: nat) \<le> 101)"
proof -
  note eval = price_def ex_strategy_def Let_def ms_balance_def xyc_from_reserves_def
    xyc_quote_exact_out_def xyc_quote_exact_in_def xyc_is_empty_def cmul_def cadd_def fdiv_def
    ceil_div_def checked_mul_def checked_add_def checked_sub_def shrink_by_fees_def
    gross_up_by_fees_def apply_flat_fee_in_def apply_flat_fee_out_def bps_denominator_def
    u256_max_def lift_curve_def
  have out: "price ex_strategy 10 11 181 False = Inr 101" by (simp add: eval)
  have inn: "price ex_strategy 10 11 101 True = Inr 181" by (simp add: eval)
  have "closed_form (ms_curve ex_strategy)" by (simp add: closed_form_def ex_strategy_def)
  from exact_out_price_is_least_input [OF this out inn] out inn show ?thesis by simp
qed

section \<open>Tie breaking\<close>

text \<open>
  The dominant curve shape of a pool takes the last of several equally common shapes in the order
  constant product, concentrated, pegged: with one maker of each shape the pool is pegged.
\<close>

theorem dominant_tie_takes_last:
  "dominant \<lparr>sc_xyc = n + 1, sc_concentrated = n + 1, sc_pegged = n + 1\<rparr> = Some KindPegged \<and>
   dominant \<lparr>sc_xyc = n + 1, sc_concentrated = n + 1, sc_pegged = 0\<rparr> = Some KindConcentrated"
  by (simp add: dominant_def max_by_key_def)

end
