(* ===== verification/Ingest.thy ===== *)
theory Ingest
  imports Pricing Keys
begin

text \<open>
  Order ingestion: the amount curves of an intent (core/src/primitives/ingest/curve.rs), the
  executor fee (fee.rs), the canonical intent (intent.rs) and the pipeline that normalises, admits
  and deduplicates raw orders (core/src/ingest/service.rs).

  A panic (\<open>expect\<close> on a value that would not fit) is the result \<open>None\<close>; the first property shows
  it is unreachable. The protocol normalizers, the clock and the deduplication cache (moka) are
  parameters.
\<close>

section \<open>Amount curves\<close>

datatype rounding = RoundUp | RoundDown

datatype amount_curve =
    Static u256
  | Linear (ac_start: u256) (ac_end: u256) (ac_start_time: u64) (ac_end_time: u64) (ac_rounding: rounding)

definition scalar :: "u256 \<Rightarrow> amount_curve" where
  "scalar amount = Static amount"

definition dutch :: "u256 \<Rightarrow> u256 \<Rightarrow> u64 \<Rightarrow> u64 \<Rightarrow> amount_curve" where
  "dutch start finish start_time end_time =
     (if start = finish then Static start
      else if start < finish then Linear start finish start_time end_time RoundUp
      else Linear start finish start_time end_time RoundDown)"

fun amount_at :: "amount_curve \<Rightarrow> u64 \<Rightarrow> u256 option" where
  "amount_at (Static amount) t = Some amount"
| "amount_at (Linear start finish start_time end_time rounding) t =
     (if t \<le> start_time then Some start
      else if t \<ge> end_time then Some finish
      else
        case ratio_new (t - start_time) (end_time - start_time) of
          None \<Rightarrow> None
        | Some part \<Rightarrow>
            let rising = finish \<ge> start;
                magnitude = (if rising then finish - start else start - finish);
                moved = ratio_mul (ratio_from magnitude) part
            in case (case rounding of RoundUp \<Rightarrow> ratio_ceil moved | RoundDown \<Rightarrow> ratio_floor moved) of
                 None \<Rightarrow> None
               | Some delta \<Rightarrow> Some (if rising then wrap_add start delta else wrap_sub start delta))"

section \<open>Executor fee\<close>

definition BPS_DENOMINATOR :: nat where "BPS_DENOMINATOR = 10000"

datatype ingest_error = FeeBpsOutOfRange | FeeOverflow | InputBelowFee

record execution_fee_policy =
  ef_bps :: nat

definition fee_policy_new :: "nat \<Rightarrow> ingest_error + execution_fee_policy" where
  "fee_policy_new bps =
     (if bps = 0 \<or> bps \<ge> BPS_DENOMINATOR then Inl FeeBpsOutOfRange else Inr \<lparr>ef_bps = bps\<rparr>)"

definition execution_fee :: "execution_fee_policy \<Rightarrow> u256 \<Rightarrow> ingest_error + u256" where
  "execution_fee p gross_input =
     (let quotient = gross_input div BPS_DENOMINATOR;
          remainder = gross_input mod BPS_DENOMINATOR
      in
      rbind (ok_or FeeOverflow (checked_mul quotient (ef_bps p))) (\<lambda>base.
      rbind (ok_or FeeOverflow
               (map_option (\<lambda>value. value div BPS_DENOMINATOR)
                 (Option.bind (checked_mul remainder (ef_bps p))
                   (\<lambda>value. checked_add value (BPS_DENOMINATOR - 1))))) (\<lambda>rounded_remainder.
      rbind (ok_or FeeOverflow (checked_add base rounded_remainder)) (\<lambda>fee.
        Inr (max fee 1)))))"

definition routing_input :: "execution_fee_policy \<Rightarrow> u256 \<Rightarrow> ingest_error + u256" where
  "routing_input p gross_input =
     rbind (execution_fee p gross_input) (\<lambda>fee.
       ok_or InputBelowFee
         (case checked_sub gross_input fee of
            None \<Rightarrow> None
          | Some amount \<Rightarrow> if amount \<noteq> 0 then Some amount else None))"

section \<open>Intents\<close>

datatype protocol_id = UniswapXV2 | Erc7683

record intent_input =
  ii_token :: address
  ii_curve :: amount_curve

record intent_output =
  io_token :: address
  io_curve :: amount_curve
  io_recipient :: address

record exclusivity =
  xc_filler :: address
  xc_ends_at :: u64

record intent =
  in_id :: intent_id
  in_protocol :: protocol_id
  in_input :: intent_input
  in_routing_input_limit :: "u256 option"
  in_outputs :: "intent_output list"
  in_deadline :: u64
  in_exclusivity :: "exclusivity option"
  in_settler :: address
  in_origin_chain :: chain_id
  in_raw :: "nat list"
  in_signature :: "nat list"
  in_observed_at :: u64

record raw_order =
  ro_protocol :: protocol_id
  ro_chain :: chain_id
  ro_payload :: "nat list"
  ro_signature :: "nat list"
  ro_observed_at :: u64

section \<open>The pipeline\<close>

text \<open>
  The cache is reached through \<open>seen\<close> (an unexpired entry exists) and \<open>remember\<close> (insert);
  \<open>normalizers\<close> maps a protocol to its normalizer, whose \<open>None\<close> is a malformed order.
\<close>

record 'c pipeline =
  pl_normalizers :: "protocol_id \<Rightarrow> (raw_order \<Rightarrow> intent option) option"
  pl_seen :: "'c \<Rightarrow> intent_id \<Rightarrow> bool"
  pl_remember :: "intent_id \<Rightarrow> 'c \<Rightarrow> 'c"
  pl_supported_chains :: "chain_id bset"

definition nonzero_at :: "amount_curve \<Rightarrow> u64 \<Rightarrow> bool" where
  "nonzero_at c now \<longleftrightarrow> amount_at c now \<noteq> Some 0"

definition is_admissible :: "'c pipeline \<Rightarrow> u64 \<Rightarrow> intent \<Rightarrow> bool" where
  "is_admissible p now intent =
     (if in_origin_chain intent \<notin> set (pl_supported_chains p) then False
      else if in_deadline intent \<le> now then False
      else if in_outputs intent = [] then False
      else if \<not> nonzero_at (ii_curve (in_input intent)) now then False
      else if list_ex (\<lambda>o'. \<not> nonzero_at (io_curve o') now) (in_outputs intent) then False
      else True)"

definition process :: "'c pipeline \<Rightarrow> u64 \<Rightarrow> raw_order \<Rightarrow> 'c \<Rightarrow> intent option \<times> 'c" where
  "process p now raw cache =
     (case pl_normalizers p (ro_protocol raw) of
        None \<Rightarrow> (None, cache)
      | Some normalizer \<Rightarrow>
          (case normalizer raw of
             None \<Rightarrow> (None, cache)
           | Some intent \<Rightarrow>
               if \<not> is_admissible p now intent then (None, cache)
               else if pl_seen p cache (in_id intent) then (None, cache)
               else (Some intent, pl_remember p (in_id intent) cache)))"

text \<open>
  \<open>run\<close> over the merged order stream, each order with the time it is processed at; the receiver
  takes every intent sent.
\<close>

fun ingest_run :: "'c pipeline \<Rightarrow> (u64 \<times> raw_order) list \<Rightarrow> 'c \<Rightarrow> intent list \<times> 'c" where
  "ingest_run p [] cache = ([], cache)"
| "ingest_run p ((now, raw) # feed) cache =
     (case process p now raw cache of
        (None, cache') \<Rightarrow> ingest_run p feed cache'
      | (Some intent, cache') \<Rightarrow>
          (case ingest_run p feed cache' of (out, cache'') \<Rightarrow> (intent # out, cache'')))"

section \<open>Properties of the amount curves\<close>

definition interpolated :: "u256 \<Rightarrow> u256 \<Rightarrow> u64 \<Rightarrow> u64 \<Rightarrow> u64 \<Rightarrow> rat" where
  "interpolated s e st et t =
     of_nat s + (of_nat e - of_nat s) * (of_nat t - of_nat st) / (of_nat et - of_nat st)"

lemma from_bigint_nat: "0 \<le> x \<Longrightarrow> nat x \<le> u256_max \<Longrightarrow> from_bigint x = Some (nat x)"
  by (simp add: from_bigint_def)

lemma amount_at_inside:
  assumes "s \<le> u256_max" and "e \<le> u256_max" and "st < t" and "t < et"
  shows "amount_at (dutch s e st et) t = Some (nat \<lceil>interpolated s e st et t\<rceil>)"
proof -
  define f :: rat where "f = of_nat (t - st) / of_nat (et - st)"
  have f: "0 \<le> f" "f \<le> 1" using assms(3,4) by (simp_all add: f_def)
  have interp: "interpolated s e st et t = of_nat s + (of_nat e - of_nat s) * f"
    using assms(3,4) by (simp add: interpolated_def f_def of_nat_diff)
  have new: "ratio_new (t - st) (et - st) = Some f" using assms(3,4) by (simp add: f_def)
  consider "s = e" | (up) "s < e" | (down) "e < s" by linarith
  then show ?thesis
  proof cases
    case 1
    then show ?thesis by (simp add: dutch_def interpolated_def)
  next
    case up
    define m :: rat where "m = of_nat (e - s) * f"
    have m: "0 \<le> m" "m \<le> of_nat (e - s)"
      using f mult_left_mono [of f 1 "of_nat (e - s)"] by (simp_all add: m_def)
    have c: "0 \<le> \<lceil>m\<rceil>" "\<lceil>m\<rceil> \<le> int (e - s)" using m by (simp_all add: ceiling_le_iff le_ceiling_iff)
    then have "nat \<lceil>m\<rceil> \<le> e - s" by simp
    then have bound: "nat \<lceil>m\<rceil> \<le> u256_max" "s + nat \<lceil>m\<rceil> \<le> u256_max" using up assms(2) by linarith+
    have "interpolated s e st et t = m + of_int (int s)"
      using up by (simp add: interp m_def of_nat_diff)
    then have "\<lceil>interpolated s e st et t\<rceil> = \<lceil>m\<rceil> + int s" by (simp only: ceiling_add_of_int)
    then have "nat \<lceil>interpolated s e st et t\<rceil> = s + nat \<lceil>m\<rceil>" using c(1) by linarith
    moreover have "ratio_ceil (ratio_mul (ratio_from (e - s)) f) = Some (nat \<lceil>m\<rceil>)"
      using from_bigint_nat [OF c(1) bound(1)] by (simp add: ratio_ceil_def ratio_defs flip: m_def)
    ultimately show ?thesis
      using up assms(3,4) bound(2) by (simp add: dutch_def new wrap_add_exact Let_def)
  next
    case down
    define m :: rat where "m = of_nat (s - e) * f"
    have m: "0 \<le> m" "m \<le> of_nat (s - e)"
      using f mult_left_mono [of f 1 "of_nat (s - e)"] by (simp_all add: m_def)
    have c: "0 \<le> \<lfloor>m\<rfloor>" "\<lfloor>m\<rfloor> \<le> int (s - e)" using m by (simp_all add: floor_le_iff le_floor_iff)
    then have le: "nat \<lfloor>m\<rfloor> \<le> s - e" by simp
    then have bound: "nat \<lfloor>m\<rfloor> \<le> u256_max" "nat \<lfloor>m\<rfloor> \<le> s" using assms(1) by linarith+
    have "interpolated s e st et t = of_nat s - m" using down by (simp add: interp m_def of_nat_diff algebra_simps)
    then have "interpolated s e st et t = - m + of_int (int s)" by simp
    then have "\<lceil>interpolated s e st et t\<rceil> = \<lceil>- m\<rceil> + int s" by (simp only: ceiling_add_of_int)
    then have "\<lceil>interpolated s e st et t\<rceil> = int s - \<lfloor>m\<rfloor>" by (simp add: ceiling_def)
    then have "nat \<lceil>interpolated s e st et t\<rceil> = s - nat \<lfloor>m\<rfloor>" using c bound by linarith
    moreover have "ratio_floor (ratio_mul (ratio_from (s - e)) f) = Some (nat \<lfloor>m\<rfloor>)"
      using from_bigint_nat [OF c(1) bound(1)] by (simp add: ratio_floor_def ratio_defs flip: m_def)
    ultimately show ?thesis
      using down assms(1,3,4) bound(2) by (simp add: dutch_def new wrap_sub_exact Let_def)
  qed
qed

definition clamp :: "u64 \<Rightarrow> u64 \<Rightarrow> u64 \<Rightarrow> u64" where
  "clamp lo hi t = max lo (min hi t)"

lemma amount_at_clamped:
  assumes "s \<le> u256_max" and "e \<le> u256_max" and "st < et"
  shows "amount_at (dutch s e st et) t = Some (nat \<lceil>interpolated s e st et (clamp st et t)\<rceil>)"
proof -
  have ends: "nat \<lceil>interpolated s e st et st\<rceil> = s" "nat \<lceil>interpolated s e st et et\<rceil> = e"
    using assms(3) by (simp_all add: interpolated_def)
  consider "t \<le> st" | "et \<le> t" | "st < t" "t < et" by linarith
  then show ?thesis
  proof cases
    case 3
    then show ?thesis using amount_at_inside [OF assms(1,2)] by (simp add: clamp_def)
  qed (use assms(3) ends in \<open>auto simp: clamp_def dutch_def\<close>)
qed

lemma interpolated_affine:
  "interpolated s e st et t' - interpolated s e st et t =
    (of_nat e - of_nat s) * (of_nat t' - of_nat t) / (of_nat et - of_nat st)"
proof -
  have "interpolated s e st et t' - interpolated s e st et t =
      ((of_nat e - of_nat s) * (of_nat t' - of_nat st) - (of_nat e - of_nat s) * (of_nat t - of_nat st)) /
      (of_nat et - of_nat st)"
    by (simp add: interpolated_def diff_divide_distrib)
  then show ?thesis by (simp add: algebra_simps)
qed

text \<open>
  A Dutch curve priced at any time never panics, equals the exact linear interpolation at the time
  clamped to its window rounded up to a whole unit, and is monotone between its end points: a rising
  curve never falls, a falling one never rises.
\<close>

theorem dutch_amount_is_rounded_interpolation:
  assumes "s \<le> u256_max" and "e \<le> u256_max" and "st < et" and "t \<le> t'"
  shows "\<exists>a a'. amount_at (dutch s e st et) t = Some a \<and> amount_at (dutch s e st et) t' = Some a' \<and>
     a = nat \<lceil>interpolated s e st et (clamp st et t)\<rceil> \<and>
     (s \<le> e \<longrightarrow> s \<le> a \<and> a \<le> a' \<and> a' \<le> e) \<and> (e \<le> s \<longrightarrow> e \<le> a' \<and> a' \<le> a \<and> a \<le> s)"
proof -
  define A where "A u = nat \<lceil>interpolated s e st et (clamp st et u)\<rceil>" for u
  have at: "amount_at (dutch s e st et) u = Some (A u)" for u
    by (simp add: A_def amount_at_clamped [OF assms(1-3)])
  have up: "A u \<le> A v" if "u \<le> v" "s \<le> e" for u v
  proof -
    have "(of_nat e - of_nat s) * (of_nat (clamp st et v) - of_nat (clamp st et u)) /
        (of_nat et - of_nat st) \<ge> (0 :: rat)"
      using that assms(3) by (intro divide_nonneg_pos mult_nonneg_nonneg) (auto simp: clamp_def)
    then show ?thesis
      unfolding A_def using interpolated_affine [of s e st et "clamp st et v" "clamp st et u"]
      by (intro nat_mono ceiling_mono) linarith
  qed
  have down: "A v \<le> A u" if "u \<le> v" "e \<le> s" for u v
  proof -
    have "(of_nat e - of_nat s) * (of_nat (clamp st et v) - of_nat (clamp st et u)) /
        (of_nat et - of_nat st) \<le> (0 :: rat)"
      using that assms(3) by (intro divide_nonpos_pos mult_nonpos_nonneg) (auto simp: clamp_def)
    then show ?thesis
      unfolding A_def using interpolated_affine [of s e st et "clamp st et v" "clamp st et u"]
      by (intro nat_mono ceiling_mono) linarith
  qed
  have ends: "A (min st t) = s" "A (max et t') = e"
    using assms(3) by (simp_all add: A_def clamp_def interpolated_def)
  show ?thesis
    using at up [OF assms(4)] down [OF assms(4)] up [of "min st t" t] up [of t' "max et t'"]
      down [of "min st t" t] down [of t' "max et t'"] ends
    by (auto simp: A_def)
qed

theorem dutch_amount_is_rounded_interpolation_witness:
  "amount_at (dutch 1000 900 100 160) 125 = Some 959 \<and> amount_at (dutch 1000 900 100 160) 200 = Some 900"
proof -
  obtain a a' where "amount_at (dutch 1000 900 100 160) 125 = Some a"
    "amount_at (dutch 1000 900 100 160) 200 = Some a'" "a' \<le> a"
    "a = nat \<lceil>interpolated 1000 900 100 160 (clamp 100 160 125)\<rceil>"
    using dutch_amount_is_rounded_interpolation [of 1000 900 100 160 125 200]
    by (auto simp: u256_max_def)
  moreover have "nat \<lceil>interpolated 1000 900 100 160 (clamp 100 160 125)\<rceil> = 959"
    by (simp add: interpolated_def clamp_def ceiling_eq_iff nat_eq_iff)
  moreover have "amount_at (dutch 1000 900 100 160) 200 = Some 900" by (simp add: dutch_def)
  ultimately show ?thesis by simp
qed

section \<open>Properties of the fee\<close>

lemma split_ceil:
  assumes "0 < (d :: nat)"
  shows "(g div d) * b + ((g mod d) * b + (d - 1)) div d = (g * b + (d - 1)) div d"
proof -
  have "g * b + (d - 1) = (g div d * d + g mod d) * b + (d - 1)" by simp
  also have "\<dots> = ((g mod d) * b + (d - 1)) + d * ((g div d) * b)"
    by (simp only: distrib_right, simp only: ac_simps)
  finally have "(g * b + (d - 1)) div d = (((g mod d) * b + (d - 1)) + d * ((g div d) * b)) div d" by (rule arg_cong)
  also have "\<dots> = (g div d) * b + ((g mod d) * b + (d - 1)) div d"
    using assms by (intro div_mult_self2) simp
  finally show ?thesis by simp
qed

text \<open>
  For every admitted policy and every 256-bit input the fee is computed without overflow and equals the
  exact ceiling of the proportional fee, at least one unit; the routing input plus the fee is the
  gross input, and routing is refused exactly when nothing would be left.
\<close>

theorem executor_fee_is_exact_ceiling:
  assumes "fee_policy_new bps = Inr p" and "g \<le> u256_max"
  defines "fee \<equiv> max 1 ((g * bps + 9999) div 10000)"
  shows "execution_fee p g = Inr fee \<and>
     routing_input p g = (if fee < g then Inr (g - fee) else Inl InputBelowFee)"
proof -
  have bps: "0 < bps" "bps < 10000" "ef_bps p = bps"
    using assms(1) by (auto simp: fee_policy_new_def BPS_DENOMINATOR_def split: if_splits)
  have rem: "g mod 10000 * bps \<le> 9999 * 9999"
    using bps(2) by (intro mult_le_mono) auto
  have base: "g div 10000 * bps \<le> g"
  proof -
    have "g div 10000 * bps \<le> g div 10000 * 10000" using bps(2) by (intro mult_le_mono2) simp
    also have "\<dots> \<le> g" by simp
    finally show ?thesis .
  qed
  have sum: "g div 10000 * bps + (g mod 10000 * bps + 9999) div 10000 = (g * bps + 9999) div 10000"
    using split_ceil [of 10000 g bps] by simp
  have le: "(g * bps + 9999) div 10000 \<le> max g 1"
  proof -
    have "g * bps + 9999 \<le> g * 9999 + 9999" using bps(2) by simp
    also have "\<dots> < (max g 1 + 1) * 10000" by (simp add: max_def)
    finally have "(g * bps + 9999) div 10000 < max g 1 + 1" by (simp add: div_less_iff_less_mult)
    then show ?thesis by simp
  qed
  have one: "1 \<le> u256_max" "9999 * 9999 + 9999 \<le> u256_max" by (simp_all add: u256_max_def)
  have r1: "g mod 10000 * bps \<le> u256_max" "g mod 10000 * bps + 9999 \<le> u256_max"
    using rem one by linarith+
  have b1: "g div 10000 * bps \<le> u256_max" using base assms(2) by linarith
  have s1: "(g * bps + 9999) div 10000 \<le> u256_max" using le assms(2) one(1) by (simp add: max_def split: if_splits)
  have fee: "execution_fee p g = Inr fee"
    using r1 b1 s1 sum
    by (simp add: execution_fee_def bps(3) BPS_DENOMINATOR_def checked_mul_def checked_add_def fee_def
        max.commute)
  then show ?thesis
    by (auto simp: routing_input_def checked_sub_def)
qed

theorem executor_fee_is_exact_ceiling_witness:
  "fee_policy_new 5 = Inr \<lparr>ef_bps = 5\<rparr> \<and> routing_input \<lparr>ef_bps = 5\<rparr> 1000001 = Inr 999500"
proof -
  have p: "fee_policy_new 5 = Inr \<lparr>ef_bps = 5\<rparr>" by (simp add: fee_policy_new_def BPS_DENOMINATOR_def)
  from executor_fee_is_exact_ceiling [OF p, of 1000001] p show ?thesis
    by (simp add: u256_max_def)
qed

section \<open>Properties of the pipeline\<close>

definition cache_laws :: "'c pipeline \<Rightarrow> bool" where
  "cache_laws p \<longleftrightarrow> (\<forall>c i j. pl_seen p (pl_remember p i c) j \<longleftrightarrow> j = i \<or> pl_seen p c j)"

lemma process_Some:
  "process p now raw c = (Some x, c') \<Longrightarrow>
   is_admissible p now x \<and> \<not> pl_seen p c (in_id x) \<and> c' = pl_remember p (in_id x) c"
  by (auto simp: process_def split: option.splits if_splits)

lemma process_None: "process p now raw c = (None, c') \<Longrightarrow> c' = c"
  by (auto simp: process_def split: option.splits if_splits)

text \<open>
  C32. While no entry of the deduplication cache expires, every intent the pipeline emits was admissible
  at the time it was processed (supported chain, live deadline, non-empty and non-zero amounts), was
  not seen before, and no order hash is emitted twice, whatever the feeds replay.
\<close>

theorem ingest_emits_each_intent_once:
  assumes "cache_laws p" and "ingest_run p feed c = (out, c')"
  shows "distinct (map in_id out) \<and>
     (\<forall>x \<in> set out. \<not> pl_seen p c (in_id x) \<and> pl_seen p c' (in_id x) \<and>
        (\<exists>(now, raw) \<in> set feed. is_admissible p now x)) \<and>
     (\<forall>i. pl_seen p c i \<longrightarrow> pl_seen p c' i)"
  using assms(2)
proof (induction feed arbitrary: c out)
  case Nil
  then show ?case by simp
next
  case (Cons e feed)
  obtain now raw where e: "e = (now, raw)" by (cases e)
  obtain res c1 where step: "process p now raw c = (res, c1)" by (cases "process p now raw c")
  have law: "pl_seen p (pl_remember p i c) j \<longleftrightarrow> j = i \<or> pl_seen p c j" for i j
    using assms(1) by (simp add: cache_laws_def)
  show ?case
  proof (cases res)
    case None
    then have "c1 = c" using step by (auto dest: process_None)
    then show ?thesis using Cons.IH [of c out] Cons.prems step None by (auto simp: e)
  next
    case (Some x)
    then obtain out' where run: "ingest_run p feed c1 = (out', c')" and out: "out = x # out'"
      using Cons.prems step by (auto simp: e split: prod.splits)
    have x: "is_admissible p now x" "\<not> pl_seen p c (in_id x)" "c1 = pl_remember p (in_id x) c"
      using process_Some [of p now raw c x c1] step Some by simp_all
    note IH = Cons.IH [OF run]
    have "pl_seen p c1 (in_id x)" by (simp add: x(3) law)
    then have "pl_seen p c' (in_id x)" "in_id x \<notin> in_id ` set out'" using IH by auto
    then show ?thesis using IH x by (auto simp: out e law)
  qed
qed

definition ex_intent :: intent where
  "ex_intent = \<lparr>in_id = 5, in_protocol = UniswapXV2, in_input = \<lparr>ii_token = 1, ii_curve = Static 10\<rparr>,
     in_routing_input_limit = None,
     in_outputs = [\<lparr>io_token = 2, io_curve = Static 20, io_recipient = 3\<rparr>], in_deadline = 100,
     in_exclusivity = None, in_settler = 4, in_origin_chain = 1, in_raw = [], in_signature = [],
     in_observed_at = 0\<rparr>"

definition ex_pipeline :: "intent_id list pipeline" where
  "ex_pipeline = \<lparr>pl_normalizers = (\<lambda>pr. if pr = UniswapXV2 then Some (\<lambda>raw. Some ex_intent) else None),
     pl_seen = (\<lambda>c i. i \<in> set c), pl_remember = (#), pl_supported_chains = [1]\<rparr>"

definition ex_raw :: raw_order where
  "ex_raw = \<lparr>ro_protocol = UniswapXV2, ro_chain = 1, ro_payload = [], ro_signature = [], ro_observed_at = 0\<rparr>"

theorem ingest_emits_each_intent_once_witness:
  "ingest_run ex_pipeline [(10, ex_raw), (11, ex_raw)] [] = ([ex_intent], [5]) \<and>
   distinct (map in_id [ex_intent])"
proof -
  have laws: "cache_laws ex_pipeline" by (auto simp: cache_laws_def ex_pipeline_def)
  have run: "ingest_run ex_pipeline [(10, ex_raw), (11, ex_raw)] [] = ([ex_intent], [5])"
    by (simp add: process_def ex_pipeline_def ex_raw_def is_admissible_def ex_intent_def nonzero_at_def)
  from ingest_emits_each_intent_once [OF laws run] run show ?thesis by blast
qed

end
