(* ===== verification/Effects.thy ===== *)
theory Effects
  imports Prelude
begin

text \<open>
  Stateful computations that can fail: a function from the state to a result and the new state, the
  shape of every \<open>async fn ... -> Result<T, E>\<close> of the services. An \<open>Err\<close> keeps the effects that
  happened before it. \<open>ebind\<close> is sequencing with \<open>?\<close>, \<open>etry\<close> hands the result to the caller as a
  value (a \<open>match\<close> on the awaited result), \<open>eread\<close> and \<open>emodify\<close> read and change the state, \<open>on_part\<close> runs a computation on a component of the
  state.

  The second half is a small calculus of triples: \<open>triple P m Q E\<close> says that from a state with \<open>P\<close>
  a success ends with \<open>Q\<close> and an error with \<open>E\<close>. Its rules are collected in \<open>triples\<close>.
\<close>

type_synonym ('w, 'e, 'a) eff = "'w \<Rightarrow> ('e + 'a) \<times> 'w"

definition eok :: "'a \<Rightarrow> ('w, 'e, 'a) eff" where
  "eok x w = (Inr x, w)"

definition eerr :: "'e \<Rightarrow> ('w, 'e, 'a) eff" where
  "eerr e w = (Inl e, w)"

definition eres :: "'e + 'a \<Rightarrow> ('w, 'e, 'a) eff" where
  "eres r w = (r, w)"

definition eread :: "('w \<Rightarrow> 'a) \<Rightarrow> ('w, 'e, 'a) eff" where
  "eread f w = (Inr (f w), w)"

definition emodify :: "('w \<Rightarrow> 'w) \<Rightarrow> ('w, 'e, unit) eff" where
  "emodify f w = (Inr (), f w)"

definition ebind :: "('w, 'e, 'a) eff \<Rightarrow> ('a \<Rightarrow> ('w, 'e, 'b) eff) \<Rightarrow> ('w, 'e, 'b) eff" where
  "ebind m f w = (case m w of (Inl e, w') \<Rightarrow> (Inl e, w') | (Inr x, w') \<Rightarrow> f x w')"

definition etry :: "('w, 'd, 'a) eff \<Rightarrow> ('w, 'e, 'd + 'a) eff" where
  "etry m w = (case m w of (r, w') \<Rightarrow> (Inr r, w'))"

definition emap_err :: "('d \<Rightarrow> 'e) \<Rightarrow> ('w, 'd, 'a) eff \<Rightarrow> ('w, 'e, 'a) eff" where
  "emap_err f m w = (case m w of (r, w') \<Rightarrow> (map_sum f id r, w'))"

definition on_part ::
  "('w \<Rightarrow> 's) \<Rightarrow> ('s \<Rightarrow> 'w \<Rightarrow> 'w) \<Rightarrow> ('s, 'e, 'a) eff \<Rightarrow> ('w, 'e, 'a) eff" where
  "on_part get put m w = (case m (get w) of (r, s) \<Rightarrow> (r, put s w))"

lemma eff_simps [simp]:
  "eok x w = (Inr x, w)"
  "eerr e w = (Inl e, w)"
  "eres r w = (r, w)"
  by (simp_all add: eok_def eerr_def eres_def)

lemma ebind_eok [simp]: "ebind (eok x) f = f x"
  by (simp add: ebind_def fun_eq_iff)

lemma ebind_eerr [simp]: "ebind (eerr e) f = eerr e"
  by (simp add: ebind_def fun_eq_iff)

lemma ebind_eres [simp]: "ebind (eres (Inr x)) f = f x" "ebind (eres (Inl e)) f = eerr e"
  by (simp_all add: ebind_def fun_eq_iff)

lemma ebind_run:
  "m w = (Inr x, w') \<Longrightarrow> ebind m f w = f x w'"
  "m w = (Inl e, w') \<Longrightarrow> ebind m f w = (Inl e, w')"
  by (simp_all add: ebind_def)

lemma ebind_Inr:
  "ebind m f w = (Inr y, w') \<longleftrightarrow> (\<exists>x v. m w = (Inr x, v) \<and> f x v = (Inr y, w'))"
  by (auto simp: ebind_def split: prod.splits sum.splits)

section \<open>Triples\<close>

named_theorems triples

definition triple ::
  "('w \<Rightarrow> bool) \<Rightarrow> ('w, 'e, 'a) eff \<Rightarrow> ('a \<Rightarrow> 'w \<Rightarrow> bool) \<Rightarrow> ('e \<Rightarrow> 'w \<Rightarrow> bool) \<Rightarrow> bool" where
  "triple P m Q E \<longleftrightarrow>
     (\<forall>w r w'. P w \<longrightarrow> m w = (r, w') \<longrightarrow> (case r of Inl e \<Rightarrow> E e w' | Inr x \<Rightarrow> Q x w'))"

lemma tripleI:
  assumes "\<And>w x w'. P w \<Longrightarrow> m w = (Inr x, w') \<Longrightarrow> Q x w'"
    and "\<And>w e w'. P w \<Longrightarrow> m w = (Inl e, w') \<Longrightarrow> E e w'"
  shows "triple P m Q E"
  using assms by (auto simp: triple_def split: sum.split)

lemma tripleD:
  assumes "triple P m Q E" and "P w"
  shows "m w = (Inr x, w') \<Longrightarrow> Q x w'" and "m w = (Inl e, w') \<Longrightarrow> E e w'"
  using assms by (fastforce simp: triple_def split: sum.splits)+

lemma triple_weaken:
  assumes "triple P m Q E" and "\<And>w. P' w \<Longrightarrow> P w"
    and "\<And>x w. Q x w \<Longrightarrow> Q' x w" and "\<And>e w. E e w \<Longrightarrow> E' e w"
  shows "triple P' m Q' E'"
  using assms by (fastforce simp: triple_def split: sum.splits)

lemma triple_eok [triples]: "(\<And>w. P w \<Longrightarrow> Q x w) \<Longrightarrow> triple P (eok x) Q E"
  by (simp add: triple_def)

lemma triple_eerr [triples]: "(\<And>w. P w \<Longrightarrow> E e w) \<Longrightarrow> triple P (eerr e) Q E"
  by (simp add: triple_def)

lemma triple_eread [triples]: "triple P (eread f) (\<lambda>x w. P w \<and> x = f w) E"
  by (simp add: triple_def eread_def)

lemma triple_emodify [triples]: "(\<And>w. P w \<Longrightarrow> Q () (f w)) \<Longrightarrow> triple P (emodify f) Q E"
  by (simp add: triple_def emodify_def)

lemma triple_eres [triples]:
  "(\<And>x w. r = Inr x \<Longrightarrow> P w \<Longrightarrow> Q x w) \<Longrightarrow> (\<And>e w. r = Inl e \<Longrightarrow> P w \<Longrightarrow> E e w) \<Longrightarrow>
   triple P (eres r) Q E"
  by (simp add: triple_def split: sum.split)

lemma triple_ebind [triples]:
  assumes "triple P m R E" and "\<And>x. triple (R x) (f x) Q E"
  shows "triple P (ebind m f) Q E"
proof (rule tripleI)
  fix w y w'
  assume P: "P w" and run: "ebind m f w = (Inr y, w')"
  then obtain x v where "m w = (Inr x, v)" "f x v = (Inr y, w')"
    by (auto simp: ebind_def split: prod.splits sum.splits)
  then show "Q y w'" using tripleD [OF assms(1) P] tripleD [OF assms(2)] by blast
next
  fix w e w'
  assume P: "P w" and run: "ebind m f w = (Inl e, w')"
  then consider "m w = (Inl e, w')" | x v where "m w = (Inr x, v)" "f x v = (Inl e, w')"
    by (auto simp: ebind_def split: prod.splits sum.splits)
  then show "E e w'" using tripleD [OF assms(1) P] tripleD [OF assms(2)] by cases blast+
qed

lemma triple_etry [triples]:
  assumes "triple P m (\<lambda>x. Q (Inr x)) (\<lambda>e. Q (Inl e))"
  shows "triple P (etry m) Q E"
proof (rule tripleI)
  fix w x w'
  assume P: "P w" and "etry m w = (Inr x, w')"
  then have "m w = (x, w')" by (auto simp: etry_def split: prod.splits)
  then show "Q x w'" using tripleD [OF assms P] by (cases x) auto
qed (auto simp: etry_def split: prod.splits)

lemma triple_emap_err [triples]:
  assumes "triple P m Q (\<lambda>e. E (f e))"
  shows "triple P (emap_err f m) Q E"
proof (rule tripleI)
  fix w x w'
  assume P: "P w" and "emap_err f m w = (Inr x, w')"
  then have "m w = (Inr x, w')" by (auto simp: emap_err_def map_sum_def split: prod.splits sum.splits)
  then show "Q x w'" using tripleD [OF assms P] by blast
next
  fix w e w'
  assume P: "P w" and "emap_err f m w = (Inl e, w')"
  then obtain d where "m w = (Inl d, w')" "e = f d"
    by (cases "m w"; cases "fst (m w)") (auto simp: emap_err_def)
  then show "E e w'" using tripleD [OF assms P] by blast
qed

lemma triple_if [triples]:
  "(b \<Longrightarrow> triple P m Q E) \<Longrightarrow> (\<not> b \<Longrightarrow> triple P m' Q E) \<Longrightarrow> triple P (if b then m else m') Q E"
  by simp

lemma triple_pre: "(\<And>w. P w \<Longrightarrow> b) \<Longrightarrow> (b \<Longrightarrow> triple P m Q E) \<Longrightarrow> triple P m Q E"
  by (fastforce simp: triple_def)

lemma triple_case_option:
  "(x = None \<Longrightarrow> triple P m Q E) \<Longrightarrow> (\<And>y. x = Some y \<Longrightarrow> triple P (f y) Q E) \<Longrightarrow>
   triple P (case x of None \<Rightarrow> m | Some y \<Rightarrow> f y) Q E"
  by (cases x) simp_all

lemma triple_conj_drop: "triple P m Q E \<Longrightarrow> triple (\<lambda>w. P w \<and> R w) m Q E"
  by (fastforce simp: triple_def)

lemma triple_conj_pre: "(b \<Longrightarrow> triple P m Q E) \<Longrightarrow> triple (\<lambda>w. P w \<and> b) m Q E"
  by (fastforce simp: triple_def)

lemma triple_any: "triple P m (\<lambda>_ _. True) (\<lambda>_ _. True)"
  by (simp add: triple_def split: sum.split)

lemma triple_known: "triple P (eres r) (\<lambda>x _. r = Inr x) (\<lambda>_ _. True)"
  by (simp add: triple_def split: sum.split)

lemma triple_pure_pre: "(b \<Longrightarrow> triple (\<lambda>_. True) m Q E) \<Longrightarrow> triple (\<lambda>_. b) m Q E"
  by (simp add: triple_def)

end
