(* ===== verification/Crosschain_Types.thy ===== *)
theory Crosschain_Types
  imports Effects Ledger_Engine
begin

text \<open>
  The values the chain-local services and the cross-chain coordinator share
  (core/src/primitives/crosschain.rs): quotes, execution plans, the capital hold
  (\<open>Preparation\<close>) and the saga record, with their transition functions, and the answers and errors of
  the ports (core/src/deps/crosschain).

  A \<open>&mut self\<close> method that can fail returns the error or the changed value; on an error the code
  leaves the value as it was.
\<close>

type_synonym order_id = b256
type_synonym aggregate_quote_id = b256
type_synonym prepare_token = b256
type_synonym step_id = b256
type_synonym bytes = "nat list"

section \<open>Routes, commands and plans\<close>

datatype cross_chain_route = Direct | Cctp

datatype remote_command = Deliver | DispatchFillProof | ClaimOrigin | DispatchRepayment | CloseDestination

fun command_byte :: "remote_command \<Rightarrow> nat" where
  "command_byte Deliver = 0"
| "command_byte DispatchFillProof = 1"
| "command_byte ClaimOrigin = 2"
| "command_byte DispatchRepayment = 3"
| "command_byte CloseDestination = 4"

text \<open>The derived order of the commands is the order of their discriminants.\<close>

instantiation remote_command :: linorder
begin

definition less_eq_remote_command :: "remote_command \<Rightarrow> remote_command \<Rightarrow> bool" where
  "less_eq_remote_command a b \<longleftrightarrow> command_byte a \<le> command_byte b"

definition less_remote_command :: "remote_command \<Rightarrow> remote_command \<Rightarrow> bool" where
  "less_remote_command a b \<longleftrightarrow> command_byte a < command_byte b"

instance
proof
  fix a b :: remote_command
  show "a \<le> b \<Longrightarrow> b \<le> a \<Longrightarrow> a = b"
    by (cases a; cases b) (simp_all add: less_eq_remote_command_def)
qed (auto simp: less_eq_remote_command_def less_remote_command_def)

end

datatype leg_role = Origin | Destination

record prepared_step =
  st_command :: remote_command
  st_target :: address
  st_value :: u256
  st_calldata :: bytes

record chain_execution_plan =
  pl_aggregate_id :: aggregate_quote_id
  pl_chain_id :: chain_id
  pl_steps :: "prepared_step list"

section \<open>Quotes\<close>

record leg_quote_request =
  lq_request_id :: b256
  lq_role :: leg_role
  lq_local_chain :: chain_id
  lq_remote_chain :: chain_id
  lq_input_token :: address
  lq_output_token :: address
  lq_amount :: u256
  lq_deadline :: u64
  lq_route :: cross_chain_route

record leg_quote =
  qt_quote_id :: b256
  qt_request_id :: b256
  qt_role :: leg_role
  qt_local_chain :: chain_id
  qt_remote_chain :: chain_id
  qt_input_token :: address
  qt_output_token :: address
  qt_amount_in :: u256
  qt_amount_out :: u256
  qt_route :: cross_chain_route
  qt_block_number :: u64
  qt_expires_at :: u64
  qt_sources :: "reservation_source list"

record aggregate_quote =
  ag_id :: aggregate_quote_id
  ag_origin :: leg_quote
  ag_destination :: leg_quote
  ag_amount_in :: u256
  ag_amount_out :: u256
  ag_bridge_fee :: u256
  ag_cctp_finality_threshold :: "nat option"
  ag_expires_at :: u64

record step_validation_context =
  cx_order_id :: order_id
  cx_quote :: aggregate_quote
  cx_role :: leg_role

definition local_quote :: "step_validation_context \<Rightarrow> leg_quote" where
  "local_quote c = (case cx_role c of Origin \<Rightarrow> ag_origin (cx_quote c)
                                    | Destination \<Rightarrow> ag_destination (cx_quote c))"

section \<open>Direct-route authorization\<close>

record direct_settlement_order =
  dso_user :: address
  dso_nonce :: u256
  dso_origin_chain_id :: u64
  dso_origin_settler :: address
  dso_compact :: address
  dso_compact_id :: u256
  dso_compact_expires :: u64
  dso_input_token :: address
  dso_input_amount :: u256
  dso_destination_chain_id :: u64
  dso_output_token :: address
  dso_minimum_output_amount :: u256
  dso_recipient :: address
  dso_destination_settler :: address
  dso_fill_proof_verifier :: address
  dso_exclusive_filler :: address
  dso_exclusivity_ends :: u64
  dso_fill_deadline :: u64
  dso_route_kind :: nat

record direct_settlement_mandate =
  sm_order_id :: b256
  sm_destination_chain_id :: u64
  sm_destination_settler :: address
  sm_fill_proof_verifier :: address
  sm_output_token :: address
  sm_minimum_output_amount :: u256
  sm_recipient :: address
  sm_fill_deadline :: u64
  sm_exclusive_filler :: address
  sm_route_kind :: nat

record compact_claim_authorization =
  ca_sponsor_signature :: bytes
  ca_sponsor :: address
  ca_nonce :: u256
  ca_expires :: u64
  ca_witness :: b256
  ca_witness_typestring :: string
  ca_id :: u256
  ca_allocated_amount :: u256
  ca_claimant :: address
  ca_claimant_amount :: u256

record direct_order_authorization =
  da_quote :: aggregate_quote
  da_order_id :: order_id
  da_order :: direct_settlement_order
  da_mandate :: direct_settlement_mandate
  da_compact_claim :: compact_claim_authorization

record direct_execution_plans =
  dp_origin :: chain_execution_plan
  dp_destination :: chain_execution_plan

section \<open>Preparations\<close>

datatype preparation_state = PsPrepared | PsCommitted | PsExecuted | PsReleased

record preparation =
  pp_token :: prepare_token
  pp_quote_id :: aggregate_quote_id
  pp_role :: leg_role
  pp_chain_id :: chain_id
  pp_state :: preparation_state
  pp_expires_at :: u64

datatype saga_state =
    SsQuoted | SsPreparing | SsPrepared | SsDestinationPending | SsDestinationFinalized
  | SsFillProofPending | SsOriginPending | SsOriginFinalized | SsRepaymentPending | SsComplete
  | SsFailedBeforeDelivery | SsNeedsReconcile

datatype invariant_error =
    PreparationTransition preparation_state preparation_state
  | SagaTransition saga_state saga_state

definition preparation_commit :: "preparation \<Rightarrow> invariant_error + preparation" where
  "preparation_commit p =
     (if pp_state p \<in> {PsPrepared, PsCommitted} then Inr (p\<lparr>pp_state := PsCommitted\<rparr>)
      else Inl (PreparationTransition (pp_state p) PsCommitted))"

definition preparation_execute :: "preparation \<Rightarrow> invariant_error + preparation" where
  "preparation_execute p =
     (if pp_state p \<in> {PsCommitted, PsExecuted} then Inr (p\<lparr>pp_state := PsExecuted\<rparr>)
      else Inl (PreparationTransition (pp_state p) PsExecuted))"

definition preparation_release :: "preparation \<Rightarrow> invariant_error + preparation" where
  "preparation_release p =
     (if pp_state p \<in> {PsPrepared, PsCommitted, PsReleased} then Inr (p\<lparr>pp_state := PsReleased\<rparr>)
      else Inl (PreparationTransition (pp_state p) PsReleased))"

section \<open>The saga\<close>

datatype lifecycle_stage = LcQuoted | LcDestinationFill | LcProofRelay | LcOriginClaim | LcRepayment | LcComplete

record lifecycle_event =
  le_stage :: lifecycle_stage
  le_at :: u64

definition permits :: "saga_state \<Rightarrow> saga_state \<Rightarrow> bool" where
  "permits s next \<longleftrightarrow>
     (case s of
        SsQuoted \<Rightarrow> next = SsPreparing
      | SsPreparing \<Rightarrow> next \<in> {SsPrepared, SsFailedBeforeDelivery}
      | SsPrepared \<Rightarrow> next \<in> {SsDestinationPending, SsFailedBeforeDelivery}
      | SsDestinationPending \<Rightarrow> next \<in> {SsDestinationFinalized, SsFailedBeforeDelivery, SsNeedsReconcile}
      | SsDestinationFinalized \<Rightarrow> next \<in> {SsFillProofPending, SsNeedsReconcile}
      | SsFillProofPending \<Rightarrow> next \<in> {SsOriginPending, SsNeedsReconcile}
      | SsOriginPending \<Rightarrow> next \<in> {SsOriginFinalized, SsNeedsReconcile}
      | SsOriginFinalized \<Rightarrow> next \<in> {SsRepaymentPending, SsComplete, SsNeedsReconcile}
      | SsRepaymentPending \<Rightarrow> next \<in> {SsComplete, SsNeedsReconcile}
      | SsNeedsReconcile \<Rightarrow>
          next \<in> {SsDestinationPending, SsFillProofPending, SsOriginPending, SsRepaymentPending, SsComplete}
      | _ \<Rightarrow> False)
     \<or> s = next"

record step_evidence =
  ev_command_id :: step_id
  ev_transaction_hash :: "b256 option"
  ev_block_number :: "u64 option"
  ev_message_id :: "b256 option"

record saga =
  sg_order_id :: order_id
  sg_taker :: "address option"
  sg_quote :: aggregate_quote
  sg_state :: saga_state
  sg_lifecycle :: "lifecycle_event list"
  sg_origin_prepare :: "prepare_token option"
  sg_destination_prepare :: "prepare_token option"
  sg_destination :: "step_evidence option"
  sg_fill_proof :: "step_evidence option"
  sg_origin :: "step_evidence option"
  sg_repayment :: "step_evidence option"
  sg_failure :: "string option"

definition saga_transition :: "saga \<Rightarrow> saga_state \<Rightarrow> invariant_error + saga" where
  "saga_transition g next =
     (if \<not> permits (sg_state g) next then Inl (SagaTransition (sg_state g) next)
      else Inr (g\<lparr>sg_state := next\<rparr>))"

definition record_lifecycle :: "lifecycle_stage \<Rightarrow> u64 \<Rightarrow> saga \<Rightarrow> saga" where
  "record_lifecycle stage t g =
     (if list_all (\<lambda>event. le_stage event \<noteq> stage) (sg_lifecycle g)
      then g\<lparr>sg_lifecycle := sg_lifecycle g @ [\<lparr>le_stage = stage, le_at = t\<rparr>]\<rparr>
      else g)"

section \<open>Answers and errors of the ports\<close>

datatype remote_progress = PrPending | PrFinalized step_evidence | PrFailed string

datatype remote_error = Unavailable string | Rejected string | InvalidResponse string

datatype cctp_error = CctpPending | CctpRateLimited "u64 option" | CctpTransport string | CctpInvalid string

record cctp_prepared_step =
  cp_step :: prepared_step
  cp_message_id :: b256

record cctp_quote_terms =
  ct_max_fee :: u256
  ct_finality_threshold :: nat

datatype saga_store_error = SagaBackend string | SagaConflict

datatype xc_error =
    InvalidCrossChain string
  | RemoteSolvent remote_error
  | SagaStore saga_store_error
  | CctpCompletion cctp_error

text \<open>The \<open>Display\<close> texts the code stores in a saga's failure field.\<close>

fun remote_error_text :: "remote_error \<Rightarrow> string" where
  "remote_error_text (Unavailable m) = ''remote Solvent unavailable: '' @ m"
| "remote_error_text (Rejected m) = ''remote Solvent rejected request: '' @ m"
| "remote_error_text (InvalidResponse m) = ''remote Solvent returned an invalid response: '' @ m"

fun preparation_state_debug :: "preparation_state \<Rightarrow> string" where
  "preparation_state_debug PsPrepared = ''Prepared''"
| "preparation_state_debug PsCommitted = ''Committed''"
| "preparation_state_debug PsExecuted = ''Executed''"
| "preparation_state_debug PsReleased = ''Released''"

fun saga_state_debug :: "saga_state \<Rightarrow> string" where
  "saga_state_debug SsQuoted = ''Quoted''"
| "saga_state_debug SsPreparing = ''Preparing''"
| "saga_state_debug SsPrepared = ''Prepared''"
| "saga_state_debug SsDestinationPending = ''DestinationPending''"
| "saga_state_debug SsDestinationFinalized = ''DestinationFinalized''"
| "saga_state_debug SsFillProofPending = ''FillProofPending''"
| "saga_state_debug SsOriginPending = ''OriginPending''"
| "saga_state_debug SsOriginFinalized = ''OriginFinalized''"
| "saga_state_debug SsRepaymentPending = ''RepaymentPending''"
| "saga_state_debug SsComplete = ''Complete''"
| "saga_state_debug SsFailedBeforeDelivery = ''FailedBeforeDelivery''"
| "saga_state_debug SsNeedsReconcile = ''NeedsReconcile''"

fun invariant_error_text :: "invariant_error \<Rightarrow> string" where
  "invariant_error_text (PreparationTransition f t) =
     ''invalid preparation transition from '' @ preparation_state_debug f @ '' to '' @ preparation_state_debug t"
| "invariant_error_text (SagaTransition f t) =
     ''invalid saga transition from '' @ saga_state_debug f @ '' to '' @ saga_state_debug t"

fun decimal :: "nat \<Rightarrow> string" where
  "decimal n = (if n < 10 then [char_of (48 + n)] else decimal (n div 10) @ [char_of (48 + n mod 10)])"

declare decimal.simps [simp del]

fun cctp_error_text :: "cctp_error \<Rightarrow> string" where
  "cctp_error_text CctpPending = ''CCTP attestation is not ready''"
| "cctp_error_text (CctpRateLimited secs) = ''CCTP attestation rate limited; retry after '' @
     (case secs of None \<Rightarrow> ''None'' | Some n \<Rightarrow> ''Some('' @ decimal n @ '')'') @ '' seconds''"
| "cctp_error_text (CctpTransport m) = ''CCTP completion transport: '' @ m"
| "cctp_error_text (CctpInvalid m) = ''invalid CCTP completion: '' @ m"

fun xc_error_text :: "xc_error \<Rightarrow> string" where
  "xc_error_text (InvalidCrossChain m) = ''invalid cross-chain request: '' @ m"
| "xc_error_text (RemoteSolvent e) = ''remote Solvent: '' @ remote_error_text e"
| "xc_error_text (SagaStore e) = ''cross-chain saga store: '' @
     (case e of SagaBackend m \<Rightarrow> ''cross-chain saga store backend: '' @ m
              | SagaConflict \<Rightarrow> ''cross-chain order conflicts with an existing saga'')"
| "xc_error_text (CctpCompletion e) = ''CCTP completion: '' @ cctp_error_text e"

declare remote_error_text.simps [simp del] invariant_error_text.simps [simp del]
  cctp_error_text.simps [simp del] xc_error_text.simps [simp del]

section \<open>The preparation state machine\<close>

lemma preparation_commit_ok:
  "preparation_commit p = Inr p' \<Longrightarrow> p' = p\<lparr>pp_state := PsCommitted\<rparr> \<and> pp_state p \<in> {PsPrepared, PsCommitted}"
  by (auto simp: preparation_commit_def split: if_splits)

lemma preparation_execute_ok:
  "preparation_execute p = Inr p' \<Longrightarrow> p' = p\<lparr>pp_state := PsExecuted\<rparr> \<and> pp_state p \<in> {PsCommitted, PsExecuted}"
  by (auto simp: preparation_execute_def split: if_splits)

lemma preparation_release_ok:
  "preparation_release p = Inr p' \<Longrightarrow>
   p' = p\<lparr>pp_state := PsReleased\<rparr> \<and> pp_state p \<in> {PsPrepared, PsCommitted, PsReleased}"
  by (auto simp: preparation_release_def split: if_splits)

end
