(* ===== verification/Crosschain_Quotes.thy ===== *)
theory Crosschain_Quotes
  imports Crosschain_Types "HOL-Library.Multiset"
begin

text \<open>
  Quote identities and admission checks of the cross-chain coordinator: the fingerprints of
  core/src/crosschain/fingerprint.rs and the pure functions of core/src/crosschain/proxy.rs
  (\<open>aggregate_quote\<close>, \<open>aggregate_id\<close>, \<open>validate_aggregate_binding\<close>, \<open>validate_plan\<close>, \<open>step_id\<close>).

  Keccak-256 is a parameter from byte strings to 256-bit values; nothing is assumed of it. The
  binding theorems say which two concrete byte strings would have to collide.
\<close>

type_synonym keccak = "bytes \<Rightarrow> b256"

section \<open>Byte encodings\<close>

text \<open>\<open>to_be_bytes\<close> and \<open>as_slice\<close>: the \<open>w\<close> big-endian bytes of a number.\<close>

fun be_bytes :: "nat \<Rightarrow> nat \<Rightarrow> bytes" where
  "be_bytes 0 n = []"
| "be_bytes (Suc w) n = be_bytes w (n div 256) @ [n mod 256]"

fun role_byte :: "leg_role \<Rightarrow> nat" where
  "role_byte Origin = 0"
| "role_byte Destination = 1"

fun route_byte :: "cross_chain_route \<Rightarrow> nat" where
  "route_byte Direct = 0"
| "route_byte Cctp = 1"

definition source_bytes :: "reservation_source \<Rightarrow> bytes" where
  "source_bytes s =
     be_bytes 20 (rs_maker s) @ be_bytes 32 (rs_hash s) @ be_bytes 20 (rs_token s) @
     be_bytes 32 (rs_amount s)"

definition leg_quote_bytes :: "leg_quote \<Rightarrow> bytes" where
  "leg_quote_bytes q =
     be_bytes 32 (qt_request_id q) @ [role_byte (qt_role q)] @
     be_bytes 8 (qt_local_chain q) @ be_bytes 8 (qt_remote_chain q) @
     be_bytes 20 (qt_input_token q) @ be_bytes 20 (qt_output_token q) @
     be_bytes 32 (qt_amount_in q) @ be_bytes 32 (qt_amount_out q) @
     [route_byte (qt_route q)] @
     be_bytes 8 (qt_block_number q) @ be_bytes 8 (qt_expires_at q) @
     be_bytes 8 (length (qt_sources q)) @ concat (map source_bytes (qt_sources q))"

definition leg_quote_id :: "keccak \<Rightarrow> leg_quote \<Rightarrow> b256" where
  "leg_quote_id keccak256 q = keccak256 (leg_quote_bytes q)"

definition aggregate_bytes :: "leg_quote \<Rightarrow> leg_quote \<Rightarrow> u256 \<Rightarrow> nat option \<Rightarrow> bytes" where
  "aggregate_bytes origin destination bridge_fee threshold =
     be_bytes 32 (qt_quote_id origin) @ be_bytes 32 (qt_quote_id destination) @
     be_bytes 32 bridge_fee @ be_bytes 4 (unwrap_or 0 threshold)"

definition aggregate_id :: "keccak \<Rightarrow> leg_quote \<Rightarrow> leg_quote \<Rightarrow> u256 \<Rightarrow> nat option \<Rightarrow> aggregate_quote_id" where
  "aggregate_id keccak256 origin destination bridge_fee threshold =
     keccak256 (aggregate_bytes origin destination bridge_fee threshold)"

definition step_bytes :: "order_id \<Rightarrow> chain_id \<Rightarrow> remote_command \<Rightarrow> bytes" where
  "step_bytes order chain command = be_bytes 32 order @ be_bytes 8 chain @ [command_byte command]"

definition step_id_of :: "keccak \<Rightarrow> order_id \<Rightarrow> chain_id \<Rightarrow> remote_command \<Rightarrow> step_id" where
  "step_id_of keccak256 order chain command = keccak256 (step_bytes order chain command)"

section \<open>Assembling and admitting an aggregate quote\<close>

definition aggregate_quote_of ::
  "keccak \<Rightarrow> leg_quote \<Rightarrow> leg_quote \<Rightarrow> u64 \<Rightarrow> xc_error + aggregate_quote" where
  "aggregate_quote_of keccak256 origin destination now_unix =
     (let compatible =
            qt_quote_id origin = leg_quote_id keccak256 origin \<and>
            qt_quote_id destination = leg_quote_id keccak256 destination \<and>
            qt_role origin = Origin \<and> qt_role destination = Destination \<and>
            qt_local_chain origin \<noteq> qt_local_chain destination \<and>
            qt_local_chain origin = qt_remote_chain destination \<and>
            qt_remote_chain origin = qt_local_chain destination \<and>
            qt_request_id origin = qt_request_id destination \<and>
            qt_route origin = qt_route destination \<and>
            qt_amount_in origin \<noteq> 0 \<and> qt_amount_out origin \<noteq> 0 \<and>
            qt_amount_in destination \<noteq> 0 \<and> qt_amount_out destination \<noteq> 0 \<and>
            (qt_route origin \<noteq> Cctp \<or> qt_amount_out origin \<ge> qt_amount_in destination)
      in if \<not> compatible
         then Inl (InvalidCrossChain ''origin and destination quotes are incompatible'')
         else
           let expires_at = min (qt_expires_at origin) (qt_expires_at destination)
           in if expires_at \<le> now_unix then Inl (InvalidCrossChain ''aggregate quote has expired'')
              else Inr \<lparr>ag_id = aggregate_id keccak256 origin destination 0 None,
                        ag_origin = origin, ag_destination = destination,
                        ag_amount_in = qt_amount_in origin, ag_amount_out = qt_amount_out destination,
                        ag_bridge_fee = 0, ag_cctp_finality_threshold = None,
                        ag_expires_at = expires_at\<rparr>)"

definition binding_compatible :: "keccak \<Rightarrow> aggregate_quote \<Rightarrow> bool" where
  "binding_compatible keccak256 q \<longleftrightarrow>
     ag_id q = aggregate_id keccak256 (ag_origin q) (ag_destination q) (ag_bridge_fee q)
                 (ag_cctp_finality_threshold q) \<and>
     qt_quote_id (ag_origin q) = leg_quote_id keccak256 (ag_origin q) \<and>
     qt_quote_id (ag_destination q) = leg_quote_id keccak256 (ag_destination q) \<and>
     qt_role (ag_origin q) = Origin \<and> qt_role (ag_destination q) = Destination \<and>
     qt_local_chain (ag_origin q) \<noteq> qt_local_chain (ag_destination q) \<and>
     qt_local_chain (ag_origin q) = qt_remote_chain (ag_destination q) \<and>
     qt_remote_chain (ag_origin q) = qt_local_chain (ag_destination q) \<and>
     qt_request_id (ag_origin q) = qt_request_id (ag_destination q) \<and>
     qt_route (ag_origin q) = qt_route (ag_destination q) \<and>
     ag_amount_in q = qt_amount_in (ag_origin q) \<and>
     ag_amount_out q = qt_amount_out (ag_destination q) \<and>
     ag_expires_at q = min (qt_expires_at (ag_origin q)) (qt_expires_at (ag_destination q)) \<and>
     ag_amount_in q \<noteq> 0 \<and> ag_amount_out q \<noteq> 0"

definition validate_aggregate_binding :: "keccak \<Rightarrow> aggregate_quote \<Rightarrow> u64 \<Rightarrow> xc_error + unit" where
  "validate_aggregate_binding keccak256 q now_unix =
     (if \<not> binding_compatible keccak256 q
      then Inl (InvalidCrossChain ''aggregate quote context is inconsistent'')
      else
        rbind
          (case qt_route (ag_origin q) of
             Direct \<Rightarrow>
               if ag_bridge_fee q \<noteq> 0 \<or> ag_cctp_finality_threshold q \<noteq> None
               then Inl (InvalidCrossChain ''direct quote contains CCTP terms'') else Inr ()
           | Cctp \<Rightarrow>
               rbind (ok_or (InvalidCrossChain ''CCTP repayment plus fee exceeds uint256'')
                        (checked_add (qt_amount_in (ag_destination q)) (ag_bridge_fee q))) (\<lambda>required.
               if ag_cctp_finality_threshold q = None \<or> qt_amount_out (ag_origin q) < required
               then Inl (InvalidCrossChain ''CCTP aggregate terms are inconsistent'') else Inr ()))
          (\<lambda>_. if ag_expires_at q \<le> now_unix
                then Inl (InvalidCrossChain ''aggregate quote expired before order admission'')
                else Inr ()))"

section \<open>Execution plans\<close>

fun expected_commands :: "cross_chain_route \<Rightarrow> leg_role \<Rightarrow> remote_command list" where
  "expected_commands Direct Origin = [ClaimOrigin, DispatchRepayment]"
| "expected_commands Direct Destination = [Deliver, DispatchFillProof, CloseDestination]"
| "expected_commands Cctp Origin = [ClaimOrigin]"
| "expected_commands Cctp Destination = [Deliver, DispatchFillProof]"

definition validate_plan :: "aggregate_quote \<Rightarrow> chain_execution_plan \<Rightarrow> leg_role \<Rightarrow> xc_error + unit" where
  "validate_plan q plan role =
     (let chain = (case role of Origin \<Rightarrow> qt_local_chain (ag_origin q)
                              | Destination \<Rightarrow> qt_local_chain (ag_destination q))
      in if pl_aggregate_id plan \<noteq> ag_id q \<or> pl_chain_id plan \<noteq> chain \<or> pl_steps plan = []
         then Inl (InvalidCrossChain ''execution plan does not match the aggregate quote'')
         else
           let actual = bs_of_list (map st_command (pl_steps plan));
               expected = bs_of_list (expected_commands (qt_route (ag_origin q)) role)
           in if actual \<noteq> expected \<or> length actual \<noteq> length (pl_steps plan)
              then Inl (InvalidCrossChain
                     ''execution plan has the wrong commands for its route and chain role'')
              else Inr ())"

section \<open>The encodings are injective\<close>

lemma be_bytes_length [simp]: "length (be_bytes w n) = w"
  by (induction w arbitrary: n) auto

lemma be_bytes_inj:
  assumes "be_bytes w m = be_bytes w n" and "m < 256 ^ w" and "n < 256 ^ w"
  shows "m = n"
  using assms
proof (induction w arbitrary: m n)
  case (Suc w)
  have "m div 256 < 256 ^ w" "n div 256 < 256 ^ w"
    using Suc.prems(2,3) by (simp_all add: less_mult_imp_div_less mult.commute)
  moreover have "be_bytes w (m div 256) = be_bytes w (n div 256)" "m mod 256 = n mod 256"
    using Suc.prems(1) by auto
  ultimately have "m div 256 = n div 256" "m mod 256 = n mod 256" using Suc.IH by blast+
  then show ?case by (metis div_mult_mod_eq)
qed simp

lemma be_bytes_append:
  assumes "be_bytes w m @ xs = be_bytes w n @ ys" and "m < 256 ^ w" and "n < 256 ^ w"
  shows "m = n \<and> xs = ys"
  using assms be_bytes_inj [of w m n] by simp

lemma role_byte_inj [simp]: "role_byte a = role_byte b \<longleftrightarrow> a = b"
  by (cases a; cases b) auto

lemma route_byte_inj [simp]: "route_byte a = route_byte b \<longleftrightarrow> a = b"
  by (cases a; cases b) auto

lemma command_byte_inj [simp]: "command_byte a = command_byte b \<longleftrightarrow> a = b"
  by (cases a; cases b) auto

text \<open>Field values of the widths the Rust types have.\<close>

definition source_fits :: "reservation_source \<Rightarrow> bool" where
  "source_fits s \<longleftrightarrow> rs_maker s < 256 ^ 20 \<and> rs_hash s < 256 ^ 32 \<and> rs_token s < 256 ^ 20 \<and>
     rs_amount s < 256 ^ 32"

definition leg_fits :: "leg_quote \<Rightarrow> bool" where
  "leg_fits q \<longleftrightarrow> qt_quote_id q < 256 ^ 32 \<and> qt_request_id q < 256 ^ 32 \<and> qt_local_chain q < 256 ^ 8 \<and>
     qt_remote_chain q < 256 ^ 8 \<and> qt_input_token q < 256 ^ 20 \<and> qt_output_token q < 256 ^ 20 \<and>
     qt_amount_in q < 256 ^ 32 \<and> qt_amount_out q < 256 ^ 32 \<and> qt_block_number q < 256 ^ 8 \<and>
     qt_expires_at q < 256 ^ 8 \<and> length (qt_sources q) < 256 ^ 8 \<and> (\<forall>s \<in> set (qt_sources q). source_fits s)"

definition aggregate_fits :: "aggregate_quote \<Rightarrow> bool" where
  "aggregate_fits q \<longleftrightarrow> leg_fits (ag_origin q) \<and> leg_fits (ag_destination q) \<and>
     ag_bridge_fee q < 256 ^ 32 \<and> unwrap_or 0 (ag_cctp_finality_threshold q) < 256 ^ 4"

lemma source_bytes_length [simp]: "length (source_bytes s) = 104"
  by (simp add: source_bytes_def)

text \<open>A sequence of fixed-width fields followed by a rest.\<close>

definition fields_bytes :: "(nat \<times> nat) list \<Rightarrow> bytes" where
  "fields_bytes fs = concat (map (\<lambda>(w, n). be_bytes w n) fs)"

lemma fields_bytes_simps [simp]:
  "fields_bytes [] = []"
  "fields_bytes ((w, n) # fs) = be_bytes w n @ fields_bytes fs"
  by (simp_all add: fields_bytes_def)

lemma fields_bytes_inj:
  assumes "fields_bytes fs @ xs = fields_bytes gs @ ys" and "map fst fs = map fst gs"
    and "list_all (\<lambda>(w, n). n < 256 ^ w) fs" and "list_all (\<lambda>(w, n). n < 256 ^ w) gs"
  shows "fs = gs \<and> xs = ys"
  using assms
proof (induction fs arbitrary: gs)
  case (Cons f fs)
  obtain w n where f: "f = (w, n)" by (cases f)
  then obtain m gs' where g: "gs = (w, m) # gs'" using Cons.prems(2) by (cases gs) auto
  have eq: "be_bytes w n @ (fields_bytes fs @ xs) = be_bytes w m @ (fields_bytes gs' @ ys)"
    using Cons.prems(1) by (simp only: f g fields_bytes_simps append_assoc)
  have fit: "n < 256 ^ w" "m < 256 ^ w" using Cons.prems(3,4) by (simp_all add: f g)
  note be_bytes_append [OF eq fit]
  moreover have "fs = gs' \<and> xs = ys"
    using calculation Cons.prems(2-4) by (intro Cons.IH) (simp_all add: f g)
  ultimately show ?case by (simp add: f g)
qed simp

lemma be_bytes_1: "b < 256 \<Longrightarrow> be_bytes (Suc 0) b = [b]"
  by simp

lemma small_bytes [simp]: "role_byte r < 256" "route_byte t < 256" "command_byte c < 256"
  by (cases r, simp_all) (cases t, simp_all, cases c, simp_all)

lemma source_bytes_inj:
  assumes "source_bytes s = source_bytes t" and "source_fits s" "source_fits t"
  shows "s = t"
proof -
  let ?fs = "\<lambda>s. [(20, rs_maker s), (32, rs_hash s), (20, rs_token s), (32, rs_amount s)]"
  have "fields_bytes (?fs s) @ [] = fields_bytes (?fs t) @ []"
    using assms(1) by (simp only: source_bytes_def fields_bytes_simps append_assoc append_Nil2)
  from fields_bytes_inj [OF this] assms(2,3) show ?thesis by (simp add: source_fits_def)
qed

lemma sources_bytes_inj:
  assumes "concat (map source_bytes ss) = concat (map source_bytes ts)" and "length ss = length ts"
    and "\<forall>s \<in> set ss. source_fits s" and "\<forall>t \<in> set ts. source_fits t"
  shows "ss = ts"
  using assms(2,1,3,4)
proof (induction ss ts rule: list_induct2)
  case (Cons s ss t ts)
  have eqs: "source_bytes s = source_bytes t" "concat (map source_bytes ss) = concat (map source_bytes ts)"
    using Cons.prems(1) by simp_all
  have "s = t" by (rule source_bytes_inj [OF eqs(1)]) (use Cons.prems(2,3) in simp_all)
  moreover have "ss = ts" by (rule Cons.IH [OF eqs(2)]) (use Cons.prems(2,3) in simp_all)
  ultimately show ?case by simp
qed simp

lemma leg_quote_bytes_inj:
  assumes eq: "leg_quote_bytes q = leg_quote_bytes r" and fits: "leg_fits q" "leg_fits r"
    and id: "qt_quote_id q = qt_quote_id r"
  shows "q = r"
proof -
  let ?fs = "\<lambda>q. [(32, qt_request_id q), (1, role_byte (qt_role q)), (8, qt_local_chain q), (8, qt_remote_chain q),
      (20, qt_input_token q), (20, qt_output_token q), (32, qt_amount_in q), (32, qt_amount_out q),
      (1, route_byte (qt_route q)), (8, qt_block_number q), (8, qt_expires_at q), (8, length (qt_sources q))]"
  have enc: "leg_quote_bytes q = fields_bytes (?fs q) @ concat (map source_bytes (qt_sources q))" for q
    by (simp add: leg_quote_bytes_def be_bytes_1 del: be_bytes.simps)
  have "?fs q = ?fs r \<and> concat (map source_bytes (qt_sources q)) = concat (map source_bytes (qt_sources r))"
    using fields_bytes_inj [OF eq [unfolded enc]] fits by (simp add: leg_fits_def)
  moreover from this have "qt_sources q = qt_sources r"
    using fits by (intro sources_bytes_inj) (auto simp: leg_fits_def)
  ultimately show ?thesis using id by simp
qed

lemma aggregate_bytes_inj:
  assumes eq: "aggregate_bytes a b f t = aggregate_bytes a' b' f' t'"
    and "leg_fits a" "leg_fits b" "leg_fits a'" "leg_fits b'" "f < 256 ^ 32" "f' < 256 ^ 32"
      "unwrap_or 0 t < 256 ^ 4" "unwrap_or 0 t' < 256 ^ 4"
  shows "qt_quote_id a = qt_quote_id a' \<and> qt_quote_id b = qt_quote_id b' \<and> f = f' \<and> unwrap_or 0 t = unwrap_or 0 t'"
proof -
  let ?fs = "\<lambda>a b f t. [(32, qt_quote_id a), (32, qt_quote_id b), (32, f), (4, unwrap_or 0 t)]"
  have "fields_bytes (?fs a b f t) @ [] = fields_bytes (?fs a' b' f' t') @ []"
    using eq by (simp only: aggregate_bytes_def fields_bytes_simps append_assoc append_Nil2)
  from fields_bytes_inj [OF this] assms(2-) show ?thesis by (simp add: leg_fits_def)
qed

section \<open>Properties\<close>

lemma validate_bindingD:
  assumes "validate_aggregate_binding k q now = Inr ()"
  shows "binding_compatible k q" and "now < ag_expires_at q"
    and "qt_route (ag_origin q) = Direct \<Longrightarrow> ag_bridge_fee q = 0 \<and> ag_cctp_finality_threshold q = None"
    and "qt_route (ag_origin q) = Cctp \<Longrightarrow> ag_cctp_finality_threshold q \<noteq> None \<and>
           qt_amount_in (ag_destination q) + ag_bridge_fee q \<le> qt_amount_out (ag_origin q)"
  using assms
  by (auto simp: validate_aggregate_binding_def rbind_Inr split: if_splits cross_chain_route.splits)

definition preimages :: "aggregate_quote \<Rightarrow> bytes set" where
  "preimages q = {leg_quote_bytes (ag_origin q), leg_quote_bytes (ag_destination q),
     aggregate_bytes (ag_origin q) (ag_destination q) (ag_bridge_fee q) (ag_cctp_finality_threshold q)}"

text \<open>
  C38. An admitted aggregate quote is fixed by its id: two admitted quotes with the same id, with field
  values of the declared widths, are equal in every field (both legs with all their capital sources, the
  amounts, the bridge fee and the CCTP threshold), unless Keccak-256 collides on two of the six byte
  strings hashed for them.
\<close>

theorem aggregate_id_binds_quote:
  assumes "validate_aggregate_binding k q now = Inr ()" and "validate_aggregate_binding k q' now' = Inr ()"
    and "aggregate_fits q" and "aggregate_fits q'" and "ag_id q = ag_id q'"
  shows "q = q' \<or> (\<exists>x \<in> preimages q. \<exists>y \<in> preimages q'. x \<noteq> y \<and> k x = k y)"
proof (rule disjCI)
  assume no: "\<not> (\<exists>x \<in> preimages q. \<exists>y \<in> preimages q'. x \<noteq> y \<and> k x = k y)"
  note v = validate_bindingD [OF assms(1)] and v' = validate_bindingD [OF assms(2)]
  note c = v(1) [unfolded binding_compatible_def] and c' = v'(1) [unfolded binding_compatible_def]
  note fits = assms(3,4) [unfolded aggregate_fits_def]
  have "aggregate_bytes (ag_origin q) (ag_destination q) (ag_bridge_fee q) (ag_cctp_finality_threshold q) =
      aggregate_bytes (ag_origin q') (ag_destination q') (ag_bridge_fee q') (ag_cctp_finality_threshold q')"
    using no c c' assms(5) by (auto simp: preimages_def aggregate_id_def)
  from aggregate_bytes_inj [OF this] fits
  have ids: "qt_quote_id (ag_origin q) = qt_quote_id (ag_origin q')"
      "qt_quote_id (ag_destination q) = qt_quote_id (ag_destination q')"
    and fee: "ag_bridge_fee q = ag_bridge_fee q'"
    and thr: "unwrap_or 0 (ag_cctp_finality_threshold q) = unwrap_or 0 (ag_cctp_finality_threshold q')"
    by simp_all
  have "leg_quote_bytes (ag_origin q) = leg_quote_bytes (ag_origin q')"
    "leg_quote_bytes (ag_destination q) = leg_quote_bytes (ag_destination q')"
    using no c c' ids by (auto simp: preimages_def leg_quote_id_def)
  then have legs: "ag_origin q = ag_origin q'" "ag_destination q = ag_destination q'"
    using leg_quote_bytes_inj ids fits by blast+
  moreover have "ag_cctp_finality_threshold q = ag_cctp_finality_threshold q'"
    using v(3,4) v'(3,4) thr legs by (cases "qt_route (ag_origin q')") auto
  ultimately show "q = q'"
    using c c' fee assms(5) by (intro aggregate_quote.equality) auto
qed

lemma bs_of_list_eq_iff: "bs_of_list xs = bs_of_list ys \<longleftrightarrow> set xs = set ys"
  by (metis bs_of_list_set bs_of_list_sorted strict_sorted_equal)

lemma bs_of_list_length: "length (bs_of_list xs) = card (set xs)"
  by (metis bs_of_list_set bs_of_list_sorted distinct_card strict_sorted_iff)

lemma plan_commands_iff:
  assumes "distinct ys"
  shows "bs_of_list xs = bs_of_list ys \<and> length (bs_of_list xs) = length xs \<longleftrightarrow> mset xs = mset ys"
proof -
  have "length (bs_of_list xs) = length xs \<longleftrightarrow> distinct xs"
    by (metis bs_of_list_length card_distinct distinct_card)
  then show ?thesis
    using assms set_eq_iff_mset_eq_distinct [of xs ys] mset_eq_imp_distinct_iff [of xs ys]
      mset_eq_setD [of xs ys] by (auto simp: bs_of_list_eq_iff)
qed

definition plan_chain :: "aggregate_quote \<Rightarrow> leg_role \<Rightarrow> chain_id" where
  "plan_chain q role = qt_local_chain (case role of Origin \<Rightarrow> ag_origin q | Destination \<Rightarrow> ag_destination q)"

lemma expected_distinct: "distinct (expected_commands r role)" "expected_commands r role \<noteq> []"
  by (cases r; cases role; simp)+

text \<open>
  A plan is admitted exactly when it names the quote and the leg's chain and its commands are, in any
  order and each once, those of the route and role: no command missing, repeated or foreign.
\<close>

theorem validate_plan_exact:
  "validate_plan q plan role = Inr () \<longleftrightarrow>
     pl_aggregate_id plan = ag_id q \<and> pl_chain_id plan = plan_chain q role \<and>
     mset (map st_command (pl_steps plan)) = mset (expected_commands (qt_route (ag_origin q)) role)"
proof -
  let ?e = "expected_commands (qt_route (ag_origin q)) role"
  have "pl_steps plan = [] \<Longrightarrow> mset (map st_command (pl_steps plan)) \<noteq> mset ?e"
    using expected_distinct(2) by simp
  then show ?thesis
    unfolding plan_commands_iff [OF expected_distinct(1), of "map st_command (pl_steps plan)", symmetric]
    by (cases role; cases "pl_steps plan = []") (auto simp: validate_plan_def plan_chain_def Let_def)
qed

definition ex_source :: reservation_source where
  "ex_source = \<lparr>rs_maker = 11, rs_hash = 12, rs_token = 13, rs_amount = 500\<rparr>"

definition ex_origin :: leg_quote where
  "ex_origin = \<lparr>qt_quote_id = 7, qt_request_id = 3, qt_role = Origin, qt_local_chain = 1, qt_remote_chain = 2,
     qt_input_token = 21, qt_output_token = 22, qt_amount_in = 1000, qt_amount_out = 990, qt_route = Direct,
     qt_block_number = 5, qt_expires_at = 200, qt_sources = []\<rparr>"

definition ex_destination :: leg_quote where
  "ex_destination = \<lparr>qt_quote_id = 7, qt_request_id = 3, qt_role = Destination, qt_local_chain = 2,
     qt_remote_chain = 1, qt_input_token = 31, qt_output_token = 32, qt_amount_in = 980, qt_amount_out = 970,
     qt_route = Direct, qt_block_number = 9, qt_expires_at = 180, qt_sources = [ex_source]\<rparr>"

definition ex_quote :: aggregate_quote where
  "ex_quote = \<lparr>ag_id = 7, ag_origin = ex_origin, ag_destination = ex_destination, ag_amount_in = 1000,
     ag_amount_out = 970, ag_bridge_fee = 0, ag_cctp_finality_threshold = None, ag_expires_at = 180\<rparr>"

lemmas ex_quote_defs = ex_quote_def ex_origin_def ex_destination_def ex_source_def

lemma ex_quote_valid: "validate_aggregate_binding (\<lambda>_. 7) ex_quote 100 = Inr ()"
  by (simp add: validate_aggregate_binding_def binding_compatible_def aggregate_id_def leg_quote_id_def ex_quote_defs)

text \<open>With a constant hash two different admitted quotes do share an id; the theorem names the collision.\<close>

theorem aggregate_id_binds_quote_witness:
  "\<exists>x \<in> preimages ex_quote.
     \<exists>y \<in> preimages (ex_quote\<lparr>ag_origin := ex_origin\<lparr>qt_amount_out := 991\<rparr>\<rparr>). x \<noteq> y"
proof -
  let ?q = "ex_quote\<lparr>ag_origin := ex_origin\<lparr>qt_amount_out := 991\<rparr>\<rparr>"
  have "validate_aggregate_binding (\<lambda>_. 7) ?q 100 = Inr ()"
    by (simp add: validate_aggregate_binding_def binding_compatible_def aggregate_id_def leg_quote_id_def
        ex_quote_defs)
  from aggregate_id_binds_quote [OF ex_quote_valid this] show ?thesis
    by (auto simp: aggregate_fits_def leg_fits_def source_fits_def ex_quote_defs)
qed

end
