(* ===== verification/Crosschain_Store.thy ===== *)
theory Crosschain_Store
  imports Crosschain_Types Btree
begin

text \<open>
  The durable saga record: the SQLite adapter of the \<open>SagaStore\<close> port
  (adapters/src/crosschain/sqlite.rs, table \<open>crosschain_saga\<close>).

  The database is the table, its wall clock (\<open>unixepoch()\<close>) and a schedule of faults: every SQL
  statement consumes one entry and, when it says so, fails without effect. \<open>insert\<close> is two
  statements, so it can fail after the row was written. JSON bodies hold the value they encode.
\<close>

fun saga_state_label :: "saga_state \<Rightarrow> string" where
  "saga_state_label SsQuoted = ''quoted''"
| "saga_state_label SsPreparing = ''preparing''"
| "saga_state_label SsPrepared = ''prepared''"
| "saga_state_label SsDestinationPending = ''destination_pending''"
| "saga_state_label SsDestinationFinalized = ''destination_finalized''"
| "saga_state_label SsFillProofPending = ''fill_proof_pending''"
| "saga_state_label SsOriginPending = ''origin_pending''"
| "saga_state_label SsOriginFinalized = ''origin_finalized''"
| "saga_state_label SsRepaymentPending = ''repayment_pending''"
| "saga_state_label SsComplete = ''complete''"
| "saga_state_label SsFailedBeforeDelivery = ''failed_before_delivery''"
| "saga_state_label SsNeedsReconcile = ''needs_reconcile''"

record saga_row =
  gr_state :: string
  gr_body :: saga
  gr_updated_at :: u64

record saga_db =
  sd_rows :: "(order_id, saga_row) bmap"
  sd_now :: u64
  sd_faults :: "bool list"

type_synonym 'a saga_call = "(saga_db, saga_store_error, 'a) eff"

definition saga_stmt ::
  "(u64 \<Rightarrow> (order_id, saga_row) bmap \<Rightarrow> 'a \<times> (order_id, saga_row) bmap) \<Rightarrow> 'a saga_call" where
  "saga_stmt f db =
     (case sd_faults db of
        True # fs \<Rightarrow> (Inl (SagaBackend ''database''), db\<lparr>sd_faults := fs\<rparr>)
      | _ \<Rightarrow> (case f (sd_now db) (sd_rows db) of
               (x, rows) \<Rightarrow> (Inr x, db\<lparr>sd_rows := rows, sd_faults := tl (sd_faults db)\<rparr>)))"

definition saga_load :: "order_id \<Rightarrow> saga option saga_call" where
  "saga_load i = saga_stmt (\<lambda>now rows. (map_option gr_body (bm_get rows i), rows))"

definition saga_insert :: "saga \<Rightarrow> saga saga_call" where
  "saga_insert g =
     ebind (saga_stmt (\<lambda>now rows.
              ((), case bm_get rows (sg_order_id g) of
                     None \<Rightarrow> bm_insert (sg_order_id g)
                               \<lparr>gr_state = saga_state_label (sg_state g), gr_body = g, gr_updated_at = now\<rparr> rows
                   | Some _ \<Rightarrow> rows))) (\<lambda>_.
     ebind (saga_load (sg_order_id g)) (\<lambda>stored.
       case stored of
         Some s \<Rightarrow> if s = g then eok s else eerr SagaConflict
       | None \<Rightarrow> eerr (SagaBackend ''inserted saga could not be read'')))"

definition saga_update :: "saga \<Rightarrow> unit saga_call" where
  "saga_update g =
     ebind (saga_stmt (\<lambda>now rows.
              case bm_get rows (sg_order_id g) of
                None \<Rightarrow> (0, rows)
              | Some _ \<Rightarrow> (1 :: nat, bm_insert (sg_order_id g)
                   \<lparr>gr_state = saga_state_label (sg_state g), gr_body = g, gr_updated_at = now\<rparr> rows))) (\<lambda>affected.
       if affected \<noteq> 1 then eerr (SagaBackend ''saga disappeared during update'') else eok ())"

definition saga_recoverable :: "saga list saga_call" where
  "saga_recoverable =
     saga_stmt (\<lambda>now rows.
       (map (\<lambda>(i, row). gr_body row)
          (sort_key (\<lambda>(i, row). (gr_updated_at row, i))
            (filter (\<lambda>(i, row). gr_state row \<notin> {''complete'', ''failed_before_delivery''}) rows)), rows))"

section \<open>What a call does to the stored sagas\<close>

definition stored :: "saga_db \<Rightarrow> order_id \<Rightarrow> saga option" where
  "stored db i = map_option gr_body (bm_get (sd_rows db) i)"

definition saga_db_wf :: "saga_db \<Rightarrow> bool" where
  "saga_db_wf db \<longleftrightarrow> bm_wf (sd_rows db) \<and>
     (\<forall>i row. bm_get (sd_rows db) i = Some row \<longrightarrow>
        sg_order_id (gr_body row) = i \<and> gr_state row = saga_state_label (sg_state (gr_body row)))"

lemma stored_order: "saga_db_wf db \<Longrightarrow> stored db i = Some g \<Longrightarrow> sg_order_id g = i"
  by (auto simp: saga_db_wf_def stored_def)

lemma saga_stmt_cases:
  assumes "saga_stmt f db = (res, db')"
  obtains (fault) "res = Inl (SagaBackend ''database'')" "sd_rows db' = sd_rows db" "sd_faults db \<noteq> []"
    | (run) x where "res = Inr x" "f (sd_now db) (sd_rows db) = (x, sd_rows db')"
        "sd_faults db' = tl (sd_faults db)" "sd_now db' = sd_now db"
proof (cases "\<exists>fs. sd_faults db = True # fs")
  case True
  then show ?thesis using assms fault by (auto simp: saga_stmt_def)
next
  case False
  then have "saga_stmt f db = (case f (sd_now db) (sd_rows db) of
      (x, rows) \<Rightarrow> (Inr x, db\<lparr>sd_rows := rows, sd_faults := tl (sd_faults db)\<rparr>))"
    by (auto simp: saga_stmt_def split: list.split bool.split)
  then show ?thesis using assms run by (cases "f (sd_now db) (sd_rows db)") auto
qed

lemma saga_load_spec:
  assumes "saga_load i db = (res, db')"
  shows "sd_rows db' = sd_rows db" and "res = Inr x \<Longrightarrow> x = stored db i"
  using assms by (auto simp: saga_load_def stored_def elim: saga_stmt_cases)

lemma stored_insert_row:
  "stored (db\<lparr>sd_rows := bm_insert i row rows\<rparr>) j = (if j = i then Some (gr_body row) else map_option gr_body (bm_get rows j))"
  by (simp add: stored_def)

lemma stored_cong: "sd_rows db' = sd_rows db \<Longrightarrow> stored db' = stored db \<and> saga_db_wf db' = saga_db_wf db"
  by (simp add: stored_def saga_db_wf_def fun_eq_iff)

lemma saga_update_spec:
  assumes "saga_update g db = (res, db')" and wf: "saga_db_wf db"
  shows "saga_db_wf db'"
    and "res = Inr () \<Longrightarrow> stored db (sg_order_id g) \<noteq> None \<and> stored db' = (stored db)(sg_order_id g \<mapsto> g)"
    and "res = Inl e \<Longrightarrow> stored db' = stored db"
proof -
  let ?row = "\<lambda>now. \<lparr>gr_state = saga_state_label (sg_state g), gr_body = g, gr_updated_at = now\<rparr>"
  consider (same) e where "sd_rows db' = sd_rows db" "res = Inl e"
    | (put) "res = Inr ()" "bm_get (sd_rows db) (sg_order_id g) \<noteq> None"
        "sd_rows db' = bm_insert (sg_order_id g) (?row (sd_now db)) (sd_rows db)"
    using assms(1) unfolding saga_update_def ebind_def
    by (auto split: prod.splits sum.splits option.splits if_splits elim!: saga_stmt_cases)
  then have "saga_db_wf db' \<and> (res = Inr () \<longrightarrow> stored db (sg_order_id g) \<noteq> None \<and>
      stored db' = (stored db)(sg_order_id g \<mapsto> g)) \<and> (\<forall>e. res = Inl e \<longrightarrow> stored db' = stored db)"
  proof cases
    case same
    then show ?thesis using stored_cong [OF same(1)] wf by simp
  next
    case put
    then show ?thesis using wf by (auto simp: saga_db_wf_def stored_def fun_eq_iff)
  qed
  then show "saga_db_wf db'"
    and "res = Inr () \<Longrightarrow> stored db (sg_order_id g) \<noteq> None \<and> stored db' = (stored db)(sg_order_id g \<mapsto> g)"
    and "res = Inl e \<Longrightarrow> stored db' = stored db" by blast+
qed

lemma saga_insert_spec:
  assumes "saga_insert g db = (res, db')" and wf: "saga_db_wf db"
  shows "saga_db_wf db'"
    and "stored db' = stored db \<or> stored db (sg_order_id g) = None \<and> stored db' = (stored db)(sg_order_id g \<mapsto> g)"
    and "res = Inr s \<Longrightarrow> s = g \<and> stored db' (sg_order_id g) = Some g"
proof -
  let ?row = "\<lambda>now. \<lparr>gr_state = saga_state_label (sg_state g), gr_body = g, gr_updated_at = now\<rparr>"
  let ?put = "\<lambda>now rows. ((), case bm_get rows (sg_order_id g) of
      None \<Rightarrow> bm_insert (sg_order_id g) (?row now) rows | Some _ \<Rightarrow> rows)"
  obtain r1 db1 where first: "saga_stmt ?put db = (r1, db1)" by (cases "saga_stmt ?put db")
  obtain r2 db2 where second: "saga_load (sg_order_id g) db1 = (r2, db2)"
    by (cases "saga_load (sg_order_id g) db1")
  note load = saga_load_spec [OF second]
  have exec: "saga_insert g db = (case r1 of Inl e \<Rightarrow> (Inl e, db1) | Inr _ \<Rightarrow>
      (case r2 of Inl e \<Rightarrow> (Inl e, db2) | Inr None \<Rightarrow> (Inl (SagaBackend ''inserted saga could not be read''), db2)
       | Inr (Some s) \<Rightarrow> (if s = g then Inr s else Inl SagaConflict, db2)))"
    by (auto simp: saga_insert_def ebind_def first second split: sum.split option.split)
  consider (fault) e where "sd_rows db' = sd_rows db" "res = Inl e"
    | (put) "sd_rows db1 = snd (?put (sd_now db) (sd_rows db))" "sd_rows db' = sd_rows db1"
        "res = Inr s \<longrightarrow> s = g \<and> stored db1 (sg_order_id g) = Some g"
    using first
  proof (cases rule: saga_stmt_cases)
    case fault
    then show ?thesis using exec assms(1) that(1) by simp
  next
    case (run x)
    have "sd_rows db' = sd_rows db1" "res = Inr s \<longrightarrow> s = g \<and> stored db1 (sg_order_id g) = Some g"
      using exec assms(1) run(1) load
      by (auto split: sum.splits option.splits if_splits)
    then show ?thesis using that(2) run(2) by (metis snd_conv)
  qed
  then have "saga_db_wf db' \<and> (stored db' = stored db \<or> stored db (sg_order_id g) = None \<and>
      stored db' = (stored db)(sg_order_id g \<mapsto> g)) \<and>
      (res = Inr s \<longrightarrow> s = g \<and> stored db' (sg_order_id g) = Some g)"
  proof cases
    case fault
    then show ?thesis using stored_cong [OF fault(1)] wf by simp
  next
    case put
    note eq = stored_cong [OF put(2)]
    show ?thesis
    proof (cases "bm_get (sd_rows db) (sg_order_id g)")
      case None
      then have "saga_db_wf db1" "stored db1 = (stored db)(sg_order_id g \<mapsto> g)" "stored db (sg_order_id g) = None"
        using put(1) wf by (auto simp: saga_db_wf_def stored_def fun_eq_iff)
      then show ?thesis using eq put(3) by simp
    next
      case (Some r)
      then have "sd_rows db1 = sd_rows db" using put(1) by simp
      then show ?thesis using eq put(3) stored_cong [of db1 db] wf by auto
    qed
  qed
  then show "saga_db_wf db'"
    and "stored db' = stored db \<or> stored db (sg_order_id g) = None \<and> stored db' = (stored db)(sg_order_id g \<mapsto> g)"
    and "res = Inr s \<Longrightarrow> s = g \<and> stored db' (sg_order_id g) = Some g" by blast+
qed

text \<open>
  The worker resumes exactly the sagas that are neither complete nor failed, each once, whatever order
  the update times give.
\<close>

lemma saga_recoverable_spec:
  assumes "saga_recoverable db = (Inr gs, db')" and wf: "saga_db_wf db"
  shows "g \<in> set gs \<longleftrightarrow> (\<exists>i. stored db i = Some g \<and> sg_state g \<notin> {SsComplete, SsFailedBeforeDelivery})"
    and "distinct (map sg_order_id gs)"
proof -
  let ?live = "filter (\<lambda>(i, row). gr_state row \<notin> {''complete'', ''failed_before_delivery''}) (sd_rows db)"
  have gs: "gs = map (\<lambda>(i, row). gr_body row) (sort_key (\<lambda>(i, row). (gr_updated_at row, i)) ?live)"
    using assms(1) unfolding saga_recoverable_def by (auto elim: saga_stmt_cases)
  have rows: "bm_get (sd_rows db) i = Some row \<longleftrightarrow> (i, row) \<in> set (sd_rows db)" for i row
    using wf by (simp add: saga_db_wf_def bm_get_iff)
  have ok: "(i, row) \<in> set (sd_rows db) \<Longrightarrow>
      sg_order_id (gr_body row) = i \<and> gr_state row = saga_state_label (sg_state (gr_body row))" for i row
    using wf rows by (auto simp: saga_db_wf_def)
  have label: "saga_state_label s \<notin> {''complete'', ''failed_before_delivery''} \<longleftrightarrow>
      s \<notin> {SsComplete, SsFailedBeforeDelivery}" for s
    by (cases s) simp_all
  have "g \<in> set gs \<longleftrightarrow> (\<exists>i row. (i, row) \<in> set (sd_rows db) \<and> gr_body row = g \<and>
      sg_state g \<notin> {SsComplete, SsFailedBeforeDelivery})"
  proof -
    have live: "(i, row) \<in> set ?live \<longleftrightarrow> (i, row) \<in> set (sd_rows db) \<and>
        sg_state (gr_body row) \<notin> {SsComplete, SsFailedBeforeDelivery}" for i row
      using ok [of i row] label [of "sg_state (gr_body row)"] by auto
    have "g \<in> set gs \<longleftrightarrow> (\<exists>i row. (i, row) \<in> set ?live \<and> gr_body row = g)"
      unfolding gs by (auto simp del: set_filter)
    then show ?thesis unfolding live by blast
  qed
  then show "g \<in> set gs \<longleftrightarrow> (\<exists>i. stored db i = Some g \<and> sg_state g \<notin> {SsComplete, SsFailedBeforeDelivery})"
    by (auto simp: stored_def rows)
  have "map sg_order_id gs = map fst (sort_key (\<lambda>(i, row). (gr_updated_at row, i)) ?live)"
    unfolding gs map_map by (rule map_cong) (auto dest: ok)
  moreover have "distinct (map fst ?live)"
    using wf by (simp add: saga_db_wf_def bm_wf_def strict_sorted_iff distinct_map_filter)
  then have "distinct (map fst (sort_key (\<lambda>(i, row). (gr_updated_at row, i)) ?live))"
    by (simp add: distinct_map)
  ultimately show "distinct (map sg_order_id gs)" by simp
qed

end
