(* ===== verification/Crosschain_Saga.thy ===== *)
theory Crosschain_Saga
  imports Crosschain_Quotes Crosschain_Store
begin

text \<open>
  The cross-chain coordinator \<open>CrossChainProxy\<close> (core/src/crosschain/proxy.rs): quoting, starting and
  advancing a saga, preparation and compensation.

  The two chain-local services and the CCTP client are ports: records of operations over an
  environment state that every call may change and about which nothing is assumed. The saga store is
  the SQLite adapter of \<^theory_text>\<open>Crosschain_Store\<close>. A crash between two awaited calls is the failure of
  the second, so the fault schedule and failing remote calls cover it. The coordinator takes no lock:
  \<open>advance_found\<close> is the part of \<open>advance\<close> that works on the record it has read, so that a call that is
  overtaken by others between its read and its writes can be expressed. The two reads joined by
  \<open>try_join!\<close> run origin first.
\<close>

section \<open>Ports\<close>

record 'e remote_ops =
  rm_quote :: "leg_quote_request \<Rightarrow> ('e, remote_error, leg_quote) eff"
  rm_stage :: "step_validation_context \<Rightarrow> chain_execution_plan \<Rightarrow> ('e, remote_error, unit) eff"
  rm_author_direct :: "direct_order_authorization \<Rightarrow> ('e, remote_error, direct_execution_plans) eff"
  rm_stage_cctp_completion ::
    "step_validation_context \<Rightarrow> chain_execution_plan \<Rightarrow> prepare_token \<Rightarrow> ('e, remote_error, unit) eff"
  rm_prepare :: "aggregate_quote_id \<Rightarrow> leg_quote \<Rightarrow> ('e, remote_error, preparation) eff"
  rm_commit :: "prepare_token \<Rightarrow> ('e, remote_error, preparation) eff"
  rm_inspect :: "prepare_token \<Rightarrow> ('e, remote_error, preparation) eff"
  rm_release :: "prepare_token \<Rightarrow> ('e, remote_error, preparation) eff"
  rm_command ::
    "order_id \<Rightarrow> step_id \<Rightarrow> remote_command \<Rightarrow> prepare_token \<Rightarrow> ('e, remote_error, remote_progress) eff"

record 'e cctp_ops =
  cc_quote_terms :: "u256 \<Rightarrow> ('e, cctp_error, cctp_quote_terms) eff"
  cc_close_step :: "order_id \<Rightarrow> b256 \<Rightarrow> ('e, cctp_error, cctp_prepared_step) eff"

record 'e proxy =
  px_origin :: "'e remote_ops"
  px_destination :: "'e remote_ops"
  px_cctp :: "'e cctp_ops option"

record 'e world =
  w_env :: 'e
  w_sagas :: saga_db

type_synonym ('e, 'a) proxy_call = "('e world, xc_error, 'a) eff"

definition in_env :: "('e, 'x, 'a) eff \<Rightarrow> ('e world, 'x, 'a) eff" where
  "in_env = on_part w_env (\<lambda>e w. w\<lparr>w_env := e\<rparr>)"

definition remote :: "('e, remote_error, 'a) eff \<Rightarrow> ('e, 'a) proxy_call" where
  "remote m = emap_err RemoteSolvent (in_env m)"

definition sagas :: "'a saga_call \<Rightarrow> ('e, 'a) proxy_call" where
  "sagas m = emap_err SagaStore (on_part w_sagas (\<lambda>s w. w\<lparr>w_sagas := s\<rparr>) m)"

definition invalid :: "string \<Rightarrow> ('e, 'a) proxy_call" where
  "invalid message = eerr (InvalidCrossChain message)"

section \<open>Quoting\<close>

definition proxy_quote ::
  "keccak \<Rightarrow> 'e proxy \<Rightarrow> leg_quote_request \<Rightarrow> leg_quote_request \<Rightarrow> u64 \<Rightarrow> ('e, aggregate_quote) proxy_call" where
  "proxy_quote keccak256 p origin_request destination_request now_unix =
     ebind (remote (rm_quote (px_origin p) origin_request)) (\<lambda>origin.
     ebind (remote (rm_quote (px_destination p) destination_request)) (\<lambda>destination.
     ebind (eres (aggregate_quote_of keccak256 origin destination now_unix)) (\<lambda>aggregate.
     if qt_route (ag_origin aggregate) = Cctp then
       (case px_cctp p of
          None \<Rightarrow> invalid ''CCTP route is not configured''
        | Some cctp \<Rightarrow>
            ebind (emap_err CctpCompletion
                     (in_env (cc_quote_terms cctp (qt_amount_in (ag_destination aggregate))))) (\<lambda>terms.
            ebind (eres (ok_or (InvalidCrossChain ''CCTP repayment plus fee exceeds uint256'')
                     (checked_add (qt_amount_in (ag_destination aggregate)) (ct_max_fee terms)))) (\<lambda>required.
            if qt_amount_out (ag_origin aggregate) < required
            then invalid ''origin quote does not cover destination repayment and CCTP fee''
            else eok (aggregate
              \<lparr>ag_bridge_fee := ct_max_fee terms,
               ag_cctp_finality_threshold := Some (ct_finality_threshold terms),
               ag_id := aggregate_id keccak256 (ag_origin aggregate) (ag_destination aggregate)
                          (ct_max_fee terms) (Some (ct_finality_threshold terms))\<rparr>))))
     else eok aggregate)))"

definition proxy_status :: "order_id \<Rightarrow> ('e, saga) proxy_call" where
  "proxy_status order =
     ebind (sagas (saga_load order)) (\<lambda>found.
       case found of None \<Rightarrow> invalid ''unknown cross-chain order'' | Some g \<Rightarrow> eok g)"

definition proxy_recoverable :: "('e, saga list) proxy_call" where
  "proxy_recoverable = sagas saga_recoverable"

section \<open>Preparation and compensation\<close>

definition transition_to :: "saga \<Rightarrow> saga_state \<Rightarrow> ('e, saga) proxy_call" where
  "transition_to g next =
     eres (case saga_transition g next of
             Inl e \<Rightarrow> Inl (InvalidCrossChain (invariant_error_text e))
           | Inr g' \<Rightarrow> Inr g')"

definition compensate :: "'e proxy \<Rightarrow> saga \<Rightarrow> string \<Rightarrow> ('e, saga) proxy_call" where
  "compensate p g reason =
     ebind (case sg_origin_prepare g of
              None \<Rightarrow> eok None
            | Some token \<Rightarrow>
                ebind (etry (in_env (rm_release (px_origin p) token))) (\<lambda>released.
                  eok (case released of Inl e \<Rightarrow> Some e | Inr _ \<Rightarrow> None))) (\<lambda>release_error.
     ebind (case sg_destination_prepare g of
              None \<Rightarrow> eok release_error
            | Some token \<Rightarrow>
                ebind (etry (in_env (rm_release (px_destination p) token))) (\<lambda>released.
                  eok (case released of
                         Inl e \<Rightarrow> (if release_error = None then Some e else release_error)
                       | Inr _ \<Rightarrow> release_error))) (\<lambda>release_error.
     case release_error of
       Some e \<Rightarrow>
         ebind (sagas (saga_update
                  (g\<lparr>sg_failure := Some (reason @ ''; compensation pending: '' @ remote_error_text e)\<rparr>))) (\<lambda>_.
         eerr (RemoteSolvent e))
     | None \<Rightarrow>
         ebind (transition_to (g\<lparr>sg_failure := Some reason\<rparr>) SsFailedBeforeDelivery) (\<lambda>g.
         ebind (sagas (saga_update g)) (\<lambda>_.
         eok g))))"

definition validate_committed :: "saga \<Rightarrow> preparation \<Rightarrow> leg_role \<Rightarrow> xc_error + unit" where
  "validate_committed g prep role =
     (let expected_token = (case role of Origin \<Rightarrow> sg_origin_prepare g | Destination \<Rightarrow> sg_destination_prepare g);
          expected_chain = (case role of Origin \<Rightarrow> qt_local_chain (ag_origin (sg_quote g))
                                       | Destination \<Rightarrow> qt_local_chain (ag_destination (sg_quote g)))
      in if Some (pp_token prep) \<noteq> expected_token \<or> pp_quote_id prep \<noteq> ag_id (sg_quote g) \<or>
            pp_role prep \<noteq> role \<or> pp_chain_id prep \<noteq> expected_chain \<or> pp_state prep \<noteq> PsCommitted
         then Inl (InvalidCrossChain ''remote service did not confirm the expected committed preparation'')
         else Inr ())"

text \<open>
  The four \<open>match\<close>es of \<open>continue_preparation\<close> on a remote answer: a rejection compensates and
  returns, any other error is returned, and an answer continues.
\<close>

definition or_compensate ::
  "'e proxy \<Rightarrow> saga \<Rightarrow> remote_error + 'a \<Rightarrow> ('a \<Rightarrow> ('e, saga) proxy_call) \<Rightarrow> ('e, saga) proxy_call" where
  "or_compensate p g answer continue =
     (case answer of
        Inl (Rejected reason) \<Rightarrow> compensate p g reason
      | Inl e \<Rightarrow> eerr (RemoteSolvent e)
      | Inr x \<Rightarrow> continue x)"

definition commit_leg ::
  "'e proxy \<Rightarrow> 'e remote_ops \<Rightarrow> saga \<Rightarrow> preparation \<Rightarrow> leg_role \<Rightarrow> string \<Rightarrow>
   ('e, saga) proxy_call \<Rightarrow> ('e, saga) proxy_call" where
  "commit_leg p ops g prep role unusable continue =
     (let confirmed = (\<lambda>committed.
            case validate_committed g committed role of
              Inl e \<Rightarrow> compensate p g (xc_error_text e)
            | Inr _ \<Rightarrow> continue)
      in case pp_state prep of
           PsPrepared \<Rightarrow>
             ebind (etry (in_env (rm_commit ops (pp_token prep)))) (\<lambda>answer. or_compensate p g answer confirmed)
         | PsCommitted \<Rightarrow> confirmed prep
         | _ \<Rightarrow> compensate p g unusable)"

definition continue_preparation :: "'e proxy \<Rightarrow> saga \<Rightarrow> ('e, saga) proxy_call" where
  "continue_preparation p g =
     ebind (etry (in_env (case sg_origin_prepare g of
                            Some token \<Rightarrow> rm_inspect (px_origin p) token
                          | None \<Rightarrow> rm_prepare (px_origin p) (ag_id (sg_quote g)) (ag_origin (sg_quote g))))) (\<lambda>answer.
     or_compensate p g answer (\<lambda>origin.
     ebind (if sg_origin_prepare g = None
            then let g = g\<lparr>sg_origin_prepare := Some (pp_token origin)\<rparr> in ebind (sagas (saga_update g)) (\<lambda>_. eok g)
            else eok g) (\<lambda>g.
     ebind (etry (in_env (case sg_destination_prepare g of
                            Some token \<Rightarrow> rm_inspect (px_destination p) token
                          | None \<Rightarrow> rm_prepare (px_destination p) (ag_id (sg_quote g))
                                      (ag_destination (sg_quote g))))) (\<lambda>answer.
     or_compensate p g answer (\<lambda>destination.
     ebind (if sg_destination_prepare g = None
            then let g = g\<lparr>sg_destination_prepare := Some (pp_token destination)\<rparr>
                 in ebind (sagas (saga_update g)) (\<lambda>_. eok g)
            else eok g) (\<lambda>g.
     commit_leg p (px_origin p) g origin Origin ''origin preparation is no longer usable''
       (commit_leg p (px_destination p) g destination Destination
          ''destination preparation is no longer usable''
          (ebind (transition_to g SsPrepared) (\<lambda>g.
           ebind (sagas (saga_update g)) (\<lambda>_.
           eok g))))))))))"

section \<open>Starting\<close>

definition saga_new :: "order_id \<Rightarrow> address option \<Rightarrow> aggregate_quote \<Rightarrow> saga" where
  "saga_new order taker q =
     \<lparr>sg_order_id = order, sg_taker = taker, sg_quote = q, sg_state = SsQuoted, sg_lifecycle = [],
      sg_origin_prepare = None, sg_destination_prepare = None, sg_destination = None,
      sg_fill_proof = None, sg_origin = None, sg_repayment = None, sg_failure = None\<rparr>"

definition check_terms :: "'e proxy \<Rightarrow> aggregate_quote \<Rightarrow> ('e, unit) proxy_call" where
  "check_terms p q =
     (case qt_route (ag_origin q) of
        Direct \<Rightarrow>
          if ag_bridge_fee q \<noteq> 0 \<or> ag_cctp_finality_threshold q \<noteq> None
          then invalid ''direct quote contains CCTP terms'' else eok ()
      | Cctp \<Rightarrow>
          (case px_cctp p of
             None \<Rightarrow> invalid ''CCTP route is not configured''
           | Some cctp \<Rightarrow>
               ebind (emap_err CctpCompletion
                        (in_env (cc_quote_terms cctp (qt_amount_in (ag_destination q))))) (\<lambda>current.
               if ag_bridge_fee q \<noteq> ct_max_fee current \<or>
                  ag_cctp_finality_threshold q \<noteq> Some (ct_finality_threshold current)
               then invalid ''CCTP capacity or fee changed; request a fresh quote'' else eok ())))"

definition start_with_taker ::
  "keccak \<Rightarrow> 'e proxy \<Rightarrow> order_id \<Rightarrow> address option \<Rightarrow> aggregate_quote \<Rightarrow>
   chain_execution_plan \<Rightarrow> chain_execution_plan \<Rightarrow> u64 \<Rightarrow> ('e, saga) proxy_call" where
  "start_with_taker keccak256 p order taker q origin_plan destination_plan now_unix =
     ebind (sagas (saga_load order)) (\<lambda>found.
     case found of
       Some existing \<Rightarrow>
         if sg_quote existing = q then eok existing
         else invalid ''order id already belongs to a different quote''
     | None \<Rightarrow>
         ebind (eres (validate_aggregate_binding keccak256 q now_unix)) (\<lambda>_.
         ebind (check_terms p q) (\<lambda>_.
         ebind (eres (validate_plan q origin_plan Origin)) (\<lambda>_.
         ebind (eres (validate_plan q destination_plan Destination)) (\<lambda>_.
         ebind (remote (rm_stage (px_origin p)
                  \<lparr>cx_order_id = order, cx_quote = q, cx_role = Origin\<rparr> origin_plan)) (\<lambda>_.
         ebind (remote (rm_stage (px_destination p)
                  \<lparr>cx_order_id = order, cx_quote = q, cx_role = Destination\<rparr> destination_plan)) (\<lambda>_.
         ebind (sagas (saga_insert (record_lifecycle LcQuoted now_unix (saga_new order taker q)))) (\<lambda>g.
         ebind (transition_to g SsPreparing) (\<lambda>g.
         ebind (sagas (saga_update g)) (\<lambda>_.
         continue_preparation p g))))))))))"

definition start_direct ::
  "keccak \<Rightarrow> 'e proxy \<Rightarrow> direct_order_authorization \<Rightarrow> u64 \<Rightarrow> ('e, saga) proxy_call" where
  "start_direct keccak256 p authorization now_unix =
     ebind (remote (rm_author_direct (px_destination p) authorization)) (\<lambda>plans.
       start_with_taker keccak256 p (da_order_id authorization) (Some (dso_user (da_order authorization)))
         (da_quote authorization) (dp_origin plans) (dp_destination plans) now_unix)"

section \<open>Advancing\<close>

definition required_token :: "prepare_token option \<Rightarrow> xc_error + prepare_token" where
  "required_token token = ok_or (InvalidCrossChain ''saga is missing a committed preparation'') token"

definition apply_post_delivery ::
  "saga \<Rightarrow> remote_progress \<Rightarrow> saga_state \<Rightarrow> saga_state \<Rightarrow> lifecycle_stage \<Rightarrow> u64 \<Rightarrow>
   (step_evidence \<Rightarrow> saga \<Rightarrow> saga) \<Rightarrow> saga" where
  "apply_post_delivery g progress on_pending on_finalized stage now_unix rec =
     (case progress of
        PrPending \<Rightarrow> g\<lparr>sg_state := on_pending\<rparr>
      | PrFinalized evidence \<Rightarrow> record_lifecycle stage now_unix ((rec evidence g)\<lparr>sg_state := on_finalized\<rparr>)
      | PrFailed reason \<Rightarrow> g\<lparr>sg_failure := Some reason, sg_state := SsNeedsReconcile\<rparr>)"

text \<open>Where a saga that needs reconciliation resumes.\<close>

definition resume_state :: "saga \<Rightarrow> saga_state option" where
  "resume_state g =
     (if sg_repayment g \<noteq> None then Some SsRepaymentPending
      else if sg_origin g \<noteq> None then Some SsOriginFinalized
      else if sg_fill_proof g \<noteq> None then Some SsOriginPending
      else if sg_destination g \<noteq> None then Some SsDestinationFinalized
      else None)"

definition issue ::
  "keccak \<Rightarrow> 'e remote_ops \<Rightarrow> saga \<Rightarrow> chain_id \<Rightarrow> remote_command \<Rightarrow> prepare_token option \<Rightarrow>
   ('e, remote_progress) proxy_call" where
  "issue keccak256 ops g chain command token =
     ebind (eres (required_token token)) (\<lambda>token.
       remote (rm_command ops (sg_order_id g) (step_id_of keccak256 (sg_order_id g) chain command)
                 command token))"

text \<open>The state match of \<open>advance\<close>; \<open>save\<close> is the update that follows it.\<close>

definition save :: "saga \<Rightarrow> ('e, saga) proxy_call" where
  "save g = ebind (sagas (saga_update g)) (\<lambda>_. eok g)"

definition advance_delivery :: "keccak \<Rightarrow> 'e proxy \<Rightarrow> saga \<Rightarrow> u64 \<Rightarrow> ('e, saga) proxy_call" where
  "advance_delivery keccak256 p g now_unix =
     ebind (eres (required_token (sg_origin_prepare g))) (\<lambda>origin_token.
     ebind (eres (required_token (sg_destination_prepare g))) (\<lambda>destination_token.
     ebind (remote (rm_inspect (px_origin p) origin_token)) (\<lambda>origin.
     ebind (remote (rm_inspect (px_destination p) destination_token)) (\<lambda>destination.
     ebind (eres (validate_committed g origin Origin)) (\<lambda>_.
     ebind (eres (validate_committed g destination Destination)) (\<lambda>_.
     ebind (issue keccak256 (px_destination p) g (qt_local_chain (ag_destination (sg_quote g))) Deliver
              (sg_destination_prepare g)) (\<lambda>progress.
     case progress of
       PrPending \<Rightarrow> save (g\<lparr>sg_state := SsDestinationPending\<rparr>)
     | PrFinalized evidence \<Rightarrow>
         save (record_lifecycle LcDestinationFill now_unix
                 (g\<lparr>sg_destination := Some evidence, sg_state := SsDestinationFinalized\<rparr>))
     | PrFailed reason \<Rightarrow> compensate p g reason)))))))"

definition advance_cctp :: "keccak \<Rightarrow> 'e proxy \<Rightarrow> saga \<Rightarrow> u64 \<Rightarrow> ('e, saga) proxy_call" where
  "advance_cctp keccak256 p g now_unix =
     ebind (eres (ok_or (InvalidCrossChain ''origin burn finalized without a transaction hash'')
              (Option.bind (sg_origin g) ev_transaction_hash))) (\<lambda>origin_transaction.
     case px_cctp p of
       None \<Rightarrow> invalid ''CCTP completion is not configured''
     | Some cctp \<Rightarrow>
         ebind (etry (in_env (cc_close_step cctp (sg_order_id g) origin_transaction))) (\<lambda>answer.
         case answer of
           Inr prepared \<Rightarrow>
             ebind (eres (required_token (sg_destination_prepare g))) (\<lambda>token.
             ebind (remote (rm_stage_cctp_completion (px_destination p)
                      \<lparr>cx_order_id = sg_order_id g, cx_quote = sg_quote g, cx_role = Destination\<rparr>
                      \<lparr>pl_aggregate_id = ag_id (sg_quote g),
                       pl_chain_id = qt_local_chain (ag_destination (sg_quote g)),
                       pl_steps = [cp_step prepared]\<rparr> token)) (\<lambda>_.
             save (record_lifecycle LcRepayment now_unix
                     (g\<lparr>sg_repayment := Some
                          \<lparr>ev_command_id = step_id_of keccak256 (sg_order_id g)
                             (qt_local_chain (ag_destination (sg_quote g))) CloseDestination,
                           ev_transaction_hash = Some origin_transaction,
                           ev_block_number = Option.bind (sg_origin g) ev_block_number,
                           ev_message_id = Some (cp_message_id prepared)\<rparr>,
                        sg_state := SsRepaymentPending\<rparr>))))
         | Inl CctpPending \<Rightarrow> eok g
         | Inl (CctpRateLimited _) \<Rightarrow> eok g
         | Inl (CctpTransport message) \<Rightarrow> eerr (CctpCompletion (CctpTransport message))
         | Inl (CctpInvalid message) \<Rightarrow>
             save (g\<lparr>sg_failure := Some message, sg_state := SsNeedsReconcile\<rparr>)))"

definition advance_saga :: "keccak \<Rightarrow> 'e proxy \<Rightarrow> saga \<Rightarrow> u64 \<Rightarrow> ('e, saga) proxy_call" where
  "advance_saga keccak256 p g now_unix =
     (let origin_chain = qt_local_chain (ag_origin (sg_quote g));
          destination_chain = qt_local_chain (ag_destination (sg_quote g))
      in case sg_state g of
        SsPreparing \<Rightarrow> continue_preparation p g
      | SsPrepared \<Rightarrow> advance_delivery keccak256 p g now_unix
      | SsDestinationPending \<Rightarrow> advance_delivery keccak256 p g now_unix
      | SsDestinationFinalized \<Rightarrow>
          ebind (issue keccak256 (px_destination p) g destination_chain DispatchFillProof
                   (sg_destination_prepare g)) (\<lambda>progress.
          save (apply_post_delivery g progress SsFillProofPending SsOriginPending LcProofRelay now_unix
                  (\<lambda>evidence g. g\<lparr>sg_fill_proof := Some evidence\<rparr>)))
      | SsFillProofPending \<Rightarrow>
          ebind (issue keccak256 (px_destination p) g destination_chain DispatchFillProof
                   (sg_destination_prepare g)) (\<lambda>progress.
          save (apply_post_delivery g progress SsFillProofPending SsOriginPending LcProofRelay now_unix
                  (\<lambda>evidence g. g\<lparr>sg_fill_proof := Some evidence\<rparr>)))
      | SsOriginPending \<Rightarrow>
          ebind (issue keccak256 (px_origin p) g origin_chain ClaimOrigin (sg_origin_prepare g)) (\<lambda>progress.
          save (apply_post_delivery g progress SsOriginPending SsOriginFinalized LcOriginClaim now_unix
                  (\<lambda>evidence g. g\<lparr>sg_origin := Some evidence\<rparr>)))
      | SsOriginFinalized \<Rightarrow>
          (case qt_route (ag_origin (sg_quote g)) of
             Direct \<Rightarrow>
               ebind (issue keccak256 (px_origin p) g origin_chain DispatchRepayment
                        (sg_origin_prepare g)) (\<lambda>progress.
               save (apply_post_delivery g progress SsOriginFinalized SsRepaymentPending LcRepayment now_unix
                       (\<lambda>evidence g. g\<lparr>sg_repayment := Some evidence\<rparr>)))
           | Cctp \<Rightarrow> advance_cctp keccak256 p g now_unix)
      | SsRepaymentPending \<Rightarrow>
          ebind (issue keccak256 (px_destination p) g destination_chain CloseDestination
                   (sg_destination_prepare g)) (\<lambda>progress.
          save (apply_post_delivery g progress SsRepaymentPending SsComplete LcComplete now_unix
                  (\<lambda>evidence g. g)))
      | _ \<Rightarrow> eok g)"

text \<open>
  What \<open>advance\<close> does with the record it has read. Between the read and the rest there is no lock, so
  another call for the order may run there.
\<close>

definition advance_found :: "keccak \<Rightarrow> 'e proxy \<Rightarrow> saga \<Rightarrow> u64 \<Rightarrow> ('e, saga) proxy_call" where
  "advance_found keccak256 p g now_unix =
     (if sg_state g = SsNeedsReconcile then
        (case resume_state g of
           None \<Rightarrow> eok g
         | Some s \<Rightarrow>
             ebind (save (g\<lparr>sg_state := s\<rparr>)) (\<lambda>g. advance_saga keccak256 p g now_unix))
      else advance_saga keccak256 p g now_unix)"

definition advance :: "keccak \<Rightarrow> 'e proxy \<Rightarrow> order_id \<Rightarrow> u64 \<Rightarrow> ('e, saga) proxy_call" where
  "advance keccak256 p order now_unix =
     ebind (sagas (saga_load order)) (\<lambda>found.
     case found of
       None \<Rightarrow> invalid ''unknown cross-chain order''
     | Some g \<Rightarrow> advance_found keccak256 p g now_unix)"

end
