(* ===== verification/Crosschain_Laws.thy ===== *)
theory Crosschain_Laws
  imports Crosschain_Saga
begin

text \<open>
  The saga invariant. \<open>saga_ok\<close> ties a saga's state to the evidence, tokens and lifecycle it has
  recorded, \<open>evolves\<close> says how a record may change, and the triples below show that every call of
  the coordinator keeps both for every stored saga, whatever the chain services and the CCTP client
  answer and wherever the database fails.
\<close>

section \<open>Well-formed sagas and their evolution\<close>

definition stages :: "lifecycle_stage list" where
  "stages = [LcQuoted, LcDestinationFill, LcProofRelay, LcOriginClaim, LcRepayment, LcComplete]"

definition evidence :: "saga \<Rightarrow> step_evidence option list" where
  "evidence g = [sg_destination g, sg_fill_proof g, sg_origin g, sg_repayment g]"

text \<open>How many of the four irreversible steps are recorded, in order; \<open>None\<close> when there is a gap.\<close>

definition level :: "saga \<Rightarrow> nat option" where
  "level g =
     (let n = length (takeWhile (\<lambda>e. e \<noteq> None) (evidence g))
      in if list_all (\<lambda>e. e = None) (drop n (evidence g)) then Some n else None)"

fun levels_of :: "saga_state \<Rightarrow> nat set" where
  "levels_of SsDestinationFinalized = {1}"
| "levels_of SsFillProofPending = {1}"
| "levels_of SsOriginPending = {2}"
| "levels_of SsOriginFinalized = {3}"
| "levels_of SsRepaymentPending = {4}"
| "levels_of SsComplete = {4}"
| "levels_of SsNeedsReconcile = {1, 2, 3, 4}"
| "levels_of s = {0}"

definition holds_capital :: "saga_state \<Rightarrow> bool" where
  "holds_capital s \<longleftrightarrow> s \<notin> {SsQuoted, SsPreparing, SsFailedBeforeDelivery}"

definition saga_ok :: "keccak \<Rightarrow> saga \<Rightarrow> bool" where
  "saga_ok k g \<longleftrightarrow>
     binding_compatible k (sg_quote g) \<and>
     (holds_capital (sg_state g) \<longrightarrow> sg_origin_prepare g \<noteq> None \<and> sg_destination_prepare g \<noteq> None) \<and>
     (\<exists>n \<in> levels_of (sg_state g). level g = Some n \<and>
        map le_stage (sg_lifecycle g) = take (n + (if sg_state g = SsComplete then 2 else 1)) stages)"

definition grows :: "'a option \<Rightarrow> 'a option \<Rightarrow> bool" where
  "grows x y \<longleftrightarrow> x = None \<or> x = y"

definition evolves :: "saga \<Rightarrow> saga \<Rightarrow> bool" where
  "evolves g g' \<longleftrightarrow>
     sg_order_id g' = sg_order_id g \<and> sg_taker g' = sg_taker g \<and> sg_quote g' = sg_quote g \<and>
     grows (sg_origin_prepare g) (sg_origin_prepare g') \<and>
     grows (sg_destination_prepare g) (sg_destination_prepare g') \<and>
     list_all2 grows (evidence g) (evidence g') \<and>
     (\<exists>more. sg_lifecycle g' = sg_lifecycle g @ more) \<and>
     (sg_state g \<in> {SsComplete, SsFailedBeforeDelivery} \<longrightarrow> g' = g)"

lemma grows_refl [simp]: "grows x x"
  by (simp add: grows_def)

lemma grows_None [simp]: "grows None x"
  by (simp add: grows_def)

lemma grows_trans: "grows x y \<Longrightarrow> grows y z \<Longrightarrow> grows x z"
  by (auto simp: grows_def)

lemma evolves_refl [simp]: "evolves g g"
  by (simp add: evolves_def evidence_def)

lemma evolves_trans:
  assumes "evolves a b" and "evolves b c"
  shows "evolves a c"
proof -
  have "list_all2 grows (evidence a) (evidence c)"
    using assms grows_trans by (auto simp: evolves_def evidence_def)
  moreover have "\<exists>more. sg_lifecycle c = sg_lifecycle a @ more"
    using assms by (auto simp: evolves_def)
  ultimately show ?thesis
    using assms grows_trans unfolding evolves_def by metis
qed

lemma record_lifecycle_eq:
  "record_lifecycle stage t g =
     g\<lparr>sg_lifecycle := sg_lifecycle g @
         (if stage \<in> set (map le_stage (sg_lifecycle g)) then [] else [\<lparr>le_stage = stage, le_at = t\<rparr>])\<rparr>"
  by (auto simp: record_lifecycle_def list_all_iff)

lemma level_Some:
  "level g = Some 0 \<longleftrightarrow> sg_destination g = None \<and> sg_fill_proof g = None \<and> sg_origin g = None \<and> sg_repayment g = None"
  "level g = Some (Suc 0) \<longleftrightarrow> sg_destination g \<noteq> None \<and> sg_fill_proof g = None \<and> sg_origin g = None \<and> sg_repayment g = None"
  "level g = Some 2 \<longleftrightarrow> sg_destination g \<noteq> None \<and> sg_fill_proof g \<noteq> None \<and> sg_origin g = None \<and> sg_repayment g = None"
  "level g = Some 3 \<longleftrightarrow> sg_destination g \<noteq> None \<and> sg_fill_proof g \<noteq> None \<and> sg_origin g \<noteq> None \<and> sg_repayment g = None"
  "level g = Some 4 \<longleftrightarrow> sg_destination g \<noteq> None \<and> sg_fill_proof g \<noteq> None \<and> sg_origin g \<noteq> None \<and> sg_repayment g \<noteq> None"
  by (cases "sg_destination g"; cases "sg_fill_proof g"; cases "sg_origin g"; cases "sg_repayment g";
      simp add: level_def evidence_def)+

lemmas saga_facts = saga_ok_def level_Some holds_capital_def stages_def record_lifecycle_eq

section \<open>Every update the coordinator makes is a legal successor\<close>

definition legal :: "keccak \<Rightarrow> saga \<Rightarrow> saga \<Rightarrow> bool" where
  "legal k g g' \<longleftrightarrow> evolves g g' \<and> (saga_ok k g \<longrightarrow> saga_ok k g')"

lemmas legal_simps = legal_def evolves_def evidence_def saga_facts

lemma legal_tokens:
  assumes "saga_ok k g" and "sg_state g = SsPreparing"
  shows "sg_origin_prepare g = None \<Longrightarrow> legal k g (g\<lparr>sg_origin_prepare := Some t\<rparr>)"
    and "sg_destination_prepare g = None \<Longrightarrow> legal k g (g\<lparr>sg_destination_prepare := Some t\<rparr>)"
    and "sg_origin_prepare g \<noteq> None \<Longrightarrow> sg_destination_prepare g \<noteq> None \<Longrightarrow> legal k g (g\<lparr>sg_state := SsPrepared\<rparr>)"
  by (insert assms, (elim insertE emptyE)?; simp add: legal_simps)+

lemma legal_failed:
  assumes "saga_ok k g" and "sg_state g \<in> {SsPreparing, SsPrepared, SsDestinationPending}"
  shows "legal k g (g\<lparr>sg_failure := f\<rparr>)"
    and "legal k g (g\<lparr>sg_failure := f, sg_state := SsFailedBeforeDelivery\<rparr>)"
  by (insert assms, (elim insertE emptyE)?; simp add: legal_simps)+

lemma legal_delivery:
  assumes "saga_ok k g" and "sg_state g \<in> {SsPrepared, SsDestinationPending}"
  shows "legal k g (g\<lparr>sg_state := SsDestinationPending\<rparr>)"
    and "legal k g (record_lifecycle LcDestinationFill t
           (g\<lparr>sg_destination := Some e, sg_state := SsDestinationFinalized\<rparr>))"
  by (insert assms, (elim insertE emptyE)?; simp add: legal_simps)+

lemma legal_proof:
  assumes "saga_ok k g" and "sg_state g \<in> {SsDestinationFinalized, SsFillProofPending}"
  shows "legal k g (apply_post_delivery g progress SsFillProofPending SsOriginPending LcProofRelay t
           (\<lambda>e g. g\<lparr>sg_fill_proof := Some e\<rparr>))"
  by (insert assms, cases progress; (elim insertE emptyE)?; simp add: apply_post_delivery_def legal_simps)+

lemma legal_claim:
  assumes "saga_ok k g" and "sg_state g = SsOriginPending"
  shows "legal k g (apply_post_delivery g progress SsOriginPending SsOriginFinalized LcOriginClaim t
           (\<lambda>e g. g\<lparr>sg_origin := Some e\<rparr>))"
  by (insert assms, cases progress; (elim insertE emptyE)?; simp add: apply_post_delivery_def legal_simps)+

lemma legal_repayment:
  assumes "saga_ok k g" and "sg_state g = SsOriginFinalized"
  shows "legal k g (apply_post_delivery g progress SsOriginFinalized SsRepaymentPending LcRepayment t
           (\<lambda>e g. g\<lparr>sg_repayment := Some e\<rparr>))"
    and "legal k g (record_lifecycle LcRepayment t (g\<lparr>sg_repayment := Some e, sg_state := SsRepaymentPending\<rparr>))"
    and "legal k g (g\<lparr>sg_failure := f, sg_state := SsNeedsReconcile\<rparr>)"
  by (insert assms, cases progress; (elim insertE emptyE)?; simp add: apply_post_delivery_def legal_simps)+

lemma legal_close:
  assumes "saga_ok k g" and "sg_state g = SsRepaymentPending"
  shows "legal k g (apply_post_delivery g progress SsRepaymentPending SsComplete LcComplete t (\<lambda>e g. g))"
  by (insert assms, cases progress; (elim insertE emptyE)?; simp add: apply_post_delivery_def legal_simps)+

lemma legal_resume:
  assumes "saga_ok k g" and "sg_state g = SsNeedsReconcile" and "resume_state g = Some s"
  shows "legal k g (g\<lparr>sg_state := s\<rparr>)"
  by (insert assms, simp add: resume_state_def split: if_splits; simp add: legal_simps; auto)

section \<open>The calls keep every stored saga legal\<close>

text \<open>
  \<open>safe R k S0\<close>: every stored saga is well formed and every saga of \<open>S0\<close> is still there, related by
  \<open>R\<close>. \<open>holding R k S0 g\<close>: besides, \<open>g\<close> is a well-formed successor of the stored record of its order;
  this is the state of a call between loading a saga and saving it. The lemmas hold for every relation
  between records that contains \<open>evolves\<close>; it is used with \<open>evolves\<close> itself, for calls that do not
  overlap, and with the equality of the terms a saga is bound to, for calls that do.
\<close>

definition safe :: "(saga \<Rightarrow> saga \<Rightarrow> bool) \<Rightarrow> keccak \<Rightarrow> (order_id \<Rightarrow> saga option) \<Rightarrow> 'e world \<Rightarrow> bool" where
  "safe R k S0 w \<longleftrightarrow>
     saga_db_wf (w_sagas w) \<and>
     (\<forall>i g. stored (w_sagas w) i = Some g \<longrightarrow> saga_ok k g) \<and>
     (\<forall>i g. S0 i = Some g \<longrightarrow> (\<exists>g'. stored (w_sagas w) i = Some g' \<and> R g g'))"

definition holding :: "(saga \<Rightarrow> saga \<Rightarrow> bool) \<Rightarrow> keccak \<Rightarrow> (order_id \<Rightarrow> saga option) \<Rightarrow> saga \<Rightarrow> 'e world \<Rightarrow> bool" where
  "holding R k S0 g w \<longleftrightarrow> safe R k S0 w \<and> saga_ok k g \<and>
     (\<exists>g0. stored (w_sagas w) (sg_order_id g) = Some g0 \<and> R g0 g)"

definition call_ok :: "(saga \<Rightarrow> saga \<Rightarrow> bool) \<Rightarrow> keccak \<Rightarrow> (order_id \<Rightarrow> saga option) \<Rightarrow> saga \<Rightarrow> ('e, saga) proxy_call \<Rightarrow> bool" where
  "call_ok R k S0 g m \<longleftrightarrow> triple (holding R k S0 g) m (\<lambda>_. safe R k S0) (\<lambda>_. safe R k S0)"

lemma in_env_sagas: "in_env m w = (r, w') \<Longrightarrow> w_sagas w' = w_sagas w"
  by (auto simp: in_env_def on_part_def split: prod.splits)

lemma sagas_run:
  "sagas m w = (Inr x, w') \<Longrightarrow> m (w_sagas w) = (Inr x, w_sagas w')"
  "sagas m w = (Inl e, w') \<Longrightarrow> \<exists>d. m (w_sagas w) = (Inl d, w_sagas w')"
  by (cases "m (w_sagas w)"; cases "fst (m (w_sagas w))"; auto simp: sagas_def emap_err_def on_part_def)+

lemma ebind_assoc: "ebind (ebind m f) h = ebind m (\<lambda>x. ebind (f x) h)"
  by (auto simp: ebind_def fun_eq_iff split: prod.split sum.split)

lemma transition_to_eq:
  "transition_to g s = (if permits (sg_state g) s then eok (g\<lparr>sg_state := s\<rparr>)
     else eerr (InvalidCrossChain (invariant_error_text (SagaTransition (sg_state g) s))))"
  by (simp add: transition_to_def saga_transition_def fun_eq_iff)

lemma safeD:
  assumes "safe R k S0 w"
  shows "stored (w_sagas w) i = Some g \<Longrightarrow> saga_ok k g"
    and "S0 i = Some g \<Longrightarrow> \<exists>g'. stored (w_sagas w) i = Some g' \<and> R g g'"
    and "saga_db_wf (w_sagas w)"
  using assms unfolding safe_def by blast+

locale saga_relation =
  fixes R :: "saga \<Rightarrow> saga \<Rightarrow> bool"
  assumes R_evolves: "evolves g g' \<Longrightarrow> R g g'"
    and R_trans: "R g g' \<Longrightarrow> R g' g'' \<Longrightarrow> R g g''"
    and R_order: "R g g' \<Longrightarrow> sg_order_id g' = sg_order_id g"
begin

lemma R_refl [simp]: "R g g"
  by (rule R_evolves) simp

lemma holding_safe: "holding R k S0 g w \<Longrightarrow> safe R k S0 w"
  by (simp add: holding_def)

lemma holding_legal: "holding R k S0 g w \<Longrightarrow> legal k g g' \<Longrightarrow> holding R k S0 g' w"
  unfolding holding_def legal_def using R_trans R_evolves R_order by metis

lemma holding_ok: "holding R k S0 g w \<Longrightarrow> saga_ok k g"
  by (simp add: holding_def)

lemma safe_cong: "w_sagas w' = w_sagas w \<Longrightarrow> safe R k S0 w' = safe R k S0 w"
  by (simp add: safe_def)

lemma holding_cong: "w_sagas w' = w_sagas w \<Longrightarrow> holding R k S0 g w' = holding R k S0 g w"
  by (simp add: holding_def safe_def)

lemma holding_in_env: "triple (holding R k S0 g) (in_env m) (\<lambda>_. holding R k S0 g) (\<lambda>_. holding R k S0 g)"
  by (rule tripleI) (simp_all add: holding_cong [OF in_env_sagas])

lemma holding_try: "triple (holding R k S0 g) (etry (in_env m)) (\<lambda>_. holding R k S0 g) (\<lambda>_. safe R k S0)"
  by (rule triple_etry) (rule holding_in_env)

lemma holding_emap:
  "triple (holding R k S0 g) (emap_err f (in_env m)) (\<lambda>_. holding R k S0 g) (\<lambda>_. safe R k S0)"
  by (rule triple_emap_err, rule triple_weaken [OF holding_in_env]) (auto intro: holding_safe)

lemma holding_remote: "triple (holding R k S0 g) (remote m) (\<lambda>_. holding R k S0 g) (\<lambda>_. safe R k S0)"
  unfolding remote_def by (rule holding_emap)

lemma holding_pure:
  "triple (holding R k S0 g) (eres r) (\<lambda>x w. holding R k S0 g w \<and> r = Inr x) (\<lambda>_. safe R k S0)"
  by (rule triple_eres) (auto intro: holding_safe)

lemma holding_update: "triple (holding R k S0 g) (sagas (saga_update g)) (\<lambda>_. holding R k S0 g) (\<lambda>_. safe R k S0)"
proof (rule tripleI)
  fix w x w'
  assume h: "holding R k S0 g w" and "sagas (saga_update g) w = (Inr x, w')"
  then have run: "saga_update g (w_sagas w) = (Inr (), w_sagas w')" using sagas_run(1) by fastforce
  have wf: "saga_db_wf (w_sagas w)" using h by (simp add: holding_def safe_def)
  note spec = saga_update_spec [OF run wf]
  obtain g0 where g0: "stored (w_sagas w) (sg_order_id g) = Some g0" "R g0 g" "saga_ok k g"
    using h by (auto simp: holding_def)
  have "\<exists>g'. stored (w_sagas w') i = Some g' \<and> R s g'" if S0: "S0 i = Some s" for i s
  proof -
    obtain g' where "stored (w_sagas w) i = Some g'" "R s g'"
      using h S0 unfolding holding_def safe_def by blast
    then show ?thesis using spec(2) g0 R_trans by (cases "i = sg_order_id g") auto
  qed
  then show "holding R k S0 g w'" using spec h g0 by (auto simp: holding_def safe_def)
next
  fix w e w'
  assume h: "holding R k S0 g w" and "sagas (saga_update g) w = (Inl e, w')"
  then obtain d where run: "saga_update g (w_sagas w) = (Inl d, w_sagas w')" using sagas_run(2) by blast
  have wf: "saga_db_wf (w_sagas w)" using h by (simp add: holding_def safe_def)
  show "safe R k S0 w'" using saga_update_spec(1,3) [OF run wf] h by (simp add: holding_def safe_def)
qed

lemma call_ok_save:
  assumes "saga_ok k g \<Longrightarrow> legal k g g'"
  shows "call_ok R k S0 g (save g')"
  unfolding call_ok_def save_def
proof (rule triple_ebind)
  show "triple (holding R k S0 g) (sagas (saga_update g')) (\<lambda>_. holding R k S0 g') (\<lambda>_. safe R k S0)"
    by (rule triple_weaken [OF holding_update]) (auto intro: holding_legal [OF _ assms] holding_ok)
qed (auto intro: triple_eok holding_safe)

lemma call_ok_bind:
  assumes "triple (holding R k S0 g) m (\<lambda>x w. holding R k S0 g w \<and> B x) (\<lambda>_. safe R k S0)"
    and "\<And>x. B x \<Longrightarrow> call_ok R k S0 g (f x)"
  shows "call_ok R k S0 g (ebind m f)"
  unfolding call_ok_def
proof (rule triple_ebind [OF assms(1)])
  show "triple (\<lambda>w. holding R k S0 g w \<and> B x) (f x) (\<lambda>_. safe R k S0) (\<lambda>_. safe R k S0)" for x
    using assms(2) unfolding call_ok_def triple_def by blast
qed

lemma call_ok_bind_any:
  assumes "triple (holding R k S0 g) m (\<lambda>_. holding R k S0 g) (\<lambda>_. safe R k S0)"
    and "\<And>x. call_ok R k S0 g (f x)"
  shows "call_ok R k S0 g (ebind m f)"
  by (rule call_ok_bind [where B = "\<lambda>_. True"]) (simp_all add: assms)

lemma call_ok_update:
  assumes "saga_ok k g \<Longrightarrow> legal k g g'" and "call_ok R k S0 g' m"
  shows "call_ok R k S0 g (ebind (sagas (saga_update g')) (\<lambda>_. m))"
  unfolding call_ok_def
proof (rule triple_ebind)
  show "triple (holding R k S0 g) (sagas (saga_update g')) (\<lambda>_. holding R k S0 g') (\<lambda>_. safe R k S0)"
    by (rule triple_weaken [OF holding_update]) (auto intro: holding_legal [OF _ assms(1)] holding_ok)
qed (rule assms(2) [unfolded call_ok_def])

lemma call_ok_eok: "call_ok R k S0 g (eok g')"
  unfolding call_ok_def by (rule triple_eok) (rule holding_safe)

lemma call_ok_eerr: "call_ok R k S0 g (eerr e)" "call_ok R k S0 g (invalid m)"
  unfolding call_ok_def invalid_def by (auto intro: triple_eerr holding_safe)

lemma call_ok_ok:
  assumes "saga_ok k g \<Longrightarrow> call_ok R k S0 g m"
  shows "call_ok R k S0 g m"
  unfolding call_ok_def by (rule triple_pre) (auto dest: holding_ok intro: assms [unfolded call_ok_def])

lemmas call_ok_intros = call_ok_eok call_ok_eerr call_ok_bind_any [OF holding_remote]
  call_ok_bind_any [OF holding_try] call_ok_bind_any [OF holding_emap] call_ok_bind [OF holding_pure]

lemma call_ok_transition:
  assumes "saga_ok k g \<Longrightarrow> permits (sg_state g) s \<Longrightarrow> legal k g (g\<lparr>sg_state := s\<rparr>)"
  shows "call_ok R k S0 g (ebind (transition_to g s) (\<lambda>g'. ebind (sagas (saga_update g')) (\<lambda>_. eok g')))"
  by (cases "permits (sg_state g) s") (simp_all add: transition_to_eq call_ok_update assms call_ok_eok call_ok_eerr)

lemma call_ok_compensate:
  assumes "sg_state g \<in> {SsPreparing, SsPrepared, SsDestinationPending}"
  shows "call_ok R k S0 g (compensate p g reason)"
proof -
  have ends: "call_ok R k S0 g (case release_error of
       Some e \<Rightarrow> ebind (sagas (saga_update
          (g\<lparr>sg_failure := Some (reason @ ''; compensation pending: '' @ remote_error_text e)\<rparr>))) (\<lambda>_. eerr (RemoteSolvent e))
     | None \<Rightarrow> ebind (transition_to (g\<lparr>sg_failure := Some reason\<rparr>) SsFailedBeforeDelivery) (\<lambda>g.
         ebind (sagas (saga_update g)) (\<lambda>_. eok g)))" for release_error
  proof (cases release_error)
    case None
    have permitted: "permits (sg_state g) SsFailedBeforeDelivery" using assms by (auto simp: permits_def)
    then show ?thesis
      using None call_ok_update [OF legal_failed(2) [OF _ assms] call_ok_eok] by (simp add: transition_to_eq)
  next
    case (Some e)
    then show ?thesis using call_ok_update [OF legal_failed(1) [OF _ assms] call_ok_eerr(1)] by simp
  qed
  show ?thesis
    unfolding compensate_def
    by (cases "sg_origin_prepare g"; cases "sg_destination_prepare g")
      (simp_all only: option.case ebind_assoc ebind_eok call_ok_bind_any [OF holding_try] ends
        ends [of None, unfolded option.case])
qed

lemma call_ok_or_compensate:
  assumes "sg_state g \<in> {SsPreparing, SsPrepared, SsDestinationPending}" and "\<And>x. call_ok R k S0 g (f x)"
  shows "call_ok R k S0 g (or_compensate p g answer f)"
  unfolding or_compensate_def
  using assms(2) call_ok_compensate [OF assms(1)] call_ok_eerr(1) by (auto split: sum.split remote_error.split)

lemma call_ok_commit_leg:
  assumes "sg_state g = SsPreparing" and "call_ok R k S0 g continue"
  shows "call_ok R k S0 g (commit_leg p ops g prep role unusable continue)"
proof -
  have st: "sg_state g \<in> {SsPreparing, SsPrepared, SsDestinationPending}" using assms(1) by simp
  have confirmed: "call_ok R k S0 g (case validate_committed g c role of
      Inl e \<Rightarrow> compensate p g (xc_error_text e) | Inr _ \<Rightarrow> continue)" for c
    using assms(2) call_ok_compensate [OF st] by (auto split: sum.split)
  show ?thesis
    unfolding commit_leg_def Let_def
    using confirmed call_ok_compensate [OF st]
    by (auto split: preparation_state.split intro!: call_ok_bind_any [OF holding_try] call_ok_or_compensate [OF st])
qed

lemma call_ok_record_token:
  assumes "x = None \<Longrightarrow> saga_ok k g \<Longrightarrow> legal k g g'" and "x = None \<Longrightarrow> call_ok R k S0 g' (f g')"
    and "x \<noteq> None \<Longrightarrow> call_ok R k S0 g (f g)"
  shows "call_ok R k S0 g (ebind (if x = None then let g = g' in ebind (sagas (saga_update g)) (\<lambda>_. eok g) else eok g) f)"
  using assms by (cases x) (simp_all add: ebind_assoc call_ok_update)

lemma call_ok_continue:
  assumes "sg_state g = SsPreparing"
  shows "call_ok R k S0 g (continue_preparation p g)"
proof -
  have st: "sg_state h \<in> {SsPreparing, SsPrepared, SsDestinationPending}" if "sg_state h = SsPreparing" for h
    using that by simp
  have last: "call_ok R k S0 h (commit_leg p (px_origin p) h origin Origin m1
      (commit_leg p (px_destination p) h destination Destination m2
        (ebind (transition_to h SsPrepared) (\<lambda>g. ebind (sagas (saga_update g)) (\<lambda>_. eok g)))))"
    if "sg_state h = SsPreparing" "sg_origin_prepare h \<noteq> None" "sg_destination_prepare h \<noteq> None"
    for h origin destination m1 m2
    using that legal_tokens(3) by (intro call_ok_commit_leg call_ok_transition) auto
  have second: "call_ok R k S0 h
     (ebind (etry (in_env (case sg_destination_prepare h of
                            Some token \<Rightarrow> rm_inspect (px_destination p) token
                          | None \<Rightarrow> rm_prepare (px_destination p) (ag_id (sg_quote h))
                                      (ag_destination (sg_quote h))))) (\<lambda>answer.
     or_compensate p h answer (\<lambda>destination.
     ebind (if sg_destination_prepare h = None
            then let g = h\<lparr>sg_destination_prepare := Some (pp_token destination)\<rparr>
                 in ebind (sagas (saga_update g)) (\<lambda>_. eok g)
            else eok h) (\<lambda>g.
     commit_leg p (px_origin p) g origin Origin m1
       (commit_leg p (px_destination p) g destination Destination m2
          (ebind (transition_to g SsPrepared) (\<lambda>g. ebind (sagas (saga_update g)) (\<lambda>_. eok g))))))))"
    if h: "sg_state h = SsPreparing" "sg_origin_prepare h \<noteq> None" for h origin m1 m2
    by (intro call_ok_bind_any [OF holding_try] call_ok_or_compensate [OF st [OF h(1)]]
        call_ok_record_token last) (use h legal_tokens(2) in auto)
  show ?thesis
    unfolding continue_preparation_def
    by (intro call_ok_bind_any [OF holding_try] call_ok_or_compensate [OF st [OF assms]]
        call_ok_record_token second) (use assms legal_tokens(1) in auto)
qed

lemma holding_issue:
  "triple (holding R k S0 g) (issue kk ops g chain command token) (\<lambda>_. holding R k S0 g) (\<lambda>_. safe R k S0)"
  unfolding issue_def
  by (rule triple_ebind [OF holding_pure]) (rule triple_weaken [OF holding_remote], auto)

lemmas call_ok_issue = call_ok_bind_any [OF holding_issue]

lemma call_ok_delivery:
  assumes "sg_state g \<in> {SsPrepared, SsDestinationPending}"
  shows "call_ok R k S0 g (advance_delivery kk p g t)"
proof -
  have progress: "call_ok R k S0 g (case progress of
      PrPending \<Rightarrow> save (g\<lparr>sg_state := SsDestinationPending\<rparr>)
    | PrFinalized e \<Rightarrow> save (record_lifecycle LcDestinationFill t
        (g\<lparr>sg_destination := Some e, sg_state := SsDestinationFinalized\<rparr>))
    | PrFailed reason \<Rightarrow> compensate p g reason)" for progress
    using assms legal_delivery by (cases progress) (auto intro!: call_ok_save call_ok_compensate)
  show ?thesis
    unfolding advance_delivery_def
    by (intro call_ok_bind [OF holding_pure] call_ok_bind_any [OF holding_remote] call_ok_issue progress)
qed

lemma call_ok_cctp:
  assumes "sg_state g = SsOriginFinalized"
  shows "call_ok R k S0 g (advance_cctp kk p g t)"
  unfolding advance_cctp_def
  using legal_repayment(2,3) [OF _ assms]
  by (auto split: option.split sum.split cctp_error.split
      intro!: call_ok_intros call_ok_save)

lemma call_ok_advance: "call_ok R k S0 g (advance_saga kk p g t)"
proof (cases "sg_state g")
  case SsOriginFinalized
  then show ?thesis
    unfolding advance_saga_def Let_def
    by (auto split: cross_chain_route.split intro!: call_ok_issue call_ok_save call_ok_cctp legal_repayment(1))
qed (auto simp: advance_saga_def Let_def intro!: call_ok_continue call_ok_delivery call_ok_issue call_ok_save
    call_ok_eok legal_proof legal_claim legal_close)

end

end
