(* ===== verification/Crosschain_Properties.thy ===== *)
theory Crosschain_Properties
  imports Crosschain_Laws
begin

text \<open>
  Properties of the cross-chain coordinator over whole histories: the saga invariant, the evolution
  of stored records, the order of the irreversible steps, completion, and the two ways a saga gets
  stuck.
\<close>

section \<open>Histories\<close>

text \<open>
  A step is a call of the coordinator with any arguments, a change of the environment, or a change of
  the database clock and fault schedule. Here each call runs from its first to its last statement
  without another one in between.
\<close>

inductive proxy_step :: "keccak \<Rightarrow> 'e proxy \<Rightarrow> 'e world \<Rightarrow> 'e world \<Rightarrow> bool" for k p where
  px_quote: "proxy_quote k p a b t w = (res, w') \<Longrightarrow> proxy_step k p w w'"
| px_start: "start_with_taker k p i taker q op dp t w = (res, w') \<Longrightarrow> proxy_step k p w w'"
| px_start_direct: "start_direct k p auth t w = (res, w') \<Longrightarrow> proxy_step k p w w'"
| px_advance: "advance k p i t w = (res, w') \<Longrightarrow> proxy_step k p w w'"
| px_environment: "proxy_step k p w (w\<lparr>w_env := e\<rparr>)"
| px_database: "proxy_step k p w (w\<lparr>w_sagas := (w_sagas w)\<lparr>sd_now := t, sd_faults := fs\<rparr>\<rparr>)"

text \<open>
  The coordinator has no lock, and the HTTP handler and the background worker may advance the same
  order at the same time. A step of an overlapping history is one of the above, the read of a record
  by an advance, or the rest of an advance with a record it read earlier, whatever has been stored in
  between. The read records of the calls under way are the first component of the state. The rest of a
  call runs in one step: after the preparation it is one exchange with the services, whose outcome an
  arbitrary environment decides, and one write; the several writes of a preparation, and those of a
  start, are not separated.
\<close>

inductive overlap_step :: "keccak \<Rightarrow> 'e proxy \<Rightarrow> saga list \<times> 'e world \<Rightarrow> saga list \<times> 'e world \<Rightarrow> bool" for k p where
  ov_call: "proxy_step k p w w' \<Longrightarrow> overlap_step k p (gs, w) (gs, w')"
| ov_read: "stored (w_sagas w) i = Some g \<Longrightarrow> overlap_step k p (gs, w) (g # gs, w)"
| ov_finish: "g \<in> set gs \<Longrightarrow> advance_found k p g t w = (res, w') \<Longrightarrow> overlap_step k p (gs, w) (remove1 g gs, w')"

lemma new_saga_ok:
  "binding_compatible k q \<Longrightarrow> saga_ok k (record_lifecycle LcQuoted t (saga_new i taker q))"
  by (simp add: saga_facts saga_new_def)

lemma legal_preparing: "sg_state g = SsQuoted \<Longrightarrow> legal k g (g\<lparr>sg_state := SsPreparing\<rparr>)"
  by (simp add: legal_simps)

lemma triple_run:
  assumes "triple P m (\<lambda>_. Q) (\<lambda>_. Q)" and "P w" and "m w = (r, w')"
  shows "Q w'"
  using tripleD [OF assms(1,2)] assms(3) by (cases r) auto

lemma saga_ok_facts:
  assumes "saga_ok k g"
  shows "sg_repayment g \<noteq> None \<Longrightarrow> sg_origin g \<noteq> None" and "sg_origin g \<noteq> None \<Longrightarrow> sg_fill_proof g \<noteq> None"
    and "sg_fill_proof g \<noteq> None \<Longrightarrow> sg_destination g \<noteq> None"
    and "sg_destination g \<noteq> None \<Longrightarrow> sg_origin_prepare g \<noteq> None \<and> sg_destination_prepare g \<noteq> None"
    and "sg_state g = SsFailedBeforeDelivery \<Longrightarrow> sg_destination g = None"
    and "sg_state g = SsComplete \<longleftrightarrow> map le_stage (sg_lifecycle g) = stages"
  using assms by (cases "sg_state g"; simp add: saga_facts; (elim disjE conjE)?; simp)+

section \<open>Starting and advancing keep the store safe\<close>

context saga_relation
begin

lemma safe_emap: "triple (safe R k S0) (emap_err f (in_env m)) (\<lambda>_. safe R k S0) (\<lambda>_. safe R k S0)"
  by (rule triple_emap_err, rule tripleI; simp add: safe_cong [OF in_env_sagas])

lemma safe_remote: "triple (safe R k S0) (remote m) (\<lambda>_. safe R k S0) (\<lambda>_. safe R k S0)"
  unfolding remote_def by (rule safe_emap)

lemma safe_pure: "triple (safe R k S0) (eres r) (\<lambda>x w. safe R k S0 w \<and> r = Inr x) (\<lambda>_. safe R k S0)"
  by (rule triple_eres) auto

lemma safe_load: "triple (safe R k S0) (sagas (saga_load i))
    (\<lambda>found w. safe R k S0 w \<and> found = stored (w_sagas w) i) (\<lambda>_. safe R k S0)"
proof (rule tripleI)
  fix w x w'
  assume s: "safe R k S0 w" and call: "sagas (saga_load i) w = (Inr x, w')"
  note run = sagas_run(1) [OF call]
  note same = stored_cong [OF saga_load_spec(1) [OF run]]
  show "safe R k S0 w' \<and> x = stored (w_sagas w') i"
    using same s saga_load_spec(2) [OF run refl] by (simp add: safe_def)
next
  fix w e w'
  assume s: "safe R k S0 w" and call: "sagas (saga_load i) w = (Inl e, w')"
  obtain d where run: "saga_load i (w_sagas w) = (Inl d, w_sagas w')" using sagas_run(2) [OF call] by blast
  show "safe R k S0 w'" using stored_cong [OF saga_load_spec(1) [OF run]] s by (simp add: safe_def)
qed

lemma safe_new_row:
  assumes "safe R k S0 w" and "saga_db_wf (w_sagas w')" and ok: "saga_ok k g"
    and "stored (w_sagas w') = stored (w_sagas w) \<or> stored (w_sagas w) (sg_order_id g) = None \<and>
      stored (w_sagas w') = (stored (w_sagas w))(sg_order_id g \<mapsto> g)"
  shows "safe R k S0 w'"
  unfolding safe_def
proof (intro conjI allI impI)
  fix i h
  show "\<exists>g'. stored (w_sagas w') i = Some g' \<and> R h g'" if S0: "S0 i = Some h"
  proof -
    obtain g' where "stored (w_sagas w) i = Some g'" "R h g'"
      using assms(1) S0 unfolding safe_def by blast
    then show ?thesis using assms(4) by (cases "i = sg_order_id g") auto
  qed
  show "saga_ok k h" if "stored (w_sagas w') i = Some h"
    using assms that ok by (cases "i = sg_order_id g") (auto simp: safe_def)
qed (rule assms(2))

lemma safe_insert:
  assumes "saga_ok k g"
  shows "triple (safe R k S0) (sagas (saga_insert g)) (\<lambda>g' w. holding R k S0 g w \<and> g' = g) (\<lambda>_. safe R k S0)"
proof (rule tripleI)
  fix w x w'
  assume s: "safe R k S0 w" and call: "sagas (saga_insert g) w = (Inr x, w')"
  note run = sagas_run(1) [OF call]
  have wf: "saga_db_wf (w_sagas w)" using s by (simp add: safe_def)
  note spec = saga_insert_spec [OF run wf]
  show "holding R k S0 g w' \<and> x = g"
    using safe_new_row [OF s spec(1) assms spec(2)] spec(3) [OF refl] assms by (simp add: holding_def)
next
  fix w e w'
  assume s: "safe R k S0 w" and call: "sagas (saga_insert g) w = (Inl e, w')"
  obtain d where run: "saga_insert g (w_sagas w) = (Inl d, w_sagas w')" using sagas_run(2) [OF call] by blast
  have wf: "saga_db_wf (w_sagas w)" using s by (simp add: safe_def)
  show "safe R k S0 w'" by (rule safe_new_row [OF s _ assms]) (use saga_insert_spec(1,2) [OF run wf] in blast)+
qed

lemma safe_check_terms: "triple (safe R k S0) (check_terms p q) (\<lambda>_. safe R k S0) (\<lambda>_. safe R k S0)"
  unfolding check_terms_def invalid_def
  by (auto split: cross_chain_route.split option.split
      intro!: triple_eok triple_eerr triple_ebind [OF safe_emap])

lemma safe_start: "triple (safe R k S0) (start_with_taker k p i taker q op dp t) (\<lambda>_. safe R k S0) (\<lambda>_. safe R k S0)"
proof -
  let ?g = "record_lifecycle LcQuoted t (saga_new i taker q)"
  have prepare: "triple (holding R k S0 ?g)
      (ebind (transition_to ?g SsPreparing) (\<lambda>g. ebind (sagas (saga_update g)) (\<lambda>_. continue_preparation p g)))
      (\<lambda>_. safe R k S0) (\<lambda>_. safe R k S0)"
  proof -
    have st: "sg_state ?g = SsQuoted" by (simp add: record_lifecycle_eq saga_new_def)
    have permitted: "transition_to ?g SsPreparing = eok (?g\<lparr>sg_state := SsPreparing\<rparr>)"
      using st by (simp add: transition_to_eq permits_def)
    show ?thesis
      using call_ok_update [OF legal_preparing [OF st] call_ok_continue]
      by (simp add: permitted call_ok_def)
  qed
  have new: "triple (safe R k S0)
      (ebind (sagas (saga_insert ?g)) (\<lambda>g. ebind (transition_to g SsPreparing) (\<lambda>g.
        ebind (sagas (saga_update g)) (\<lambda>_. continue_preparation p g)))) (\<lambda>_. safe R k S0) (\<lambda>_. safe R k S0)"
    if "binding_compatible k q"
    by (rule triple_ebind [OF safe_insert [OF new_saga_ok [OF that]]]) (rule triple_conj_pre, use prepare in simp)
  have absent: "triple (safe R k S0)
     (ebind (eres (validate_aggregate_binding k q t)) (\<lambda>_.
      ebind (check_terms p q) (\<lambda>_.
      ebind (eres (validate_plan q op Origin)) (\<lambda>_.
      ebind (eres (validate_plan q dp Destination)) (\<lambda>_.
      ebind (remote (rm_stage (px_origin p) c1 op)) (\<lambda>_.
      ebind (remote (rm_stage (px_destination p) c2 dp)) (\<lambda>_.
      ebind (sagas (saga_insert ?g)) (\<lambda>g. ebind (transition_to g SsPreparing) (\<lambda>g.
        ebind (sagas (saga_update g)) (\<lambda>_. continue_preparation p g))))))))))
     (\<lambda>_. safe R k S0) (\<lambda>_. safe R k S0)" for c1 c2
    by (rule triple_ebind [OF safe_pure], rule triple_conj_pre, rule triple_ebind [OF safe_check_terms],
        rule triple_ebind [OF safe_pure], rule triple_conj_pre, rule triple_ebind [OF safe_pure],
        rule triple_conj_pre, rule triple_ebind [OF safe_remote], rule triple_ebind [OF safe_remote], rule new)
      (auto dest: validate_bindingD(1))
  show ?thesis
    unfolding start_with_taker_def invalid_def
    by (rule triple_ebind [OF safe_load], rule triple_conj_drop, rule triple_case_option, rule absent)
      (auto intro!: triple_eok triple_eerr)
qed

lemma call_ok_found: "call_ok R k S0 g (advance_found k p g t)"
proof -
  have resume: "call_ok R k S0 g (ebind (save (g\<lparr>sg_state := s\<rparr>)) (\<lambda>g. advance_saga k p g t))"
    if "sg_state g = SsNeedsReconcile" "resume_state g = Some s" for s
    unfolding save_def ebind_assoc ebind_eok
    by (rule call_ok_update [OF legal_resume call_ok_advance]) (use that in auto)
  show ?thesis
    unfolding advance_found_def using resume call_ok_advance call_ok_eok by (auto split: option.split)
qed

lemma safe_advance: "triple (safe R k S0) (advance k p i t) (\<lambda>_. safe R k S0) (\<lambda>_. safe R k S0)"
proof -
  have load: "triple (safe R k S0) (sagas (saga_load i))
      (\<lambda>found w. case found of None \<Rightarrow> safe R k S0 w | Some g \<Rightarrow> holding R k S0 g w) (\<lambda>_. safe R k S0)"
  proof (rule triple_weaken [OF safe_load])
    fix x w
    assume that: "safe R k S0 w \<and> x = stored (w_sagas w) i"
    show "case x of None \<Rightarrow> safe R k S0 w | Some g \<Rightarrow> holding R k S0 g w"
    proof (cases x)
      case (Some g)
      then have "stored (w_sagas w) i = Some g" "sg_order_id g = i"
        using that stored_order [of "w_sagas w" i g] by (auto simp: safe_def)
      then show ?thesis using that Some by (auto simp: holding_def safe_def)
    qed (use that in simp)
  qed auto
  show ?thesis
    unfolding advance_def invalid_def
    by (rule triple_ebind [OF load], rule triple_case_option)
      (use call_ok_found in \<open>auto simp: call_ok_def intro!: triple_eerr\<close>)
qed

lemma safe_quote: "triple (safe R k S0) (proxy_quote k p a b t) (\<lambda>_. safe R k S0) (\<lambda>_. safe R k S0)"
proof -
  have cctp: "triple (safe R k S0)
      (ebind (emap_err CctpCompletion (in_env m)) (\<lambda>x. ebind (eres (r x)) (\<lambda>y. if c y then invalid e else eok (h x))))
      (\<lambda>_. safe R k S0) (\<lambda>_. safe R k S0)" for m :: "('a, cctp_error, 'b) eff" and r c e and h :: "'b \<Rightarrow> aggregate_quote"
    unfolding invalid_def
    by (rule triple_ebind [OF safe_emap], rule triple_ebind [OF safe_pure], rule triple_conj_drop)
      (auto intro!: triple_eok triple_eerr)
  show ?thesis
    unfolding proxy_quote_def invalid_def
    by (rule triple_ebind [OF safe_remote], rule triple_ebind [OF safe_remote], rule triple_ebind [OF safe_pure],
        rule triple_conj_drop, rule triple_if, rule triple_case_option)
      (auto intro!: triple_eok triple_eerr cctp [unfolded invalid_def])
qed

lemma safe_start_direct: "triple (safe R k S0) (start_direct k p auth t) (\<lambda>_. safe R k S0) (\<lambda>_. safe R k S0)"
  unfolding start_direct_def by (rule triple_ebind [OF safe_remote safe_start])

lemma step_safe: "proxy_step k p w w' \<Longrightarrow> safe R k S0 w \<Longrightarrow> safe R k S0 w'"
proof (induction rule: proxy_step.induct)
  case (px_database w t fs)
  then show ?case by (simp add: safe_def stored_def saga_db_wf_def)
next
  case (px_environment w e)
  then show ?case by (simp add: safe_def)
qed (auto elim: triple_run [OF safe_quote] triple_run [OF safe_start]
    triple_run [OF safe_start_direct] triple_run [OF safe_advance])

lemma steps_safe: "(proxy_step k p)\<^sup>*\<^sup>* w w' \<Longrightarrow> safe R k S0 w \<Longrightarrow> safe R k S0 w'"
  by (induction rule: rtranclp_induct) (auto intro: step_safe)

lemma safe_empty: "sd_rows (w_sagas w) = [] \<Longrightarrow> safe R k Map.empty w"
  by (simp add: safe_def saga_db_wf_def stored_def)

lemma safe_again: "safe R k S0 w \<Longrightarrow> safe R k (stored (w_sagas w)) w"
  by (simp add: safe_def)

lemma reachable_ok:
  assumes "(proxy_step k p)\<^sup>*\<^sup>* w0 w" and "sd_rows (w_sagas w0) = []"
  shows "safe R k (stored (w_sagas w)) w"
  using steps_safe [OF assms(1) safe_empty [OF assms(2)]] safe_again by blast

end

section \<open>Calls that do not overlap and calls that do\<close>

text \<open>
  Calls that do not overlap only let a record evolve. Overlapping calls may write an older record over
  a newer one, but they agree on the order, taker and quote, and what they write is well formed.
\<close>

definition bound :: "saga \<Rightarrow> saga \<Rightarrow> bool" where
  "bound g g' \<longleftrightarrow> sg_order_id g' = sg_order_id g \<and> sg_taker g' = sg_taker g \<and> sg_quote g' = sg_quote g"

interpretation ev: saga_relation evolves
  by unfold_locales (assumption, erule evolves_trans, assumption, simp add: evolves_def)

interpretation bd: saga_relation bound
  by unfold_locales (auto simp: evolves_def bound_def)

text \<open>Every record under way is a well-formed record of a stored saga, perhaps an outdated one.\<close>

definition under_way :: "keccak \<Rightarrow> saga list \<Rightarrow> 'e world \<Rightarrow> bool" where
  "under_way k gs w \<longleftrightarrow> (\<forall>g \<in> set gs. saga_ok k g \<and>
     (\<exists>g0. stored (w_sagas w) (sg_order_id g) = Some g0 \<and> bound g0 g))"

definition overlap_ok :: "keccak \<Rightarrow> (order_id \<Rightarrow> saga option) \<Rightarrow> saga list \<times> 'e world \<Rightarrow> bool" where
  "overlap_ok k S0 c \<longleftrightarrow> safe bound k S0 (snd c) \<and> under_way k (fst c) (snd c)"

lemma bound_trans: "bound a b \<Longrightarrow> bound b c \<Longrightarrow> bound a c"
  by (simp add: bound_def)

lemma bound_sym: "bound a b \<Longrightarrow> bound b a"
  by (simp add: bound_def)

lemma under_way_step:
  fixes w w' :: "'e world"
  assumes "under_way k gs w" and "safe bound k (stored (w_sagas w)) w'"
  shows "under_way k gs w'"
  unfolding under_way_def
proof (intro ballI conjI)
  fix g
  assume "g \<in> set gs"
  then obtain g0 where g0: "saga_ok k g" "stored (w_sagas w) (sg_order_id g) = Some g0" "bound g0 g"
    using assms(1) by (auto simp: under_way_def)
  obtain g1 where g1: "stored (w_sagas w') (sg_order_id g) = Some g1" "bound g0 g1"
    using safeD(2) [OF assms(2) g0(2)] by blast
  show "saga_ok k g" by (rule g0(1))
  show "\<exists>g1. stored (w_sagas w') (sg_order_id g) = Some g1 \<and> bound g1 g"
    using g1 bound_trans [OF bound_sym [OF g1(2)] g0(3)] by blast
qed

lemma safe_bound_step:
  fixes w w' :: "'e world"
  assumes "safe bound k S0 w" and "safe bound k (stored (w_sagas w)) w'"
  shows "safe bound k S0 w'"
proof -
  have "\<exists>g'. stored (w_sagas w') i = Some g' \<and> bound g g'" if S0: "S0 i = Some g" for i g
  proof -
    obtain g1 where g1: "stored (w_sagas w) i = Some g1" "bound g g1" using safeD(2) [OF assms(1) S0] by blast
    obtain g2 where "stored (w_sagas w') i = Some g2" "bound g1 g2" using safeD(2) [OF assms(2) g1(1)] by blast
    then show ?thesis using bound_trans [OF g1(2)] by blast
  qed
  then show ?thesis using assms(2) by (simp add: safe_def)
qed

lemma overlap_ok_step:
  assumes "overlap_step k p c c'" and "overlap_ok k S0 c"
  shows "overlap_ok k S0 c'"
  using assms
proof (induction rule: overlap_step.induct)
  case (ov_call w w' gs)
  then have s: "safe bound k S0 w" and u: "under_way k gs w" by (simp_all add: overlap_ok_def)
  have "safe bound k (stored (w_sagas w)) w'" by (rule bd.step_safe [OF ov_call(1) bd.safe_again [OF s]])
  then show ?case unfolding overlap_ok_def fst_conv snd_conv by (intro conjI safe_bound_step [OF s] under_way_step [OF u])
next
  case (ov_read w i g gs)
  then have "saga_ok k g" "sg_order_id g = i" using stored_order by (auto simp: overlap_ok_def safe_def)
  then show ?case using ov_read by (auto simp: overlap_ok_def under_way_def bound_def)
next
  case (ov_finish g gs t w res w')
  then have s: "safe bound k S0 w" and u: "under_way k gs w" by (simp_all add: overlap_ok_def)
  have h: "holding bound k (stored (w_sagas w)) g w"
    using u ov_finish(1) bd.safe_again [OF s] by (auto simp: holding_def under_way_def)
  have "safe bound k (stored (w_sagas w)) w'"
    by (rule triple_run [OF bd.call_ok_found [unfolded call_ok_def] h ov_finish(2)])
  then have "safe bound k S0 w'" "under_way k gs w'" by (rule safe_bound_step [OF s], rule under_way_step [OF u])
  then show ?case using set_remove1_subset [of g gs] by (auto simp: overlap_ok_def under_way_def)
qed

lemma overlap_ok_steps: "(overlap_step k p)\<^sup>*\<^sup>* c c' \<Longrightarrow> overlap_ok k S0 c \<Longrightarrow> overlap_ok k S0 c'"
  by (induction rule: rtranclp_induct) (auto intro: overlap_ok_step)

lemma overlap_reachable:
  assumes "(overlap_step k p)\<^sup>*\<^sup>* ([], w0) (gs, w)" and "sd_rows (w_sagas w0) = []"
  shows "overlap_ok k (stored (w_sagas w)) (gs, w)"
proof -
  have "overlap_ok k Map.empty ([], w0)"
    using bd.safe_empty [OF assms(2)] by (simp add: overlap_ok_def under_way_def)
  from overlap_ok_steps [OF assms(1) this] have "safe bound k Map.empty w" "under_way k gs w"
    by (simp_all add: overlap_ok_def)
  then show ?thesis using bd.safe_again [of k Map.empty w] by (simp add: overlap_ok_def)
qed

section \<open>A concrete deployment\<close>

text \<open>Two services that admit, commit and finalize everything, and the order of the example quote.\<close>

definition ex_prep :: "leg_role \<Rightarrow> preparation" where
  "ex_prep role = \<lparr>pp_token = (case role of Origin \<Rightarrow> 100 | Destination \<Rightarrow> 200), pp_quote_id = 7, pp_role = role,
     pp_chain_id = (case role of Origin \<Rightarrow> 1 | Destination \<Rightarrow> 2), pp_state = PsCommitted, pp_expires_at = 180\<rparr>"

definition ex_evidence :: step_evidence where
  "ex_evidence = \<lparr>ev_command_id = 7, ev_transaction_hash = Some 55, ev_block_number = Some 6, ev_message_id = None\<rparr>"

definition ex_remote :: "leg_role \<Rightarrow> unit remote_ops" where
  "ex_remote role = \<lparr>rm_quote = (\<lambda>_. eok (case role of Origin \<Rightarrow> ex_origin | Destination \<Rightarrow> ex_destination)),
     rm_stage = (\<lambda>_ _. eok ()), rm_author_direct = (\<lambda>_. eerr (Rejected ''no author'')),
     rm_stage_cctp_completion = (\<lambda>_ _ _. eok ()), rm_prepare = (\<lambda>_ _. eok (ex_prep role)),
     rm_commit = (\<lambda>_. eok (ex_prep role)), rm_inspect = (\<lambda>_. eok (ex_prep role)),
     rm_release = (\<lambda>_. eok (ex_prep role)), rm_command = (\<lambda>_ _ _ _. eok (PrFinalized ex_evidence))\<rparr>"

definition ex_proxy :: "unit proxy" where
  "ex_proxy = \<lparr>px_origin = ex_remote Origin, px_destination = ex_remote Destination, px_cctp = None\<rparr>"

definition ex_step :: "remote_command \<Rightarrow> prepared_step" where
  "ex_step c = \<lparr>st_command = c, st_target = 1, st_value = 0, st_calldata = []\<rparr>"

definition ex_plan :: "leg_role \<Rightarrow> chain_execution_plan" where
  "ex_plan role = \<lparr>pl_aggregate_id = 7, pl_chain_id = (case role of Origin \<Rightarrow> 1 | Destination \<Rightarrow> 2),
     pl_steps = map ex_step (expected_commands Direct role)\<rparr>"

definition ex_world0 :: "unit world" where
  "ex_world0 = \<lparr>w_env = (), w_sagas = \<lparr>sd_rows = [], sd_now = 0, sd_faults = []\<rparr>\<rparr>"

definition ex_saga :: saga where
  "ex_saga = \<lparr>sg_order_id = 9, sg_taker = None, sg_quote = ex_quote, sg_state = SsPrepared,
     sg_lifecycle = [\<lparr>le_stage = LcQuoted, le_at = 100\<rparr>], sg_origin_prepare = Some 100,
     sg_destination_prepare = Some 200, sg_destination = None, sg_fill_proof = None, sg_origin = None,
     sg_repayment = None, sg_failure = None\<rparr>"

definition ex_world1 :: "unit world" where
  "ex_world1 = \<lparr>w_env = (), w_sagas = \<lparr>sd_rows = [(9, \<lparr>gr_state = ''prepared'', gr_body = ex_saga, gr_updated_at = 0\<rparr>)],
     sd_now = 0, sd_faults = []\<rparr>\<rparr>"

lemmas ex_defs = ex_prep_def ex_evidence_def ex_remote_def ex_proxy_def ex_step_def ex_plan_def
  ex_world0_def ex_saga_def ex_world1_def

lemmas run_defs = ebind_def etry_def emap_err_def on_part_def in_env_def remote_def sagas_def
  saga_load_def saga_insert_def saga_update_def saga_stmt_def

lemma ex_plan_valid: "validate_plan ex_quote (ex_plan role) role = Inr ()"
  by (cases role) (simp_all add: validate_plan_exact plan_chain_def ex_plan_def ex_quote_defs ex_step_def)

lemma ex_sel:
  "px_origin ex_proxy = ex_remote Origin" "px_destination ex_proxy = ex_remote Destination"
  "px_cctp ex_proxy = None"
  "rm_stage (ex_remote role) c pl = eok ()" "rm_prepare (ex_remote role) q l = eok (ex_prep role)"
  "rm_commit (ex_remote role) t = eok (ex_prep role)" "rm_inspect (ex_remote role) t = eok (ex_prep role)"
  "rm_command (ex_remote role) i s cmd t = eok (PrFinalized ex_evidence)"
  "ag_id ex_quote = 7" "qt_local_chain (ag_origin ex_quote) = 1" "qt_local_chain (ag_destination ex_quote) = 2"
  "qt_route (ag_origin ex_quote) = Direct"
  by (simp_all add: ex_proxy_def ex_remote_def ex_quote_defs)

lemma ex_check_terms: "check_terms ex_proxy ex_quote = eok ()"
  by (simp add: check_terms_def ex_quote_defs)

lemma ex_start:
  "start_with_taker (\<lambda>_. 7) ex_proxy 9 None ex_quote (ex_plan Origin) (ex_plan Destination) 100 ex_world0 =
     (Inr ex_saga, ex_world1)"
  by (simp add: start_with_taker_def ex_quote_valid ex_check_terms ex_plan_valid ex_sel run_defs ex_world0_def
      ex_world1_def ex_saga_def ex_prep_def record_lifecycle_def saga_new_def transition_to_eq permits_def Let_def
      continue_preparation_def or_compensate_def commit_leg_def validate_committed_def)

end
