(* ===== verification/Crosschain_History.thy ===== *)
theory Crosschain_History
  imports Crosschain_Properties
begin

text \<open>
  The properties of the cross-chain coordinator (core/src/crosschain/proxy.rs) over whole histories:
  the evidence invariant, the evolution of stored records, the order of the irreversible commands,
  completion, and the situations a saga cannot leave.
\<close>

section \<open>Evidence and evolution\<close>

lemma steps_overlap: "(proxy_step k p)\<^sup>*\<^sup>* w w' \<Longrightarrow> (overlap_step k p)\<^sup>*\<^sup>* (gs, w) (gs, w')"
  by (induction rule: rtranclp_induct) (auto intro: ov_call rtranclp.rtrancl_into_rtrancl)

text \<open>
  C33. In every history of the coordinator, calls that overtake each other included, whatever the chain
  services and the CCTP client answer and wherever the database fails: a stored saga is filed under
  its own order id with a validated quote; repayment evidence exists only after claim evidence, a claim only after a fill proof, a fill proof
  only after delivery, and delivery only with both capital preparations recorded; a saga that failed
  before delivery has no delivery; and the lifecycle is a prefix of the six milestones, complete
  exactly in the complete state.
\<close>

theorem saga_evidence_in_order:
  assumes "(overlap_step k p)\<^sup>*\<^sup>* ([], w0) (gs, w)" and "sd_rows (w_sagas w0) = []"
    and "stored (w_sagas w) i = Some g"
  shows "sg_order_id g = i \<and> binding_compatible k (sg_quote g) \<and>
     (sg_repayment g \<noteq> None \<longrightarrow> sg_origin g \<noteq> None) \<and>
     (sg_origin g \<noteq> None \<longrightarrow> sg_fill_proof g \<noteq> None) \<and>
     (sg_fill_proof g \<noteq> None \<longrightarrow> sg_destination g \<noteq> None) \<and>
     (sg_destination g \<noteq> None \<longrightarrow> sg_origin_prepare g \<noteq> None \<and> sg_destination_prepare g \<noteq> None) \<and>
     (sg_state g = SsFailedBeforeDelivery \<longrightarrow> sg_destination g = None) \<and>
     (sg_state g = SsComplete \<longleftrightarrow> map le_stage (sg_lifecycle g) = stages) \<and>
     (\<exists>n. map le_stage (sg_lifecycle g) = take n stages)"
proof -
  have s: "safe bound k (stored (w_sagas w)) w" using overlap_reachable [OF assms(1,2)] by (simp add: overlap_ok_def)
  have id: "sg_order_id g = i" using s assms(3) stored_order by (auto simp: safe_def)
  have ok: "saga_ok k g" using s assms(3) by (auto simp: safe_def)
  have "\<exists>n. map le_stage (sg_lifecycle g) = take n stages" "binding_compatible k (sg_quote g)"
    using ok unfolding saga_ok_def by blast+
  with id saga_ok_facts [OF ok] show ?thesis by blast
qed

lemma ex_reachable: "(proxy_step (\<lambda>_. 7) ex_proxy)\<^sup>*\<^sup>* ex_world0 ex_world1"
  by (rule r_into_rtranclp) (rule px_start [OF ex_start])

lemma ex_world0_empty: "sd_rows (w_sagas ex_world0) = []"
  by (simp add: ex_world0_def)

lemma ex_stored: "stored (w_sagas ex_world1) 9 = Some ex_saga"
  by (simp add: ex_world1_def stored_def)

theorem saga_evidence_in_order_witness:
  "stored (w_sagas ex_world1) 9 = Some ex_saga \<and> sg_order_id ex_saga = 9 \<and> binding_compatible (\<lambda>_. 7) (sg_quote ex_saga) \<and>
   sg_destination ex_saga = None \<and> (\<exists>n. map le_stage (sg_lifecycle ex_saga) = take n stages)"
  using saga_evidence_in_order [OF steps_overlap [OF ex_reachable] ex_world0_empty ex_stored] ex_stored by (simp add: ex_saga_def)

text \<open>
  C34. What happens to a stored saga after any history, overlapping calls included. Whatever comes next,
  it is never removed, its order, taker and quote stay, and what is stored for it is well formed: its
  state, tokens, evidence and lifecycle match. As long as the calls that come next do not overlap,
  besides, a recorded preparation token or piece of evidence is never overwritten or dropped, the
  lifecycle only grows at its end, and a complete or failed saga never changes again. Nothing more
  holds for calls that overlap, see \<open>overtaken_advance_overwrites\<close> below.
\<close>

theorem sagas_only_evolve:
  assumes "(overlap_step k p)\<^sup>*\<^sup>* ([], w0) (gs, w)" and "sd_rows (w_sagas w0) = []"
    and "stored (w_sagas w) i = Some g"
  shows "(\<forall>gs' w'. (overlap_step k p)\<^sup>*\<^sup>* (gs, w) (gs', w') \<longrightarrow>
        (\<exists>g'. stored (w_sagas w') i = Some g' \<and> bound g g' \<and> saga_ok k g')) \<and>
     (\<forall>w'. (proxy_step k p)\<^sup>*\<^sup>* w w' \<longrightarrow> (\<exists>g'. stored (w_sagas w') i = Some g' \<and> evolves g g'))"
proof (intro conjI allI impI)
  note start = overlap_reachable [OF assms(1,2)]
  fix gs' w'
  assume "(overlap_step k p)\<^sup>*\<^sup>* (gs, w) (gs', w')"
  from overlap_ok_steps [OF this start] have s: "safe bound k (stored (w_sagas w)) w'" by (simp add: overlap_ok_def)
  show "\<exists>g'. stored (w_sagas w') i = Some g' \<and> bound g g' \<and> saga_ok k g'"
    using safeD(2) [OF s assms(3)] safeD(1) [OF s] by blast
next
  fix w'
  assume steps: "(proxy_step k p)\<^sup>*\<^sup>* w w'"
  have "safe bound k (stored (w_sagas w)) w" using overlap_reachable [OF assms(1,2)] by (simp add: overlap_ok_def)
  then have "safe evolves k (stored (w_sagas w)) w" by (simp add: safe_def)
  from ev.steps_safe [OF steps this] show "\<exists>g'. stored (w_sagas w') i = Some g' \<and> evolves g g'"
    using assms(3) by (rule safeD(2))
qed

lemma ex_overlap: "(overlap_step (\<lambda>_. 7) ex_proxy)\<^sup>*\<^sup>* ([], ex_world0) ([ex_saga], ex_world1)"
  by (rule rtranclp.rtrancl_into_rtrancl [OF steps_overlap [OF ex_reachable] ov_read [OF ex_stored]])

theorem sagas_only_evolve_witness:
  "(\<exists>g'. stored (w_sagas (snd (advance_found (\<lambda>_. 7) ex_proxy ex_saga 101 ex_world1))) 9 = Some g' \<and> bound ex_saga g') \<and>
   (\<exists>g'. stored (w_sagas (snd (advance (\<lambda>_. 7) ex_proxy 9 101 ex_world1))) 9 = Some g' \<and> evolves ex_saga g')"
proof -
  let ?w = "snd (advance_found (\<lambda>_. 7) ex_proxy ex_saga 101 ex_world1)"
  have "(overlap_step (\<lambda>_. 7) ex_proxy)\<^sup>*\<^sup>* ([ex_saga], ex_world1) (remove1 ex_saga [ex_saga], ?w)"
    by (rule r_into_rtranclp, rule ov_finish [OF _ prod.collapse [symmetric]]) simp
  moreover have "(proxy_step (\<lambda>_. 7) ex_proxy)\<^sup>*\<^sup>* ex_world1 (snd (advance (\<lambda>_. 7) ex_proxy 9 101 ex_world1))"
    by (rule r_into_rtranclp, rule px_advance) (rule prod.collapse [symmetric])
  ultimately show ?thesis
    using sagas_only_evolve [OF ex_overlap ex_world0_empty ex_stored] by blast
qed

section \<open>The order of the commands\<close>

definition next_command :: "saga \<Rightarrow> remote_command" where
  "next_command g =
     (if sg_destination g = None then Deliver
      else if sg_fill_proof g = None then DispatchFillProof
      else if sg_origin g = None then ClaimOrigin
      else if sg_repayment g = None then DispatchRepayment
      else CloseDestination)"

definition with_commands ::
  "'e proxy \<Rightarrow> (order_id \<Rightarrow> step_id \<Rightarrow> remote_command \<Rightarrow> prepare_token \<Rightarrow> ('e, remote_error, remote_progress) eff) \<Rightarrow>
   (order_id \<Rightarrow> step_id \<Rightarrow> remote_command \<Rightarrow> prepare_token \<Rightarrow> ('e, remote_error, remote_progress) eff) \<Rightarrow> 'e proxy" where
  "with_commands p f h = p\<lparr>px_origin := (px_origin p)\<lparr>rm_command := f\<rparr>,
     px_destination := (px_destination p)\<lparr>rm_command := h\<rparr>\<rparr>"

lemma with_commands_sel [simp]:
  "rm_command (px_origin (with_commands p f h)) = f"
  "rm_command (px_destination (with_commands p f h)) = h"
  "rm_release (px_origin (with_commands p f h)) = rm_release (px_origin p)"
  "rm_release (px_destination (with_commands p f h)) = rm_release (px_destination p)"
  "rm_inspect (px_origin (with_commands p f h)) = rm_inspect (px_origin p)"
  "rm_inspect (px_destination (with_commands p f h)) = rm_inspect (px_destination p)"
  "rm_prepare (px_origin (with_commands p f h)) = rm_prepare (px_origin p)"
  "rm_prepare (px_destination (with_commands p f h)) = rm_prepare (px_destination p)"
  "rm_commit (px_origin (with_commands p f h)) = rm_commit (px_origin p)"
  "rm_commit (px_destination (with_commands p f h)) = rm_commit (px_destination p)"
  "rm_stage_cctp_completion (px_destination (with_commands p f h)) = rm_stage_cctp_completion (px_destination p)"
  "px_cctp (with_commands p f h) = px_cctp p"
  by (simp_all add: with_commands_def)

lemma with_commands_compensate: "compensate (with_commands p f h) = compensate p"
  unfolding fun_eq_iff compensate_def with_commands_sel by simp

lemma with_commands_continue: "continue_preparation (with_commands p f h) = continue_preparation p"
  unfolding fun_eq_iff continue_preparation_def or_compensate_def commit_leg_def with_commands_compensate
    with_commands_sel by simp

lemma issue_cong:
  "(\<And>o' s t. rm_command ops o' s c t = rm_command ops' o' s c t) \<Longrightarrow> issue k ops g ch c tok = issue k ops' g ch c tok"
  by (simp add: issue_def)

lemma advance_saga_commands:
  assumes ok: "saga_ok k g" and st: "sg_state g \<noteq> SsNeedsReconcile"
    and same: "\<And>o' s t. f o' s (next_command g) t = rm_command (px_origin p) o' s (next_command g) t"
      "\<And>o' s t. h o' s (next_command g) t = rm_command (px_destination p) o' s (next_command g) t"
  shows "advance_saga k (with_commands p f h) g t = advance_saga k p g t"
proof -
  have origin: "issue k (px_origin (with_commands p f h)) g ch c tok = issue k (px_origin p) g ch c tok"
    if "c = next_command g" for c ch tok using that same by (intro issue_cong) simp
  have dest: "issue k (px_destination (with_commands p f h)) g ch c tok = issue k (px_destination p) g ch c tok"
    if "c = next_command g" for c ch tok using that same by (intro issue_cong) simp
  have next_is: "sg_state g \<in> {SsPrepared, SsDestinationPending} \<Longrightarrow> Deliver = next_command g"
    "sg_state g \<in> {SsDestinationFinalized, SsFillProofPending} \<Longrightarrow> DispatchFillProof = next_command g"
    "sg_state g = SsOriginPending \<Longrightarrow> ClaimOrigin = next_command g"
    "sg_state g = SsOriginFinalized \<Longrightarrow> DispatchRepayment = next_command g"
    "sg_state g = SsRepaymentPending \<Longrightarrow> CloseDestination = next_command g"
    using ok by (auto simp: next_command_def saga_ok_def level_Some)
  have delivery: "sg_state g \<in> {SsPrepared, SsDestinationPending} \<Longrightarrow>
      advance_delivery k (with_commands p f h) g t = advance_delivery k p g t"
    unfolding advance_delivery_def with_commands_compensate with_commands_sel by (subst dest [OF next_is(1)]) simp_all
  have cctp: "advance_cctp k (with_commands p f h) g t = advance_cctp k p g t"
    unfolding advance_cctp_def with_commands_sel by simp
  show ?thesis
    unfolding advance_saga_def with_commands_continue cctp
    using origin [OF next_is(3)] origin [OF next_is(4)] dest [OF next_is(2)] dest [OF next_is(5)] delivery
    by (cases "sg_state g") (simp_all split: cross_chain_route.split)
qed

text \<open>
  C35. Whatever evidence a reachable saga has, an advance can only depend on the answers to the one command
  that is next in the order deliver, dispatch fill proof, claim origin, dispatch repayment, close
  destination: replacing the answers to every other command on both chains changes nothing. So no
  claim is sent before a fill proof is recorded and no repayment before a claim.
\<close>

theorem commands_follow_evidence:
  assumes "(overlap_step k p)\<^sup>*\<^sup>* ([], w0) (gs, w)" and "sd_rows (w_sagas w0) = []"
    and "stored (w_sagas w) i = Some g"
    and "\<And>o' s t. f o' s (next_command g) t = rm_command (px_origin p) o' s (next_command g) t"
    and "\<And>o' s t. h o' s (next_command g) t = rm_command (px_destination p) o' s (next_command g) t"
  shows "advance k (with_commands p f h) i t w = advance k p i t w"
proof -
  have s: "safe bound k (stored (w_sagas w)) w" using overlap_reachable [OF assms(1,2)] by (simp add: overlap_ok_def)
  have ok: "saga_ok k g" using s assms(3) by (auto simp: safe_def)
  have next_resume: "next_command (g\<lparr>sg_state := st\<rparr>) = next_command g" for st by (simp add: next_command_def)
  have resume: "advance_saga k (with_commands p f h) (g\<lparr>sg_state := st\<rparr>) t = advance_saga k p (g\<lparr>sg_state := st\<rparr>) t"
    if "sg_state g = SsNeedsReconcile" "resume_state g = Some st" for st
  proof (rule advance_saga_commands)
    show "saga_ok k (g\<lparr>sg_state := st\<rparr>)" using legal_resume [OF ok that] ok by (simp add: legal_def)
    show "sg_state (g\<lparr>sg_state := st\<rparr>) \<noteq> SsNeedsReconcile" using that by (auto simp: resume_state_def split: if_splits)
  qed (simp_all add: next_resume assms(4,5))
  have plain: "sg_state g \<noteq> SsNeedsReconcile \<Longrightarrow> advance_saga k (with_commands p f h) g t = advance_saga k p g t"
    by (rule advance_saga_commands) (simp_all add: ok assms(4,5))
  have saved: "ebind (save (g\<lparr>sg_state := st\<rparr>)) (\<lambda>g. advance_saga k (with_commands p f h) g t) =
      ebind (save (g\<lparr>sg_state := st\<rparr>)) (\<lambda>g. advance_saga k p g t)"
    if "sg_state g = SsNeedsReconcile" "resume_state g = Some st" for st
    unfolding save_def ebind_assoc ebind_eok using resume [OF that] by simp
  obtain r w1 where load: "sagas (saga_load i) w = (r, w1)" by (cases "sagas (saga_load i) w")
  have "r = Inr (Some g)" if "r = Inr x" for x
    using saga_load_spec(2) [OF sagas_run(1) [OF load [unfolded that]] refl] assms(3) that by simp
  then show ?thesis
    using load plain saved by (cases r) (auto simp: advance_def advance_found_def ebind_def [of "sagas (saga_load i)"] split: option.split)
qed

theorem commands_follow_evidence_witness:
  "advance (\<lambda>_. 7)
     (with_commands ex_proxy (\<lambda>_ _ _ _. eerr (Unavailable ''down''))
        (\<lambda>_ _ c _. if c = Deliver then eok (PrFinalized ex_evidence) else eerr (Unavailable ''down''))) 9 101 ex_world1 =
   advance (\<lambda>_. 7) (with_commands ex_proxy (\<lambda>_ _ _ _. eerr (Unavailable ''down'')) (\<lambda>_ _ _ _. eok (PrFinalized ex_evidence)))
     9 101 ex_world1"
proof -
  let ?down = "\<lambda>_ _ _ _. eerr (Unavailable ''down'')"
  let ?p = "with_commands ex_proxy ?down (\<lambda>_ _ _ _. eok (PrFinalized ex_evidence))"
  let ?h = "\<lambda>_ _ c _. if c = Deliver then eok (PrFinalized ex_evidence) else eerr (Unavailable ''down'')"
  have same: "with_commands ex_proxy ?down ?h = with_commands ?p ?down ?h" by (simp add: with_commands_def)
  have start: "start_with_taker (\<lambda>_. 7) ?p 9 None ex_quote (ex_plan Origin) (ex_plan Destination) 100 ex_world0 =
      start_with_taker (\<lambda>_. 7) ex_proxy 9 None ex_quote (ex_plan Origin) (ex_plan Destination) 100 ex_world0"
    unfolding start_with_taker_def with_commands_continue check_terms_def with_commands_sel
    by (simp add: with_commands_def)
  have reach: "(proxy_step (\<lambda>_. 7) ?p)\<^sup>*\<^sup>* ex_world0 ex_world1"
    by (rule r_into_rtranclp, rule px_start [OF trans [OF start ex_start]])
  have "next_command ex_saga = Deliver" by (simp add: next_command_def ex_saga_def)
  then show ?thesis
    unfolding same by (intro commands_follow_evidence [OF steps_overlap [OF reach] ex_world0_empty ex_stored]) simp_all
qed

section \<open>Completion\<close>

fun advances :: "keccak \<Rightarrow> 'e proxy \<Rightarrow> order_id \<Rightarrow> u64 \<Rightarrow> nat \<Rightarrow> 'e world \<Rightarrow> 'e world" where
  "advances k p i t 0 w = w"
| "advances k p i t (Suc n) w = advances k p i t n (snd (advance k p i t w))"

text \<open>
  What an advance asks of the two chain services for the command that is next: before a delivery both
  preparations must be confirmed, and then the command is sent to its chain.
\<close>

definition by_origin :: "remote_command \<Rightarrow> bool" where
  "by_origin c \<longleftrightarrow> c \<in> {ClaimOrigin, DispatchRepayment}"

definition confirm :: "'e proxy \<Rightarrow> saga \<Rightarrow> ('e, xc_error, unit) eff" where
  "confirm p g =
     ebind (eres (required_token (sg_origin_prepare g))) (\<lambda>to.
     ebind (eres (required_token (sg_destination_prepare g))) (\<lambda>td.
     ebind (emap_err RemoteSolvent (rm_inspect (px_origin p) to)) (\<lambda>po.
     ebind (emap_err RemoteSolvent (rm_inspect (px_destination p) td)) (\<lambda>pd.
     ebind (eres (validate_committed g po Origin)) (\<lambda>_.
     eres (validate_committed g pd Destination))))))"

definition ask :: "keccak \<Rightarrow> 'e proxy \<Rightarrow> saga \<Rightarrow> remote_command \<Rightarrow> ('e, xc_error, remote_progress) eff" where
  "ask k p g c =
     ebind (if c = Deliver then confirm p g else eok ()) (\<lambda>_.
     ebind (eres (required_token (if by_origin c then sg_origin_prepare g else sg_destination_prepare g))) (\<lambda>token.
     emap_err RemoteSolvent (rm_command (if by_origin c then px_origin p else px_destination p) (sg_order_id g)
       (step_id_of k (sg_order_id g)
          (qt_local_chain (if by_origin c then ag_origin (sg_quote g) else ag_destination (sg_quote g))) c) c token)))"

text \<open>
  \<open>finishes k p g c e n\<close>: in the environment \<open>e\<close> the services of \<open>p\<close> bring the saga \<open>g\<close>, whose next command
  is \<open>c\<close>, to its end in \<open>n\<close> rounds. A round may answer with the finalized command, or with anything
  else: an error, \<open>Pending\<close>, and, for the commands after the delivery, \<open>Failed\<close>; only a failed delivery
  ends the saga differently. Every round is asked in the environment the one before left, so a
  preparation may be executed once its command is finalized.
\<close>

fun following :: "remote_command \<Rightarrow> remote_command" where
  "following Deliver = DispatchFillProof"
| "following DispatchFillProof = ClaimOrigin"
| "following ClaimOrigin = DispatchRepayment"
| "following _ = CloseDestination"

inductive finishes :: "keccak \<Rightarrow> 'e proxy \<Rightarrow> saga \<Rightarrow> remote_command \<Rightarrow> 'e \<Rightarrow> nat \<Rightarrow> bool" for k p g where
  fin_last: "ask k p g CloseDestination e = (Inr (PrFinalized ev), e') \<Longrightarrow> finishes k p g CloseDestination e (Suc 0)"
| fin_next: "ask k p g c e = (Inr (PrFinalized ev), e') \<Longrightarrow> c \<noteq> CloseDestination \<Longrightarrow>
     finishes k p g (following c) e' n \<Longrightarrow> finishes k p g c e (Suc n)"
| fin_retry: "ask k p g c e = (r, e') \<Longrightarrow> (\<And>ev. r \<noteq> Inr (PrFinalized ev)) \<Longrightarrow>
     (\<And>reason. c = Deliver \<Longrightarrow> r \<noteq> Inr (PrFailed reason)) \<Longrightarrow>
     finishes k p g c e' n \<Longrightarrow> finishes k p g c e (Suc n)"

lemma stmt_no_fault:
  "sd_faults db = [] \<Longrightarrow> saga_stmt f db = (case f (sd_now db) (sd_rows db) of (x, rows) \<Rightarrow> (Inr x, db\<lparr>sd_rows := rows\<rparr>))"
  by (simp add: saga_stmt_def split: prod.split)

lemma load_no_fault:
  "sd_faults (w_sagas w) = [] \<Longrightarrow> sagas (saga_load i) w = (Inr (stored (w_sagas w) i), w)"
  by (simp add: sagas_def emap_err_def on_part_def saga_load_def stmt_no_fault stored_def)

lemma advance_loaded:
  assumes "sd_faults (w_sagas w) = []" and "stored (w_sagas w) i = Some g"
  shows "advance k p i t w = advance_found k p g t w"
  using load_no_fault [OF assms(1), of i] assms(2) by (simp add: advance_def ebind_def [of "sagas (saga_load i)"])

lemma save_no_fault:
  assumes "sd_faults (w_sagas w) = []" and wf: "saga_db_wf (w_sagas w)" and "stored (w_sagas w) (sg_order_id g) \<noteq> None"
  obtains w' where "save g w = (Inr g, w')" "w_env w' = w_env w" "sd_faults (w_sagas w') = []"
    "saga_db_wf (w_sagas w')" "stored (w_sagas w') = (stored (w_sagas w))(sg_order_id g \<mapsto> g)"
proof -
  obtain row where row: "bm_get (sd_rows (w_sagas w)) (sg_order_id g) = Some row"
    using assms(3) by (auto simp: stored_def)
  define db where "db = (w_sagas w)\<lparr>sd_rows := bm_insert (sg_order_id g)
      \<lparr>gr_state = saga_state_label (sg_state g), gr_body = g, gr_updated_at = sd_now (w_sagas w)\<rparr> (sd_rows (w_sagas w))\<rparr>"
  have upd: "saga_update g (w_sagas w) = (Inr (), db)"
    using assms(1) row by (simp add: saga_update_def ebind_def stmt_no_fault db_def)
  have "save g w = (Inr g, w\<lparr>w_sagas := db\<rparr>)"
    by (simp add: save_def ebind_def sagas_def emap_err_def on_part_def upd)
  moreover have "saga_db_wf db" "stored db = (stored (w_sagas w))(sg_order_id g \<mapsto> g)"
    using saga_update_spec(1,2) [OF upd wf] by simp_all
  ultimately show ?thesis using that [of "w\<lparr>w_sagas := db\<rparr>"] assms(1) by (simp add: db_def)
qed

lemma remote_run: "m (w_env w) = (Inr x, e') \<Longrightarrow> remote m w = (Inr x, w\<lparr>w_env := e'\<rparr>)"
  by (simp add: remote_def emap_err_def in_env_def on_part_def)

text \<open>What an advance writes when the next command finalizes with evidence \<open>ev\<close>.\<close>

fun finalized :: "saga_state \<Rightarrow> step_evidence \<Rightarrow> u64 \<Rightarrow> saga \<Rightarrow> saga" where
  "finalized SsPrepared ev t g =
     record_lifecycle LcDestinationFill t (g\<lparr>sg_destination := Some ev, sg_state := SsDestinationFinalized\<rparr>)"
| "finalized SsDestinationPending ev t g =
     record_lifecycle LcDestinationFill t (g\<lparr>sg_destination := Some ev, sg_state := SsDestinationFinalized\<rparr>)"
| "finalized SsDestinationFinalized ev t g =
     record_lifecycle LcProofRelay t (g\<lparr>sg_fill_proof := Some ev, sg_state := SsOriginPending\<rparr>)"
| "finalized SsFillProofPending ev t g =
     record_lifecycle LcProofRelay t (g\<lparr>sg_fill_proof := Some ev, sg_state := SsOriginPending\<rparr>)"
| "finalized SsOriginPending ev t g =
     record_lifecycle LcOriginClaim t (g\<lparr>sg_origin := Some ev, sg_state := SsOriginFinalized\<rparr>)"
| "finalized SsOriginFinalized ev t g =
     record_lifecycle LcRepayment t (g\<lparr>sg_repayment := Some ev, sg_state := SsRepaymentPending\<rparr>)"
| "finalized _ ev t g = record_lifecycle LcComplete t (g\<lparr>sg_state := SsComplete\<rparr>)"

fun waiting :: "saga_state \<Rightarrow> saga_state" where
  "waiting SsPrepared = SsDestinationPending"
| "waiting SsDestinationFinalized = SsFillProofPending"
| "waiting s = s"

definition answered :: "saga \<Rightarrow> remote_progress \<Rightarrow> u64 \<Rightarrow> saga" where
  "answered g progress t =
     (case progress of
        PrPending \<Rightarrow> g\<lparr>sg_state := waiting (sg_state g)\<rparr>
      | PrFinalized ev \<Rightarrow> finalized (sg_state g) ev t g
      | PrFailed reason \<Rightarrow> g\<lparr>sg_failure := Some reason, sg_state := SsNeedsReconcile\<rparr>)"

lemma in_env_simps:
  "in_env (ebind m f) = ebind (in_env m) (\<lambda>x. in_env (f x))" "in_env (eres r) = eres r" "in_env (eok x) = eok x"
  "in_env (emap_err RemoteSolvent n) = remote n"
  by (auto simp: fun_eq_iff in_env_def on_part_def ebind_def remote_def emap_err_def split: prod.split sum.split)

lemma next_command_state:
  assumes "saga_ok k g"
  shows "sg_state g \<in> {SsPrepared, SsDestinationPending} \<Longrightarrow> next_command g = Deliver"
    and "sg_state g \<in> {SsDestinationFinalized, SsFillProofPending} \<Longrightarrow> next_command g = DispatchFillProof"
    and "sg_state g = SsOriginPending \<Longrightarrow> next_command g = ClaimOrigin"
    and "sg_state g = SsOriginFinalized \<Longrightarrow> next_command g = DispatchRepayment"
    and "sg_state g = SsRepaymentPending \<Longrightarrow> next_command g = CloseDestination"
  using assms by (auto simp: next_command_def saga_ok_def level_Some)

lemma issue_ask:
  "c \<noteq> Deliver \<Longrightarrow> by_origin c \<Longrightarrow>
     issue k (px_origin p) g (qt_local_chain (ag_origin (sg_quote g))) c (sg_origin_prepare g) = in_env (ask k p g c)"
  "c \<noteq> Deliver \<Longrightarrow> \<not> by_origin c \<Longrightarrow>
     issue k (px_destination p) g (qt_local_chain (ag_destination (sg_quote g))) c (sg_destination_prepare g) = in_env (ask k p g c)"
  by (simp_all add: issue_def ask_def in_env_simps)

lemma delivery_ask:
  "advance_delivery k p g t = ebind (in_env (ask k p g Deliver)) (\<lambda>progress.
     case progress of
       PrPending \<Rightarrow> save (g\<lparr>sg_state := SsDestinationPending\<rparr>)
     | PrFinalized ev \<Rightarrow>
         save (record_lifecycle LcDestinationFill t
                 (g\<lparr>sg_destination := Some ev, sg_state := SsDestinationFinalized\<rparr>))
     | PrFailed reason \<Rightarrow> compensate p g reason)"
  by (simp add: advance_delivery_def ask_def confirm_def by_origin_def issue_def in_env_simps ebind_assoc)

definition settle_answer :: "'e proxy \<Rightarrow> saga \<Rightarrow> u64 \<Rightarrow> remote_progress \<Rightarrow> ('e, saga) proxy_call" where
  "settle_answer p g t progress =
     (case progress of
        PrFailed reason \<Rightarrow> if next_command g = Deliver then compensate p g reason else save (answered g progress t)
      | _ \<Rightarrow> save (answered g progress t))"

lemma settle_post_delivery:
  assumes "next_command g \<noteq> Deliver" and "waiting (sg_state g) = on_pending"
    and "\<And>ev. finalized (sg_state g) ev t g = record_lifecycle stage t ((rec ev g)\<lparr>sg_state := on_final\<rparr>)"
  shows "save (apply_post_delivery g progress on_pending on_final stage t rec) = settle_answer p g t progress"
  using assms by (cases progress) (simp_all add: settle_answer_def apply_post_delivery_def answered_def)

lemma settle_delivery:
  assumes "sg_state g \<in> {SsPrepared, SsDestinationPending}" and "next_command g = Deliver"
  shows "(case progress of
       PrPending \<Rightarrow> save (g\<lparr>sg_state := SsDestinationPending\<rparr>)
     | PrFinalized ev \<Rightarrow> save (record_lifecycle LcDestinationFill t
                 (g\<lparr>sg_destination := Some ev, sg_state := SsDestinationFinalized\<rparr>))
     | PrFailed reason \<Rightarrow> compensate p g reason) = settle_answer p g t progress"
  using assms by (cases progress) (auto simp: settle_answer_def answered_def)

lemma advance_saga_ask:
  assumes ok: "saga_ok k g" and cap: "holds_capital (sg_state g)" and st: "sg_state g \<notin> {SsNeedsReconcile, SsComplete}"
    and direct: "qt_route (ag_origin (sg_quote g)) = Direct"
  shows "advance_saga k p g t = ebind (in_env (ask k p g (next_command g))) (settle_answer p g t)"
proof -
  note next_is = next_command_state [OF ok]
  have delivery: "advance_delivery k p g t = ebind (in_env (ask k p g (next_command g))) (settle_answer p g t)"
    if "sg_state g \<in> {SsPrepared, SsDestinationPending}"
    unfolding delivery_ask settle_delivery [OF that next_is(1) [OF that]] next_is(1) [OF that] ..
  have relay: "ebind (in_env (ask k p g DispatchFillProof)) (\<lambda>progress. save (apply_post_delivery g progress
      SsFillProofPending SsOriginPending LcProofRelay t (\<lambda>ev g. g\<lparr>sg_fill_proof := Some ev\<rparr>))) =
      ebind (in_env (ask k p g (next_command g))) (settle_answer p g t)"
    if "sg_state g \<in> {SsDestinationFinalized, SsFillProofPending}"
    using settle_post_delivery [where g = g and p = p and on_pending = SsFillProofPending and t = t and stage = LcProofRelay and on_final = SsOriginPending
      and rec = "\<lambda>ev g. g\<lparr>sg_fill_proof := Some ev\<rparr>"]
      next_is(2) [OF that] that by auto
  have claim: "ebind (in_env (ask k p g ClaimOrigin)) (\<lambda>progress. save (apply_post_delivery g progress
      SsOriginPending SsOriginFinalized LcOriginClaim t (\<lambda>ev g. g\<lparr>sg_origin := Some ev\<rparr>))) =
      ebind (in_env (ask k p g (next_command g))) (settle_answer p g t)"
    if "sg_state g = SsOriginPending"
    using settle_post_delivery [where g = g and p = p and on_pending = SsOriginPending and t = t and stage = LcOriginClaim and on_final = SsOriginFinalized
      and rec = "\<lambda>ev g. g\<lparr>sg_origin := Some ev\<rparr>"]
      next_is(3) [OF that] that by simp
  have repay: "ebind (in_env (ask k p g DispatchRepayment)) (\<lambda>progress. save (apply_post_delivery g progress
      SsOriginFinalized SsRepaymentPending LcRepayment t (\<lambda>ev g. g\<lparr>sg_repayment := Some ev\<rparr>))) =
      ebind (in_env (ask k p g (next_command g))) (settle_answer p g t)"
    if "sg_state g = SsOriginFinalized"
    using settle_post_delivery [where g = g and p = p and on_pending = SsOriginFinalized and t = t and stage = LcRepayment and on_final = SsRepaymentPending
      and rec = "\<lambda>ev g. g\<lparr>sg_repayment := Some ev\<rparr>"]
      next_is(4) [OF that] that by simp
  have close: "ebind (in_env (ask k p g CloseDestination)) (\<lambda>progress. save (apply_post_delivery g progress
      SsRepaymentPending SsComplete LcComplete t (\<lambda>ev g. g))) =
      ebind (in_env (ask k p g (next_command g))) (settle_answer p g t)"
    if "sg_state g = SsRepaymentPending"
    using settle_post_delivery [where g = g and p = p and on_pending = SsRepaymentPending and t = t and stage = LcComplete and on_final = SsComplete
      and rec = "\<lambda>ev g. g"]
      next_is(5) [OF that] that by simp
  show ?thesis
    unfolding advance_saga_def Let_def
    using cap st direct delivery relay claim repay close
    by (cases "sg_state g") (simp_all add: holds_capital_def issue_ask by_origin_def)
qed

lemma ask_cong:
  "sg_order_id g' = sg_order_id g \<Longrightarrow> sg_quote g' = sg_quote g \<Longrightarrow> sg_origin_prepare g' = sg_origin_prepare g \<Longrightarrow>
   sg_destination_prepare g' = sg_destination_prepare g \<Longrightarrow> ask k p g' = ask k p g"
  by (simp add: ask_def confirm_def validate_committed_def fun_eq_iff)

lemma finishes_cong: "finishes k p g c e n \<Longrightarrow> ask k p g' = ask k p g \<Longrightarrow> finishes k p g' c e n"
  by (induction rule: finishes.induct) (metis finishes.intros)+

lemma answered_facts:
  fixes progress t
  assumes ok: "saga_ok k g" and cap: "holds_capital (sg_state g)" and st: "sg_state g \<notin> {SsNeedsReconcile, SsComplete}"
    and "\<And>reason. next_command g = Deliver \<Longrightarrow> progress \<noteq> PrFailed reason"
  defines "g' \<equiv> answered g progress t"
  shows "saga_ok k g'" "holds_capital (sg_state g')"
    "sg_quote g' = sg_quote g" "sg_order_id g' = sg_order_id g" "ask k p g' = ask k p g"
    "(\<And>ev. progress \<noteq> PrFinalized ev) \<Longrightarrow> sg_state g' \<noteq> SsComplete \<and> next_command g' = next_command g"
    "progress = PrFinalized ev \<Longrightarrow> next_command g \<noteq> CloseDestination \<Longrightarrow>
       sg_state g' \<noteq> SsComplete \<and> next_command g' = following (next_command g)"
    "progress = PrFinalized ev \<Longrightarrow> next_command g = CloseDestination \<Longrightarrow> sg_state g' = SsComplete"
proof -
  note facts = answered_def saga_facts next_command_def
  show "saga_ok k g'" "holds_capital (sg_state g')"
    using ok cap st assms(4) unfolding g'_def by (cases progress; cases "sg_state g"; simp add: facts)+
  show q: "sg_quote g' = sg_quote g" "sg_order_id g' = sg_order_id g"
    using cap st unfolding g'_def by (cases progress; cases "sg_state g"; simp add: facts)+
  have "sg_origin_prepare g' = sg_origin_prepare g" "sg_destination_prepare g' = sg_destination_prepare g"
    using cap st unfolding g'_def by (cases progress; cases "sg_state g"; simp add: facts)+
  then show "ask k p g' = ask k p g" by (rule ask_cong [OF q(2,1)])
  show "sg_state g' \<noteq> SsComplete \<and> next_command g' = next_command g" if "\<And>ev. progress \<noteq> PrFinalized ev"
    using that ok cap st unfolding g'_def by (cases progress; cases "sg_state g"; simp add: facts)
  show "sg_state g' \<noteq> SsComplete \<and> next_command g' = following (next_command g)"
    if "progress = PrFinalized ev" "next_command g \<noteq> CloseDestination"
    using that ok cap st unfolding g'_def by (cases "sg_state g"; simp add: facts; (elim conjE exE)?; simp)
  show "sg_state g' = SsComplete" if "progress = PrFinalized ev" "next_command g = CloseDestination"
    using that ok cap st unfolding g'_def by (cases "sg_state g"; simp add: facts; (elim conjE exE)?; simp)
qed

text \<open>The saga of order \<open>i\<close> is \<open>n\<close> rounds from its end, and the database works.\<close>

definition ends_in :: "keccak \<Rightarrow> 'e proxy \<Rightarrow> saga \<Rightarrow> 'e \<Rightarrow> nat \<Rightarrow> bool" where
  "ends_in k p g e n \<longleftrightarrow> saga_ok k g \<and> holds_capital (sg_state g) \<and> qt_route (ag_origin (sg_quote g)) = Direct \<and>
     (if n = 0 then sg_state g = SsComplete else sg_state g \<noteq> SsComplete \<and> finishes k p g (next_command g) e n)"

definition running :: "keccak \<Rightarrow> 'e proxy \<Rightarrow> order_id \<Rightarrow> nat \<Rightarrow> 'e world \<Rightarrow> bool" where
  "running k p i n w \<longleftrightarrow> saga_db_wf (w_sagas w) \<and> sd_faults (w_sagas w) = [] \<and>
     (\<exists>g. stored (w_sagas w) i = Some g \<and> ends_in k p g (w_env w) n)"

lemma finishes_pos: "finishes k p g c e n \<Longrightarrow> n > 0"
  by (induction rule: finishes.induct) simp_all

lemma save_running:
  assumes "saga_db_wf (w_sagas w)" and "sd_faults (w_sagas w) = []" and "stored (w_sagas w) (sg_order_id g) \<noteq> None"
    and "ends_in k p g (w_env w) n"
  shows "running k p (sg_order_id g) n (snd (save g w))"
proof -
  obtain w' where "save g w = (Inr g, w')" "w_env w' = w_env w" "sd_faults (w_sagas w') = []" "saga_db_wf (w_sagas w')"
    "stored (w_sagas w') = (stored (w_sagas w))(sg_order_id g \<mapsto> g)"
    using save_no_fault [OF assms(2,1,3)] by metis
  then show ?thesis using assms(4) by (simp add: running_def)
qed

lemma answer_running:
  assumes ends: "ends_in k p g e (Suc n)" and st: "sg_state g \<noteq> SsNeedsReconcile"
    and wf: "saga_db_wf (w_sagas w)" "sd_faults (w_sagas w) = []" "stored (w_sagas w) (sg_order_id g) = Some g"
    and ans: "ask k p g (next_command g) e = (r, e')" and env: "w_env w = e'"
  shows "running k p (sg_order_id g) n (snd (ebind (eres r) (settle_answer p g t) w))"
proof -
  let ?c = "next_command g"
  have ok: "saga_ok k g" "holds_capital (sg_state g)" "sg_state g \<notin> {SsNeedsReconcile, SsComplete}"
    and direct: "qt_route (ag_origin (sg_quote g)) = Direct" and fin: "finishes k p g ?c e (Suc n)"
    using ends st by (auto simp: ends_in_def)
  have saved: "running k p (sg_order_id g) n (snd (save (answered g progress t) w))"
    if "ends_in k p (answered g progress t) e' n" "sg_order_id (answered g progress t) = sg_order_id g" for progress
    using save_running [of w "answered g progress t" k p n] that wf env by simp
  from fin show ?thesis
  proof cases
    case (fin_last ev e2)
    note facts = answered_facts [OF ok, where progress = "PrFinalized ev" and t = t]
    have "ends_in k p (answered g (PrFinalized ev) t) e' n"
      using facts(1-3,8) direct fin_last by (simp add: ends_in_def)
    with saved [of "PrFinalized ev"] facts(4) show ?thesis using ans fin_last by (auto simp: settle_answer_def)
  next
    case (fin_next ev e2)
    note facts = answered_facts [OF ok, where progress = "PrFinalized ev" and t = t]
    have "finishes k p (answered g (PrFinalized ev) t) (following ?c) e2 n"
      by (rule finishes_cong [OF fin_next(3) facts(5)]) simp
    then have "ends_in k p (answered g (PrFinalized ev) t) e' n"
      using facts(1-3,7) direct fin_next ans finishes_pos [OF fin_next(3)] by (simp add: ends_in_def)
    with saved [of "PrFinalized ev"] facts(4) show ?thesis using ans fin_next by (auto simp: settle_answer_def)
  next
    case (fin_retry r2 e2)
    then have r: "r2 = r" "e2 = e'" using ans by simp_all
    show ?thesis
    proof (cases r)
      case (Inl err)
      have "ends_in k p g e' n" using ends fin_retry(4) r finishes_pos [OF fin_retry(4)] by (simp add: ends_in_def)
      then show ?thesis using Inl wf env by (auto simp: running_def)
    next
      case (Inr progress)
      have no: "\<And>ev. progress \<noteq> PrFinalized ev" "\<And>reason. ?c = Deliver \<Longrightarrow> progress \<noteq> PrFailed reason"
        using fin_retry(2,3) r Inr by auto
      note facts = answered_facts [OF ok no(2), where t = t]
      have "finishes k p (answered g progress t) ?c e' n"
        by (rule finishes_cong [OF _ facts(5)]) (use fin_retry(4) r in simp_all)
      then have "ends_in k p (answered g progress t) e' n"
        using facts(1-3,6) no(1) direct finishes_pos [OF fin_retry(4)] by (simp add: ends_in_def)
      with saved [of progress] facts(4) show ?thesis
        using Inr no by (cases progress) (auto simp: settle_answer_def)
    qed
  qed
qed

lemma advance_saga_running:
  assumes ends: "ends_in k p g (w_env w) (Suc n)" and st: "sg_state g \<noteq> SsNeedsReconcile"
    and wf: "saga_db_wf (w_sagas w)" "sd_faults (w_sagas w) = []" "stored (w_sagas w) (sg_order_id g) = Some g"
  shows "running k p (sg_order_id g) n (snd (advance_saga k p g t w))"
proof -
  obtain r e' where ans: "ask k p g (next_command g) (w_env w) = (r, e')" by (cases "ask k p g (next_command g) (w_env w)")
  have "advance_saga k p g t = ebind (in_env (ask k p g (next_command g))) (settle_answer p g t)"
    by (rule advance_saga_ask) (use ends st in \<open>auto simp: ends_in_def\<close>)
  then have "advance_saga k p g t w = ebind (eres r) (settle_answer p g t) (w\<lparr>w_env := e'\<rparr>)"
    using ans by (simp add: ebind_def in_env_def on_part_def)
  then show ?thesis using answer_running [OF ends st _ _ _ ans, of "w\<lparr>w_env := e'\<rparr>"] wf by simp
qed

lemma running_step:
  assumes "running k p i (Suc n) w"
  shows "running k p i n (snd (advance k p i t w))"
proof -
  obtain g where wf: "saga_db_wf (w_sagas w)" "sd_faults (w_sagas w) = []" and g: "stored (w_sagas w) i = Some g"
    and ends: "ends_in k p g (w_env w) (Suc n)"
    using assms unfolding running_def by blast
  have id: "sg_order_id g = i" using stored_order [OF wf(1) g] .
  show ?thesis
  proof (cases "sg_state g = SsNeedsReconcile")
    case False
    then show ?thesis using advance_saga_running [OF ends False wf] id g
      by (simp add: advance_loaded [OF wf(2) g] advance_found_def)
  next
    case True
    have ok: "saga_ok k g" using ends by (simp add: ends_in_def)
    then obtain s where s: "resume_state g = Some s" using True by (auto simp: resume_state_def saga_facts)
    let ?g = "g\<lparr>sg_state := s\<rparr>"
    have s': "holds_capital s" "s \<notin> {SsNeedsReconcile, SsComplete}"
      using s by (auto simp: resume_state_def holds_capital_def split: if_splits)
    have same: "ask k p ?g = ask k p g" "next_command ?g = next_command g"
      by (rule ask_cong) (simp_all add: next_command_def)
    have ends': "ends_in k p ?g (w_env w) (Suc n)"
      using legal_resume [OF ok True s] ends s' finishes_cong [OF _ same(1)] same(2)
      by (auto simp: ends_in_def legal_def)
    obtain w' where w': "save ?g w = (Inr ?g, w')" "w_env w' = w_env w" "sd_faults (w_sagas w') = []"
      "saga_db_wf (w_sagas w')" "stored (w_sagas w') = (stored (w_sagas w))(i \<mapsto> ?g)"
      using save_no_fault [of w ?g] wf g id by auto
    have "running k p (sg_order_id ?g) n (snd (advance_saga k p ?g t w'))"
      by (rule advance_saga_running) (use ends' s' w' id in auto)
    then show ?thesis
      using True s w'(1) id by (simp add: advance_loaded [OF wf(2) g] advance_found_def ebind_def)
  qed
qed

lemma running_advances: "running k p i n w \<Longrightarrow> running k p i 0 (advances k p i t n w)"
  by (induction n arbitrary: w) (auto intro: running_step)

text \<open>
  C36. A direct-route saga that holds its capital completes. Take any past, overlapping calls included, after
  which such a saga is stored, possibly waiting for an answer or for reconciliation, and suppose that
  from then on the database works and the two services bring it to its end in \<open>n\<close> rounds: a round
  answers the next command with a finalized transaction, or with an error, \<open>Pending\<close> or, after the
  delivery, \<open>Failed\<close>, and is then repeated. Then \<open>n\<close> advances, one after the other, leave the saga
  complete, with all four pieces of evidence and all six milestones.
\<close>

theorem saga_completes:
  assumes "(overlap_step k p)\<^sup>*\<^sup>* ([], w0) (gs, w)" and "sd_rows (w_sagas w0) = []" and "stored (w_sagas w) i = Some g"
    and "holds_capital (sg_state g)" and "sg_state g \<noteq> SsComplete" and "qt_route (ag_origin (sg_quote g)) = Direct"
    and "sd_faults (w_sagas w) = []" and "finishes k p g (next_command g) (w_env w) n"
  shows "\<exists>g'. stored (w_sagas (advances k p i t n w)) i = Some g' \<and> sg_state g' = SsComplete \<and>
     (\<forall>e \<in> set (evidence g'). e \<noteq> None) \<and> map le_stage (sg_lifecycle g') = stages"
proof -
  have s: "safe bound k (stored (w_sagas w)) w" using overlap_reachable [OF assms(1,2)] by (simp add: overlap_ok_def)
  have "running k p i n w"
    using safeD(1,3) [OF s] assms(3-8) finishes_pos [OF assms(8)] by (auto simp: running_def ends_in_def)
  from running_advances [OF this, of t] obtain g' where
    g': "stored (w_sagas (advances k p i t n w)) i = Some g'" "saga_ok k g'" "sg_state g' = SsComplete"
    unfolding running_def ends_in_def by auto
  then show ?thesis by (auto simp: saga_facts evidence_def)
qed

text \<open>
  Two nodes as the repository's own: a preparation is prepared, then committed; a command is accepted
  only from a preparation in the state the step runner demands; it is pending when it is first asked
  for and final when it is asked for again; the claim is reported as failed in between; and a
  finalized delivery or claim marks its preparation executed. The environment is the state of the two
  preparations and the list of the commands asked for.
\<close>

record ex_node =
  en_origin :: preparation_state
  en_destination :: preparation_state
  en_asked :: "remote_command list"

fun en_state :: "leg_role \<Rightarrow> ex_node \<Rightarrow> preparation_state" where
  "en_state Origin e = en_origin e"
| "en_state Destination e = en_destination e"

fun en_put :: "leg_role \<Rightarrow> preparation_state \<Rightarrow> ex_node \<Rightarrow> ex_node" where
  "en_put Origin s e = e\<lparr>en_origin := s\<rparr>"
| "en_put Destination s e = e\<lparr>en_destination := s\<rparr>"

definition node_command :: "leg_role \<Rightarrow> remote_command \<Rightarrow> (ex_node, remote_error, remote_progress) eff" where
  "node_command role c e =
     (if en_state role e \<notin> (if c \<in> {Deliver, ClaimOrigin} then {PsCommitted, PsExecuted} else {PsExecuted})
      then (Inl (Rejected ''preparation does not authorize this order and command''), e)
      else
        let asked = e\<lparr>en_asked := c # en_asked e\<rparr>;
            n = length (filter (\<lambda>c'. c' = c) (en_asked e))
        in if n = 0 then (Inr PrPending, asked)
           else if n = 1 \<and> c = ClaimOrigin then (Inr (PrFailed ''dropped''), asked)
           else (Inr (PrFinalized ex_evidence),
                 if c \<in> {Deliver, ClaimOrigin} then en_put role PsExecuted asked else asked))"

definition node_prep :: "leg_role \<Rightarrow> (ex_node, remote_error, preparation) eff" where
  "node_prep role e = (Inr ((ex_prep role)\<lparr>pp_state := en_state role e\<rparr>), e)"

definition node_remote :: "leg_role \<Rightarrow> ex_node remote_ops" where
  "node_remote role = \<lparr>rm_quote = (\<lambda>_. eok (case role of Origin \<Rightarrow> ex_origin | Destination \<Rightarrow> ex_destination)),
     rm_stage = (\<lambda>_ _. eok ()), rm_author_direct = (\<lambda>_. eerr (Rejected ''no author'')),
     rm_stage_cctp_completion = (\<lambda>_ _ _. eok ()), rm_prepare = (\<lambda>_ _. node_prep role),
     rm_commit = (\<lambda>_. ebind (emodify (en_put role PsCommitted)) (\<lambda>_. node_prep role)), rm_inspect = (\<lambda>_. node_prep role),
     rm_release = (\<lambda>_. ebind (emodify (en_put role PsReleased)) (\<lambda>_. node_prep role)),
     rm_command = (\<lambda>_ _ c _. node_command role c)\<rparr>"

definition node_proxy :: "ex_node proxy" where
  "node_proxy = \<lparr>px_origin = node_remote Origin, px_destination = node_remote Destination, px_cctp = None\<rparr>"

definition node_world0 :: "ex_node world" where
  "node_world0 = \<lparr>w_env = \<lparr>en_origin = PsPrepared, en_destination = PsPrepared, en_asked = []\<rparr>, w_sagas = w_sagas ex_world0\<rparr>"

definition node_world1 :: "ex_node world" where
  "node_world1 = \<lparr>w_env = \<lparr>en_origin = PsCommitted, en_destination = PsCommitted, en_asked = []\<rparr>, w_sagas = w_sagas ex_world1\<rparr>"

lemma node_sel:
  "px_origin node_proxy = node_remote Origin" "px_destination node_proxy = node_remote Destination"
  "px_cctp node_proxy = None" "rm_stage (node_remote role) cx pl = eok ()"
  "rm_prepare (node_remote role) q l = node_prep role" "rm_inspect (node_remote role) tk = node_prep role"
  "rm_commit (node_remote role) tk = ebind (emodify (en_put role PsCommitted)) (\<lambda>_. node_prep role)"
  "rm_command (node_remote role) o' s c tk = node_command role c"
  by (simp_all add: node_proxy_def node_remote_def)

lemma node_start:
  "start_with_taker (\<lambda>_. 7) node_proxy 9 None ex_quote (ex_plan Origin) (ex_plan Destination) 100 node_world0 =
     (Inr ex_saga, node_world1)"
proof -
  have "check_terms node_proxy ex_quote = eok ()" by (simp add: check_terms_def ex_quote_defs)
  then show ?thesis
    by (simp add: start_with_taker_def ex_quote_valid ex_plan_valid node_sel run_defs ex_world0_def node_world0_def
      node_world1_def ex_world1_def ex_saga_def ex_prep_def record_lifecycle_def saga_new_def transition_to_eq permits_def
      Let_def continue_preparation_def or_compensate_def commit_leg_def validate_committed_def node_prep_def emodify_def
      ex_sel)
qed

lemma node_ask:
  "c \<noteq> Deliver \<Longrightarrow> ask k node_proxy ex_saga c e =
     (case node_command (if by_origin c then Origin else Destination) c e of (r, e') \<Rightarrow> (map_sum RemoteSolvent id r, e'))"
  "en_origin e = PsCommitted \<Longrightarrow> en_destination e = PsCommitted \<Longrightarrow> ask k node_proxy ex_saga Deliver e =
     (case node_command Destination Deliver e of (r, e') \<Rightarrow> (map_sum RemoteSolvent id r, e'))"
  by (simp_all add: ask_def confirm_def by_origin_def node_sel ebind_def emap_err_def node_prep_def required_token_def
      validate_committed_def ex_prep_def ex_saga_def ex_quote_defs)

lemma node_finishes: "finishes k node_proxy ex_saga Deliver (w_env node_world1) 11"
proof -
  note [simp] = node_ask node_command_def by_origin_def
  let ?fin = "finishes k node_proxy ex_saga" and ?ask = "ask k node_proxy ex_saga"
  let ?e = "\<lambda>so sd n. \<lparr>en_origin = so, en_destination = sd, en_asked = drop n
     [CloseDestination, DispatchRepayment, DispatchRepayment, ClaimOrigin, ClaimOrigin, ClaimOrigin, DispatchFillProof,
      DispatchFillProof, Deliver, Deliver]\<rparr>"
  have retry: "?fin c e m" if "?fin c e' n" "m = Suc n" "?ask c e = (r, e')" "\<forall>ev. r \<noteq> Inr (PrFinalized ev)"
    "c = Deliver \<Longrightarrow> \<forall>reason. r \<noteq> Inr (PrFailed reason)" for c e e' r m n
    unfolding that(2) by (rule fin_retry [OF that(3)]) (use that in auto)
  have final: "?fin c e m" if "?fin c' e' n" "m = Suc n" "c' = following c" "c \<noteq> CloseDestination"
    "?ask c e = (Inr (PrFinalized ev), e')" for c c' e e' ev m n
    unfolding that(2) by (rule fin_next [OF that(5,4)]) (use that in simp)
  have f1: "?fin CloseDestination (?e PsExecuted PsExecuted 0) 1"
    unfolding One_nat_def by (rule fin_last [of _ _ _ _ ex_evidence]) simp
  have f2: "?fin CloseDestination (?e PsExecuted PsExecuted 1) 2"
    by (rule retry [OF f1 _, where r = "Inr PrPending"]) simp_all
  have f3: "?fin DispatchRepayment (?e PsExecuted PsExecuted 2) 3"
    by (rule final [OF f2 _, where ev = ex_evidence]) simp_all
  have f4: "?fin DispatchRepayment (?e PsExecuted PsExecuted 3) 4"
    by (rule retry [OF f3 _, where r = "Inr PrPending"]) simp_all
  have f5: "?fin ClaimOrigin (?e PsCommitted PsExecuted 4) 5"
    by (rule final [OF f4 _, where ev = ex_evidence]) simp_all
  have f6: "?fin ClaimOrigin (?e PsCommitted PsExecuted 5) 6"
    by (rule retry [OF f5 _, where r = "Inr (PrFailed ''dropped'')"]) simp_all
  have f7: "?fin ClaimOrigin (?e PsCommitted PsExecuted 6) 7"
    by (rule retry [OF f6 _, where r = "Inr PrPending"]) simp_all
  have f8: "?fin DispatchFillProof (?e PsCommitted PsExecuted 7) 8"
    by (rule final [OF f7 _, where ev = ex_evidence]) simp_all
  have f9: "?fin DispatchFillProof (?e PsCommitted PsExecuted 8) 9"
    by (rule retry [OF f8 _, where r = "Inr PrPending"]) simp_all
  have f10: "?fin Deliver (?e PsCommitted PsCommitted 9) 10"
    by (rule final [OF f9 _, where ev = ex_evidence]) simp_all
  have f11: "?fin Deliver (?e PsCommitted PsCommitted 10) 11"
    by (rule retry [OF f10 _, where r = "Inr PrPending"]) simp_all
  from f11 show ?thesis by (simp add: node_world1_def)
qed

lemma node_reach: "(proxy_step (\<lambda>_. 7) node_proxy)\<^sup>*\<^sup>* node_world0 node_world1"
  by (rule r_into_rtranclp) (rule px_start [OF node_start])

lemma node_stored: "stored (w_sagas node_world1) 9 = Some ex_saga" "sd_rows (w_sagas node_world0) = []"
  using ex_stored ex_world0_empty by (simp_all add: node_world0_def node_world1_def)

theorem saga_completes_witness:
  "\<exists>g'. stored (w_sagas (advances (\<lambda>_. 7) node_proxy 9 101 11 node_world1)) 9 = Some g' \<and> sg_state g' = SsComplete"
proof -
  have "holds_capital (sg_state ex_saga)" "sg_state ex_saga \<noteq> SsComplete"
    "qt_route (ag_origin (sg_quote ex_saga)) = Direct" "sd_faults (w_sagas node_world1) = []"
    by (simp_all add: holds_capital_def ex_saga_def ex_quote_defs node_world1_def ex_world1_def)
  moreover have "next_command ex_saga = Deliver" by (simp add: next_command_def ex_saga_def)
  ultimately show ?thesis
    using saga_completes [OF steps_overlap [OF node_reach] node_stored(2,1), of 11 101] node_finishes [of "\<lambda>_. 7"] by auto
qed

section \<open>Overlapping calls\<close>

text \<open>
  Why \<open>sagas_only_evolve\<close> promises less for overlapping calls: an advance that was overtaken between its
  read and its write, and whose command was answered \<open>Pending\<close>, stores the record it read, whatever
  is stored by then. Evidence and milestones recorded in between are dropped, and a saga that was
  completed in between is open again. (When the answer was given does not matter here, because the
  environment may be any at any time.)
\<close>

theorem overtaken_advance_overwrites:
  assumes "(overlap_step k p)\<^sup>*\<^sup>* ([], w0) (gs, w)" and "sd_rows (w_sagas w0) = []" and "g \<in> set gs"
    and "holds_capital (sg_state g)" and "sg_state g \<notin> {SsNeedsReconcile, SsComplete}"
    and "sd_faults (w_sagas w) = []" and "qt_route (ag_origin (sg_quote g)) = Direct"
    and "ask k p g (next_command g) (w_env w) = (Inr PrPending, e)"
  shows "\<exists>w' g'. overlap_step k p (gs, w) (remove1 g gs, w') \<and> stored (w_sagas w') (sg_order_id g) = Some g' \<and>
     evidence g' = evidence g \<and> sg_lifecycle g' = sg_lifecycle g \<and> sg_state g' \<noteq> SsComplete"
proof -
  have "safe bound k (stored (w_sagas w)) w" "under_way k gs w"
    using overlap_reachable [OF assms(1,2)] by (simp_all add: overlap_ok_def)
  then have ok: "saga_ok k g" and row: "stored (w_sagas w) (sg_order_id g) \<noteq> None" and wf: "saga_db_wf (w_sagas w)"
    using assms(3) by (auto simp: under_way_def safe_def)
  let ?g = "g\<lparr>sg_state := waiting (sg_state g)\<rparr>"
  obtain w' where w': "save ?g (w\<lparr>w_env := e\<rparr>) = (Inr ?g, w')"
    "stored (w_sagas w') = (stored (w_sagas w))(sg_order_id ?g \<mapsto> ?g)"
    using save_no_fault [of "w\<lparr>w_env := e\<rparr>" ?g] assms(6) wf row by auto
  have "advance_found k p g t w = (Inr ?g, w')" for t
    using assms(5,8) w'(1)
    by (simp add: advance_saga_ask [OF ok assms(4,5,7)] advance_found_def ebind_def in_env_def on_part_def
        settle_answer_def answered_def)
  then have "overlap_step k p (gs, w) (remove1 g gs, w')" by (rule ov_finish [OF assms(3)])
  moreover have "sg_state ?g \<noteq> SsComplete" using assms(5) by (cases "sg_state g") auto
  ultimately show ?thesis using w'(2) by (intro exI [of _ w'] exI [of _ ?g]) (simp add: evidence_def)
qed

lemma advances_steps: "(proxy_step k p)\<^sup>*\<^sup>* w (advances k p i t n w)"
proof (induction n arbitrary: w)
  case (Suc n)
  have "proxy_step k p w (snd (advance k p i t w))" by (rule px_advance) (rule prod.collapse [symmetric])
  then show ?case using Suc.IH [of "snd (advance k p i t w)"] by (simp add: converse_rtranclp_into_rtranclp)
qed simp

lemma node_running: "running (\<lambda>_. 7) node_proxy 9 11 node_world1"
proof -
  have "safe evolves (\<lambda>_. 7) (stored (w_sagas node_world1)) node_world1"
    by (rule ev.reachable_ok [OF node_reach node_stored(2)])
  then have "saga_ok (\<lambda>_. 7) ex_saga" "saga_db_wf (w_sagas node_world1)" using safeD(1,3) node_stored(1) by blast+
  moreover have "sd_faults (w_sagas node_world1) = []" by (simp add: node_world1_def ex_world1_def)
  moreover have "next_command ex_saga = Deliver" "holds_capital (sg_state ex_saga)" "sg_state ex_saga \<noteq> SsComplete"
    "qt_route (ag_origin (sg_quote ex_saga)) = Direct"
    by (simp_all add: next_command_def holds_capital_def ex_saga_def ex_quote_defs)
  ultimately show ?thesis using node_finishes node_stored(1) by (simp add: running_def ends_in_def)
qed

text \<open>
  It happens: the worker runs the saga to its end while an advance that had read it in the prepared
  state waits for the answer to its delivery command. Its write takes the complete saga back to a
  pending delivery without any evidence.
\<close>

theorem overtaken_advance_reopens_saga:
  "\<exists>w w' g g'. (overlap_step (\<lambda>_. 7) node_proxy)\<^sup>*\<^sup>* ([], node_world0) ([ex_saga], w) \<and>
     stored (w_sagas w) 9 = Some g \<and> sg_state g = SsComplete \<and>
     overlap_step (\<lambda>_. 7) node_proxy ([ex_saga], w) ([], w') \<and> stored (w_sagas w') 9 = Some g' \<and>
     sg_state g' \<noteq> SsComplete \<and> evidence g' = [None, None, None, None]"
proof -
  let ?o = "overlap_step (\<lambda>_. 7) node_proxy"
  let ?last = "advances (\<lambda>_. 7) node_proxy 9 101 11 node_world1"
  let ?w = "?last\<lparr>w_env := w_env node_world1\<rparr>"
  have "?o\<^sup>*\<^sup>* ([], node_world0) ([ex_saga], node_world1)"
    by (rule rtranclp.rtrancl_into_rtrancl [OF steps_overlap [OF node_reach] ov_read [OF node_stored(1)]])
  moreover have "(proxy_step (\<lambda>_. 7) node_proxy)\<^sup>*\<^sup>* node_world1 ?w"
    by (rule rtranclp.rtrancl_into_rtrancl [OF advances_steps px_environment])
  ultimately have reach: "?o\<^sup>*\<^sup>* ([], node_world0) ([ex_saga], ?w)"
    using steps_overlap by (metis (no_types, lifting) rtranclp_trans)
  obtain g where g: "stored (w_sagas ?last) 9 = Some g" "sg_state g = SsComplete" "sd_faults (w_sagas ?last) = []"
    using running_advances [OF node_running, of 101] unfolding running_def ends_in_def by auto
  have saga: "holds_capital (sg_state ex_saga)" "sg_state ex_saga \<notin> {SsNeedsReconcile, SsComplete}"
    "qt_route (ag_origin (sg_quote ex_saga)) = Direct" "next_command ex_saga = Deliver" "sg_order_id ex_saga = 9"
    "evidence ex_saga = [None, None, None, None]"
    by (simp_all add: holds_capital_def ex_saga_def ex_quote_defs next_command_def evidence_def)
  have "\<exists>e. ask (\<lambda>_. 7) node_proxy ex_saga (next_command ex_saga) (w_env ?w) = (Inr PrPending, e)"
    by (simp add: saga(4) node_world1_def node_ask node_command_def)
  then obtain e where "ask (\<lambda>_. 7) node_proxy ex_saga (next_command ex_saga) (w_env ?w) = (Inr PrPending, e)" ..
  from overtaken_advance_overwrites [OF reach node_stored(2) _ saga(1,2) _ saga(3) this]
  obtain w' g' where "?o ([ex_saga], ?w) ([], w')" "stored (w_sagas w') 9 = Some g'"
    "evidence g' = evidence ex_saga" "sg_state g' \<noteq> SsComplete"
    using g(3) saga(5) by auto
  then show ?thesis using reach g(1,2) saga(6) by (intro exI [of _ ?w] exI [of _ w'] exI [of _ g] exI [of _ g']) simp
qed

section \<open>Quotes the coordinator issues\<close>

text \<open>
  C37. Every aggregate quote the coordinator issues, on either route and whatever the chain services and
  the CCTP client answer, passes the admission check at the time it was issued, so it can be started
  until it expires; on the CCTP route the origin output covers the destination repayment and the fee.
\<close>

theorem issued_quotes_are_admitted:
  assumes "proxy_quote k p a b t w = (Inr q, w')"
  shows "validate_aggregate_binding k q t = Inr () \<and>
     (qt_route (ag_origin q) = Cctp \<longrightarrow>
        qt_amount_in (ag_destination q) + ag_bridge_fee q \<le> qt_amount_out (ag_origin q))"
proof -
  let ?Q = "\<lambda>q. validate_aggregate_binding k q t = Inr () \<and> (qt_route (ag_origin q) = Cctp \<longrightarrow>
     qt_amount_in (ag_destination q) + ag_bridge_fee q \<le> qt_amount_out (ag_origin q))"
  have base: "binding_compatible k q0 \<and> t < ag_expires_at q0 \<and> ag_bridge_fee q0 = 0 \<and> ag_cctp_finality_threshold q0 = None"
    if "aggregate_quote_of k origin destination t = Inr q0" for origin destination q0
    using that by (auto simp: aggregate_quote_of_def binding_compatible_def Let_def split: if_splits)
  have direct: "?Q q0" if "aggregate_quote_of k origin destination t = Inr q0" "qt_route (ag_origin q0) \<noteq> Cctp"
    for origin destination q0
    using base [OF that(1)] that(2) by (cases "qt_route (ag_origin q0)") (simp_all add: validate_aggregate_binding_def)
  have cctp: "?Q (q0\<lparr>ag_bridge_fee := fee, ag_cctp_finality_threshold := Some threshold,
               ag_id := aggregate_id k (ag_origin q0) (ag_destination q0) fee (Some threshold)\<rparr>)"
    if "aggregate_quote_of k origin destination t = Inr q0" "qt_route (ag_origin q0) = Cctp"
      "ok_or err (checked_add (qt_amount_in (ag_destination q0)) fee) = Inr required"
      "\<not> qt_amount_out (ag_origin q0) < required" for origin destination q0 fee threshold required err
    using base [OF that(1)] that(2-)
    by (simp add: validate_aggregate_binding_def binding_compatible_def checked_add_def split: if_splits)
  have "triple (\<lambda>_. True) (proxy_quote k p a b t) (\<lambda>q _. ?Q q) (\<lambda>_ _. True)"
    unfolding proxy_quote_def invalid_def
    by (rule triple_ebind [OF triple_any], rule triple_ebind [OF triple_any], rule triple_ebind [OF triple_known],
        rule triple_pure_pre, rule triple_if, rule triple_case_option, rule triple_eerr, simp,
        rule triple_ebind [OF triple_any], rule triple_ebind [OF triple_known], rule triple_pure_pre,
        rule triple_if, rule triple_eerr, simp, rule triple_eok, rule cctp, assumption+,
        rule triple_eok, rule direct)
  from tripleD(1) [OF this TrueI assms] show ?thesis .
qed

definition ex_request :: "leg_role \<Rightarrow> leg_quote_request" where
  "ex_request role = \<lparr>lq_request_id = 3, lq_role = role, lq_local_chain = 1, lq_remote_chain = 2, lq_input_token = 21,
     lq_output_token = 22, lq_amount = 1000, lq_deadline = 300, lq_route = Direct\<rparr>"

theorem issued_quotes_are_admitted_witness:
  "\<exists>q w'. proxy_quote (\<lambda>_. 7) ex_proxy (ex_request Origin) (ex_request Destination) 100 ex_world0 = (Inr q, w') \<and> validate_aggregate_binding (\<lambda>_. 7) q 100 = Inr ()"
proof -
  have agg: "aggregate_quote_of (\<lambda>_. 7) ex_origin ex_destination 100 = Inr ex_quote"
    by (simp add: aggregate_quote_of_def leg_quote_id_def aggregate_id_def ex_quote_defs)
  have "proxy_quote (\<lambda>_. 7) ex_proxy (ex_request Origin) (ex_request Destination) 100 ex_world0 = (Inr ex_quote, ex_world0)"
    by (simp add: proxy_quote_def run_defs ex_proxy_def ex_remote_def agg ex_world0_def, simp add: ex_quote_defs)
  with issued_quotes_are_admitted [OF this] show ?thesis by blast
qed

section \<open>Sagas that cannot be advanced\<close>

lemma uncommitted_advance:
  assumes "sd_faults (w_sagas w) = []" and "stored (w_sagas w) i = Some g"
    and "sg_state g \<in> {SsPrepared, SsDestinationPending}"
    and "sg_origin_prepare g = Some to" and "sg_destination_prepare g = Some td"
    and "\<And>e. \<exists>po pd e1 e2. rm_inspect (px_origin p) to e = (Inr po, e1) \<and>
       rm_inspect (px_destination p) td e1 = (Inr pd, e2) \<and> (pp_state po \<noteq> PsCommitted \<or> pp_state pd \<noteq> PsCommitted)"
  shows "\<exists>e. advance k p i t w =
     (Inl (InvalidCrossChain ''remote service did not confirm the expected committed preparation''), w\<lparr>w_env := e\<rparr>)"
proof -
  obtain po pd e1 e2 where o1: "rm_inspect (px_origin p) to (w_env w) = (Inr po, e1)"
    and d1: "rm_inspect (px_destination p) td e1 = (Inr pd, e2)"
    and bad: "pp_state po \<noteq> PsCommitted \<or> pp_state pd \<noteq> PsCommitted" using assms(6) by blast
  have r1: "remote (rm_inspect (px_origin p) to) w = (Inr po, w\<lparr>w_env := e1\<rparr>)" by (rule remote_run) (rule o1)
  have r2: "remote (rm_inspect (px_destination p) td) (w\<lparr>w_env := e1\<rparr>) = (Inr pd, w\<lparr>w_env := e2\<rparr>)"
    using remote_run [of "rm_inspect (px_destination p) td" "w\<lparr>w_env := e1\<rparr>"] d1 by simp
  let ?e = "InvalidCrossChain ''remote service did not confirm the expected committed preparation''"
  have v: "validate_committed g prep role = Inr () \<or> validate_committed g prep role = Inl ?e" for prep role
    by (simp add: validate_committed_def Let_def)
  have "pp_state prep \<noteq> PsCommitted \<Longrightarrow> validate_committed g prep role = Inl ?e" for prep role
    by (simp add: validate_committed_def Let_def)
  then have "validate_committed g po Origin = Inl ?e \<or>
      validate_committed g po Origin = Inr () \<and> validate_committed g pd Destination = Inl ?e"
    using bad v [of po Origin] by blast
  then have "advance_delivery k p g t w = (Inl ?e, w\<lparr>w_env := e2\<rparr>)"
    using assms(4,5) r1 r2 by (auto simp: advance_delivery_def required_token_def ebind_run(1))
  then show ?thesis using assms(3) by (auto simp: advance_loaded [OF assms(1,2)] advance_found_def advance_saga_def)
qed

text \<open>
  C39. Once either leg's preparation is no longer in the committed state, a prepared or delivering saga is
  stuck: every advance fails and no number of retries changes the stored record. Both cases arise in
  the code: the destination service marks the preparation executed before it answers a finalized
  delivery, so a lost answer leaves it executed, and a compensation that could release only one of the
  two holds leaves the other released.
\<close>

theorem uncommitted_leg_strands_saga:
  assumes "sd_faults (w_sagas w) = []" and "stored (w_sagas w) i = Some g"
    and "sg_state g \<in> {SsPrepared, SsDestinationPending}"
    and "sg_origin_prepare g = Some to" and "sg_destination_prepare g = Some td"
    and "\<And>e. \<exists>po pd e1 e2. rm_inspect (px_origin p) to e = (Inr po, e1) \<and>
       rm_inspect (px_destination p) td e1 = (Inr pd, e2) \<and> (pp_state po \<noteq> PsCommitted \<or> pp_state pd \<noteq> PsCommitted)"
  shows "isl (fst (advance k p i t (advances k p i t n w))) \<and>
     w_sagas (advances k p i t n w) = w_sagas w"
  using assms(1,2)
proof (induction n arbitrary: w)
  case 0
  then show ?case using uncommitted_advance [OF 0 assms(3-6), of k t] by auto
next
  case (Suc n)
  obtain e where "advance k p i t w =
     (Inl (InvalidCrossChain ''remote service did not confirm the expected committed preparation''), w\<lparr>w_env := e\<rparr>)"
    using uncommitted_advance [OF Suc.prems assms(3-6)] by blast
  then show ?case using Suc.IH [of "w\<lparr>w_env := e\<rparr>"] Suc.prems by simp
qed

definition ex_executed :: "unit proxy" where
  "ex_executed = ex_proxy\<lparr>px_destination := (ex_remote Destination)
     \<lparr>rm_inspect := (\<lambda>_. eok ((ex_prep Destination)\<lparr>pp_state := PsExecuted\<rparr>))\<rparr>\<rparr>"

theorem uncommitted_leg_strands_saga_witness:
  "w_sagas (advances (\<lambda>_. 7) ex_executed 9 101 20 ex_world1) = w_sagas ex_world1"
proof -
  have "isl (fst (advance (\<lambda>_. 7) ex_executed 9 101 (advances (\<lambda>_. 7) ex_executed 9 101 20 ex_world1))) \<and>
     w_sagas (advances (\<lambda>_. 7) ex_executed 9 101 20 ex_world1) = w_sagas ex_world1"
    by (rule uncommitted_leg_strands_saga [OF _ ex_stored])
      (simp_all add: ex_world1_def ex_saga_def ex_executed_def ex_sel)
  then show ?thesis ..
qed

text \<open>
  C40. A saga whose row was written but whose move to preparing was not is never resumed: advancing it
  returns it unchanged and starting the same order again returns it unchanged, so no capital is ever
  prepared for it although the store keeps listing it as recoverable.
\<close>

theorem quoted_saga_is_not_resumed:
  assumes "sd_faults (w_sagas w) = []" and "stored (w_sagas w) i = Some g" and "sg_state g = SsQuoted"
    and "saga_db_wf (w_sagas w)"
  shows "advance k p i t w = (Inr g, w) \<and>
     start_with_taker k p i taker (sg_quote g) op dp t w = (Inr g, w) \<and>
     (\<exists>gs. proxy_recoverable w = (Inr gs, w) \<and> g \<in> set gs)"
proof -
  obtain gs where rec: "saga_recoverable (w_sagas w) = (Inr gs, w_sagas w)"
    using assms(1) by (simp add: saga_recoverable_def stmt_no_fault)
  then have "proxy_recoverable w = (Inr gs, w)"
    by (simp add: proxy_recoverable_def sagas_def emap_err_def on_part_def)
  moreover have "g \<in> set gs"
    using saga_recoverable_spec(1) [OF rec assms(4)] assms(2,3) by auto
  moreover have "start_with_taker k p i taker (sg_quote g) op dp t w = (Inr g, w)"
    using load_no_fault [OF assms(1), of i] assms(2)
    by (simp add: start_with_taker_def ebind_def [of "sagas (saga_load i)"])
  ultimately show ?thesis
    using assms(3) by (auto simp: advance_loaded [OF assms(1,2)] advance_found_def advance_saga_def)
qed

text \<open>The update of the fourth statement fails; afterwards the database works again.\<close>

definition ex_faulty :: "unit world" where
  "ex_faulty = ex_world0\<lparr>w_sagas := (w_sagas ex_world0)\<lparr>sd_faults := [False, False, False, True]\<rparr>\<rparr>"

theorem quoted_saga_is_not_resumed_witness:
  "\<exists>g w. start_with_taker (\<lambda>_. 7) ex_proxy 9 None ex_quote (ex_plan Origin) (ex_plan Destination) 100 ex_faulty =
       (Inl (SagaStore (SagaBackend ''database'')), w) \<and>
     stored (w_sagas w) 9 = Some g \<and> advance (\<lambda>_. 7) ex_proxy 9 101 w = (Inr g, w)"
proof -
  define g where "g = ex_saga\<lparr>sg_state := SsQuoted, sg_origin_prepare := None, sg_destination_prepare := None\<rparr>"
  define w where "w = ex_world0\<lparr>w_sagas := \<lparr>sd_rows = [(9, \<lparr>gr_state = ''quoted'', gr_body = g, gr_updated_at = 0\<rparr>)],
     sd_now = 0, sd_faults = []\<rparr>\<rparr>"
  have run: "start_with_taker (\<lambda>_. 7) ex_proxy 9 None ex_quote (ex_plan Origin) (ex_plan Destination) 100 ex_faulty =
      (Inl (SagaStore (SagaBackend ''database'')), w)"
    by (simp add: start_with_taker_def ex_quote_valid ex_check_terms ex_plan_valid ex_sel run_defs ex_world0_def
      ex_faulty_def ex_saga_def record_lifecycle_def saga_new_def transition_to_eq permits_def w_def g_def)
  have "sd_faults (w_sagas w) = []" "stored (w_sagas w) 9 = Some g" "sg_state g = SsQuoted"
    "saga_db_wf (w_sagas w)"
    by (simp_all add: w_def stored_def g_def saga_db_wf_def bm_wf_def ex_saga_def)
  from quoted_saga_is_not_resumed [OF this] this(2) run show ?thesis by blast
qed

end
