(* ===== verification/Routing_Candidates.thy ===== *)
theory Routing_Candidates
  imports Curve_Laws Registry_Snapshot Ledger_Engine
begin

text \<open>
  Candidate selection (core/src/routing/candidates.rs), the routing value types
  (core/src/primitives/routing/mod.rs) and the strategy guard (core/src/routing/guard.rs).

  A candidate is a maker strategy frozen for one direction of one pair: the oriented curve, its
  flat fees, and the two output ceilings read once from the ledger's available snapshot. Selection
  ranks the priceable active strategies of the pair, best first, and keeps the first \<open>k\<close>.

  \<open>slice::sort_by\<close> is a stable sort by a comparator; \<open>select_nth_unstable_by\<close> is modelled by the
  same sort, one of the arrangements it may produce. The two leave no choice when no two candidates
  compare equal, that is, when their strategy hashes differ. \<open>price_impact_pct\<close> keeps its integer
  basis points: the source divides them by 100 as an \<open>f64\<close> for display.
\<close>

section \<open>Slice and iterator operations\<close>

datatype ordering = Less | Equal | Greater

definition ord_cmp :: "'a :: linorder \<Rightarrow> 'a \<Rightarrow> ordering" where
  "ord_cmp a b = (if a < b then Less else if a = b then Equal else Greater)"

fun then_with :: "ordering \<Rightarrow> ordering \<Rightarrow> ordering" where
  "then_with Equal o2 = o2"
| "then_with o1 _ = o1"

fun insort_by :: "('a \<Rightarrow> 'a \<Rightarrow> ordering) \<Rightarrow> 'a \<Rightarrow> 'a list \<Rightarrow> 'a list" where
  "insort_by cmp x [] = [x]"
| "insort_by cmp x (y # ys) =
     (if cmp x y = Greater then y # insort_by cmp x ys else x # y # ys)"

definition sort_by :: "('a \<Rightarrow> 'a \<Rightarrow> ordering) \<Rightarrow> 'a list \<Rightarrow> 'a list" where
  "sort_by cmp xs = foldr (insort_by cmp) xs []"

text \<open>\<open>Iterator::max\<close>: of equal maxima the last, which is the same value.\<close>

definition iter_max :: "'a :: linorder list \<Rightarrow> 'a option" where
  "iter_max xs = (case xs of [] \<Rightarrow> None | y # ys \<Rightarrow> Some (fold max ys y))"

text \<open>\<open>Iterator::min_by_key\<close>: of several minimal elements the first one is returned.\<close>

definition min_by_key :: "('a \<Rightarrow> 'k :: linorder) \<Rightarrow> 'a list \<Rightarrow> 'a option" where
  "min_by_key f xs =
     fold (\<lambda>x best. case best of
                      None \<Rightarrow> Some x
                    | Some b \<Rightarrow> if f x < f b then Some x else Some b) xs None"

section \<open>Requests, legs and plans\<close>

record route_request =
  rq_intent :: intent_id
  rq_token_in :: address
  rq_token_out :: address
  rq_amount :: u256
  rq_exact_in :: bool

record route_leg =
  rl_maker :: maker_id
  rl_hash :: strategy_hash
  rl_token_in :: address
  rl_token_out :: address
  rl_amount_in :: u256
  rl_amount_out :: u256

record route_plan =
  rp_intent :: intent_id
  rp_legs :: "route_leg list"
  rp_expected_profit :: u256
  rp_price_impact_bps :: u64

record routing_config =
  rc_max_candidates :: nat
  rc_max_legs :: nat
  rc_gas_units_per_leg :: u64

section \<open>Guarded strategies\<close>

type_synonym guarded_set = "strategy_key bset"

record strategy_guard =
  sg_guarded :: "strategy_key bset"

definition strategy_guard_default :: strategy_guard where
  "strategy_guard_default = \<lparr>sg_guarded = []\<rparr>"

definition is_guarded :: "guarded_set \<Rightarrow> strategy_key \<Rightarrow> bool" where
  "is_guarded guards key = (key \<in> set guards)"

definition guard :: "strategy_guard \<Rightarrow> strategy_key \<Rightarrow> strategy_guard" where
  "guard g key = g\<lparr>sg_guarded := bs_insert key (sg_guarded g)\<rparr>"

definition unguard :: "strategy_guard \<Rightarrow> strategy_key \<Rightarrow> strategy_guard" where
  "unguard g key = g\<lparr>sg_guarded := bs_remove key (sg_guarded g)\<rparr>"

definition guard_snapshot :: "strategy_guard \<Rightarrow> guarded_set" where
  "guard_snapshot g = sg_guarded g"

section \<open>Candidates\<close>

record candidate =
  cd_key :: strategy_key
  cd_token_in :: address
  cd_token_out :: address
  cd_cap_out :: u256
  cd_wallet_cap :: u256
  cd_pool :: curve_pool
  cd_fees_in_bps :: "nat list"

definition BPS :: nat where "BPS = 1000000000"

definition gamma_step :: "ratio \<Rightarrow> nat \<Rightarrow> curve_error + ratio" where
  "gamma_step g f =
     rbind (ok_or InvalidParams
              (case checked_sub BPS f of
                 None \<Rightarrow> None
               | Some n \<Rightarrow> if n \<noteq> 0 then Some n else None)) (\<lambda>retained.
     rbind (ok_or DivByZero (ratio_new retained BPS)) (\<lambda>factor.
       Inr (ratio_mul g factor)))"

definition gamma :: "candidate \<Rightarrow> curve_error + ratio" where
  "gamma c = try_fold gamma_step (ratio_from 1) (cd_fees_in_bps c)"

definition cd_marginal_price :: "candidate \<Rightarrow> curve_error + ratio" where
  "cd_marginal_price c =
     rbind (curve_marginal_price (cd_pool c)) (\<lambda>m. rbind (gamma c) (\<lambda>g. Inr (ratio_mul m g)))"

definition net_quote_exact_in :: "candidate \<Rightarrow> u256 \<Rightarrow> quote" where
  "net_quote_exact_in c gross_in =
     rbind (shrink_by_fees gross_in (cd_fees_in_bps c)) (quote_exact_in (cd_pool c))"

definition net_quote_exact_out :: "candidate \<Rightarrow> u256 \<Rightarrow> quote" where
  "net_quote_exact_out c amount_out =
     rbind (quote_exact_out (cd_pool c) amount_out)
       (\<lambda>input. gross_up_by_fees input (cd_fees_in_bps c))"

definition input_within_output :: "candidate \<Rightarrow> u256 \<Rightarrow> u256 option" where
  "input_within_output c max_out =
     (case net_quote_exact_out c max_out of
        Inl _ \<Rightarrow> None
      | Inr input \<Rightarrow>
          (case net_quote_exact_in c input of
             Inr out \<Rightarrow> if out \<le> max_out then Some input else Some (sat_sub input 1)
           | Inl _ \<Rightarrow> None))"

definition feasible_input :: "candidate \<Rightarrow> u256 \<Rightarrow> u256" where
  "feasible_input c upper = feasible_bound upper (\<lambda>input. is_ok (net_quote_exact_in c input))"

fun find_map :: "('a \<Rightarrow> 'b option) \<Rightarrow> 'a list \<Rightarrow> 'b option" where
  "find_map f [] = None"
| "find_map f (x # xs) = (case f x of Some y \<Rightarrow> Some y | None \<Rightarrow> find_map f xs)"

definition full_input_bound :: "candidate \<Rightarrow> u256" where
  "full_input_bound c =
     (case find_map
             (\<lambda>output. case net_quote_exact_out c output of
                Inl _ \<Rightarrow> None
              | Inr input \<Rightarrow> if is_ok (net_quote_exact_in c input) then Some input else None)
             (filter (\<lambda>output. output \<noteq> 0) [cd_cap_out c, sat_sub (cd_cap_out c) 1]) of
        Some input \<Rightarrow> input
      | None \<Rightarrow> feasible_input c u256_max)"

definition net_quote_with_limit ::
  "candidate \<Rightarrow> u256 \<Rightarrow> ratio \<Rightarrow> curve_error + limited_quote" where
  "net_quote_with_limit c gross_bound limit =
     rbind (gamma c) (\<lambda>g.
     rbind (ok_or DivByZero (ratio_invert g)) (\<lambda>inverse.
       let net_limit = ratio_mul limit inverse in
     rbind (shrink_by_fees gross_bound (cd_fees_in_bps c)) (\<lambda>net_bound.
     rbind (quote_with_limit (cd_pool c) net_bound net_limit) (\<lambda>net.
     rbind (gross_up_by_fees (lq_amount_in net) (cd_fees_in_bps c)) (\<lambda>gross.
       Inr \<lparr>lq_amount_in = min gross gross_bound, lq_amount_out = lq_amount_out net,
            lq_limited = lq_limited net\<rparr>)))))"

definition MIN_PROBE_OUT :: u64 where "MIN_PROBE_OUT = 1000000"
definition PROBE_DIVISORS :: "u64 list" where "PROBE_DIVISORS = [1000000, 1000, 1]"

fun spot_loop :: "candidate \<Rightarrow> u256 \<Rightarrow> u64 list \<Rightarrow> ratio option \<Rightarrow> ratio option" where
  "spot_loop c amount [] so_far = so_far"
| "spot_loop c amount (divisor # divisors) so_far =
     (let probe = max (amount div divisor) 1 in
      case net_quote_exact_in c probe of
        Inl _ \<Rightarrow> so_far
      | Inr out \<Rightarrow>
          if MIN_PROBE_OUT \<le> out then ratio_new out probe
          else spot_loop c amount divisors (ratio_new out probe))"

definition spot_marginal :: "candidate \<Rightarrow> u256 \<Rightarrow> ratio option" where
  "spot_marginal c amount = spot_loop c amount PROBE_DIVISORS None"

definition price_impact_bps :: "candidate list \<Rightarrow> u256 \<Rightarrow> u256 \<Rightarrow> u64" where
  "price_impact_bps chosen amount_in amount_out =
     (case (iter_max (List.map_filter (\<lambda>c. spot_marginal c amount_in) chosen),
            ratio_new amount_out amount_in) of
        (Some best, Some effective) \<Rightarrow> rel_diff_bps effective best
      | _ \<Rightarrow> 0)"

section \<open>Building candidates\<close>

type_synonym available_caps = "(account_key, u256) bmap"

definition caps_available :: "available_caps \<Rightarrow> account_key \<Rightarrow> u256" where
  "caps_available caps account = unwrap_or 0 (bm_get caps account)"

record frozen_cap =
  fc_deliverable :: u256
  fc_wallet :: u256

definition freeze_cap :: "maker_strategy \<Rightarrow> available_caps \<Rightarrow> address \<Rightarrow> frozen_cap" where
  "freeze_cap strategy caps token_out =
     (let wallet = caps_available caps (WalletBudget (sk_maker (ms_key strategy)) token_out);
          strategy_virtual = caps_available caps
            (StrategyVirtual (sk_maker (ms_key strategy)) (sk_hash (ms_key strategy)) token_out)
      in \<lparr>fc_deliverable = min wallet strategy_virtual, fc_wallet = wallet\<rparr>)"

definition build_pricing_candidate ::
  "maker_strategy \<Rightarrow> available_caps \<Rightarrow> address \<Rightarrow> address \<Rightarrow> candidate option" where
  "build_pricing_candidate strategy caps token_in token_out =
     (if \<not> ms_active strategy then None
      else case ms_curve strategy of
        Unsupported \<Rightarrow> None
      | Priceable curve fees \<Rightarrow>
          let balance_in = ms_balance strategy token_in;
              balance_out = ms_balance strategy token_out
          in if balance_in = 0 \<or> balance_out = 0 then None
             else let cap = freeze_cap strategy caps token_out in
               Some \<lparr>cd_key = ms_key strategy, cd_token_in = token_in, cd_token_out = token_out,
                     cd_cap_out = fc_deliverable cap, cd_wallet_cap = fc_wallet cap,
                     cd_pool = from_curve curve token_in token_out balance_in balance_out,
                     cd_fees_in_bps = fees\<rparr>)"

definition build_candidate ::
  "maker_strategy \<Rightarrow> available_caps \<Rightarrow> address \<Rightarrow> address \<Rightarrow> candidate option" where
  "build_candidate strategy caps token_in token_out =
     (case build_pricing_candidate strategy caps token_in token_out of
        None \<Rightarrow> None
      | Some c \<Rightarrow> if cd_cap_out c \<noteq> 0 then Some c else None)"

section \<open>Selection\<close>

record scored =
  sd_score :: "u256 option"
  sd_candidate :: candidate

record selection =
  sl_chosen :: "candidate list"
  sl_best_omitted_spot :: "ratio option"

definition best_first :: "bool \<Rightarrow> scored \<Rightarrow> scored \<Rightarrow> ordering" where
  "best_first exact_in a b =
     (let by_score = (case (sd_score a, sd_score b) of
            (Some x, Some y) \<Rightarrow> if exact_in then ord_cmp y x else ord_cmp x y
          | (Some _, None) \<Rightarrow> Less
          | (None, Some _) \<Rightarrow> Greater
          | (None, None) \<Rightarrow> Equal)
      in then_with by_score
           (ord_cmp (sk_hash (cd_key (sd_candidate a))) (sk_hash (cd_key (sd_candidate b)))))"

definition score_of :: "route_request \<Rightarrow> candidate \<Rightarrow> u256 option" where
  "score_of request c =
     (if rq_exact_in request then to_option (net_quote_exact_in c (rq_amount request))
      else to_option (net_quote_exact_out c (min (rq_amount request) (cd_cap_out c))))"

definition scored_candidates ::
  "snapshot \<Rightarrow> available_caps \<Rightarrow> guarded_set \<Rightarrow> route_request \<Rightarrow> scored list" where
  "scored_candidates snap caps guards request =
     map (\<lambda>c. \<lparr>sd_score = score_of request c, sd_candidate = c\<rparr>)
       (List.map_filter
         (\<lambda>s. build_candidate s caps (rq_token_in request) (rq_token_out request))
         (filter (\<lambda>s. \<not> is_guarded guards (ms_key s))
           (active_strategies_for_pair snap
             (token_pair_new (rq_token_in request) (rq_token_out request)))))"

definition select ::
  "snapshot \<Rightarrow> available_caps \<Rightarrow> guarded_set \<Rightarrow> route_request \<Rightarrow> nat \<Rightarrow> selection" where
  "select snap caps guards request k =
     (let scored = scored_candidates snap caps guards request;
          better = best_first (rq_exact_in request);
          (kept, spot) =
            (if k < length scored then
               (let parted = sort_by better scored in
                (take k parted,
                 iter_max (List.map_filter
                   (\<lambda>s. spot_marginal (sd_candidate s) (rq_amount request)) (drop k parted))))
             else (scored, None))
      in \<lparr>sl_chosen = map sd_candidate (sort_by better kept), sl_best_omitted_spot = spot\<rparr>)"

end
