(* ===== verification/Routing_Waterfill.thy ===== *)
theory Routing_Waterfill
  imports Routing_Candidates
begin

text \<open>
  The capped water-fill solver (core/src/routing/waterfill.rs) and the router's entry
  (\<open>route\<close> of core/src/routing/service.rs). A solve freezes its inputs in a \<open>book\<close>, brackets the
  water level by bisection, and assembles whole-unit leg amounts on the side of the bracket that
  cannot over-spend (exact-in) or cannot under-deliver (exact-out).

  Slices are lists; every index the code uses is below the length of the slice it indexes, since
  indices come from enumerating the candidates and all per-leg slices have their length. The
  bisection runs \<open>MAX_ITERS\<close> rounds at most, as in the source; the two \<open>while\<close> loops are
  recursive functions with termination proofs. This theory holds the definitions; the laws are in
  the theories \<open>Routing_Curves\<close> and \<open>Routing_Laws\<close>.
\<close>

section \<open>Splits\<close>

record split =
  sp_legs :: "route_leg list"
  sp_amount_in :: u256
  sp_amount_out :: u256
  sp_lambda :: ratio

definition split_gas :: "split \<Rightarrow> u256 \<Rightarrow> u256" where
  "split_gas s per_leg_cost = sat_mul per_leg_cost (length (sp_legs s))"

definition net_output :: "split \<Rightarrow> u256 \<Rightarrow> u256" where
  "net_output s per_leg_cost = sat_sub (sp_amount_out s) (split_gas s per_leg_cost)"

definition gross_input :: "split \<Rightarrow> u256 \<Rightarrow> u256" where
  "gross_input s per_leg_cost = sat_add (sp_amount_in s) (split_gas s per_leg_cost)"

definition MAX_ITERS :: nat where "MAX_ITERS = 128"

datatype fill_kind = ExactIn | ExactOut

definition kind_from_request :: "route_request \<Rightarrow> fill_kind" where
  "kind_from_request request = (if rq_exact_in request then ExactIn else ExactOut)"

fun toward_target :: "fill_kind \<Rightarrow> limited_quote \<Rightarrow> u256" where
  "toward_target ExactIn q = lq_amount_in q"
| "toward_target ExactOut q = lq_amount_out q"

fun is_no_worse :: "fill_kind \<Rightarrow> split \<Rightarrow> split \<Rightarrow> u256 \<Rightarrow> bool" where
  "is_no_worse ExactIn cand current cost = (net_output cand cost \<ge> net_output current cost)"
| "is_no_worse ExactOut cand current cost = (gross_input cand cost \<le> gross_input current cost)"

definition NO_FILL :: limited_quote where
  "NO_FILL = \<lparr>lq_amount_in = 0, lq_amount_out = 0, lq_limited = True\<rparr>"

fun or_no_fill :: "curve_error + limited_quote \<Rightarrow> limited_quote" where
  "or_no_fill (Inr q) = q"
| "or_no_fill (Inl _) = NO_FILL"

section \<open>Maker groups\<close>

record maker_group =
  mg_indices :: "nat list"
  mg_wallet_cap :: u256

record maker_groups =
  mgs_groups :: "maker_group list"
  mgs_group_by_leg :: "nat list"

definition join_group ::
  "nat \<times> candidate \<Rightarrow> (maker_id, maker_group) bmap \<Rightarrow> (maker_id, maker_group) bmap" where
  "join_group ic by_maker =
     (let (index, c) = ic;
          maker = sk_maker (cd_key c);
          grp = unwrap_or \<lparr>mg_indices = [], mg_wallet_cap = cd_wallet_cap c\<rparr>
                    (bm_get by_maker maker)
      in bm_insert maker
           \<lparr>mg_indices = mg_indices grp @ [index],
            mg_wallet_cap = min (mg_wallet_cap grp) (cd_wallet_cap c)\<rparr> by_maker)"

definition maker_groups_new :: "candidate list \<Rightarrow> maker_groups" where
  "maker_groups_new cs =
     (let groups = bm_values (fold join_group (enumerate 0 cs) []);
          group_by_leg =
            fold (\<lambda>(group_index, grp) legs.
                    fold (\<lambda>index legs. legs[index := group_index]) (mg_indices grp) legs)
              (enumerate 0 groups) (replicate (length cs) 0)
      in \<lparr>mgs_groups = groups, mgs_group_by_leg = group_by_leg\<rparr>)"

definition sat_sum_at :: "u256 list \<Rightarrow> nat list \<Rightarrow> u256" where
  "sat_sum_at outputs indices = fold (\<lambda>index s. sat_add s (outputs ! index)) indices 0"

definition output_for_leg :: "maker_groups \<Rightarrow> u256 list \<Rightarrow> nat \<Rightarrow> u256" where
  "output_for_leg groups outputs leg_index =
     sat_sum_at outputs (mg_indices (mgs_groups groups ! (mgs_group_by_leg groups ! leg_index)))"

section \<open>Amounts and budgets\<close>

definition sat_sum :: "u256 list \<Rightarrow> u256" where
  "sat_sum amounts = fold (\<lambda>a s. sat_add s a) amounts 0"

fun exceeds_budget :: "u256 list \<Rightarrow> u256 \<Rightarrow> bool" where
  "exceeds_budget [] room \<longleftrightarrow> False"
| "exceeds_budget (out # outs) room \<longleftrightarrow>
     (case checked_sub room out of None \<Rightarrow> True | Some remaining \<Rightarrow> exceeds_budget outs remaining)"

definition price_upper :: "candidate list \<Rightarrow> ratio" where
  "price_upper cs =
     doubled (unwrap_or (ratio_from u256_max)
       (iter_max (filter (\<lambda>price. \<not> ratio_is_zero price)
         (List.map_filter (\<lambda>c. to_option (cd_marginal_price c)) cs))))"

definition input_bound :: "u256 \<Rightarrow> fill_kind \<Rightarrow> candidate \<Rightarrow> u256" where
  "input_bound target kind c =
     (case kind of
        ExactIn \<Rightarrow>
          min (unwrap_or (feasible_input c target) (input_within_output c (cd_cap_out c))) target
      | ExactOut \<Rightarrow>
          if target < cd_cap_out c then
            unwrap_or (feasible_input c u256_max) (to_option (net_quote_exact_out c target))
          else unwrap_or (feasible_input c u256_max) (input_within_output c (cd_cap_out c)))"

definition input_bounds :: "candidate list \<Rightarrow> u256 \<Rightarrow> fill_kind \<Rightarrow> u256 list" where
  "input_bounds cs target kind = map (input_bound target kind) cs"

section \<open>Bracketing the water level\<close>

record level_bracket =
  lb_lo :: ratio
  lb_hi :: ratio

fun bracket_loop ::
  "(ratio \<Rightarrow> u256) \<Rightarrow> u256 \<Rightarrow> u256 \<Rightarrow> nat \<Rightarrow> ratio \<Rightarrow> ratio \<Rightarrow> u256 \<Rightarrow> u256 \<Rightarrow> level_bracket" where
  "bracket_loop fill target tol 0 lo hi m_lo m_hi = \<lparr>lb_lo = lo, lb_hi = hi\<rparr>"
| "bracket_loop fill target tol (Suc n) lo hi m_lo m_hi =
     (if sat_sub m_lo m_hi \<le> tol then \<lparr>lb_lo = lo, lb_hi = hi\<rparr>
      else let mid = midpoint lo hi; m = fill mid in
        if target \<le> m then bracket_loop fill target tol n mid hi m m_hi
        else bracket_loop fill target tol n lo mid m_lo m)"

definition bracket_level ::
  "(ratio \<Rightarrow> u256) \<Rightarrow> u256 \<Rightarrow> ratio option \<Rightarrow> ratio \<Rightarrow> level_bracket" where
  "bracket_level fill target seed upper =
     (let tol = max (target div 1000000) 1;
          hi = (case seed of
                  Some s \<Rightarrow> if \<not> ratio_is_zero s then min (doubled s) upper else upper
                | None \<Rightarrow> upper);
          (hi, m_hi) = (if target \<le> fill hi then (upper, fill upper) else (hi, fill hi));
          (hi, m_hi) =
            (if target \<le> m_hi
             then (let top = doubled (ratio_from u256_max) in (top, fill top))
             else (hi, m_hi))
      in bracket_loop fill target tol MAX_ITERS ratio_zero hi (fill ratio_zero) m_hi)"

section \<open>Wallet floors\<close>

definition output_at :: "candidate list \<Rightarrow> u256 list \<Rightarrow> ratio \<Rightarrow> nat \<Rightarrow> u256" where
  "output_at cs bounds level index =
     (case net_quote_with_limit (cs ! index) (bounds ! index) level of
        Inl _ \<Rightarrow> 0
      | Inr q \<Rightarrow> lq_amount_out q)"

definition group_output_at_level ::
  "candidate list \<Rightarrow> u256 list \<Rightarrow> maker_group \<Rightarrow> ratio \<Rightarrow> u256" where
  "group_output_at_level cs bounds grp level =
     fold (\<lambda>index s. sat_add s (output_at cs bounds level index)) (mg_indices grp) 0"

definition group_floor_level :: "candidate list \<Rightarrow> u256 list \<Rightarrow> maker_group \<Rightarrow> ratio" where
  "group_floor_level cs bounds grp =
     lb_hi (bracket_level (group_output_at_level cs bounds grp) (mg_wallet_cap grp) None
       (price_upper (map (\<lambda>index. cs ! index) (mg_indices grp))))"

definition floor_group ::
  "candidate list \<Rightarrow> u256 list \<Rightarrow> maker_group \<Rightarrow> ratio list \<Rightarrow> ratio list" where
  "floor_group cs bounds grp floors =
     (if length (mg_indices grp) < 2 then floors
      else if \<not> exceeds_budget (map (output_at cs bounds ratio_zero) (mg_indices grp))
                (mg_wallet_cap grp) then floors
      else
        let level = group_floor_level cs bounds grp in
        fold (\<lambda>index floors. floors[index := level]) (mg_indices grp) floors)"

definition wallet_floors :: "candidate list \<Rightarrow> u256 list \<Rightarrow> maker_groups \<Rightarrow> ratio list" where
  "wallet_floors cs bounds groups =
     fold (floor_group cs bounds) (mgs_groups groups) (replicate (length cs) ratio_zero)"

section \<open>The book of one solve\<close>

record book =
  bk_candidates :: "candidate list"
  bk_bounds :: "u256 list"
  bk_floors :: "ratio list"
  bk_groups :: maker_groups
  bk_kind :: fill_kind

definition book_new :: "candidate list \<Rightarrow> u256 \<Rightarrow> fill_kind \<Rightarrow> book" where
  "book_new cs target kind =
     (let bounds = input_bounds cs target kind;
          groups = maker_groups_new cs;
          floors = wallet_floors cs bounds groups
      in \<lparr>bk_candidates = cs, bk_bounds = bounds, bk_floors = floors, bk_groups = groups,
          bk_kind = kind\<rparr>)"

definition book_leg :: "book \<Rightarrow> nat \<Rightarrow> ratio \<Rightarrow> limited_quote" where
  "book_leg b i level =
     or_no_fill
       (net_quote_with_limit (bk_candidates b ! i) (bk_bounds b ! i) (max (bk_floors b ! i) level))"

definition book_fills :: "book \<Rightarrow> ratio \<Rightarrow> limited_quote list" where
  "book_fills b level = map (\<lambda>i. book_leg b i level) [0..<length (bk_candidates b)]"

definition measured :: "book \<Rightarrow> ratio \<Rightarrow> u256" where
  "measured b level =
     fold (\<lambda>i s. sat_add s (toward_target (bk_kind b) (book_leg b i level)))
       [0..<length (bk_candidates b)] 0"

definition topup_room :: "book \<Rightarrow> u256 list \<Rightarrow> u256 list \<Rightarrow> nat \<Rightarrow> u256" where
  "topup_room b ins outs i =
     (let c = bk_candidates b ! i;
          box_room = sat_sub (bk_bounds b ! i) (ins ! i)
      in if ratio_is_zero (bk_floors b ! i) then box_room
         else
           let used = output_for_leg (bk_groups b) outs i;
               out_room = sat_sub (cd_wallet_cap c) used
           in if out_room = 0 then 0
              else case input_within_output c (sat_add (outs ! i) out_room) of
                     Some cap \<Rightarrow> min (sat_sub cap (ins ! i)) box_room
                   | None \<Rightarrow> 0)"

section \<open>Assembly\<close>

definition by_amount :: "candidate list \<Rightarrow> u256 list \<Rightarrow> nat \<Rightarrow> nat \<Rightarrow> ordering" where
  "by_amount cs amounts a b =
     then_with (ord_cmp (amounts ! b) (amounts ! a))
       (ord_cmp (sk_hash (cd_key (cs ! a))) (sk_hash (cd_key (cs ! b))))"

definition trim_leg :: "nat \<Rightarrow> u256 list \<times> u256 \<Rightarrow> u256 list \<times> u256" where
  "trim_leg i s =
     (let (amounts, remaining) = s; kept = min (amounts ! i) remaining
      in (amounts[i := kept], remaining - kept))"

definition trim_to_total ::
  "candidate list \<Rightarrow> u256 list \<Rightarrow> u256 \<Rightarrow> nat list \<Rightarrow> u256 list" where
  "trim_to_total cs amounts target indices =
     (let order = sort_by (by_amount cs amounts) (filter (\<lambda>i. amounts ! i \<noteq> 0) indices)
      in fst (fold trim_leg (rev order) (amounts, target)))"

definition leg_amounts :: "fill_kind \<Rightarrow> candidate \<Rightarrow> u256 \<Rightarrow> (u256 \<times> u256) option" where
  "leg_amounts kind c amount =
     (case kind of
        ExactIn \<Rightarrow> map_option (\<lambda>out. (amount, out)) (to_option (net_quote_exact_in c amount))
      | ExactOut \<Rightarrow> map_option (\<lambda>inp. (inp, amount)) (to_option (net_quote_exact_out c amount)))"

fun build_legs ::
  "fill_kind \<Rightarrow> (candidate \<times> u256) list \<Rightarrow> route_leg list \<Rightarrow> u256 \<Rightarrow> u256 \<Rightarrow>
   (route_leg list \<times> u256 \<times> u256) option" where
  "build_legs kind [] legs amount_in amount_out = Some (legs, amount_in, amount_out)"
| "build_legs kind ((c, amount) # rest) legs amount_in amount_out =
     (if amount = 0 then build_legs kind rest legs amount_in amount_out
      else case leg_amounts kind c amount of
        None \<Rightarrow> None
      | Some (leg_in, leg_out) \<Rightarrow>
          if leg_in = 0 \<or> leg_out = 0 then build_legs kind rest legs amount_in amount_out
          else
            let leg = \<lparr>rl_maker = sk_maker (cd_key c), rl_hash = sk_hash (cd_key c),
                       rl_token_in = cd_token_in c, rl_token_out = cd_token_out c,
                       rl_amount_in = leg_in, rl_amount_out = leg_out\<rparr>
            in case checked_add amount_in leg_in of
                 None \<Rightarrow> None
               | Some total_in \<Rightarrow>
                   (case checked_add amount_out leg_out of
                      None \<Rightarrow> None
                    | Some total_out \<Rightarrow> build_legs kind rest (legs @ [leg]) total_in total_out))"

definition build ::
  "candidate list \<Rightarrow> u256 list \<Rightarrow> fill_kind \<Rightarrow> ratio \<Rightarrow> split option" where
  "build cs amounts kind lambda =
     (case build_legs kind (zip cs amounts) [] 0 0 of
        None \<Rightarrow> None
      | Some (legs, amount_in, amount_out) \<Rightarrow>
          if legs = [] then None
          else Some \<lparr>sp_legs = legs, sp_amount_in = amount_in, sp_amount_out = amount_out,
                     sp_lambda = lambda\<rparr>)"

definition topup_gain :: "book \<Rightarrow> u256 list \<Rightarrow> u256 list \<Rightarrow> u256 \<Rightarrow> nat \<Rightarrow> u256 \<times> strategy_hash" where
  "topup_gain b ins rooms remainder i =
     (let c = bk_candidates b ! i;
          add = min remainder (rooms ! i);
          here = unwrap_or 0 (to_option (net_quote_exact_in c (ins ! i)));
          ahead = unwrap_or here (to_option (net_quote_exact_in c (sat_add (ins ! i) add)))
      in (sat_sub ahead here, sk_hash (cd_key c)))"

function topup_loop :: "book \<Rightarrow> u256 list \<Rightarrow> u256 list \<Rightarrow> u256 \<Rightarrow> u256 list" where
  "topup_loop b ins outs remainder =
     (if remainder = 0 then ins
      else
        let legs = [0..<length (bk_candidates b)];
            rooms = map (topup_room b ins outs) legs
        in case max_by_key (topup_gain b ins rooms remainder) (filter (\<lambda>i. rooms ! i \<noteq> 0) legs) of
             None \<Rightarrow> ins
           | Some i \<Rightarrow>
               let add = min remainder (rooms ! i) in
               if add = 0 then ins
               else
                 let ins' = ins[i := sat_add (ins ! i) add];
                     outs' = outs[i := unwrap_or (outs ! i)
                       (to_option (net_quote_exact_in (bk_candidates b ! i) (ins' ! i)))]
                 in topup_loop b ins' outs' (remainder - add))"
  by pat_completeness auto
termination
  by (relation "measure (\<lambda>(_, _, _, remainder). remainder)") auto

declare topup_loop.simps [simp del]

definition assemble_exact_in :: "book \<Rightarrow> ratio \<Rightarrow> u256 \<Rightarrow> split option" where
  "assemble_exact_in b level target =
     (let fills = book_fills b level;
          ins = map lq_amount_in fills;
          outs = map lq_amount_out fills
      in build (bk_candidates b) (topup_loop b ins outs (sat_sub target (sat_sum ins))) ExactIn level)"

definition assemble_exact_out :: "book \<Rightarrow> ratio \<Rightarrow> u256 \<Rightarrow> split option" where
  "assemble_exact_out b level target =
     (let outs = map lq_amount_out (book_fills b level)
      in build (bk_candidates b)
           (trim_to_total (bk_candidates b) outs target [0..<length (bk_candidates b)]) ExactOut level)"

definition solve :: "candidate list \<Rightarrow> route_request \<Rightarrow> ratio option \<Rightarrow> split option" where
  "solve cs request warm =
     (if cs = [] \<or> rq_amount request = 0 then None
      else
        let target = rq_amount request;
            kind = kind_from_request request;
            b = book_new cs target kind
        in if measured b ratio_zero < target then None
           else
             let level = bracket_level (measured b) target warm (price_upper cs)
             in case kind of
                  ExactIn \<Rightarrow> assemble_exact_in b (lb_hi level) target
                | ExactOut \<Rightarrow> assemble_exact_out b (lb_lo level) target)"

section \<open>The sparsity pass\<close>

fun position :: "('a \<Rightarrow> bool) \<Rightarrow> 'a list \<Rightarrow> nat option" where
  "position P [] = None"
| "position P (x # xs) = (if P x then Some 0 else map_option Suc (position P xs))"

lemma position_Some: "position P xs = Some i \<Longrightarrow> i < length xs \<and> P (xs ! i)"
  by (induction xs arbitrary: i) (auto split: if_splits)

definition swap_remove :: "nat \<Rightarrow> 'a list \<Rightarrow> 'a list" where
  "swap_remove i xs =
     (if i = length xs - 1 then butlast xs else (butlast xs)[i := last xs])"

lemma length_swap_remove [simp]: "length (swap_remove i xs) = length xs - 1"
  by (simp add: swap_remove_def)

function sparse_loop ::
  "route_request \<Rightarrow> u256 \<Rightarrow> nat \<Rightarrow> candidate list \<Rightarrow> split \<Rightarrow> split option" where
  "sparse_loop request per_leg_cost max_legs active best =
     (if length (sp_legs best) \<le> 1 then Some best
      else
        let over_cap = length (sp_legs best) > max_legs in
        case min_by_key (\<lambda>l. (rl_amount_out l, rl_hash l)) (sp_legs best) of
          None \<Rightarrow> None
        | Some worst \<Rightarrow>
            (case position (\<lambda>c. sk_hash (cd_key c) = rl_hash worst) active of
               None \<Rightarrow> Some best
             | Some pos \<Rightarrow>
                 let active' = swap_remove pos active in
                 (case solve active' request (Some (sp_lambda best)) of
                    None \<Rightarrow> Some best
                  | Some next \<Rightarrow>
                      if over_cap \<or> is_no_worse (kind_from_request request) next best per_leg_cost
                      then sparse_loop request per_leg_cost max_legs active' next
                      else Some best)))"
  by pat_completeness auto
termination
  by (relation "measure (\<lambda>(_, _, _, active, _). length active)") (auto dest!: position_Some)

declare sparse_loop.simps [simp del]

definition solve_sparse ::
  "candidate list \<Rightarrow> route_request \<Rightarrow> u256 \<Rightarrow> nat \<Rightarrow> ratio option \<Rightarrow> split option" where
  "solve_sparse cs request per_leg_cost max_legs warm =
     (case solve cs request warm of
        None \<Rightarrow> None
      | Some best \<Rightarrow> sparse_loop request per_leg_cost max_legs cs best)"

section \<open>The router's entry\<close>

record routing_book =
  rb_snapshot :: snapshot
  rb_caps :: available_caps
  rb_guards :: guarded_set

definition route ::
  "routing_book \<Rightarrow> route_request \<Rightarrow> u256 \<Rightarrow> routing_config \<Rightarrow> u256 \<Rightarrow> ratio option \<Rightarrow> route_plan option"
  where
  "route bk request bound config per_leg_cost warm =
     (let selection =
            select (rb_snapshot bk) (rb_caps bk) (rb_guards bk) request (rc_max_candidates config)
      in case solve_sparse (sl_chosen selection) request per_leg_cost (rc_max_legs config) warm of
           None \<Rightarrow> None
         | Some s \<Rightarrow>
             (case (if rq_exact_in request then checked_sub (net_output s per_leg_cost) bound
                    else checked_sub bound (gross_input s per_leg_cost)) of
                None \<Rightarrow> None
              | Some expected_profit \<Rightarrow>
                  Some \<lparr>rp_intent = rq_intent request, rp_legs = sp_legs s,
                        rp_expected_profit = expected_profit,
                        rp_price_impact_bps =
                          price_impact_bps (sl_chosen selection) (sp_amount_in s) (sp_amount_out s)\<rparr>))"

end
