(* ===== verification/Routing_Curves.thy ===== *)
theory Routing_Curves
  imports Routing_Waterfill
begin

text \<open>
  What the water-fill solver needs of a venue. The locale \<open>priced_quote\<close> extends the inverse pair
  of quotes with the behaviour at the edges of 256 bits: an output the pool cannot price is out of
  reach of every input it can, and whatever prices also prices at any smaller input. The locale
  \<open>limited_fill\<close> adds the price-limited fill: exact, within the bound, non-increasing in the limit,
  the whole bound at limit zero and nothing above the largest representable price. The
  constant-product curve, the concentrated curve and the stacked fees meet the first contract, the
  two curves the second, and a candidate built on such a curve meets both behind its fees.
\<close>

section \<open>Quotes at the edges of the range\<close>

locale priced_quote = quote_inverse fwd bwd
  for fwd bwd :: "u256 \<Rightarrow> 'e + u256" +
  assumes unreachable: "bwd y = Inl e \<Longrightarrow> 0 < y \<Longrightarrow> y \<le> u256_max \<Longrightarrow> fwd j = Inr z \<Longrightarrow> z < y"
    and feasible_below: "fwd j = Inr z \<Longrightarrow> i \<le> j \<Longrightarrow> j \<le> u256_max \<Longrightarrow> \<exists>w. fwd i = Inr w"
    and fwd_range: "fwd j = Inr z \<Longrightarrow> j \<le> u256_max \<Longrightarrow> z \<le> u256_max"
    and bwd_range: "bwd y = Inr x \<Longrightarrow> y \<le> u256_max \<Longrightarrow> x \<le> u256_max"
    and costs: "bwd y = Inr x \<Longrightarrow> 0 < y \<Longrightarrow> 0 < x"
begin

text \<open>More input never delivers less, and no input delivers nothing.\<close>

lemma monotone:
  assumes "fwd i = Inr w" "fwd j = Inr z" "i \<le> j" "j \<le> u256_max"
  shows "w \<le> z"
proof (cases "bwd w")
  case (Inl e)
  have "w \<le> u256_max" using fwd_range [OF assms(1)] assms(3,4) by linarith
  with unreachable [OF Inl _ _ assms(1)] show ?thesis by (cases "w = 0") auto
next
  case (Inr x)
  have "x \<le> i" using least_input [OF Inr assms(1)] by blast
  with assms(3) show ?thesis using least_input [OF Inr assms(2)] by simp
qed

lemma zero_in: "fwd 0 = Inr z \<Longrightarrow> z = 0"
proof (rule ccontr)
  assume z: "fwd 0 = Inr z" "z \<noteq> 0"
  then have "z \<le> u256_max" using fwd_range by simp
  then show False
    using unreachable [of z _ 0 z] least_input [of z _ 0 z] costs [of z] z by (cases "bwd z") auto
qed

text \<open>
  An input at most the exact-out quote of a cap delivers at most the cap, when the quote itself
  does; one unit below the quote always does; and if the quote does not price, no input that prices
  exceeds the cap.
\<close>

lemma within_quote:
  "bwd y = Inr x \<Longrightarrow> fwd x = Inr z \<Longrightarrow> z \<le> y \<Longrightarrow> y \<le> u256_max \<Longrightarrow> j \<le> x \<Longrightarrow> fwd j = Inr w \<Longrightarrow> w \<le> y"
  using monotone [of j w x z] bwd_range [of y x] by linarith

lemma below_quote:
  assumes "bwd y = Inr x" "j \<le> x - 1" "fwd j = Inr w"
  shows "w \<le> y"
proof (cases "x = 0")
  case True
  then have "fwd 0 = Inr w" using assms by simp
  from zero_in [OF this] show ?thesis by simp
next
  case False
  then have "j < x" using assms(2) by simp
  then show ?thesis using smaller_falls_short [OF assms(1,3)] by simp
qed

lemma unpriced_cap:
  assumes err: "\<And>x z. bwd y = Inr x \<Longrightarrow> fwd x \<noteq> Inr z"
    and "0 < y" "y \<le> u256_max" "j \<le> u256_max" "fwd j = Inr w"
  shows "w \<le> y"
proof (cases "bwd y")
  case (Inl e')
  then show ?thesis using unreachable [OF Inl assms(2,3,5)] by simp
next
  case (Inr x)
  have "j < x"
  proof (rule ccontr)
    assume "\<not> j < x"
    then show False using feasible_below [OF assms(5), of x] assms(4) err [OF Inr] by auto
  qed
  then show ?thesis using smaller_falls_short [OF Inr assms(5)] by simp
qed

end

locale priced_stage = outer: priced_quote f1 b1 + inner: priced_quote f2 b2
  for f1 b1 f2 b2 :: "u256 \<Rightarrow> 'e + u256"
begin

lemma staged_unreachable:
  assumes "rbind (b2 y) b1 = Inl e" "0 < y" "y \<le> u256_max" "rbind (f1 j) f2 = Inr z"
  shows "z < y"
proof -
  obtain w where w: "f1 j = Inr w" "f2 w = Inr z" using assms(4) by (auto simp: res)
  consider "b2 y = Inl e" | x where "b2 y = Inr x" "b1 x = Inl e"
    using assms(1) by (auto simp: rbind_Inl)
  then show ?thesis
  proof cases
    case 1
    then show ?thesis using inner.unreachable assms(2,3) w(2) by blast
  next
    case 2
    then have "w < x"
      using outer.unreachable [OF 2(2) _ _ w(1)] inner.costs [OF 2(1) assms(2)]
        inner.bwd_range [OF 2(1) assms(3)] by blast
    then show ?thesis using inner.smaller_falls_short [OF 2(1) w(2)] by blast
  qed
qed

lemma staged_feasible_below:
  assumes "rbind (f1 j) f2 = Inr z" "i \<le> j" "j \<le> u256_max"
  shows "\<exists>w. rbind (f1 i) f2 = Inr w"
proof -
  obtain w where w: "f1 j = Inr w" "f2 w = Inr z" using assms(1) by (auto simp: res)
  obtain v where v: "f1 i = Inr v" using outer.feasible_below [OF w(1) assms(2,3)] by blast
  have "v \<le> w" using outer.monotone [OF v w(1) assms(2,3)] .
  then show ?thesis
    using inner.feasible_below [OF w(2)] outer.fwd_range [OF w(1) assms(3)] v by auto
qed

lemma staged_priced: "priced_quote (\<lambda>j. rbind (f1 j) f2) (\<lambda>y. rbind (b2 y) b1)"
proof (intro priced_quote.intro priced_quote_axioms.intro)
  show "quote_inverse (\<lambda>j. rbind (f1 j) f2) (\<lambda>y. rbind (b2 y) b1)"
    by (rule quote_stage.staged [OF quote_stage.intro
          [OF outer.quote_inverse_axioms inner.quote_inverse_axioms]])
next
  show "z < y" if "rbind (b2 y) b1 = Inl e" "0 < y" "y \<le> u256_max" "rbind (f1 j) f2 = Inr z"
    for y e j z using staged_unreachable [OF that] .
next
  show "\<exists>w. rbind (f1 i) f2 = Inr w" if "rbind (f1 j) f2 = Inr z" "i \<le> j" "j \<le> u256_max" for j z i
    using staged_feasible_below [OF that] .
qed (auto simp: res intro: outer.fwd_range inner.fwd_range outer.bwd_range inner.bwd_range outer.costs inner.costs)

end

sublocale priced_stage \<subseteq> staged: priced_quote "\<lambda>j. rbind (f1 j) f2" "\<lambda>y. rbind (b2 y) b1"
  by (rule staged_priced)

subsection \<open>Constant product\<close>

lemma ceil_div_total: "0 < b \<Longrightarrow> \<exists>c. ceil_div a b = Inr c"
  by (simp add: ceil_div_def)

lemma ceil_div_positive: "ceil_div a b = Inr c \<Longrightarrow> 0 < a \<Longrightarrow> 0 < c"
  using ceil_div_le [of a b c 0] by simp

lemma ceil_div_le_dividend: "ceil_div a b = Inr c \<Longrightarrow> c \<le> a"
  using ceil_div_le [of a b c a] ceil_div_pos [of a b c] by simp

lemma xyc_unreachable:
  assumes "xyc_quote_exact_out p y = Inl e" "xyc_quote_exact_in p j = Inr z"
  shows "z < y"
proof (rule ccontr)
  let ?X = "xp_balance_in p" and ?Y = "xp_balance_out p"
  assume "\<not> z < y"
  then have yz: "y \<le> z" by simp
  have j: "j * ?Y \<le> u256_max" and z: "z = j * ?Y div (?X + j)" and ne: "\<not> xyc_is_empty p"
    using assms(2) by (auto simp: xyc_exact_in_Inr)
  then have pos: "0 < ?X" "0 < ?Y" by (auto simp: xyc_is_empty_def)
  have zz: "z * (?X + j) \<le> j * ?Y" by (simp add: z)
  have zY: "z < ?Y"
  proof (rule ccontr)
    assume "\<not> z < ?Y"
    then have "?Y * (?X + j) \<le> z * (?X + j)" by simp
    also note zz
    finally show False using pos by (simp add: algebra_simps)
  qed
  have "y * ?X \<le> z * (?X + j)" using yz by (intro mult_mono) auto
  then have "y * ?X \<le> u256_max" using zz j by linarith
  moreover have "y < ?Y" using yz zY by linarith
  ultimately have "\<exists>x. xyc_quote_exact_out p y = Inr x"
    using ne by (auto simp: xyc_exact_out_Inr ceil_div_def)
  with assms(1) show False by simp
qed

interpretation xyc_priced: priced_quote "xyc_quote_exact_in p" "xyc_quote_exact_out p" for p
proof (unfold_locales, goal_cases)
  case (1 y e j z)
  then show ?case by (simp add: xyc_unreachable)
next
  case (2 j z i)
  then have "i * xp_balance_out p \<le> j * xp_balance_out p" by simp
  also have "j * xp_balance_out p \<le> u256_max" using 2 by (simp add: xyc_exact_in_Inr)
  finally show ?case using 2 by (simp add: xyc_exact_in_Inr)
next
  case (3 j z)
  have "z \<le> j * xp_balance_out p" using 3 by (simp add: xyc_exact_in_Inr)
  also have "\<dots> \<le> u256_max" using 3 by (simp add: xyc_exact_in_Inr)
  finally show ?case .
next
  case (4 y x)
  then show ?case using ceil_div_le_dividend by (force simp: xyc_exact_out_Inr)
next
  case (5 y x)
  then show ?case using ceil_div_positive by (force simp: xyc_exact_out_Inr xyc_is_empty_def)
qed

subsection \<open>Concentrated liquidity\<close>

interpretation concentrate_priced:
  priced_quote "concentrate_quote_exact_in p" "concentrate_quote_exact_out p" for p
proof (unfold_locales, goal_cases)
  case (1 y e j z)
  then show ?case
    by (auto simp: concentrate_quote_exact_in_def concentrate_quote_exact_out_def res rbind_Inl
        xyc_unreachable)
next
  case (2 j z i)
  then show ?case
    by (auto simp: concentrate_quote_exact_in_def res dest: xyc_priced.feasible_below)
qed (auto simp: concentrate_quote_exact_in_def concentrate_quote_exact_out_def res
  intro: xyc_priced.fwd_range xyc_priced.bwd_range xyc_priced.costs)

subsection \<open>Flat fees\<close>

lemma fee_keeps_less:
  assumes "ceil_div (j * b) bps_denominator = Inr d" "b \<le> bps_denominator"
  shows "d \<le> j"
  using ceil_div_le [OF assms(1), of j] assms(2) by simp

lemma fee_in_le: "apply_flat_fee_in j b = Inr z \<Longrightarrow> z \<le> j"
  by (auto simp: fee_in_Inr)

lemma full_fee_leaves_nothing:
  assumes "apply_flat_fee_in j b = Inr z" "bps_denominator \<le> b"
  shows "z = 0"
proof -
  obtain d where d: "ceil_div (j * b) bps_denominator = Inr d" "z = j - d"
    using assms(1) by (auto simp: fee_in_Inr)
  have "0 < bps_denominator" by (simp add: bps_denominator_def)
  then have "j \<le> d"
    using ceil_div_le [OF d(1), of d] mult_le_mono2 [OF assms(2), of j]
    by (metis le_trans mult_le_cancel2 order_refl)
  then show ?thesis by (simp add: d(2))
qed

lemma fee_unreachable:
  assumes "apply_flat_fee_out y b = Inl e" "0 < y" "y \<le> u256_max" "apply_flat_fee_in j b = Inr z"
  shows "z < y"
proof (rule ccontr)
  let ?B = bps_denominator
  assume "\<not> z < y"
  then have yz: "y \<le> z" by simp
  have b: "b < ?B" using full_fee_leaves_nothing [OF assms(4)] yz assms(2) by linarith
  obtain d where d: "ceil_div (j * b) ?B = Inr d" and dj: "d \<le> j" and z: "z = j - d"
    and jb: "j * b \<le> u256_max" using assms(4) by (auto simp: fee_in_Inr)
  have yj: "y \<le> j" using yz z by simp
  then have yb: "y * b \<le> u256_max" using jb mult_le_mono1 [of y j b] by linarith
  define c where "c = (if y * b = 0 then 0 else (y * b - 1) div (?B - b) + 1)"
  have c: "ceil_div (y * b) (?B - b) = Inr c" using b by (simp add: ceil_div_def c_def)
  have over: "u256_max < y + c" using assms(1) b yb c by (auto simp: apply_flat_fee_out_def curve_ops
        rbind_def ok_or_def checked_mul_def checked_add_def checked_sub_def split: if_splits)
  then have b1: "1 \<le> b" using assms(3) by (cases "b = 0") (auto simp: c_def)
  have "c \<le> j - y"
  proof -
    obtain k where k: "j = y + k" using yj le_Suc_ex by blast
    have "d \<le> k" using yz z dj k by linarith
    then have "(y + k) * b \<le> k * ?B" using ceil_div_le [OF d, of k] by (simp add: k)
    then have "y * b \<le> k * (?B - b)" using b by (simp add: algebra_simps diff_mult_distrib2)
    then show ?thesis using ceil_div_le [OF c, of k] by (simp add: k)
  qed
  then have "y + c \<le> j" using yj by simp
  also have "j \<le> j * b" using b1 by simp
  finally show False using over jb by linarith
qed

interpretation fee_priced:
  priced_quote "\<lambda>a. apply_flat_fee_in a b" "\<lambda>a. apply_flat_fee_out a b" for b
proof (unfold_locales, goal_cases)
  case (1 y e j z)
  then show ?case by (rule fee_unreachable)
next
  case (2 j z i)
  show ?case
  proof (cases "b \<le> bps_denominator")
    case True
    have "i * b \<le> j * b" using 2 by simp
    also have "j * b \<le> u256_max" using 2 by (auto simp: fee_in_Inr)
    finally have "i * b \<le> u256_max" .
    moreover obtain d where d: "ceil_div (i * b) bps_denominator = Inr d"
      using ceil_div_total [of bps_denominator] by (auto simp: bps_denominator_def)
    ultimately show ?thesis using fee_keeps_less [OF d True] by (auto simp: fee_in_Inr)
  next
    case False
    obtain d where d: "ceil_div (j * b) bps_denominator = Inr d" "d \<le> j"
      using 2 by (auto simp: fee_in_Inr)
    have "j * b \<le> j * bps_denominator"
      using ceil_div_le [OF d(1), of j] d(2) by blast
    then have "j = 0" using False by (cases "j = 0") auto
    with 2 show ?thesis by auto
  qed
next
  case (3 j z)
  then show ?case using fee_in_le by fastforce
next
  case (4 y x)
  then show ?case by (auto simp: fee_out_Inr)
next
  case (5 y x)
  then show ?case by (auto simp: fee_out_Inr)
qed

lemma stacked_fees_priced:
  "priced_quote (\<lambda>a. shrink_by_fees a fees) (\<lambda>a. gross_up_by_fees a fees)"
proof (induction fees)
  case Nil
  show ?case
    by unfold_locales (auto simp: shrink_by_fees_def gross_up_by_fees_def)
next
  case (Cons b fees)
  have "priced_stage (\<lambda>a. apply_flat_fee_in a b) (\<lambda>a. apply_flat_fee_out a b)
      (\<lambda>a. shrink_by_fees a fees) (\<lambda>a. gross_up_by_fees a fees)"
    by (rule priced_stage.intro [OF fee_priced.priced_quote_axioms Cons.IH])
  from priced_stage.staged_priced [OF this] show ?case
    by (simp add: shrink_by_fees_def gross_up_by_fees_def try_fold_append)
qed

interpretation fees_priced:
  priced_quote "\<lambda>a. shrink_by_fees a fees" "\<lambda>a. gross_up_by_fees a fees" for fees
  by (rule stacked_fees_priced)

interpretation xyc_net_priced: priced_stage
  "\<lambda>a. shrink_by_fees a fees" "\<lambda>a. gross_up_by_fees a fees"
  "xyc_quote_exact_in p" "xyc_quote_exact_out p" for fees p
  by (rule priced_stage.intro [OF stacked_fees_priced xyc_priced.priced_quote_axioms])

interpretation concentrate_net_priced: priced_stage
  "\<lambda>a. shrink_by_fees a fees" "\<lambda>a. gross_up_by_fees a fees"
  "concentrate_quote_exact_in p" "concentrate_quote_exact_out p" for fees p
  by (rule priced_stage.intro [OF stacked_fees_priced concentrate_priced.priced_quote_axioms])

section \<open>Price-limited fills\<close>

text \<open>An input and its quoted output; a venue that cannot price at all takes nothing for nothing.\<close>

definition quoted :: "(u256 \<Rightarrow> 'e + u256) \<Rightarrow> u256 \<Rightarrow> u256 \<Rightarrow> bool" where
  "quoted fwd x y \<longleftrightarrow> fwd x = Inr y \<or> (x = 0 \<and> y = 0)"

lemma quoted_zero [simp]: "quoted fwd 0 0"
  by (simp add: quoted_def)

lemma quotedI: "fwd x = Inr y \<Longrightarrow> quoted fwd x y"
  by (simp add: quoted_def)

locale limited_fill = priced_quote fwd bwd
  for fwd bwd :: "u256 \<Rightarrow> 'e + u256" +
  fixes fill :: "u256 \<Rightarrow> ratio \<Rightarrow> limited_quote"
  assumes fill_le: "fwd a = Inr out \<Longrightarrow> a \<le> u256_max \<Longrightarrow> 0 \<le> l \<Longrightarrow> lq_amount_in (fill a l) \<le> a"
    and fill_exact:
      "fwd a = Inr out \<Longrightarrow> a \<le> u256_max \<Longrightarrow> 0 \<le> l \<Longrightarrow>
         fwd (lq_amount_in (fill a l)) = Inr (lq_amount_out (fill a l))"
    and fill_antitone:
      "fwd a = Inr out \<Longrightarrow> a \<le> u256_max \<Longrightarrow> 0 \<le> l \<Longrightarrow> l \<le> l' \<Longrightarrow>
         lq_amount_in (fill a l') \<le> lq_amount_in (fill a l)"
    and fill_full: "fwd a = Inr out \<Longrightarrow> a \<le> u256_max \<Longrightarrow> lq_amount_out (fill a 0) = out"
    and fill_dry:
      "fwd a = Inr out \<Longrightarrow> a \<le> u256_max \<Longrightarrow> of_nat u256_max < l \<Longrightarrow> lq_amount_in (fill a l) = 0"
    and fill_empty: "lq_amount_in (fill 0 l) = 0 \<and> lq_amount_out (fill 0 l) = 0"
begin

lemma output_antitone:
  assumes "fwd a = Inr out" "a \<le> u256_max" "0 \<le> l" "l \<le> l'"
  shows "lq_amount_out (fill a l') \<le> lq_amount_out (fill a l)"
proof -
  have l': "0 \<le> l'" using assms(3,4) by simp
  show ?thesis
    using monotone [OF fill_exact [OF assms(1,2) l'] fill_exact [OF assms(1-3)]
        fill_antitone [OF assms]] fill_le [OF assms(1-3)] assms(2) by simp
qed

lemma output_le: "fwd a = Inr out \<Longrightarrow> a \<le> u256_max \<Longrightarrow> 0 \<le> l \<Longrightarrow> lq_amount_out (fill a l) \<le> out"
  using output_antitone [of a out 0 l] fill_full [of a out] by simp

lemma output_dry:
  assumes "fwd a = Inr out" "a \<le> u256_max" "of_nat u256_max < l"
  shows "lq_amount_out (fill a l) = 0"
proof -
  have "0 \<le> l" using assms(3) by (meson less_le_trans of_nat_0_le_iff order.strict_implies_order order_le_less_trans)
  from fill_exact [OF assms(1,2) this] fill_dry [OF assms] show ?thesis using zero_in by simp
qed

end

context priced_quote
begin

lemma quoted_mono: "quoted fwd x y \<Longrightarrow> quoted fwd x' y' \<Longrightarrow> x \<le> x' \<Longrightarrow> x' \<le> u256_max \<Longrightarrow> y \<le> y'"
  using monotone [of x y x' y'] zero_in [of y] by (auto simp: quoted_def)

lemma quoted_unique: "quoted fwd x y \<Longrightarrow> quoted fwd x y' \<Longrightarrow> y = y'"
  using zero_in [of y] zero_in [of y'] by (auto simp: quoted_def)

lemma quoted_below: "quoted fwd x y \<Longrightarrow> j \<le> x \<Longrightarrow> x \<le> u256_max \<Longrightarrow> \<exists>w. quoted fwd j w"
  using feasible_below [of x y j] by (auto simp: quoted_def)

lemma quoted_range: "quoted fwd x y \<Longrightarrow> x \<le> u256_max \<Longrightarrow> y \<le> u256_max"
  using fwd_range [of x y] by (auto simp: quoted_def)

end

context limited_fill
begin

lemma point_fill:
  "quoted fwd a out \<Longrightarrow> a \<le> u256_max \<Longrightarrow> 0 \<le> l \<Longrightarrow>
   lq_amount_in (fill a l) \<le> a \<and> quoted fwd (lq_amount_in (fill a l)) (lq_amount_out (fill a l))"
  using fill_le [of a out l] fill_exact [of a out l] fill_empty [of l] by (auto simp: quoted_def)

lemma point_antitone:
  "quoted fwd a out \<Longrightarrow> a \<le> u256_max \<Longrightarrow> 0 \<le> l \<Longrightarrow> l \<le> l' \<Longrightarrow>
   lq_amount_out (fill a l') \<le> lq_amount_out (fill a l)"
  using output_antitone [of a out l l'] fill_empty [of l'] by (auto simp: quoted_def)

lemma point_full: "quoted fwd a out \<Longrightarrow> a \<le> u256_max \<Longrightarrow> lq_amount_out (fill a 0) = out"
  using fill_full [of a out] fill_empty [of 0] by (auto simp: quoted_def)

lemma point_dry:
  "quoted fwd a out \<Longrightarrow> a \<le> u256_max \<Longrightarrow> of_nat u256_max < l \<Longrightarrow>
   lq_amount_in (fill a l) = 0 \<and> lq_amount_out (fill a l) = 0"
  using fill_dry [of a out l] output_dry [of a out l] fill_empty [of l] by (auto simp: quoted_def)

end

text \<open>A curve's own price-limited quote never fails where the whole bound can be quoted.\<close>

locale limited_curve = priced_quote fwd bwd
  for fwd bwd :: "u256 \<Rightarrow> curve_error + u256" +
  fixes qlim :: "u256 \<Rightarrow> ratio \<Rightarrow> curve_error + limited_quote"
  assumes lim_ok:
    "fwd a = Inr out \<Longrightarrow> a \<le> u256_max \<Longrightarrow> 0 \<le> l \<Longrightarrow>
       \<exists>q. qlim a l = Inr q \<and> lq_amount_in q \<le> a \<and> fwd (lq_amount_in q) = Inr (lq_amount_out q)"
    and lim_antitone:
      "fwd a = Inr out \<Longrightarrow> a \<le> u256_max \<Longrightarrow> 0 \<le> l \<Longrightarrow> l \<le> l' \<Longrightarrow>
         qlim a l = Inr q \<Longrightarrow> qlim a l' = Inr q' \<Longrightarrow> lq_amount_in q' \<le> lq_amount_in q"
    and lim_full: "fwd a = Inr out \<Longrightarrow> a \<le> u256_max \<Longrightarrow> qlim a 0 = Inr q \<Longrightarrow> lq_amount_in q = a"
    and lim_dry:
      "fwd a = Inr out \<Longrightarrow> a \<le> u256_max \<Longrightarrow> of_nat u256_max < l \<Longrightarrow> qlim a l = Inr q \<Longrightarrow>
         lq_amount_in q = 0"
    and lim_empty: "qlim 0 l = Inr q \<Longrightarrow> lq_amount_in q = 0 \<and> lq_amount_out q = 0"

subsection \<open>The curves\<close>

lemma xyc_limited_ok:
  assumes "xyc_quote_exact_in p a = Inr out" "a \<le> u256_max" "0 \<le> l"
  shows "\<exists>q. xyc_quote_with_limit p a l = Inr q \<and> lq_amount_in q \<le> a \<and>
    xyc_quote_exact_in p (lq_amount_in q) = Inr (lq_amount_out q)"
proof -
  have ne: "\<not> xyc_is_empty p" and X: "xp_balance_in p \<le> u256_max"
    using assms(1) by (auto simp: xyc_exact_in_Inr)
  have fwd: "\<exists>w. xyc_quote_exact_in p x = Inr w" if "x \<le> a" for x
    using xyc_priced.feasible_below [OF assms(1) that assms(2)] .
  obtain price where price: "xyc_marginal_price p = Inr price"
    using ne by (auto simp: xyc_marginal_price_def xyc_is_empty_def ratio_new_def)
  have "\<exists>q. xyc_quote_with_limit p a l = Inr q"
  proof -
    define boundary where "boundary = floor_sqrt (ratio_mul (ratio_mul
      (ratio_from (xp_balance_in p)) (ratio_from (xp_balance_out p))) (1 / l))"
    define x where
      "x = (case boundary of None \<Rightarrow> a | Some b \<Rightarrow> min a (sat_sub b (xp_balance_in p)))"
    have "x \<le> a" by (simp add: x_def split: option.split)
    then obtain w where w: "xyc_quote_exact_in p x = Inr w" using fwd by blast
    consider "l = 0" | "l \<noteq> 0" "price \<le> l" | "l \<noteq> 0" "\<not> price \<le> l" by blast
    then show ?thesis
      using assms(1) ne price w
      by cases (simp_all add: xyc_quote_with_limit_def ratio_is_zero_def ratio_invert_def Let_def
          boundary_def [symmetric] x_def [symmetric])
  qed
  then obtain q where q: "xyc_quote_with_limit p a l = Inr q" ..
  from xyc_limited_char [OF X assms(3) q] q show ?thesis by blast
qed

interpretation xyc_limited:
  limited_curve "xyc_quote_exact_in p" "xyc_quote_exact_out p" "xyc_quote_with_limit p" for p
proof (unfold_locales, goal_cases)
  case (1 a out l)
  then show ?case by (rule xyc_limited_ok)
next
  case (2 a out l l' q q')
  let ?X = "xp_balance_in p" and ?x = "lq_amount_in q'"
  have X: "?X \<le> u256_max" using 2(1) by (simp add: xyc_exact_in_Inr)
  have l': "0 \<le> l'" using 2(3,4) by simp
  note c = xyc_limited_char [OF X 2(3,5)] and c' = xyc_limited_char [OF X l' 2(6)]
  have "?x = 0 \<or> l' * of_nat ((?X + ?x) * (?X + ?x)) \<le> of_nat (?X * xp_balance_out p)"
    using c' by blast
  moreover have "l * of_nat ((?X + ?x) * (?X + ?x)) \<le> l' * of_nat ((?X + ?x) * (?X + ?x))"
    using 2(4) by (intro mult_right_mono) auto
  ultimately show ?case using c c' by (meson order.trans)
next
  case (3 a out q)
  then show ?case by (auto simp: xyc_quote_with_limit_def ratio_is_zero_def res split: if_splits)
next
  case (4 a out l q)
  let ?X = "xp_balance_in p" and ?Y = "xp_balance_out p" and ?x = "lq_amount_in q"
  have X: "?X \<le> u256_max" and aY: "a * ?Y \<le> u256_max" using 4(1) by (auto simp: xyc_exact_in_Inr)
  have l: "0 \<le> l" using 4(3) by (meson of_nat_0_le_iff order.strict_implies_order order_le_less_trans)
  note c = xyc_limited_char [OF X l 4(4)]
  show ?case
  proof (rule ccontr)
    assume x: "?x \<noteq> 0"
    then have "?Y \<le> a * ?Y" using c by (cases a) auto
    with aY have "?Y \<le> u256_max" by linarith
    then have "(of_nat ?Y :: rat) \<le> of_nat u256_max" by (simp only: of_nat_le_iff)
    with 4(3) have Yl: "of_nat ?Y < l" by simp
    have "of_nat (?X * ?Y) \<le> (of_nat ?Y * of_nat ((?X + ?x) * (?X + ?x)) :: rat)"
    proof -
      have "?X * 1 \<le> (?X + ?x) * (?X + ?x)" using x by (intro mult_mono) auto
      then have "?X * ?Y \<le> ?Y * ((?X + ?x) * (?X + ?x))" by (simp add: mult.commute)
      then show ?thesis by (simp only: of_nat_mult [symmetric] of_nat_le_iff)
    qed
    also have "\<dots> < l * of_nat ((?X + ?x) * (?X + ?x))"
      using Yl x by (intro mult_strict_right_mono) auto
    finally show False using c x by (meson leD order_refl)
  qed
next
  case (5 l q)
  then show ?case
    by (auto simp: xyc_quote_with_limit_def res limited_none_def Let_def xyc_exact_in_Inr
        split: if_splits option.splits)
qed

interpretation concentrate_limited:
  limited_curve "concentrate_quote_exact_in p" "concentrate_quote_exact_out p"
    "concentrate_quote_with_limit p" for p
proof (unfold_locales, goal_cases)
  case (1 a out l)
  then show ?case
    by (auto simp: concentrate_quote_exact_in_def concentrate_quote_with_limit_def res
        dest: xyc_limited_ok)
qed (auto simp: concentrate_quote_exact_in_def concentrate_quote_with_limit_def res
  intro: xyc_limited.lim_antitone xyc_limited.lim_full xyc_limited.lim_dry
  dest: xyc_limited.lim_empty)

subsection \<open>Behind the fees\<close>

lemma BPS_pos [simp]: "0 < BPS"
  by (simp add: BPS_def)

lemma gamma_step_Inr:
  "gamma_step g f = Inr g' \<longleftrightarrow> f < BPS \<and> g' = g * (of_nat (BPS - f) / of_nat BPS)"
  by (auto simp: gamma_step_def res ratio_mul_def split: option.splits if_splits)

lemma gamma_fold:
  assumes "try_fold gamma_step g fees = Inr g'" "0 < g"
  shows "0 < g' \<and> g' \<le> g \<and> (\<forall>f \<in> set fees. f < BPS)"
  using assms
proof (induction fees arbitrary: g)
  case (Cons f fees)
  then obtain h where h: "f < BPS" "h = g * (of_nat (BPS - f) / of_nat BPS)"
    "try_fold gamma_step h fees = Inr g'"
    by (auto simp: gamma_step_Inr res split: sum.splits)
  have "0 < h" using Cons.prems(2) h(1) by (simp add: h(2) BPS_def)
  moreover have "h \<le> g * 1"
    unfolding h(2) using Cons.prems(2) by (intro mult_left_mono) (auto simp: BPS_def)
  ultimately show ?case using Cons.IH [OF h(3)] h(1) by auto
qed simp

lemma gamma_fold_ok: "\<forall>f \<in> set fees. f < BPS \<Longrightarrow> \<exists>g'. try_fold gamma_step g fees = Inr g'"
proof (induction fees arbitrary: g)
  case (Cons f fees)
  then have "gamma_step g f = Inr (g * (of_nat (BPS - f) / of_nat BPS))" by (simp add: gamma_step_Inr)
  then show ?case using Cons by simp
qed simp

lemma full_fee_stack: "shrink_by_fees a fees = Inr z \<Longrightarrow> \<not> (\<forall>f \<in> set fees. f < BPS) \<Longrightarrow> z = 0"
proof (induction fees arbitrary: a)
  case (Cons f fees)
  from Cons.prems(1) obtain w where w: "apply_flat_fee_in a f = Inr w" "shrink_by_fees w fees = Inr z"
    by (auto simp: shrink_by_fees_def res)
  show ?case
  proof (cases "f < BPS")
    case True
    then show ?thesis using Cons.IH [OF w(2)] Cons.prems(2) by simp
  next
    case False
    then have "w = 0"
      using full_fee_leaves_nothing [OF w(1)] by (simp add: BPS_def bps_denominator_def)
    then show ?thesis using fees_priced.zero_in [of fees z] w(2) by simp
  qed
qed simp

lemma gross_up_zero: "\<forall>f \<in> set fees. f < BPS \<Longrightarrow> gross_up_by_fees 0 fees = Inr 0"
proof (induction fees)
  case (Cons f fees)
  then have "apply_flat_fee_out 0 f = Inr 0"
    by (simp add: fee_out_Inr ceil_div_def BPS_def bps_denominator_def)
  then show ?case using Cons by (simp add: gross_up_by_fees_def try_fold_append)
qed (simp add: gross_up_by_fees_def)

lemma fee_round_trip:
  assumes "apply_flat_fee_out y b = Inr x" "apply_flat_fee_in x b = Inr z"
  shows "z = y"
proof -
  let ?B = bps_denominator
  obtain c where b: "b < ?B" and c: "ceil_div (y * b) (?B - b) = Inr c" and x: "x = y + c"
    using assms(1) by (auto simp: fee_out_Inr)
  obtain d where d: "ceil_div (x * b) ?B = Inr d" and dx: "d \<le> x" and z: "z = x - d"
    using assms(2) by (auto simp: fee_in_Inr)
  have "c \<le> d"
  proof (rule ccontr)
    assume "\<not> c \<le> d"
    then have "(y + d + 1) * b \<le> x * b" unfolding x by (intro mult_le_mono1) simp
    also have "x * b \<le> d * ?B" using ceil_div_le [OF d, of d] by simp
    finally have "y * b \<le> d * (?B - b)" using b by (simp add: algebra_simps diff_mult_distrib2)
    then show False using ceil_div_le [OF c, of d] \<open>\<not> c \<le> d\<close> by blast
  qed
  moreover have "y \<le> z" using flat_fee.covers [OF assms] .
  ultimately show ?thesis using z x by simp
qed

lemma fees_round_trip: "gross_up_by_fees y fees = Inr x \<Longrightarrow> shrink_by_fees x fees = Inr z \<Longrightarrow> z = y"
proof (induction fees arbitrary: x)
  case (Cons b fees)
  from Cons.prems obtain x' where x': "gross_up_by_fees y fees = Inr x'" "apply_flat_fee_out x' b = Inr x"
    by (auto simp: gross_up_by_fees_def try_fold_append res split: sum.splits)
  from Cons.prems obtain w where w: "apply_flat_fee_in x b = Inr w" "shrink_by_fees w fees = Inr z"
    by (auto simp: shrink_by_fees_def res)
  show ?case using Cons.IH [OF x'(1)] w(2) fee_round_trip [OF x'(2) w(1)] by simp
qed (simp add: gross_up_by_fees_def shrink_by_fees_def)

text \<open>The candidate's price-limited quote, for a curve given by its quotes and its fees.\<close>

definition net_limited ::
  "nat list \<Rightarrow> (u256 \<Rightarrow> ratio \<Rightarrow> curve_error + limited_quote) \<Rightarrow> u256 \<Rightarrow> ratio \<Rightarrow> curve_error + limited_quote"
  where
  "net_limited fees qlim gross_bound limit =
     rbind (try_fold gamma_step 1 fees) (\<lambda>g.
     rbind (ok_or DivByZero (ratio_invert g)) (\<lambda>inverse.
     rbind (shrink_by_fees gross_bound fees) (\<lambda>net_bound.
     rbind (qlim net_bound (limit * inverse)) (\<lambda>net.
     rbind (gross_up_by_fees (lq_amount_in net) fees) (\<lambda>gross.
       Inr \<lparr>lq_amount_in = min gross gross_bound, lq_amount_out = lq_amount_out net,
            lq_limited = lq_limited net\<rparr>)))))"

context limited_curve
begin

definition fill_point :: "nat list \<Rightarrow> u256 \<Rightarrow> u256 \<Rightarrow> ratio \<Rightarrow> ratio \<Rightarrow> limited_quote \<Rightarrow> u256 \<Rightarrow> bool" where
  "fill_point fees a n l g q x \<longleftrightarrow>
     try_fold gamma_step 1 fees = Inr g \<and> 0 < g \<and> g \<le> 1 \<and> qlim n (l / g) = Inr q \<and>
     gross_up_by_fees (lq_amount_in q) fees = Inr x \<and> x \<le> a \<and>
     shrink_by_fees x fees = Inr (lq_amount_in q) \<and> fwd (lq_amount_in q) = Inr (lq_amount_out q) \<and>
     or_no_fill (net_limited fees qlim a l) =
       \<lparr>lq_amount_in = x, lq_amount_out = lq_amount_out q, lq_limited = lq_limited q\<rparr>"

lemma net_fill_open:
  assumes "shrink_by_fees a fees = Inr n" "fwd n = Inr out" "a \<le> u256_max" "0 \<le> l"
    and "\<forall>f \<in> set fees. f < BPS"
  obtains g q x where "fill_point fees a n l g q x"
proof -
  obtain g where g: "try_fold gamma_step 1 fees = Inr g" using gamma_fold_ok [OF assms(5)] by blast
  have g01: "0 < g" "g \<le> 1" using gamma_fold [OF g] by auto
  have n: "n \<le> u256_max" using fees_priced.fwd_range [OF assms(1,3)] .
  have "0 \<le> l / g" using assms(4) g01 by simp
  from lim_ok [OF assms(2) n this] obtain q where q: "qlim n (l / g) = Inr q" "lq_amount_in q \<le> n"
    "fwd (lq_amount_in q) = Inr (lq_amount_out q)" by blast
  have "\<exists>x. gross_up_by_fees (lq_amount_in q) fees = Inr x"
  proof (cases "gross_up_by_fees (lq_amount_in q) fees")
    case (Inl e)
    then have "lq_amount_in q = 0"
      using fees_priced.unreachable [OF Inl _ _ assms(1)] q(2) n by fastforce
    then show ?thesis using gross_up_zero [OF assms(5)] by simp
  qed simp
  then obtain x where x: "gross_up_by_fees (lq_amount_in q) fees = Inr x" ..
  have xa: "x \<le> a" using stacked_fees.least_input [OF x assms(1)] q(2) by blast
  obtain z where z: "shrink_by_fees x fees = Inr z"
    using fees_priced.feasible_below [OF assms(1) xa assms(3)] by blast
  have "z = lq_amount_in q" using fees_round_trip [OF x z] .
  moreover have "or_no_fill (net_limited fees qlim a l) =
      \<lparr>lq_amount_in = x, lq_amount_out = lq_amount_out q, lq_limited = lq_limited q\<rparr>"
    using g g01 assms(1) q(1) x xa
    by (simp add: net_limited_def ratio_invert_def min_def)
  ultimately show thesis using that [of g q x] g g01 q x xa z by (simp add: fill_point_def)
qed

lemma net_fill_closed:
  assumes "\<not> (\<forall>f \<in> set fees. f < BPS)"
  shows "or_no_fill (net_limited fees qlim a l) = NO_FILL"
proof -
  have "\<nexists>g. try_fold gamma_step 1 fees = Inr g" using gamma_fold assms by (meson zero_less_one)
  then show ?thesis by (cases "try_fold gamma_step 1 fees") (auto simp: net_limited_def)
qed

lemma net_fill_empty:
  "lq_amount_in (or_no_fill (net_limited fees qlim 0 l)) = 0 \<and>
   lq_amount_out (or_no_fill (net_limited fees qlim 0 l)) = 0"
proof (cases "net_limited fees qlim 0 l")
  case (Inr r)
  then obtain n q g where "shrink_by_fees 0 fees = Inr n" "qlim n (l * g) = Inr q"
    "lq_amount_in r \<le> 0" "lq_amount_out r = lq_amount_out q"
    by (auto simp: net_limited_def res)
  then show ?thesis using fees_priced.zero_in [of fees n] lim_empty [of _ q] Inr by simp
qed (simp add: NO_FILL_def)

lemma behind_fees:
  "limited_fill (\<lambda>a. rbind (shrink_by_fees a fees) fwd) (\<lambda>y. rbind (bwd y) (\<lambda>x. gross_up_by_fees x fees))
     (\<lambda>a l. or_no_fill (net_limited fees qlim a l))"
  (is "limited_fill ?fwd ?bwd ?fill")
proof (cases "\<forall>f \<in> set fees. f < BPS")
  case False
  have zero: "?fwd 0 = Inr 0 \<and> out = 0" if quoted: "?fwd a = Inr out" and range: "a \<le> u256_max" for a out
  proof -
    obtain n where n: "shrink_by_fees a fees = Inr n" "fwd n = Inr out" using quoted by (auto simp: res)
    have "n = 0" using full_fee_stack [OF n(1) False] .
    then have fwd0: "fwd 0 = Inr out" "out = 0" using n(2) zero_in by auto
    obtain z where "shrink_by_fees 0 fees = Inr z" using fees_priced.feasible_below [OF n(1) _ range] by blast
    moreover from this have "z = 0" using fees_priced.zero_in by blast
    ultimately show ?thesis using fwd0 by simp
  qed
  show ?thesis
  proof (intro limited_fill.intro limited_fill_axioms.intro, goal_cases)
    case 1
    show ?case
      by (rule priced_stage.staged_priced [OF priced_stage.intro [OF stacked_fees_priced priced_quote_axioms]])
  qed (use zero in \<open>force simp: net_fill_closed [OF False] NO_FILL_def\<close>)+
next
  case True
  show ?thesis
  proof (intro limited_fill.intro limited_fill_axioms.intro, goal_cases)
    case 1
    show ?case
      by (rule priced_stage.staged_priced [OF priced_stage.intro [OF stacked_fees_priced priced_quote_axioms]])
  next
    case (2 a out l)
    then obtain n where n: "shrink_by_fees a fees = Inr n" "fwd n = Inr out" by (auto simp: res)
    obtain g q x where "fill_point fees a n l g q x" using net_fill_open [OF n 2(2,3) True] .
    then show ?case by (simp add: fill_point_def)
  next
    case (3 a out l)
    then obtain n where n: "shrink_by_fees a fees = Inr n" "fwd n = Inr out" by (auto simp: res)
    obtain g q x where "fill_point fees a n l g q x" using net_fill_open [OF n 3(2,3) True] .
    then show ?case by (simp add: fill_point_def)
  next
    case (4 a out l l')
    then obtain n where n: "shrink_by_fees a fees = Inr n" "fwd n = Inr out" by (auto simp: res)
    have l': "0 \<le> l'" using 4(3,4) by simp
    have nmax: "n \<le> u256_max" using fees_priced.fwd_range [OF n(1) 4(2)] .
    obtain g q x where q: "fill_point fees a n l g q x" using net_fill_open [OF n 4(2,3) True] .
    obtain g' q' x' where q': "fill_point fees a n l' g' q' x'" using net_fill_open [OF n 4(2) l' True] .
    have g: "g' = g" "0 < g" using q q' by (auto simp: fill_point_def)
    have "lq_amount_in q' \<le> lq_amount_in q"
      by (rule lim_antitone [OF n(2) nmax, of "l / g" "l' / g"])
        (use q q' g 4(3,4) in \<open>auto simp: fill_point_def divide_right_mono\<close>)
    moreover have "gross_up_by_fees (lq_amount_in q') fees = Inr x'"
      "shrink_by_fees x fees = Inr (lq_amount_in q)" using q q' by (auto simp: fill_point_def)
    ultimately have "x' \<le> x" using stacked_fees.least_input by blast
    then show ?case using q q' by (simp add: fill_point_def)
  next
    case (5 a out)
    then obtain n where n: "shrink_by_fees a fees = Inr n" "fwd n = Inr out" by (auto simp: res)
    have nmax: "n \<le> u256_max" using fees_priced.fwd_range [OF n(1) 5(2)] .
    obtain g q x where q: "fill_point fees a n 0 g q x"
      using net_fill_open [OF n 5(2) order_refl True] .
    then have "lq_amount_in q = n" using lim_full [OF n(2) nmax, of q] by (simp add: fill_point_def)
    then show ?case using q n(2) by (simp add: fill_point_def)
  next
    case (6 a out l)
    then obtain n where n: "shrink_by_fees a fees = Inr n" "fwd n = Inr out" by (auto simp: res)
    have nmax: "n \<le> u256_max" using fees_priced.fwd_range [OF n(1) 6(2)] .
    have l: "0 \<le> l" using 6(3) by (meson of_nat_0_le_iff order.strict_implies_order order_le_less_trans)
    obtain g q x where q: "fill_point fees a n l g q x" using net_fill_open [OF n 6(2) l True] .
    then have "l \<le> l / g" using l by (simp add: fill_point_def le_divide_eq mult_left_le)
    then have "lq_amount_in q = 0"
      using lim_dry [OF n(2) nmax _ , of "l / g" q] q 6(3) by (simp add: fill_point_def)
    then show ?case using q gross_up_zero [OF True] by (simp add: fill_point_def)
  next
    case (7 l)
    show ?case by (rule net_fill_empty)
  qed
qed

end

text \<open>Every candidate on one of the two closed-form curves is such a venue, whatever its fees.\<close>

lemma curve_quote_funs:
  "quote_exact_in (PoolXyc p) = xyc_quote_exact_in p"
  "quote_exact_out (PoolXyc p) = xyc_quote_exact_out p"
  "quote_with_limit (PoolXyc p) = xyc_quote_with_limit p"
  "quote_exact_in (PoolConcentrate cp) = concentrate_quote_exact_in cp"
  "quote_exact_out (PoolConcentrate cp) = concentrate_quote_exact_out cp"
  "quote_with_limit (PoolConcentrate cp) = concentrate_quote_with_limit cp"
  by (simp_all add: fun_eq_iff)

lemma candidate_quote_funs:
  "net_quote_exact_in c =
     (\<lambda>a. rbind (shrink_by_fees a (cd_fees_in_bps c)) (quote_exact_in (cd_pool c)))"
  "net_quote_exact_out c =
     (\<lambda>y. rbind (quote_exact_out (cd_pool c) y) (\<lambda>x. gross_up_by_fees x (cd_fees_in_bps c)))"
  "net_quote_with_limit c = net_limited (cd_fees_in_bps c) (quote_with_limit (cd_pool c))"
  by (simp_all add: fun_eq_iff net_quote_exact_in_def net_quote_exact_out_def net_quote_with_limit_def
      net_limited_def gamma_def ratio_mul_def ratio_from_def Let_def)

abbreviation net_fill :: "candidate \<Rightarrow> u256 \<Rightarrow> ratio \<Rightarrow> limited_quote" where
  "net_fill c a l \<equiv> or_no_fill (net_quote_with_limit c a l)"

interpretation xyc_venue:
  limited_fill "net_quote_exact_in (c\<lparr>cd_pool := PoolXyc p\<rparr>)"
    "net_quote_exact_out (c\<lparr>cd_pool := PoolXyc p\<rparr>)" "net_fill (c\<lparr>cd_pool := PoolXyc p\<rparr>)" for c p
  using xyc_limited.behind_fees [of "cd_fees_in_bps c" p] by (simp add: candidate_quote_funs curve_quote_funs)

interpretation concentrate_venue:
  limited_fill "net_quote_exact_in (c\<lparr>cd_pool := PoolConcentrate p\<rparr>)"
    "net_quote_exact_out (c\<lparr>cd_pool := PoolConcentrate p\<rparr>)" "net_fill (c\<lparr>cd_pool := PoolConcentrate p\<rparr>)"
  for c p
  using concentrate_limited.behind_fees [of "cd_fees_in_bps c" p]
  by (simp add: candidate_quote_funs curve_quote_funs)

definition closed_curve :: "candidate \<Rightarrow> bool" where
  "closed_curve c = (case cd_pool c of PoolXyc _ \<Rightarrow> True | PoolConcentrate _ \<Rightarrow> True | PoolPegged _ \<Rightarrow> False)"

lemma closed_curve_venue:
  assumes "closed_curve c"
  shows "limited_fill (net_quote_exact_in c) (net_quote_exact_out c) (net_fill c)"
proof (cases "cd_pool c")
  case (PoolXyc p)
  then have "c\<lparr>cd_pool := PoolXyc p\<rparr> = c" by simp
  with xyc_venue.limited_fill_axioms [of p c] show ?thesis by simp
next
  case (PoolConcentrate p)
  then have "c\<lparr>cd_pool := PoolConcentrate p\<rparr> = c" by simp
  with concentrate_venue.limited_fill_axioms [of p c] show ?thesis by simp
qed (use assms in \<open>simp add: closed_curve_def\<close>)

end
