(* ===== verification/Routing_Assembly.thy ===== *)
theory Routing_Assembly
  imports Routing_Curves "HOL-Library.Multiset"
begin

text \<open>
  The working parts of the solver, one lemma group each: saturating sums, the sort and selection
  helpers, the grouping of legs by maker, the bracket search, the trim to an exact total and the
  construction of legs. Nothing here depends on the shape of a curve.
\<close>

section \<open>Sums and selections\<close>

lemma sat_add_min: "a \<le> u256_max \<Longrightarrow> sat_add a b = min u256_max (a + b)"
  by (simp add: sat_add_def min_def)

lemma sat_fold:
  "s \<le> u256_max \<Longrightarrow> fold (\<lambda>i s. sat_add s (f i)) xs s = min u256_max (s + (\<Sum>i\<leftarrow>xs. f i))"
proof (induction xs arbitrary: s)
  case (Cons x xs)
  then show ?case by (simp add: sat_add_min)
qed simp

lemma sat_sum_eq: "sat_sum xs = min u256_max (sum_list xs)"
  using sat_fold [of 0 "\<lambda>x. x" xs] by (simp add: sat_sum_def)

lemma sat_sum_at_eq: "sat_sum_at outs is = min u256_max (\<Sum>i\<leftarrow>is. outs ! i)"
  by (simp add: sat_sum_at_def sat_fold)

lemma exceeds_budget_iff: "exceeds_budget xs room \<longleftrightarrow> room < sum_list xs"
proof (induction xs arbitrary: room)
  case (Cons x xs)
  show ?case
  proof (cases "x \<le> room")
    case True
    then have "exceeds_budget (x # xs) room \<longleftrightarrow> exceeds_budget xs (room - x)"
      unfolding exceeds_budget.simps checked_sub_def by simp
    also have "\<dots> \<longleftrightarrow> room < sum_list xs + x" unfolding Cons.IH by (rule less_diff_conv2 [OF True])
    finally show ?thesis by (simp add: add.commute)
  next
    case False
    then show ?thesis unfolding exceeds_budget.simps checked_sub_def by simp
  qed
qed simp

lemma mset_insort_by [simp]: "mset (insort_by cmp x ys) = add_mset x (mset ys)"
  by (induction ys) auto

lemma mset_sort_by [simp]: "mset (sort_by cmp xs) = mset xs"
  by (induction xs) (auto simp: sort_by_def)

lemma set_sort_by [simp]: "set (sort_by cmp xs) = set xs"
  by (metis mset_sort_by set_mset_mset)

lemma distinct_sort_by [simp]: "distinct (sort_by cmp xs) = distinct xs"
  by (metis mset_sort_by mset_eq_imp_distinct_iff)

lemma length_sort_by [simp]: "length (sort_by cmp xs) = length xs"
  by (metis mset_sort_by size_mset)

lemma max_by_key_member: "max_by_key f xs = Some x \<Longrightarrow> x \<in> set xs"
proof -
  have "fold (\<lambda>x best. case best of None \<Rightarrow> Some x | Some b \<Rightarrow> if f b \<le> f x then Some x else Some b) xs acc
      = Some x \<Longrightarrow> x \<in> set xs \<or> acc = Some x" for acc
    by (induction xs arbitrary: acc) (fastforce split: option.splits if_splits)+
  then show "max_by_key f xs = Some x \<Longrightarrow> x \<in> set xs" by (auto simp: max_by_key_def)
qed

lemma min_by_key_member: "min_by_key f xs = Some x \<Longrightarrow> x \<in> set xs"
proof -
  have "fold (\<lambda>x best. case best of None \<Rightarrow> Some x | Some b \<Rightarrow> if f x < f b then Some x else Some b) xs acc
      = Some x \<Longrightarrow> x \<in> set xs \<or> acc = Some x" for acc
    by (induction xs arbitrary: acc) (fastforce split: option.splits if_splits)+
  then show "min_by_key f xs = Some x \<Longrightarrow> x \<in> set xs" by (auto simp: min_by_key_def)
qed

lemma min_by_key_some: "xs \<noteq> [] \<Longrightarrow> \<exists>x. min_by_key f xs = Some x"
proof -
  have "\<exists>x. fold (\<lambda>x best. case best of None \<Rightarrow> Some x | Some b \<Rightarrow> if f x < f b then Some x else Some b) xs (Some b)
      = Some x" for b xs
    by (induction xs arbitrary: b) auto
  then show "xs \<noteq> [] \<Longrightarrow> \<exists>x. min_by_key f xs = Some x" by (cases xs) (auto simp: min_by_key_def)
qed

lemma sum_list_update_nat:
  "i < length xs \<Longrightarrow> xs ! i \<le> v \<Longrightarrow> sum_list (xs[i := v]) = sum_list xs + (v - xs ! i)" for v :: nat
  by (simp add: sum_list_update elem_le_sum_list)

lemma sum_over_indices: "(\<Sum>i\<leftarrow>[0..<length xs]. f (xs ! i)) = (\<Sum>x\<leftarrow>xs. f x)" for f :: "'a \<Rightarrow> nat"
proof -
  have "map (\<lambda>i. f (xs ! i)) [0..<length xs] = map f (map ((!) xs) [0..<length xs])" by simp
  then show ?thesis by (simp only: map_nth)
qed

section \<open>Grouping legs by maker\<close>

definition maker_of :: "candidate list \<Rightarrow> nat \<Rightarrow> maker_id" where
  "maker_of cs i = sk_maker (cd_key (cs ! i))"

definition maker_indices :: "candidate list \<Rightarrow> maker_id \<Rightarrow> nat list" where
  "maker_indices cs m = filter (\<lambda>i. maker_of cs i = m) [0..<length cs]"

definition maker_cap :: "candidate list \<Rightarrow> maker_id \<Rightarrow> u256" where
  "maker_cap cs m = Min ((\<lambda>i. cd_wallet_cap (cs ! i)) ` set (maker_indices cs m))"

definition maker_group_of :: "candidate list \<Rightarrow> maker_id \<Rightarrow> maker_group" where
  "maker_group_of cs m = \<lparr>mg_indices = maker_indices cs m, mg_wallet_cap = maker_cap cs m\<rparr>"

lemma maker_indices_iff [simp]: "i \<in> set (maker_indices cs m) \<longleftrightarrow> i < length cs \<and> maker_of cs i = m"
  by (auto simp: maker_indices_def)

lemma distinct_maker_indices [simp]: "distinct (maker_indices cs m)"
  by (simp add: maker_indices_def)

lemma maker_indices_snoc:
  "maker_indices (cs @ [c]) m =
   maker_indices cs m @ (if sk_maker (cd_key c) = m then [length cs] else [])"
proof -
  have "filter (\<lambda>i. maker_of (cs @ [c]) i = m) [0..<length cs] = maker_indices cs m"
    unfolding maker_indices_def by (intro filter_cong) (auto simp: maker_of_def nth_append)
  then show ?thesis by (simp add: maker_indices_def maker_of_def)
qed

lemma maker_cap_snoc:
  "maker_cap (cs @ [c]) m =
   (if sk_maker (cd_key c) \<noteq> m then maker_cap cs m
    else if maker_indices cs m = [] then cd_wallet_cap c else min (maker_cap cs m) (cd_wallet_cap c))"
proof -
  have img: "(\<lambda>i. cd_wallet_cap ((cs @ [c]) ! i)) ` set (maker_indices cs m) =
      (\<lambda>i. cd_wallet_cap (cs ! i)) ` set (maker_indices cs m)"
    by (intro image_cong) (auto simp: nth_append)
  show ?thesis
    by (auto simp: maker_cap_def maker_indices_snoc img image_Un Min_Un min.commute)
qed

lemma joined_groups:
  "bm_wf (fold join_group (enumerate 0 cs) []) \<and>
   bm_get (fold join_group (enumerate 0 cs) []) m =
     (if maker_indices cs m = [] then None else Some (maker_group_of cs m))"
proof (induction cs arbitrary: m rule: rev_induct)
  case Nil
  show ?case by (simp add: maker_indices_def bm_wf_def bm_keys_def)
next
  case (snoc c cs)
  let ?g = "fold join_group (enumerate 0 cs) []"
  have wf: "bm_wf ?g" and get: "\<And>m. bm_get ?g m =
      (if maker_indices cs m = [] then None else Some (maker_group_of cs m))"
    using snoc by blast+
  have "fold join_group (enumerate 0 (cs @ [c])) [] = join_group (length cs, c) ?g"
    by (simp add: enumerate_append_eq)
  then show ?case
    unfolding join_group_def [of "(length cs, c)"]
    using wf by (auto simp: get Let_def maker_group_of_def maker_indices_snoc maker_cap_snoc)
qed

definition makers :: "candidate list \<Rightarrow> maker_id list" where
  "makers cs = bm_keys (fold join_group (enumerate 0 cs) [])"

lemma makers_iff: "m \<in> set (makers cs) \<longleftrightarrow> maker_indices cs m \<noteq> []"
  using joined_groups [of cs m] bm_get_None_iff [of "fold join_group (enumerate 0 cs) []" m]
  by (auto simp: makers_def bm_keys_def split: if_splits)

lemma distinct_makers: "distinct (makers cs)"
  using joined_groups [of cs] by (auto simp: makers_def bm_keys_def bm_wf_def strict_sorted_iff)

lemma groups_by_maker: "mgs_groups (maker_groups_new cs) = map (maker_group_of cs) (makers cs)"
proof -
  let ?g = "fold join_group (enumerate 0 cs) []"
  have "snd e = maker_group_of cs (fst e)" if "e \<in> set ?g" for e
  proof -
    have "bm_get ?g (fst e) = Some (snd e)"
      using joined_groups [of cs "fst e"] bm_get_iff [of ?g "fst e" "snd e"] that by simp
    then show ?thesis using joined_groups [of cs "fst e"] by (simp split: if_splits)
  qed
  then show ?thesis
    by (simp add: maker_groups_new_def Let_def bm_values_def makers_def bm_keys_def)
qed

text \<open>Writing one value at the indices of each group in turn.\<close>

lemma fold_update_length [simp]: "length (fold (\<lambda>i v. v[i := x]) is v) = length v"
  by (induction "is" arbitrary: v) auto

lemma fold_update_nth:
  "j < length v \<Longrightarrow> fold (\<lambda>i v. v[i := x]) is v ! j = (if j \<in> set is then x else v ! j)"
  by (induction "is" arbitrary: v) auto

lemma fold_groups_length [simp]:
  "length (fold (\<lambda>g v. fold (\<lambda>i v. v[i := val g]) (ind g) v) gs v) = length v"
  by (induction gs arbitrary: v) auto

lemma fold_groups_nth:
  assumes "j < length v"
    and "\<And>g. g \<in> set gs \<Longrightarrow> j \<in> set (ind g) \<Longrightarrow> val g = x"
  shows "fold (\<lambda>g v. fold (\<lambda>i v. v[i := val g]) (ind g) v) gs v ! j =
    (if \<exists>g \<in> set gs. j \<in> set (ind g) then x else v ! j)"
  using assms by (induction gs arbitrary: v) (auto simp: fold_update_nth)

lemma maker_of_member: "i < length cs \<Longrightarrow> maker_of cs i \<in> set (makers cs)"
  unfolding makers_iff by (metis maker_indices_iff empty_iff empty_set)

lemma group_of_leg:
  assumes "i < length cs"
  shows "mgs_groups (maker_groups_new cs) ! (mgs_group_by_leg (maker_groups_new cs) ! i) =
    maker_group_of cs (maker_of cs i)"
proof -
  let ?gs = "mgs_groups (maker_groups_new cs)"
  obtain p where p: "p < length (makers cs)" "makers cs ! p = maker_of cs i"
    using maker_of_member [OF assms] by (auto simp: in_set_conv_nth)
  have gbl: "mgs_group_by_leg (maker_groups_new cs) =
      fold (\<lambda>g v. fold (\<lambda>i v. v[i := fst g]) (mg_indices (snd g)) v) (enumerate 0 ?gs)
        (replicate (length cs) 0)"
    by (simp add: maker_groups_new_def Let_def case_prod_unfold)
  have mem: "(n, g) \<in> set (enumerate 0 ?gs) \<longleftrightarrow> n < length (makers cs) \<and> g = maker_group_of cs (makers cs ! n)"
    for n g by (auto simp: in_set_enumerate_eq groups_by_maker)
  have "mgs_group_by_leg (maker_groups_new cs) ! i = p"
    unfolding gbl
  proof (subst fold_groups_nth [where x = p], goal_cases)
    case (2 g)
    then obtain n where n: "g = (n, maker_group_of cs (makers cs ! n))" "n < length (makers cs)"
      using mem [of "fst g" "snd g"] by (metis prod.collapse)
    then have "makers cs ! n = makers cs ! p" using 2(2) p by (simp add: maker_group_of_def)
    then have "n = p" using nth_eq_iff_index_eq [OF distinct_makers n(2) p(1)] by blast
    then show ?case using n by simp
  next
    case 3
    have "(p, maker_group_of cs (makers cs ! p)) \<in> set (enumerate 0 ?gs)" using mem p by simp
    moreover have "i \<in> set (mg_indices (maker_group_of cs (makers cs ! p)))"
      using assms p by (simp add: maker_group_of_def)
    ultimately show ?case by force
  qed (use assms in simp)
  then show ?thesis using p by (simp add: groups_by_maker)
qed

lemma output_for_leg_eq:
  "i < length cs \<Longrightarrow> output_for_leg (maker_groups_new cs) outs i =
     min u256_max (\<Sum>j\<leftarrow>maker_indices cs (maker_of cs i). outs ! j)"
  by (simp add: output_for_leg_def group_of_leg sat_sum_at_eq maker_group_of_def)

subsection \<open>Wallet floors\<close>

definition wallet_binds :: "candidate list \<Rightarrow> u256 list \<Rightarrow> maker_id \<Rightarrow> bool" where
  "wallet_binds cs bounds m \<longleftrightarrow>
     2 \<le> length (maker_indices cs m) \<and>
     maker_cap cs m < (\<Sum>i\<leftarrow>maker_indices cs m. output_at cs bounds ratio_zero i)"

definition maker_floor :: "candidate list \<Rightarrow> u256 list \<Rightarrow> maker_id \<Rightarrow> ratio" where
  "maker_floor cs bounds m = group_floor_level cs bounds (maker_group_of cs m)"

lemma floor_group_eq:
  "floor_group cs bounds (maker_group_of cs m) v =
   fold (\<lambda>i v. v[i := maker_floor cs bounds m])
     (if wallet_binds cs bounds m then maker_indices cs m else []) v"
  by (simp add: floor_group_def wallet_binds_def maker_group_of_def exceeds_budget_iff
      maker_floor_def Let_def not_less comp_def)

lemma floor_group_fun:
  "floor_group cs bounds (maker_group_of cs m) =
   fold (\<lambda>i v. v[i := maker_floor cs bounds m])
     (if wallet_binds cs bounds m then maker_indices cs m else [])"
  by (rule ext) (rule floor_group_eq)

lemma wallet_floors_nth:
  assumes "i < length cs"
  shows "wallet_floors cs bounds (maker_groups_new cs) ! i =
    (if wallet_binds cs bounds (maker_of cs i) then maker_floor cs bounds (maker_of cs i) else 0)"
proof -
  have "wallet_floors cs bounds (maker_groups_new cs) =
      fold (\<lambda>m v. fold (\<lambda>i v. v[i := maker_floor cs bounds m])
        (if wallet_binds cs bounds m then maker_indices cs m else []) v)
        (makers cs) (replicate (length cs) 0)"
    by (simp add: wallet_floors_def groups_by_maker fold_map comp_def floor_group_fun ratio_zero_def)
  also have "\<dots> ! i = (if \<exists>m \<in> set (makers cs).
        i \<in> set (if wallet_binds cs bounds m then maker_indices cs m else [])
      then maker_floor cs bounds (maker_of cs i) else replicate (length cs) 0 ! i)"
    by (rule fold_groups_nth) (use assms in \<open>auto split: if_splits\<close>)
  finally show ?thesis using assms maker_of_member [OF assms] by auto
qed

section \<open>The bracket\<close>

text \<open>
  The lower end keeps meeting the target; the upper end keeps missing it once it does, and it does
  when nothing fills at twice the largest representable price.
\<close>

lemma bracket_loop_lo:
  "target \<le> fill lo \<Longrightarrow> target \<le> fill (lb_lo (bracket_loop fill target tol n lo hi m_lo m_hi))"
  by (induction fill target tol n lo hi m_lo m_hi rule: bracket_loop.induct) (auto simp: Let_def)

lemma bracket_loop_hi:
  "fill hi < target \<Longrightarrow> fill (lb_hi (bracket_loop fill target tol n lo hi m_lo m_hi)) < target"
  by (induction fill target tol n lo hi m_lo m_hi rule: bracket_loop.induct) (auto simp: Let_def)

lemma bracket_loop_nonneg:
  "0 \<le> lo \<Longrightarrow> 0 \<le> hi \<Longrightarrow> 0 \<le> lb_lo (bracket_loop fill target tol n lo hi m_lo m_hi) \<and>
     0 \<le> lb_hi (bracket_loop fill target tol n lo hi m_lo m_hi)"
  by (induction fill target tol n lo hi m_lo m_hi rule: bracket_loop.induct)
    (auto simp: Let_def midpoint_def)

lemma bracket_level_start:
  obtains hi m_hi where
    "bracket_level fill target seed upper = bracket_loop fill target (max (target div 1000000) 1)
       MAX_ITERS 0 hi (fill 0) m_hi"
    "fill (2 * of_nat u256_max) < target \<Longrightarrow> fill hi < target"
    "0 \<le> upper \<Longrightarrow> 0 \<le> unwrap_or 0 seed \<Longrightarrow> 0 \<le> hi"
proof -
  define hi0 where "hi0 = (case seed of
      Some s \<Rightarrow> if \<not> ratio_is_zero s then min (doubled s) upper else upper | None \<Rightarrow> upper)"
  define hi1 where "hi1 = (if target \<le> fill hi0 then upper else hi0)"
  define hi where "hi = (if target \<le> fill hi1 then doubled (ratio_from u256_max) else hi1)"
  have "bracket_level fill target seed upper = bracket_loop fill target (max (target div 1000000) 1)
       MAX_ITERS 0 hi (fill 0) (fill hi)"
    unfolding bracket_level_def hi0_def [symmetric] Let_def
    by (simp add: hi_def hi1_def ratio_zero_def Let_def)
  moreover have "fill (2 * of_nat u256_max) < target \<Longrightarrow> fill hi < target"
    by (auto simp: hi_def doubled_def ratio_from_def mult.commute not_le)
  moreover have "0 \<le> upper \<Longrightarrow> 0 \<le> unwrap_or 0 seed \<Longrightarrow> 0 \<le> hi"
    by (auto simp: hi_def hi1_def hi0_def doubled_def ratio_from_def split: option.split)
  ultimately show thesis using that by blast
qed

lemma bracket_lo: "target \<le> fill 0 \<Longrightarrow> target \<le> fill (lb_lo (bracket_level fill target seed upper))"
  by (rule bracket_level_start [of fill target seed upper]) (simp add: bracket_loop_lo)

lemma bracket_hi:
  "fill (2 * of_nat u256_max) < target \<Longrightarrow> fill (lb_hi (bracket_level fill target seed upper)) < target"
  by (rule bracket_level_start [of fill target seed upper]) (simp add: bracket_loop_hi)

lemma bracket_nonneg:
  assumes "0 \<le> upper" "0 \<le> unwrap_or 0 seed"
  shows "0 \<le> lb_lo (bracket_level fill target seed upper)"
    "0 \<le> lb_hi (bracket_level fill target seed upper)"
  by (rule bracket_level_start [of fill target seed upper], use assms in \<open>simp add: bracket_loop_nonneg\<close>)+

section \<open>Trimming to a total\<close>

lemma trim_fold:
  assumes "distinct is" "\<forall>i \<in> set is. i < length am"
  shows "length (fst (fold trim_leg is (am, r))) = length am \<and>
    (\<forall>j < length am. fst (fold trim_leg is (am, r)) ! j \<le> am ! j \<and>
       (j \<notin> set is \<longrightarrow> fst (fold trim_leg is (am, r)) ! j = am ! j)) \<and>
    (\<Sum>i\<leftarrow>is. fst (fold trim_leg is (am, r)) ! i) = min r (\<Sum>i\<leftarrow>is. am ! i)"
  using assms
proof (induction "is" arbitrary: am r)
  case (Cons i "is")
  let ?k = "min (am ! i) r" and ?am = "am[i := min (am ! i) r]"
  define res where "res = fst (fold trim_leg is (?am, r - ?k))"
  have step: "fst (fold trim_leg (i # is) (am, r)) = res"
    by (simp add: res_def trim_leg_def Let_def)
  have il: "i < length am" and i: "i \<notin> set is" using Cons.prems by auto
  have IH: "length res = length am"
    "\<And>j. j < length am \<Longrightarrow> res ! j \<le> ?am ! j"
    "\<And>j. j < length am \<Longrightarrow> j \<notin> set is \<Longrightarrow> res ! j = ?am ! j"
    "(\<Sum>i\<leftarrow>is. res ! i) = min (r - ?k) (\<Sum>i\<leftarrow>is. ?am ! i)"
    using Cons.IH [of ?am "r - ?k"] Cons.prems by (auto simp: res_def)
  have same: "(\<Sum>j\<leftarrow>is. ?am ! j) = (\<Sum>j\<leftarrow>is. am ! j)"
    using i by (intro arg_cong [of _ _ sum_list] map_cong) (auto intro!: nth_list_update_neq)
  have "res ! i = ?k" using IH(3) [OF il i] il by simp
  then have "(\<Sum>j\<leftarrow>i # is. res ! j) = min r (\<Sum>j\<leftarrow>i # is. am ! j)"
    using IH(4) unfolding same by auto
  moreover have "res ! j \<le> am ! j" if "j < length am" for j
    using IH(2) [OF that] il by (auto simp: nth_list_update split: if_splits)
  moreover have "res ! j = am ! j" if "j < length am" "j \<notin> set (i # is)" for j
    using IH(3) that by (auto simp: nth_list_update)
  ultimately show ?case unfolding step using IH(1) by blast
qed simp

lemma trim_to_total_spec:
  fixes cs :: "candidate list" and target :: u256
  assumes "distinct is" "\<forall>i \<in> set is. i < length am"
  defines "am' \<equiv> trim_to_total cs am target is"
  shows "length am' = length am" "j < length am \<Longrightarrow> am' ! j \<le> am ! j"
    "(\<Sum>i\<leftarrow>is. am' ! i) = min target (\<Sum>i\<leftarrow>is. am ! i)"
proof -
  let ?nz = "filter (\<lambda>i. am ! i \<noteq> 0) is"
  let ?o = "rev (sort_by (by_amount cs am) ?nz)"
  have am': "am' = fst (fold trim_leg ?o (am, target))" by (simp add: am'_def trim_to_total_def)
  have o: "distinct ?o" "\<forall>i \<in> set ?o. i < length am" using assms by auto
  note spec = trim_fold [OF o, of target, folded am']
  show "length am' = length am" and le: "j < length am \<Longrightarrow> am' ! j \<le> am ! j" for j
    using spec by blast+
  have flat: "(\<Sum>i\<leftarrow>?o. f i) = (\<Sum>i\<leftarrow>?nz. f i)" for f :: "nat \<Rightarrow> nat"
  proof -
    have "mset (map f ?o) = mset (map f ?nz)" by simp
    then show ?thesis using sum_mset_sum_list [of "map f ?o"] sum_mset_sum_list [of "map f ?nz"] by metis
  qed
  have drop: "(\<Sum>i\<leftarrow>?nz. f i) = (\<Sum>i\<leftarrow>is. f i)" if "\<And>i. i \<in> set is \<Longrightarrow> f i \<le> am ! i" for f :: "nat \<Rightarrow> nat"
    by (rule sum_list_map_filter) (use that in \<open>auto dest!: that\<close>)
  have "(\<Sum>i\<leftarrow>?nz. am' ! i) = min target (\<Sum>i\<leftarrow>?nz. am ! i)"
    using spec unfolding flat by blast
  then show "(\<Sum>i\<leftarrow>is. am' ! i) = min target (\<Sum>i\<leftarrow>is. am ! i)"
    using drop [of "\<lambda>i. am ! i"] drop [of "\<lambda>i. am' ! i"] le assms(2) by simp
qed

section \<open>Building legs\<close>

definition made_leg :: "fill_kind \<Rightarrow> candidate \<times> u256 \<Rightarrow> route_leg option" where
  "made_leg kind ca =
     (if snd ca = 0 then None
      else case leg_amounts kind (fst ca) (snd ca) of
        None \<Rightarrow> None
      | Some (leg_in, leg_out) \<Rightarrow>
          if leg_in = 0 \<or> leg_out = 0 then None
          else Some \<lparr>rl_maker = sk_maker (cd_key (fst ca)), rl_hash = sk_hash (cd_key (fst ca)),
                     rl_token_in = cd_token_in (fst ca), rl_token_out = cd_token_out (fst ca),
                     rl_amount_in = leg_in, rl_amount_out = leg_out\<rparr>)"

lemma build_legs_spec:
  assumes "build_legs kind pairs legs ain aout = Some (legs', ain', aout')"
  defines "new \<equiv> List.map_filter (made_leg kind) pairs"
  shows "legs' = legs @ new \<and> ain' = ain + (\<Sum>l\<leftarrow>new. rl_amount_in l) \<and>
    aout' = aout + (\<Sum>l\<leftarrow>new. rl_amount_out l) \<and>
    (\<forall>(c, a) \<in> set pairs. a \<noteq> 0 \<longrightarrow> leg_amounts kind c a \<noteq> None)"
  using assms(1) unfolding new_def
proof (induction kind pairs legs ain aout rule: build_legs.induct)
  case (2 kind c amount rest legs ain aout)
  show ?case
  proof (cases "amount = 0")
    case True
    then show ?thesis using 2 by (simp add: made_leg_def map_filter_simps)
  next
    case False
    then obtain li lo where la: "leg_amounts kind c amount = Some (li, lo)"
      using 2(4) by (auto split: option.splits)
    show ?thesis
    proof (cases "li = 0 \<or> lo = 0")
      case True
      then have "build_legs kind rest legs ain aout = Some (legs', ain', aout')" using 2(4) la False by auto
      from 2(2) [OF False la refl True this] show ?thesis
        using la False True by (auto simp: made_leg_def map_filter_simps)
    next
      case nz: False
      then show ?thesis
        using 2(3) [OF False la refl nz refl] 2(4) False la
        by (auto simp: made_leg_def map_filter_simps Let_def split: option.splits)
    qed
  qed
qed (simp add: map_filter_simps)

lemma build_spec:
  assumes "build cs amounts kind lambda = Some s"
  shows "sp_legs s = List.map_filter (made_leg kind) (zip cs amounts)"
    "sp_amount_in s = (\<Sum>l\<leftarrow>sp_legs s. rl_amount_in l)"
    "sp_amount_out s = (\<Sum>l\<leftarrow>sp_legs s. rl_amount_out l)"
    "sp_legs s \<noteq> []" "sp_lambda s = lambda"
    "(c, a) \<in> set (zip cs amounts) \<Longrightarrow> a \<noteq> 0 \<Longrightarrow> leg_amounts kind c a \<noteq> None"
  using assms build_legs_spec [of kind "zip cs amounts" "[]" 0 0]
  by (fastforce simp: build_def split: option.splits if_splits)+

end
