(* ===== verification/Routing_Laws.thy ===== *)
theory Routing_Laws
  imports Routing_Assembly
begin

text \<open>
  The solver's guarantees on venues that meet the contract \<open>limited_fill\<close>: exact-in never spends
  more than the request, exact-out delivers exactly the request, no leg exceeds its frozen cap and
  no maker's legs together exceed its wallet. The wallet argument is the one of the source: legs of
  a binding wallet are filled at or above the level where the group fits, and every top-up stays
  within the room that is left.
\<close>

section \<open>Venues\<close>

definition venue_ok :: "candidate \<Rightarrow> bool" where
  "venue_ok c \<longleftrightarrow>
     closed_curve c \<and> 0 < cd_cap_out c \<and> cd_cap_out c \<le> cd_wallet_cap c \<and> cd_wallet_cap c \<le> u256_max"

definition venues_ok :: "candidate list \<Rightarrow> bool" where
  "venues_ok cs \<longleftrightarrow>
     (\<forall>c \<in> set cs. venue_ok c) \<and>
     (\<forall>c \<in> set cs. \<forall>d \<in> set cs. sk_maker (cd_key c) = sk_maker (cd_key d) \<longrightarrow>
        cd_wallet_cap c = cd_wallet_cap d)"

abbreviation cquoted :: "candidate \<Rightarrow> u256 \<Rightarrow> u256 \<Rightarrow> bool" where
  "cquoted c \<equiv> quoted (net_quote_exact_in c)"

lemma venue_fill: "venue_ok c \<Longrightarrow> limited_fill (net_quote_exact_in c) (net_quote_exact_out c) (net_fill c)"
  by (simp add: venue_ok_def closed_curve_venue)

lemma venue_priced: "venue_ok c \<Longrightarrow> priced_quote (net_quote_exact_in c) (net_quote_exact_out c)"
  using venue_fill limited_fill_def by blast

lemmas venue_mono = priced_quote.quoted_mono [OF venue_priced]
  and venue_below = priced_quote.quoted_below [OF venue_priced]
  and venue_unique = priced_quote.quoted_unique [OF venue_priced]
  and venue_point = limited_fill.point_fill [OF venue_fill]
  and venue_antitone = limited_fill.point_antitone [OF venue_fill]
  and venue_full = limited_fill.point_full [OF venue_fill]
  and venue_dry = limited_fill.point_dry [OF venue_fill]

lemma venue_nth: "venues_ok cs \<Longrightarrow> i < length cs \<Longrightarrow> venue_ok (cs ! i)"
  by (simp add: venues_ok_def)

lemma maker_cap_eq:
  assumes "venues_ok cs" "i < length cs"
  shows "maker_cap cs (maker_of cs i) = cd_wallet_cap (cs ! i)"
proof -
  have "(\<lambda>j. cd_wallet_cap (cs ! j)) ` set (maker_indices cs (maker_of cs i)) = {cd_wallet_cap (cs ! i)}"
    using assms unfolding venues_ok_def by (fastforce simp: maker_of_def)
  then show ?thesis by (simp add: maker_cap_def)
qed

section \<open>Input bounds\<close>

lemma input_within_Some:
  assumes "venue_ok c" "input_within_output c y = Some x" "y \<le> u256_max"
  shows "x \<le> u256_max" "\<exists>out. cquoted c x out" "j \<le> x \<Longrightarrow> cquoted c j w \<Longrightarrow> w \<le> y"
proof -
  note p = venue_priced [OF assms(1)]
  obtain input where input: "net_quote_exact_out c y = Inr input"
    using assms(2) by (auto simp: input_within_output_def split: sum.splits)
  obtain out where out: "net_quote_exact_in c input = Inr out"
    using assms(2) input by (auto simp: input_within_output_def split: sum.splits)
  have x: "x = (if out \<le> y then input else input - 1)"
    using assms(2) input out by (simp add: input_within_output_def split: if_splits)
  note io = input out
  have qi: "cquoted c input out" using out by (simp add: quoted_def)
  have range: "input \<le> u256_max" using priced_quote.bwd_range [OF p io(1) assms(3)] .
  have "x \<le> input" by (simp add: x)
  then show "x \<le> u256_max" using range by (rule order_trans)
  show "\<exists>out. cquoted c x out"
    using priced_quote.quoted_below [OF p qi, of x] range by (simp add: x)
  show "w \<le> y" if "j \<le> x" "cquoted c j w" for j w
  proof (cases "net_quote_exact_in c j")
    case (Inl e)
    then show ?thesis using that(2) by (simp add: quoted_def)
  next
    case (Inr w')
    then have "cquoted c j w'" by (simp add: quoted_def)
    with that(2) have w: "w = w'" by (rule priced_quote.quoted_unique [OF p])
    show ?thesis
    proof (cases "out \<le> y")
      case True
      then show ?thesis
        using priced_quote.within_quote [OF p io True assms(3) _ Inr] that(1) by (simp add: x w)
    next
      case False
      then show ?thesis using priced_quote.below_quote [OF p io(1) _ Inr] that(1) by (simp add: x w)
    qed
  qed
qed

lemma input_within_None:
  assumes "venue_ok c" "input_within_output c y = None" "0 < y" "y \<le> u256_max"
    and "j \<le> u256_max" "cquoted c j w"
  shows "w \<le> y"
proof (cases "net_quote_exact_in c j")
  case (Inl e)
  then show ?thesis using assms(6) by (simp add: quoted_def)
next
  case (Inr w')
  note p = venue_priced [OF assms(1)]
  have "cquoted c j w'" using Inr by (simp add: quoted_def)
  with assms(6) have w: "w = w'" by (rule priced_quote.quoted_unique [OF p])
  have "net_quote_exact_in c x \<noteq> Inr z" if "net_quote_exact_out c y = Inr x" for x z
    using assms(2) that by (auto simp: input_within_output_def split: sum.splits if_splits)
  from priced_quote.unpriced_cap [OF p this assms(3,4,5) Inr] show ?thesis by (simp add: w)
qed

lemma feasible_input_spec: "feasible_input c u \<le> u \<and> (\<exists>out. cquoted c (feasible_input c u) out)"
  using feasible_bound_cases [of u "\<lambda>x. is_ok (net_quote_exact_in c x)"]
  by (fastforce simp: feasible_input_def quoted_def is_ok_iff)

text \<open>The bound of a leg whose cap binds: it prices, and nothing within it delivers past the cap.\<close>

lemma cap_bound:
  assumes "venue_ok c" "u \<le> u256_max"
  defines "b \<equiv> unwrap_or (feasible_input c u) (input_within_output c (cd_cap_out c))"
  shows "b \<le> u256_max" "\<exists>out. cquoted c b out" "j \<le> b \<Longrightarrow> cquoted c j w \<Longrightarrow> w \<le> cd_cap_out c"
proof -
  have cap: "0 < cd_cap_out c" "cd_cap_out c \<le> u256_max" using assms(1) by (auto simp: venue_ok_def)
  have "b \<le> u256_max \<and> (\<exists>out. cquoted c b out) \<and> (\<forall>j w. j \<le> b \<longrightarrow> cquoted c j w \<longrightarrow> w \<le> cd_cap_out c)"
  proof (cases "input_within_output c (cd_cap_out c)")
    case None
    then have b: "b = feasible_input c u" by (simp add: b_def)
    then have "b \<le> u256_max" using feasible_input_spec [of c u] assms(2) by simp
    then show ?thesis
      using feasible_input_spec [of c u] input_within_None [OF assms(1) None cap] unfolding b
      by (meson order_trans)
  next
    case (Some x)
    then show ?thesis using input_within_Some [OF assms(1) Some cap(2)] by (auto simp: b_def)
  qed
  then show "b \<le> u256_max" "\<exists>out. cquoted c b out" "j \<le> b \<Longrightarrow> cquoted c j w \<Longrightarrow> w \<le> cd_cap_out c"
    by blast+
qed

lemma bound_exact_in:
  assumes "venue_ok c" "target \<le> u256_max"
  defines "b \<equiv> input_bound target ExactIn c"
  shows "b \<le> target" "\<exists>out. cquoted c b out" "j \<le> b \<Longrightarrow> cquoted c j w \<Longrightarrow> w \<le> cd_cap_out c"
proof -
  let ?cap = "unwrap_or (feasible_input c target) (input_within_output c (cd_cap_out c))"
  note cap = cap_bound [OF assms(1,2)]
  have b: "b = min ?cap target" by (simp add: b_def input_bound_def)
  show "b \<le> target" by (simp add: b)
  show "\<exists>out. cquoted c b out" using cap(1,2) venue_below [OF assms(1)] b by (metis min.cobounded1)
  show "j \<le> b \<Longrightarrow> cquoted c j w \<Longrightarrow> w \<le> cd_cap_out c" by (rule cap(3)) (simp_all add: b)
qed

text \<open>
  For exact-out a target below the cap takes the plain exact-out quote as its bound; that this
  input prices again is a condition on the venue, met unless its reserves approach 256 bits.
\<close>

definition prices_back :: "u256 \<Rightarrow> candidate \<Rightarrow> bool" where
  "prices_back target c \<longleftrightarrow>
     (case net_quote_exact_out c target of Inl _ \<Rightarrow> True | Inr x \<Rightarrow> is_ok (net_quote_exact_in c x))"

lemma bound_exact_out:
  assumes "venue_ok c" "target \<le> u256_max" "prices_back target c"
  defines "b \<equiv> input_bound target ExactOut c"
  shows "b \<le> u256_max" "\<exists>out. cquoted c b out"
    "cd_cap_out c \<le> target \<Longrightarrow> j \<le> b \<Longrightarrow> cquoted c j w \<Longrightarrow> w \<le> cd_cap_out c"
proof -
  note cap = cap_bound [OF assms(1) order_refl]
  have "b \<le> u256_max \<and> (\<exists>out. cquoted c b out)"
  proof (cases "target < cd_cap_out c")
    case True
    then show ?thesis
      using feasible_input_spec [of c u256_max] assms(3)
        priced_quote.bwd_range [OF venue_priced [OF assms(1)] _ assms(2)]
      by (cases "net_quote_exact_out c target")
        (auto simp: b_def input_bound_def prices_back_def is_ok_iff quoted_def)
  next
    case False
    then show ?thesis using cap by (simp add: b_def input_bound_def)
  qed
  then show "b \<le> u256_max" "\<exists>out. cquoted c b out" by blast+
  show "cd_cap_out c \<le> target \<Longrightarrow> j \<le> b \<Longrightarrow> cquoted c j w \<Longrightarrow> w \<le> cd_cap_out c"
    by (rule cap(3)) (simp_all add: b_def input_bound_def)
qed

section \<open>Fills within wallets\<close>

definition bounds_ok :: "candidate list \<Rightarrow> u256 list \<Rightarrow> bool" where
  "bounds_ok cs bounds \<longleftrightarrow>
     length bounds = length cs \<and>
     (\<forall>i < length cs. bounds ! i \<le> u256_max \<and> (\<exists>out. cquoted (cs ! i) (bounds ! i) out))"

lemma bounds_okD:
  "bounds_ok cs bounds \<Longrightarrow> i < length cs \<Longrightarrow> bounds ! i \<le> u256_max \<and> (\<exists>out. cquoted (cs ! i) (bounds ! i) out)"
  by (simp add: bounds_ok_def)

lemma output_at_eq: "output_at cs bounds l i = lq_amount_out (net_fill (cs ! i) (bounds ! i) l)"
  by (cases "net_quote_with_limit (cs ! i) (bounds ! i) l") (simp_all add: output_at_def NO_FILL_def)

lemma output_at_antitone:
  assumes "venues_ok cs" "bounds_ok cs bounds" "i < length cs" "0 \<le> l" "l \<le> l'"
  shows "output_at cs bounds l' i \<le> output_at cs bounds l i"
  using venue_antitone [OF venue_nth [OF assms(1,3)]] bounds_okD [OF assms(2,3)] assms(4,5)
  by (auto simp: output_at_eq)

lemma group_output_eq:
  "group_output_at_level cs bounds (maker_group_of cs m) l =
   min u256_max (\<Sum>i\<leftarrow>maker_indices cs m. output_at cs bounds l i)"
  by (simp add: group_output_at_level_def sat_fold maker_group_of_def)

lemma group_output_dry:
  assumes "venues_ok cs" "bounds_ok cs bounds" "of_nat u256_max < l"
  shows "(\<Sum>i\<leftarrow>maker_indices cs m. output_at cs bounds l i) = 0"
proof -
  have "output_at cs bounds l i = 0" if "i < length cs" for i
    using venue_dry [OF venue_nth [OF assms(1) that]] bounds_okD [OF assms(2) that] assms(3)
    by (auto simp: output_at_eq)
  then show ?thesis by (simp add: sum_list_zero_iff_nat)
qed

lemma price_nonneg: "cd_marginal_price c = Inr p \<Longrightarrow> 0 \<le> p"
proof -
  have curve: "curve_marginal_price pool = Inr r \<Longrightarrow> 0 \<le> r" for pool r
    by (cases pool) (auto simp: xyc_marginal_price_def pegged_marginal_price_def res ratio_mul_def
        split: if_splits)
  show "cd_marginal_price c = Inr p \<Longrightarrow> 0 \<le> p"
    using gamma_fold [of 1 "cd_fees_in_bps c"] curve
    by (auto simp: cd_marginal_price_def gamma_def res ratio_mul_def ratio_from_def)
qed

lemma fold_max_member: "fold max xs x \<in> insert x (set xs)" for x :: "'a :: linorder"
  by (induction xs arbitrary: x) (auto simp: max_def)

lemma iter_max_member: "iter_max xs = Some x \<Longrightarrow> x \<in> set xs"
  using fold_max_member by (cases xs) (auto simp: iter_max_def)

lemma price_upper_nonneg: "0 \<le> price_upper cs"
proof -
  let ?ps = "filter (\<lambda>p. \<not> ratio_is_zero p) (List.map_filter (\<lambda>c. to_option (cd_marginal_price c)) cs)"
  have pos: "0 \<le> p" if "p \<in> set ?ps" for p
    using that by (auto simp: map_filter_def price_nonneg)
  show ?thesis
  proof (cases "iter_max ?ps")
    case None
    show ?thesis unfolding price_upper_def None by (simp add: doubled_def ratio_from_def)
  next
    case (Some p)
    show ?thesis
      unfolding price_upper_def Some using pos [OF iter_max_member [OF Some]] by (simp add: doubled_def)
  qed
qed

lemma maker_cap_range:
  assumes "venues_ok cs" "i < length cs"
  shows "0 < maker_cap cs (maker_of cs i)" "maker_cap cs (maker_of cs i) \<le> u256_max"
  using venue_nth [OF assms] maker_cap_eq [OF assms] by (auto simp: venue_ok_def)

text \<open>At its floor a binding wallet is under budget, and the floor is positive.\<close>

lemma floor_fits:
  assumes "venues_ok cs" "bounds_ok cs bounds" "wallet_binds cs bounds m"
  shows "(\<Sum>i\<leftarrow>maker_indices cs m. output_at cs bounds (maker_floor cs bounds m) i) < maker_cap cs m"
    "0 < maker_floor cs bounds m"
proof -
  let ?out = "\<lambda>l. \<Sum>i\<leftarrow>maker_indices cs m. output_at cs bounds l i"
  have "maker_indices cs m \<noteq> []" using assms(3) by (auto simp: wallet_binds_def)
  then obtain i where "i \<in> set (maker_indices cs m)" by (metis list.set_intros(1) neq_Nil_conv)
  then have i: "i < length cs" "maker_of cs i = m" by auto
  note cap = maker_cap_range [OF assms(1) i(1), unfolded i(2)]
  let ?fill = "group_output_at_level cs bounds (maker_group_of cs m)"
  have top: "of_nat u256_max < (2 * of_nat u256_max :: rat)" by simp
  have "?fill (2 * of_nat u256_max) < maker_cap cs m"
    unfolding group_output_eq group_output_dry [OF assms(1,2) top] using cap by simp
  from bracket_hi [where fill = ?fill, OF this] have "?fill (maker_floor cs bounds m) < maker_cap cs m"
    by (simp add: maker_floor_def group_floor_level_def maker_group_of_def)
  then show lt: "?out (maker_floor cs bounds m) < maker_cap cs m"
    using cap(2) by (simp add: group_output_eq)
  have "0 \<le> maker_floor cs bounds m"
    by (simp add: maker_floor_def group_floor_level_def bracket_nonneg price_upper_nonneg)
  moreover have "maker_floor cs bounds m \<noteq> 0"
    using lt assms(3) by (auto simp: wallet_binds_def ratio_zero_def)
  ultimately show "0 < maker_floor cs bounds m" by simp
qed

text \<open>Filled at any level, raised to the floors, a maker with several legs stays within its wallet.\<close>

definition leg_level :: "candidate list \<Rightarrow> u256 list \<Rightarrow> ratio \<Rightarrow> nat \<Rightarrow> ratio" where
  "leg_level cs bounds level i = max (wallet_floors cs bounds (maker_groups_new cs) ! i) level"

lemma group_within_wallet:
  assumes "venues_ok cs" "bounds_ok cs bounds" "0 \<le> level" "2 \<le> length (maker_indices cs m)"
  shows "(\<Sum>i\<leftarrow>maker_indices cs m. output_at cs bounds (leg_level cs bounds level i) i) \<le> maker_cap cs m"
proof (cases "wallet_binds cs bounds m")
  case True
  note fits = floor_fits [OF assms(1,2) True]
  have "(\<Sum>i\<leftarrow>maker_indices cs m. output_at cs bounds (leg_level cs bounds level i) i) \<le>
      (\<Sum>i\<leftarrow>maker_indices cs m. output_at cs bounds (maker_floor cs bounds m) i)"
    by (rule sum_list_mono, rule output_at_antitone [OF assms(1,2)])
      (use fits(2) True in \<open>auto simp: leg_level_def wallet_floors_nth\<close>)
  then show ?thesis using fits(1) by linarith
next
  case False
  then have "(\<Sum>i\<leftarrow>maker_indices cs m. output_at cs bounds 0 i) \<le> maker_cap cs m"
    using assms(4) by (simp add: wallet_binds_def ratio_zero_def)
  moreover have "(\<Sum>i\<leftarrow>maker_indices cs m. output_at cs bounds (leg_level cs bounds level i) i) \<le>
      (\<Sum>i\<leftarrow>maker_indices cs m. output_at cs bounds 0 i)"
    by (rule sum_list_mono, rule output_at_antitone [OF assms(1,2)])
      (use assms(3) in \<open>auto simp: leg_level_def\<close>)
  ultimately show ?thesis by linarith
qed

section \<open>Topping up an exact-in split\<close>

lemma sum_indices_update:
  assumes "distinct is" "i < length v"
  shows "(\<Sum>j\<leftarrow>is. v[i := w] ! j) + (if i \<in> set is then v ! i else 0) =
    (\<Sum>j\<leftarrow>is. v ! j) + (if i \<in> set is then w else (0 :: nat))"
  using assms(1)
proof (induction "is")
  case (Cons k ks)
  then show ?case using assms(2) by (cases "k = i") (auto simp: nth_list_update split: if_splits)
qed simp

definition topup_inv :: "candidate list \<Rightarrow> u256 list \<Rightarrow> u256 \<Rightarrow> u256 list \<Rightarrow> u256 list \<Rightarrow> u256 \<Rightarrow> bool" where
  "topup_inv cs bounds target ins outs remainder \<longleftrightarrow>
     length ins = length cs \<and> length outs = length cs \<and> sum_list ins + remainder = target \<and>
     (\<forall>i < length cs. ins ! i \<le> bounds ! i \<and> cquoted (cs ! i) (ins ! i) (outs ! i)) \<and>
     (\<forall>m. wallet_binds cs bounds m \<longrightarrow> (\<Sum>i\<leftarrow>maker_indices cs m. outs ! i) \<le> maker_cap cs m)"

lemma topup_room_spec:
  assumes "venues_ok cs" "bounds_ok cs bounds" "topup_inv cs bounds target ins outs remainder"
    and "i < length cs"
    and b: "b = \<lparr>bk_candidates = cs, bk_bounds = bounds,
      bk_floors = wallet_floors cs bounds (maker_groups_new cs), bk_groups = maker_groups_new cs,
      bk_kind = k\<rparr>"
    and room: "topup_room b ins outs i = r" "0 < r"
  shows "r \<le> bounds ! i - ins ! i"
    "wallet_binds cs bounds (maker_of cs i) \<Longrightarrow> x \<le> ins ! i + r \<Longrightarrow> cquoted (cs ! i) x w \<Longrightarrow>
       (\<Sum>j\<leftarrow>maker_indices cs (maker_of cs i). outs ! j) + w \<le> outs ! i + maker_cap cs (maker_of cs i)"
proof -
  let ?m = "maker_of cs i" and ?c = "cs ! i"
  note v = venue_nth [OF assms(1,4)] and cap = maker_cap_eq [OF assms(1,4)]
  have top: "topup_room b ins outs i =
      (if \<not> wallet_binds cs bounds ?m \<or> maker_floor cs bounds ?m = 0 then bounds ! i - ins ! i
       else let out_room = maker_cap cs ?m - min u256_max (\<Sum>j\<leftarrow>maker_indices cs ?m. outs ! j)
            in if out_room = 0 then 0
               else case input_within_output ?c (sat_add (outs ! i) out_room) of
                 Some cap \<Rightarrow> min (cap - ins ! i) (bounds ! i - ins ! i) | None \<Rightarrow> 0)"
    using assms(4)
    by (simp add: topup_room_def b wallet_floors_nth output_for_leg_eq cap ratio_is_zero_def Let_def
        split: option.split)
  show "r \<le> bounds ! i - ins ! i"
    using room unfolding top by (auto simp: Let_def split: if_splits option.splits)
  assume bind: "wallet_binds cs bounds ?m" and x: "x \<le> ins ! i + r" and q: "cquoted ?c x w"
  define used where "used = (\<Sum>j\<leftarrow>maker_indices cs ?m. outs ! j)"
  have used: "used \<le> maker_cap cs ?m" using assms(3) bind by (simp add: topup_inv_def used_def)
  have mx: "maker_cap cs ?m \<le> u256_max" using maker_cap_range [OF assms(1,4)] by blast
  have oi: "outs ! i \<le> used"
    unfolding used_def using assms(4) by (intro sum_list_member_le) simp
  define out_room where "out_room = maker_cap cs ?m - used"
  have fl: "maker_floor cs bounds ?m \<noteq> 0" using floor_fits(2) [OF assms(1,2) bind] by simp
  have um: "min u256_max used = used" using used mx by simp
  have sa: "sat_add (outs ! i) out_room = outs ! i + out_room"
    using oi used mx by (intro sat_add_exact) (simp add: out_room_def)
  have "out_room \<noteq> 0" and "\<exists>cap. input_within_output ?c (outs ! i + out_room) = Some cap \<and> r \<le> cap - ins ! i"
    using room bind fl unfolding top
    by (auto simp: Let_def used_def [symmetric] um out_room_def [symmetric] sa split: if_splits option.splits)
  then obtain cap' where c': "input_within_output ?c (outs ! i + out_room) = Some cap'" "r \<le> cap' - ins ! i"
    by blast
  have "outs ! i + out_room \<le> u256_max" using oi used mx by (simp add: out_room_def)
  moreover have "x \<le> cap'" using x c'(2) room(2) by linarith
  ultimately have "w \<le> outs ! i + out_room" using input_within_Some(3) [OF v c'(1) _ _ q] by blast
  then show "used + w \<le> outs ! i + maker_cap cs ?m" using used by (simp add: out_room_def)
qed

lemma topup_step:
  assumes "venues_ok cs" "bounds_ok cs bounds" "topup_inv cs bounds target ins outs remainder"
    and "target \<le> u256_max" "i < length cs"
    and b: "b = \<lparr>bk_candidates = cs, bk_bounds = bounds,
      bk_floors = wallet_floors cs bounds (maker_groups_new cs), bk_groups = maker_groups_new cs,
      bk_kind = k\<rparr>"
    and add: "add = min remainder (topup_room b ins outs i)" "0 < add"
  defines "x \<equiv> sat_add (ins ! i) add"
  defines "w \<equiv> unwrap_or (outs ! i) (to_option (net_quote_exact_in (cs ! i) x))"
  shows "topup_inv cs bounds target (ins[i := x]) (outs[i := w]) (remainder - add)"
proof -
  define r where "r = topup_room b ins outs i"
  note inv = assms(3) [unfolded topup_inv_def] and v = venue_nth [OF assms(1,5)]
  have r: "0 < r" "add \<le> r" using add by (auto simp: r_def)
  note room = topup_room_spec [OF assms(1,2,3,5) b r_def [symmetric] r(1)]
  have il: "i < length ins" "i < length outs" using inv assms(5) by auto
  have sum: "ins ! i \<le> sum_list ins" using il by (simp add: elem_le_sum_list)
  have x: "x = ins ! i + add"
    unfolding x_def using inv sum add(1) assms(4) by (intro sat_add_exact) linarith
  have xb: "x \<le> bounds ! i" using room(1) r inv assms(5) unfolding x by (simp add: le_diff_conv2)
  have bi: "bounds ! i \<le> u256_max" using bounds_okD [OF assms(2,5)] by blast
  obtain w' where w': "cquoted (cs ! i) x w'"
    using bounds_okD [OF assms(2,5)] venue_below [OF v _ xb bi] by blast
  then have "net_quote_exact_in (cs ! i) x = Inr w'" using add(2) x by (simp add: quoted_def)
  then have q: "cquoted (cs ! i) x w" by (simp add: w_def quoted_def)
  have "sum_list (ins[i := x]) + (remainder - add) = target"
    using inv il add(1) by (simp add: sum_list_update_nat x)
  moreover have "ins[i := x] ! j \<le> bounds ! j \<and> cquoted (cs ! j) (ins[i := x] ! j) (outs[i := w] ! j)"
    if "j < length cs" for j
    using inv that il xb q by (cases "j = i") auto
  moreover have "(\<Sum>j\<leftarrow>maker_indices cs m. outs[i := w] ! j) \<le> maker_cap cs m"
    if bind: "wallet_binds cs bounds m" for m
  proof (cases "maker_of cs i = m")
    case True
    have "x \<le> ins ! i + r" using r(2) by (simp add: x)
    from room(2) [OF _ this q] bind True
    have "(\<Sum>j\<leftarrow>maker_indices cs m. outs ! j) + w \<le> outs ! i + maker_cap cs m" by simp
    moreover have "(\<Sum>j\<leftarrow>maker_indices cs m. outs[i := w] ! j) + outs ! i = (\<Sum>j\<leftarrow>maker_indices cs m. outs ! j) + w"
      using sum_indices_update [OF distinct_maker_indices [of cs m] il(2), of w] True assms(5) by simp
    ultimately show ?thesis by linarith
  next
    case False
    then show ?thesis
      using sum_indices_update [OF distinct_maker_indices [of cs m] il(2), of w] inv bind by simp
  qed
  ultimately show ?thesis using inv by (simp add: topup_inv_def)
qed

lemma topup_loop_inv:
  assumes "venues_ok cs" "bounds_ok cs bounds" "target \<le> u256_max"
    and b: "b = \<lparr>bk_candidates = cs, bk_bounds = bounds,
      bk_floors = wallet_floors cs bounds (maker_groups_new cs), bk_groups = maker_groups_new cs,
      bk_kind = k\<rparr>"
  shows "topup_inv cs bounds target ins outs remainder \<Longrightarrow>
    \<exists>outs' r. topup_inv cs bounds target (topup_loop b ins outs remainder) outs' r"
proof (induction remainder arbitrary: ins outs rule: less_induct)
  case (less remainder)
  define rooms where "rooms = map (topup_room b ins outs) [0..<length cs]"
  define pick where "pick = max_by_key (topup_gain b ins rooms remainder) (filter (\<lambda>i. rooms ! i \<noteq> 0) [0..<length cs])"
  have cs: "bk_candidates b = cs" by (simp add: b)
  have run: "topup_loop b ins outs remainder =
      (if remainder = 0 then ins
       else case pick of None \<Rightarrow> ins | Some i \<Rightarrow>
         (let add = min remainder (rooms ! i); ins' = ins[i := sat_add (ins ! i) add] in
          if add = 0 then ins
          else topup_loop b ins' (outs[i := unwrap_or (outs ! i)
                 (to_option (net_quote_exact_in (cs ! i) (ins' ! i)))]) (remainder - add)))"
    by (subst topup_loop.simps) (simp only: cs Let_def rooms_def pick_def)
  show ?case
  proof (cases "remainder = 0 \<or> pick = None")
    case True
    then have "topup_loop b ins outs remainder = ins" by (auto simp: run)
    then show ?thesis using less.prems by auto
  next
    case False
    then obtain i where i: "pick = Some i" by auto
    then have il: "i < length cs" and nz: "rooms ! i \<noteq> 0"
      using max_by_key_member [OF i [unfolded pick_def]] by auto
    define add where "add = min remainder (rooms ! i)"
    have ri: "rooms ! i = topup_room b ins outs i" using il by (simp add: rooms_def)
    have pos: "0 < add" using False nz by (simp add: add_def)
    let ?x = "sat_add (ins ! i) add"
    let ?w = "unwrap_or (outs ! i) (to_option (net_quote_exact_in (cs ! i) ?x))"
    have len: "length ins = length cs" using less.prems by (simp add: topup_inv_def)
    have "topup_loop b ins outs remainder =
        topup_loop b (ins[i := ?x]) (outs[i := ?w]) (remainder - add)"
      using False pos il len unfolding run i option.case Let_def add_def [symmetric] by simp
    moreover have "topup_inv cs bounds target (ins[i := ?x]) (outs[i := ?w]) (remainder - add)"
      by (rule topup_step [OF assms(1,2) less.prems assms(3) il b _ pos]) (simp add: add_def ri)
    moreover have "remainder - add < remainder" using False pos by simp
    ultimately show ?thesis using less.IH by simp
  qed
qed

section \<open>Allocations\<close>

text \<open>Per-leg outputs within every cap and every wallet.\<close>

definition alloc_ok :: "candidate list \<Rightarrow> u256 list \<Rightarrow> bool" where
  "alloc_ok cs outs \<longleftrightarrow>
     length outs = length cs \<and> (\<forall>i < length cs. outs ! i \<le> cd_cap_out (cs ! i)) \<and>
     (\<forall>i < length cs. (\<Sum>j\<leftarrow>maker_indices cs (maker_of cs i). outs ! j) \<le> cd_wallet_cap (cs ! i))"

lemma singleton_list: "x \<in> set xs \<Longrightarrow> \<not> 2 \<le> length xs \<Longrightarrow> xs = [x]"
  by (cases xs; cases "tl xs") auto

lemma alloc_okI:
  assumes "venues_ok cs" "length outs = length cs"
    and caps: "\<And>i. i < length cs \<Longrightarrow> outs ! i \<le> cd_cap_out (cs ! i)"
    and shared: "\<And>m. 2 \<le> length (maker_indices cs m) \<Longrightarrow>
      (\<Sum>j\<leftarrow>maker_indices cs m. outs ! j) \<le> maker_cap cs m"
  shows "alloc_ok cs outs"
proof -
  have "(\<Sum>j\<leftarrow>maker_indices cs (maker_of cs i). outs ! j) \<le> cd_wallet_cap (cs ! i)" if i: "i < length cs" for i
  proof (cases "2 \<le> length (maker_indices cs (maker_of cs i))")
    case True
    then show ?thesis using shared [of "maker_of cs i"] maker_cap_eq [OF assms(1) i] by simp
  next
    case False
    have "i \<in> set (maker_indices cs (maker_of cs i))" using i by simp
    then have "maker_indices cs (maker_of cs i) = [i]"
      using False by (rule singleton_list)
    then show ?thesis using caps [OF i] venue_nth [OF assms(1) i] by (simp add: venue_ok_def)
  qed
  then show ?thesis using assms(2) caps by (simp add: alloc_ok_def)
qed

lemma book_fill_eq:
  assumes "i < length cs"
  shows "book_leg (book_new cs target k) i level =
    net_fill (cs ! i) (input_bounds cs target k ! i) (leg_level cs (input_bounds cs target k) level i)"
  by (simp add: book_leg_def book_new_def Let_def leg_level_def)

lemma measured_eq:
  "measured (book_new cs target k) level =
   min u256_max (\<Sum>i\<leftarrow>[0..<length cs]. toward_target k (book_leg (book_new cs target k) i level))"
  by (simp add: measured_def book_new_def Let_def sat_fold)

lemma leg_level_ge: "level \<le> leg_level cs bounds level i"
  by (simp add: leg_level_def)

lemma bounds_ok_in:
  "venues_ok cs \<Longrightarrow> target \<le> u256_max \<Longrightarrow> bounds_ok cs (input_bounds cs target ExactIn)"
  using bound_exact_in(1,2) [OF venue_nth]
  by (auto simp: bounds_ok_def input_bounds_def intro: order_trans)

lemma bounds_ok_out:
  "venues_ok cs \<Longrightarrow> target \<le> u256_max \<Longrightarrow> \<forall>c \<in> set cs. prices_back target c \<Longrightarrow>
   bounds_ok cs (input_bounds cs target ExactOut)"
  using bound_exact_out(1,2) [OF venue_nth] by (auto simp: bounds_ok_def input_bounds_def)

subsection \<open>Exact-in\<close>

lemma start_inv:
  assumes "venues_ok cs" "target \<le> u256_max" "0 \<le> level"
    and "measured (book_new cs target ExactIn) level < target"
  defines "fills \<equiv> book_fills (book_new cs target ExactIn) level"
  shows "topup_inv cs (input_bounds cs target ExactIn) target (map lq_amount_in fills)
    (map lq_amount_out fills) (sat_sub target (sat_sum (map lq_amount_in fills)))"
proof -
  let ?b = "input_bounds cs target ExactIn"
  note bok = bounds_ok_in [OF assms(1,2)]
  have len: "length fills = length cs" by (simp add: fills_def book_fills_def book_new_def Let_def)
  have nth: "fills ! i = net_fill (cs ! i) (?b ! i) (leg_level cs ?b level i)" if "i < length cs" for i
    using that by (simp add: fills_def book_fills_def book_fill_eq) (simp add: book_new_def Let_def book_fill_eq [unfolded book_new_def Let_def])
  have "(\<Sum>i\<leftarrow>[0..<length cs]. lq_amount_in (fills ! i)) = sum_list (map lq_amount_in fills)"
    using sum_over_indices [of lq_amount_in fills] by (simp add: len)
  moreover have "fills ! i = book_leg (book_new cs target ExactIn) i level" if "i < length cs" for i
    using that nth book_fill_eq by simp
  ultimately have "measured (book_new cs target ExactIn) level = min u256_max (sum_list (map lq_amount_in fills))"
    unfolding measured_eq by (metis (mono_tags, lifting) atLeastLessThan_iff map_cong set_upt toward_target.simps(1))
  then have "sum_list (map lq_amount_in fills) < target" using assms(2,4) by simp
  then have "sum_list (map lq_amount_in fills) + sat_sub target (sat_sum (map lq_amount_in fills)) = target"
    using assms(2) by (simp add: sat_sum_eq)
  moreover have "lq_amount_in (fills ! i) \<le> ?b ! i \<and> cquoted (cs ! i) (lq_amount_in (fills ! i)) (lq_amount_out (fills ! i))"
    if i: "i < length cs" for i
    using venue_point [OF venue_nth [OF assms(1) i]] bounds_okD [OF bok i] assms(3)
      leg_level_ge [of level cs ?b i] by (auto simp: nth [OF i])
  moreover have "(\<Sum>i\<leftarrow>maker_indices cs m. map lq_amount_out fills ! i) \<le> maker_cap cs m"
    if bind: "wallet_binds cs ?b m" for m
  proof -
    have "(\<Sum>i\<leftarrow>maker_indices cs m. map lq_amount_out fills ! i) =
        (\<Sum>i\<leftarrow>maker_indices cs m. output_at cs ?b (leg_level cs ?b level i) i)"
      by (intro arg_cong [of _ _ sum_list] map_cong) (auto simp: nth len output_at_eq)
    then show ?thesis
      using group_within_wallet [OF assms(1) bok assms(3)] bind by (simp add: wallet_binds_def)
  qed
  ultimately show ?thesis by (simp add: topup_inv_def len)
qed

lemma topup_inv_alloc:
  assumes "venues_ok cs" "target \<le> u256_max"
    and "topup_inv cs (input_bounds cs target ExactIn) target ins outs r"
  shows "alloc_ok cs outs"
proof (rule alloc_okI [OF assms(1)])
  let ?b = "input_bounds cs target ExactIn"
  note inv = assms(3) [unfolded topup_inv_def] and bok = bounds_ok_in [OF assms(1,2)]
  show "length outs = length cs" using inv by blast
  show "outs ! i \<le> cd_cap_out (cs ! i)" if i: "i < length cs" for i
    using bound_exact_in(3) [OF venue_nth [OF assms(1) i] assms(2)] inv i by (auto simp: input_bounds_def)
  show "(\<Sum>j\<leftarrow>maker_indices cs m. outs ! j) \<le> maker_cap cs m"
    if many: "2 \<le> length (maker_indices cs m)" for m
  proof (cases "wallet_binds cs ?b m")
    case True
    then show ?thesis using inv by blast
  next
    case False
    have "outs ! j \<le> output_at cs ?b 0 j" if j: "j < length cs" for j
    proof -
      obtain out where out: "cquoted (cs ! j) (?b ! j) out" and mx: "?b ! j \<le> u256_max"
        using bounds_okD [OF bok j] by blast
      have "outs ! j \<le> out" using venue_mono [OF venue_nth [OF assms(1) j] _ out _ mx] inv j by blast
      then show ?thesis using venue_full [OF venue_nth [OF assms(1) j] out mx] by (simp add: output_at_eq)
    qed
    then have "(\<Sum>j\<leftarrow>maker_indices cs m. outs ! j) \<le> (\<Sum>j\<leftarrow>maker_indices cs m. output_at cs ?b 0 j)"
      by (intro sum_list_mono) simp
    also have "\<dots> \<le> maker_cap cs m" using False many by (simp add: wallet_binds_def ratio_zero_def)
    finally show ?thesis .
  qed
qed

lemma measured_dry:
  assumes "venues_ok cs" "bounds_ok cs (input_bounds cs target k)" "of_nat u256_max < l"
  shows "measured (book_new cs target k) l = 0"
proof -
  have "toward_target k (book_leg (book_new cs target k) i l) = 0" if i: "i < length cs" for i
  proof -
    have "of_nat u256_max < leg_level cs (input_bounds cs target k) l i"
      using assms(3) leg_level_ge less_le_trans by blast
    then show ?thesis
      using venue_dry [OF venue_nth [OF assms(1) i]] bounds_okD [OF assms(2) i]
      by (cases k) (auto simp: book_fill_eq [OF i])
  qed
  then have "(\<Sum>i\<leftarrow>[0..<length cs]. toward_target k (book_leg (book_new cs target k) i l)) = 0"
    by (auto simp: sum_list_zero_iff_nat)
  then show ?thesis unfolding measured_eq by (simp only: min_0R)
qed

lemma solve_exact_in_core:
  assumes "venues_ok cs" "rq_amount request \<le> u256_max" "0 \<le> unwrap_or 0 warm"
    and "rq_exact_in request" "solve cs request warm = Some s"
  obtains ins outs lvl where "build cs ins ExactIn lvl = Some s" "length ins = length cs"
    "sum_list ins \<le> rq_amount request" "alloc_ok cs outs"
    "\<And>i. i < length cs \<Longrightarrow> cquoted (cs ! i) (ins ! i) (outs ! i)"
proof -
  let ?t = "rq_amount request" and ?b = "book_new cs (rq_amount request) ExactIn"
  define lvl where "lvl = lb_hi (bracket_level (measured ?b) ?t warm (price_upper cs))"
  have t: "0 < ?t" and run: "assemble_exact_in ?b lvl ?t = Some s"
    using assms(4,5) by (auto simp: solve_def kind_from_request_def lvl_def Let_def split: if_splits)
  note bok = bounds_ok_in [OF assms(1,2)]
  have "measured ?b (2 * of_nat u256_max) < ?t"
    using measured_dry [OF assms(1) bok, of "2 * of_nat u256_max"] t by simp
  then have "measured ?b lvl < ?t" unfolding lvl_def by (rule bracket_hi)
  moreover have "0 \<le> lvl"
    unfolding lvl_def by (rule bracket_nonneg(2) [OF price_upper_nonneg assms(3)])
  ultimately have "topup_inv cs (input_bounds cs ?t ExactIn) ?t (map lq_amount_in (book_fills ?b lvl))
      (map lq_amount_out (book_fills ?b lvl)) (sat_sub ?t (sat_sum (map lq_amount_in (book_fills ?b lvl))))"
    by (intro start_inv [OF assms(1,2)])
  from topup_loop_inv [OF assms(1) bok assms(2) _ this, of ?b ExactIn]
  obtain outs r where inv: "topup_inv cs (input_bounds cs ?t ExactIn) ?t
      (topup_loop ?b (map lq_amount_in (book_fills ?b lvl)) (map lq_amount_out (book_fills ?b lvl))
         (sat_sub ?t (sat_sum (map lq_amount_in (book_fills ?b lvl))))) outs r"
    (is "topup_inv _ _ _ ?ins _ _")
    by (auto simp: book_new_def Let_def)
  have "build cs ?ins ExactIn lvl = Some s"
    using run by (simp add: assemble_exact_in_def Let_def) (simp add: book_new_def Let_def)
  then show thesis
    using that [of ?ins lvl outs] inv topup_inv_alloc [OF assms(1,2) inv] by (auto simp: topup_inv_def)
qed

subsection \<open>Exact-out\<close>

lemma solve_exact_out_core:
  assumes "rq_amount request \<le> u256_max" "0 \<le> unwrap_or 0 warm" "\<not> rq_exact_in request"
    and "solve cs request warm = Some s"
  defines "b \<equiv> input_bounds cs (rq_amount request) ExactOut"
  obtains outs lvl where "build cs outs ExactOut lvl = Some s" "length outs = length cs" "0 \<le> lvl"
    "sum_list outs = rq_amount request"
    "\<And>i. i < length cs \<Longrightarrow> outs ! i \<le> output_at cs b (leg_level cs b lvl i) i"
proof -
  let ?t = "rq_amount request" and ?b = "book_new cs (rq_amount request) ExactOut"
  define lvl where "lvl = lb_lo (bracket_level (measured ?b) ?t warm (price_upper cs))"
  have meets: "?t \<le> measured ?b 0" and run: "assemble_exact_out ?b lvl ?t = Some s"
    using assms(3,4)
    by (auto simp: solve_def kind_from_request_def lvl_def Let_def not_less ratio_zero_def split: if_splits)
  have lvl: "0 \<le> lvl" "?t \<le> measured ?b lvl"
    using bracket_nonneg(1) [OF price_upper_nonneg assms(2)] bracket_lo [where fill = "measured ?b", OF meets] by (simp_all add: lvl_def)
  have n: "bk_candidates ?b = cs" by (simp add: book_new_def Let_def)
  let ?o = "map lq_amount_out (book_fills ?b lvl)"
  let ?outs = "trim_to_total cs ?o ?t [0..<length cs]"
  have len: "length ?o = length cs" by (simp add: book_fills_def n)
  have nth: "?o ! i = output_at cs b (leg_level cs b lvl i) i" if "i < length cs" for i
    using that by (simp add: book_fills_def n book_fill_eq output_at_eq b_def)
  have sum: "(\<Sum>i\<leftarrow>[0..<length cs]. toward_target ExactOut (book_leg ?b i lvl)) = (\<Sum>i\<leftarrow>[0..<length cs]. ?o ! i)"
    by (intro arg_cong [of _ _ sum_list] map_cong) (auto simp: book_fills_def n)
  have "?t \<le> (\<Sum>i\<leftarrow>[0..<length cs]. ?o ! i)" using lvl(2) unfolding measured_eq sum by simp
  moreover note trim = trim_to_total_spec [of "[0..<length cs]" ?o, where cs = cs and target = ?t]
  ultimately have "(\<Sum>i\<leftarrow>[0..<length cs]. ?outs ! i) = ?t" using len by simp
  moreover have "length ?outs = length cs" using trim(1) len by simp
  ultimately have "sum_list ?outs = ?t" using sum_over_indices [of "\<lambda>x. x" ?outs] by simp
  moreover have "?outs ! i \<le> output_at cs b (leg_level cs b lvl i) i" if "i < length cs" for i
    using trim(2) [of i] that len nth [OF that] by simp
  moreover have "build cs ?outs ExactOut lvl = Some s" using run by (simp add: assemble_exact_out_def Let_def n)
  ultimately show thesis using that [of ?outs lvl] lvl(1) \<open>length ?outs = length cs\<close> by blast
qed

lemma exact_out_alloc:
  assumes "venues_ok cs" "target \<le> u256_max" "\<forall>c \<in> set cs. prices_back target c"
  defines "b \<equiv> input_bounds cs target ExactOut"
  assumes "length outs = length cs" "0 \<le> lvl" "sum_list outs = target"
    and le: "\<And>i. i < length cs \<Longrightarrow> outs ! i \<le> output_at cs b (leg_level cs b lvl i) i"
  shows "alloc_ok cs outs"
proof (rule alloc_okI [OF assms(1,5)])
  note bok = bounds_ok_out [OF assms(1-3), folded b_def]
  show "outs ! i \<le> cd_cap_out (cs ! i)" if i: "i < length cs" for i
  proof (cases "target < cd_cap_out (cs ! i)")
    case True
    have "outs ! i \<le> target" using elem_le_sum_list [of i outs] i assms(5,7) by simp
    then show ?thesis using True by simp
  next
    case False
    obtain out where out: "cquoted (cs ! i) (b ! i) out" and mx: "b ! i \<le> u256_max"
      using bounds_okD [OF bok i] by blast
    have l: "0 \<le> leg_level cs b lvl i" using assms(6) leg_level_ge order_trans by blast
    have "lq_amount_in (net_fill (cs ! i) (b ! i) (leg_level cs b lvl i)) \<le> b ! i"
      "cquoted (cs ! i) (lq_amount_in (net_fill (cs ! i) (b ! i) (leg_level cs b lvl i)))
         (output_at cs b (leg_level cs b lvl i) i)"
      using venue_point [OF venue_nth [OF assms(1) i] out mx l] by (simp_all add: output_at_eq)
    then have "output_at cs b (leg_level cs b lvl i) i \<le> cd_cap_out (cs ! i)"
      using bound_exact_out(3) [OF venue_nth [OF assms(1) i] assms(2)] assms(3) False i
      by (simp add: b_def input_bounds_def)
    then show ?thesis using le [OF i] by simp
  qed
  show "(\<Sum>j\<leftarrow>maker_indices cs m. outs ! j) \<le> maker_cap cs m"
    if "2 \<le> length (maker_indices cs m)" for m
  proof -
    have "(\<Sum>j\<leftarrow>maker_indices cs m. outs ! j) \<le>
        (\<Sum>j\<leftarrow>maker_indices cs m. output_at cs b (leg_level cs b lvl j) j)"
      by (intro sum_list_mono le) simp
    then show ?thesis using group_within_wallet [OF assms(1) bok assms(6) that] by simp
  qed
qed

end
