(* ===== verification/Routing_Properties.thy ===== *)
theory Routing_Properties
  imports Routing_Laws Registry_Laws Ledger_Invariant
begin

text \<open>
  The router end to end: what a split promises the taker and the makers, what the sparsity pass
  keeps of it, and that a plan routed on the ledger's own available snapshot can be reserved.
\<close>

section \<open>Legs\<close>

definition leg_of :: "candidate \<Rightarrow> route_leg \<Rightarrow> bool" where
  "leg_of c l \<longleftrightarrow>
     rl_maker l = sk_maker (cd_key c) \<and> rl_hash l = sk_hash (cd_key c) \<and>
     rl_token_in l = cd_token_in c \<and> rl_token_out l = cd_token_out c"

definition leg_total :: "(route_leg \<Rightarrow> bool) \<Rightarrow> route_leg list \<Rightarrow> nat" where
  "leg_total P legs = (\<Sum>l\<leftarrow>filter P legs. rl_amount_out l)"

lemma made_leg_ExactIn:
  "made_leg ExactIn (c, a) = Some l \<longleftrightarrow>
   leg_of c l \<and> rl_amount_in l = a \<and> net_quote_exact_in c a = Inr (rl_amount_out l) \<and>
   0 < a \<and> 0 < rl_amount_out l"
  by (cases "net_quote_exact_in c a") (auto simp: made_leg_def leg_amounts_def leg_of_def)

lemma made_leg_ExactOut:
  "made_leg ExactOut (c, a) = Some l \<longleftrightarrow>
   leg_of c l \<and> rl_amount_out l = a \<and> net_quote_exact_out c a = Inr (rl_amount_in l) \<and>
   0 < a \<and> 0 < rl_amount_in l"
  by (cases "net_quote_exact_out c a") (auto simp: made_leg_def leg_amounts_def leg_of_def)

lemma zip_by_index: "length ys = length xs \<Longrightarrow> zip xs ys = map (\<lambda>i. (xs ! i, ys ! i)) [0..<length xs]"
  by (rule nth_equalityI) auto

lemma map_filter_sum_le:
  assumes "\<And>x l. x \<in> set xs \<Longrightarrow> f x = Some l \<Longrightarrow> P l \<Longrightarrow> Q x \<and> g l \<le> (h x :: nat)"
  shows "(\<Sum>l\<leftarrow>filter P (List.map_filter f xs). g l) \<le> (\<Sum>x\<leftarrow>filter Q xs. h x)"
  using assms
proof (induction xs)
  case (Cons x xs)
  have IH: "(\<Sum>l\<leftarrow>filter P (List.map_filter f xs). g l) \<le> (\<Sum>x\<leftarrow>filter Q xs. h x)"
    by (rule Cons.IH) (rule Cons.prems, auto)
  show ?case
  proof (cases "f x")
    case None
    then show ?thesis using IH by (simp add: map_filter_simps)
  next
    case (Some l)
    then show ?thesis using IH Cons.prems [of x l] by (auto simp: map_filter_simps)
  qed
qed (simp add: map_filter_simps)

lemma legs_by_index:
  assumes "build cs amounts kind lambda = Some s" "length amounts = length cs"
  shows "sp_legs s = List.map_filter (\<lambda>i. made_leg kind (cs ! i, amounts ! i)) [0..<length cs]"
  using build_spec(1) [OF assms(1)] by (simp add: zip_by_index [OF assms(2)] map_filter_def filter_map comp_def)

lemma leg_at_index:
  assumes "build cs amounts kind lambda = Some s" "length amounts = length cs" "l \<in> set (sp_legs s)"
  obtains i where "i < length cs" "made_leg kind (cs ! i, amounts ! i) = Some l"
  using assms(3) unfolding legs_by_index [OF assms(1,2)] by (auto simp: map_filter_def)

text \<open>The legs of an allocation within caps and wallets.\<close>

definition legs_ok :: "candidate list \<Rightarrow> route_leg list \<Rightarrow> bool" where
  "legs_ok cs legs \<longleftrightarrow>
     (\<forall>l \<in> set legs. \<exists>c \<in> set cs. leg_of c l \<and> 0 < rl_amount_in l \<and> 0 < rl_amount_out l \<and>
        rl_amount_out l \<le> cd_cap_out c) \<and>
     (\<forall>c \<in> set cs. leg_total (\<lambda>l. rl_maker l = sk_maker (cd_key c)) legs \<le> cd_wallet_cap c)"

lemma alloc_legs:
  assumes "build cs amounts kind lambda = Some s" "length amounts = length cs" "alloc_ok cs outs"
    and leg: "\<And>i l. i < length cs \<Longrightarrow> made_leg kind (cs ! i, amounts ! i) = Some l \<Longrightarrow>
      leg_of (cs ! i) l \<and> 0 < rl_amount_in l \<and> 0 < rl_amount_out l \<and> rl_amount_out l \<le> outs ! i"
  shows "legs_ok cs (sp_legs s)"
proof -
  have "\<exists>c \<in> set cs. leg_of c l \<and> 0 < rl_amount_in l \<and> 0 < rl_amount_out l \<and> rl_amount_out l \<le> cd_cap_out c"
    if l: "l \<in> set (sp_legs s)" for l
  proof -
    obtain i where i: "i < length cs" "made_leg kind (cs ! i, amounts ! i) = Some l"
      using leg_at_index [OF assms(1,2) l] .
    have "outs ! i \<le> cd_cap_out (cs ! i)" using assms(3) i(1) by (simp add: alloc_ok_def)
    then show ?thesis using leg [OF i] i(1) by (intro bexI [of _ "cs ! i"]) auto
  qed
  moreover have "leg_total (\<lambda>l. rl_maker l = sk_maker (cd_key c)) (sp_legs s) \<le> cd_wallet_cap c"
    if c: "c \<in> set cs" for c
  proof -
    obtain i where i: "i < length cs" "cs ! i = c" using c by (auto simp: in_set_conv_nth)
    have "leg_total (\<lambda>l. rl_maker l = sk_maker (cd_key c)) (sp_legs s) \<le>
        (\<Sum>j\<leftarrow>filter (\<lambda>j. maker_of cs j = maker_of cs i) [0..<length cs]. outs ! j)"
      unfolding leg_total_def legs_by_index [OF assms(1,2)]
      by (rule map_filter_sum_le) (use leg i in \<open>auto simp: leg_of_def maker_of_def\<close>)
    also have "\<dots> \<le> cd_wallet_cap c"
      using assms(3) i by (auto simp: alloc_ok_def maker_indices_def)
    finally show ?thesis .
  qed
  ultimately show ?thesis by (simp add: legs_ok_def)
qed

lemma solve_legs_ok:
  assumes "venues_ok cs" "rq_amount request \<le> u256_max" "0 \<le> unwrap_or 0 warm"
    and "rq_exact_in request \<or> (\<forall>c \<in> set cs. prices_back (rq_amount request) c)"
    and "solve cs request warm = Some s"
  shows "legs_ok cs (sp_legs s)"
proof (cases "rq_exact_in request")
  case True
  obtain ins outs lvl where b: "build cs ins ExactIn lvl = Some s" "length ins = length cs"
    and a: "alloc_ok cs outs" and q: "\<And>i. i < length cs \<Longrightarrow> cquoted (cs ! i) (ins ! i) (outs ! i)"
    using solve_exact_in_core [OF assms(1-3) True assms(5)] by metis
  show ?thesis
  proof (rule alloc_legs [OF b a])
    fix i l assume i: "i < length cs" and l: "made_leg ExactIn (cs ! i, ins ! i) = Some l"
    then have "cquoted (cs ! i) (ins ! i) (rl_amount_out l)" by (simp add: made_leg_ExactIn quoted_def)
    then have "rl_amount_out l = outs ! i"
      using venue_unique [OF venue_nth [OF assms(1) i]] q [OF i] by blast
    then show "leg_of (cs ! i) l \<and> 0 < rl_amount_in l \<and> 0 < rl_amount_out l \<and> rl_amount_out l \<le> outs ! i"
      using l by (simp add: made_leg_ExactIn)
  qed
next
  case False
  obtain outs lvl where b: "build cs outs ExactOut lvl = Some s" "length outs = length cs"
    and a: "0 \<le> lvl" "sum_list outs = rq_amount request"
      "\<And>i. i < length cs \<Longrightarrow> outs ! i \<le> output_at cs (input_bounds cs (rq_amount request) ExactOut)
         (leg_level cs (input_bounds cs (rq_amount request) ExactOut) lvl i) i"
    using solve_exact_out_core [OF assms(2,3) False assms(5)] by metis
  have "\<forall>c \<in> set cs. prices_back (rq_amount request) c" using assms(4) False by blast
  from exact_out_alloc [OF assms(1,2) this b(2) a] show ?thesis
    by (intro alloc_legs [OF b]) (auto simp: made_leg_ExactOut)
qed

section \<open>The two directions\<close>

definition ex_candidate :: candidate where
  "ex_candidate = \<lparr>cd_key = StrategyKey 1 2 3, cd_token_in = 10, cd_token_out = 11, cd_cap_out = 500,
     cd_wallet_cap = 800, cd_pool = PoolXyc (xyc_from_reserves 1000 2000), cd_fees_in_bps = []\<rparr>"

definition ex_request :: "bool \<Rightarrow> route_request" where
  "ex_request exact_in = \<lparr>rq_intent = 7, rq_token_in = 10, rq_token_out = 11, rq_amount = 1,
     rq_exact_in = exact_in\<rparr>"

definition ex_split :: "ratio \<Rightarrow> split" where
  "ex_split lambda = \<lparr>sp_legs = [\<lparr>rl_maker = 1, rl_hash = 3, rl_token_in = 10, rl_token_out = 11,
     rl_amount_in = 1, rl_amount_out = 1\<rparr>], sp_amount_in = 1, sp_amount_out = 1, sp_lambda = lambda\<rparr>"

lemma ex_quotes:
  "net_quote_exact_in ex_candidate 0 = Inr 0" "net_quote_exact_in ex_candidate (Suc 0) = Inr 1"
  "net_quote_exact_out ex_candidate (Suc 0) = Inr 1" "net_quote_exact_out ex_candidate 500 = Inr 334"
  "net_quote_exact_in ex_candidate 334 = Inr 500"
  by (simp_all add: net_quote_exact_in_def net_quote_exact_out_def ex_candidate_def shrink_by_fees_def
      gross_up_by_fees_def xyc_from_reserves_def xyc_quote_exact_in_def xyc_quote_exact_out_def
      xyc_is_empty_def curve_ops u256 u256_max_def)

lemma ex_limited:
  "net_quote_with_limit ex_candidate (Suc 0) 0 = Inr \<lparr>lq_amount_in = 1, lq_amount_out = 1, lq_limited = False\<rparr>"
  "2 \<le> l \<Longrightarrow> net_quote_with_limit ex_candidate (Suc 0) l = Inr \<lparr>lq_amount_in = 0, lq_amount_out = 0, lq_limited = True\<rparr>"
  by (simp_all add: net_quote_with_limit_def gamma_def ex_candidate_def shrink_by_fees_def ratio_defs
      gross_up_by_fees_def xyc_from_reserves_def xyc_quote_with_limit_def xyc_quote_exact_in_def
      xyc_marginal_price_def ratio_new_def ratio_invert_def limited_none_def
      xyc_is_empty_def curve_ops u256 u256_max_def)

lemma ex_price: "price_upper [ex_candidate] = 4"
  by (simp add: price_upper_def List.map_filter_def cd_marginal_price_def gamma_def ex_candidate_def
      xyc_marginal_price_def xyc_from_reserves_def xyc_is_empty_def ratio_new_def ratio_defs iter_max_def
      doubled_def)

lemma ex_venue: "venues_ok [ex_candidate]"
  by (simp add: venues_ok_def venue_ok_def closed_curve_def ex_candidate_def u256_max_def)

lemma ex_groups: "maker_groups_new [ex_candidate] =
    \<lparr>mgs_groups = [\<lparr>mg_indices = [0], mg_wallet_cap = 800\<rparr>], mgs_group_by_leg = [0]\<rparr>"
  by (simp add: maker_groups_new_def join_group_def ex_candidate_def Let_def bm_values_def)

lemma ex_book:
  "book_new [ex_candidate] (Suc 0) k = \<lparr>bk_candidates = [ex_candidate], bk_bounds = [1], bk_floors = [0],
     bk_groups = maker_groups_new [ex_candidate], bk_kind = k\<rparr>"
  by (cases k) (simp_all add: book_new_def Let_def input_bounds_def input_bound_def input_within_output_def
      ex_candidate_def [THEN arg_cong [of _ _ cd_cap_out]] ex_quotes wallet_floors_def ex_groups floor_group_def ratio_zero_def)

lemma ex_measured: "measured (book_new [ex_candidate] (Suc 0) k) 0 = 1" "2 \<le> l \<Longrightarrow> measured (book_new [ex_candidate] (Suc 0) k) l = 0"
  by (cases k; simp add: measured_def ex_book book_leg_def ex_limited u256 u256_max_def)+

lemma bracket_loop_stop:
  "m_lo - m_hi \<le> tol \<Longrightarrow> bracket_loop fill target tol n lo hi m_lo m_hi = \<lparr>lb_lo = lo, lb_hi = hi\<rparr>"
  by (cases n) simp_all

lemma ex_level: "bracket_level (measured (book_new [ex_candidate] (Suc 0) k)) (Suc 0) None 4 = \<lparr>lb_lo = 0, lb_hi = 4\<rparr>"
  by (simp add: bracket_level_def bracket_loop_stop ex_measured ratio_zero_def)

lemma ex_solve_in: "solve [ex_candidate] (ex_request True) None = Some (ex_split 4)"
  apply (simp add: solve_def ex_request_def kind_from_request_def Let_def ratio_zero_def ex_measured ex_price ex_level)
  apply (simp add: assemble_exact_in_def Let_def book_fills_def ex_book book_leg_def ex_limited)
  apply (simp add: topup_loop.simps [of _ "[0]"] topup_room_def sat_sum_def u256 max_by_key_def u256_max_def ratio_is_zero_def Let_def ex_quotes)
  apply (simp add: topup_loop.simps [of _ "[Suc 0]"] build_def leg_amounts_def ex_quotes u256 u256_max_def)
  apply (simp add: ex_split_def ex_candidate_def)
  done

lemma ex_solve_out: "solve [ex_candidate] (ex_request False) None = Some (ex_split 0)"
  apply (simp add: solve_def ex_request_def kind_from_request_def Let_def ratio_zero_def ex_measured ex_price ex_level)
  apply (simp add: assemble_exact_out_def Let_def book_fills_def ex_book book_leg_def ex_limited trim_to_total_def
      sort_by_def trim_leg_def build_def leg_amounts_def ex_quotes u256 u256_max_def)
  apply (simp add: ex_split_def ex_candidate_def)
  done

lemma exact_in_total:
  assumes "venues_ok cs" "rq_amount request \<le> u256_max" "0 \<le> unwrap_or 0 warm"
    and "rq_exact_in request" "solve cs request warm = Some s"
  shows "sp_amount_in s \<le> rq_amount request"
proof -
  obtain ins outs lvl where b: "build cs ins ExactIn lvl = Some s" "length ins = length cs"
    and sum: "sum_list ins \<le> rq_amount request"
    using solve_exact_in_core [OF assms] by metis
  have "(\<Sum>l\<leftarrow>filter (\<lambda>_. True) (sp_legs s). rl_amount_in l) \<le>
      (\<Sum>i\<leftarrow>filter (\<lambda>_. True) [0..<length cs]. ins ! i)"
    unfolding legs_by_index [OF b]
    by (rule map_filter_sum_le) (auto simp: made_leg_ExactIn)
  then show ?thesis
    using build_spec(2) [OF b(1)] sum sum_over_indices [of "\<lambda>x. x" ins] b(2) by simp
qed

lemma exact_out_total:
  assumes "\<forall>c \<in> set cs. closed_curve c" "rq_amount request \<le> u256_max" "0 \<le> unwrap_or 0 warm"
    and "\<not> rq_exact_in request" "solve cs request warm = Some s"
  shows "sp_amount_out s = rq_amount request"
proof -
  obtain outs lvl where b: "build cs outs ExactOut lvl = Some s" "length outs = length cs"
    and sum: "sum_list outs = rq_amount request"
    using solve_exact_out_core [OF assms(2-5)] by metis
  have all: "made_leg ExactOut (cs ! i, outs ! i) = None \<longleftrightarrow> outs ! i = 0" if i: "i < length cs" for i
  proof (cases "outs ! i = 0")
    case False
    have "(cs ! i, outs ! i) \<in> set (zip cs outs)" using i b(2) by (auto simp: set_zip)
    from build_spec(6) [OF b(1) this False] obtain x where x: "net_quote_exact_out (cs ! i) (outs ! i) = Inr x"
      by (auto simp: leg_amounts_def to_option_def split: sum.splits)
    have "priced_quote (net_quote_exact_in (cs ! i)) (net_quote_exact_out (cs ! i))"
      using closed_curve_venue [of "cs ! i"] assms(1) i by (simp add: limited_fill_def)
    from priced_quote.costs [OF this x] False have "0 < x" by simp
    then show ?thesis using False x by (simp add: made_leg_def leg_amounts_def)
  qed (simp add: made_leg_def)
  have made: "made_leg ExactOut (cs ! i, outs ! i) = Some l \<Longrightarrow> rl_amount_out l = outs ! i" for i l
    by (simp add: made_leg_ExactOut)
  have "(\<Sum>l\<leftarrow>List.map_filter (\<lambda>i. made_leg ExactOut (cs ! i, outs ! i)) is. rl_amount_out l) =
      (\<Sum>i\<leftarrow>is. outs ! i)" if "set is \<subseteq> {0..<length cs}" for "is"
    using that
  proof (induction "is")
    case (Cons i "is")
    then show ?case
      using all [of i] made [of i]
      by (cases "made_leg ExactOut (cs ! i, outs ! i)") (auto simp: map_filter_simps)
  qed (simp add: map_filter_simps)
  from this [of "[0..<length cs]"] show ?thesis
    using build_spec(3) [OF b(1)] sum sum_over_indices [of "\<lambda>x. x" outs] b(2) legs_by_index [OF b] by auto
qed

lemma solve_lambda_nonneg:
  "0 \<le> unwrap_or 0 warm \<Longrightarrow> solve cs request warm = Some s \<Longrightarrow> 0 \<le> sp_lambda s"
  using bracket_nonneg [OF price_upper_nonneg, of warm]
  by (auto simp: solve_def Let_def assemble_exact_in_def assemble_exact_out_def
      dest!: build_spec(5) split: if_splits fill_kind.splits)

section \<open>The sparsity pass\<close>

lemma mset_swap_remove: "i < length xs \<Longrightarrow> mset (swap_remove i xs) \<subseteq># mset xs"
proof -
  assume i: "i < length xs"
  then have xs: "xs = butlast xs @ [last xs]" by (cases xs) auto
  show ?thesis
  proof (cases "i = length xs - 1")
    case True
    then show ?thesis using xs by (metis mset_append mset_subset_eq_add_left swap_remove_def)
  next
    case False
    then have "i < length (butlast xs)" using i by simp
    then have "mset ((butlast xs)[i := last xs]) \<subseteq># add_mset (last xs) (mset (butlast xs))"
      by (simp add: mset_update diff_subset_eq_self)
    also have "\<dots> = mset xs" by (subst (3) xs) simp
    finally show ?thesis using False by (simp add: swap_remove_def)
  qed
qed

lemma sparse_loop_solves:
  assumes "solve active request w = Some best" "0 \<le> unwrap_or 0 w"
    and "sparse_loop request cost max_legs active best = Some s"
  shows "\<exists>active' w'. mset active' \<subseteq># mset active \<and> 0 \<le> unwrap_or 0 w' \<and> solve active' request w' = Some s"
  using assms
proof (induction request cost max_legs active best arbitrary: w rule: sparse_loop.induct)
  case (1 request cost max_legs active best)
  have lam: "0 \<le> sp_lambda best" using solve_lambda_nonneg [OF 1(3,2)] .
  show ?case
  proof (cases "s = best")
    case True
    then show ?thesis using 1(2,3) by blast
  next
    case False
    then obtain worst pos nxt where step: "\<not> length (sp_legs best) \<le> 1"
      "min_by_key (\<lambda>l. (rl_amount_out l, rl_hash l)) (sp_legs best) = Some worst"
      "position (\<lambda>c. sk_hash (cd_key c) = rl_hash worst) active = Some pos"
      "solve (swap_remove pos active) request (Some (sp_lambda best)) = Some nxt"
      "length (sp_legs best) > max_legs \<or> is_no_worse (kind_from_request request) nxt best cost"
      "sparse_loop request cost max_legs (swap_remove pos active) nxt = Some s"
      using 1(4) by (subst (asm) sparse_loop.simps) (auto simp: Let_def split: if_splits option.splits)
    have "mset (swap_remove pos active) \<subseteq># mset active"
      using position_Some [OF step(3)] mset_swap_remove by blast
    moreover from 1(1) [OF step(1) refl step(2,3) refl step(4,5,4) _ step(6)] lam
    have "\<exists>active' w'. mset active' \<subseteq># mset (swap_remove pos active) \<and> 0 \<le> unwrap_or 0 w' \<and>
        solve active' request w' = Some s" by simp
    ultimately show ?thesis by (meson subset_mset.order_trans)
  qed
qed

lemma solve_sparse_solves:
  assumes "solve_sparse cs request cost max_legs warm = Some s" "0 \<le> unwrap_or 0 warm"
  obtains active w where "mset active \<subseteq># mset cs" "0 \<le> unwrap_or 0 w" "solve active request w = Some s"
  using assms sparse_loop_solves by (auto simp: solve_sparse_def split: option.splits) (metis)

lemma sparse_loop_returns: "\<exists>s. sparse_loop request cost max_legs active best = Some s"
proof (induction request cost max_legs active best rule: sparse_loop.induct)
  case (1 request cost max_legs active best)
  show ?case
  proof (cases "length (sp_legs best) \<le> 1")
    case True
    then show ?thesis by (simp add: sparse_loop.simps)
  next
    case False
    then have "sp_legs best \<noteq> []" by auto
    then obtain worst where w: "min_by_key (\<lambda>l. (rl_amount_out l, rl_hash l)) (sp_legs best) = Some worst"
      using min_by_key_some by blast
    show ?thesis
      using 1 [OF False refl w] False w
      by (subst sparse_loop.simps) (auto simp: Let_def split: option.splits)
  qed
qed

lemma venues_ok_subset: "venues_ok cs \<Longrightarrow> set ds \<subseteq> set cs \<Longrightarrow> venues_ok ds"
  by (auto simp: venues_ok_def)

lemma legs_ok_superset:
  assumes "legs_ok ds legs" "set ds \<subseteq> set cs" "venues_ok cs"
  shows "legs_ok cs legs"
proof -
  have "leg_total (\<lambda>l. rl_maker l = sk_maker (cd_key c)) legs \<le> cd_wallet_cap c" if c: "c \<in> set cs" for c
  proof (cases "\<exists>d \<in> set ds. sk_maker (cd_key d) = sk_maker (cd_key c)")
    case True
    then obtain d where d: "d \<in> set ds" "sk_maker (cd_key d) = sk_maker (cd_key c)" by blast
    then have "cd_wallet_cap d = cd_wallet_cap c" using assms(2,3) c unfolding venues_ok_def by blast
    moreover have "leg_total (\<lambda>l. rl_maker l = sk_maker (cd_key d)) legs \<le> cd_wallet_cap d"
      using assms(1) d(1) unfolding legs_ok_def by blast
    ultimately show ?thesis by (simp only: d(2))
  next
    case False
    then have "filter (\<lambda>l. rl_maker l = sk_maker (cd_key c)) legs = []"
      using assms(1) by (fastforce simp: legs_ok_def leg_of_def filter_empty_conv)
    then show ?thesis by (simp add: leg_total_def)
  qed
  then show ?thesis using assms(1,2) unfolding legs_ok_def by blast
qed

lemma sparse_guarantees:
  assumes "venues_ok cs" "rq_amount request \<le> u256_max" "0 \<le> unwrap_or 0 warm"
    and "rq_exact_in request \<or> (\<forall>c \<in> set cs. prices_back (rq_amount request) c)"
    and "solve_sparse cs request cost max_legs warm = Some s"
  shows "legs_ok cs (sp_legs s)" "rq_exact_in request \<Longrightarrow> sp_amount_in s \<le> rq_amount request"
    "\<not> rq_exact_in request \<Longrightarrow> sp_amount_out s = rq_amount request"
proof -
  obtain active w where a: "mset active \<subseteq># mset cs" "0 \<le> unwrap_or 0 w" "solve active request w = Some s"
    using solve_sparse_solves [OF assms(5,3)] .
  have sub: "set active \<subseteq> set cs" using a(1) by (metis set_mset_mono set_mset_mset)
  note v = venues_ok_subset [OF assms(1) sub]
  have again: "rq_exact_in request \<or> (\<forall>c \<in> set active. prices_back (rq_amount request) c)"
    using assms(4) sub by blast
  show "legs_ok cs (sp_legs s)"
    by (rule legs_ok_superset [OF solve_legs_ok [OF v assms(2) a(2) again a(3)] sub assms(1)])
  show "rq_exact_in request \<Longrightarrow> sp_amount_in s \<le> rq_amount request"
    by (rule exact_in_total [OF v assms(2) a(2) _ a(3)])
  show "\<not> rq_exact_in request \<Longrightarrow> sp_amount_out s = rq_amount request"
    by (rule exact_out_total [OF _ assms(2) a(2) _ a(3)]) (use v in \<open>auto simp: venues_ok_def venue_ok_def\<close>)
qed

end
