(* ===== verification/Routing_Plans.thy ===== *)
theory Routing_Plans
  imports Routing_Properties
begin

text \<open>
  From the registry snapshot to a reservable plan: candidate selection, the route, and the
  reservation sources a plan holds (\<open>sources_of\<close> of core/src/swap/service.rs). The properties that
  span the registry, the router and the ledger are here.
\<close>

definition sources_of :: "route_plan \<Rightarrow> reservation_source list" where
  "sources_of plan =
     map (\<lambda>leg. \<lparr>rs_maker = rl_maker leg, rs_hash = rl_hash leg, rs_token = rl_token_out leg,
                 rs_amount = rl_amount_out leg\<rparr>) (rp_legs plan)"

section \<open>Selection\<close>

lemma mset_take_drop: "mset (take k xs) \<subseteq># mset xs"
  by (metis append_take_drop_id mset_append mset_subset_eq_add_left)

lemma distinct_submultiset:
  assumes "mset xs \<subseteq># mset ys" "distinct ys"
  shows "distinct xs"
proof -
  obtain M where "mset ys = mset xs + M" using assms(1) by (metis subset_mset.less_eqE)
  moreover obtain zs where "mset zs = M" using ex_mset by blast
  ultimately have "mset ys = mset (xs @ zs)" by simp
  then have "distinct (xs @ zs)" using assms(2) mset_eq_imp_distinct_iff by blast
  then show ?thesis by simp
qed

lemma chosen_from_scored:
  "mset (sl_chosen (select snap caps guards request k)) \<subseteq>#
   mset (map sd_candidate (scored_candidates snap caps guards request))"
proof (cases "k < length (scored_candidates snap caps guards request)")
  case True
  have "mset (take k (sort_by (best_first (rq_exact_in request)) (scored_candidates snap caps guards request)))
      \<subseteq># mset (scored_candidates snap caps guards request)"
    using mset_take_drop [of k "sort_by (best_first (rq_exact_in request)) (scored_candidates snap caps guards request)"]
    by simp
  then show ?thesis using True by (simp add: select_def Let_def image_mset_subseteq_mono)
next
  case False
  then show ?thesis by (simp add: select_def Let_def)
qed

lemma chosen_length: "length (sl_chosen (select snap caps guards request k)) \<le> k"
  by (simp add: select_def Let_def)

lemma chosen_built:
  assumes "c \<in> set (sl_chosen (select snap caps guards request k))"
  obtains st where "st \<in> set (active_strategies_for_pair snap
      (token_pair_new (rq_token_in request) (rq_token_out request)))"
    "\<not> is_guarded guards (ms_key st)"
    "build_candidate st caps (rq_token_in request) (rq_token_out request) = Some c"
proof -
  have "c \<in> set (map sd_candidate (scored_candidates snap caps guards request))"
    using assms chosen_from_scored [of snap caps guards request k] by (metis mset_subset_eqD set_mset_mset)
  then show thesis using that by (auto simp: scored_candidates_def List.map_filter_def)
qed

lemma build_candidate_Some:
  assumes "build_candidate st caps ti tout = Some c"
  shows "cd_key c = ms_key st" "cd_token_in c = ti" "cd_token_out c = tout" "0 < cd_cap_out c"
    "cd_wallet_cap c = caps_available caps (WalletBudget (sk_maker (ms_key st)) tout)"
    "cd_cap_out c \<le> cd_wallet_cap c"
    "cd_cap_out c \<le> caps_available caps (StrategyVirtual (sk_maker (ms_key st)) (sk_hash (ms_key st)) tout)"
    "closed_form (ms_curve st) \<Longrightarrow> closed_curve c" "ms_active st"
  using assms
  by (auto simp: build_candidate_def build_pricing_candidate_def freeze_cap_def Let_def closed_form_def
      closed_curve_def split: option.splits if_splits curve_spec.splits curve.splits)

lemma available_caps_eq: "caps_available (available_snapshot l) a = available l a"
proof -
  have "bm_get (map (\<lambda>a. (a, f a)) xs) a = (if a \<in> set xs then Some (f a) else None)" for f :: "account_key \<Rightarrow> nat" and xs
    by (induction xs) auto
  moreover have "available l a = 0" if "a \<notin> set (bm_keys (lg_budgets l) @ bm_keys (lg_held l))"
  proof -
    have "bm_get (lg_budgets l) a = None" using that by (simp add: bm_get_None_iff bm_keys_def)
    then show ?thesis by (simp add: available_def budget_def)
  qed
  ultimately show ?thesis by (simp add: caps_available_def available_snapshot_def)
qed

lemma chosen_distinct:
  assumes "snapshot_inv snap"
  shows "distinct (map cd_key (sl_chosen (select snap caps guards request k)))"
proof -
  let ?pair = "token_pair_new (rq_token_in request) (rq_token_out request)"
  let ?sts = "filter (\<lambda>s. \<not> is_guarded guards (ms_key s)) (active_strategies_for_pair snap ?pair)"
  let ?cs = "List.map_filter (\<lambda>s. build_candidate s caps (rq_token_in request) (rq_token_out request)) ?sts"
  have wf: "bm_wf (sn_strategies snap)" and keys: "\<And>key st. bm_get (sn_strategies snap) key = Some st \<Longrightarrow> ms_key st = key"
    using assms by (auto simp: snapshot_inv_def)
  have "ms_key (snd e) = fst e" if "e \<in> set (sn_strategies snap)" for e
    using that keys [of "fst e" "snd e"] bm_get_iff [OF wf, of "fst e" "snd e"] by simp
  then have "map ms_key (bm_values (sn_strategies snap)) = map fst (sn_strategies snap)"
    by (simp add: bm_values_def)
  then have "distinct (map ms_key (bm_values (sn_strategies snap)))"
    using wf by (simp add: bm_wf_def strict_sorted_iff)
  then have d: "distinct (map ms_key ?sts)"
    by (simp add: funnel_eq_scan [OF assms] distinct_map_filter)
  have "distinct (map cd_key (List.map_filter (\<lambda>s. build_candidate s caps ti tout) sts))"
    if "distinct (map ms_key sts)" for sts ti tout
    using that
  proof (induction sts)
    case (Cons st sts)
    have "cd_key ` set (List.map_filter (\<lambda>s. build_candidate s caps ti tout) sts) \<subseteq> ms_key ` set sts"
      by (auto simp: List.map_filter_def build_candidate_Some(1))
    then show ?case
      using Cons by (cases "build_candidate st caps ti tout") (auto simp: map_filter_simps build_candidate_Some(1))
  qed (simp add: map_filter_simps)
  from this [OF d] have "distinct (map cd_key (map sd_candidate (scored_candidates snap caps guards request)))"
    by (simp add: scored_candidates_def comp_def)
  moreover have "mset (map cd_key (sl_chosen (select snap caps guards request k))) \<subseteq>#
      mset (map cd_key (map sd_candidate (scored_candidates snap caps guards request)))"
    using image_mset_subseteq_mono [OF chosen_from_scored, of cd_key snap caps guards request k]
    by (simp add: multiset.map_comp)
  ultimately show ?thesis by (rule distinct_submultiset [rotated])
qed

text \<open>
  The registry state a route reads: a snapshot built from events, with no pegged strategy on the pair.
\<close>

definition routable :: "snapshot \<Rightarrow> route_request \<Rightarrow> bool" where
  "routable snap request \<longleftrightarrow>
     snapshot_inv snap \<and>
     (\<forall>st \<in> set (active_strategies_for_pair snap (token_pair_new (rq_token_in request) (rq_token_out request))).
        closed_form (ms_curve st))"

text \<open>
  The ledger's strategy account leaves out the application, so the strategies of one maker with the
  same hash under two applications share an account while each is routed up to the whole of it.
\<close>

definition accounts_apart :: "snapshot \<Rightarrow> route_request \<Rightarrow> bool" where
  "accounts_apart snap request \<longleftrightarrow>
     (let keys = ms_key ` set (active_strategies_for_pair snap
            (token_pair_new (rq_token_in request) (rq_token_out request)))
      in \<forall>a \<in> keys. \<forall>b \<in> keys. sk_maker a = sk_maker b \<longrightarrow> sk_hash a = sk_hash b \<longrightarrow> a = b)"

lemma chosen_venues:
  assumes "routable snap request" "\<forall>a. caps_available caps a \<le> u256_max"
  shows "venues_ok (sl_chosen (select snap caps guards request k))"
proof -
  have "venue_ok c \<and> cd_wallet_cap c =
      caps_available caps (WalletBudget (sk_maker (cd_key c)) (rq_token_out request))"
    if mem: "c \<in> set (sl_chosen (select snap caps guards request k))" for c
  proof -
    obtain st where st: "st \<in> set (active_strategies_for_pair snap
        (token_pair_new (rq_token_in request) (rq_token_out request)))"
      and "\<not> is_guarded guards (ms_key st)"
      and b: "build_candidate st caps (rq_token_in request) (rq_token_out request) = Some c"
      using chosen_built [OF mem] .
    have "closed_form (ms_curve st)" using assms(1) st by (simp add: routable_def)
    then show ?thesis using build_candidate_Some [OF b] assms(2) by (simp add: venue_ok_def)
  qed
  then show ?thesis by (simp add: venues_ok_def)
qed

section \<open>One leg per strategy\<close>

abbreviation leg_strategy :: "route_leg \<Rightarrow> maker_id \<times> strategy_hash" where
  "leg_strategy l \<equiv> (rl_maker l, rl_hash l)"

abbreviation cd_strategy :: "candidate \<Rightarrow> maker_id \<times> strategy_hash" where
  "cd_strategy c \<equiv> (sk_maker (cd_key c), sk_hash (cd_key c))"

lemma made_leg_strategy: "made_leg kind (c, a) = Some l \<Longrightarrow> leg_strategy l = cd_strategy c"
  by (auto simp: made_leg_def split: if_splits option.splits)

lemma solve_built: "solve cs request warm = Some s \<Longrightarrow> \<exists>amounts kind lvl. build cs amounts kind lvl = Some s"
  by (auto simp: solve_def assemble_exact_in_def assemble_exact_out_def book_new_def Let_def
      split: if_splits fill_kind.splits)

lemma built_range:
  assumes "build cs amounts kind lvl = Some s"
  shows "sp_amount_out s \<le> u256_max"
proof -
  have "build_legs kind pairs legs ain aout = Some (legs', ain', aout') \<Longrightarrow> aout \<le> u256_max \<Longrightarrow> aout' \<le> u256_max"
    for pairs legs ain aout legs' ain' aout'
    by (induction kind pairs legs ain aout rule: build_legs.induct)
      (auto simp: Let_def split: if_splits option.splits)
  then show ?thesis using assms by (auto simp: build_def split: option.splits if_splits)
qed

lemma built_distinct:
  assumes "build cs amounts kind lvl = Some s" "distinct (map cd_strategy cs)"
  shows "distinct (map leg_strategy (sp_legs s))"
proof -
  have "distinct (map leg_strategy (List.map_filter (made_leg kind) (zip cs amounts)))"
    using assms(2)
  proof (induction cs arbitrary: amounts)
    case (Cons c cs)
    show ?case
    proof (cases amounts)
      case (Cons a as)
      have sub: "leg_strategy ` set (List.map_filter (made_leg kind) (zip cs as)) \<subseteq> cd_strategy ` set cs"
        by (force simp: List.map_filter_def dest: made_leg_strategy set_zip_leftD)
      show ?thesis
      proof (cases "made_leg kind (c, a)")
        case None
        then show ?thesis using Cons.IH [of as] Cons.prems by (simp add: local.Cons map_filter_simps)
      next
        case (Some l)
        then have "leg_strategy l \<notin> leg_strategy ` set (List.map_filter (made_leg kind) (zip cs as))"
          using made_leg_strategy [OF Some] Cons.prems sub by auto
        then show ?thesis using Cons.IH [of as] Cons.prems Some by (simp add: local.Cons map_filter_simps)
      qed
    qed (simp add: map_filter_simps)
  qed (simp add: map_filter_simps)
  then show ?thesis using build_spec(1) [OF assms(1)] by simp
qed

lemma sparse_distinct:
  assumes "solve_sparse cs request cost max_legs warm = Some s" "0 \<le> unwrap_or 0 warm"
    "distinct (map cd_strategy cs)"
  shows "distinct (map leg_strategy (sp_legs s))"
proof -
  obtain active w where a: "mset active \<subseteq># mset cs" "solve active request w = Some s"
    using solve_sparse_solves [OF assms(1,2)] by blast
  have "mset (map cd_strategy active) \<subseteq># mset (map cd_strategy cs)"
    using image_mset_subseteq_mono [OF a(1)] by simp
  then have "distinct (map cd_strategy active)" using assms(3) by (rule distinct_submultiset)
  then show ?thesis using solve_built [OF a(2)] built_distinct by blast
qed

lemma leg_total_single:
  assumes "distinct (map leg_strategy legs)" "\<forall>l \<in> set legs. leg_strategy l = k \<longrightarrow> rl_amount_out l \<le> b"
  shows "leg_total (\<lambda>l. leg_strategy l = k) legs \<le> b"
  using assms
proof (induction legs)
  case (Cons l legs)
  show ?case
  proof (cases "leg_strategy l = k")
    case True
    then have "filter (\<lambda>l. leg_strategy l = k) legs = []"
      using Cons.prems(1) by (auto simp: filter_empty_conv image_iff)
    then show ?thesis using True Cons.prems(2) by (simp add: leg_total_def)
  next
    case False
    then show ?thesis using Cons by (simp add: leg_total_def)
  qed
qed (simp add: leg_total_def)

section \<open>Reserving a plan\<close>

lemma demand_as_legs:
  "demand_on (WalletBudget m t) (sources_of plan) = leg_total (\<lambda>l. rl_maker l = m \<and> rl_token_out l = t) (rp_legs plan)"
  "demand_on (StrategyVirtual m h t) (sources_of plan) =
     leg_total (\<lambda>l. rl_maker l = m \<and> rl_hash l = h \<and> rl_token_out l = t) (rp_legs plan)"
proof -
  have "demand_on (WalletBudget m t) (map f legs) = leg_total (\<lambda>l. rl_maker l = m \<and> rl_token_out l = t) legs"
    "demand_on (StrategyVirtual m h t) (map f legs) =
     leg_total (\<lambda>l. rl_maker l = m \<and> rl_hash l = h \<and> rl_token_out l = t) legs"
    if "f = (\<lambda>leg. \<lparr>rs_maker = rl_maker leg, rs_hash = rl_hash leg, rs_token = rl_token_out leg,
                 rs_amount = rl_amount_out leg\<rparr>)" for f legs
    by (induction legs) (auto simp: that leg_total_def draws_on_def accounts_def)
  then show "demand_on (WalletBudget m t) (sources_of plan) = leg_total (\<lambda>l. rl_maker l = m \<and> rl_token_out l = t) (rp_legs plan)"
  "demand_on (StrategyVirtual m h t) (sources_of plan) =
     leg_total (\<lambda>l. rl_maker l = m \<and> rl_hash l = h \<and> rl_token_out l = t) (rp_legs plan)"
    by (simp_all add: sources_of_def)
qed

lemma leg_total_mono: "(\<And>l. P l \<Longrightarrow> Q l) \<Longrightarrow> leg_total P legs \<le> leg_total Q legs"
  by (induction legs) (auto simp: leg_total_def)

lemma leg_total_none: "(\<And>l. l \<in> set legs \<Longrightarrow> \<not> P l) \<Longrightarrow> leg_total P legs = 0"
  by (simp add: leg_total_def filter_empty_conv)

lemma route_Some:
  assumes "route bk request bound config cost warm = Some plan"
  obtains s where "solve_sparse (sl_chosen (select (rb_snapshot bk) (rb_caps bk) (rb_guards bk) request
      (rc_max_candidates config))) request cost (rc_max_legs config) warm = Some s"
    "rp_legs plan = sp_legs s" "rp_intent plan = rq_intent request"
    "rq_exact_in request \<Longrightarrow> net_output s cost = bound + rp_expected_profit plan"
    "\<not> rq_exact_in request \<Longrightarrow> bound = gross_input s cost + rp_expected_profit plan"
  using assms by (auto simp: route_def Let_def split: option.splits if_splits)

lemma route_leg_source:
  assumes "route bk request bound config cost warm = Some plan" "0 \<le> unwrap_or 0 warm" "l \<in> set (rp_legs plan)"
  obtains st c where "st \<in> set (active_strategies_for_pair (rb_snapshot bk)
      (token_pair_new (rq_token_in request) (rq_token_out request)))"
    "\<not> is_guarded (rb_guards bk) (ms_key st)"
    "build_candidate st (rb_caps bk) (rq_token_in request) (rq_token_out request) = Some c" "leg_of c l"
    "c \<in> set (sl_chosen (select (rb_snapshot bk) (rb_caps bk) (rb_guards bk) request (rc_max_candidates config)))"
proof -
  let ?cs = "sl_chosen (select (rb_snapshot bk) (rb_caps bk) (rb_guards bk) request (rc_max_candidates config))"
  obtain s where s: "solve_sparse ?cs request cost (rc_max_legs config) warm = Some s" "rp_legs plan = sp_legs s"
    using route_Some [OF assms(1)] by metis
  obtain active w where a: "mset active \<subseteq># mset ?cs" "solve active request w = Some s"
    using solve_sparse_solves [OF s(1) assms(2)] by blast
  obtain amounts kind lvl where b: "build active amounts kind lvl = Some s" using solve_built [OF a(2)] by blast
  obtain c amt where c: "(c, amt) \<in> set (zip active amounts)" "made_leg kind (c, amt) = Some l"
    using assms(3) unfolding s(2) build_spec(1) [OF b] by (auto simp: List.map_filter_def)
  have mem: "c \<in> set ?cs" using set_zip_leftD [OF c(1)] a(1) by (metis mset_subset_eqD set_mset_mset)
  have "leg_of c l" using c(2) by (auto simp: made_leg_def leg_of_def split: if_splits option.splits)
  then show thesis using chosen_built [OF mem] that mem by metis
qed

lemma legs_ok_source:
  "legs_ok cs legs \<Longrightarrow> l \<in> set legs \<Longrightarrow> \<exists>c \<in> set cs. leg_of c l \<and> rl_amount_out l \<le> cd_cap_out c"
  unfolding legs_ok_def by blast

lemma wallet_demand:
  assumes "legs_ok cs legs"
    and "\<And>c. c \<in> set cs \<Longrightarrow> cd_wallet_cap c \<le> room (sk_maker (cd_key c)) (cd_token_out c)"
  shows "leg_total (\<lambda>l. rl_maker l = m \<and> rl_token_out l = t) legs \<le> room m t"
proof (cases "\<exists>l \<in> set legs. rl_maker l = m \<and> rl_token_out l = t")
  case True
  then obtain c where c: "c \<in> set cs" "sk_maker (cd_key c) = m" "cd_token_out c = t"
    using legs_ok_source [OF assms(1)] by (fastforce simp: leg_of_def)
  have "leg_total (\<lambda>l. rl_maker l = m \<and> rl_token_out l = t) legs \<le>
      leg_total (\<lambda>l. rl_maker l = sk_maker (cd_key c)) legs"
    by (rule leg_total_mono) (simp add: c)
  also have "\<dots> \<le> cd_wallet_cap c" using assms(1) c(1) unfolding legs_ok_def by blast
  also have "\<dots> \<le> room m t" using assms(2) [OF c(1)] c by simp
  finally show ?thesis .
next
  case False
  then have "leg_total (\<lambda>l. rl_maker l = m \<and> rl_token_out l = t) legs = 0" by (intro leg_total_none) blast
  then show ?thesis by simp
qed

lemma strategy_demand:
  assumes "legs_ok cs legs" "distinct (map leg_strategy legs)"
    and "\<And>c. c \<in> set cs \<Longrightarrow> cd_cap_out c \<le> room (sk_maker (cd_key c)) (sk_hash (cd_key c)) (cd_token_out c)"
  shows "leg_total (\<lambda>l. rl_maker l = m \<and> rl_hash l = h \<and> rl_token_out l = t) legs \<le> room m h t"
proof (cases "\<exists>l \<in> set legs. rl_maker l = m \<and> rl_hash l = h \<and> rl_token_out l = t")
  case True
  then obtain l where l: "l \<in> set legs" "leg_strategy l = (m, h)" "rl_token_out l = t" by auto
  obtain c where c: "c \<in> set cs" "leg_of c l" "rl_amount_out l \<le> cd_cap_out c"
    using legs_ok_source [OF assms(1) l(1)] by blast
  have "cd_cap_out c \<le> room m h t" using assms(3) [OF c(1)] c(2) l by (simp add: leg_of_def)
  then have "rl_amount_out l' \<le> room m h t" if "l' \<in> set legs" "leg_strategy l' = (m, h)" for l'
    using that l assms(2) c(3) by (metis eq_key_imp_eq_value le_trans distinct_map inj_onD)
  then have "leg_total (\<lambda>l. leg_strategy l = (m, h)) legs \<le> room m h t"
    using leg_total_single [OF assms(2)] by blast
  moreover have "leg_total (\<lambda>l. rl_maker l = m \<and> rl_hash l = h \<and> rl_token_out l = t) legs \<le>
      leg_total (\<lambda>l. leg_strategy l = (m, h)) legs"
    by (rule leg_total_mono) simp
  ultimately show ?thesis by linarith
next
  case False
  then have "leg_total (\<lambda>l. rl_maker l = m \<and> rl_hash l = h \<and> rl_token_out l = t) legs = 0"
    by (intro leg_total_none) blast
  then show ?thesis by simp
qed

lemma chosen_room:
  assumes "c \<in> set (sl_chosen (select snap (available_snapshot l) guards request k))"
  shows "cd_wallet_cap c \<le> available l (WalletBudget (sk_maker (cd_key c)) (cd_token_out c))"
    "cd_cap_out c \<le> available l (StrategyVirtual (sk_maker (cd_key c)) (sk_hash (cd_key c)) (cd_token_out c))"
  using chosen_built [OF assms] build_candidate_Some(1,3,5,7) available_caps_eq by (metis order_refl)+

lemma chosen_strategies_distinct:
  assumes "routable snap request" "accounts_apart snap request"
  shows "distinct (map cd_strategy (sl_chosen (select snap caps guards request k)))"
proof -
  let ?cs = "sl_chosen (select snap caps guards request k)"
  let ?keys = "ms_key ` set (active_strategies_for_pair snap (token_pair_new (rq_token_in request) (rq_token_out request)))"
  have keys: "cd_key c \<in> ?keys" if "c \<in> set ?cs" for c
    using chosen_built [OF that] build_candidate_Some(1) by (metis imageI)
  have apart: "a = b" if "a \<in> ?keys" "b \<in> ?keys" "sk_maker a = sk_maker b" "sk_hash a = sk_hash b" for a b
    using assms(2) that unfolding accounts_apart_def Let_def by blast
  have dist: "distinct (map cd_key ?cs)" using chosen_distinct assms(1) by (auto simp: routable_def)
  have "c = d" if "c \<in> set ?cs" "d \<in> set ?cs" "cd_strategy c = cd_strategy d" for c d
    using apart [OF keys [OF that(1)] keys [OF that(2)]] that dist by (auto simp: distinct_map dest: inj_onD)
  moreover have "distinct ?cs" using dist by (simp add: distinct_map)
  ultimately show ?thesis unfolding distinct_map inj_on_def by blast
qed

text \<open>
  C1. A plan routed on the ledger's own available snapshot can be reserved: for every wallet and every
  strategy account the legs together draw no more than the ledger has available, so the single-writer
  admission accepts the reservation built from the plan. This holds when the pair's active strategies
  are all on closed-form curves (constant product or concentrated, not pegged), no two of them share
  their maker and hash under different applications, the amount is a 256-bit word, a warm start is
  not negative, for exact-out every selected venue that quotes the input for the whole target can
  also quote that input forwards, and the reservation id is not taken.
\<close>

theorem routed_plan_is_reservable:
  assumes "routable snap request" "accounts_apart snap request" "ledger_shape l" "rq_amount request \<le> u256_max" "0 \<le> unwrap_or 0 warm"
    and "rq_exact_in request \<or> (\<forall>c \<in> set (sl_chosen (select snap (available_snapshot l) guards request
           (rc_max_candidates config))). prices_back (rq_amount request) c)"
    and "route \<lparr>rb_snapshot = snap, rb_caps = available_snapshot l, rb_guards = guards\<rparr> request bound config cost warm
           = Some plan"
    and "bm_get (lg_reservations l) rid = None"
  shows "can_reserve l (for_swap rid (rp_intent plan) (sources_of plan) expires) = Inr ()"
proof -
  let ?cs = "sl_chosen (select snap (available_snapshot l) guards request (rc_max_candidates config))"
  obtain s where s: "solve_sparse ?cs request cost (rc_max_legs config) warm = Some s" "rp_legs plan = sp_legs s"
    using route_Some [OF assms(7)] by auto
  have "available l a \<le> u256_max" for a
    using assms(3) by (auto simp: ledger_shape_def available_def Let_def intro: le_trans [OF diff_le_self])
  then have venues: "venues_ok ?cs" by (intro chosen_venues [OF assms(1)]) (simp add: available_caps_eq)
  have ok: "legs_ok ?cs (rp_legs plan)"
    unfolding s(2) by (rule sparse_guarantees(1) [OF venues assms(4,5,6) s(1)])
  have dist: "distinct (map leg_strategy (rp_legs plan))"
    unfolding s(2) by (rule sparse_distinct [OF s(1) assms(5) chosen_strategies_distinct [OF assms(1,2)]])
  have "demand_on a (sources_of plan) \<le> available l a" for a
    using wallet_demand [OF ok, of "\<lambda>m t. available l (WalletBudget m t)"] chosen_room
      strategy_demand [OF ok dist, of "\<lambda>m h t. available l (StrategyVirtual m h t)"]
    by (cases a) (auto simp: demand_as_legs)
  then have "min (demand_on a (sources_of plan)) u256_max \<le> available l a" for a
    by (meson min.coboundedI1)
  then show ?thesis
    using assms(8) by (simp add: can_reserve_Inr for_swap_def reservation_new_def)
qed

definition ex_venue_strategy :: maker_strategy where
  "ex_venue_strategy = \<lparr>ms_key = StrategyKey 1 2 3, ms_curve = Priceable Xyc [],
     ms_balances = [(10, 1000), (11, 2000)], ms_active = True, ms_program = []\<rparr>"

definition ex_registry :: snapshot where
  "ex_registry = \<lparr>sn_strategies = [(StrategyKey 1 2 3, ex_venue_strategy)],
     sn_by_pair = [(TokenPair 10 11, [StrategyKey 1 2 3])]\<rparr>"

definition ex_wallets :: ledger where
  "ex_wallets = \<lparr>lg_budgets = [(WalletBudget 1 11, 800), (StrategyVirtual 1 3 11, 500)], lg_held = [],
     lg_reservations = [], lg_filled = []\<rparr>"

definition ex_config :: routing_config where
  "ex_config = \<lparr>rc_max_candidates = 8, rc_max_legs = 4, rc_gas_units_per_leg = 150000\<rparr>"

definition ex_plan :: route_plan where
  "ex_plan = \<lparr>rp_intent = 7, rp_legs = sp_legs (ex_split 4), rp_expected_profit = 0, rp_price_impact_bps = 0\<rparr>"

lemma ex_registry_inv: "snapshot_inv ex_registry"
proof -
  have "bucket (sn_by_pair ex_registry) pair = (if pair = TokenPair 10 11 then [StrategyKey 1 2 3] else [])" for pair
    by (simp add: ex_registry_def bucket_def)
  moreover have "quoting ex_registry pair = (if pair = TokenPair 10 11 then {StrategyKey 1 2 3} else {})" for pair
    by (auto simp: quoting_def ex_registry_def ex_venue_strategy_def ms_pair_def bm_keys_def token_pair_new_def
        split: if_splits)
  ultimately show ?thesis
    by (auto simp: snapshot_inv_def index_shape_def ex_registry_def ex_venue_strategy_def bm_wf_def split: if_splits)
qed

lemma ex_active: "active_strategies_for_pair ex_registry (TokenPair 10 11) = [ex_venue_strategy]"
  by (simp add: active_strategies_for_pair_def ex_registry_def ex_venue_strategy_def map_filter_simps)

lemma ex_pair: "token_pair_new 10 11 = TokenPair 10 11"
  by (simp add: token_pair_new_def)

lemma ex_routable: "routable ex_registry (ex_request b)" "accounts_apart ex_registry (ex_request b)"
  by (simp_all add: routable_def accounts_apart_def ex_registry_inv ex_request_def ex_pair ex_active)
    (simp add: ex_venue_strategy_def closed_form_def)

lemma ex_available:
  "available ex_wallets (WalletBudget 1 11) = 800" "available ex_wallets (StrategyVirtual 1 3 11) = 500"
  by (simp_all add: available_def budget_def ex_wallets_def)

lemma ex_built: "build_candidate ex_venue_strategy (available_snapshot ex_wallets) 10 11 = Some ex_candidate"
  using ex_available
  by (simp add: build_candidate_def build_pricing_candidate_def ex_venue_strategy_def ms_balance_def
      freeze_cap_def available_caps_eq ex_candidate_def Let_def)

lemma ex_selected: "sl_chosen (select ex_registry (available_snapshot ex_wallets) [] (ex_request b) 8) = [ex_candidate]"
  by (simp add: select_def scored_candidates_def ex_request_def ex_pair ex_active is_guarded_def ex_built
      map_filter_simps sort_by_def Let_def)

lemma ex_wallets_shape: "ledger_shape ex_wallets"
  by (simp add: ledger_shape_def ex_wallets_def budget_def u256_max_def)

lemma ex_sparse: "solve [ex_candidate] r w = Some (ex_split lam) \<Longrightarrow>
    solve_sparse [ex_candidate] r c n w = Some (ex_split lam)"
  by (simp add: solve_sparse_def sparse_loop.simps ex_split_def)

lemma ex_impact: "price_impact_bps [ex_candidate] 1 1 = 0"
  by (simp add: price_impact_bps_def map_filter_simps spot_marginal_def PROBE_DIVISORS_def ex_quotes
      MIN_PROBE_OUT_def iter_max_def rel_diff_bps_def ratio_new_def)

lemma ex_route:
  "route \<lparr>rb_snapshot = ex_registry, rb_caps = available_snapshot ex_wallets, rb_guards = []\<rparr> (ex_request True) 1
     ex_config 0 None = Some ex_plan"
  using ex_sparse [OF ex_solve_in, of 0 4] ex_impact
  unfolding route_def Let_def ex_config_def routing_config.select_convs routing_book.select_convs ex_selected
  by (simp add: ex_request_def ex_plan_def ex_split_def net_output_def split_gas_def u256)

theorem routed_plan_is_reservable_witness:
  "can_reserve ex_wallets (for_swap 99 (rp_intent ex_plan) (sources_of ex_plan) 1000) = Inr ()"
  by (rule routed_plan_is_reservable [OF ex_routable ex_wallets_shape _ _ _ ex_route])
    (simp_all add: ex_request_def u256_max_def ex_wallets_def)

text \<open>
  C2. What a plan promises the taker and the resolver. An exact-in plan spends at most the request and its
  output is exactly the taker's minimum, the gas of every leg and the stated profit; an exact-out plan
  delivers exactly the request, and its input, the gas of every leg and the stated profit add up to
  the taker's maximum. Every leg trades the requested tokens on an active strategy of the pair that
  is not guarded. This holds when the taker's bound is neither zero nor the largest 256-bit number
  (there the saturating sums hide a difference), the pair's active strategies are all on closed-form
  curves, caps and amount are 256-bit words, a warm start is not negative, and for exact-out every
  selected venue that quotes the input for the whole target can also quote that input forwards.
\<close>

theorem routed_plan_keeps_bounds:
  assumes "routable snap request" "\<forall>a. caps_available caps a \<le> u256_max" "rq_amount request \<le> u256_max"
    and "0 \<le> unwrap_or 0 warm" "0 < bound" "bound < u256_max"
    and "rq_exact_in request \<or> (\<forall>c \<in> set (sl_chosen (select snap caps guards request
           (rc_max_candidates config))). prices_back (rq_amount request) c)"
    and "route \<lparr>rb_snapshot = snap, rb_caps = caps, rb_guards = guards\<rparr> request bound config cost warm = Some plan"
  defines "ins \<equiv> (\<Sum>l\<leftarrow>rp_legs plan. rl_amount_in l)" and "outs \<equiv> (\<Sum>l\<leftarrow>rp_legs plan. rl_amount_out l)"
    and "gas \<equiv> cost * length (rp_legs plan)"
  shows "(if rq_exact_in request
          then ins \<le> rq_amount request \<and> outs = bound + gas + rp_expected_profit plan
          else outs = rq_amount request \<and> ins + gas + rp_expected_profit plan = bound) \<and>
     (\<forall>l \<in> set (rp_legs plan). rl_token_in l = rq_token_in request \<and> rl_token_out l = rq_token_out request \<and>
        (\<exists>st \<in> set (active_strategies_for_pair snap (token_pair_new (rq_token_in request) (rq_token_out request))).
           leg_strategy l = (sk_maker (ms_key st), sk_hash (ms_key st)) \<and> \<not> is_guarded guards (ms_key st)))"
proof -
  let ?cs = "sl_chosen (select snap caps guards request (rc_max_candidates config))"
  obtain s where s: "solve_sparse ?cs request cost (rc_max_legs config) warm = Some s" "rp_legs plan = sp_legs s"
    and gain: "rq_exact_in request \<Longrightarrow> net_output s cost = bound + rp_expected_profit plan"
      "\<not> rq_exact_in request \<Longrightarrow> bound = gross_input s cost + rp_expected_profit plan"
    using route_Some [OF assms(8)] by auto
  note guarantees = sparse_guarantees(2,3) [OF chosen_venues [OF assms(1,2)] assms(3,4,7) s(1)]
  obtain active w where "solve active request w = Some s" using solve_sparse_solves [OF s(1) assms(4)] by blast
  then obtain am kind lvl where b: "build active am kind lvl = Some s" using solve_built by blast
  have sums: "ins = sp_amount_in s" "outs = sp_amount_out s"
    using build_spec(2,3) [OF b] by (simp_all add: ins_def outs_def s(2))
  have gas: "split_gas s cost = min u256_max gas" by (simp add: split_gas_def gas_def s(2) sat_mul_def min_def)
  have "outs = bound + gas + rp_expected_profit plan" if "rq_exact_in request"
  proof -
    have "sp_amount_out s - min u256_max gas = bound + rp_expected_profit plan"
      using gain(1) [OF that] gas by (simp add: net_output_def)
    moreover have "sp_amount_out s \<le> u256_max" by (rule built_range [OF b])
    ultimately show ?thesis using assms(5) sums by (auto simp: min_def split: if_splits)
  qed
  moreover have "ins + gas + rp_expected_profit plan = bound" if "\<not> rq_exact_in request"
  proof -
    have "sat_add (sp_amount_in s) (min u256_max gas) + rp_expected_profit plan = bound"
      using gain(2) [OF that] gas by (simp add: gross_input_def)
    then show ?thesis using assms(6) sums by (auto simp: min_def sat_add_def split: if_splits)
  qed
  moreover have "rl_token_in l = rq_token_in request \<and> rl_token_out l = rq_token_out request \<and>
      (\<exists>st \<in> set (active_strategies_for_pair snap (token_pair_new (rq_token_in request) (rq_token_out request))).
         leg_strategy l = (sk_maker (ms_key st), sk_hash (ms_key st)) \<and> \<not> is_guarded guards (ms_key st))"
    if mem: "l \<in> set (rp_legs plan)" for l
    using route_leg_source [OF assms(8,4) mem] build_candidate_Some(1,2,3)
    by (auto simp: leg_of_def) metis
  ultimately show ?thesis using guarantees sums by auto
qed

lemma ex_keep:
  "\<forall>a. caps_available (available_snapshot ex_wallets) a \<le> u256_max"
  using ex_wallets_shape
  by (auto simp: available_caps_eq ledger_shape_def available_def Let_def intro: le_trans [OF diff_le_self])

theorem routed_plan_keeps_bounds_witness:
  "(\<Sum>l\<leftarrow>rp_legs ex_plan. rl_amount_in l) \<le> 1 \<and>
   (\<Sum>l\<leftarrow>rp_legs ex_plan. rl_amount_out l) = 1 + 0 * length (rp_legs ex_plan) + rp_expected_profit ex_plan"
proof -
  have exact: "rq_exact_in (ex_request True)" "rq_amount (ex_request True) = 1" by (simp_all add: ex_request_def)
  have rest: "rq_amount (ex_request True) \<le> u256_max" "0 \<le> unwrap_or 0 (None :: ratio option)" "0 < (1 :: nat)"
    "1 < u256_max"
    "rq_exact_in (ex_request True) \<or> (\<forall>c \<in> set (sl_chosen (select ex_registry (available_snapshot ex_wallets) []
       (ex_request True) (rc_max_candidates ex_config))). prices_back (rq_amount (ex_request True)) c)"
    by (simp_all add: ex_request_def u256_max_def)
  from routed_plan_keeps_bounds [OF ex_routable(1) ex_keep rest ex_route]
  show ?thesis using exact by simp
qed

section \<open>What a split promises the makers\<close>

text \<open>
  C16. A split over venues on closed-form curves, each with a cap between one and its maker's wallet and one
  wallet per maker, never asks a strategy for more than its frozen cap nor a maker, over all its
  strategies, for more than the shared wallet; exact-in never spends more than the request and
  exact-out delivers exactly the request. For exact-out every venue that quotes the input for the
  whole target can also quote that input forwards; the amount is a 256-bit word and a warm start is
  not negative.
\<close>

theorem split_within_caps_and_wallets:
  assumes "venues_ok cs" "rq_amount request \<le> u256_max" "0 \<le> unwrap_or 0 warm"
    and "rq_exact_in request \<or> (\<forall>c \<in> set cs. prices_back (rq_amount request) c)"
    and "solve cs request warm = Some s"
  shows "(\<forall>l \<in> set (sp_legs s). \<exists>c \<in> set cs. leg_of c l \<and> 0 < rl_amount_in l \<and> 0 < rl_amount_out l \<and>
        rl_amount_out l \<le> cd_cap_out c) \<and>
     (\<forall>c \<in> set cs. leg_total (\<lambda>l. rl_maker l = sk_maker (cd_key c)) (sp_legs s) \<le> cd_wallet_cap c) \<and>
     (if rq_exact_in request then sp_amount_in s \<le> rq_amount request
      else sp_amount_out s = rq_amount request)"
proof -
  have "\<forall>c \<in> set cs. closed_curve c" using assms(1) by (simp add: venues_ok_def venue_ok_def)
  then show ?thesis
    using solve_legs_ok [OF assms] exact_in_total [OF assms(1-3) _ assms(5)] exact_out_total [OF _ assms(2,3) _ assms(5)]
    by (simp add: legs_ok_def)
qed

theorem split_within_caps_and_wallets_witness:
  "solve [ex_candidate] (ex_request False) None = Some (ex_split 0) \<and> sp_amount_out (ex_split 0) = 1 \<and>
   leg_total (\<lambda>l. rl_maker l = 1) (sp_legs (ex_split 0)) \<le> 800"
proof -
  have other: "\<not> rq_exact_in (ex_request False)" "rq_amount (ex_request False) = 1" by (simp_all add: ex_request_def)
  have rest: "rq_amount (ex_request False) \<le> u256_max" "0 \<le> unwrap_or 0 (None :: ratio option)"
    "rq_exact_in (ex_request False) \<or> (\<forall>c \<in> set [ex_candidate]. prices_back (rq_amount (ex_request False)) c)"
    using ex_quotes by (simp_all add: ex_request_def u256_max_def prices_back_def)
  have "sk_maker (cd_key ex_candidate) = 1" "cd_wallet_cap ex_candidate = 800" by (simp_all add: ex_candidate_def)
  with split_within_caps_and_wallets [OF ex_venue rest ex_solve_out] ex_solve_out show ?thesis
    using other by simp
qed

section \<open>What the sparsity pass keeps\<close>

lemma no_worse_refl: "is_no_worse k s s cost"
  by (cases k) simp_all

lemma no_worse_trans: "is_no_worse k s t cost \<Longrightarrow> is_no_worse k t u cost \<Longrightarrow> is_no_worse k s u cost"
  by (cases k) simp_all

lemma length_map_filter_le: "length (List.map_filter f xs) \<le> length xs"
  by (induction xs) (auto simp: map_filter_simps split: option.split)

lemma solve_leg_count:
  assumes "solve cs request warm = Some s"
  shows "length (sp_legs s) \<le> length cs"
proof -
  obtain am kind lvl where "build cs am kind lvl = Some s" using solve_built [OF assms] by blast
  then show ?thesis using build_spec(1) length_map_filter_le [of "made_leg kind" "zip cs am"] by fastforce
qed

lemma sparse_loop_improves:
  assumes "length active \<le> max_legs" "solve active request w = Some best"
    and "sparse_loop request cost max_legs active best = Some s"
  shows "is_no_worse (kind_from_request request) s best cost"
  using assms
proof (induction request cost max_legs active best arbitrary: w rule: sparse_loop.induct)
  case (1 request cost max_legs active best)
  show ?case
  proof (cases "s = best")
    case True
    then show ?thesis by (simp add: no_worse_refl)
  next
    case False
    then obtain worst pos nxt where step: "\<not> length (sp_legs best) \<le> 1"
      "min_by_key (\<lambda>l. (rl_amount_out l, rl_hash l)) (sp_legs best) = Some worst"
      "position (\<lambda>c. sk_hash (cd_key c) = rl_hash worst) active = Some pos"
      "solve (swap_remove pos active) request (Some (sp_lambda best)) = Some nxt"
      "length (sp_legs best) > max_legs \<or> is_no_worse (kind_from_request request) nxt best cost"
      "sparse_loop request cost max_legs (swap_remove pos active) nxt = Some s"
      using 1(4) by (subst (asm) sparse_loop.simps) (auto simp: Let_def split: if_splits option.splits)
    have "length (sp_legs best) \<le> max_legs" using solve_leg_count [OF 1(3)] 1(2) by simp
    with step(5) have now: "is_no_worse (kind_from_request request) nxt best cost" by simp
    have "length (swap_remove pos active) \<le> max_legs" using 1(2) by simp
    from 1(1) [OF step(1) refl step(2,3) refl step(4,5) this step(4,6)] now show ?thesis by (rule no_worse_trans)
  qed
qed

text \<open>
  C17. The sparsity pass always returns and never turns a fillable request away: it declines exactly when
  the plain solve does. While the leg limit cannot be exceeded, what it returns is never worse for
  the resolver, gas included, than the plain split.
\<close>

theorem sparse_pass_never_declines:
  "(solve_sparse cs request cost max_legs warm = None \<longleftrightarrow> solve cs request warm = None) \<and>
   (length cs \<le> max_legs \<longrightarrow> solve cs request warm = Some s0 \<longrightarrow>
      solve_sparse cs request cost max_legs warm = Some s \<longrightarrow>
      is_no_worse (kind_from_request request) s s0 cost)"
  using sparse_loop_improves [of cs max_legs request warm s0 cost s] sparse_loop_returns [of request cost max_legs cs]
  by (auto simp: solve_sparse_def split: option.split)

theorem sparse_pass_never_declines_witness:
  "is_no_worse (kind_from_request (ex_request True)) (ex_split 4) (ex_split 4) 3"
  using sparse_pass_never_declines [of "[ex_candidate]" "ex_request True" 3 4 None "ex_split 4" "ex_split 4"]
    ex_solve_in ex_sparse [OF ex_solve_in, of 3 4] by simp

end
