(* ===== verification/Trade_Store.thy ===== *)
theory Trade_Store
  imports Effects Ledger_Store "HOL-Library.List_Lexorder" "HOL-Library.Char_ord"
begin

text \<open>
  The durable trade lifecycle: the status ladder and the records of a trade
  (core/src/primitives/trade.rs), the values of the store port (core/src/deps/trade.rs) and the
  SQLite adapter behind it (adapters/src/trade/sqlite_store.rs, migrations 0003 and 0007).

  The database is its three tables and a schedule of faults. One port call that writes is one
  transaction: it consumes one entry of the schedule and, when the entry says so, fails; a failed
  transaction leaves the tables as they were. A read consumes one entry per statement. Amount, hash
  and address columns hold the value they encode; \<open>status\<close> is the text the code writes and parses. A
  trade id is the number its ULID text spells (the text order is the number order). USD prices are
  \<open>f64\<close> bit patterns that are only stored and read; the price impact keeps its integer basis points.
\<close>

section \<open>Status ladder\<close>

type_synonym trade_id = nat
type_synonym f64_bits = nat

datatype trade_status =
    TsCreated | TsQuoted | TsReserved | TsSimulated | TsSubmitted | TsConfirmed | TsDeclined | TsFailed

fun status_as_str :: "trade_status \<Rightarrow> string" where
  "status_as_str TsCreated = ''created''"
| "status_as_str TsQuoted = ''quoted''"
| "status_as_str TsReserved = ''reserved''"
| "status_as_str TsSimulated = ''simulated''"
| "status_as_str TsSubmitted = ''submitted''"
| "status_as_str TsConfirmed = ''confirmed''"
| "status_as_str TsDeclined = ''declined''"
| "status_as_str TsFailed = ''failed''"

fun status_rank :: "trade_status \<Rightarrow> nat" where
  "status_rank TsCreated = 0"
| "status_rank TsQuoted = 1"
| "status_rank TsReserved = 2"
| "status_rank TsSimulated = 3"
| "status_rank TsSubmitted = 4"
| "status_rank TsConfirmed = 5"
| "status_rank TsDeclined = 6"
| "status_rank TsFailed = 7"

definition status_from_str :: "string \<Rightarrow> trade_status option" where
  "status_from_str s =
     (if s = ''created'' then Some TsCreated
      else if s = ''quoted'' then Some TsQuoted
      else if s = ''reserved'' then Some TsReserved
      else if s = ''simulated'' then Some TsSimulated
      else if s = ''submitted'' then Some TsSubmitted
      else if s = ''confirmed'' then Some TsConfirmed
      else if s = ''declined'' then Some TsDeclined
      else if s = ''failed'' then Some TsFailed
      else None)"

section \<open>Trades, legs, attempts\<close>

record trade =
  t_id :: trade_id
  t_order_hash :: intent_id
  t_taker :: address
  t_token_in :: address
  t_token_out :: address
  t_amount_in :: u256
  t_min_amount_out :: u256
  t_amount_out :: "u256 option"
  t_status :: trade_status
  t_deadline_block :: u64
  t_signature :: "nat list option"
  t_price_impact_bps :: "u64 option"
  t_surplus :: "u256 option"
  t_tx_hash :: "b256 option"
  t_block_number :: "u64 option"
  t_created_at :: u64
  t_settled_at :: "u64 option"
  t_token_in_price_usd :: "f64_bits option"
  t_token_out_price_usd :: "f64_bits option"

record trade_leg =
  tl_maker :: maker_id
  tl_strategy_hash :: strategy_hash
  tl_amount_in :: u256
  tl_amount_out :: u256

record trade_attempt =
  ta_status :: trade_status
  ta_at :: u64

record trade_info =
  ti_trade :: trade
  ti_attempts :: "trade_attempt list"
  ti_legs :: "trade_leg list"

record settlement =
  stl_status :: trade_status
  stl_amount_out :: "u256 option"
  stl_tx_hash :: "b256 option"
  stl_block_number :: "u64 option"
  stl_at :: u64

record create_result =
  cr_id :: trade_id
  cr_created :: bool

datatype trade_error = TradeDb

section \<open>Tables\<close>

record trade_row =
  tw_order_hash :: intent_id
  tw_taker :: address
  tw_token_in :: address
  tw_token_out :: address
  tw_amount_in :: u256
  tw_min_amount_out :: u256
  tw_amount_out :: "u256 option"
  tw_status :: string
  tw_status_rank :: nat
  tw_deadline_block :: u64
  tw_signature :: "nat list option"
  tw_price_impact_bps :: "u64 option"
  tw_surplus :: "u256 option"
  tw_tx_hash :: "b256 option"
  tw_block_number :: "u64 option"
  tw_created_at :: u64
  tw_settled_at :: "u64 option"
  tw_token_in_price_usd :: "f64_bits option"
  tw_token_out_price_usd :: "f64_bits option"

record trade_tables =
  tt_trades :: "(trade_id, trade_row) bmap"
  tt_attempts :: "((trade_id \<times> string) \<times> u64) list"
  tt_legs :: "((trade_id \<times> nat) \<times> trade_leg) list"

record trade_db =
  td_tables :: trade_tables
  td_faults :: "bool list"

type_synonym 'a trade_call = "(trade_db, trade_error, 'a) eff"

definition trade_tx :: "(trade_tables \<Rightarrow> trade_error + 'a \<times> trade_tables) \<Rightarrow> 'a trade_call" where
  "trade_tx f db =
     (case td_faults db of
        True # fs \<Rightarrow> (Inl TradeDb, db\<lparr>td_faults := fs\<rparr>)
      | _ \<Rightarrow> (case f (td_tables db) of
               Inl e \<Rightarrow> (Inl e, db\<lparr>td_faults := tl (td_faults db)\<rparr>)
             | Inr (x, ts) \<Rightarrow> (Inr x, db\<lparr>td_tables := ts, td_faults := tl (td_faults db)\<rparr>)))"

definition trade_i64 :: "u64 \<Rightarrow> trade_error + nat" where
  "trade_i64 v = (if v \<le> i64_max then Inr v else Inl TradeDb)"

definition opt_i64 :: "u64 option \<Rightarrow> trade_error + nat option" where
  "opt_i64 v = (case v of None \<Rightarrow> Inr None | Some x \<Rightarrow> rbind (trade_i64 x) (\<lambda>y. Inr (Some y)))"

definition parse_status :: "string \<Rightarrow> trade_error + trade_status" where
  "parse_status s = ok_or TradeDb (status_from_str s)"

definition row_to_trade :: "trade_id \<Rightarrow> trade_row \<Rightarrow> trade_error + trade" where
  "row_to_trade i row =
     rbind (parse_status (tw_status row)) (\<lambda>st.
       Inr \<lparr>t_id = i, t_order_hash = tw_order_hash row, t_taker = tw_taker row,
            t_token_in = tw_token_in row, t_token_out = tw_token_out row,
            t_amount_in = tw_amount_in row, t_min_amount_out = tw_min_amount_out row,
            t_amount_out = tw_amount_out row, t_status = st,
            t_deadline_block = tw_deadline_block row, t_signature = tw_signature row,
            t_price_impact_bps = tw_price_impact_bps row, t_surplus = tw_surplus row,
            t_tx_hash = tw_tx_hash row, t_block_number = tw_block_number row,
            t_created_at = tw_created_at row, t_settled_at = tw_settled_at row,
            t_token_in_price_usd = tw_token_in_price_usd row,
            t_token_out_price_usd = tw_token_out_price_usd row\<rparr>)"

definition row_to_attempt :: "(trade_id \<times> string) \<times> u64 \<Rightarrow> trade_error + trade_attempt" where
  "row_to_attempt r =
     rbind (parse_status (snd (fst r))) (\<lambda>st. Inr \<lparr>ta_status = st, ta_at = snd r\<rparr>)"

text \<open>
  \<open>INSERT INTO trade ... ON CONFLICT (order_hash) DO NOTHING\<close>: an order already on record inserts
  nothing, a taken id is a constraint failure.
\<close>

definition order_row :: "intent_id \<Rightarrow> trade_tables \<Rightarrow> (trade_id \<times> trade_row) option" where
  "order_row h ts = find (\<lambda>(i, row). tw_order_hash row = h) (tt_trades ts)"

definition insert_trade :: "trade \<Rightarrow> trade_tables \<Rightarrow> trade_error + bool \<times> trade_tables" where
  "insert_trade t ts =
     rbind (trade_i64 (t_deadline_block t)) (\<lambda>deadline.
     rbind (opt_i64 (t_block_number t)) (\<lambda>block.
     rbind (trade_i64 (t_created_at t)) (\<lambda>created.
     rbind (opt_i64 (t_settled_at t)) (\<lambda>settled.
       case order_row (t_order_hash t) ts of
         Some _ \<Rightarrow> Inr (False, ts)
       | None \<Rightarrow>
           if bm_contains (tt_trades ts) (t_id t) then Inl TradeDb
           else Inr (True, ts\<lparr>tt_trades := bm_insert (t_id t)
             \<lparr>tw_order_hash = t_order_hash t, tw_taker = t_taker t, tw_token_in = t_token_in t,
              tw_token_out = t_token_out t, tw_amount_in = t_amount_in t,
              tw_min_amount_out = t_min_amount_out t, tw_amount_out = t_amount_out t,
              tw_status = status_as_str (t_status t), tw_status_rank = status_rank (t_status t),
              tw_deadline_block = deadline, tw_signature = t_signature t,
              tw_price_impact_bps = t_price_impact_bps t, tw_surplus = t_surplus t,
              tw_tx_hash = t_tx_hash t, tw_block_number = block, tw_created_at = created,
              tw_settled_at = settled, tw_token_in_price_usd = t_token_in_price_usd t,
              tw_token_out_price_usd = t_token_out_price_usd t\<rparr> (tt_trades ts)\<rparr>)))))"

definition insert_leg :: "trade_id \<Rightarrow> nat \<Rightarrow> trade_leg \<Rightarrow> trade_tables \<Rightarrow> trade_error + trade_tables" where
  "insert_leg i idx leg ts =
     (if (i, idx) \<in> fst ` set (tt_legs ts) \<or> \<not> bm_contains (tt_trades ts) i then Inl TradeDb
      else Inr (ts\<lparr>tt_legs := tt_legs ts @ [((i, idx), leg)]\<rparr>))"

text \<open>A stage already recorded is left as it is; the trade must exist (the foreign key).\<close>

definition insert_attempt ::
  "trade_id \<Rightarrow> trade_status \<Rightarrow> u64 \<Rightarrow> trade_tables \<Rightarrow> trade_error + trade_tables" where
  "insert_attempt i st at_time ts =
     rbind (trade_i64 at_time) (\<lambda>t.
       if (i, status_as_str st) \<in> fst ` set (tt_attempts ts) then Inr ts
       else if \<not> bm_contains (tt_trades ts) i then Inl TradeDb
       else Inr (ts\<lparr>tt_attempts := tt_attempts ts @ [((i, status_as_str st), t)]\<rparr>))"

definition existing_trade_id :: "intent_id \<Rightarrow> trade_tables \<Rightarrow> trade_error + trade_id" where
  "existing_trade_id h ts = ok_or TradeDb (map_option fst (order_row h ts))"

section \<open>The port's operations\<close>

definition trade_create ::
  "trade \<Rightarrow> trade_leg list \<Rightarrow> trade_attempt list \<Rightarrow> create_result trade_call" where
  "trade_create t legs attempts =
     trade_tx (\<lambda>ts.
       rbind (insert_trade t ts) (\<lambda>(created, ts1).
         if created then
           rbind (try_fold (\<lambda>ts (idx, leg). insert_leg (t_id t) idx leg ts) ts1 (enumerate 0 legs)) (\<lambda>ts2.
           rbind (try_fold (\<lambda>ts a. insert_attempt (t_id t) (ta_status a) (ta_at a) ts) ts2 attempts) (\<lambda>ts3.
             Inr (\<lparr>cr_id = t_id t, cr_created = True\<rparr>, ts3)))
         else
           rbind (existing_trade_id (t_order_hash t) ts1) (\<lambda>i.
             Inr (\<lparr>cr_id = i, cr_created = False\<rparr>, ts1))))"

definition update_trade ::
  "(trade_row \<Rightarrow> bool) \<Rightarrow> (trade_row \<Rightarrow> trade_row) \<Rightarrow> trade_id \<Rightarrow> trade_tables \<Rightarrow> trade_tables" where
  "update_trade cond f i ts =
     (case bm_get (tt_trades ts) i of
        None \<Rightarrow> ts
      | Some row \<Rightarrow> if cond row then ts\<lparr>tt_trades := bm_insert i (f row) (tt_trades ts)\<rparr> else ts)"

definition trade_advance :: "trade_id \<Rightarrow> trade_status \<Rightarrow> u64 \<Rightarrow> unit trade_call" where
  "trade_advance i st at_time =
     trade_tx (\<lambda>ts.
       let ts1 = update_trade (\<lambda>row. tw_status_rank row < status_rank st \<and> tw_settled_at row = None)
                   (\<lambda>row. row\<lparr>tw_status := status_as_str st, tw_status_rank := status_rank st\<rparr>) i ts
       in rbind (insert_attempt i st at_time ts1) (\<lambda>ts2. Inr ((), ts2)))"

definition trade_settle :: "trade_id \<Rightarrow> settlement \<Rightarrow> unit trade_call" where
  "trade_settle i outcome =
     trade_tx (\<lambda>ts.
       rbind (opt_i64 (stl_block_number outcome)) (\<lambda>block.
       rbind (trade_i64 (stl_at outcome)) (\<lambda>settled.
         let ts1 = update_trade (\<lambda>row. tw_settled_at row = None)
                     (\<lambda>row. row\<lparr>tw_status := status_as_str (stl_status outcome),
                                tw_status_rank := status_rank (stl_status outcome),
                                tw_amount_out := stl_amount_out outcome,
                                tw_tx_hash := stl_tx_hash outcome,
                                tw_block_number := block, tw_settled_at := Some settled\<rparr>) i ts
         in rbind (insert_attempt i (stl_status outcome) (stl_at outcome) ts1) (\<lambda>ts2. Inr ((), ts2)))))"

definition trade_read :: "(trade_tables \<Rightarrow> trade_error + 'a) \<Rightarrow> 'a trade_call" where
  "trade_read f = trade_tx (\<lambda>ts. rbind (f ts) (\<lambda>x. Inr (x, ts)))"

definition find_by_order :: "intent_id \<Rightarrow> trade option trade_call" where
  "find_by_order h =
     trade_read (\<lambda>ts. case order_row h ts of
                        None \<Rightarrow> Inr None
                      | Some (i, row) \<Rightarrow> rbind (row_to_trade i row) (\<lambda>t. Inr (Some t)))"

definition store_info :: "trade_id \<Rightarrow> trade_info option trade_call" where
  "store_info i =
     ebind (trade_read (\<lambda>ts. Inr (bm_get (tt_trades ts) i))) (\<lambda>found.
       case found of
         None \<Rightarrow> eok None
       | Some row \<Rightarrow>
           ebind (trade_read (\<lambda>ts. collect (map row_to_attempt
             (sort_key (\<lambda>((_, st), t). (t, st)) (filter (\<lambda>((j, _), _). j = i) (tt_attempts ts)))))) (\<lambda>attempts.
           ebind (trade_read (\<lambda>ts. Inr (map snd
             (sort_key (\<lambda>((_, idx), _). idx) (filter (\<lambda>((j, _), _). j = i) (tt_legs ts)))))) (\<lambda>legs.
           ebind (eres (row_to_trade i row)) (\<lambda>t.
             eok (Some \<lparr>ti_trade = t, ti_attempts = attempts, ti_legs = legs\<rparr>)))))"

section \<open>Listings\<close>

record trade_filter =
  tf_status :: "trade_status option"
  tf_taker :: "address option"
  tf_pair :: "(address \<times> address) option"
  tf_strategy_hash :: "strategy_hash option"

record page =
  pg_limit :: nat
  pg_cursor :: "trade_id option"

definition before_cursor :: "page \<Rightarrow> trade_id \<Rightarrow> bool" where
  "before_cursor p i = (case pg_cursor p of None \<Rightarrow> True | Some c \<Rightarrow> i < c)"

definition row_matches :: "trade_filter \<Rightarrow> trade_tables \<Rightarrow> trade_id \<Rightarrow> trade_row \<Rightarrow> bool" where
  "row_matches f ts i row \<longleftrightarrow>
     (case tf_status f of None \<Rightarrow> True | Some st \<Rightarrow> tw_status row = status_as_str st) \<and>
     (case tf_taker f of None \<Rightarrow> True | Some a \<Rightarrow> tw_taker row = a) \<and>
     (case tf_pair f of
        None \<Rightarrow> True
      | Some (a, b) \<Rightarrow> tw_token_in row = a \<and> tw_token_out row = b \<or>
                       tw_token_in row = b \<and> tw_token_out row = a) \<and>
     (case tf_strategy_hash f of
        None \<Rightarrow> True
      | Some h \<Rightarrow> list_ex (\<lambda>((j, _), leg). j = i \<and> tl_strategy_hash leg = h) (tt_legs ts))"

text \<open>\<open>ORDER BY id DESC LIMIT n\<close>: the table is kept in id order.\<close>

definition trade_list :: "trade_filter \<Rightarrow> page \<Rightarrow> trade list trade_call" where
  "trade_list f p =
     trade_read (\<lambda>ts.
       collect (map (\<lambda>(i, row). row_to_trade i row)
         (take (pg_limit p)
           (rev (filter (\<lambda>(i, row). row_matches f ts i row \<and> before_cursor p i) (tt_trades ts))))))"

record maker_fill =
  mf_trade :: trade
  mf_amount_in :: u256
  mf_amount_out :: u256

definition in_window :: "(u64 \<times> u64) option \<Rightarrow> trade_row \<Rightarrow> bool" where
  "in_window w row =
     (case w of
        None \<Rightarrow> True
      | Some (start, finish) \<Rightarrow>
          tw_status row = ''confirmed'' \<and>
          (case tw_settled_at row of None \<Rightarrow> False | Some s \<Rightarrow> start \<le> s \<and> s < finish))"

definition maker_legs :: "maker_id \<Rightarrow> trade_id \<Rightarrow> trade_tables \<Rightarrow> trade_leg list" where
  "maker_legs m i ts =
     map snd (sort_key (\<lambda>((_, idx), _). idx)
       (filter (\<lambda>((j, _), leg). j = i \<and> tl_maker leg = m) (tt_legs ts)))"

text \<open>One row of the join per leg; a leg of the trade last pushed is added to it.\<close>

fun add_fill ::
  "maker_fill list \<Rightarrow> trade_id \<times> trade_row \<times> trade_leg \<Rightarrow> trade_error + maker_fill list" where
  "add_fill fills (i, row, leg) =
     (if fills \<noteq> [] \<and> t_id (mf_trade (last fills)) = i then
        rbind (ok_or TradeDb (checked_add (mf_amount_in (last fills)) (tl_amount_in leg))) (\<lambda>a.
        rbind (ok_or TradeDb (checked_add (mf_amount_out (last fills)) (tl_amount_out leg))) (\<lambda>b.
          Inr (butlast fills @ [(last fills)\<lparr>mf_amount_in := a, mf_amount_out := b\<rparr>])))
      else
        rbind (row_to_trade i row) (\<lambda>t.
          Inr (fills @ [\<lparr>mf_trade = t, mf_amount_in = tl_amount_in leg, mf_amount_out = tl_amount_out leg\<rparr>])))"

definition maker_page ::
  "maker_id \<Rightarrow> page \<Rightarrow> (u64 \<times> u64) option \<Rightarrow> trade_tables \<Rightarrow> (trade_id \<times> trade_row) list" where
  "maker_page m p window ts =
     take (pg_limit p)
       (rev (filter (\<lambda>(i, row). maker_legs m i ts \<noteq> [] \<and> in_window window row \<and> before_cursor p i)
         (tt_trades ts)))"

definition list_for_maker ::
  "maker_id \<Rightarrow> page \<Rightarrow> (u64 \<times> u64) option \<Rightarrow> maker_fill list trade_call" where
  "list_for_maker m p window =
     ebind (eres (case window of
                    None \<Rightarrow> Inr ()
                  | Some (start, finish) \<Rightarrow> rbind (trade_i64 start) (\<lambda>_. rbind (trade_i64 finish) (\<lambda>_. Inr ())))) (\<lambda>_.
       trade_read (\<lambda>ts.
         try_fold add_fill []
           (concat (map (\<lambda>(i, row). map (\<lambda>leg. (i, row, leg)) (maker_legs m i ts))
             (maker_page m p window ts)))))"

record trade_stats =
  st_settled :: nat
  st_confirmed :: nat
  st_failed :: nat

definition count_rows :: "(trade_row \<Rightarrow> bool) \<Rightarrow> trade_tables \<Rightarrow> nat" where
  "count_rows P ts = length (filter (\<lambda>(_, row). P row) (tt_trades ts))"

definition trade_stats_counts :: "trade_stats trade_call" where
  "trade_stats_counts =
     trade_read (\<lambda>ts. Inr
       \<lparr>st_settled = count_rows (\<lambda>row. tw_settled_at row \<noteq> None) ts,
        st_confirmed = count_rows (\<lambda>row. tw_status row = ''confirmed'') ts,
        st_failed = count_rows (\<lambda>row. tw_status row = ''failed'') ts\<rparr>)"

end
