(* ===== verification/Trade_Laws.thy ===== *)
theory Trade_Laws
  imports Trade_Store
begin

text \<open>
  What the trade store promises its clients. Abstractly the store is a partial map from trade ids to
  trade headers with at most one trade per signed order; \<open>advanced\<close> and \<open>settled_with\<close> are the two
  moves of a header. The locale \<open>trade_store\<close> states the contract of the port, its lemmas show that
  every call lets each trade only progress (never backwards, never after its settlement), and the
  interpretation discharges the contract for the SQLite adapter.
\<close>

section \<open>The contract\<close>

record 's trade_ops =
  to_create :: "trade \<Rightarrow> trade_leg list \<Rightarrow> trade_attempt list \<Rightarrow> ('s, trade_error, create_result) eff"
  to_advance :: "trade_id \<Rightarrow> trade_status \<Rightarrow> u64 \<Rightarrow> ('s, trade_error, unit) eff"
  to_settle :: "trade_id \<Rightarrow> settlement \<Rightarrow> ('s, trade_error, unit) eff"
  to_info :: "trade_id \<Rightarrow> ('s, trade_error, trade_info option) eff"
  to_find_by_order :: "intent_id \<Rightarrow> ('s, trade_error, trade option) eff"

type_synonym trade_view = "trade_id \<Rightarrow> trade option"

definition advanced :: "trade_status \<Rightarrow> trade \<Rightarrow> trade" where
  "advanced st t =
     (if status_rank (t_status t) < status_rank st \<and> t_settled_at t = None then t\<lparr>t_status := st\<rparr> else t)"

definition settled_with :: "settlement \<Rightarrow> trade \<Rightarrow> trade" where
  "settled_with s t =
     (if t_settled_at t = None then
        t\<lparr>t_status := stl_status s, t_amount_out := stl_amount_out s, t_tx_hash := stl_tx_hash s,
          t_block_number := stl_block_number s, t_settled_at := Some (stl_at s)\<rparr>
      else t)"

definition on_trade :: "(trade \<Rightarrow> trade) \<Rightarrow> trade_id \<Rightarrow> trade_view \<Rightarrow> trade_view" where
  "on_trade f i v = v(i := map_option f (v i))"

definition one_per_order :: "trade_view \<Rightarrow> bool" where
  "one_per_order v \<longleftrightarrow>
     (\<forall>i t. v i = Some t \<longrightarrow> t_id t = i) \<and>
     (\<forall>i j t u. v i = Some t \<longrightarrow> v j = Some u \<longrightarrow> t_order_hash t = t_order_hash u \<longrightarrow> i = j)"

locale trade_store =
  fixes ops :: "'s trade_ops"
    and view :: "'s \<Rightarrow> trade_view"
    and store_wf :: "'s \<Rightarrow> bool"
  assumes wf_orders: "store_wf s \<Longrightarrow> one_per_order (view s)"
    and create_spec:
      "store_wf s \<Longrightarrow> to_create ops t ls as s = (cres, s') \<Longrightarrow>
         store_wf s' \<and>
         (case cres of
            Inl _ \<Rightarrow> view s' = view s
          | Inr c \<Rightarrow>
              if cr_created c then
                cr_id c = t_id t \<and> view s (t_id t) = None \<and> view s' = (view s)(t_id t \<mapsto> t) \<and>
                (\<forall>i u. view s i = Some u \<longrightarrow> t_order_hash u \<noteq> t_order_hash t)
              else view s' = view s \<and>
                   (\<exists>u. view s (cr_id c) = Some u \<and> t_order_hash u = t_order_hash t))"
    and advance_spec:
      "store_wf s \<Longrightarrow> to_advance ops i st tm s = (res, s') \<Longrightarrow>
         store_wf s' \<and> view s' = (if isl res then view s else on_trade (advanced st) i (view s))"
    and settle_spec:
      "store_wf s \<Longrightarrow> to_settle ops i o' s = (res, s') \<Longrightarrow>
         store_wf s' \<and> view s' = (if isl res then view s else on_trade (settled_with o') i (view s))"
    and info_spec:
      "store_wf s \<Longrightarrow> to_info ops i s = (ires, s') \<Longrightarrow>
         store_wf s' \<and> view s' = view s \<and>
         (case ires of Inl _ \<Rightarrow> True | Inr x \<Rightarrow> map_option ti_trade x = view s i)"
    and find_spec:
      "store_wf s \<Longrightarrow> to_find_by_order ops h s = (fres, s') \<Longrightarrow>
         store_wf s' \<and> view s' = view s \<and>
         (case fres of
            Inl _ \<Rightarrow> True
          | Inr None \<Rightarrow> \<forall>i u. view s i = Some u \<longrightarrow> t_order_hash u \<noteq> h
          | Inr (Some u) \<Rightarrow> view s (t_id u) = Some u \<and> t_order_hash u = h)"

section \<open>Progress\<close>

text \<open>
  The order of a trade never changes; a settled trade never changes at all; an open one climbs the
  ladder or is settled.
\<close>

definition same_order :: "trade \<Rightarrow> trade \<Rightarrow> bool" where
  "same_order t u \<longleftrightarrow>
     u = t\<lparr>t_status := t_status u, t_amount_out := t_amount_out u, t_tx_hash := t_tx_hash u,
           t_block_number := t_block_number u, t_settled_at := t_settled_at u\<rparr>"

definition progress :: "trade \<Rightarrow> trade \<Rightarrow> bool" where
  "progress t u \<longleftrightarrow>
     same_order t u \<and> (t_settled_at t \<noteq> None \<longrightarrow> u = t) \<and>
     (t_settled_at u = None \<longrightarrow> status_rank (t_status t) \<le> status_rank (t_status u))"

definition trades_evolve :: "trade_view \<Rightarrow> trade_view \<Rightarrow> bool" where
  "trades_evolve v w \<longleftrightarrow> (\<forall>i t. v i = Some t \<longrightarrow> (\<exists>u. w i = Some u \<and> progress t u))"

lemma same_order_fields:
  "same_order t u \<Longrightarrow> t_id u = t_id t \<and> t_order_hash u = t_order_hash t \<and>
     t_amount_in u = t_amount_in t \<and> t_min_amount_out u = t_min_amount_out t \<and> t_taker u = t_taker t"
  by (cases t, cases u) (simp add: same_order_def)

lemma same_order_trans: "same_order t u \<Longrightarrow> same_order u w \<Longrightarrow> same_order t w"
  by (cases t, cases u, cases w) (simp add: same_order_def)

lemma progress_refl [simp]: "progress t t"
  by (simp add: progress_def same_order_def)

lemma progress_trans: "progress t u \<Longrightarrow> progress u w \<Longrightarrow> progress t w"
  using same_order_trans [of t u w] by (cases "t_settled_at u") (auto simp: progress_def)

lemma progress_moves: "progress t (advanced st t)" "progress t (settled_with s t)"
  by (auto simp: progress_def same_order_def advanced_def settled_with_def)

lemma trades_evolve_refl [simp]: "trades_evolve v v"
  by (simp add: trades_evolve_def)

lemma trades_evolve_trans: "trades_evolve v w \<Longrightarrow> trades_evolve w x \<Longrightarrow> trades_evolve v x"
  unfolding trades_evolve_def by (meson progress_trans)

lemma trades_evolve_on_trade: "(\<And>t. progress t (f t)) \<Longrightarrow> trades_evolve v (on_trade f i v)"
  by (auto simp: trades_evolve_def on_trade_def)

lemma trades_evolve_insert: "v i = None \<Longrightarrow> trades_evolve v (v(i \<mapsto> t))"
  by (auto simp: trades_evolve_def)

lemma on_trade_same [simp]: "on_trade f i v i = map_option f (v i)"
  by (simp add: on_trade_def)

text \<open>Every call keeps the store well formed and lets each trade only progress.\<close>

context trade_store
begin

abbreviation kept :: "trade_view \<Rightarrow> 's \<Rightarrow> bool" where
  "kept v s \<equiv> store_wf s \<and> trades_evolve v (view s)"

lemma kept_create: "kept v s \<Longrightarrow> to_create ops t ls as s = (res, s') \<Longrightarrow> kept v s'"
  using create_spec [of s t ls as res s'] trades_evolve_trans trades_evolve_insert
  by (fastforce split: sum.splits if_splits)

lemma kept_advance: "kept v s \<Longrightarrow> to_advance ops i st tm s = (res, s') \<Longrightarrow> kept v s'"
  using advance_spec [of s i st tm res s'] trades_evolve_trans trades_evolve_on_trade progress_moves
  by (fastforce split: if_splits)

lemma kept_settle: "kept v s \<Longrightarrow> to_settle ops i o' s = (res, s') \<Longrightarrow> kept v s'"
  using settle_spec [of s i o' res s'] trades_evolve_trans trades_evolve_on_trade progress_moves
  by (fastforce split: if_splits)

lemma kept_info: "kept v s \<Longrightarrow> to_info ops i s = (ires, s') \<Longrightarrow> kept v s'"
  using info_spec [of s i ires s'] by simp

lemma kept_find: "kept v s \<Longrightarrow> to_find_by_order ops h s = (fres, s') \<Longrightarrow> kept v s'"
  using find_spec [of s h fres s'] by simp

end

section \<open>The SQLite adapter\<close>

definition sqlite_trade_ops :: "trade_db trade_ops" where
  "sqlite_trade_ops =
     \<lparr>to_create = trade_create, to_advance = trade_advance, to_settle = trade_settle,
      to_info = store_info, to_find_by_order = find_by_order\<rparr>"

definition tables_view :: "trade_tables \<Rightarrow> trade_view" where
  "tables_view ts i = Option.bind (bm_get (tt_trades ts) i) (\<lambda>row. to_option (row_to_trade i row))"

definition row_status_ok :: "trade_row \<Rightarrow> bool" where
  "row_status_ok row \<longleftrightarrow> (\<exists>st. tw_status row = status_as_str st \<and> tw_status_rank row = status_rank st)"

definition trades_wf :: "(trade_id, trade_row) bmap \<Rightarrow> bool" where
  "trades_wf m \<longleftrightarrow>
     bm_wf m \<and> (\<forall>i row. bm_get m i = Some row \<longrightarrow> row_status_ok row) \<and>
     (\<forall>i j r q. bm_get m i = Some r \<longrightarrow> bm_get m j = Some q \<longrightarrow> tw_order_hash r = tw_order_hash q \<longrightarrow> i = j)"

definition attempts_ok :: "((trade_id \<times> string) \<times> u64) list \<Rightarrow> bool" where
  "attempts_ok as \<longleftrightarrow> (\<forall>k \<in> set as. \<exists>st. snd (fst k) = status_as_str st)"

definition tables_wf :: "trade_tables \<Rightarrow> bool" where
  "tables_wf ts \<longleftrightarrow> trades_wf (tt_trades ts) \<and> attempts_ok (tt_attempts ts)"

definition sqlite_trade_view :: "trade_db \<Rightarrow> trade_view" where
  "sqlite_trade_view db = tables_view (td_tables db)"

definition trade_db_wf :: "trade_db \<Rightarrow> bool" where
  "trade_db_wf db \<longleftrightarrow> tables_wf (td_tables db)"

lemma status_from_as [simp]: "status_from_str (status_as_str st) = Some st"
  by (cases st) (simp_all add: status_from_str_def)

lemma status_from_Some: "status_from_str s = Some st \<Longrightarrow> s = status_as_str st"
  by (auto simp: status_from_str_def split: if_splits)

lemma parse_status_as [simp]: "parse_status (status_as_str st) = Inr st"
  by (simp add: parse_status_def)

lemma trade_tx_cases:
  assumes "trade_tx f db = (res, db')"
  obtains (fault) "res = Inl TradeDb" "td_tables db' = td_tables db"
    | (abort) e where "f (td_tables db) = Inl e" "res = Inl e" "td_tables db' = td_tables db"
    | (commit) x where "f (td_tables db) = Inr (x, td_tables db')" "res = Inr x"
proof (cases "\<exists>fs. td_faults db = True # fs")
  case True
  then show ?thesis using assms fault by (auto simp: trade_tx_def)
next
  case False
  then have "trade_tx f db = (case f (td_tables db) of
      Inl e \<Rightarrow> (Inl e, db\<lparr>td_faults := tl (td_faults db)\<rparr>)
    | Inr (x, ts) \<Rightarrow> (Inr x, db\<lparr>td_tables := ts, td_faults := tl (td_faults db)\<rparr>))"
    by (auto simp: trade_tx_def split: list.split bool.split)
  then show ?thesis
    using assms abort commit by (cases "f (td_tables db)") (auto split: prod.splits)
qed

lemma trade_read_cases:
  assumes "trade_read f db = (res, db')"
  obtains (fault) "res = Inl TradeDb" "td_tables db' = td_tables db"
    | (ran) "res = f (td_tables db)" "td_tables db' = td_tables db"
  using assms unfolding trade_read_def
proof (cases rule: trade_tx_cases)
  case fault
  then show ?thesis by (rule that(1))
next
  case (abort e)
  then have "f (td_tables db) = Inl e" unfolding rbind_Inl by simp
  then show ?thesis using abort by (intro that(2)) simp_all
next
  case (commit x)
  then have "f (td_tables db) = Inr x" "td_tables db' = td_tables db" unfolding rbind_Inr by auto
  then show ?thesis using commit(2) by (intro that(2)) simp_all
qed

lemma row_parses: "row_status_ok row \<Longrightarrow> \<exists>t. row_to_trade i row = Inr t"
  by (auto simp: row_status_ok_def row_to_trade_def)

lemma trades_wfD:
  assumes "trades_wf m"
  shows "bm_wf m" and "bm_get m i = Some row \<Longrightarrow> row_status_ok row"
    and "bm_get m i = Some r \<Longrightarrow> bm_get m j = Some q \<Longrightarrow> tw_order_hash r = tw_order_hash q \<Longrightarrow> i = j"
  using assms unfolding trades_wf_def by blast+

lemma trades_wf_insert:
  assumes wf: "trades_wf m" and "row_status_ok row"
    and "\<And>j q. bm_get m j = Some q \<Longrightarrow> tw_order_hash q = tw_order_hash row \<Longrightarrow> j = i"
  shows "trades_wf (bm_insert i row m)"
proof -
  have "bm_get (bm_insert i row m) j = Some q \<Longrightarrow> row_status_ok q" for j q
    using assms(2) trades_wfD(2) [OF wf] by (auto split: if_splits)
  moreover have "j = k" if "bm_get (bm_insert i row m) j = Some r" "bm_get (bm_insert i row m) k = Some q"
    "tw_order_hash r = tw_order_hash q" for j k r q
    using that assms(3) [of j r] assms(3) [of k q] trades_wfD(3) [OF wf, of j r k q] by (auto split: if_splits)
  ultimately show ?thesis using trades_wfD(1) [OF wf] unfolding trades_wf_def by blast
qed

lemma attempts_ok_append: "attempts_ok as \<Longrightarrow> attempts_ok (as @ [((i, status_as_str st), tm)])"
  unfolding attempts_ok_def by auto

lemma row_to_trade_Inr:
  "row_to_trade i row = Inr t \<Longrightarrow>
     t_id t = i \<and> t_order_hash t = tw_order_hash row \<and> t_settled_at t = tw_settled_at row \<and>
     status_as_str (t_status t) = tw_status row"
  by (auto simp: row_to_trade_def rbind_Inr parse_status_def dest: status_from_Some)

lemma tables_view_Some:
  "tables_view ts i = Some t \<longleftrightarrow> (\<exists>row. bm_get (tt_trades ts) i = Some row \<and> row_to_trade i row = Inr t)"
  by (auto simp: tables_view_def bind_eq_Some_conv)

lemma tables_view_row:
  assumes "tables_wf ts" "bm_get (tt_trades ts) i = Some row"
  shows "\<exists>t. row_to_trade i row = Inr t \<and> tables_view ts i = Some t"
proof -
  have "row_status_ok row" using assms trades_wfD(2) unfolding tables_wf_def by blast
  then show ?thesis using row_parses tables_view_Some assms(2) by blast
qed

lemma tables_view_None:
  "tables_wf ts \<Longrightarrow> tables_view ts i = None \<longleftrightarrow> bm_get (tt_trades ts) i = None"
  using tables_view_row [of ts i] by (cases "bm_get (tt_trades ts) i") (auto simp: tables_view_def)

lemma tables_orders: "tables_wf ts \<Longrightarrow> one_per_order (tables_view ts)"
  unfolding one_per_order_def tables_view_Some tables_wf_def by (metis row_to_trade_Inr trades_wfD(3))

lemma order_row_Some:
  "tables_wf ts \<Longrightarrow> order_row h ts = Some (i, row) \<Longrightarrow> bm_get (tt_trades ts) i = Some row \<and> tw_order_hash row = h"
  unfolding order_row_def tables_wf_def
  by (auto simp: find_Some_iff bm_get_iff [OF trades_wfD(1)] in_set_conv_nth)

lemma order_row_None:
  "tables_wf ts \<Longrightarrow> order_row h ts = None \<longleftrightarrow> (\<forall>i row. bm_get (tt_trades ts) i = Some row \<longrightarrow> tw_order_hash row \<noteq> h)"
  unfolding order_row_def tables_wf_def by (auto simp: find_None_iff bm_get_iff [OF trades_wfD(1)])

subsection \<open>Writes\<close>

lemma insert_attempt_Inr:
  assumes "insert_attempt i st tm ts = Inr ts'"
  shows "tt_trades ts' = tt_trades ts" and "tt_legs ts' = tt_legs ts" and "tables_wf ts \<Longrightarrow> tables_wf ts'"
    and "tables_view ts' = tables_view ts"
  using assms
  by (auto simp: insert_attempt_def rbind_Inr tables_wf_def tables_view_def trade_i64_def fun_eq_iff
      simp del: bm_contains_iff split: if_splits intro: attempts_ok_append)

lemma insert_leg_Inr:
  assumes "insert_leg i n leg ts = Inr ts'"
  shows "tt_trades ts' = tt_trades ts" and "tables_wf ts \<Longrightarrow> tables_wf ts'"
    and "tables_view ts' = tables_view ts"
  using assms by (auto simp: insert_leg_def tables_wf_def tables_view_def fun_eq_iff split: if_splits)

lemma try_fold_keeps:
  assumes "\<And>ts x ts'. f ts x = Inr ts' \<Longrightarrow> tables_view ts' = tables_view ts \<and> (tables_wf ts \<longrightarrow> tables_wf ts')"
    and "try_fold f ts xs = Inr ts'"
  shows "tables_view ts' = tables_view ts \<and> (tables_wf ts \<longrightarrow> tables_wf ts')"
  using assms(2)
proof (induction xs arbitrary: ts)
  case (Cons x xs)
  then obtain ts1 where "f ts x = Inr ts1" "try_fold f ts1 xs = Inr ts'" by (auto simp: rbind_Inr)
  then show ?case using Cons.IH assms(1) by metis
qed simp

lemma update_trade_view:
  assumes "tables_wf ts"
    and moved: "\<And>row t. row_status_ok row \<Longrightarrow> row_to_trade i row = Inr t \<Longrightarrow>
          (if cond row then row_status_ok (f row) \<and> tw_order_hash (f row) = tw_order_hash row \<and>
                            row_to_trade i (f row) = Inr (g t) else g t = t)"
  shows "tables_wf (update_trade cond f i ts)"
    and "tables_view (update_trade cond f i ts) = on_trade g i (tables_view ts)"
proof -
  have "tables_wf (update_trade cond f i ts) \<and>
      tables_view (update_trade cond f i ts) = on_trade g i (tables_view ts)"
  proof (cases "bm_get (tt_trades ts) i")
    case None
    then show ?thesis using assms(1) by (simp add: update_trade_def on_trade_def tables_view_def fun_eq_iff)
  next
    case (Some row)
    then have ok: "row_status_ok row" using assms(1) trades_wfD(2) unfolding tables_wf_def by blast
    then obtain t where t: "row_to_trade i row = Inr t" using row_parses by blast
    show ?thesis
    proof (cases "cond row")
      case True
      let ?ts = "ts\<lparr>tt_trades := bm_insert i (f row) (tt_trades ts)\<rparr>"
      have eq: "update_trade cond f i ts = ?ts" using Some True by (simp add: update_trade_def)
      have "tables_wf ?ts"
        unfolding tables_wf_def
      proof
        have wf: "trades_wf (tt_trades ts)" using assms(1) by (simp add: tables_wf_def)
        have f: "row_status_ok (f row)" "tw_order_hash (f row) = tw_order_hash row"
          using moved [OF ok t] True by simp_all
        show "trades_wf (tt_trades ?ts)"
          using trades_wfD(3) [OF wf _ Some] f(2) by (simp, intro trades_wf_insert [OF wf f(1)]) simp
      qed (use assms(1) in \<open>simp add: tables_wf_def\<close>)
      moreover have "tables_view ?ts = on_trade g i (tables_view ts)"
        using moved [OF ok t] True Some t by (auto simp: tables_view_def on_trade_def fun_eq_iff)
      ultimately show ?thesis using eq by simp
    next
      case False
      then have "update_trade cond f i ts = ts" using Some by (simp add: update_trade_def)
      moreover have "on_trade g i (tables_view ts) = tables_view ts"
        using moved [OF ok t] False Some t by (auto simp: tables_view_def on_trade_def fun_eq_iff)
      ultimately show ?thesis using assms(1) by simp
    qed
  qed
  then show "tables_wf (update_trade cond f i ts)"
    and "tables_view (update_trade cond f i ts) = on_trade g i (tables_view ts)" by blast+
qed

lemma row_status_okI: "tw_status row = status_as_str st \<Longrightarrow> tw_status_rank row = status_rank st \<Longrightarrow> row_status_ok row"
  unfolding row_status_ok_def by blast

lemma row_rank:
  assumes "row_status_ok row" "row_to_trade i row = Inr t"
  shows "tw_status_rank row = status_rank (t_status t)" "tw_settled_at row = t_settled_at t"
  using assms by (auto simp: row_status_ok_def row_to_trade_def)

lemma row_with_status:
  "row_to_trade i row = Inr t \<Longrightarrow>
   row_to_trade i (row\<lparr>tw_status := status_as_str st, tw_status_rank := n\<rparr>) = Inr (t\<lparr>t_status := st\<rparr>)"
  by (auto simp: row_to_trade_def rbind_Inr)

lemma row_settled:
  "row_to_trade i row = Inr t \<Longrightarrow>
   row_to_trade i (row\<lparr>tw_status := status_as_str st, tw_status_rank := n, tw_amount_out := a,
      tw_tx_hash := h, tw_block_number := b, tw_settled_at := d\<rparr>) =
   Inr (t\<lparr>t_status := st, t_amount_out := a, t_tx_hash := h, t_block_number := b, t_settled_at := d\<rparr>)"
  by (auto simp: row_to_trade_def rbind_Inr)

lemma advance_moves:
  assumes "tables_wf ts"
  shows "tables_wf (update_trade (\<lambda>row. tw_status_rank row < status_rank st \<and> tw_settled_at row = None)
             (\<lambda>row. row\<lparr>tw_status := status_as_str st, tw_status_rank := status_rank st\<rparr>) i ts)"
    and "tables_view (update_trade (\<lambda>row. tw_status_rank row < status_rank st \<and> tw_settled_at row = None)
             (\<lambda>row. row\<lparr>tw_status := status_as_str st, tw_status_rank := status_rank st\<rparr>) i ts) =
         on_trade (advanced st) i (tables_view ts)"
  by (rule update_trade_view [OF assms, where g = "advanced st"];
      simp add: row_rank row_with_status advanced_def row_status_okI [of _ st])+

lemma settle_moves:
  assumes "tables_wf ts"
  shows "tables_wf (update_trade (\<lambda>row. tw_settled_at row = None)
             (\<lambda>row. row\<lparr>tw_status := status_as_str (stl_status s), tw_status_rank := status_rank (stl_status s),
                tw_amount_out := stl_amount_out s, tw_tx_hash := stl_tx_hash s,
                tw_block_number := stl_block_number s, tw_settled_at := Some (stl_at s)\<rparr>) i ts)"
    and "tables_view (update_trade (\<lambda>row. tw_settled_at row = None)
             (\<lambda>row. row\<lparr>tw_status := status_as_str (stl_status s), tw_status_rank := status_rank (stl_status s),
                tw_amount_out := stl_amount_out s, tw_tx_hash := stl_tx_hash s,
                tw_block_number := stl_block_number s, tw_settled_at := Some (stl_at s)\<rparr>) i ts) =
         on_trade (settled_with s) i (tables_view ts)"
  by (rule update_trade_view [OF assms, where g = "settled_with s"];
      simp add: row_rank row_settled settled_with_def row_status_okI [of _ "stl_status s"])+

lemma opt_i64_Inr: "opt_i64 v = Inr w \<Longrightarrow> w = v"
  by (auto simp: opt_i64_def trade_i64_def rbind_Inr split: option.splits if_splits)

lemma trade_i64_Inr: "trade_i64 v = Inr w \<Longrightarrow> w = v"
  by (simp add: trade_i64_def split: if_splits)

lemma trade_advance_spec:
  assumes "trade_advance i st tm db = (res, db')" and wf: "trade_db_wf db"
  shows "trade_db_wf db' \<and> sqlite_trade_view db' =
    (if isl res then sqlite_trade_view db else on_trade (advanced st) i (sqlite_trade_view db))"
  using assms(1) unfolding trade_advance_def
proof (cases rule: trade_tx_cases)
  case (commit x)
  note moves = advance_moves [OF wf [unfolded trade_db_wf_def], of st i]
  show ?thesis
    using commit insert_attempt_Inr moves
    by (auto simp: Let_def rbind_Inr trade_db_wf_def sqlite_trade_view_def)
qed (use wf in \<open>simp_all add: trade_db_wf_def sqlite_trade_view_def\<close>)

lemma trade_settle_spec:
  assumes "trade_settle i s db = (res, db')" and wf: "trade_db_wf db"
  shows "trade_db_wf db' \<and> sqlite_trade_view db' =
    (if isl res then sqlite_trade_view db else on_trade (settled_with s) i (sqlite_trade_view db))"
  using assms(1) unfolding trade_settle_def
proof (cases rule: trade_tx_cases)
  case (commit x)
  note moves = settle_moves [OF wf [unfolded trade_db_wf_def], of s i]
  show ?thesis
    using commit insert_attempt_Inr moves opt_i64_Inr [of "stl_block_number s"] trade_i64_Inr [of "stl_at s"]
    by (auto simp: Let_def rbind_Inr trade_db_wf_def sqlite_trade_view_def)
qed (use wf in \<open>simp_all add: trade_db_wf_def sqlite_trade_view_def\<close>)

lemma insert_trade_Inr:
  assumes "insert_trade t ts = Inr (created, ts')" and wf: "tables_wf ts"
  shows "tables_wf ts'"
    and "created \<Longrightarrow> tables_view ts (t_id t) = None \<and> tables_view ts' = (tables_view ts)(t_id t \<mapsto> t) \<and>
           (\<forall>i u. tables_view ts i = Some u \<longrightarrow> t_order_hash u \<noteq> t_order_hash t)"
    and "\<not> created \<Longrightarrow> ts' = ts \<and> order_row (t_order_hash t) ts \<noteq> None"
proof -
  define row where "row =
     \<lparr>tw_order_hash = t_order_hash t, tw_taker = t_taker t, tw_token_in = t_token_in t,
      tw_token_out = t_token_out t, tw_amount_in = t_amount_in t,
      tw_min_amount_out = t_min_amount_out t, tw_amount_out = t_amount_out t,
      tw_status = status_as_str (t_status t), tw_status_rank = status_rank (t_status t),
      tw_deadline_block = t_deadline_block t, tw_signature = t_signature t,
      tw_price_impact_bps = t_price_impact_bps t, tw_surplus = t_surplus t,
      tw_tx_hash = t_tx_hash t, tw_block_number = t_block_number t, tw_created_at = t_created_at t,
      tw_settled_at = t_settled_at t, tw_token_in_price_usd = t_token_in_price_usd t,
      tw_token_out_price_usd = t_token_out_price_usd t\<rparr>"
  have row: "row_to_trade (t_id t) row = Inr t" "row_status_ok row" "tw_order_hash row = t_order_hash t"
    by (simp_all add: row_def row_to_trade_def row_status_okI [of _ "t_status t"])
  have "order_row (t_order_hash t) ts \<noteq> None \<and> \<not> created \<and> ts' = ts \<or>
      order_row (t_order_hash t) ts = None \<and> created \<and> bm_get (tt_trades ts) (t_id t) = None \<and>
        ts' = ts\<lparr>tt_trades := bm_insert (t_id t) row (tt_trades ts)\<rparr>"
    using assms(1)
    by (auto simp: insert_trade_def row_def rbind_Inr bm_get_None_iff simp del: bm_contains_iff
        simp add: bm_contains_iff [symmetric] split: option.splits if_splits dest!: opt_i64_Inr trade_i64_Inr)
  then consider (old) "order_row (t_order_hash t) ts \<noteq> None" "\<not> created" "ts' = ts"
    | (new) "order_row (t_order_hash t) ts = None" "created" "bm_get (tt_trades ts) (t_id t) = None"
        "ts' = ts\<lparr>tt_trades := bm_insert (t_id t) row (tt_trades ts)\<rparr>" by (elim disjE conjE) simp_all
  then have "tables_wf ts' \<and>
      (created \<longrightarrow> tables_view ts (t_id t) = None \<and> tables_view ts' = (tables_view ts)(t_id t \<mapsto> t) \<and>
         (\<forall>i u. tables_view ts i = Some u \<longrightarrow> t_order_hash u \<noteq> t_order_hash t)) \<and>
      (\<not> created \<longrightarrow> ts' = ts \<and> order_row (t_order_hash t) ts \<noteq> None)"
  proof cases
    case old
    then show ?thesis using wf by simp
  next
    case new
    note fresh = order_row_None [OF wf, THEN iffD1, OF new(1), rule_format]
    have "trades_wf (tt_trades ts')"
      unfolding new(4) using wf fresh row(3)
      by (simp add: tables_wf_def, intro trades_wf_insert row(2)) (simp, metis)
    then have "tables_wf ts'" using wf new(4) by (simp add: tables_wf_def)
    moreover have "tables_view ts' = (tables_view ts)(t_id t \<mapsto> t)"
      using row(1) new(4) by (simp add: tables_view_def fun_eq_iff)
    moreover have "tables_view ts i = Some u \<Longrightarrow> t_order_hash u \<noteq> t_order_hash t" for i u
      using fresh row_to_trade_Inr unfolding tables_view_Some by metis
    ultimately show ?thesis using new tables_view_None [OF wf] by blast
  qed
  then show "tables_wf ts'"
    and "created \<Longrightarrow> tables_view ts (t_id t) = None \<and> tables_view ts' = (tables_view ts)(t_id t \<mapsto> t) \<and>
           (\<forall>i u. tables_view ts i = Some u \<longrightarrow> t_order_hash u \<noteq> t_order_hash t)"
    and "\<not> created \<Longrightarrow> ts' = ts \<and> order_row (t_order_hash t) ts \<noteq> None" by blast+
qed

lemma create_rows:
  assumes "try_fold (\<lambda>ts (idx, leg). insert_leg i idx leg ts) ts (enumerate n legs) = Inr ts2"
    and "try_fold (\<lambda>ts a. insert_attempt i (ta_status a) (ta_at a) ts) ts2 as = Inr ts3"
  shows "tables_view ts3 = tables_view ts \<and> (tables_wf ts \<longrightarrow> tables_wf ts3)"
proof -
  have "tables_view ts2 = tables_view ts \<and> (tables_wf ts \<longrightarrow> tables_wf ts2)"
    by (rule try_fold_keeps [OF _ assms(1)]) (auto dest: insert_leg_Inr)
  moreover have "tables_view ts3 = tables_view ts2 \<and> (tables_wf ts2 \<longrightarrow> tables_wf ts3)"
    by (rule try_fold_keeps [OF _ assms(2)]) (auto dest: insert_attempt_Inr)
  ultimately show ?thesis by simp
qed

lemma trade_create_spec:
  assumes "trade_create t legs as db = (res, db')" and wf: "trade_db_wf db"
  shows "trade_db_wf db' \<and>
    (case res of
       Inl _ \<Rightarrow> sqlite_trade_view db' = sqlite_trade_view db
     | Inr c \<Rightarrow>
         if cr_created c then
           cr_id c = t_id t \<and> sqlite_trade_view db (t_id t) = None \<and>
           sqlite_trade_view db' = (sqlite_trade_view db)(t_id t \<mapsto> t) \<and>
           (\<forall>i u. sqlite_trade_view db i = Some u \<longrightarrow> t_order_hash u \<noteq> t_order_hash t)
         else sqlite_trade_view db' = sqlite_trade_view db \<and>
              (\<exists>u. sqlite_trade_view db (cr_id c) = Some u \<and> t_order_hash u = t_order_hash t))"
  using assms(1) unfolding trade_create_def
proof (cases rule: trade_tx_cases)
  case (commit c)
  have twf: "tables_wf (td_tables db)" using wf by (simp add: trade_db_wf_def)
  from commit(1) obtain created ts1 where
    ins: "insert_trade t (td_tables db) = Inr (created, ts1)" by (auto simp: rbind_Inr)
  note ins_spec = insert_trade_Inr [OF ins twf]
  show ?thesis
  proof (cases created)
    case True
    with commit(1) ins have c: "c = \<lparr>cr_id = t_id t, cr_created = True\<rparr>"
      and "\<exists>ts2. try_fold (\<lambda>ts (idx, leg). insert_leg (t_id t) idx leg ts) ts1 (enumerate 0 legs) = Inr ts2 \<and>
        try_fold (\<lambda>ts a. insert_attempt (t_id t) (ta_status a) (ta_at a) ts) ts2 as = Inr (td_tables db')"
      by (auto simp: rbind_Inr)
    then have "tables_view (td_tables db') = tables_view ts1 \<and> (tables_wf ts1 \<longrightarrow> tables_wf (td_tables db'))"
      using create_rows by blast
    then show ?thesis
      using ins_spec(1) ins_spec(2) [OF True] c commit(2) by (simp add: trade_db_wf_def sqlite_trade_view_def)
  next
    case False
    with commit(1) ins obtain i row where c: "c = \<lparr>cr_id = i, cr_created = False\<rparr>" "td_tables db' = ts1"
      "order_row (t_order_hash t) ts1 = Some (i, row)" by (auto simp: rbind_Inr existing_trade_id_def)
    have same: "ts1 = td_tables db" using ins_spec(3) [OF False] by simp
    have got: "bm_get (tt_trades ts1) i = Some row" "tw_order_hash row = t_order_hash t"
      using order_row_Some [OF _ c(3)] twf same by simp_all
    then obtain u where "row_to_trade i row = Inr u" "tables_view ts1 i = Some u"
      using tables_view_row [of ts1 i row] twf same by blast
    then have "\<exists>u. tables_view ts1 i = Some u \<and> t_order_hash u = t_order_hash t"
      using row_to_trade_Inr got(2) by simp
    then show ?thesis using c same commit(2) wf by (simp add: trade_db_wf_def sqlite_trade_view_def)
  qed
qed (use wf in \<open>simp_all add: trade_db_wf_def sqlite_trade_view_def\<close>)

subsection \<open>Reads\<close>

lemma same_tables:
  "td_tables db' = td_tables db \<Longrightarrow>
   trade_db_wf db' = trade_db_wf db \<and> sqlite_trade_view db' = sqlite_trade_view db"
  by (simp add: trade_db_wf_def sqlite_trade_view_def)

lemma find_by_order_spec:
  assumes "find_by_order h db = (res, db')" and wf: "trade_db_wf db"
  shows "td_tables db' = td_tables db \<and>
    (case res of
       Inl _ \<Rightarrow> True
     | Inr None \<Rightarrow> \<forall>i u. sqlite_trade_view db i = Some u \<longrightarrow> t_order_hash u \<noteq> h
     | Inr (Some u) \<Rightarrow> sqlite_trade_view db (t_id u) = Some u \<and> t_order_hash u = h)"
  using assms(1) unfolding find_by_order_def
proof (cases rule: trade_read_cases)
  case ran
  have twf: "tables_wf (td_tables db)" using wf by (simp add: trade_db_wf_def)
  show ?thesis
  proof (cases "order_row h (td_tables db)")
    case None
    have "tables_view (td_tables db) i = Some u \<Longrightarrow> t_order_hash u \<noteq> h" for i u
      using order_row_None [OF twf, THEN iffD1, OF None] row_to_trade_Inr unfolding tables_view_Some by metis
    then show ?thesis using ran None by (simp add: sqlite_trade_view_def)
  next
    case (Some ir)
    then obtain i row where ir: "order_row h (td_tables db) = Some (i, row)" by (cases ir) simp
    note got = order_row_Some [OF twf ir]
    obtain u where "row_to_trade i row = Inr u" "tables_view (td_tables db) i = Some u"
      using tables_view_row [OF twf] got by blast
    then show ?thesis using ran ir got row_to_trade_Inr by (simp add: sqlite_trade_view_def)
  qed
qed simp

lemma attempts_parse: "attempts_ok as \<Longrightarrow> set ks \<subseteq> set as \<Longrightarrow> \<exists>xs. collect (map row_to_attempt ks) = Inr xs"
proof (induction ks)
  case (Cons k ks)
  then obtain st where "snd (fst k) = status_as_str st" unfolding attempts_ok_def by auto
  then show ?case using Cons by (auto simp: row_to_attempt_def)
qed simp

lemma store_info_spec:
  assumes "store_info i db = (res, db')" and wf: "trade_db_wf db"
  shows "td_tables db' = td_tables db \<and>
    (case res of Inl _ \<Rightarrow> True | Inr x \<Rightarrow> map_option ti_trade x = sqlite_trade_view db i)"
proof -
  have reads: "trade_read f d = (r, d') \<Longrightarrow> td_tables d' = td_tables d \<and> (\<forall>x. r = Inr x \<longrightarrow> f (td_tables d) = Inr x)"
    for f :: "trade_tables \<Rightarrow> trade_error + 'x" and d r d'
    by (erule trade_read_cases) simp_all
  show ?thesis
    using assms(1) unfolding store_info_def ebind_def
    by (auto simp: sqlite_trade_view_def tables_view_def split: prod.splits sum.splits option.splits dest!: reads)
qed

lemma read_laws:
  "store_info i db = (ires, db') \<Longrightarrow> trade_db_wf db \<Longrightarrow>
     trade_db_wf db' \<and> sqlite_trade_view db' = sqlite_trade_view db \<and>
     (case ires of Inl _ \<Rightarrow> True | Inr x \<Rightarrow> map_option ti_trade x = sqlite_trade_view db i)"
  "find_by_order h db = (fres, db') \<Longrightarrow> trade_db_wf db \<Longrightarrow>
     trade_db_wf db' \<and> sqlite_trade_view db' = sqlite_trade_view db \<and>
     (case fres of
        Inl _ \<Rightarrow> True
      | Inr None \<Rightarrow> \<forall>i u. sqlite_trade_view db i = Some u \<longrightarrow> t_order_hash u \<noteq> h
      | Inr (Some u) \<Rightarrow> sqlite_trade_view db (t_id u) = Some u \<and> t_order_hash u = h)"
  using store_info_spec [of i db ires db'] find_by_order_spec [of h db fres db'] same_tables [of db' db] by blast+

interpretation sqlite_trades: trade_store sqlite_trade_ops sqlite_trade_view trade_db_wf
proof (unfold_locales, unfold sqlite_trade_ops_def trade_ops.simps)
  show "trade_db_wf s \<Longrightarrow> one_per_order (sqlite_trade_view s)" for s
    by (simp add: trade_db_wf_def sqlite_trade_view_def tables_orders)
qed (rule trade_create_spec trade_advance_spec trade_settle_spec read_laws; assumption)+

end
