(* ===== verification/Execution_Engine.thy ===== *)
theory Execution_Engine
  imports Effects Ledger_Store Registry_Snapshot
begin

text \<open>
  Submitting a fill and tracking it to its end: the fill values (core/src/primitives/execution/),
  the SQLite fill store (adapters/src/execution/store.rs, migrations 0004 and 0016), the executor
  over the wallet engine (adapters/src/execution/executor.rs) and the settlement reader
  (adapters/src/execution/settlement.rs).

  The wallet engine and the chain provider are third-party code: their calls are fields of
  \<open>wallet_ops\<close>, arbitrary functions on an abstract state. Of the engine's lifecycle only the variants
  the executor distinguishes are named. A stored handle is the handle it serialises. A statement of
  the fill store consumes one entry of the fault schedule and fails without effect when it says so.
\<close>

section \<open>Fill values\<close>

record fill_tx =
  ft_intent :: intent_id
  ft_chain_id :: chain_id
  ft_filler_owner :: address
  ft_filler :: address
  ft_value :: u256
  ft_calldata :: "nat list"

definition fill_tx_new :: "intent_id \<Rightarrow> chain_id \<Rightarrow> address \<Rightarrow> address \<Rightarrow> nat list \<Rightarrow> fill_tx" where
  "fill_tx_new intent chain owner filler calldata =
     \<lparr>ft_intent = intent, ft_chain_id = chain, ft_filler_owner = owner, ft_filler = filler,
      ft_value = 0, ft_calldata = calldata\<rparr>"

definition with_value :: "fill_tx \<Rightarrow> u256 \<Rightarrow> fill_tx" where
  "with_value f v = f\<lparr>ft_value := v\<rparr>"

datatype exec_status =
    ExPending
  | ExConfirmed (exs_block: u64) (exs_tx: b256)
  | ExFailed string
  | ExDropped

datatype sim_verdict = SimOk | SimReject string

record pending_fill =
  pf_fill_tx :: fill_tx
  pf_reservation :: reservation_id

datatype fill_outcome = FillSubmitted b256 | FillRejected string

record tracked_fill =
  tk_intent :: intent_id
  tk_reservation :: reservation_id

datatype settled_outcome = SoConfirmed (so_tx: b256) (so_block: u64) | SoFailed

record settled_fill =
  sf_intent :: intent_id
  sf_outcome :: settled_outcome

section \<open>The fill store\<close>

type_synonym handle_id = nat

record terminal_row =
  tr_status :: string
  tr_tx_hash :: "b256 option"
  tr_block :: "int option"
  tr_reason :: "string option"

record fill_db =
  fd_inflight :: "(intent_id \<times> reservation_id \<times> handle_id) list"
  fd_terminal :: "(intent_id, terminal_row) bmap"
  fd_faults :: "bool list"

datatype exec_error = EngineErr string

type_synonym 'a fill_call = "(fill_db, exec_error, 'a) eff"

definition fill_stmt :: "(fill_db \<Rightarrow> (exec_error + 'a) \<times> fill_db) \<Rightarrow> 'a fill_call" where
  "fill_stmt f db =
     (case fd_faults db of
        True # fs \<Rightarrow> (Inl (EngineErr ''db''), db\<lparr>fd_faults := fs\<rparr>)
      | _ \<Rightarrow> f (db\<lparr>fd_faults := tl (fd_faults db)\<rparr>))"

definition inflight_row :: "intent_id \<Rightarrow> fill_db \<Rightarrow> (reservation_id \<times> handle_id) option" where
  "inflight_row i db = map_of (fd_inflight db) i"

definition fill_track :: "intent_id \<Rightarrow> reservation_id \<Rightarrow> handle_id \<Rightarrow> unit fill_call" where
  "fill_track i r h =
     fill_stmt (\<lambda>db.
       (Inr (), if inflight_row i db = None then db\<lparr>fd_inflight := fd_inflight db @ [(i, r, h)]\<rparr> else db))"

definition fill_handle :: "intent_id \<Rightarrow> handle_id option fill_call" where
  "fill_handle i = fill_stmt (\<lambda>db. (Inr (map_option snd (inflight_row i db)), db))"

definition fill_untrack :: "intent_id \<Rightarrow> unit fill_call" where
  "fill_untrack i =
     fill_stmt (\<lambda>db. (Inr (), db\<lparr>fd_inflight := filter (\<lambda>(j, _). j \<noteq> i) (fd_inflight db)\<rparr>))"

definition fill_tracked :: "tracked_fill list fill_call" where
  "fill_tracked =
     fill_stmt (\<lambda>db. (Inr (map (\<lambda>(i, r, _). \<lparr>tk_intent = i, tk_reservation = r\<rparr>) (fd_inflight db)), db))"

text \<open>\<open>block as i64\<close>: the two's-complement reading of the 64 bits.\<close>

definition as_i64 :: "u64 \<Rightarrow> int" where
  "as_i64 v = (if v \<le> i64_max then int v else int v - 2 ^ 64)"

definition terminal_row_of :: "exec_status \<Rightarrow> terminal_row option" where
  "terminal_row_of st =
     (case st of
        ExConfirmed block tx \<Rightarrow>
          Some \<lparr>tr_status = ''confirmed'', tr_tx_hash = Some tx, tr_block = Some (as_i64 block), tr_reason = None\<rparr>
      | ExFailed reason \<Rightarrow>
          Some \<lparr>tr_status = ''failed'', tr_tx_hash = None, tr_block = None, tr_reason = Some reason\<rparr>
      | ExDropped \<Rightarrow>
          Some \<lparr>tr_status = ''dropped'', tr_tx_hash = None, tr_block = None, tr_reason = None\<rparr>
      | ExPending \<Rightarrow> None)"

definition record_terminal :: "intent_id \<Rightarrow> exec_status \<Rightarrow> unit fill_call" where
  "record_terminal i st =
     (case terminal_row_of st of
        None \<Rightarrow> eok ()
      | Some row \<Rightarrow> fill_stmt (\<lambda>db. (Inr (), db\<lparr>fd_terminal := bm_insert i row (fd_terminal db)\<rparr>)))"

definition decode_terminal :: "terminal_row \<Rightarrow> exec_error + exec_status" where
  "decode_terminal row =
     (if tr_status row = ''confirmed'' then
        rbind (ok_or (EngineErr ''no transaction hash'') (tr_tx_hash row)) (\<lambda>tx.
        rbind (ok_or (EngineErr ''no block'') (tr_block row)) (\<lambda>block.
          if block < 0 then Inl (EngineErr ''negative block'') else Inr (ExConfirmed (nat block) tx)))
      else if tr_status row = ''failed'' then
        Inr (ExFailed (unwrap_or ''execution failed'' (tr_reason row)))
      else if tr_status row = ''dropped'' then Inr ExDropped
      else Inl (EngineErr ''unknown terminal status''))"

definition fill_terminal :: "intent_id \<Rightarrow> exec_status option fill_call" where
  "fill_terminal i =
     fill_stmt (\<lambda>db.
       (case bm_get (fd_terminal db) i of
          None \<Rightarrow> Inr None
        | Some row \<Rightarrow> rbind (decode_terminal row) (\<lambda>st. Inr (Some st)), db))"

section \<open>The executor over the wallet engine\<close>

record tx_call =
  tc_chain_id :: chain_id
  tc_from :: address
  tc_to :: address
  tc_value :: u256
  tc_data :: "nat list"

datatype tx_status =
    TxConfirmed u64 | TxFailed string | TxReplaced | TxDropped | TxOther

record tx_handle =
  th_status :: tx_status
  th_broadcasts :: "b256 list"

datatype sim_outcome = SimSuccess | SimRevert string | SimOther

record 'v wallet_ops =
  wk_send :: "tx_call \<Rightarrow> ('v, exec_error, handle_id) eff"
  wk_handle :: "handle_id \<Rightarrow> ('v, exec_error, tx_handle option) eff"
  wk_tick :: "('v, exec_error, unit) eff"
  wk_dry_run :: "tx_call \<Rightarrow> ('v, exec_error, sim_outcome) eff"
  wk_receipt :: "b256 \<Rightarrow> ('v, exec_error, u64 option option) eff"

record 'v executor =
  xe_db :: fill_db
  xe_wallet :: 'v

type_synonym ('v, 'a) executor_call = "('v executor, exec_error, 'a) eff"

definition on_db :: "'a fill_call \<Rightarrow> ('v, 'a) executor_call" where
  "on_db = on_part xe_db (\<lambda>db x. x\<lparr>xe_db := db\<rparr>)"

definition on_wallet :: "('v, exec_error, 'a) eff \<Rightarrow> ('v, 'a) executor_call" where
  "on_wallet = on_part xe_wallet (\<lambda>v x. x\<lparr>xe_wallet := v\<rparr>)"

definition fill_to_intent :: "fill_tx \<Rightarrow> tx_call" where
  "fill_to_intent f =
     \<lparr>tc_chain_id = ft_chain_id f, tc_from = ft_filler_owner f, tc_to = ft_filler f,
      tc_value = ft_value f, tc_data = ft_calldata f\<rparr>"

definition to_exec_status :: "tx_status \<Rightarrow> b256 \<Rightarrow> exec_status" where
  "to_exec_status st mined_tx =
     (case st of
        TxConfirmed block \<Rightarrow> ExConfirmed block mined_tx
      | TxFailed reason \<Rightarrow> ExFailed reason
      | TxReplaced \<Rightarrow> ExDropped
      | TxDropped \<Rightarrow> ExDropped
      | TxOther \<Rightarrow> ExPending)"

definition to_verdict :: "sim_outcome \<Rightarrow> sim_verdict" where
  "to_verdict outcome =
     (case outcome of
        SimSuccess \<Rightarrow> SimOk
      | SimRevert reason \<Rightarrow> SimReject reason
      | SimOther \<Rightarrow> SimReject ''unrecognized simulation outcome'')"

fun find_mined :: "'v wallet_ops \<Rightarrow> u64 \<Rightarrow> b256 list \<Rightarrow> ('v, b256) executor_call" where
  "find_mined w block [] = eerr (EngineErr ''walletkit confirmed fill has no receipt'')"
| "find_mined w block (tx # txs) =
     ebind (on_wallet (wk_receipt w tx)) (\<lambda>receipt.
       if receipt = Some (Some block) then eok tx else find_mined w block txs)"

definition mined_broadcast :: "'v wallet_ops \<Rightarrow> b256 list \<Rightarrow> u64 \<Rightarrow> ('v, b256) executor_call" where
  "mined_broadcast w broadcasts block = find_mined w block (rev broadcasts)"

definition status_for :: "'v wallet_ops \<Rightarrow> tx_handle \<Rightarrow> ('v, exec_status) executor_call" where
  "status_for w h =
     (case th_status h of
        TxConfirmed block \<Rightarrow>
          ebind (mined_broadcast w (th_broadcasts h) block) (\<lambda>tx. eok (ExConfirmed block tx))
      | st \<Rightarrow> eok (to_exec_status st (if th_broadcasts h = [] then 0 else last (th_broadcasts h))))"

definition executor_submit ::
  "'v wallet_ops \<Rightarrow> fill_tx \<Rightarrow> reservation_id \<Rightarrow> ('v, b256) executor_call" where
  "executor_submit w f r =
     ebind (on_db (fill_handle (ft_intent f))) (\<lambda>tracked.
       case tracked of
         Some _ \<Rightarrow> eok (ft_intent f)
       | None \<Rightarrow>
           ebind (on_wallet (wk_send w (fill_to_intent f))) (\<lambda>h.
           ebind (on_db (fill_track (ft_intent f) r h)) (\<lambda>_.
             eok (ft_intent f))))"

definition executor_status ::
  "'v wallet_ops \<Rightarrow> intent_id \<Rightarrow> ('v, exec_status option) executor_call" where
  "executor_status w i =
     ebind (on_db (fill_handle i)) (\<lambda>tracked.
       case tracked of
         None \<Rightarrow> on_db (fill_terminal i)
       | Some h \<Rightarrow>
           ebind (on_wallet (wk_handle w h)) (\<lambda>found.
             case found of
               Some th \<Rightarrow> ebind (status_for w th) (\<lambda>st. eok (Some st))
             | None \<Rightarrow> on_db (fill_terminal i)))"

definition executor_forget :: "'v wallet_ops \<Rightarrow> intent_id \<Rightarrow> ('v, unit) executor_call" where
  "executor_forget w i =
     ebind (on_db (fill_handle i)) (\<lambda>tracked.
     ebind (case tracked of
              None \<Rightarrow> eok ()
            | Some h \<Rightarrow>
                ebind (on_wallet (wk_handle w h)) (\<lambda>found.
                  case found of
                    None \<Rightarrow> eok ()
                  | Some th \<Rightarrow> ebind (status_for w th) (\<lambda>st. on_db (record_terminal i st)))) (\<lambda>_.
       on_db (fill_untrack i)))"

definition executor_tracked :: "('v, tracked_fill list) executor_call" where
  "executor_tracked = on_db fill_tracked"

definition executor_tick :: "'v wallet_ops \<Rightarrow> ('v, unit) executor_call" where
  "executor_tick w = on_wallet (wk_tick w)"

definition executor_simulate :: "'v wallet_ops \<Rightarrow> fill_tx \<Rightarrow> ('v, sim_verdict) executor_call" where
  "executor_simulate w f =
     ebind (on_wallet (wk_dry_run w (fill_to_intent f))) (\<lambda>outcome. eok (to_verdict outcome))"

section \<open>The settlement reader\<close>

text \<open>The amounts a fill pulled, from the events of its receipt, aligned with the sources.\<close>

definition pulled_for :: "aqua_event list \<Rightarrow> reservation_source \<Rightarrow> u256" where
  "pulled_for pulls s =
     fold (\<lambda>amount acc. sat_add acc amount)
       (List.map_filter (\<lambda>e. case e of
            Pulled maker _ h token amount \<Rightarrow>
              if maker = rs_maker s \<and> h = rs_hash s \<and> token = rs_token s then Some amount else None
          | _ \<Rightarrow> None) pulls) 0"

datatype settlement_error = SettlementRead

definition settled_amounts ::
  "(b256 \<Rightarrow> settlement_error + aqua_event list option) \<Rightarrow> b256 \<Rightarrow> reservation_source list \<Rightarrow>
   settlement_error + u256 list" where
  "settled_amounts receipt tx sources =
     rbind (receipt tx) (\<lambda>found.
     rbind (ok_or SettlementRead found) (\<lambda>pulls.
       Inr (map (pulled_for pulls) sources)))"

section \<open>The port\<close>

record 'x exec_ops =
  eo_submit :: "fill_tx \<Rightarrow> reservation_id \<Rightarrow> ('x, exec_error, b256) eff"
  eo_status :: "intent_id \<Rightarrow> ('x, exec_error, exec_status option) eff"
  eo_forget :: "intent_id \<Rightarrow> ('x, exec_error, unit) eff"
  eo_tracked :: "('x, exec_error, tracked_fill list) eff"
  eo_tick :: "('x, exec_error, unit) eff"
  eo_simulate :: "fill_tx \<Rightarrow> ('x, exec_error, sim_verdict) eff"

definition executor_ops :: "'v wallet_ops \<Rightarrow> 'v executor exec_ops" where
  "executor_ops w =
     \<lparr>eo_submit = executor_submit w, eo_status = executor_status w, eo_forget = executor_forget w,
      eo_tracked = executor_tracked, eo_tick = executor_tick w, eo_simulate = executor_simulate w\<rparr>"

text \<open>
  What a client relies on: the set of tracked fills changes only by a submission that was recorded and
  by forgetting; a tracked intent keeps the reservation it was first submitted with.
\<close>

locale execution_engine =
  fixes ops :: "'x exec_ops"
    and inflight :: "'x \<Rightarrow> intent_id \<Rightarrow> reservation_id option"
    and engine_wf :: "'x \<Rightarrow> bool"
  assumes submit_spec:
      "engine_wf x \<Longrightarrow> eo_submit ops f r x = (sres, x') \<Longrightarrow>
         engine_wf x' \<and>
         (case sres of
            Inl _ \<Rightarrow> inflight x' = inflight x
          | Inr h \<Rightarrow> h = ft_intent f \<and>
              inflight x' = (if inflight x (ft_intent f) = None then (inflight x)(ft_intent f \<mapsto> r) else inflight x))"
    and status_spec:
      "engine_wf x \<Longrightarrow> eo_status ops i x = (stres, x') \<Longrightarrow> engine_wf x' \<and> inflight x' = inflight x"
    and forget_spec:
      "engine_wf x \<Longrightarrow> eo_forget ops i x = (ures, x') \<Longrightarrow>
         engine_wf x' \<and> inflight x' = (if isl ures then inflight x else (inflight x)(i := None))"
    and tracked_spec:
      "engine_wf x \<Longrightarrow> eo_tracked ops x = (tres, x') \<Longrightarrow>
         engine_wf x' \<and> inflight x' = inflight x \<and>
         (case tres of
            Inl _ \<Rightarrow> True
          | Inr fs \<Rightarrow> distinct (map tk_intent fs) \<and>
              (\<forall>g. g \<in> set fs \<longleftrightarrow> inflight x (tk_intent g) = Some (tk_reservation g)))"
    and tick_spec: "engine_wf x \<Longrightarrow> eo_tick ops x = (ures, x') \<Longrightarrow> engine_wf x' \<and> inflight x' = inflight x"
    and simulate_spec:
      "engine_wf x \<Longrightarrow> eo_simulate ops f x = (vres, x') \<Longrightarrow> engine_wf x' \<and> inflight x' = inflight x"

section \<open>The executor meets the laws, whatever the wallet does\<close>

definition inflight_of :: "'v executor \<Rightarrow> intent_id \<Rightarrow> reservation_id option" where
  "inflight_of x i = map_option fst (map_of (fd_inflight (xe_db x)) i)"

definition executor_wf :: "'v executor \<Rightarrow> bool" where
  "executor_wf x \<longleftrightarrow> distinct (map fst (fd_inflight (xe_db x)))"

definition tracks :: "(intent_id \<times> reservation_id \<times> handle_id) list \<Rightarrow> 'v executor \<Rightarrow> bool" where
  "tracks rows x \<longleftrightarrow> fd_inflight (xe_db x) = rows"

lemma fill_stmt_cases:
  assumes "fill_stmt f db = (res, db')"
  obtains (fault) "res = Inl (EngineErr ''db'')" "fd_inflight db' = fd_inflight db"
    | (run) db1 where "f db1 = (res, db')" "fd_inflight db1 = fd_inflight db"
proof (cases "\<exists>fs. fd_faults db = True # fs")
  case True
  then show ?thesis using assms fault by (auto simp: fill_stmt_def)
next
  case False
  then have "fill_stmt f db = f (db\<lparr>fd_faults := tl (fd_faults db)\<rparr>)"
    by (auto simp: fill_stmt_def split: list.split bool.split)
  then show ?thesis using assms run by auto
qed

lemma on_wallet_tracks [triples]: "triple (tracks rows) (on_wallet m) (\<lambda>_. tracks rows) (\<lambda>_. tracks rows)"
  by (auto simp: triple_def on_wallet_def on_part_def tracks_def split: prod.splits sum.split)

lemma on_db_tracks:
  assumes "\<And>db res db'. fd_inflight db = rows \<Longrightarrow> m db = (res, db') \<Longrightarrow>
     (case res of Inl e \<Rightarrow> E e (fd_inflight db') | Inr x \<Rightarrow> Q x (fd_inflight db'))"
  shows "triple (tracks rows) (on_db m) (\<lambda>x w. Q x (fd_inflight (xe_db w))) (\<lambda>e w. E e (fd_inflight (xe_db w)))"
  using assms by (auto simp: triple_def on_db_def on_part_def tracks_def split: prod.splits)

lemma fill_reads_tracks [triples]:
  "triple (tracks rows) (on_db (fill_handle i)) (\<lambda>h w. tracks rows w \<and> h = map_option snd (map_of rows i)) (\<lambda>_. tracks rows)"
  "triple (tracks rows) (on_db (fill_terminal i)) (\<lambda>_. tracks rows) (\<lambda>_. tracks rows)"
  "triple (tracks rows) (on_db (record_terminal i st)) (\<lambda>_. tracks rows) (\<lambda>_. tracks rows)"
  "triple (tracks rows) (on_db fill_tracked)
     (\<lambda>fs w. tracks rows w \<and> fs = map (\<lambda>(i, r, _). \<lparr>tk_intent = i, tk_reservation = r\<rparr>) rows) (\<lambda>_. tracks rows)"
  unfolding tracks_def [of rows, abs_def]
  by (rule triple_weaken [OF on_db_tracks [of rows _ "\<lambda>_ rows'. rows' = rows" "\<lambda>h rows'. rows' = rows \<and> h = map_option snd (map_of rows i)"]]
      triple_weaken [OF on_db_tracks [of rows _ "\<lambda>_ rows'. rows' = rows" "\<lambda>_ rows'. rows' = rows"]]
      triple_weaken [OF on_db_tracks [of rows _ "\<lambda>_ rows'. rows' = rows"
        "\<lambda>fs rows'. rows' = rows \<and> fs = map (\<lambda>(i, r, _). \<lparr>tk_intent = i, tk_reservation = r\<rparr>) rows"]];
      auto simp: fill_handle_def fill_terminal_def fill_tracked_def record_terminal_def inflight_row_def tracks_def
        elim!: fill_stmt_cases split: sum.splits option.splits)+

lemma fill_track_tracks:
  "triple (tracks rows) (on_db (fill_track i r h))
     (\<lambda>_. tracks (if map_of rows i = None then rows @ [(i, r, h)] else rows)) (\<lambda>_. tracks rows)"
  by (rule triple_weaken [OF on_db_tracks [of rows _ "\<lambda>_ rows'. rows' = rows"
        "\<lambda>_ rows'. rows' = (if map_of rows i = None then rows @ [(i, r, h)] else rows)"]])
    (auto simp: fill_track_def inflight_row_def tracks_def elim!: fill_stmt_cases split: sum.splits)

lemma fill_untrack_tracks:
  "triple (tracks rows) (on_db (fill_untrack i))
     (\<lambda>_. tracks (filter (\<lambda>(j, _). j \<noteq> i) rows)) (\<lambda>_. tracks rows)"
  by (rule triple_weaken [OF on_db_tracks [of rows _ "\<lambda>_ rows'. rows' = rows"
        "\<lambda>_ rows'. rows' = filter (\<lambda>(j, _). j \<noteq> i) rows"]])
    (auto simp: fill_untrack_def tracks_def elim!: fill_stmt_cases split: sum.splits)

lemma find_mined_tracks: "triple (tracks rows) (find_mined w block txs) (\<lambda>_. tracks rows) (\<lambda>_. tracks rows)"
proof (induction txs)
  case Nil
  show ?case unfolding find_mined.simps by (rule triple_eerr)
next
  case (Cons tx txs)
  show ?case unfolding find_mined.simps by (rule triples Cons.IH | simp)+
qed

lemma status_for_tracks [triples]: "triple (tracks rows) (status_for w h) (\<lambda>_. tracks rows) (\<lambda>_. tracks rows)"
  by (cases "th_status h")
    (auto simp: status_for_def mined_broadcast_def intro!: triples find_mined_tracks)

lemma executor_status_tracks:
  "triple (tracks rows) (executor_status w i) (\<lambda>_. tracks rows) (\<lambda>_. tracks rows)"
  unfolding executor_status_def
  by (rule triples triple_conj_drop triple_case_option | simp)+

lemma executor_submit_tracks:
  "triple (tracks rows) (executor_submit w f r)
     (\<lambda>h x. h = ft_intent f \<and>
        (case map_of rows (ft_intent f) of
           Some _ \<Rightarrow> tracks rows x
         | None \<Rightarrow> \<exists>h. tracks (rows @ [(ft_intent f, r, h)]) x)) (\<lambda>_. tracks rows)"
  unfolding executor_submit_def
proof (rule triple_ebind [OF fill_reads_tracks(1)], rule triple_pre)
  fix found :: "handle_id option" and x :: "'a executor"
  assume "tracks rows x \<and> found = map_option snd (map_of rows (ft_intent f))"
  then show "found = map_option snd (map_of rows (ft_intent f))" by simp
next
  fix found :: "handle_id option"
  assume found: "found = map_option snd (map_of rows (ft_intent f))"
  have track: "triple (tracks rows) (ebind (on_db (fill_track (ft_intent f) r h)) (\<lambda>_. eok (ft_intent f)))
      (\<lambda>h x. h = ft_intent f \<and> (\<exists>h. tracks (rows @ [(ft_intent f, r, h)]) x)) (\<lambda>_. tracks rows)"
    if "map_of rows (ft_intent f) = None" for h
    using that
    by (intro triple_ebind [OF fill_track_tracks] triple_eok) auto
  show "triple (\<lambda>w. tracks rows w \<and> found = map_option snd (map_of rows (ft_intent f)))
     (case found of None \<Rightarrow>
          ebind (on_wallet (wk_send w (fill_to_intent f))) (\<lambda>h.
          ebind (on_db (fill_track (ft_intent f) r h)) (\<lambda>_. eok (ft_intent f)))
      | Some _ \<Rightarrow> eok (ft_intent f))
     (\<lambda>h x. h = ft_intent f \<and>
        (case map_of rows (ft_intent f) of
           Some _ \<Rightarrow> tracks rows x
         | None \<Rightarrow> \<exists>h. tracks (rows @ [(ft_intent f, r, h)]) x)) (\<lambda>_. tracks rows)"
    using found track
    by (cases "map_of rows (ft_intent f)")
      (auto intro!: triple_conj_drop triple_ebind [OF on_wallet_tracks] triple_eok)
qed

lemma executor_forget_tracks:
  "triple (tracks rows) (executor_forget w i) (\<lambda>_. tracks (filter (\<lambda>(j, _). j \<noteq> i) rows)) (\<lambda>_. tracks rows)"
  unfolding executor_forget_def
  by (rule triple_ebind [OF fill_reads_tracks(1)], rule triple_conj_drop, rule triple_ebind [OF _ fill_untrack_tracks])
    (rule triples triple_case_option triple_ebind | simp)+

lemma executor_other_tracks:
  "triple (tracks rows) (executor_tick w) (\<lambda>_. tracks rows) (\<lambda>_. tracks rows)"
  "triple (tracks rows) (executor_simulate w f) (\<lambda>_. tracks rows) (\<lambda>_. tracks rows)"
  unfolding executor_tick_def executor_simulate_def by (rule triples | simp)+

lemma tracks_refl: "tracks (fd_inflight (xe_db x)) x"
  by (simp add: tracks_def)

lemma tracks_view:
  assumes "tracks rows x"
  shows "inflight_of x = (\<lambda>i. map_option fst (map_of rows i))" and "executor_wf x \<longleftrightarrow> distinct (map fst rows)"
  using assms by (auto simp: tracks_def inflight_of_def executor_wf_def)

lemma keeps_inflight:
  assumes "\<And>rows. triple (tracks rows) m (\<lambda>_. tracks rows) (\<lambda>_. tracks rows)" "executor_wf x" "m x = (res, x')"
  shows "executor_wf x' \<and> inflight_of x' = inflight_of x"
proof -
  have "tracks (fd_inflight (xe_db x)) x'"
    using tripleD [OF assms(1) tracks_refl] assms(3) by (cases res) auto
  then show ?thesis using assms(2) tracks_view [of _ x'] tracks_view [OF tracks_refl [of x]] by simp
qed

lemma map_of_untracked: "map_of (filter (\<lambda>(j, _). j \<noteq> i) rows) = (map_of rows)(i := None)"
  by (induction rows) auto

lemma executor_submit_spec:
  assumes "executor_wf x" "executor_submit w f r x = (res, x')"
  shows "executor_wf x' \<and>
    (case res of
       Inl _ \<Rightarrow> inflight_of x' = inflight_of x
     | Inr h \<Rightarrow> h = ft_intent f \<and> inflight_of x' =
         (if inflight_of x (ft_intent f) = None then (inflight_of x)(ft_intent f \<mapsto> r) else inflight_of x))"
proof -
  let ?rows = "fd_inflight (xe_db x)"
  note run = tripleD [OF executor_submit_tracks tracks_refl, of w f r x]
  note here = tracks_view [OF tracks_refl [of x]]
  show ?thesis
  proof (cases res)
    case (Inl e)
    then show ?thesis using run(2) assms here tracks_view [of ?rows x'] by auto
  next
    case (Inr h)
    note end_state = run(1) [OF assms(2) [unfolded Inr]]
    show ?thesis
    proof (cases "map_of ?rows (ft_intent f)")
      case (Some q)
      then show ?thesis using end_state Inr assms(1) here tracks_view [of ?rows x'] by simp
    next
      case None
      then obtain h' where "tracks (?rows @ [(ft_intent f, r, h')]) x'" using end_state by auto
      note there = tracks_view [OF this]
      have "ft_intent f \<notin> fst ` set ?rows" using None by (simp add: map_of_eq_None_iff)
      then show ?thesis
        using there here end_state Inr assms(1) None by (auto simp: fun_eq_iff map_add_def split: option.splits)
    qed
  qed
qed

lemma executor_forget_spec:
  assumes "executor_wf x" "executor_forget w i x = (res, x')"
  shows "executor_wf x' \<and> inflight_of x' = (if isl res then inflight_of x else (inflight_of x)(i := None))"
proof -
  let ?rows = "fd_inflight (xe_db x)"
  note run = tripleD [OF executor_forget_tracks tracks_refl, of w i x]
  note here = tracks_view [OF tracks_refl [of x]]
  show ?thesis
  proof (cases res)
    case (Inl e)
    then show ?thesis using run(2) assms here tracks_view [of ?rows x'] by auto
  next
    case (Inr u)
    have "distinct (map fst (filter (\<lambda>(j, _). j \<noteq> i) ?rows))"
      using assms(1) by (auto simp: executor_wf_def intro: distinct_map_filter)
    then show ?thesis
      using run(1) [OF assms(2) [unfolded Inr]] tracks_view [of _ x'] here Inr by (auto simp: map_of_untracked)
  qed
qed

lemma executor_tracked_spec:
  assumes "executor_wf x" "executor_tracked x = (res, x')"
  shows "executor_wf x' \<and> inflight_of x' = inflight_of x \<and>
    (case res of
       Inl _ \<Rightarrow> True
     | Inr fs \<Rightarrow> distinct (map tk_intent fs) \<and>
         (\<forall>g. g \<in> set fs \<longleftrightarrow> inflight_of x (tk_intent g) = Some (tk_reservation g)))"
proof -
  let ?rows = "fd_inflight (xe_db x)"
  let ?fs = "map (\<lambda>(i, r, _). \<lparr>tk_intent = i, tk_reservation = r\<rparr>) ?rows"
  note run = tripleD [OF fill_reads_tracks(4) tracks_refl, of x]
  have still: "tracks ?rows x'" "\<And>fs. res = Inr fs \<Longrightarrow> fs = ?fs"
    using run assms(2) unfolding executor_tracked_def by (cases res; fastforce)+
  have "map tk_intent ?fs = map fst ?rows" by (induction ?rows) auto
  then have d: "distinct (map tk_intent ?fs)" using assms(1) unfolding executor_wf_def by (simp only:)
  have "g \<in> set ?fs \<longleftrightarrow> inflight_of x (tk_intent g) = Some (tk_reservation g)" for g :: tracked_fill
    using assms(1) map_of_eq_Some_iff [of ?rows]
    by (cases g) (force simp: inflight_of_def executor_wf_def image_iff)
  then show ?thesis
    using still d tracks_view [OF still(1)] tracks_view [OF tracks_refl [of x]] assms(1) by (auto split: sum.split)
qed

interpretation walletkit: execution_engine "executor_ops w" inflight_of executor_wf
  for w :: "'v wallet_ops"
proof (unfold_locales, unfold executor_ops_def exec_ops.simps)
qed ((rule executor_submit_spec executor_forget_spec executor_tracked_spec; assumption) |
     (rule keeps_inflight [OF executor_status_tracks] keeps_inflight [OF executor_other_tracks(1)]
       keeps_inflight [OF executor_other_tracks(2)]; assumption))+

end
