(* ===== verification/Swap_Flow.thy ===== *)
theory Swap_Flow
  imports Trade_Laws Execution_Engine Ledger_Service Ingest Routing_Plans Crosschain_Quotes
begin

text \<open>
  The life of one taker-signed order: the swap service (core/src/swap/service.rs), the execution
  service (core/src/execution/service.rs) and the reconcile service (core/src/reconcile/service.rs).

  The three services share the ledger service, the strategy guard, the trade store and the execution
  engine: together they are the record \<open>swap_world\<close>. The stores and the engine are reached through
  their operation records; the budget source, the settlement reader, the fill builder, the hash and
  the per-leg cost are parameters. Each reading of the clock is an argument. \<open>submit_booked\<close> routes
  on a book that is passed to it, so a book that has gone stale by the time the plan is reserved is
  covered; \<open>swap_submit\<close> takes the book from the current state, as the code does. An \<open>expect\<close> that
  would fire is the error \<open>SwPanic\<close>.
\<close>

datatype swap_error =
    SwLedger solvent_error
  | SwTrade trade_error
  | SwExec exec_error
  | SwSettlement settlement_error
  | SwBuild
  | SwPanic

record swap_config =
  sc_routing :: routing_config
  sc_chain_id :: chain_id
  sc_filler_owner :: address
  sc_reservation_ttl_secs :: u64

record prepared_fill =
  pr_target :: address
  pr_calldata :: "nat list"

record ('l, 't, 'x) swap_env =
  se_store :: "'l store_ops"
  se_budgets :: budget_source
  se_trades :: "'t trade_ops"
  se_exec :: "'x exec_ops"
  se_settled :: "b256 \<Rightarrow> reservation_source list \<Rightarrow> settlement_error + u256 list"
  se_build :: "intent \<Rightarrow> route_plan \<Rightarrow> snapshot \<Rightarrow> unit + prepared_fill"
  se_keccak :: keccak
  se_config :: swap_config

record ('l, 't, 'x) swap_world =
  sw_ledger :: "'l ledger_service"
  sw_guard :: strategy_guard
  sw_trades :: 't
  sw_exec :: 'x

type_synonym ('l, 't, 'x, 'a) swap_call = "(('l, 't, 'x) swap_world, swap_error, 'a) eff"

definition on_ledger :: "('l ledger_service, solvent_error, 'a) eff \<Rightarrow> ('l, 't, 'x, 'a) swap_call" where
  "on_ledger m = on_part sw_ledger (\<lambda>l w. w\<lparr>sw_ledger := l\<rparr>) (emap_err SwLedger m)"

definition on_trades :: "('t, trade_error, 'a) eff \<Rightarrow> ('l, 't, 'x, 'a) swap_call" where
  "on_trades m = on_part sw_trades (\<lambda>t w. w\<lparr>sw_trades := t\<rparr>) (emap_err SwTrade m)"

definition on_exec :: "('x, exec_error, 'a) eff \<Rightarrow> ('l, 't, 'x, 'a) swap_call" where
  "on_exec m = on_part sw_exec (\<lambda>x w. w\<lparr>sw_exec := x\<rparr>) (emap_err SwExec m)"

section \<open>Execution service\<close>

definition exec_fill ::
  "('l, 't, 'x) swap_env \<Rightarrow> pending_fill \<Rightarrow> ('l, 't, 'x, fill_outcome) swap_call" where
  "exec_fill env p =
     ebind (on_exec (eo_simulate (se_exec env) (pf_fill_tx p))) (\<lambda>verdict.
       case verdict of
         SimReject reason \<Rightarrow>
           ebind (on_ledger (service_void (se_store env) (pf_reservation p))) (\<lambda>_.
             eok (FillRejected reason))
       | SimOk \<Rightarrow>
           ebind (on_exec (eo_submit (se_exec env) (pf_fill_tx p) (pf_reservation p))) (\<lambda>handle.
             eok (FillSubmitted handle)))"

text \<open>\<open>settle\<close>: a reservation that is already terminal counts as done.\<close>

fun already_done :: "swap_error + unit \<Rightarrow> swap_error + unit" where
  "already_done (Inl (SwLedger (SeLedger (WrongState i st expected)))) = Inr ()"
| "already_done r = r"

definition settle_ledger :: "('l, 't, 'x, unit) swap_call \<Rightarrow> ('l, 't, 'x, unit) swap_call" where
  "settle_ledger m = ebind (etry m) (\<lambda>r. eres (already_done r))"

definition post_confirmed ::
  "('l, 't, 'x) swap_env \<Rightarrow> tracked_fill \<Rightarrow> b256 \<Rightarrow> ('l, 't, 'x, unit) swap_call" where
  "post_confirmed env f tx =
     ebind (eread (\<lambda>w. reservation_sources (sw_ledger w) (tk_reservation f))) (\<lambda>found.
       case found of
         Some sources \<Rightarrow>
           ebind (emap_err SwSettlement (eres (se_settled env tx sources))) (\<lambda>filled.
             settle_ledger (on_ledger (service_post (se_store env) (tk_reservation f) filled)))
       | None \<Rightarrow> eok ())"

definition reconcile_fill ::
  "('l, 't, 'x) swap_env \<Rightarrow> tracked_fill \<Rightarrow> ('l, 't, 'x, settled_fill option) swap_call" where
  "reconcile_fill env f =
     ebind (on_exec (eo_status (se_exec env) (tk_intent f))) (\<lambda>status.
       case status of
         None \<Rightarrow> eok None
       | Some (ExConfirmed block tx) \<Rightarrow>
           ebind (post_confirmed env f tx) (\<lambda>_.
             eok (Some \<lparr>sf_intent = tk_intent f, sf_outcome = SoConfirmed tx block\<rparr>))
       | Some ExPending \<Rightarrow> eok None
       | Some _ \<Rightarrow>
           ebind (settle_ledger (on_ledger (service_void (se_store env) (tk_reservation f)))) (\<lambda>_.
             eok (Some \<lparr>sf_intent = tk_intent f, sf_outcome = SoFailed\<rparr>)))"

fun reconcile_loop ::
  "('l, 't, 'x) swap_env \<Rightarrow> tracked_fill list \<Rightarrow> settled_fill list \<Rightarrow>
   ('l, 't, 'x, settled_fill list) swap_call" where
  "reconcile_loop env [] settled = eok settled"
| "reconcile_loop env (f # fs) settled =
     ebind (reconcile_fill env f) (\<lambda>s.
       reconcile_loop env fs (case s of None \<Rightarrow> settled | Some x \<Rightarrow> settled @ [x]))"

definition exec_reconcile :: "('l, 't, 'x) swap_env \<Rightarrow> ('l, 't, 'x, settled_fill list) swap_call" where
  "exec_reconcile env =
     ebind (on_exec (eo_tick (se_exec env))) (\<lambda>_.
     ebind (on_exec (eo_tracked (se_exec env))) (\<lambda>fs.
       reconcile_loop env fs []))"

definition exec_forget :: "('l, 't, 'x) swap_env \<Rightarrow> intent_id \<Rightarrow> ('l, 't, 'x, unit) swap_call" where
  "exec_forget env i = on_exec (eo_forget (se_exec env) i)"

definition exec_on_reorg ::
  "('l, 't, 'x) swap_env \<Rightarrow> reservation_id \<Rightarrow> ('l, 't, 'x, unit) swap_call" where
  "exec_on_reorg env r = on_ledger (service_void_reorg (se_store env) r)"

definition exec_pending :: "('l, 't, 'x) swap_env \<Rightarrow> ('l, 't, 'x, nat) swap_call" where
  "exec_pending env = ebind (on_exec (eo_tracked (se_exec env))) (\<lambda>fs. eok (length fs))"

definition tracked_reservations ::
  "('l, 't, 'x) swap_env \<Rightarrow> ('l, 't, 'x, reservation_id bset) swap_call" where
  "tracked_reservations env =
     ebind (on_exec (eo_tracked (se_exec env))) (\<lambda>fs. eok (bs_of_list (map tk_reservation fs)))"

section \<open>Reconcile service\<close>

definition failed_settlement :: "u64 \<Rightarrow> settlement" where
  "failed_settlement now =
     \<lparr>stl_status = TsFailed, stl_amount_out = None, stl_tx_hash = None, stl_block_number = None, stl_at = now\<rparr>"

definition apply_settlement ::
  "('l, 't, 'x) swap_env \<Rightarrow> intent_id \<Rightarrow> (trade \<Rightarrow> settlement) \<Rightarrow> ('l, 't, 'x, unit) swap_call" where
  "apply_settlement env i f =
     ebind (on_trades (to_find_by_order (se_trades env) i)) (\<lambda>found.
       case found of
         None \<Rightarrow> eok ()
       | Some t \<Rightarrow> on_trades (to_settle (se_trades env) (t_id t) (f t)))"

definition fill_settlement :: "settled_outcome \<Rightarrow> u64 \<Rightarrow> trade \<Rightarrow> settlement" where
  "fill_settlement outcome now t =
     (case outcome of
        SoConfirmed tx block \<Rightarrow>
          \<lparr>stl_status = TsConfirmed, stl_amount_out = Some (t_min_amount_out t), stl_tx_hash = Some tx,
           stl_block_number = Some block, stl_at = now\<rparr>
      | SoFailed \<Rightarrow> failed_settlement now)"

definition settle_trade ::
  "('l, 't, 'x) swap_env \<Rightarrow> u64 \<Rightarrow> settled_fill \<Rightarrow> ('l, 't, 'x, unit) swap_call" where
  "settle_trade env now s = apply_settlement env (sf_intent s) (fill_settlement (sf_outcome s) now)"

fun settle_fills ::
  "('l, 't, 'x) swap_env \<Rightarrow> u64 \<Rightarrow> settled_fill list \<Rightarrow> ('l, 't, 'x, unit) swap_call" where
  "settle_fills env now [] = eok ()"
| "settle_fills env now (s # ss) =
     ebind (settle_trade env now s) (\<lambda>_.
     ebind (exec_forget env (sf_intent s)) (\<lambda>_.
       settle_fills env now ss))"

fun fail_swept ::
  "('l, 't, 'x) swap_env \<Rightarrow> u64 \<Rightarrow> intent_id list \<Rightarrow> ('l, 't, 'x, unit) swap_call" where
  "fail_swept env now [] = eok ()"
| "fail_swept env now (i # is) =
     ebind (apply_settlement env i (\<lambda>_. failed_settlement now)) (\<lambda>_. fail_swept env now is)"

record reconcile_report =
  rr_settled :: nat
  rr_swept :: nat

definition reconcile_tick ::
  "('l, 't, 'x) swap_env \<Rightarrow> u64 \<Rightarrow> u64 \<Rightarrow> ('l, 't, 'x, reconcile_report) swap_call" where
  "reconcile_tick env now sweep_now =
     ebind (exec_reconcile env) (\<lambda>settled.
     ebind (settle_fills env now settled) (\<lambda>_.
     ebind (tracked_reservations env) (\<lambda>in_flight.
     ebind (on_ledger (sweep_expired (se_store env) sweep_now in_flight)) (\<lambda>swept.
     ebind (fail_swept env now swept) (\<lambda>_.
       eok \<lparr>rr_settled = length settled, rr_swept = length swept\<rparr>)))))"

section \<open>Swap service\<close>

record trade_prices =
  tp_token_in_usd :: "f64_bits option"
  tp_token_out_usd :: "f64_bits option"

record swap_outcome =
  so_trade_id :: trade_id
  so_status :: trade_status

record swap_amounts =
  sa_token_in :: address
  sa_token_out :: address
  sa_amount_in :: u256
  sa_min_out :: u256

record swap_output =
  sp_token :: address
  sp_amount :: u256

definition curve_amount :: "amount_curve \<Rightarrow> u64 \<Rightarrow> swap_error + u256" where
  "curve_amount c now = ok_or SwPanic (amount_at c now)"

definition primary_output :: "intent \<Rightarrow> u64 \<Rightarrow> swap_error + swap_output option" where
  "primary_output intent now =
     (case in_outputs intent of
        [] \<Rightarrow> Inr None
      | o' # _ \<Rightarrow>
          rbind (curve_amount (io_curve o') now) (\<lambda>amount.
            Inr (Some \<lparr>sp_token = io_token o', sp_amount = amount\<rparr>)))"

definition swap_amounts_of :: "intent \<Rightarrow> u64 \<Rightarrow> swap_error + swap_amounts option" where
  "swap_amounts_of intent now =
     rbind (primary_output intent now) (\<lambda>output.
       case output of
         None \<Rightarrow> Inr None
       | Some out \<Rightarrow>
           rbind (curve_amount (ii_curve (in_input intent)) now) (\<lambda>amount_in.
             Inr (Some \<lparr>sa_token_in = ii_token (in_input intent), sa_token_out = sp_token out,
                        sa_amount_in = amount_in, sa_min_out = sp_amount out\<rparr>)))"

definition reservation_preimage :: "intent_id \<Rightarrow> route_plan \<Rightarrow> nat list" where
  "reservation_preimage intent plan =
     be_bytes 32 intent @
     concat (map (\<lambda>leg. be_bytes 20 (rl_maker leg) @ be_bytes 32 (rl_hash leg) @
                        be_bytes 20 (rl_token_out leg) @ be_bytes 32 (rl_amount_out leg)) (rp_legs plan))"

definition reservation_id_of :: "keccak \<Rightarrow> intent_id \<Rightarrow> route_plan \<Rightarrow> reservation_id" where
  "reservation_id_of k intent plan = k (reservation_preimage intent plan)"

definition trade_legs :: "route_plan \<Rightarrow> trade_leg list" where
  "trade_legs plan =
     map (\<lambda>leg. \<lparr>tl_maker = rl_maker leg, tl_strategy_hash = rl_hash leg,
                 tl_amount_in = rl_amount_in leg, tl_amount_out = rl_amount_out leg\<rparr>) (rp_legs plan)"

definition reached :: "u64 \<Rightarrow> trade_status list \<Rightarrow> trade_attempt list" where
  "reached now stages = map (\<lambda>st. \<lparr>ta_status = st, ta_at = now\<rparr>) stages"

definition plan_is_guarded :: "route_plan \<Rightarrow> snapshot \<Rightarrow> guarded_set \<Rightarrow> bool" where
  "plan_is_guarded plan snap admission =
     list_ex (\<lambda>leg.
       list_ex (\<lambda>st. sk_maker (ms_key st) = rl_maker leg \<and> sk_hash (ms_key st) = rl_hash leg \<and>
                     is_guarded admission (ms_key st)) (bm_values (sn_strategies snap))) (rp_legs plan)"

definition swap_trade ::
  "trade_id \<Rightarrow> intent \<Rightarrow> address \<Rightarrow> swap_amounts \<Rightarrow> route_plan option \<Rightarrow> u64 \<Rightarrow> trade_status \<Rightarrow>
   trade_prices \<Rightarrow> trade" where
  "swap_trade i intent taker amounts plan now status prices =
     \<lparr>t_id = i, t_order_hash = in_id intent, t_taker = taker, t_token_in = sa_token_in amounts,
      t_token_out = sa_token_out amounts, t_amount_in = sa_amount_in amounts,
      t_min_amount_out = sa_min_out amounts, t_amount_out = None, t_status = status,
      t_deadline_block = in_deadline intent, t_signature = Some (in_signature intent),
      t_price_impact_bps = map_option rp_price_impact_bps plan,
      t_surplus = map_option rp_expected_profit plan, t_tx_hash = None, t_block_number = None,
      t_created_at = now, t_settled_at = None,
      t_token_in_price_usd = tp_token_in_usd prices, t_token_out_price_usd = tp_token_out_usd prices\<rparr>"

definition swap_settle ::
  "('l, 't, 'x) swap_env \<Rightarrow> trade_id \<Rightarrow> trade_status \<Rightarrow> u64 \<Rightarrow> ('l, 't, 'x, unit) swap_call" where
  "swap_settle env i status now =
     on_trades (to_settle (se_trades env) i
       \<lparr>stl_status = status, stl_amount_out = None, stl_tx_hash = None, stl_block_number = None, stl_at = now\<rparr>)"

definition declined_at :: "trade_id \<Rightarrow> swap_outcome" where
  "declined_at i = \<lparr>so_trade_id = i, so_status = TsDeclined\<rparr>"

definition swap_declined ::
  "('l, 't, 'x) swap_env \<Rightarrow> trade_id \<Rightarrow> intent \<Rightarrow> address \<Rightarrow> u64 \<Rightarrow> trade_prices \<Rightarrow>
   ('l, 't, 'x, swap_outcome) swap_call" where
  "swap_declined env i intent taker now prices =
     ebind (eres (primary_output intent now)) (\<lambda>output.
     ebind (eres (curve_amount (ii_curve (in_input intent)) now)) (\<lambda>amount_in.
     let amounts = \<lparr>sa_token_in = ii_token (in_input intent),
                    sa_token_out = (case output of None \<Rightarrow> 0 | Some out \<Rightarrow> sp_token out),
                    sa_amount_in = amount_in,
                    sa_min_out = (case output of None \<Rightarrow> 0 | Some out \<Rightarrow> sp_amount out)\<rparr>;
         t = swap_trade i intent taker amounts None now TsDeclined prices
     in
     ebind (on_trades (to_create (se_trades env) t [] (reached now [TsCreated, TsDeclined]))) (\<lambda>created.
     ebind (swap_settle env (cr_id created) TsDeclined now) (\<lambda>_.
       eok (declined_at (cr_id created))))))"

definition reserve_or_decline ::
  "('l, 't, 'x) swap_env \<Rightarrow> trade_id \<Rightarrow> intent_id \<Rightarrow> reservation_id \<Rightarrow> route_plan \<Rightarrow> snapshot \<Rightarrow>
   u64 \<Rightarrow> u64 \<Rightarrow> ('l, 't, 'x, swap_outcome option) swap_call" where
  "reserve_or_decline env i intent rid plan snap now ledger_now =
     ebind (eread (\<lambda>w. guard_snapshot (sw_guard w))) (\<lambda>admission.
       if plan_is_guarded plan snap admission then
         ebind (swap_settle env i TsDeclined now) (\<lambda>_. eok (Some (declined_at i)))
       else
         ebind (etry (on_ledger (service_reserve (se_store env) (se_budgets env) ledger_now rid intent
                        (sources_of plan) (sc_reservation_ttl_secs (se_config env))))) (\<lambda>result.
           case result of
             Inr _ \<Rightarrow> eok None
           | Inl (SwLedger (SeLedger (Insufficient _))) \<Rightarrow>
               ebind (swap_settle env i TsDeclined now) (\<lambda>_. eok (Some (declined_at i)))
           | Inl e \<Rightarrow> eerr e))"

definition submit_fill ::
  "('l, 't, 'x) swap_env \<Rightarrow> trade_id \<Rightarrow> intent \<Rightarrow> route_plan \<Rightarrow> snapshot \<Rightarrow> reservation_id \<Rightarrow> u64 \<Rightarrow>
   ('l, 't, 'x, swap_outcome) swap_call" where
  "submit_fill env i intent plan snap rid now =
     ebind (emap_err (\<lambda>_. SwBuild) (eres (se_build env intent plan snap))) (\<lambda>fill.
     ebind (exec_fill env
              \<lparr>pf_fill_tx = fill_tx_new (in_id intent) (sc_chain_id (se_config env))
                             (sc_filler_owner (se_config env)) (pr_target fill) (pr_calldata fill),
               pf_reservation = rid\<rparr>) (\<lambda>outcome.
       case outcome of
         FillSubmitted _ \<Rightarrow>
           ebind (on_trades (to_advance (se_trades env) i TsSimulated now)) (\<lambda>_.
           ebind (on_trades (to_advance (se_trades env) i TsSubmitted now)) (\<lambda>_.
             eok \<lparr>so_trade_id = i, so_status = TsSubmitted\<rparr>))
       | FillRejected _ \<Rightarrow>
           ebind (swap_settle env i TsDeclined now) (\<lambda>_. eok (declined_at i))))"

definition drive_plan ::
  "('l, 't, 'x) swap_env \<Rightarrow> trade_id \<Rightarrow> intent \<Rightarrow> route_plan \<Rightarrow> snapshot \<Rightarrow> u64 \<Rightarrow> u64 \<Rightarrow>
   ('l, 't, 'x, swap_outcome) swap_call" where
  "drive_plan env i intent plan snap now ledger_now =
     (let rid = reservation_id_of (se_keccak env) (in_id intent) plan in
      ebind (reserve_or_decline env i (in_id intent) rid plan snap now ledger_now) (\<lambda>declined.
        case declined of
          Some outcome \<Rightarrow> eok outcome
        | None \<Rightarrow>
            ebind (on_trades (to_advance (se_trades env) i TsReserved now)) (\<lambda>_.
              submit_fill env i intent plan snap rid now)))"

definition swap_request :: "intent \<Rightarrow> swap_amounts \<Rightarrow> route_request" where
  "swap_request intent amounts =
     \<lparr>rq_intent = in_id intent, rq_token_in = sa_token_in amounts, rq_token_out = sa_token_out amounts,
      rq_amount = sa_min_out amounts, rq_exact_in = False\<rparr>"

definition submit_booked ::
  "('l, 't, 'x) swap_env \<Rightarrow> routing_book \<Rightarrow> u64 \<Rightarrow> u64 \<Rightarrow> (route_request \<Rightarrow> u256) \<Rightarrow> intent \<Rightarrow> address \<Rightarrow>
   trade_id \<Rightarrow> trade_prices \<Rightarrow> ('l, 't, 'x, swap_outcome) swap_call" where
  "submit_booked env bk now ledger_now leg_cost intent taker i prices =
     ebind (eres (swap_amounts_of intent now)) (\<lambda>found.
       case found of
         None \<Rightarrow> swap_declined env i intent taker now prices
       | Some amounts \<Rightarrow>
           let request = swap_request intent amounts in
           case route bk request (unwrap_or (sa_amount_in amounts) (in_routing_input_limit intent))
                  (sc_routing (se_config env)) (leg_cost request) None of
             None \<Rightarrow> swap_declined env i intent taker now prices
           | Some plan \<Rightarrow>
               ebind (on_trades (to_create (se_trades env)
                        (swap_trade i intent taker amounts (Some plan) now TsQuoted prices)
                        (trade_legs plan) (reached now [TsCreated, TsQuoted]))) (\<lambda>created.
                 if cr_created created then
                   drive_plan env (cr_id created) intent plan (rb_snapshot bk) now ledger_now
                 else
                   ebind (on_trades (to_info (se_trades env) (cr_id created))) (\<lambda>known.
                     let status = (case known of None \<Rightarrow> TsQuoted | Some x \<Rightarrow> t_status (ti_trade x)) in
                     if status \<noteq> TsCreated \<and> status \<noteq> TsQuoted
                     then eok \<lparr>so_trade_id = cr_id created, so_status = status\<rparr>
                     else drive_plan env (cr_id created) intent plan (rb_snapshot bk) now ledger_now)))"

definition current_book :: "snapshot \<Rightarrow> ('l, 't, 'x) swap_world \<Rightarrow> routing_book" where
  "current_book snap w =
     \<lparr>rb_snapshot = snap, rb_caps = sv_available (sw_ledger w), rb_guards = guard_snapshot (sw_guard w)\<rparr>"

definition swap_submit ::
  "('l, 't, 'x) swap_env \<Rightarrow> snapshot \<Rightarrow> u64 \<Rightarrow> u64 \<Rightarrow> (route_request \<Rightarrow> u256) \<Rightarrow> intent \<Rightarrow> address \<Rightarrow>
   trade_id \<Rightarrow> trade_prices \<Rightarrow> ('l, 't, 'x, swap_outcome) swap_call" where
  "swap_submit env snap now ledger_now leg_cost intent taker i prices =
     ebind (eread (current_book snap)) (\<lambda>bk.
       submit_booked env bk now ledger_now leg_cost intent taker i prices)"

end
