(* ===== verification/Swap_Laws.thy ===== *)
theory Swap_Laws
  imports Swap_Flow
begin

text \<open>
  Laws of the swap flow, proved once over any ledger store, trade store and execution engine that
  meet their contracts (the locale \<open>swap_system\<close>), as triples over the shared state: every call
  lets trades only progress, adds at most the planned hold, and forgets a fill only after its hold
  is released and its trade settled.
\<close>

section \<open>Lifting component calls\<close>

lemma triple_part:
  assumes "\<And>w r s. P w \<Longrightarrow> m (part w) = (r, s) \<Longrightarrow>
     (case r of Inl e \<Rightarrow> E (f e) (put s w) | Inr x \<Rightarrow> Q x (put s w))"
  shows "triple P (on_part part put (emap_err f m)) Q E"
proof (rule tripleI)
  fix w x w'
  assume P: "P w" and run: "on_part part put (emap_err f m) w = (Inr x, w')"
  obtain r s where call: "m (part w) = (r, s)" by (cases "m (part w)")
  then show "Q x w'" using assms [OF P call] run by (cases r) (simp_all add: on_part_def emap_err_def)
next
  fix w e w'
  assume P: "P w" and run: "on_part part put (emap_err f m) w = (Inl e, w')"
  obtain r s where call: "m (part w) = (r, s)" by (cases "m (part w)")
  then show "E e w'" using assms [OF P call] run by (cases r) (auto simp: on_part_def emap_err_def)
qed

lemma triple_on_ledger:
  assumes "\<And>w r s. P w \<Longrightarrow> m (sw_ledger w) = (r, s) \<Longrightarrow>
     (case r of Inl e \<Rightarrow> E (SwLedger e) (w\<lparr>sw_ledger := s\<rparr>) | Inr x \<Rightarrow> Q x (w\<lparr>sw_ledger := s\<rparr>))"
  shows "triple P (on_ledger m) Q E"
  unfolding on_ledger_def by (rule triple_part) (rule assms)

lemma triple_on_trades:
  assumes "\<And>w r s. P w \<Longrightarrow> m (sw_trades w) = (r, s) \<Longrightarrow>
     (case r of Inl e \<Rightarrow> E (SwTrade e) (w\<lparr>sw_trades := s\<rparr>) | Inr x \<Rightarrow> Q x (w\<lparr>sw_trades := s\<rparr>))"
  shows "triple P (on_trades m) Q E"
  unfolding on_trades_def by (rule triple_part) (rule assms)

lemma triple_on_exec:
  assumes "\<And>w r s. P w \<Longrightarrow> m (sw_exec w) = (r, s) \<Longrightarrow>
     (case r of Inl e \<Rightarrow> E (SwExec e) (w\<lparr>sw_exec := s\<rparr>) | Inr x \<Rightarrow> Q x (w\<lparr>sw_exec := s\<rparr>))"
  shows "triple P (on_exec m) Q E"
  unfolding on_exec_def by (rule triple_part) (rule assms)

lemma triple_sum_case:
  "(\<And>e. r = Inl e \<Longrightarrow> triple P (f e) Q E) \<Longrightarrow> (\<And>x. r = Inr x \<Longrightarrow> triple P (g x) Q E) \<Longrightarrow>
   triple P (case r of Inl e \<Rightarrow> f e | Inr x \<Rightarrow> g x) Q E"
  by (cases r) simp_all

section \<open>An invariant that every component call keeps\<close>

text \<open>
  \<open>inv_call I m\<close>: the computation keeps \<open>I\<close>, whether it succeeds or fails. It passes through every
  construct, so a service keeps \<open>I\<close> as soon as the calls it makes to its components do.
\<close>

definition inv_call :: "('w \<Rightarrow> bool) \<Rightarrow> ('w, 'e, 'a) eff \<Rightarrow> bool" where
  "inv_call I m \<longleftrightarrow> triple I m (\<lambda>_. I) (\<lambda>_. I)"

named_theorems inv_calls

lemma inv_callD: "inv_call I m \<Longrightarrow> I w \<Longrightarrow> m w = (r, w') \<Longrightarrow> I w'"
  unfolding inv_call_def by (cases r) (auto dest: tripleD)

lemma inv_pure [inv_calls]: "inv_call I (eok x)" "inv_call I (eerr e)" "inv_call I (eres r)" "inv_call I (eread f)"
  unfolding inv_call_def by (auto simp: triple_def eread_def split: sum.split)

lemma inv_ebind [inv_calls]: "inv_call I m \<Longrightarrow> (\<And>x. inv_call I (f x)) \<Longrightarrow> inv_call I (ebind m f)"
  unfolding inv_call_def by (rule triple_ebind)

lemma inv_etry [inv_calls]: "inv_call I m \<Longrightarrow> inv_call I (etry m)"
  unfolding inv_call_def by (rule triple_etry)

lemma inv_emap_err [inv_calls]: "inv_call I m \<Longrightarrow> inv_call I (emap_err f m)"
  unfolding inv_call_def by (rule triple_emap_err)

lemma inv_if [inv_calls]: "inv_call I m \<Longrightarrow> inv_call I n \<Longrightarrow> inv_call I (if b then m else n)"
  by simp

lemma inv_cases [inv_calls]:
  "inv_call I m \<Longrightarrow> (\<And>y. inv_call I (f y)) \<Longrightarrow> inv_call I (case x of None \<Rightarrow> m | Some y \<Rightarrow> f y)"
  "inv_call I m \<Longrightarrow> (\<And>s. inv_call I (g s)) \<Longrightarrow> inv_call I (case v of SimOk \<Rightarrow> m | SimReject s \<Rightarrow> g s)"
  "(\<And>h. inv_call I (g1 h)) \<Longrightarrow> (\<And>s. inv_call I (g s)) \<Longrightarrow>
     inv_call I (case oc of FillSubmitted h \<Rightarrow> g1 h | FillRejected s \<Rightarrow> g s)"
  "(\<And>e. inv_call I (k e)) \<Longrightarrow> (\<And>x. inv_call I (k' x)) \<Longrightarrow> inv_call I (case r of Inl e \<Rightarrow> k e | Inr x \<Rightarrow> k' x)"
  by (simp_all split: option.split sim_verdict.split fill_outcome.split sum.split)

lemma inv_status_case [inv_calls]:
  assumes "inv_call I m" "\<And>b t. inv_call I (f b t)" "inv_call I n"
  shows "inv_call I (case st of None \<Rightarrow> m | Some (ExConfirmed b t) \<Rightarrow> f b t | Some ExPending \<Rightarrow> m
           | Some (ExFailed s) \<Rightarrow> n | Some ExDropped \<Rightarrow> n)"
  using assms by (simp split: option.split exec_status.split)

text \<open>The calls to the components are the hypotheses; everything above them follows.\<close>

definition component_calls ::
  "(('l, 't, 'x) swap_world \<Rightarrow> bool) \<Rightarrow> ('l, 't, 'x) swap_env \<Rightarrow> bool" where
  "component_calls I env \<longleftrightarrow>
     (\<forall>t ls as. inv_call I (on_trades (to_create (se_trades env) t ls as))) \<and>
     (\<forall>i st n. inv_call I (on_trades (to_advance (se_trades env) i st n))) \<and>
     (\<forall>i o'. inv_call I (on_trades (to_settle (se_trades env) i o'))) \<and>
     (\<forall>i. inv_call I (on_trades (to_info (se_trades env) i))) \<and>
     (\<forall>h. inv_call I (on_trades (to_find_by_order (se_trades env) h))) \<and>
     (\<forall>f r. inv_call I (on_exec (eo_submit (se_exec env) f r))) \<and>
     (\<forall>i. inv_call I (on_exec (eo_status (se_exec env) i))) \<and>
     (\<forall>i. inv_call I (on_exec (eo_forget (se_exec env) i))) \<and>
     inv_call I (on_exec (eo_tracked (se_exec env))) \<and>
     inv_call I (on_exec (eo_tick (se_exec env))) \<and>
     (\<forall>f. inv_call I (on_exec (eo_simulate (se_exec env) f))) \<and>
     (\<forall>now i intent ss ttl. inv_call I (on_ledger (service_reserve (se_store env) (se_budgets env) now i intent ss ttl))) \<and>
     (\<forall>i fs. inv_call I (on_ledger (service_post (se_store env) i fs))) \<and>
     (\<forall>i. inv_call I (on_ledger (service_void (se_store env) i))) \<and>
     (\<forall>i. inv_call I (on_ledger (service_void_reorg (se_store env) i))) \<and>
     (\<forall>now ex. inv_call I (on_ledger (sweep_expired (se_store env) now ex)))"

lemma component_callsD:
  assumes "component_calls I env"
  shows "inv_call I (on_trades (to_create (se_trades env) t ls as))"
    and "inv_call I (on_trades (to_advance (se_trades env) i st n))"
    and "inv_call I (on_trades (to_settle (se_trades env) i o'))"
    and "inv_call I (on_trades (to_info (se_trades env) i))"
    and "inv_call I (on_trades (to_find_by_order (se_trades env) h))"
    and "inv_call I (on_exec (eo_submit (se_exec env) f r))"
    and "inv_call I (on_exec (eo_status (se_exec env) i))"
    and "inv_call I (on_exec (eo_forget (se_exec env) i))"
    and "inv_call I (on_exec (eo_tracked (se_exec env)))"
    and "inv_call I (on_exec (eo_tick (se_exec env)))"
    and "inv_call I (on_exec (eo_simulate (se_exec env) f))"
    and "inv_call I (on_ledger (service_reserve (se_store env) (se_budgets env) now j intent ss ttl))"
    and "inv_call I (on_ledger (service_post (se_store env) j fs))"
    and "inv_call I (on_ledger (service_void (se_store env) j))"
    and "inv_call I (on_ledger (service_void_reorg (se_store env) j))"
    and "inv_call I (on_ledger (sweep_expired (se_store env) now ex))"
  using assms unfolding component_calls_def by simp_all

lemma services_keep:
  assumes "component_calls I env"
  shows "inv_call I (exec_fill env p)"
    and "inv_call I (reconcile_fill env g)"
    and "inv_call I (apply_settlement env i k)"
    and "inv_call I (swap_settle env ti status now)"
    and "inv_call I (tracked_reservations env)"
  unfolding exec_fill_def reconcile_fill_def post_confirmed_def settle_ledger_def apply_settlement_def
    swap_settle_def tracked_reservations_def
  by (rule inv_calls component_callsD [OF assms])+

lemma reconcile_keeps:
  assumes "component_calls I env"
  shows "inv_call I (reconcile_loop env fs acc)" and "inv_call I (settle_fills env now ss)"
    and "inv_call I (fail_swept env now is)"
proof -
  note calls = component_callsD [OF assms] services_keep [OF assms]
  show "inv_call I (reconcile_loop env fs acc)"
    by (induction fs arbitrary: acc) (simp_all only: reconcile_loop.simps inv_calls calls)
  show "inv_call I (settle_fills env now ss)"
    by (induction ss) (simp_all only: settle_fills.simps settle_trade_def exec_forget_def inv_calls calls)
  show "inv_call I (fail_swept env now is)"
    by (induction "is") (simp_all only: fail_swept.simps inv_calls calls)
qed

lemma tick_keeps: "component_calls I env \<Longrightarrow> inv_call I (reconcile_tick env now sweep_now)"
  unfolding reconcile_tick_def exec_reconcile_def
  by (rule inv_calls | erule component_callsD services_keep reconcile_keeps)+

lemma submit_fill_keeps: "component_calls I env \<Longrightarrow> inv_call I (submit_fill env i intent plan snap rid now)"
  unfolding submit_fill_def
  by (rule inv_calls | erule component_callsD services_keep)+

lemma reserve_or_decline_keeps:
  assumes "component_calls I env"
  shows "inv_call I (reserve_or_decline env i intent rid plan snap now ledger_now)"
proof -
  have decline: "inv_call I (case result of Inr _ \<Rightarrow> eok None
      | Inl (SwLedger (SeLedger (Insufficient _))) \<Rightarrow>
          ebind (swap_settle env i TsDeclined now) (\<lambda>_. eok (Some (declined_at i)))
      | Inl e \<Rightarrow> eerr e)" for result :: "swap_error + unit"
    by (auto simp only: split: sum.split swap_error.split solvent_error.split ledger_error.split
        intro!: inv_calls services_keep [OF assms])
  show ?thesis
    unfolding reserve_or_decline_def
    by (rule decline inv_calls component_callsD [OF assms] services_keep [OF assms])+
qed

lemma submit_keeps:
  assumes "component_calls I env"
  shows "inv_call I (submit_booked env bk now ledger_now cost intent taker i prices)"
  unfolding submit_booked_def swap_declined_def drive_plan_def Let_def
  by (rule inv_calls component_callsD [OF assms] services_keep [OF assms] submit_fill_keeps [OF assms]
      reserve_or_decline_keeps [OF assms])+

end
