(* ===== verification/Swap_Holds.thy ===== *)
theory Swap_Holds
  imports Swap_Laws Ledger_Recovery
begin

text \<open>
  The pending holds of the ledger through the swap flow: which commands can add one, which release
  one, and what a tick of the reconcile service leaves behind.
\<close>

section \<open>Pending holds\<close>

definition held_in :: "ledger \<Rightarrow> reservation_id set" where
  "held_in l = {i. \<exists>r. bm_get (lg_reservations l) i = Some r \<and> r_state r = StPending}"

abbreviation held_ids :: "'l ledger_service \<Rightarrow> reservation_id set" where
  "held_ids sv \<equiv> held_in (sv_ledger sv)"

lemma held_cong: "lg_reservations l' = lg_reservations l \<Longrightarrow> held_in l' = held_in l"
  by (simp add: held_in_def)

lemma transition_held: "st \<noteq> StPending \<Longrightarrow> held_in (transition l i st) = held_in l - {i}"
  by (auto simp: held_in_def transition_def split: option.splits if_splits)

lemma transition_held_upd:
  "st \<noteq> StPending \<Longrightarrow> held_in (transition (l\<lparr>lg_held := h, lg_filled := f\<rparr>) i st) = held_in l - {i}"
  "st \<noteq> StPending \<Longrightarrow> held_in (transition (l\<lparr>lg_held := h\<rparr>) i st) = held_in l - {i}"
proof -
  have "held_in (l\<lparr>lg_held := h, lg_filled := f\<rparr>) = held_in l" "held_in (l\<lparr>lg_held := h\<rparr>) = held_in l"
    by (simp_all add: held_in_def)
  then show "st \<noteq> StPending \<Longrightarrow> held_in (transition (l\<lparr>lg_held := h, lg_filled := f\<rparr>) i st) = held_in l - {i}"
    "st \<noteq> StPending \<Longrightarrow> held_in (transition (l\<lparr>lg_held := h\<rparr>) i st) = held_in l - {i}"
    by (simp_all add: transition_held)
qed

lemma wrong_state_released:
  "active_sources l i = Inl (WrongState j st ex) \<Longrightarrow> i \<notin> held_in l"
  by (cases "bm_get (lg_reservations l) i") (auto simp: active_sources_def held_in_def)

lemma release_held:
  assumes "release_active l i st = (res, l')" "st \<noteq> StPending"
  shows "held_in l' \<subseteq> held_in l" and "res = Inr () \<Longrightarrow> i \<notin> held_in l'"
    and "res = Inl (WrongState j st' ex) \<Longrightarrow> i \<notin> held_in l'"
  using assms wrong_state_released [of l i j st' ex]
  by (auto simp: release_active_def release_sources_def transition_held_upd split: sum.splits)

lemma void_held:
  assumes "void l i = (res, l')"
  shows "held_in l' \<subseteq> held_in l" and "res = Inr () \<Longrightarrow> i \<notin> held_in l'"
    and "res = Inl (WrongState j st ex) \<Longrightarrow> i \<notin> held_in l'"
  using release_held [of l i StVoided res l'] assms by (auto simp: void_def)

lemma post_held:
  assumes "post l i fs = (res, l')"
  shows "held_in l' \<subseteq> held_in l" and "res = Inr () \<Longrightarrow> i \<notin> held_in l'"
    and "res = Inl (WrongState j st ex) \<Longrightarrow> i \<notin> held_in l'"
proof -
  have nowrong: "check_fills k ss fs \<noteq> Inl (WrongState j st ex)" for k ss
    by (induction k ss fs rule: check_fills.induct) auto
  show "held_in l' \<subseteq> held_in l" "res = Inr () \<Longrightarrow> i \<notin> held_in l'"
    "res = Inl (WrongState j st ex) \<Longrightarrow> i \<notin> held_in l'"
    using assms wrong_state_released [of l i j st ex] nowrong
    by (auto simp: post_def transition_held_upd split: sum.splits if_splits)
qed

lemma expire_held: "expire l i = (res, l') \<Longrightarrow> held_in l' \<subseteq> held_in l"
  by (auto simp: expire_def release_sources_def transition_held_upd split: sum.splits)

lemma void_reorg_held: "void_reorg l i = (res, l') \<Longrightarrow> ledger_shape l \<Longrightarrow> held_in l' \<subseteq> held_in l"
proof (cases res)
  case (Inr u)
  assume "void_reorg l i = (res, l')" "ledger_shape l"
  then show ?thesis using Inr by (auto simp: held_in_def elim!: void_reorg_Inr split: if_splits)
qed (auto dest: error_leaves_ledger)

lemma durable_first_held:
  assumes "\<And>l res l'. P l \<Longrightarrow> cmd l = (res, l') \<Longrightarrow> held_in l' \<subseteq> held_in l" and "P (sv_ledger sv)"
    and "durable_first persist cmd sv = (res, sv')"
  shows "held_ids sv' \<subseteq> held_ids sv"
proof (cases "persist (sv_store sv)")
  case (Pair r st)
  show ?thesis
  proof (cases "cmd (sv_ledger sv)")
    case cmd: (Pair r' l')
    then show ?thesis
      using assms(3) assms(1) [OF assms(2) cmd] Pair by (auto simp: durable_first_def split: sum.splits)
  qed
qed

lemma durable_first_released:
  assumes "durable_first persist cmd sv = (res, sv')"
    and "\<And>r l'. cmd (sv_ledger sv) = (r, l') \<Longrightarrow> r = Inr () \<or> (\<exists>j st ex. r = Inl (WrongState j st ex)) \<Longrightarrow> i \<notin> held_in l'"
    and "res = Inr () \<or> (\<exists>j st ex. res = Inl (SeLedger (WrongState j st ex)))"
  shows "i \<notin> held_ids sv'"
  using assms by (auto simp: durable_first_def split: prod.splits sum.splits)

text \<open>\<open>done_or_gone\<close>: the call succeeded, or the reservation was already terminal.\<close>

definition done_or_gone :: "solvent_error + unit \<Rightarrow> bool" where
  "done_or_gone r \<longleftrightarrow> r = Inr () \<or> (\<exists>j st ex. r = Inl (SeLedger (WrongState j st ex)))"

lemma service_held:
  "service_void ops i sv = (res, sv') \<Longrightarrow> held_ids sv' \<subseteq> held_ids sv"
  "service_post ops i fs sv = (res, sv') \<Longrightarrow> held_ids sv' \<subseteq> held_ids sv"
  "service_void_reorg ops i sv = (res, sv') \<Longrightarrow> ledger_shape (sv_ledger sv) \<Longrightarrow> held_ids sv' \<subseteq> held_ids sv"
  unfolding service_void_def service_post_def service_void_reorg_def
  by (erule durable_first_held [where P = "\<lambda>_. True", rotated 2] durable_first_held [where P = ledger_shape, rotated 2];
      blast dest: void_held(1) post_held(1) void_reorg_held)+

lemma service_released:
  "service_void ops i sv = (res, sv') \<Longrightarrow> done_or_gone res \<Longrightarrow> i \<notin> held_ids sv'"
  "service_post ops i fs sv = (res, sv') \<Longrightarrow> done_or_gone res \<Longrightarrow> i \<notin> held_ids sv'"
  unfolding service_void_def service_post_def done_or_gone_def
  by (erule durable_first_released; blast dest: void_held post_held)+

lemma sweep_loop_held:
  "sweep_loop ops ids swept sv = (res, sv') \<Longrightarrow> held_ids sv' \<subseteq> held_ids sv"
proof (induction ids arbitrary: swept sv)
  case (Cons i ids)
  then show ?case
    by (fastforce simp: Let_def split: prod.splits sum.splits dest: expire_held)
qed simp

lemma sweep_held: "sweep_expired ops now ex sv = (res, sv') \<Longrightarrow> held_ids sv' \<subseteq> held_ids sv"
  using sweep_loop_held sweep_expired_state(1) [of ops now ex sv] by (metis prod.collapse snd_conv)

lemma reservation_sources_None: "reservation_sources sv i = None \<longleftrightarrow> i \<notin> held_ids sv"
  by (auto simp: reservation_sources_def lookup_reservation_def held_in_def split: option.splits)

lemma reserve_held:
  assumes "service_reserve ops budgets now i intent ss ttl sv = (res, sv')"
  shows "isl res \<Longrightarrow> lg_reservations (sv_ledger sv') = lg_reservations (sv_ledger sv)"
    and "\<not> isl res \<Longrightarrow> lg_reservations (sv_ledger sv') =
           bm_insert i (for_swap i intent ss (sat_add64 now ttl)) (lg_reservations (sv_ledger sv)) \<and>
           bm_get (lg_reservations (sv_ledger sv)) i = None"
  using assms
  by (auto simp: service_reserve_def reserve_owned_def Let_def for_swap_def reservation_new_def can_reserve_Inr
      restore_def bm_get_None_iff split: sum.splits prod.splits)

end
