(* ===== verification/Swap_System.thy ===== *)
theory Swap_System
  imports Swap_Holds
begin

text \<open>
  The reconcile tick over any stores and engine that meet their contracts. Whatever fails on the
  way, a fill leaves the tracked set only after its hold was released and its trade settled.
\<close>

section \<open>What a tick keeps\<close>

definition settled_order :: "trade_view \<Rightarrow> intent_id \<Rightarrow> bool" where
  "settled_order v i \<longleftrightarrow> (\<forall>j t. v j = Some t \<longrightarrow> t_order_hash t = i \<longrightarrow> t_settled_at t \<noteq> None)"

definition accounted ::
  "(intent_id \<Rightarrow> reservation_id option) \<Rightarrow> (intent_id \<Rightarrow> reservation_id option) \<Rightarrow>
   reservation_id set \<Rightarrow> trade_view \<Rightarrow> bool" where
  "accounted before after held v \<longleftrightarrow>
     (\<forall>i r. before i = Some r \<longrightarrow> after i = Some r \<or> after i = None \<and> r \<notin> held \<and> settled_order v i)"

lemma settled_order_step: "settled_order v i \<Longrightarrow> settled_order (on_trade (settled_with s) j v) i"
  unfolding settled_order_def on_trade_def settled_with_def by (auto split: if_splits)

lemma settled_order_settles:
  assumes "one_per_order v" "v (t_id t) = Some t"
  shows "settled_order (on_trade (settled_with s) (t_id t) v) (t_order_hash t)"
  unfolding settled_order_def
proof (intro allI impI)
  fix j u
  assume u: "on_trade (settled_with s) (t_id t) v j = Some u" "t_order_hash u = t_order_hash t"
  have "j = t_id t"
  proof (rule ccontr)
    assume "j \<noteq> t_id t"
    then have "v j = Some u" using u(1) by (simp add: on_trade_def)
    then show False using assms u(2) \<open>j \<noteq> t_id t\<close> unfolding one_per_order_def by metis
  qed
  then show "t_settled_at u \<noteq> None" using u(1) assms(2) by (auto simp: settled_with_def)
qed

lemma accountedI: "after = before \<Longrightarrow> accounted before after held v"
  by (simp add: accounted_def)

lemma accounted_shrink:
  "accounted before after held v \<Longrightarrow> held' \<subseteq> held \<Longrightarrow> accounted before after held' v"
  unfolding accounted_def by blast

lemma accounted_settle:
  "accounted before after held v \<Longrightarrow> accounted before after held (on_trade (settled_with s) j v)"
  unfolding accounted_def using settled_order_step by blast

lemma accounted_forget:
  assumes "accounted before after held v" "settled_order v i" "\<And>r. before i = Some r \<Longrightarrow> r \<notin> held"
  shows "accounted before (after(i := None)) held v"
  using assms unfolding accounted_def by auto

locale swap_system =
  T: trade_store "se_trades env" view trades_ok + X: execution_engine "se_exec env" inflight engine_ok
  for env :: "('l, 't, 'x) swap_env"
    and view :: "'t \<Rightarrow> trade_view" and trades_ok :: "'t \<Rightarrow> bool"
    and inflight :: "'x \<Rightarrow> intent_id \<Rightarrow> reservation_id option" and engine_ok :: "'x \<Rightarrow> bool"
begin

definition safe :: "(intent_id \<Rightarrow> reservation_id option) \<Rightarrow> ('l, 't, 'x) swap_world \<Rightarrow> bool" where
  "safe before w \<longleftrightarrow>
     trades_ok (sw_trades w) \<and> engine_ok (sw_exec w) \<and> ledger_inv (sv_ledger (sw_ledger w)) \<and>
     accounted before (inflight (sw_exec w)) (held_ids (sw_ledger w)) (view (sw_trades w))"

text \<open>
  During the reconcile pass nothing is forgotten yet; each result names a fill whose hold is
  released.
\<close>

definition released ::
  "(intent_id \<Rightarrow> reservation_id option) \<Rightarrow> settled_fill list \<Rightarrow> ('l, 't, 'x) swap_world \<Rightarrow> bool" where
  "released before ss w \<longleftrightarrow>
     safe before w \<and> (\<forall>s \<in> set ss. \<forall>r. before (sf_intent s) = Some r \<longrightarrow> r \<notin> held_ids (sw_ledger w))"

definition passing ::
  "(intent_id \<Rightarrow> reservation_id option) \<Rightarrow> settled_fill list \<Rightarrow> ('l, 't, 'x) swap_world \<Rightarrow> bool" where
  "passing before ss w \<longleftrightarrow> released before ss w \<and> inflight (sw_exec w) = before"

lemma released_safe: "released before ss w \<Longrightarrow> safe before w"
  unfolding released_def by blast

lemma passing_safe: "passing before ss w \<Longrightarrow> safe before w"
  unfolding passing_def by (blast intro: released_safe)

lemma safe_ledger:
  "safe before w \<Longrightarrow> ledger_inv (sv_ledger l) \<Longrightarrow> held_ids l \<subseteq> held_ids (sw_ledger w) \<Longrightarrow> safe before (w\<lparr>sw_ledger := l\<rparr>)"
  unfolding safe_def by (elim conjE, simp, erule (1) accounted_shrink)

lemma released_ledger:
  "released before ss w \<Longrightarrow> ledger_inv (sv_ledger l) \<Longrightarrow> held_ids l \<subseteq> held_ids (sw_ledger w) \<Longrightarrow>
   released before ss (w\<lparr>sw_ledger := l\<rparr>)"
  unfolding released_def using safe_ledger by (auto 0 3)

lemma safe_exec:
  "safe before w \<Longrightarrow> engine_ok x \<and> inflight x = inflight (sw_exec w) \<Longrightarrow> safe before (w\<lparr>sw_exec := x\<rparr>)"
  unfolding safe_def by simp

lemma passing_exec:
  "passing before ss w \<Longrightarrow> engine_ok x \<and> inflight x = inflight (sw_exec w) \<Longrightarrow> passing before ss (w\<lparr>sw_exec := x\<rparr>)"
  unfolding passing_def released_def using safe_exec by simp

lemma safe_parts: "safe before w \<Longrightarrow> trades_ok (sw_trades w) \<and> engine_ok (sw_exec w) \<and> ledger_inv (sv_ledger (sw_ledger w))"
  unfolding safe_def by blast

lemma status_call:
  "triple (passing before ss) (on_exec (eo_status (se_exec env) i)) (\<lambda>_. passing before ss) (\<lambda>_. safe before)"
proof (rule triple_on_exec)
  fix w r s
  assume P: "passing before ss w" and run: "eo_status (se_exec env) i (sw_exec w) = (r, s)"
  have "passing before ss (w\<lparr>sw_exec := s\<rparr>)"
    by (rule passing_exec [OF P X.status_spec [OF _ run]]) (use passing_safe [OF P] safe_parts in blast)
  then show "case r of Inl e \<Rightarrow> safe before (w\<lparr>sw_exec := s\<rparr>) | Inr x \<Rightarrow> passing before ss (w\<lparr>sw_exec := s\<rparr>)"
    using passing_safe by (cases r) simp_all
qed

lemma settle_ledger_triple:
  assumes "\<And>sv r sv'. ledger_inv (sv_ledger sv) \<Longrightarrow> m sv = (r, sv') \<Longrightarrow>
      ledger_inv (sv_ledger sv') \<and> held_ids sv' \<subseteq> held_ids sv \<and> (done_or_gone r \<longrightarrow> i \<notin> held_ids sv')"
  shows "triple (passing before ss) (settle_ledger (on_ledger m))
     (\<lambda>_ w. passing before ss w \<and> i \<notin> held_ids (sw_ledger w)) (\<lambda>_. safe before)"
  unfolding settle_ledger_def
proof (rule triple_ebind [OF triple_etry])
  let ?Q = "\<lambda>r w. passing before ss w \<and> (already_done r = Inr () \<longrightarrow> i \<notin> held_ids (sw_ledger w))"
  show "triple (passing before ss) (on_ledger m) (\<lambda>x. ?Q (Inr x)) (\<lambda>e. ?Q (Inl e))"
  proof (rule triple_on_ledger)
    fix w r l
    assume P: "passing before ss w" and run: "m (sw_ledger w) = (r, l)"
    have spec: "ledger_inv (sv_ledger l) \<and> held_ids l \<subseteq> held_ids (sw_ledger w) \<and> (done_or_gone r \<longrightarrow> i \<notin> held_ids l)"
      by (rule assms [OF _ run]) (use passing_safe [OF P] safe_parts in blast)
    have gone: "already_done (map_sum SwLedger id r) = Inr () \<Longrightarrow> done_or_gone r"
      by (cases "map_sum SwLedger id r" rule: already_done.cases; cases r) (auto simp: done_or_gone_def)
    have "passing before ss (w\<lparr>sw_ledger := l\<rparr>)"
      using P spec released_ledger unfolding passing_def by simp
    then show "case r of Inl e \<Rightarrow> ?Q (Inl (SwLedger e)) (w\<lparr>sw_ledger := l\<rparr>) | Inr x \<Rightarrow> ?Q (Inr x) (w\<lparr>sw_ledger := l\<rparr>)"
      using spec gone by (cases r) simp_all
  qed
  show "triple (?Q r) (eres (already_done r))
      (\<lambda>_ w. passing before ss w \<and> i \<notin> held_ids (sw_ledger w)) (\<lambda>_. safe before)" for r
    by (rule triple_eres) (use passing_safe in auto)
qed

lemma void_call: "ledger_inv (sv_ledger sv) \<Longrightarrow> service_void ops i sv = (r, sv') \<Longrightarrow>
    ledger_inv (sv_ledger sv') \<and> held_ids sv' \<subseteq> held_ids sv \<and> (done_or_gone r \<longrightarrow> i \<notin> held_ids sv')"
  using service_held(1) [of ops i sv r sv'] service_released(1) [of ops i sv r sv']
    durable_first_step [of "\<lambda>l _. ledger_inv l" sv "so_void ops i" "\<lambda>l. void l i"] inv_commands(4)
  by (auto simp: service_void_def)

lemma post_call: "ledger_inv (sv_ledger sv) \<Longrightarrow> service_post ops i fs sv = (r, sv') \<Longrightarrow>
    ledger_inv (sv_ledger sv') \<and> held_ids sv' \<subseteq> held_ids sv \<and> (done_or_gone r \<longrightarrow> i \<notin> held_ids sv')"
  using service_held(2) [of ops i fs sv r sv'] service_released(2) [of ops i fs sv r sv']
    durable_first_step [of "\<lambda>l _. ledger_inv l" sv "so_post ops i fs" "\<lambda>l. post l i fs"] inv_commands(3)
  by (auto simp: service_post_def)

lemma post_confirmed_triple:
  "triple (passing before ss) (post_confirmed env f tx)
     (\<lambda>_ w. passing before ss w \<and> tk_reservation f \<notin> held_ids (sw_ledger w)) (\<lambda>_. safe before)"
  unfolding post_confirmed_def
proof (rule triple_ebind [OF triple_eread])
  fix found
  show "triple (\<lambda>w. passing before ss w \<and> found = reservation_sources (sw_ledger w) (tk_reservation f))
     (case found of None \<Rightarrow> eok ()
      | Some sources \<Rightarrow>
          ebind (emap_err SwSettlement (eres (se_settled env tx sources))) (\<lambda>filled.
            settle_ledger (on_ledger (service_post (se_store env) (tk_reservation f) filled))))
     (\<lambda>_ w. passing before ss w \<and> tk_reservation f \<notin> held_ids (sw_ledger w)) (\<lambda>_. safe before)"
  proof (cases found)
    case None
    then show ?thesis
      unfolding None option.case
      by (intro triple_eok) (use reservation_sources_None [THEN iffD1, OF sym] in blast)
  next
    case (Some sources)
    have "triple (passing before ss) (emap_err SwSettlement (eres (se_settled env tx sources)))
        (\<lambda>_. passing before ss) (\<lambda>_. safe before)"
      by (rule triple_emap_err, rule triple_eres) (auto intro: passing_safe)
    then show ?thesis
      unfolding Some option.case
      by (intro triple_conj_drop triple_ebind [OF _ settle_ledger_triple [OF post_call]])
  qed
qed

lemma reconcile_fill_triple:
  assumes "before (tk_intent f) = Some (tk_reservation f)"
  shows "triple (passing before ss) (reconcile_fill env f)
     (\<lambda>s. passing before (case s of None \<Rightarrow> ss | Some x \<Rightarrow> ss @ [x])) (\<lambda>_. safe before)"
proof -
  have add: "passing before ss w \<and> tk_reservation f \<notin> held_ids (sw_ledger w) \<Longrightarrow>
      passing before (ss @ [\<lparr>sf_intent = tk_intent f, sf_outcome = oc\<rparr>]) w" for oc w
    using assms unfolding passing_def released_def by auto
  have finish: "triple (passing before ss) (ebind m (\<lambda>_. eok (Some \<lparr>sf_intent = tk_intent f, sf_outcome = oc\<rparr>)))
      (\<lambda>s. passing before (case s of None \<Rightarrow> ss | Some x \<Rightarrow> ss @ [x])) (\<lambda>_. safe before)"
    if "triple (passing before ss) m (\<lambda>_ w. passing before ss w \<and> tk_reservation f \<notin> held_ids (sw_ledger w))
        (\<lambda>_. safe before)" for m :: "('l, 't, 'x, unit) swap_call" and oc
    by (rule triple_ebind [OF that], rule triple_eok) (simp add: add)
  have skip: "triple (passing before ss) (eok None)
      (\<lambda>s. passing before (case s of None \<Rightarrow> ss | Some x \<Rightarrow> ss @ [x])) (\<lambda>_. safe before)"
    by (rule triple_eok) simp
  have voided: "triple (passing before ss) (settle_ledger (on_ledger (service_void (se_store env) (tk_reservation f))))
      (\<lambda>_ w. passing before ss w \<and> tk_reservation f \<notin> held_ids (sw_ledger w)) (\<lambda>_. safe before)"
    by (rule settle_ledger_triple) (rule void_call)
  show ?thesis
    unfolding reconcile_fill_def
  proof (rule triple_ebind [OF status_call])
    fix st
    show "triple (passing before ss)
        (case st of None \<Rightarrow> eok None
         | Some (ExConfirmed block tx) \<Rightarrow>
             ebind (post_confirmed env f tx) (\<lambda>_.
               eok (Some \<lparr>sf_intent = tk_intent f, sf_outcome = SoConfirmed tx block\<rparr>))
         | Some ExPending \<Rightarrow> eok None
         | Some _ \<Rightarrow>
             ebind (settle_ledger (on_ledger (service_void (se_store env) (tk_reservation f)))) (\<lambda>_.
               eok (Some \<lparr>sf_intent = tk_intent f, sf_outcome = SoFailed\<rparr>)))
        (\<lambda>s. passing before (case s of None \<Rightarrow> ss | Some x \<Rightarrow> ss @ [x])) (\<lambda>_. safe before)"
    proof (cases st)
      case None
      show ?thesis unfolding None option.case by (rule skip)
    next
      case (Some x)
      show ?thesis
        unfolding Some option.case
        using skip finish [OF post_confirmed_triple] finish [OF voided] by (cases x) (simp_all only: exec_status.case)
    qed
  qed
qed

lemma reconcile_loop_triple:
  assumes "\<forall>f \<in> set fs. before (tk_intent f) = Some (tk_reservation f)"
  shows "triple (passing before ss) (reconcile_loop env fs ss) (\<lambda>out. passing before out) (\<lambda>_. safe before)"
  using assms
proof (induction fs arbitrary: ss)
  case Nil
  show ?case unfolding reconcile_loop.simps by (rule triple_eok)
next
  case (Cons f fs)
  then have f: "before (tk_intent f) = Some (tk_reservation f)"
    and fs: "\<forall>f \<in> set fs. before (tk_intent f) = Some (tk_reservation f)" by simp_all
  show ?case
    unfolding reconcile_loop.simps
    by (rule triple_ebind [OF reconcile_fill_triple [where before = before and f = f, OF f] Cons.IH [OF fs]])
qed

lemma exec_reconcile_triple:
  "triple (\<lambda>w. passing before [] w) (exec_reconcile env) (\<lambda>out. passing before out) (\<lambda>_. safe before)"
  unfolding exec_reconcile_def
proof (rule triple_ebind)
  have tracked: "engine_ok (sw_exec w)" if "passing before [] w" for w :: "('l, 't, 'x) swap_world"
    using passing_safe [OF that] safe_parts by blast
  show "triple (passing before []) (on_exec (eo_tick (se_exec env))) (\<lambda>_. passing before []) (\<lambda>_. safe before)"
  proof (rule triple_on_exec)
    fix w r s
    assume P: "passing before [] w" and run: "eo_tick (se_exec env) (sw_exec w) = (r, s)"
    have "passing before [] (w\<lparr>sw_exec := s\<rparr>)" by (rule passing_exec [OF P X.tick_spec [OF tracked [OF P] run]])
    then show "case r of Inl e \<Rightarrow> safe before (w\<lparr>sw_exec := s\<rparr>) | Inr x \<Rightarrow> passing before [] (w\<lparr>sw_exec := s\<rparr>)"
      using passing_safe by (cases r) simp_all
  qed
  have "triple (passing before []) (on_exec (eo_tracked (se_exec env)))
      (\<lambda>fs w. passing before [] w \<and> (\<forall>f \<in> set fs. before (tk_intent f) = Some (tk_reservation f))) (\<lambda>_. safe before)"
  proof (rule triple_on_exec)
    fix w r s
    assume P: "passing before [] w" and run: "eo_tracked (se_exec env) (sw_exec w) = (r, s)"
    note spec = X.tracked_spec [OF tracked [OF P] run]
    then have "passing before [] (w\<lparr>sw_exec := s\<rparr>)" by (intro passing_exec [OF P]) blast
    moreover have "inflight (sw_exec w) = before" using P unfolding passing_def by blast
    ultimately show "case r of Inl e \<Rightarrow> safe before (w\<lparr>sw_exec := s\<rparr>)
      | Inr fs \<Rightarrow> passing before [] (w\<lparr>sw_exec := s\<rparr>) \<and> (\<forall>f \<in> set fs. before (tk_intent f) = Some (tk_reservation f))"
      using spec passing_safe by (cases r) auto
  qed
  then show "triple (passing before []) (ebind (on_exec (eo_tracked (se_exec env))) (\<lambda>fs. reconcile_loop env fs []))
      (\<lambda>out. passing before out) (\<lambda>_. safe before)"
    by (rule triple_ebind) (rule triple_conj_pre, rule reconcile_loop_triple)
qed

text \<open>Settling a trade and forgetting its fill.\<close>

lemma settle_call:
  "triple (\<lambda>w. released before ss w \<and> view (sw_trades w) (t_id t) = Some t \<and> t_order_hash t = i)
     (on_trades (to_settle (se_trades env) (t_id t) o'))
     (\<lambda>_ w. released before ss w \<and> settled_order (view (sw_trades w)) i) (\<lambda>_. safe before)"
proof (rule triple_on_trades)
  fix w r s
  assume P: "released before ss w \<and> view (sw_trades w) (t_id t) = Some t \<and> t_order_hash t = i"
    and run: "to_settle (se_trades env) (t_id t) o' (sw_trades w) = (r, s)"
  have ok: "trades_ok (sw_trades w)" using P released_safe safe_parts by blast
  note spec = T.settle_spec [OF ok run]
  have rel: "released before ss (w\<lparr>sw_trades := s\<rparr>)"
    using P spec accounted_settle unfolding released_def safe_def by (auto split: if_splits)
  then show "case r of Inl e \<Rightarrow> safe before (w\<lparr>sw_trades := s\<rparr>)
    | Inr x \<Rightarrow> released before ss (w\<lparr>sw_trades := s\<rparr>) \<and> settled_order (view (sw_trades (w\<lparr>sw_trades := s\<rparr>))) i"
    using spec P released_safe settled_order_settles [OF T.wf_orders [OF ok], of t o'] by (cases r) auto
qed

lemma apply_settlement_triple:
  "triple (released before ss) (apply_settlement env i f)
     (\<lambda>_ w. released before ss w \<and> settled_order (view (sw_trades w)) i) (\<lambda>_. safe before)"
  unfolding apply_settlement_def
proof (rule triple_ebind)
  show "triple (released before ss) (on_trades (to_find_by_order (se_trades env) i))
     (\<lambda>found w. released before ss w \<and>
        (case found of None \<Rightarrow> settled_order (view (sw_trades w)) i
         | Some t \<Rightarrow> view (sw_trades w) (t_id t) = Some t \<and> t_order_hash t = i)) (\<lambda>_. safe before)"
  proof (rule triple_on_trades)
    fix w r s
    assume P: "released before ss w" and run: "to_find_by_order (se_trades env) i (sw_trades w) = (r, s)"
    have ok: "trades_ok (sw_trades w)" using P released_safe safe_parts by blast
    note spec = T.find_spec [OF ok run]
    have rel: "released before ss (w\<lparr>sw_trades := s\<rparr>)" using P spec unfolding released_def safe_def by simp
    have none: "\<forall>j u. view (sw_trades w) j = Some u \<longrightarrow> t_order_hash u \<noteq> i \<Longrightarrow> settled_order (view (sw_trades w)) i"
      unfolding settled_order_def by blast
    show "case r of Inl e \<Rightarrow> safe before (w\<lparr>sw_trades := s\<rparr>)
      | Inr found \<Rightarrow> released before ss (w\<lparr>sw_trades := s\<rparr>) \<and>
          (case found of None \<Rightarrow> settled_order (view (sw_trades (w\<lparr>sw_trades := s\<rparr>))) i
           | Some t \<Rightarrow> view (sw_trades (w\<lparr>sw_trades := s\<rparr>)) (t_id t) = Some t \<and> t_order_hash t = i)"
      using spec rel none released_safe [OF rel] by (simp split: sum.splits option.splits)
  qed
  fix found :: "trade option"
  show "triple (\<lambda>w. released before ss w \<and>
        (case found of None \<Rightarrow> settled_order (view (sw_trades w)) i
         | Some t \<Rightarrow> view (sw_trades w) (t_id t) = Some t \<and> t_order_hash t = i))
     (case found of None \<Rightarrow> eok () | Some t \<Rightarrow> on_trades (to_settle (se_trades env) (t_id t) (f t)))
     (\<lambda>_ w. released before ss w \<and> settled_order (view (sw_trades w)) i) (\<lambda>_. safe before)"
    by (cases found) (simp_all only: option.case triple_eok settle_call)
qed

lemma forget_call:
  "triple (\<lambda>w. released before (s # ss) w \<and> settled_order (view (sw_trades w)) (sf_intent s))
     (exec_forget env (sf_intent s)) (\<lambda>_. released before ss) (\<lambda>_. safe before)"
  unfolding exec_forget_def
proof (rule triple_on_exec)
  fix w r x
  assume P: "released before (s # ss) w \<and> settled_order (view (sw_trades w)) (sf_intent s)"
    and run: "eo_forget (se_exec env) (sf_intent s) (sw_exec w) = (r, x)"
  have ok: "engine_ok (sw_exec w)" using P released_safe safe_parts by blast
  note spec = X.forget_spec [OF ok run]
  have "accounted before (inflight x) (held_ids (sw_ledger w)) (view (sw_trades w))"
    using P spec accounted_forget [of before "inflight (sw_exec w)" "held_ids (sw_ledger w)" "view (sw_trades w)" "sf_intent s"]
    unfolding released_def safe_def by (simp split: if_splits)
  then have "released before ss (w\<lparr>sw_exec := x\<rparr>)"
    using P spec unfolding released_def safe_def by simp
  then show "case r of Inl e \<Rightarrow> safe before (w\<lparr>sw_exec := x\<rparr>) | Inr y \<Rightarrow> released before ss (w\<lparr>sw_exec := x\<rparr>)"
    using released_safe by (cases r) simp_all
qed

lemma settle_fills_triple:
  "triple (released before ss) (settle_fills env now ss) (\<lambda>_. safe before) (\<lambda>_. safe before)"
proof (induction ss)
  case Nil
  show ?case unfolding settle_fills.simps by (rule triple_eok) (rule released_safe)
next
  case (Cons s ss)
  show ?case
    unfolding settle_fills.simps settle_trade_def
    by (rule triple_ebind [OF apply_settlement_triple], rule triple_ebind [OF forget_call Cons.IH])
qed

lemma fail_swept_triple: "triple (safe before) (fail_swept env now is) (\<lambda>_. safe before) (\<lambda>_. safe before)"
proof (induction "is")
  case Nil
  show ?case unfolding fail_swept.simps by (rule triple_eok)
next
  case (Cons i "is")
  have "triple (safe before) (apply_settlement env i f) (\<lambda>_. safe before) (\<lambda>_. safe before)" for f
    by (rule triple_weaken [OF apply_settlement_triple [of before "[]"]]) (auto simp: released_def)
  then show ?case unfolding fail_swept.simps by (rule triple_ebind [OF _ Cons.IH])
qed

lemma sweep_call:
  "triple (safe before) (on_ledger (sweep_expired (se_store env) now ex)) (\<lambda>_. safe before) (\<lambda>_. safe before)"
proof (rule triple_on_ledger)
  fix w r l
  assume P: "safe before w" and run: "sweep_expired (se_store env) now ex (sw_ledger w) = (r, l)"
  have "ledger_inv (sv_ledger l)" by (rule sweep_inv [OF _ run]) (use P safe_parts in blast)
  then have "safe before (w\<lparr>sw_ledger := l\<rparr>)" by (rule safe_ledger [OF P _ sweep_held [OF run]])
  then show "case r of Inl e \<Rightarrow> safe before (w\<lparr>sw_ledger := l\<rparr>) | Inr x \<Rightarrow> safe before (w\<lparr>sw_ledger := l\<rparr>)"
    by (cases r) simp_all
qed

lemma tracked_call: "triple (safe before) (tracked_reservations env) (\<lambda>_. safe before) (\<lambda>_. safe before)"
  unfolding tracked_reservations_def
proof (rule triple_ebind)
  show "triple (safe before) (on_exec (eo_tracked (se_exec env))) (\<lambda>_. safe before) (\<lambda>_. safe before)"
  proof (rule triple_on_exec)
    fix w r x
    assume P: "safe before w" and run: "eo_tracked (se_exec env) (sw_exec w) = (r, x)"
    have "engine_ok x \<and> inflight x = inflight (sw_exec w)"
      using X.tracked_spec [OF _ run] safe_parts [OF P] by blast
    then have "safe before (w\<lparr>sw_exec := x\<rparr>)" by (rule safe_exec [OF P])
    then show "case r of Inl e \<Rightarrow> safe before (w\<lparr>sw_exec := x\<rparr>) | Inr y \<Rightarrow> safe before (w\<lparr>sw_exec := x\<rparr>)"
      by (cases r) simp_all
  qed
qed (rule triple_eok)

lemma tick_triple:
  "triple (passing before []) (reconcile_tick env now sweep_now) (\<lambda>_. safe before) (\<lambda>_. safe before)"
  unfolding reconcile_tick_def
proof (rule triple_ebind [OF exec_reconcile_triple])
  fix settled
  have "triple (safe before)
      (ebind (tracked_reservations env) (\<lambda>in_flight.
       ebind (on_ledger (sweep_expired (se_store env) sweep_now in_flight)) (\<lambda>swept.
       ebind (fail_swept env now swept) (\<lambda>_. eok \<lparr>rr_settled = n, rr_swept = length swept\<rparr>))))
      (\<lambda>_. safe before) (\<lambda>_. safe before)" for n
    by (rule triple_ebind [OF tracked_call], rule triple_ebind [OF sweep_call],
        rule triple_ebind [OF fail_swept_triple], rule triple_eok)
  moreover have "triple (passing before settled) (settle_fills env now settled) (\<lambda>_. safe before) (\<lambda>_. safe before)"
    by (rule triple_weaken [OF settle_fills_triple]) (simp_all add: passing_def)
  ultimately show "triple (passing before settled)
      (ebind (settle_fills env now settled) (\<lambda>_.
       ebind (tracked_reservations env) (\<lambda>in_flight.
       ebind (on_ledger (sweep_expired (se_store env) sweep_now in_flight)) (\<lambda>swept.
       ebind (fail_swept env now swept) (\<lambda>_. eok \<lparr>rr_settled = length settled, rr_swept = length swept\<rparr>)))))
      (\<lambda>_. safe before) (\<lambda>_. safe before)"
    by (rule triple_ebind [rotated])
qed

lemma tick_accounts:
  assumes "trades_ok (sw_trades w)" "engine_ok (sw_exec w)" "ledger_inv (sv_ledger (sw_ledger w))"
    and "reconcile_tick env now sweep_now w = (res, w')"
  shows "accounted (inflight (sw_exec w)) (inflight (sw_exec w')) (held_ids (sw_ledger w')) (view (sw_trades w'))"
proof -
  have "passing (inflight (sw_exec w)) [] w"
    using assms(1-3) unfolding passing_def released_def safe_def by (simp add: accountedI)
  from tripleD [OF tick_triple this] have "safe (inflight (sw_exec w)) w'"
    using assms(4) by (cases res) auto
  then show ?thesis unfolding safe_def by blast
qed

text \<open>A tick that succeeds leaves no elapsed swap hold behind, except those of fills still in flight.\<close>

lemma on_trades_elsewhere: "inv_call (\<lambda>w. sw_ledger w = l \<and> sw_exec w = x) (on_trades m)"
  unfolding inv_call_def by (rule triple_on_trades) (simp split: sum.split)

lemma fail_swept_elsewhere:
  "inv_call (\<lambda>w. sw_ledger w = l \<and> sw_exec w = x) (fail_swept env now is)"
  by (induction "is") (simp_all only: fail_swept.simps apply_settlement_def inv_calls on_trades_elsewhere)

lemma tick_sweeps:
  assumes "trades_ok (sw_trades w)" "engine_ok (sw_exec w)" "ledger_inv (sv_ledger (sw_ledger w))"
    and "reconcile_tick env now sweep_now w = (Inr rep, w')"
    and "j \<in> set (expired_swaps_as_of (sv_ledger (sw_ledger w')) sweep_now)"
  shows "\<exists>i. inflight (sw_exec w') i = Some j"
proof -
  let ?before = "inflight (sw_exec w)"
  have start: "passing ?before [] w"
    using assms(1-3) unfolding passing_def released_def safe_def by (simp add: accountedI)
  from assms(4) obtain settled w1 w2 fl w3 swept w4 where
    run: "exec_reconcile env w = (Inr settled, w1)" "settle_fills env now settled w1 = (Inr (), w2)"
      "tracked_reservations env w2 = (Inr fl, w3)"
      "on_ledger (sweep_expired (se_store env) sweep_now fl) w3 = (Inr swept, w4)"
      "fail_swept env now swept w4 = (Inr (), w')"
    unfolding reconcile_tick_def ebind_Inr by auto
  have "passing ?before settled w1" by (rule tripleD(1) [OF exec_reconcile_triple start run(1)])
  then have "released ?before settled w1" unfolding passing_def by blast
  then have safe2: "safe ?before w2" by (rule tripleD(1) [OF settle_fills_triple _ run(2)])
  from run(3) obtain fs where tr: "on_exec (eo_tracked (se_exec env)) w2 = (Inr fs, w3)"
    and fl: "fl = bs_of_list (map tk_reservation fs)" unfolding tracked_reservations_def ebind_Inr by auto
  from tr obtain x where x: "eo_tracked (se_exec env) (sw_exec w2) = (Inr fs, x)" "w3 = w2\<lparr>sw_exec := x\<rparr>"
    by (auto simp: on_exec_def on_part_def emap_err_def map_sum_def split: prod.splits sum.splits)
  have spec: "inflight x = inflight (sw_exec w2)"
    "\<forall>g. g \<in> set fs \<longleftrightarrow> inflight (sw_exec w2) (tk_intent g) = Some (tk_reservation g)"
    using X.tracked_spec [OF _ x(1)] safe_parts [OF safe2] by simp_all
  from run(4) obtain l where l: "sweep_expired (se_store env) sweep_now fl (sw_ledger w3) = (Inr swept, l)"
    "w4 = w3\<lparr>sw_ledger := l\<rparr>"
    by (auto simp: on_ledger_def on_part_def emap_err_def map_sum_def split: prod.splits sum.splits)
  have same: "sw_ledger w' = l \<and> sw_exec w' = x"
    by (rule inv_callD [OF fail_swept_elsewhere _ run(5)]) (simp add: l(2) x(2))
  have "ledger_inv (sv_ledger (sw_ledger w3))" using safe_parts [OF safe2] x(2) by simp
  from sweep_effect(3) [OF this l(1)] have "j \<in> set fl" using assms(5) same by blast
  then obtain g where "g \<in> set fs" "tk_reservation g = j" by (auto simp: fl)
  then show ?thesis using spec same by metis
qed

end

end
