(* ===== verification/Swap_Submit.thy ===== *)
theory Swap_Submit
  imports Swap_System
begin

text \<open>
  What one submission can do to the holds and to the tracked fills, over any stores and engine that
  meet their contracts, and for any book, also one that is stale when the plan is reserved.
\<close>

definition routed ::
  "('l, 't, 'x) swap_env \<Rightarrow> routing_book \<Rightarrow> u64 \<Rightarrow> (route_request \<Rightarrow> u256) \<Rightarrow> intent \<Rightarrow> route_plan option" where
  "routed env bk now leg_cost intent =
     (case swap_amounts_of intent now of
        Inr (Some amounts) \<Rightarrow>
          route bk (swap_request intent amounts) (unwrap_or (sa_amount_in amounts) (in_routing_input_limit intent))
            (sc_routing (se_config env)) (leg_cost (swap_request intent amounts)) None
      | _ \<Rightarrow> None)"

lemma on_trades_indep:
  "(\<And>w t. P w \<Longrightarrow> P (w\<lparr>sw_trades := t\<rparr>)) \<Longrightarrow> triple P (on_trades m) (\<lambda>_. P) (\<lambda>_. P)"
  by (rule triple_on_trades) (simp split: sum.split)

lemma one_of_two: "x \<in> {a, b} \<Longrightarrow> P a \<Longrightarrow> P b \<Longrightarrow> P x"
  by auto

lemma then_trades:
  assumes "\<And>w t. P w \<Longrightarrow> P (w\<lparr>sw_trades := t\<rparr>)" "\<And>e w. P w \<Longrightarrow> E e w" "\<And>x. triple P (f x) Q E"
  shows "triple P (ebind (on_trades m) f) Q E"
proof (rule triple_ebind)
  have "triple P (on_trades m) (\<lambda>_. P) (\<lambda>_. P)" by (rule on_trades_indep) (rule assms(1))
  then show "triple P (on_trades m) (\<lambda>_. P) E" by (rule triple_weaken) (auto intro: assms(2))
qed (rule assms(3))

context swap_system
begin

definition quiet ::
  "reservation_id set \<Rightarrow> (intent_id \<Rightarrow> reservation_id option) \<Rightarrow> ('l, 't, 'x) swap_world \<Rightarrow> bool" where
  "quiet H I w \<longleftrightarrow> engine_ok (sw_exec w) \<and> held_ids (sw_ledger w) \<subseteq> H \<and> inflight (sw_exec w) = I"

definition backed ::
  "reservation_id set \<Rightarrow> (intent_id \<Rightarrow> reservation_id option) \<Rightarrow> intent_id \<Rightarrow> reservation_id \<Rightarrow>
   reservation_source list \<Rightarrow> ('l, 't, 'x) swap_world \<Rightarrow> bool" where
  "backed H I i rid ss w \<longleftrightarrow>
     engine_ok (sw_exec w) \<and> held_ids (sw_ledger w) \<subseteq> insert rid H \<and>
     (\<exists>r. bm_get (lg_reservations (sv_ledger (sw_ledger w))) rid = Some r \<and> r_sources r = ss \<and> r_owner r = OwnerSwap i) \<and>
     (inflight (sw_exec w) = I \<or> inflight (sw_exec w) = I(i \<mapsto> rid) \<and> rid \<in> held_ids (sw_ledger w))"

definition reserved ::
  "reservation_id set \<Rightarrow> (intent_id \<Rightarrow> reservation_id option) \<Rightarrow> intent_id \<Rightarrow> reservation_id \<Rightarrow>
   reservation_source list \<Rightarrow> ('l, 't, 'x) swap_world \<Rightarrow> bool" where
  "reserved H I i rid ss w \<longleftrightarrow>
     backed H I i rid ss w \<and> inflight (sw_exec w) = I \<and> rid \<in> held_ids (sw_ledger w)"

lemma trades_calls:
  "triple (quiet H I) (on_trades m) (\<lambda>_. quiet H I) (\<lambda>_. quiet H I)"
  "triple (backed H I i rid ss) (on_trades m) (\<lambda>_. backed H I i rid ss) (\<lambda>_. backed H I i rid ss)"
  "triple (reserved H I i rid ss) (on_trades m) (\<lambda>_. reserved H I i rid ss) (\<lambda>_. reserved H I i rid ss)"
  by (rule on_trades_indep, simp add: quiet_def backed_def reserved_def)+

lemma reserved_backed: "reserved H I i rid ss w \<Longrightarrow> backed H I i rid ss w"
  unfolding reserved_def by blast

lemma simulate_call:
  "triple (reserved H I i rid ss) (on_exec (eo_simulate (se_exec env) f)) (\<lambda>_. reserved H I i rid ss) (\<lambda>_. backed H I i rid ss)"
proof (rule triple_on_exec)
  fix w r x
  assume P: "reserved H I i rid ss w" and run: "eo_simulate (se_exec env) f (sw_exec w) = (r, x)"
  have "engine_ok (sw_exec w)" using P unfolding reserved_def backed_def by blast
  from X.simulate_spec [OF this run] P have "reserved H I i rid ss (w\<lparr>sw_exec := x\<rparr>)"
    unfolding reserved_def backed_def by simp
  then show "case r of Inl e \<Rightarrow> backed H I i rid ss (w\<lparr>sw_exec := x\<rparr>) | Inr y \<Rightarrow> reserved H I i rid ss (w\<lparr>sw_exec := x\<rparr>)"
    using reserved_backed by (cases r) simp_all
qed

lemma submit_call:
  assumes "ft_intent f = i"
  shows "triple (reserved H I i rid ss) (on_exec (eo_submit (se_exec env) f rid)) (\<lambda>_. backed H I i rid ss) (\<lambda>_. backed H I i rid ss)"
proof (rule triple_on_exec)
  fix w r x
  assume P: "reserved H I i rid ss w" and run: "eo_submit (se_exec env) f rid (sw_exec w) = (r, x)"
  have "engine_ok (sw_exec w)" using P unfolding reserved_def backed_def by blast
  from X.submit_spec [OF this run] P assms have "backed H I i rid ss (w\<lparr>sw_exec := x\<rparr>)"
    unfolding reserved_def backed_def by (cases r) (simp_all split: if_splits)
  then show "case r of Inl e \<Rightarrow> backed H I i rid ss (w\<lparr>sw_exec := x\<rparr>) | Inr y \<Rightarrow> backed H I i rid ss (w\<lparr>sw_exec := x\<rparr>)"
    by (cases r) simp_all
qed

lemma void_error_keeps:
  "service_void ops i sv = (Inl e, sv') \<Longrightarrow> lg_reservations (sv_ledger sv') = lg_reservations (sv_ledger sv)"
  by (auto simp: service_void_def durable_first_def split: prod.splits sum.splits dest: error_leaves_ledger(4))

lemma reject_call:
  "triple (reserved H I i rid ss) (on_ledger (service_void (se_store env) rid)) (\<lambda>_. quiet H I) (\<lambda>_. backed H I i rid ss)"
proof (rule triple_on_ledger)
  fix w r l
  assume P: "reserved H I i rid ss w" and run: "service_void (se_store env) rid (sw_ledger w) = (r, l)"
  show "case r of Inl e \<Rightarrow> backed H I i rid ss (w\<lparr>sw_ledger := l\<rparr>) | Inr y \<Rightarrow> quiet H I (w\<lparr>sw_ledger := l\<rparr>)"
  proof (cases r)
    case (Inl e)
    have same: "lg_reservations (sv_ledger l) = lg_reservations (sv_ledger (sw_ledger w))"
      by (rule void_error_keeps [OF run [unfolded Inl]])
    then show ?thesis
      using P held_cong [OF same] Inl unfolding reserved_def backed_def by simp
  next
    case (Inr u)
    have "held_ids l \<subseteq> held_ids (sw_ledger w)" "rid \<notin> held_ids l"
      using service_held(1) [OF run] service_released(1) [OF run] Inr by (simp_all add: done_or_gone_def)
    then show ?thesis using P Inr unfolding reserved_def backed_def quiet_def by auto
  qed
qed

lemma exec_fill_triple:
  assumes "ft_intent (pf_fill_tx p) = i" "pf_reservation p = rid"
  shows "triple (reserved H I i rid ss) (exec_fill env p)
     (\<lambda>oc. case oc of FillSubmitted _ \<Rightarrow> backed H I i rid ss | FillRejected _ \<Rightarrow> quiet H I) (\<lambda>_. backed H I i rid ss)"
  unfolding exec_fill_def
proof (rule triple_ebind [OF simulate_call])
  let ?Q = "\<lambda>oc. case oc of FillSubmitted _ \<Rightarrow> backed H I i rid ss | FillRejected _ \<Rightarrow> quiet H I"
  fix v
  have rej: "triple (reserved H I i rid ss)
      (ebind (on_ledger (service_void (se_store env) (pf_reservation p))) (\<lambda>_. eok (FillRejected s))) ?Q (\<lambda>_. backed H I i rid ss)" for s
    unfolding assms(2) by (rule triple_ebind [OF reject_call], rule triple_eok) simp
  have sub: "triple (reserved H I i rid ss)
      (ebind (on_exec (eo_submit (se_exec env) (pf_fill_tx p) (pf_reservation p))) (\<lambda>h. eok (FillSubmitted h))) ?Q (\<lambda>_. backed H I i rid ss)"
    unfolding assms(2) by (rule triple_ebind [OF submit_call [OF assms(1)]], rule triple_eok) simp
  show "triple (reserved H I i rid ss)
     (case v of SimOk \<Rightarrow> ebind (on_exec (eo_submit (se_exec env) (pf_fill_tx p) (pf_reservation p))) (\<lambda>h. eok (FillSubmitted h))
      | SimReject s \<Rightarrow> ebind (on_ledger (service_void (se_store env) (pf_reservation p))) (\<lambda>_. eok (FillRejected s)))
     ?Q (\<lambda>_. backed H I i rid ss)"
    by (cases v) (simp_all only: sim_verdict.case rej sub)
qed

text \<open>
  The outcome of driving a plan: a decline leaves no new hold and no new fill; anything else, errors
  included, leaves at most the planned hold and a fill that this hold backs.
\<close>

definition driven ::
  "reservation_id set \<Rightarrow> (intent_id \<Rightarrow> reservation_id option) \<Rightarrow> intent_id \<Rightarrow> reservation_id \<Rightarrow>
   reservation_source list \<Rightarrow> swap_outcome \<Rightarrow> ('l, 't, 'x) swap_world \<Rightarrow> bool" where
  "driven H I i rid ss o' w \<longleftrightarrow>
     quiet H I w \<or> so_status o' \<noteq> TsDeclined \<and> backed H I i rid ss w"

lemma settle_driven:
  "triple (quiet H I) (ebind (swap_settle env ti TsDeclined now) (\<lambda>_. eok (declined_at ti)))
     (driven H I i rid ss) (\<lambda>_ w. quiet H I w \<or> backed H I i rid ss w)"
  unfolding swap_settle_def
  by (rule then_trades, simp add: quiet_def, blast, rule triple_eok) (simp add: driven_def)

lemma submit_fill_triple:
  "triple (reserved H I (in_id intent) rid ss) (submit_fill env ti intent plan snap rid now)
     (driven H I (in_id intent) rid ss) (\<lambda>_ w. quiet H I w \<or> backed H I (in_id intent) rid ss w)"
  unfolding submit_fill_def
proof (rule triple_ebind)
  let ?i = "in_id intent" and ?E = "\<lambda>_ w. quiet H I w \<or> backed H I (in_id intent) rid ss w"
  show "triple (reserved H I ?i rid ss) (emap_err (\<lambda>_. SwBuild) (eres (se_build env intent plan snap)))
      (\<lambda>_. reserved H I ?i rid ss) ?E"
    by (rule triple_emap_err, rule triple_eres) (auto intro: reserved_backed)
  fix fill
  let ?p = "\<lparr>pf_fill_tx = fill_tx_new ?i (sc_chain_id (se_config env)) (sc_filler_owner (se_config env))
              (pr_target fill) (pr_calldata fill), pf_reservation = rid\<rparr>"
  let ?Q = "\<lambda>oc. case oc of FillSubmitted _ \<Rightarrow> backed H I ?i rid ss | FillRejected _ \<Rightarrow> quiet H I"
  have run: "triple (reserved H I ?i rid ss) (exec_fill env ?p) ?Q ?E"
    by (rule triple_weaken [OF exec_fill_triple [of _ ?i rid H I ss]]) (auto simp: fill_tx_new_def)
  have ok: "triple (backed H I ?i rid ss)
      (ebind (on_trades (to_advance (se_trades env) ti TsSimulated now)) (\<lambda>_.
       ebind (on_trades (to_advance (se_trades env) ti TsSubmitted now)) (\<lambda>_.
         eok \<lparr>so_trade_id = ti, so_status = TsSubmitted\<rparr>))) (driven H I ?i rid ss) ?E"
    by (rule then_trades, simp add: backed_def, blast)+ (rule triple_eok, simp add: driven_def)
  show "triple (reserved H I ?i rid ss)
      (ebind (exec_fill env ?p) (\<lambda>outcome.
         case outcome of
           FillSubmitted _ \<Rightarrow>
             ebind (on_trades (to_advance (se_trades env) ti TsSimulated now)) (\<lambda>_.
             ebind (on_trades (to_advance (se_trades env) ti TsSubmitted now)) (\<lambda>_.
               eok \<lparr>so_trade_id = ti, so_status = TsSubmitted\<rparr>))
         | FillRejected _ \<Rightarrow> ebind (swap_settle env ti TsDeclined now) (\<lambda>_. eok (declined_at ti))))
      (driven H I ?i rid ss) ?E"
  proof (rule triple_ebind [OF run])
    fix oc
    show "triple (?Q oc)
        (case oc of
           FillSubmitted _ \<Rightarrow>
             ebind (on_trades (to_advance (se_trades env) ti TsSimulated now)) (\<lambda>_.
             ebind (on_trades (to_advance (se_trades env) ti TsSubmitted now)) (\<lambda>_.
               eok \<lparr>so_trade_id = ti, so_status = TsSubmitted\<rparr>))
         | FillRejected _ \<Rightarrow> ebind (swap_settle env ti TsDeclined now) (\<lambda>_. eok (declined_at ti)))
        (driven H I ?i rid ss) ?E"
      using ok settle_driven by (cases oc) (simp_all only: fill_outcome.case)
  qed
qed

lemma reserve_call:
  "triple (quiet H I) (etry (on_ledger (service_reserve (se_store env) (se_budgets env) lnow rid i ss ttl)))
     (\<lambda>r. case r of Inr _ \<Rightarrow> reserved H I i rid ss | Inl _ \<Rightarrow> quiet H I) E"
proof (rule triple_etry, rule triple_on_ledger)
  fix w r l
  assume P: "quiet H I w"
    and run: "service_reserve (se_store env) (se_budgets env) lnow rid i ss ttl (sw_ledger w) = (r, l)"
  show "case r of Inl e \<Rightarrow> (case Inl (SwLedger e) of Inr _ \<Rightarrow> reserved H I i rid ss | Inl _ \<Rightarrow> quiet H I) (w\<lparr>sw_ledger := l\<rparr>)
    | Inr x \<Rightarrow> (case Inr x of Inr _ \<Rightarrow> reserved H I i rid ss | Inl _ \<Rightarrow> quiet H I) (w\<lparr>sw_ledger := l\<rparr>)"
  proof (cases r)
    case (Inl e)
    have "held_ids l = held_ids (sw_ledger w)" by (rule held_cong, rule reserve_held(1) [OF run]) (simp add: Inl)
    then show ?thesis using P Inl unfolding quiet_def by simp
  next
    case (Inr u)
    then have put: "lg_reservations (sv_ledger l) =
        bm_insert rid (for_swap rid i ss (sat_add64 lnow ttl)) (lg_reservations (sv_ledger (sw_ledger w)))"
      using reserve_held(2) [OF run] by simp
    have "held_ids l = insert rid (held_ids (sw_ledger w))"
      unfolding held_in_def put by (auto simp: for_swap_def reservation_new_def)
    then show ?thesis
      using P Inr put unfolding quiet_def reserved_def backed_def
      by (auto simp: for_swap_def reservation_new_def)
  qed
qed

lemma reserve_or_decline_triple:
  "triple (quiet H I) (reserve_or_decline env ti i rid plan snap now lnow)
     (\<lambda>d. case d of Some o' \<Rightarrow> driven H I i rid (sources_of plan) o' | None \<Rightarrow> reserved H I i rid (sources_of plan))
     (\<lambda>_ w. quiet H I w \<or> backed H I i rid (sources_of plan) w)"
  unfolding reserve_or_decline_def
proof (rule triple_ebind [OF triple_eread])
  let ?ss = "sources_of plan"
  let ?E = "\<lambda>_ w. quiet H I w \<or> backed H I i rid ?ss w"
  let ?Q = "\<lambda>d. case d of Some o' \<Rightarrow> driven H I i rid ?ss o' | None \<Rightarrow> reserved H I i rid ?ss"
  fix adm
  have decline: "triple (quiet H I) (ebind (swap_settle env ti TsDeclined now) (\<lambda>_. eok (Some (declined_at ti)))) ?Q ?E"
    unfolding swap_settle_def
    by (rule then_trades, simp add: quiet_def, blast, rule triple_eok) (simp add: driven_def)
  have branch: "triple (case r of Inr _ \<Rightarrow> reserved H I i rid ?ss | Inl _ \<Rightarrow> quiet H I)
      (case r of Inr _ \<Rightarrow> eok None
       | Inl (SwLedger (SeLedger (Insufficient _))) \<Rightarrow>
           ebind (swap_settle env ti TsDeclined now) (\<lambda>_. eok (Some (declined_at ti)))
       | Inl e \<Rightarrow> eerr e) ?Q ?E" for r :: "swap_error + unit"
  proof (cases r)
    case (Inr u)
    show ?thesis unfolding Inr sum.case by (rule triple_eok) simp
  next
    case (Inl e)
    have err: "triple (quiet H I) (eerr e') ?Q ?E" for e' by (rule triple_eerr) blast
    have "(case e of SwLedger (SeLedger (Insufficient _)) \<Rightarrow> m | e \<Rightarrow> eerr e) \<in> {m, eerr e}"
      for m :: "('l, 't, 'x, swap_outcome option) swap_call"
      by (simp split: swap_error.split solvent_error.split ledger_error.split)
    then show ?thesis
      unfolding Inl sum.case
      by (rule one_of_two [where P = "\<lambda>m. triple (quiet H I) m ?Q ?E"]) (rule decline, rule err)
  qed
  show "triple (\<lambda>w. quiet H I w \<and> adm = guard_snapshot (sw_guard w))
     (if plan_is_guarded plan snap adm then
        ebind (swap_settle env ti TsDeclined now) (\<lambda>_. eok (Some (declined_at ti)))
      else
        ebind (etry (on_ledger (service_reserve (se_store env) (se_budgets env) lnow rid i
                       ?ss (sc_reservation_ttl_secs (se_config env))))) (\<lambda>result.
          case result of
            Inr _ \<Rightarrow> eok None
          | Inl (SwLedger (SeLedger (Insufficient _))) \<Rightarrow>
              ebind (swap_settle env ti TsDeclined now) (\<lambda>_. eok (Some (declined_at ti)))
          | Inl e \<Rightarrow> eerr e)) ?Q ?E"
    by (rule triple_conj_drop, rule triple_if, rule decline, rule triple_ebind [OF reserve_call branch])
qed

lemma drive_plan_triple:
  "triple (quiet H I) (drive_plan env ti intent plan snap now lnow)
     (driven H I (in_id intent) (reservation_id_of (se_keccak env) (in_id intent) plan) (sources_of plan))
     (\<lambda>_ w. quiet H I w \<or>
        backed H I (in_id intent) (reservation_id_of (se_keccak env) (in_id intent) plan) (sources_of plan) w)"
  unfolding drive_plan_def Let_def
proof (rule triple_ebind [OF reserve_or_decline_triple])
  let ?i = "in_id intent" and ?ss = "sources_of plan"
  let ?rid = "reservation_id_of (se_keccak env) ?i plan"
  fix d
  have go: "triple (reserved H I ?i ?rid ?ss)
      (ebind (on_trades (to_advance (se_trades env) ti TsReserved now)) (\<lambda>_. submit_fill env ti intent plan snap ?rid now))
      (driven H I ?i ?rid ?ss) (\<lambda>_ w. quiet H I w \<or> backed H I ?i ?rid ?ss w)"
    by (rule then_trades [OF _ _ submit_fill_triple]) (simp add: reserved_def backed_def, blast intro: reserved_backed)
  show "triple (case d of Some o' \<Rightarrow> driven H I ?i ?rid ?ss o' | None \<Rightarrow> reserved H I ?i ?rid ?ss)
     (case d of
        None \<Rightarrow> ebind (on_trades (to_advance (se_trades env) ti TsReserved now)) (\<lambda>_. submit_fill env ti intent plan snap ?rid now)
      | Some o' \<Rightarrow> eok o')
     (driven H I ?i ?rid ?ss) (\<lambda>_ w. quiet H I w \<or> backed H I ?i ?rid ?ss w)"
    using go by (cases d) (simp_all only: option.case triple_eok)
qed

lemma declined_triple:
  "triple (quiet H I) (swap_declined env ti intent taker now prices) (\<lambda>_. quiet H I) (\<lambda>_. quiet H I)"
  unfolding swap_declined_def swap_settle_def Let_def
  by (rule triple_ebind, rule triple_eres, assumption, assumption)+
    (rule then_trades, simp add: quiet_def, assumption, rule then_trades, simp add: quiet_def, assumption, rule triple_eok)

lemma submit_booked_triple:
  "triple (quiet H I) (submit_booked env bk now lnow cost intent taker ti prices)
     (\<lambda>o' w. quiet H I w \<or> so_status o' \<noteq> TsDeclined \<and>
        (\<exists>plan. routed env bk now cost intent = Some plan \<and>
           backed H I (in_id intent) (reservation_id_of (se_keccak env) (in_id intent) plan) (sources_of plan) w))
     (\<lambda>_ w. quiet H I w \<or>
        (\<exists>plan. routed env bk now cost intent = Some plan \<and>
           backed H I (in_id intent) (reservation_id_of (se_keccak env) (in_id intent) plan) (sources_of plan) w))"
    (is "triple _ _ ?Q ?E")
  unfolding submit_booked_def
proof (rule triple_ebind [where R = "\<lambda>found w. quiet H I w \<and> swap_amounts_of intent now = Inr found"])
  show "triple (quiet H I) (eres (swap_amounts_of intent now))
      (\<lambda>found w. quiet H I w \<and> swap_amounts_of intent now = Inr found) ?E"
    by (rule triple_eres) blast+
next
  fix found
  have dec: "triple (quiet H I) (swap_declined env ti intent taker now prices) ?Q ?E"
    by (rule triple_weaken [OF declined_triple]) auto
  have drive: "triple (quiet H I) (drive_plan env i intent plan (rb_snapshot bk) now lnow) ?Q ?E"
    if "routed env bk now cost intent = Some plan" for plan i
    by (rule triple_weaken [OF drive_plan_triple [of H I i intent plan]]) (use that in \<open>auto simp: driven_def\<close>)
  have planned: "triple (quiet H I)
      (ebind (on_trades (to_create (se_trades env) t ls as)) (\<lambda>created.
         if cr_created created then drive_plan env (cr_id created) intent plan (rb_snapshot bk) now lnow
         else ebind (on_trades (to_info (se_trades env) (cr_id created))) (\<lambda>known.
           let status = (case known of None \<Rightarrow> TsQuoted | Some x \<Rightarrow> t_status (ti_trade x)) in
           if status \<noteq> TsCreated \<and> status \<noteq> TsQuoted
           then eok \<lparr>so_trade_id = cr_id created, so_status = status\<rparr>
           else drive_plan env (cr_id created) intent plan (rb_snapshot bk) now lnow))) ?Q ?E"
    if "routed env bk now cost intent = Some plan" for plan t ls as
    unfolding Let_def
    by (rule then_trades, simp add: quiet_def, blast, rule triple_if, rule drive [OF that],
        rule then_trades, simp add: quiet_def, blast, rule triple_if, rule triple_eok, blast, rule drive [OF that])
  show "triple (\<lambda>w. quiet H I w \<and> swap_amounts_of intent now = Inr found)
     (case found of
        None \<Rightarrow> swap_declined env ti intent taker now prices
      | Some amounts \<Rightarrow>
          let request = swap_request intent amounts in
          case route bk request (unwrap_or (sa_amount_in amounts) (in_routing_input_limit intent))
                 (sc_routing (se_config env)) (cost request) None of
            None \<Rightarrow> swap_declined env ti intent taker now prices
          | Some plan \<Rightarrow>
              ebind (on_trades (to_create (se_trades env)
                       (swap_trade ti intent taker amounts (Some plan) now TsQuoted prices)
                       (trade_legs plan) (reached now [TsCreated, TsQuoted]))) (\<lambda>created.
                if cr_created created then drive_plan env (cr_id created) intent plan (rb_snapshot bk) now lnow
                else
                  ebind (on_trades (to_info (se_trades env) (cr_id created))) (\<lambda>known.
                    let status = (case known of None \<Rightarrow> TsQuoted | Some x \<Rightarrow> t_status (ti_trade x)) in
                    if status \<noteq> TsCreated \<and> status \<noteq> TsQuoted
                    then eok \<lparr>so_trade_id = cr_id created, so_status = status\<rparr>
                    else drive_plan env (cr_id created) intent plan (rb_snapshot bk) now lnow))) ?Q ?E"
    unfolding Let_def [of "swap_request intent _"]
    by (rule triple_conj_pre, rule triple_case_option, rule dec, rule triple_case_option, rule dec,
        rule planned, simp add: routed_def)
qed

lemma submit_effect:
  assumes "engine_ok (sw_exec w)" "submit_booked env bk now lnow cost intent taker ti prices w = (res, w')"
  shows "held_ids (sw_ledger w') \<subseteq> held_ids (sw_ledger w) \<and> inflight (sw_exec w') = inflight (sw_exec w) \<or>
    (\<forall>o'. res = Inr o' \<longrightarrow> so_status o' \<noteq> TsDeclined) \<and>
    (\<exists>plan. routed env bk now cost intent = Some plan \<and>
       backed (held_ids (sw_ledger w)) (inflight (sw_exec w)) (in_id intent)
         (reservation_id_of (se_keccak env) (in_id intent) plan) (sources_of plan) w')"
proof -
  have start: "quiet (held_ids (sw_ledger w)) (inflight (sw_exec w)) w" using assms(1) by (simp add: quiet_def)
  show ?thesis
  proof (cases res)
    case (Inl e)
    show ?thesis
      using tripleD(2) [OF submit_booked_triple start assms(2) [unfolded Inl]] unfolding Inl quiet_def by simp blast
  next
    case (Inr o')
    show ?thesis
      using tripleD(1) [OF submit_booked_triple start assms(2) [unfolded Inr]] unfolding Inr quiet_def by simp blast
  qed
qed

end

end
