(* ===== verification/Swap_Properties.thy ===== *)
theory Swap_Properties
  imports Swap_Submit
begin

text \<open>
  The swap flow on its real components: the SQLite ledger and trade stores and the executor over an
  arbitrary wallet engine. The interpretation discharges the contracts the flow relies on; the
  properties say what submissions, ticks, restarts and their failures can do to trades, holds and
  tracked fills.
\<close>

definition sqlite_env ::
  "budget_source \<Rightarrow> 'v wallet_ops \<Rightarrow> (b256 \<Rightarrow> reservation_source list \<Rightarrow> settlement_error + u256 list) \<Rightarrow>
   (intent \<Rightarrow> route_plan \<Rightarrow> snapshot \<Rightarrow> unit + prepared_fill) \<Rightarrow> keccak \<Rightarrow> swap_config \<Rightarrow>
   (sqlite, trade_db, 'v executor) swap_env" where
  "sqlite_env budgets wallet settled builder k config =
     \<lparr>se_store = sqlite_ops, se_budgets = budgets, se_trades = sqlite_trade_ops,
      se_exec = executor_ops wallet, se_settled = settled, se_build = builder, se_keccak = k,
      se_config = config\<rparr>"

interpretation swap_flow: swap_system "sqlite_env budgets wallet settled builder k config"
    sqlite_trade_view trade_db_wf inflight_of executor_wf
  for budgets wallet settled builder k config
  unfolding swap_system_def sqlite_env_def swap_env.simps
  by (intro conjI sqlite_trades.trade_store_axioms walletkit.execution_engine_axioms)

section \<open>Trades only progress\<close>

text \<open>
  One step of the system, with any outcome: a submission on any book, a tick of the reconcile worker,
  a reorg signal, a change of the guarded set or of the budgets, a restart that recovers the ledger.
\<close>

inductive swap_step :: "('l, 't, 'x) swap_env \<Rightarrow> ('l, 't, 'x) swap_world \<Rightarrow> ('l, 't, 'x) swap_world \<Rightarrow> bool"
  for env where
  st_submit: "swap_step env w (snd (submit_booked env bk now lnow cost intent taker i prices w))"
| st_tick: "swap_step env w (snd (reconcile_tick env now sweep_now w))"
| st_reorg: "swap_step env w (snd (exec_on_reorg env r w))"
| st_guard: "swap_step env w (w\<lparr>sw_guard := g\<rparr>)"
| st_budgets: "swap_step env w (w\<lparr>sw_ledger := snd (sync_budgets budgets registry (sw_ledger w))\<rparr>)"
| st_restart: "recover (se_store env) budgets (service_new (sv_store (sw_ledger w))) = (Inr (), sv) \<Longrightarrow>
     swap_step env w (w\<lparr>sw_ledger := sv\<rparr>)"

lemma inv_on_trades:
  assumes "\<And>t r t'. J t \<Longrightarrow> m t = (r, t') \<Longrightarrow> J t'"
  shows "inv_call (\<lambda>w. J (sw_trades w)) (on_trades m)"
  unfolding inv_call_def by (rule triple_on_trades) (auto dest: assms split: sum.split)

lemma inv_elsewhere:
  "inv_call (\<lambda>w. J (sw_trades w)) (on_exec m)" "inv_call (\<lambda>w. J (sw_trades w)) (on_ledger n)"
  unfolding inv_call_def
  by (rule triple_on_exec, simp split: sum.split, rule triple_on_ledger, simp split: sum.split)

context swap_system
begin

lemma trades_component: "component_calls (\<lambda>w. trades_ok (sw_trades w) \<and> trades_evolve v (view (sw_trades w))) env"
proof -
  let ?J = "\<lambda>t. trades_ok t \<and> trades_evolve v (view t)"
  note keep = inv_on_trades [where J = ?J]
  have "inv_call (\<lambda>w. ?J (sw_trades w)) (on_trades (to_create (se_trades env) t ls as))" for t ls as
    by (rule keep) (rule T.kept_create)
  moreover have "inv_call (\<lambda>w. ?J (sw_trades w)) (on_trades (to_advance (se_trades env) i st n))" for i st n
    by (rule keep) (rule T.kept_advance)
  moreover have "inv_call (\<lambda>w. ?J (sw_trades w)) (on_trades (to_settle (se_trades env) i o'))" for i o'
    by (rule keep) (rule T.kept_settle)
  moreover have "inv_call (\<lambda>w. ?J (sw_trades w)) (on_trades (to_info (se_trades env) i))" for i
    by (rule keep) (rule T.kept_info)
  moreover have "inv_call (\<lambda>w. ?J (sw_trades w)) (on_trades (to_find_by_order (se_trades env) h))" for h
    by (rule keep) (rule T.kept_find)
  ultimately show ?thesis
    unfolding component_calls_def by (intro conjI allI inv_elsewhere [where J = ?J])
qed

lemma step_evolves:
  assumes "swap_step env w w'" "trades_ok (sw_trades w) \<and> trades_evolve v (view (sw_trades w))"
  shows "trades_ok (sw_trades w') \<and> trades_evolve v (view (sw_trades w'))"
  using assms(1)
proof cases
  case (st_submit bk now lnow cost intent taker i prices)
  then show ?thesis using inv_callD [OF submit_keeps [OF trades_component] assms(2)] by (metis prod.collapse)
next
  case (st_tick now sweep_now)
  then show ?thesis using inv_callD [OF tick_keeps [OF trades_component] assms(2)] by (metis prod.collapse)
next
  case (st_reorg r)
  then show ?thesis
    using assms(2) inv_callD [OF inv_elsewhere(2) [where J = "\<lambda>t. trades_ok t \<and> trades_evolve v (view t)"] assms(2)]
    unfolding exec_on_reorg_def by (metis prod.collapse)
qed (use assms(2) in simp_all)

lemma steps_evolve:
  assumes "(swap_step env)\<^sup>*\<^sup>* w w'" "trades_ok (sw_trades w)"
  shows "trades_ok (sw_trades w') \<and> trades_evolve (view (sw_trades w)) (view (sw_trades w'))"
  using assms
proof (induction rule: rtranclp_induct)
  case (step x y)
  show ?case by (rule step_evolves [OF step(2) step(3) [OF step(4)]])
qed simp

end

section \<open>Resubmissions\<close>

lemma on_trades_Inr:
  "on_trades m w = (Inr x, w') \<longleftrightarrow> (\<exists>s. m (sw_trades w) = (Inr x, s) \<and> w' = w\<lparr>sw_trades := s\<rparr>)"
  by (cases "m (sw_trades w)"; cases "fst (m (sw_trades w))")
    (auto simp: on_trades_def on_part_def emap_err_def)

lemma swap_trade_order [simp]: "t_order_hash (swap_trade i intent taker amounts plan now st prices) = in_id intent"
  by (simp add: swap_trade_def)

context swap_system
begin

lemma create_known:
  assumes "trades_ok s" "view s j = Some t" "t_order_hash t = t_order_hash t0"
    and "to_create (se_trades env) t0 ls as s = (Inr c, s')"
  shows "\<not> cr_created c" and "cr_id c = j" and "view s' = view s" and "trades_ok s'"
proof -
  note spec = T.create_spec [OF assms(1,4)]
  show new: "\<not> cr_created c" using spec assms(2,3) by (auto split: if_splits)
  then obtain u where "view s (cr_id c) = Some u" "t_order_hash u = t_order_hash t0" using spec by auto
  then show "cr_id c = j" using T.wf_orders [OF assms(1)] assms(2,3) unfolding one_per_order_def by metis
  show "view s' = view s" "trades_ok s'" using spec new by simp_all
qed

lemma resubmit_echo:
  assumes ok: "trades_ok (sw_trades w)" and known: "view (sw_trades w) j = Some t" "t_order_hash t = in_id intent"
    and past: "t_status t \<noteq> TsCreated" "t_status t \<noteq> TsQuoted"
    and plan: "routed env bk now cost intent = Some plan"
    and run: "submit_booked env bk now lnow cost intent taker i prices w = (Inr out, w')"
  shows "out = \<lparr>so_trade_id = j, so_status = t_status t\<rparr> \<and> view (sw_trades w') = view (sw_trades w) \<and>
    w' = w\<lparr>sw_trades := sw_trades w'\<rparr>"
proof -
  from plan obtain amounts where a: "swap_amounts_of intent now = Inr (Some amounts)"
    and r: "route bk (swap_request intent amounts) (unwrap_or (sa_amount_in amounts) (in_routing_input_limit intent))
          (sc_routing (se_config env)) (cost (swap_request intent amounts)) None = Some plan"
    by (auto simp: routed_def split: sum.splits option.splits)
  let ?t0 = "swap_trade i intent taker amounts (Some plan) now TsQuoted prices"
  from run a r obtain c s where created: "to_create (se_trades env) ?t0 (trade_legs plan)
      (reached now [TsCreated, TsQuoted]) (sw_trades w) = (Inr c, s)"
    and rest: "(if cr_created c then drive_plan env (cr_id c) intent plan (rb_snapshot bk) now lnow
      else ebind (on_trades (to_info (se_trades env) (cr_id c))) (\<lambda>known.
        let status = (case known of None \<Rightarrow> TsQuoted | Some x \<Rightarrow> t_status (ti_trade x)) in
        if status \<noteq> TsCreated \<and> status \<noteq> TsQuoted then eok \<lparr>so_trade_id = cr_id c, so_status = status\<rparr>
        else drive_plan env (cr_id c) intent plan (rb_snapshot bk) now lnow)) (w\<lparr>sw_trades := s\<rparr>) = (Inr out, w')"
    by (auto simp: submit_booked_def Let_def ebind_Inr on_trades_Inr)
  note old = create_known [OF ok known(1) _ created, simplified, OF known(2)]
  from rest old(1,2) obtain info s2 where info: "to_info (se_trades env) j s = (Inr info, s2)"
    and tail: "(let status = (case info of None \<Rightarrow> TsQuoted | Some x \<Rightarrow> t_status (ti_trade x)) in
        if status \<noteq> TsCreated \<and> status \<noteq> TsQuoted then eok \<lparr>so_trade_id = j, so_status = status\<rparr>
        else drive_plan env j intent plan (rb_snapshot bk) now lnow) (w\<lparr>sw_trades := s2\<rparr>) = (Inr out, w')"
    by (auto simp: ebind_Inr on_trades_Inr)
  note read = T.info_spec [OF old(4) info]
  then have "map_option ti_trade info = Some t" "view s2 = view (sw_trades w)" using known(1) old(3) by simp_all
  then show ?thesis using tail past by (auto simp: Let_def)
qed

lemma unroutable_resubmit:
  assumes ok: "trades_ok (sw_trades w)" and known: "view (sw_trades w) j = Some t" "t_order_hash t = in_id intent"
    and plan: "routed env bk now cost intent = None"
    and run: "submit_booked env bk now lnow cost intent taker i prices w = (Inr out, w')"
  shows "out = declined_at j \<and> w' = w\<lparr>sw_trades := sw_trades w'\<rparr> \<and>
    view (sw_trades w') = on_trade (settled_with
      \<lparr>stl_status = TsDeclined, stl_amount_out = None, stl_tx_hash = None, stl_block_number = None, stl_at = now\<rparr>)
      j (view (sw_trades w))"
proof -
  have "swap_declined env i intent taker now prices w = (Inr out, w')"
    using run plan by (auto simp: submit_booked_def routed_def Let_def ebind_Inr split: option.splits)
  then obtain t0 c s s2 where c: "to_create (se_trades env) t0 [] (reached now [TsCreated, TsDeclined]) (sw_trades w) = (Inr c, s)"
    and t0: "t_order_hash t0 = in_id intent"
    and settle: "to_settle (se_trades env) (cr_id c)
        \<lparr>stl_status = TsDeclined, stl_amount_out = None, stl_tx_hash = None, stl_block_number = None, stl_at = now\<rparr> s = (Inr (), s2)"
    and out: "out = declined_at (cr_id c)" "w' = w\<lparr>sw_trades := s2\<rparr>"
    by (auto simp: swap_declined_def swap_settle_def Let_def ebind_Inr on_trades_Inr)
  note old = create_known [OF ok known(1) _ c, unfolded t0, OF known(2)]
  note last = T.settle_spec [OF old(4) settle]
  show ?thesis using last old out by simp
qed

end

section \<open>Concrete runs\<close>

text \<open>A wallet whose one broadcast confirms in block 5, and a settlement that pulls what was reserved.\<close>

definition ex_wallet :: "unit wallet_ops" where
  "ex_wallet =
     \<lparr>wk_send = \<lambda>_. eok 77, wk_handle = \<lambda>_. eok (Some \<lparr>th_status = TxConfirmed 5, th_broadcasts = [90]\<rparr>),
      wk_tick = eok (), wk_dry_run = \<lambda>_. eok SimSuccess, wk_receipt = \<lambda>_. eok (Some (Some 5))\<rparr>"

definition ex_env :: "(sqlite, trade_db, unit executor) swap_env" where
  "ex_env = sqlite_env (\<lambda>_. Inr 500) ex_wallet (\<lambda>_ ss. Inr (map rs_amount ss))
     (\<lambda>_ _ _. Inr \<lparr>pr_target = 60, pr_calldata = []\<rparr>) (\<lambda>_. 99)
     \<lparr>sc_routing = ex_config, sc_chain_id = 1, sc_filler_owner = 61, sc_reservation_ttl_secs = 60\<rparr>"

definition ex_trade_row :: "intent_id \<Rightarrow> trade_row" where
  "ex_trade_row h = \<lparr>tw_order_hash = h, tw_taker = 3, tw_token_in = 10, tw_token_out = 11, tw_amount_in = 1,
     tw_min_amount_out = 1, tw_amount_out = None, tw_status = ''submitted'', tw_status_rank = 4,
     tw_deadline_block = 1000, tw_signature = Some [], tw_price_impact_bps = Some 0, tw_surplus = Some 0,
     tw_tx_hash = None, tw_block_number = None, tw_created_at = 50, tw_settled_at = None,
     tw_token_in_price_usd = None, tw_token_out_price_usd = None\<rparr>"

definition ex_trades :: "intent_id \<Rightarrow> trade_db" where
  "ex_trades h = \<lparr>td_tables = \<lparr>tt_trades = [(5, ex_trade_row h)], tt_attempts = [((5, ''submitted''), 50)], tt_legs = []\<rparr>,
     td_faults = []\<rparr>"

text \<open>The order 9 is submitted, its reservation 7 held and its fill in flight.\<close>

definition ex_inflight :: "(sqlite, trade_db, unit executor) swap_world" where
  "ex_inflight = \<lparr>sw_ledger = ex_service, sw_guard = strategy_guard_default, sw_trades = ex_trades 9,
     sw_exec = \<lparr>xe_db = \<lparr>fd_inflight = [(9, 7, 77)], fd_terminal = [], fd_faults = []\<rparr>, xe_wallet = ()\<rparr>\<rparr>"

lemma ex_trades_wf: "trade_db_wf (ex_trades h)"
proof -
  have "row_status_ok (ex_trade_row h)"
    by (rule row_status_okI [of _ TsSubmitted]) (simp_all add: ex_trade_row_def)
  then have "trades_wf (bm_insert 5 (ex_trade_row h) [])"
    by (intro trades_wf_insert) (simp_all add: trades_wf_def)
  moreover have "attempts_ok ([] @ [((5, status_as_str TsSubmitted), 50)])"
    by (rule attempts_ok_append) (simp add: attempts_ok_def)
  ultimately show ?thesis by (simp add: trade_db_wf_def tables_wf_def ex_trades_def)
qed

definition ex_trade :: "intent_id \<Rightarrow> trade" where
  "ex_trade h = \<lparr>t_id = 5, t_order_hash = h, t_taker = 3, t_token_in = 10, t_token_out = 11, t_amount_in = 1,
     t_min_amount_out = 1, t_amount_out = None, t_status = TsSubmitted, t_deadline_block = 1000,
     t_signature = Some [], t_price_impact_bps = Some 0, t_surplus = Some 0, t_tx_hash = None,
     t_block_number = None, t_created_at = 50, t_settled_at = None, t_token_in_price_usd = None,
     t_token_out_price_usd = None\<rparr>"

lemma ex_trades_view: "sqlite_trade_view (ex_trades h) 5 = Some (ex_trade h)"
  by (simp add: sqlite_trade_view_def tables_view_def ex_trades_def row_to_trade_def ex_trade_row_def
      parse_status_def status_from_str_def ex_trade_def)

lemma ex_inflight_ok:
  "executor_wf (sw_exec ex_inflight)" "ledger_inv (sv_ledger (sw_ledger ex_inflight))"
  "trade_db_wf (sw_trades ex_inflight)"
  using reachable_consistent [OF ex_service_reachable] ex_trades_wf
  by (simp_all add: ex_inflight_def executor_wf_def consistent_def)

lemma ex_env_fields [simp]:
  "se_store ex_env = sqlite_ops" "se_budgets ex_env = (\<lambda>_. Inr 500)" "se_trades ex_env = sqlite_trade_ops"
  "se_exec ex_env = executor_ops ex_wallet" "se_settled ex_env = (\<lambda>_ ss. Inr (map rs_amount ss))"
  "se_build ex_env = (\<lambda>_ _ _. Inr \<lparr>pr_target = 60, pr_calldata = []\<rparr>)" "se_keccak ex_env = (\<lambda>_. 99)"
  "se_config ex_env = \<lparr>sc_routing = ex_config, sc_chain_id = 1, sc_filler_owner = 61, sc_reservation_ttl_secs = 60\<rparr>"
  by (simp_all add: ex_env_def sqlite_env_def)

lemma executor_ops_fields [simp]:
  "eo_submit (executor_ops w) = executor_submit w" "eo_status (executor_ops w) = executor_status w"
  "eo_forget (executor_ops w) = executor_forget w" "eo_tracked (executor_ops w) = executor_tracked"
  "eo_tick (executor_ops w) = executor_tick w" "eo_simulate (executor_ops w) = executor_simulate w"
  by (simp_all add: executor_ops_def)

lemma ex_wallet_fields [simp]:
  "wk_send ex_wallet c = eok 77" "wk_handle ex_wallet h = eok (Some \<lparr>th_status = TxConfirmed 5, th_broadcasts = [90]\<rparr>)"
  "wk_tick ex_wallet = eok ()" "wk_dry_run ex_wallet c = eok SimSuccess" "wk_receipt ex_wallet t = eok (Some (Some 5))"
  by (simp_all add: ex_wallet_def)

lemmas engine_eval = on_exec_def on_part_def emap_err_def ebind_def etry_def eread_def
  executor_tick_def executor_tracked_def executor_status_def executor_submit_def executor_forget_def
  executor_simulate_def on_wallet_def on_db_def fill_tracked_def fill_handle_def fill_track_def fill_untrack_def
  record_terminal_def terminal_row_of_def fill_stmt_def inflight_row_def status_for_def mined_broadcast_def

lemmas ledger_eval = on_ledger_def service_post_def service_void_def service_reserve_def durable_first_def
  sqlite_ops_def sqlite_post_def sqlite_void_def sqlite_reserve_def with_db_def update_row_def
  post_def active_sources_def transition_def publish_def reservation_sources_def lookup_reservation_def
  for_swap_def reservation_new_def

lemmas reconcile_eval = exec_reconcile_def reconcile_fill_def post_confirmed_def settle_ledger_def

lemmas trade_eval = on_trades_def sqlite_trade_ops_def find_by_order_def trade_read_def trade_tx_def order_row_def
  row_to_trade_def parse_status_def status_from_str_def trade_settle_def opt_i64_def trade_i64_def i64_max_def
  update_trade_def insert_attempt_def trade_advance_def

lemmas tick_eval = reconcile_tick_def settle_trade_def apply_settlement_def fill_settlement_def exec_forget_def
  tracked_reservations_def sweep_expired_def expired_swaps_as_of_def bs_of_list_def bm_values_def

lemma ex_tick_eval:
  "\<exists>w'. reconcile_tick ex_env 100 100 ex_inflight = (Inr \<lparr>rr_settled = Suc 0, rr_swept = 0\<rparr>, w') \<and>
     inflight_of (sw_exec w') 9 = None \<and> held_ids (sw_ledger w') = {} \<and>
     map_option t_status (sqlite_trade_view (sw_trades w') 5) = Some TsConfirmed"
  by (simp add: tick_eval reconcile_eval engine_eval ledger_eval trade_eval ex_inflight_def ex_service_eval ex_trades_def
      ex_trade_row_def inflight_of_def held_in_def sqlite_trade_view_def tables_view_def)

text \<open>An exact-out order for one unit, the book it routes on, and a fresh system.\<close>

definition ex_swap_intent :: intent where
  "ex_swap_intent = \<lparr>in_id = 7, in_protocol = UniswapXV2, in_input = \<lparr>ii_token = 10, ii_curve = Static 1\<rparr>,
     in_routing_input_limit = None, in_outputs = [\<lparr>io_token = 11, io_curve = Static 1, io_recipient = 3\<rparr>],
     in_deadline = 1000, in_exclusivity = None, in_settler = 4, in_origin_chain = 1, in_raw = [],
     in_signature = [], in_observed_at = 40\<rparr>"

definition ex_book :: "snapshot \<Rightarrow> routing_book" where
  "ex_book snap = \<lparr>rb_snapshot = snap, rb_caps = available_snapshot ex_wallets, rb_guards = []\<rparr>"

definition ex_prices :: trade_prices where
  "ex_prices = \<lparr>tp_token_in_usd = None, tp_token_out_usd = None\<rparr>"

definition ex_fresh :: "trade_db \<Rightarrow> (sqlite, trade_db, unit executor) swap_world" where
  "ex_fresh db = \<lparr>sw_ledger = service_new \<lparr>sq_rows = [], sq_faults = []\<rparr>, sw_guard = strategy_guard_default, sw_trades = db,
     sw_exec = \<lparr>xe_db = \<lparr>fd_inflight = [], fd_terminal = [], fd_faults = []\<rparr>, xe_wallet = ()\<rparr>\<rparr>"

definition ex_no_trades :: trade_db where
  "ex_no_trades = \<lparr>td_tables = \<lparr>tt_trades = [], tt_attempts = [], tt_legs = []\<rparr>, td_faults = []\<rparr>"

definition ex_plan_out :: route_plan where
  "ex_plan_out = \<lparr>rp_intent = 7, rp_legs = sp_legs (ex_split 0), rp_expected_profit = 0, rp_price_impact_bps = 0\<rparr>"

lemma ex_route_out: "route (ex_book ex_registry) (ex_request False) 1 ex_config 0 None = Some ex_plan_out"
  using ex_sparse [OF ex_solve_out, of 0 4] ex_impact
  unfolding route_def Let_def ex_book_def ex_config_def routing_config.select_convs routing_book.select_convs ex_selected
  by (simp add: ex_request_def ex_plan_out_def ex_split_def gross_input_def split_gas_def u256 u256_max_def)

lemma ex_amounts:
  "swap_amounts_of ex_swap_intent 50 = Inr (Some \<lparr>sa_token_in = 10, sa_token_out = 11, sa_amount_in = 1, sa_min_out = 1\<rparr>)"
  "swap_request ex_swap_intent \<lparr>sa_token_in = 10, sa_token_out = 11, sa_amount_in = 1, sa_min_out = 1\<rparr> = ex_request False"
  "in_routing_input_limit ex_swap_intent = None"
  by (simp_all add: swap_amounts_of_def primary_output_def curve_amount_def ex_swap_intent_def swap_request_def ex_request_def)

lemma ex_intent_fields [simp]:
  "in_id ex_swap_intent = 7" "in_deadline ex_swap_intent = 1000" "in_signature ex_swap_intent = []"
  "in_input ex_swap_intent = \<lparr>ii_token = 10, ii_curve = Static 1\<rparr>"
  "in_outputs ex_swap_intent = [\<lparr>io_token = 11, io_curve = Static 1, io_recipient = 3\<rparr>]"
  "rb_snapshot (ex_book snap) = snap"
  by (simp_all add: ex_swap_intent_def ex_book_def)

lemma ex_routed: "routed ex_env (ex_book ex_registry) 50 (\<lambda>_. 0) ex_swap_intent = Some ex_plan_out"
  using ex_route_out by (simp add: routed_def ex_amounts [simplified])

lemma ex_unrouted: "routed ex_env (ex_book snapshot_default) 50 (\<lambda>_. 0) ex_swap_intent = None"
  by (simp add: routed_def ex_amounts [simplified] ex_book_def route_def select_def scored_candidates_def snapshot_default_def
      active_strategies_for_pair_def ex_request_def solve_sparse_def solve_def map_filter_simps sort_by_def Let_def)

lemmas submit_eval = drive_plan_def reserve_or_decline_def submit_fill_def exec_fill_def fill_tx_new_def
  reservation_id_of_def trade_create_def insert_trade_def insert_leg_def existing_trade_id_def enumerate_eq_zip
  swap_trade_def trade_legs_def reached_def plan_is_guarded_def is_guarded_def guard_snapshot_def strategy_guard_default_def
  to_verdict_def fill_to_intent_def sources_of_def

lemmas reserve_eval = service_new_def read_budgets_def accounts_of_def
  accounts_def less_account_key_def reserve_owned_def
  feed_budgets_def set_budget_def ledger_default_def can_reserve_def bm_contains_def
  aggregate_demand_def add_demand_def available_def budget_def
  sat_add_def u256_max_def i64_of_def sat_add64_def u64_max_def restore_def with_held_def held_default_def
  less_eq_account_key_def

lemma ex_submit_eval:
  "\<exists>w'. submit_booked ex_env (ex_book ex_registry) 50 50 (\<lambda>_. 0) ex_swap_intent 3 5 ex_prices (ex_fresh ex_no_trades) =
       (Inr \<lparr>so_trade_id = 5, so_status = TsSubmitted\<rparr>, w') \<and>
     inflight_of (sw_exec w') 7 = Some 99"
  using ex_route_out
  by (simp add: submit_booked_def ex_amounts [simplified] Let_def submit_eval engine_eval ledger_eval trade_eval reserve_eval
      ex_fresh_def ex_no_trades_def ex_plan_out_def ex_split_def ex_prices_def ex_registry_def
      bs_of_list_def bm_values_def inflight_of_def del: bm_contains_iff)

section \<open>The properties\<close>

text \<open>
  C9. Over any history of submissions, ticks, reorgs and restarts, with any failures, a trade never
  disappears, keeps its order and its economics, never changes once it is settled, and until then its
  status only climbs the ladder; and every signed order has at most one trade.
\<close>

theorem trades_only_progress:
  assumes "(swap_step (sqlite_env budgets wallet settled builder k config))\<^sup>*\<^sup>* w w'"
    and "trade_db_wf (sw_trades w)" and "sqlite_trade_view (sw_trades w) i = Some t"
  shows "(\<exists>u. sqlite_trade_view (sw_trades w') i = Some u \<and> progress t u) \<and>
    one_per_order (sqlite_trade_view (sw_trades w'))"
  using swap_flow.steps_evolve [OF assms(1,2)] assms(3) sqlite_trades.wf_orders
  unfolding trades_evolve_def by blast

theorem trades_only_progress_witness:
  "\<exists>u. sqlite_trade_view (sw_trades (snd (reconcile_tick ex_env 100 100 ex_inflight))) 5 = Some u \<and>
     progress (ex_trade 9) u \<and> t_status u = TsConfirmed"
proof -
  let ?w = "snd (reconcile_tick ex_env 100 100 ex_inflight)"
  have steps: "(swap_step ex_env)\<^sup>*\<^sup>* ex_inflight ?w" by (rule r_into_rtranclp, rule st_tick)
  have known: "sqlite_trade_view (sw_trades ex_inflight) 5 = Some (ex_trade 9)"
    using ex_trades_view by (simp add: ex_inflight_def)
  from trades_only_progress [OF steps [unfolded ex_env_def] ex_inflight_ok(3) known]
  have "\<exists>u. sqlite_trade_view (sw_trades ?w) 5 = Some u \<and> progress (ex_trade 9) u" unfolding ex_env_def by blast
  then show ?thesis using ex_tick_eval by auto
qed

section \<open>A tick forgets nothing\<close>

text \<open>
  C11. Whatever fails during a tick of the reconcile worker, a fill that was in flight is either still
  tracked with its reservation, or its hold has been released and the trade of its order is settled.
  A tick that succeeds leaves no elapsed swap hold except those of fills still in flight.
\<close>

theorem tick_forgets_only_settled_fills:
  assumes "trade_db_wf (sw_trades w)" "executor_wf (sw_exec w)" "ledger_inv (sv_ledger (sw_ledger w))"
    and "reconcile_tick (sqlite_env budgets wallet settled builder k config) now sweep_now w = (res, w')"
  shows "(\<forall>i r. inflight_of (sw_exec w) i = Some r \<longrightarrow>
      inflight_of (sw_exec w') i = Some r \<or>
      inflight_of (sw_exec w') i = None \<and> r \<notin> held_ids (sw_ledger w') \<and>
        settled_order (sqlite_trade_view (sw_trades w')) i) \<and>
    (\<not> isl res \<longrightarrow>
      (\<forall>j \<in> set (expired_swaps_as_of (sv_ledger (sw_ledger w')) sweep_now). \<exists>i. inflight_of (sw_exec w') i = Some j))"
proof -
  have "\<exists>i. inflight_of (sw_exec w') i = Some j"
    if ok: "\<not> isl res" and j: "j \<in> set (expired_swaps_as_of (sv_ledger (sw_ledger w')) sweep_now)" for j
  proof (cases res)
    case (Inr rep)
    show ?thesis by (rule swap_flow.tick_sweeps [OF assms(1-3) assms(4) [unfolded Inr] j])
  qed (use ok in simp)
  then show ?thesis
    using swap_flow.tick_accounts [OF assms] unfolding accounted_def by blast
qed

theorem tick_forgets_only_settled_fills_witness:
  "\<exists>w'. reconcile_tick ex_env 100 100 ex_inflight = (Inr \<lparr>rr_settled = Suc 0, rr_swept = 0\<rparr>, w') \<and>
     inflight_of (sw_exec ex_inflight) 9 = Some 7 \<and> inflight_of (sw_exec w') 9 = None \<and>
     settled_order (sqlite_trade_view (sw_trades w')) 9"
proof -
  obtain w' where w': "reconcile_tick ex_env 100 100 ex_inflight = (Inr \<lparr>rr_settled = Suc 0, rr_swept = 0\<rparr>, w')"
    "inflight_of (sw_exec w') 9 = None" using ex_tick_eval by blast
  have before: "inflight_of (sw_exec ex_inflight) 9 = Some 7" by (simp add: ex_inflight_def inflight_of_def)
  note tick = tick_forgets_only_settled_fills [OF ex_inflight_ok(3,1,2) w'(1) [unfolded ex_env_def]]
  then have "settled_order (sqlite_trade_view (sw_trades w')) 9" using before w'(2) by fastforce
  then show ?thesis using w' before by blast
qed

section \<open>What a submission can hold\<close>

text \<open>
  C10. A submission, on any book and with any failures, either adds no hold and no tracked fill, or it
  was routed, adds at most the hold of the plan's payouts under the id derived from order and plan,
  and tracks at most the fill of this order, backed by that hold. A submission that answers
  \<open>Declined\<close> adds neither.
\<close>

theorem submission_holds_at_most_its_plan:
  assumes "executor_wf (sw_exec w)"
    and "submit_booked (sqlite_env budgets wallet settled builder k config) bk now lnow cost intent taker i prices w = (res, w')"
  shows "held_ids (sw_ledger w') \<subseteq> held_ids (sw_ledger w) \<and> inflight_of (sw_exec w') = inflight_of (sw_exec w) \<or>
    (\<forall>o'. res = Inr o' \<longrightarrow> so_status o' \<noteq> TsDeclined) \<and>
    (\<exists>plan rid r. routed (sqlite_env budgets wallet settled builder k config) bk now cost intent = Some plan \<and>
       rid = reservation_id_of k (in_id intent) plan \<and>
       held_ids (sw_ledger w') \<subseteq> insert rid (held_ids (sw_ledger w)) \<and>
       lookup_reservation (sv_ledger (sw_ledger w')) rid = Some r \<and>
       r_sources r = sources_of plan \<and> r_owner r = OwnerSwap (in_id intent) \<and>
       (inflight_of (sw_exec w') = inflight_of (sw_exec w) \<or>
        inflight_of (sw_exec w') = (inflight_of (sw_exec w))(in_id intent \<mapsto> rid) \<and> rid \<in> held_ids (sw_ledger w')))"
  using swap_flow.submit_effect [OF assms]
  unfolding swap_flow.backed_def lookup_reservation_def by (simp add: sqlite_env_def) blast

theorem submission_holds_at_most_its_plan_witness:
  "\<exists>w' r. submit_booked ex_env (ex_book ex_registry) 50 50 (\<lambda>_. 0) ex_swap_intent 3 5 ex_prices (ex_fresh ex_no_trades) =
       (Inr \<lparr>so_trade_id = 5, so_status = TsSubmitted\<rparr>, w') \<and> inflight_of (sw_exec w') 7 = Some 99 \<and>
     lookup_reservation (sv_ledger (sw_ledger w')) 99 = Some r \<and> r_sources r = sources_of ex_plan_out"
proof -
  obtain w' where w': "submit_booked ex_env (ex_book ex_registry) 50 50 (\<lambda>_. 0) ex_swap_intent 3 5 ex_prices (ex_fresh ex_no_trades) =
       (Inr \<lparr>so_trade_id = 5, so_status = TsSubmitted\<rparr>, w')" "inflight_of (sw_exec w') 7 = Some 99"
    using ex_submit_eval by blast
  have wf: "executor_wf (sw_exec (ex_fresh ex_no_trades))" "inflight_of (sw_exec (ex_fresh ex_no_trades)) 7 = None"
    by (simp_all add: ex_fresh_def executor_wf_def inflight_of_def)
  note effect = submission_holds_at_most_its_plan [OF wf(1) w'(1) [unfolded ex_env_def], folded ex_env_def]
  then have "\<exists>r. lookup_reservation (sv_ledger (sw_ledger w')) 99 = Some r \<and> r_sources r = sources_of ex_plan_out"
    using wf(2) w'(2) unfolding ex_routed reservation_id_of_def by auto
  then show ?thesis using w' by blast
qed

text \<open>
  C12. A resubmission of an order whose trade is past \<open>Quoted\<close>, when it still routes and the store
  answers, echoes the recorded trade and its status and changes nothing: no reservation, no fill, no
  status.
\<close>

theorem resubmission_is_an_echo:
  assumes "trade_db_wf (sw_trades w)" "sqlite_trade_view (sw_trades w) j = Some t" "t_order_hash t = in_id intent"
    and "t_status t \<noteq> TsCreated" "t_status t \<noteq> TsQuoted"
    and "routed (sqlite_env budgets wallet settled builder k config) bk now cost intent = Some plan"
    and "submit_booked (sqlite_env budgets wallet settled builder k config) bk now lnow cost intent taker i prices w = (Inr out, w')"
  shows "out = \<lparr>so_trade_id = j, so_status = t_status t\<rparr> \<and>
    sqlite_trade_view (sw_trades w') = sqlite_trade_view (sw_trades w) \<and> w' = w\<lparr>sw_trades := sw_trades w'\<rparr>"
  by (rule swap_flow.resubmit_echo [OF assms])

theorem resubmission_is_an_echo_witness:
  "\<exists>w'. submit_booked ex_env (ex_book ex_registry) 50 50 (\<lambda>_. 0) ex_swap_intent 3 6 ex_prices (ex_fresh (ex_trades 7)) =
       (Inr \<lparr>so_trade_id = 5, so_status = TsSubmitted\<rparr>, w') \<and>
     sw_ledger w' = sw_ledger (ex_fresh (ex_trades 7)) \<and> inflight_of (sw_exec w') 7 = None"
proof -
  have "\<not> isl (fst (submit_booked ex_env (ex_book ex_registry) 50 50 (\<lambda>_. 0) ex_swap_intent 3 6 ex_prices (ex_fresh (ex_trades 7))))"
    using ex_route_out
    by (simp add: submit_booked_def ex_amounts [simplified] Let_def submit_eval engine_eval trade_eval store_info_def
        ex_fresh_def ex_trades_def ex_trade_row_def ex_prices_def row_to_attempt_def)
  then obtain out w' where run: "submit_booked ex_env (ex_book ex_registry) 50 50 (\<lambda>_. 0) ex_swap_intent 3 6 ex_prices
      (ex_fresh (ex_trades 7)) = (Inr out, w')" by (metis prod.collapse sum.collapse(2))
  have known: "trade_db_wf (sw_trades (ex_fresh (ex_trades 7)))"
    "sqlite_trade_view (sw_trades (ex_fresh (ex_trades 7))) 5 = Some (ex_trade 7)"
    using ex_trades_wf [of 7] ex_trades_view [of 7] by (simp_all add: ex_fresh_def)
  have "t_order_hash (ex_trade 7) = in_id ex_swap_intent" "t_status (ex_trade 7) \<noteq> TsCreated" "t_status (ex_trade 7) \<noteq> TsQuoted"
    by (simp_all add: ex_trade_def)
  from resubmission_is_an_echo [OF known this ex_routed [unfolded ex_env_def] run [unfolded ex_env_def]]
  have echo: "out = \<lparr>so_trade_id = 5, so_status = t_status (ex_trade 7)\<rparr>"
    "w' = (ex_fresh (ex_trades 7))\<lparr>sw_trades := sw_trades w'\<rparr>" by simp_all
  have "sw_ledger w' = sw_ledger (ex_fresh (ex_trades 7))" "sw_exec w' = sw_exec (ex_fresh (ex_trades 7))"
    by (subst echo(2), simp)+
  then show ?thesis using run echo(1) by (simp add: ex_trade_def ex_fresh_def inflight_of_def)
qed

text \<open>
  C13. A resubmission that no longer routes settles the recorded trade as \<open>Declined\<close> even while its fill
  is in flight: the trade of an order that was submitted, still tracked and still holding its
  reservation, is answered and stored as declined, and by the progress of trades no later
  confirmation can correct it.
\<close>

theorem unroutable_resubmission_declines_live_trade:
  assumes "trade_db_wf (sw_trades w)" "sqlite_trade_view (sw_trades w) j = Some t" "t_order_hash t = in_id intent"
    and "t_settled_at t = None"
    and "routed (sqlite_env budgets wallet settled builder k config) bk now cost intent = None"
    and "submit_booked (sqlite_env budgets wallet settled builder k config) bk now lnow cost intent taker i prices w = (Inr out, w')"
  shows "out = \<lparr>so_trade_id = j, so_status = TsDeclined\<rparr> \<and>
    sqlite_trade_view (sw_trades w') j = Some (t\<lparr>t_status := TsDeclined, t_amount_out := None, t_tx_hash := None,
      t_block_number := None, t_settled_at := Some now\<rparr>) \<and>
    sw_ledger w' = sw_ledger w \<and> sw_exec w' = sw_exec w"
proof -
  note effect = swap_flow.unroutable_resubmit [OF assms(1-3,5,6)]
  have "sw_ledger w' = sw_ledger w" "sw_exec w' = sw_exec w"
    by (subst effect [THEN conjunct2, THEN conjunct1], simp)+
  then show ?thesis using effect assms(2,4) by (simp add: declined_at_def settled_with_def)
qed

definition ex_live :: "(sqlite, trade_db, unit executor) swap_world" where
  "ex_live = (ex_fresh (ex_trades 7))\<lparr>sw_exec := \<lparr>xe_db = \<lparr>fd_inflight = [(7, 99, 77)], fd_terminal = [], fd_faults = []\<rparr>, xe_wallet = ()\<rparr>\<rparr>"

theorem unroutable_resubmission_declines_live_trade_witness:
  "\<exists>w'. submit_booked ex_env (ex_book snapshot_default) 50 50 (\<lambda>_. 0) ex_swap_intent 3 6 ex_prices ex_live =
       (Inr \<lparr>so_trade_id = 5, so_status = TsDeclined\<rparr>, w') \<and>
     map_option t_status (sqlite_trade_view (sw_trades ex_live) 5) = Some TsSubmitted \<and>
     map_option t_status (sqlite_trade_view (sw_trades w') 5) = Some TsDeclined \<and> inflight_of (sw_exec w') 7 = Some 99"
proof -
  have "\<not> isl (fst (submit_booked ex_env (ex_book snapshot_default) 50 50 (\<lambda>_. 0) ex_swap_intent 3 6 ex_prices ex_live))"
    using ex_unrouted [unfolded routed_def]
    by (simp add: submit_booked_def ex_amounts [simplified] Let_def swap_declined_def primary_output_def curve_amount_def
        swap_settle_def submit_eval engine_eval trade_eval ex_live_def
        ex_fresh_def ex_trades_def ex_trade_row_def ex_prices_def)
  then obtain out w' where run: "submit_booked ex_env (ex_book snapshot_default) 50 50 (\<lambda>_. 0) ex_swap_intent 3 6 ex_prices
      ex_live = (Inr out, w')" by (metis prod.collapse sum.collapse(2))
  have known: "trade_db_wf (sw_trades ex_live)" "sqlite_trade_view (sw_trades ex_live) 5 = Some (ex_trade 7)"
    using ex_trades_wf [of 7] ex_trades_view [of 7] by (simp_all add: ex_live_def ex_fresh_def)
  have "t_order_hash (ex_trade 7) = in_id ex_swap_intent" "t_settled_at (ex_trade 7) = None"
    by (simp_all add: ex_trade_def)
  from unroutable_resubmission_declines_live_trade [OF known this ex_unrouted [unfolded ex_env_def] run [unfolded ex_env_def]]
  show ?thesis using run known(2) by (auto simp: ex_trade_def ex_live_def inflight_of_def)
qed

end
