(* ===== verification/Rebate_Policy.thy ===== *)
theory Rebate_Policy
  imports Routing_Candidates Trade_Store
begin

text \<open>
  The rebate values (core/src/primitives/rebate.rs, core/src/primitives/execution/authorization.rs)
  and the pure policy (core/src/rebate/policy.rs) that decides whether a displaced strategy keeps
  quoting, is withheld from routing, or funds a restoration whose surplus is shared with the maker.

  Market rates are exact rationals; gas and minimum requirements are amounts of the restoration's
  input token. Order bytes, signatures and calldata are byte lists that are only stored and compared.
\<close>

section \<open>Values\<close>

record rebate_accrual =
  ra_trade_id :: trade_id
  ra_strategy :: strategy_key
  ra_token_in :: address
  ra_token_out :: address
  ra_amount_in :: u256
  ra_amount_out :: u256
  ra_confirmed_block :: u64
  ra_weight :: u256

record rebate_market =
  rm_token_a :: address
  rm_token_b :: address
  rm_a_to_b :: ratio
  rm_b_to_a :: ratio

definition market_rate :: "rebate_market \<Rightarrow> address \<Rightarrow> address \<Rightarrow> ratio option" where
  "market_rate m token_in token_out =
     (if token_in = rm_token_a m \<and> token_out = rm_token_b m then Some (rm_a_to_b m)
      else if token_in = rm_token_b m \<and> token_out = rm_token_a m then Some (rm_b_to_a m)
      else None)"

record rebate_requirements =
  rr_token :: address
  rr_gas_cost :: u256
  rr_minimum_maker_rebate :: u256
  rr_minimum_executor_profit :: u256

record rebate_minimums =
  rn_token :: address
  rn_minimum_maker_rebate :: u256
  rn_minimum_executor_profit :: u256

record rebate_allocation =
  al_trade_id :: trade_id
  al_amount :: u256

record rebate_plan =
  bp_batch_id :: rebate_batch_id
  bp_strategy :: strategy_key
  bp_token_in :: address
  bp_token_out :: address
  bp_amount_in :: u256
  bp_amount_out :: u256
  bp_gross_surplus :: u256
  bp_safe_gas_cost :: u256
  bp_maker_rebate :: u256
  bp_executor_profit :: u256
  bp_deviation_bps :: u64
  bp_allocations :: "rebate_allocation list"

datatype execution_kind = KindUserFill | KindRebate

record execution_authorization =
  ea_kind :: execution_kind
  ea_nonce :: u256
  ea_context_hash :: b256
  ea_strategy_hash :: strategy_hash
  ea_maker :: maker_id
  ea_token_in :: address
  ea_token_out :: address
  ea_amount_out :: u256
  ea_amount_in_limit :: u256
  ea_rebate_amount :: u256
  ea_deadline_block :: u64

record rebate_execution =
  re_plan :: rebate_plan
  re_reservation :: reservation_id
  re_authorization :: execution_authorization
  re_order :: "nat list"
  re_policy_signature :: "nat list"
  re_calldata :: "nat list"
  re_published_at :: u64

record rebate_event =
  rv_batch_id :: rebate_batch_id
  rv_strategy_hash :: strategy_hash
  rv_executor :: address
  rv_maker :: maker_id
  rv_token_in :: address
  rv_token_out :: address
  rv_amount_in :: u256
  rv_amount_out :: u256
  rv_maker_rebate :: u256
  rv_tx_hash :: b256
  rv_block_number :: u64
  rv_log_index :: u64

record rebate_settlement =
  rt_plan :: rebate_plan
  rt_reservation :: reservation_id
  rt_event :: rebate_event
  rt_executed_at :: u64

datatype rebate_batch_state =
    BsAccumulating
  | BsGuarded
  | BsPreparing (prep_plan: rebate_plan) (prep_reservation: reservation_id)
  | BsReady (ready_execution: rebate_execution)
  | BsInvalidating (inv_reservation: reservation_id)

record rebate_batch =
  rb_id :: rebate_batch_id
  rb_strategy :: strategy_key
  rb_pair :: token_pair
  rb_accruals :: "(trade_id, rebate_accrual) bmap"
  rb_state :: rebate_batch_state

definition rebate_batch_new :: "rebate_batch_id \<Rightarrow> token_pair \<Rightarrow> rebate_accrual \<Rightarrow> rebate_batch" where
  "rebate_batch_new i pair a =
     \<lparr>rb_id = i, rb_strategy = ra_strategy a, rb_pair = pair,
      rb_accruals = bm_insert (ra_trade_id a) a [], rb_state = BsAccumulating\<rparr>"

datatype rebate_assessment =
    AsQuoteable (as_deviation: u64)
  | AsGuarded (as_deviation: u64)
  | AsReady (as_plan: rebate_plan)

section \<open>Policy\<close>

datatype accrual_fault =
    PairDiffers | ZeroWeight | IdenticalTokens | ZeroAmounts | ConflictingLegs | PairChanged
  | SeveralOpenBatches | BadAccruals | BadPlan | BadExecution

datatype execution_fault =
    NoReservation | WorkIsPublic | MustExpireFirst | BatchDisappeared | NotReadyWork | EventDiffers
  | SettlementDiffers

datatype rebate_error =
    InvalidAccrual accrual_fault
  | StrategyMismatch strategy_hash
  | InvalidExecution execution_fault
  | MarketPairMismatch
  | MissingRequirements address
  | Arithmetic
  | RebateCurve curve_error

definition BASIS_POINTS :: u64 where "BASIS_POINTS = 10000"
definition EXECUTOR_SHARE_BPS :: u64 where "EXECUTOR_SHARE_BPS = 500"

record rebate_policy =
  rp_deviation_threshold_bps :: u64
  rp_gas_safety_bps :: u64

definition policy_config_new :: "u64 \<Rightarrow> u64 \<Rightarrow> rebate_policy" where
  "policy_config_new threshold gas_safety =
     \<lparr>rp_deviation_threshold_bps = threshold, rp_gas_safety_bps = max gas_safety BASIS_POINTS\<rparr>"

definition curve_of_rebate :: "curve_error + 'a \<Rightarrow> rebate_error + 'a" where
  "curve_of_rebate r = map_sum RebateCurve id r"

definition scale_bps :: "u256 \<Rightarrow> u64 \<Rightarrow> bool \<Rightarrow> rebate_error + u256" where
  "scale_bps amount bps round_up =
     rbind (ok_or Arithmetic (ratio_new bps BASIS_POINTS)) (\<lambda>ratio.
       let scaled = ratio_mul (ratio_from amount) ratio in
       ok_or Arithmetic (if round_up then ratio_ceil scaled else ratio_floor scaled))"

fun allocate_loop ::
  "u256 \<Rightarrow> u256 \<Rightarrow> nat \<Rightarrow> nat \<Rightarrow> u256 \<Rightarrow> rebate_accrual list \<Rightarrow> rebate_error + rebate_allocation list"
  where
  "allocate_loop maker_rebate total_weight last_index index allocated [] = Inr []"
| "allocate_loop maker_rebate total_weight last_index index allocated (a # rest) =
     rbind
       (if index = last_index then ok_or Arithmetic (checked_sub maker_rebate allocated)
        else rbind (ok_or Arithmetic (ratio_new (ra_weight a) total_weight)) (\<lambda>share.
               ok_or Arithmetic (ratio_floor (ratio_mul (ratio_from maker_rebate) share)))) (\<lambda>amount.
     rbind (ok_or Arithmetic (checked_add allocated amount)) (\<lambda>allocated'.
     rbind (allocate_loop maker_rebate total_weight last_index (Suc index) allocated' rest) (\<lambda>others.
       Inr (\<lparr>al_trade_id = ra_trade_id a, al_amount = amount\<rparr> # others))))"

definition allocate :: "u256 \<Rightarrow> rebate_accrual list \<Rightarrow> rebate_error + rebate_allocation list" where
  "allocate maker_rebate accruals =
     rbind (try_fold (\<lambda>total a. ok_or Arithmetic (checked_add total (ra_weight a))) 0 accruals) (\<lambda>total_weight.
       if total_weight = 0 then Inl (InvalidAccrual ZeroWeight)
       else allocate_loop maker_rebate total_weight (length accruals - 1) 0 0 accruals)"

record direction =
  dr_candidate :: candidate
  dr_price_limit :: ratio
  dr_output_value_rate :: ratio
  dr_deviation_bps :: u64

text \<open>One iteration of the loop over the two directions: \<open>None\<close> keeps the best so far.\<close>

definition direction_of ::
  "maker_strategy \<Rightarrow> available_caps \<Rightarrow> rebate_market \<Rightarrow> address \<Rightarrow> address \<Rightarrow>
   rebate_error + direction option" where
  "direction_of strategy caps market token_in token_out =
     rbind (ok_or MarketPairMismatch (market_rate market token_out token_in)) (\<lambda>output_value_rate.
     rbind (ok_or MarketPairMismatch (ratio_invert output_value_rate)) (\<lambda>price_limit.
       case build_pricing_candidate strategy caps token_in token_out of
         None \<Rightarrow> Inr None
       | Some candidate \<Rightarrow>
           rbind (curve_of_rebate (cd_marginal_price candidate)) (\<lambda>spot.
             if spot \<le> price_limit then Inr None
             else Inr (Some \<lparr>dr_candidate = candidate, dr_price_limit = price_limit,
                             dr_output_value_rate = output_value_rate,
                             dr_deviation_bps = rel_diff_bps spot price_limit\<rparr>))))"

definition better_direction :: "direction option \<Rightarrow> direction option \<Rightarrow> direction option" where
  "better_direction best found =
     (case found of
        None \<Rightarrow> best
      | Some d \<Rightarrow> (case best of
                    None \<Rightarrow> Some d
                  | Some current \<Rightarrow> if dr_deviation_bps current < dr_deviation_bps d then Some d
                                     else Some current))"

definition best_direction ::
  "maker_strategy \<Rightarrow> available_caps \<Rightarrow> rebate_market \<Rightarrow> rebate_error + direction option" where
  "best_direction strategy caps market =
     rbind (direction_of strategy caps market (rm_token_a market) (rm_token_b market)) (\<lambda>first.
     rbind (direction_of strategy caps market (rm_token_b market) (rm_token_a market)) (\<lambda>second.
       Inr (better_direction (better_direction None first) second)))"

text \<open>The economics of one opportunity, from the price-limited fill to the plan.\<close>

definition share_surplus ::
  "rebate_policy \<Rightarrow> rebate_batch_id \<Rightarrow> rebate_accrual list \<Rightarrow> maker_strategy \<Rightarrow> rebate_requirements list \<Rightarrow>
   direction \<Rightarrow> u256 \<Rightarrow> u256 \<Rightarrow> u256 \<Rightarrow> rebate_error + rebate_assessment" where
  "share_surplus p batch accruals strategy requirements d amount_in amount_out gross_surplus =
     (let token_in = cd_token_in (dr_candidate d); guarded = Inr (AsGuarded (dr_deviation_bps d)) in
      rbind (ok_or (MissingRequirements token_in) (find (\<lambda>r. rr_token r = token_in) requirements)) (\<lambda>req.
      rbind (scale_bps (rr_gas_cost req) (rp_gas_safety_bps p) True) (\<lambda>safe_gas_cost.
        case checked_sub gross_surplus safe_gas_cost of
          None \<Rightarrow> guarded
        | Some post_gas_surplus \<Rightarrow>
            rbind (scale_bps post_gas_surplus EXECUTOR_SHARE_BPS False) (\<lambda>executor_profit.
            rbind (ok_or Arithmetic (checked_sub post_gas_surplus executor_profit)) (\<lambda>maker_rebate.
              if maker_rebate < rr_minimum_maker_rebate req
                 \<or> executor_profit < rr_minimum_executor_profit req then guarded
              else rbind (allocate maker_rebate accruals) (\<lambda>allocations.
                Inr (AsReady
                  \<lparr>bp_batch_id = batch, bp_strategy = ms_key strategy, bp_token_in = token_in,
                   bp_token_out = cd_token_out (dr_candidate d), bp_amount_in = amount_in,
                   bp_amount_out = amount_out, bp_gross_surplus = gross_surplus,
                   bp_safe_gas_cost = safe_gas_cost, bp_maker_rebate = maker_rebate,
                   bp_executor_profit = executor_profit, bp_deviation_bps = dr_deviation_bps d,
                   bp_allocations = allocations\<rparr>)))))))"

definition assess_direction ::
  "rebate_policy \<Rightarrow> rebate_batch_id \<Rightarrow> rebate_accrual list \<Rightarrow> maker_strategy \<Rightarrow> rebate_requirements list \<Rightarrow>
   direction \<Rightarrow> rebate_error + rebate_assessment" where
  "assess_direction p batch accruals strategy requirements d =
     (let c = dr_candidate d; guarded = Inr (AsGuarded (dr_deviation_bps d)) in
      if cd_cap_out c = 0 then guarded
      else rbind (curve_of_rebate (net_quote_with_limit c (full_input_bound c) (dr_price_limit d))) (\<lambda>fill.
        if lq_amount_in fill = 0 \<or> lq_amount_out fill = 0 then guarded
        else if \<not> lq_limited fill then guarded
        else
          rbind (curve_of_rebate (net_quote_exact_out c (lq_amount_out fill))) (\<lambda>amount_in.
          rbind (ok_or Arithmetic
                   (ratio_floor (ratio_mul (ratio_from (lq_amount_out fill)) (dr_output_value_rate d)))) (\<lambda>external.
            case checked_sub external amount_in of
              None \<Rightarrow> guarded
            | Some gross_surplus \<Rightarrow>
                share_surplus p batch accruals strategy requirements d amount_in (lq_amount_out fill)
                  gross_surplus))))"

definition assess ::
  "rebate_policy \<Rightarrow> rebate_batch_id \<Rightarrow> rebate_accrual list \<Rightarrow> maker_strategy \<Rightarrow> available_caps \<Rightarrow>
   rebate_market \<Rightarrow> rebate_requirements list \<Rightarrow> rebate_error + rebate_assessment" where
  "assess p batch accruals strategy caps market requirements =
     (if \<exists>a \<in> set accruals. ra_strategy a \<noteq> ms_key strategy
      then Inl (StrategyMismatch (sk_hash (ms_key strategy)))
      else case ms_pair strategy of
        None \<Rightarrow> Inl MarketPairMismatch
      | Some pair \<Rightarrow>
          if \<exists>a \<in> set accruals. token_pair_new (ra_token_in a) (ra_token_out a) \<noteq> pair
          then Inl (InvalidAccrual PairDiffers)
          else if pair \<noteq> token_pair_new (rm_token_a market) (rm_token_b market)
                  \<or> rm_token_a market = rm_token_b market
                  \<or> ratio_is_zero (rm_a_to_b market) \<or> ratio_is_zero (rm_b_to_a market)
          then Inl MarketPairMismatch
          else rbind (best_direction strategy caps market) (\<lambda>best.
            case best of
              None \<Rightarrow> Inr (AsQuoteable 0)
            | Some d \<Rightarrow>
                if dr_deviation_bps d < rp_deviation_threshold_bps p
                then Inr (AsQuoteable (dr_deviation_bps d))
                else assess_direction p batch accruals strategy requirements d))"

text \<open>The inventory a ready plan promises: \<open>RebateService::evaluate\<close> reserves this single source.\<close>

definition rebate_sources :: "strategy_key \<Rightarrow> rebate_plan \<Rightarrow> reservation_source list" where
  "rebate_sources key plan =
     [\<lparr>rs_maker = sk_maker key, rs_hash = sk_hash key, rs_token = bp_token_out plan,
       rs_amount = bp_amount_out plan\<rparr>]"

end
