(* ===== verification/Rebate_Calls.thy ===== *)
theory Rebate_Calls
  imports Rebate_Policy Crosschain_Quotes
begin

text \<open>
  The signed \<open>executeRebate\<close> payload of a plan (adapters/src/rebate/call_builder.rs, the credential
  check of adapters/src/execution/filler.rs, core/src/primitives/execution/authorization.rs) and the
  identities of batches and reservations (core/src/rebate/service.rs and worker.rs).

  The ABI codec of the filler contract and Keccak-256 are parameters (\<open>filler_abi\<close>), and so is the
  policy signer, which returns a signature or fails. What the store later relies on is stated as
  \<open>abi_law\<close>: encoding an order and decoding it gives the order back.
\<close>

record filler_abi =
  fa_decode_order :: "byte list \<Rightarrow> order option"
  fa_encode_order :: "order \<Rightarrow> byte list"
  fa_encode_call :: "order \<Rightarrow> execution_authorization \<Rightarrow> byte list \<Rightarrow> byte list"
  fa_keccak :: keccak

type_synonym policy_signer = "execution_authorization \<Rightarrow> byte list option"

definition abi_law :: "filler_abi \<Rightarrow> bool" where
  "abi_law abi \<longleftrightarrow>
     (\<forall>order. fa_decode_order abi (fa_encode_order abi order) = Some order) \<and>
     (\<forall>order. fa_encode_order abi order \<noteq> []) \<and> (\<forall>order a sig. fa_encode_call abi order a sig \<noteq> [])"

datatype plan_fault =
    ZeroBatchId | ZeroMaker | InvalidTokenPair | ZeroPlanAmounts | DepositOverflow | ZeroDeadline

datatype call_builder_error =
    CbInvalidPlan plan_fault
  | CbStrategyMismatch
  | CbStrategyHashMismatch
  | CbUndecodableProgram
  | CbStrategyMakerMismatch
  | CbUnprotectedStrategy
  | CbSigning

section \<open>Authorizations\<close>

definition rebate_authorization ::
  "u256 \<Rightarrow> strategy_key \<Rightarrow> rebate_plan \<Rightarrow> u64 \<Rightarrow> execution_authorization" where
  "rebate_authorization nonce key plan deadline_block =
     \<lparr>ea_kind = KindRebate, ea_nonce = nonce, ea_context_hash = bp_batch_id plan,
      ea_strategy_hash = sk_hash key, ea_maker = sk_maker key, ea_token_in = bp_token_in plan,
      ea_token_out = bp_token_out plan, ea_amount_out = bp_amount_out plan,
      ea_amount_in_limit = bp_amount_in plan, ea_rebate_amount = bp_maker_rebate plan,
      ea_deadline_block = deadline_block\<rparr>"

text \<open>\<open>(..).abi_encode()\<close> of a tuple of static types: one 32-byte word per component.\<close>

definition abi_words :: "nat list \<Rightarrow> byte list" where
  "abi_words ws = concat (map (be_bytes 32) ws)"

definition rebate_nonce :: "keccak \<Rightarrow> rebate_plan \<Rightarrow> u64 \<Rightarrow> u256" where
  "rebate_nonce keccak256 plan deadline_block =
     keccak256 (abi_words [bp_batch_id plan, sk_hash (bp_strategy plan), sk_maker (bp_strategy plan),
       bp_token_in plan, bp_token_out plan, bp_amount_in plan, bp_amount_out plan, bp_maker_rebate plan,
       deadline_block])"

text \<open>The trade id is a \<open>bytes16\<close>, padded with zeros on the right.\<close>

definition batch_id :: "keccak \<Rightarrow> rebate_accrual \<Rightarrow> rebate_batch_id" where
  "batch_id keccak256 a =
     keccak256 (abi_words [sk_maker (ra_strategy a), sk_app (ra_strategy a), sk_hash (ra_strategy a)] @
                be_bytes 16 (ra_trade_id a) @ replicate 16 0)"

definition rebate_reservation_id :: "keccak \<Rightarrow> rebate_batch_id \<Rightarrow> u64 \<Rightarrow> reservation_id" where
  "rebate_reservation_id keccak256 batch deadline_block = keccak256 (abi_words [batch, deadline_block])"

section \<open>Call construction\<close>

definition uses_taker_credential :: "byte list \<Rightarrow> address \<Rightarrow> bool" where
  "uses_taker_credential program credential =
     (22 \<le> length program \<and> program ! 0 = 14 \<and> program ! 1 = 20 \<and>
      drop 2 (take 22 program) = be_bytes 20 credential)"

definition validate_rebate_plan :: "rebate_plan \<Rightarrow> u64 \<Rightarrow> call_builder_error + unit" where
  "validate_rebate_plan plan deadline_block =
     (if bp_batch_id plan = 0 then Inl (CbInvalidPlan ZeroBatchId)
      else if sk_maker (bp_strategy plan) = 0 then Inl (CbInvalidPlan ZeroMaker)
      else if bp_token_in plan = 0 \<or> bp_token_out plan = 0 \<or> bp_token_in plan = bp_token_out plan
      then Inl (CbInvalidPlan InvalidTokenPair)
      else if bp_amount_in plan = 0 \<or> bp_amount_out plan = 0 \<or> bp_maker_rebate plan = 0
      then Inl (CbInvalidPlan ZeroPlanAmounts)
      else if checked_add (bp_amount_in plan) (bp_maker_rebate plan) = None
      then Inl (CbInvalidPlan DepositOverflow)
      else if deadline_block = 0 then Inl (CbInvalidPlan ZeroDeadline)
      else Inr ())"

definition build_rebate_call ::
  "filler_abi \<Rightarrow> address \<Rightarrow> policy_signer \<Rightarrow> maker_strategy \<Rightarrow> rebate_plan \<Rightarrow> reservation_id \<Rightarrow> u64 \<Rightarrow> u64 \<Rightarrow>
   call_builder_error + rebate_execution" where
  "build_rebate_call abi credential authorize strategy plan reservation deadline_block published_at =
     (if bp_strategy plan \<noteq> ms_key strategy then Inl CbStrategyMismatch
      else rbind (validate_rebate_plan plan deadline_block) (\<lambda>_.
      rbind (ok_or CbUndecodableProgram (fa_decode_order abi (ms_program strategy))) (\<lambda>order.
        if o_maker order \<noteq> sk_maker (ms_key strategy) then Inl CbStrategyMakerMismatch
        else if \<not> uses_taker_credential (o_data order) credential then Inl CbUnprotectedStrategy
        else if fa_keccak abi (fa_encode_order abi order) \<noteq> sk_hash (ms_key strategy)
        then Inl CbStrategyHashMismatch
        else
          let authorization = rebate_authorization (rebate_nonce (fa_keccak abi) plan deadline_block)
                (ms_key strategy) plan deadline_block in
          rbind (ok_or CbSigning (authorize authorization)) (\<lambda>signature.
            Inr \<lparr>re_plan = plan, re_reservation = reservation, re_authorization = authorization,
                 re_order = fa_encode_order abi order, re_policy_signature = signature,
                 re_calldata = fa_encode_call abi order authorization signature,
                 re_published_at = published_at\<rparr>))))"

end
