(* ===== verification/Rebate_Store.thy ===== *)
theory Rebate_Store
  imports Rebate_Calls
begin

text \<open>
  Durable rebate state (core/src/deps/rebate/store.rs, adapters/src/rebate/sqlite_store.rs,
  migrations 0011 to 0013): the open and closed batches, the accrual rows that keep the attribution,
  the settlements and the scan cursor. A write port call is one transaction and consumes one entry of
  the fault schedule; a failed transaction leaves the tables as they were. Calls the source makes of
  several statements outside a transaction consume one entry per statement.

  JSON payload columns hold the value they encode. What decoding a payload checks beyond its shape is
  modelled: a published execution is only read back when its signature, order, authorization and
  calldata fit each other.
\<close>

datatype rebate_store_error = RsConflict strategy_hash | RsDb

section \<open>Tables\<close>

record batch_row =
  bw_strategy :: strategy_key
  bw_pair :: token_pair
  bw_state :: string
  bw_payload :: "rebate_batch_state option"
  bw_open :: bool

record rebate_tables =
  rx_batches :: "(rebate_batch_id, batch_row) bmap"
  rx_accruals :: "(strategy_key \<times> trade_id, rebate_batch_id \<times> rebate_accrual) bmap"
  rx_settlements :: "(rebate_batch_id, string \<times> rebate_settlement) bmap"
  rx_cursors :: "(chain_id, nat) bmap"

record rebate_db =
  rd_tables :: rebate_tables
  rd_faults :: "bool list"

type_synonym 'a rebate_store_call = "(rebate_db, rebate_store_error, 'a) eff"

definition rebate_tx ::
  "(rebate_tables \<Rightarrow> rebate_store_error + 'a \<times> rebate_tables) \<Rightarrow> 'a rebate_store_call" where
  "rebate_tx f db =
     (case rd_faults db of
        True # fs \<Rightarrow> (Inl RsDb, db\<lparr>rd_faults := fs\<rparr>)
      | _ \<Rightarrow> (case f (rd_tables db) of
               Inl e \<Rightarrow> (Inl e, db\<lparr>rd_faults := tl (rd_faults db)\<rparr>)
             | Inr (x, ts) \<Rightarrow> (Inr x, db\<lparr>rd_tables := ts, rd_faults := tl (rd_faults db)\<rparr>)))"

definition rebate_query :: "(rebate_tables \<Rightarrow> rebate_store_error + 'a) \<Rightarrow> 'a rebate_store_call" where
  "rebate_query f = rebate_tx (\<lambda>ts. rbind (f ts) (\<lambda>x. Inr (x, ts)))"

definition rebate_i64 :: "u64 \<Rightarrow> rebate_store_error + nat" where
  "rebate_i64 v = (if v \<le> i64_max then Inr v else Inl RsDb)"

section \<open>Payloads\<close>

fun stored_name :: "rebate_batch_state \<Rightarrow> string" where
  "stored_name BsAccumulating = ''accumulating''"
| "stored_name BsGuarded = ''guarded''"
| "stored_name (BsPreparing _ _) = ''preparing''"
| "stored_name (BsReady _) = ''ready''"
| "stored_name (BsInvalidating _) = ''invalidating''"

definition stored_execution :: "filler_abi \<Rightarrow> rebate_execution \<Rightarrow> rebate_store_error + rebate_execution" where
  "stored_execution abi e =
     (let a = re_authorization e in
      if ea_kind a \<noteq> KindRebate then Inl RsDb
      else if length (re_policy_signature e) \<noteq> 65 then Inl RsDb
      else rbind (ok_or RsDb (fa_decode_order abi (re_order e))) (\<lambda>order.
        if o_maker order \<noteq> ea_maker a \<or> fa_keccak abi (fa_encode_order abi order) \<noteq> ea_strategy_hash a
        then Inl RsDb
        else if fa_encode_call abi order a (re_policy_signature e) \<noteq> re_calldata e then Inl RsDb
        else Inr e))"

fun stored_state :: "filler_abi \<Rightarrow> rebate_batch_state \<Rightarrow> rebate_store_error + rebate_batch_state" where
  "stored_state abi (BsReady e) = rbind (stored_execution abi e) (\<lambda>e'. Inr (BsReady e'))"
| "stored_state abi st = Inr st"

section \<open>Statements\<close>

definition open_row :: "strategy_key \<Rightarrow> rebate_tables \<Rightarrow> (rebate_batch_id \<times> batch_row) option" where
  "open_row key ts = find (\<lambda>(_, row). bw_strategy row = key \<and> bw_open row) (rx_batches ts)"

definition insert_batch :: "rebate_batch \<Rightarrow> rebate_tables \<Rightarrow> rebate_tables" where
  "insert_batch b ts =
     (if bm_contains (rx_batches ts) (rb_id b) \<or> open_row (rb_strategy b) ts \<noteq> None then ts
      else ts\<lparr>rx_batches := bm_insert (rb_id b)
                \<lparr>bw_strategy = rb_strategy b, bw_pair = rb_pair b, bw_state = ''accumulating'',
                 bw_payload = None, bw_open = True\<rparr> (rx_batches ts)\<rparr>)"

text \<open>
  The unique key of an accrual row is the strategy and the trade; the primary key (batch, trade) adds
  nothing to it, since a batch belongs to one strategy.
\<close>

definition persist_accrual ::
  "rebate_batch \<Rightarrow> rebate_tables \<Rightarrow> rebate_accrual \<Rightarrow> rebate_store_error + rebate_tables" where
  "persist_accrual b ts a =
     (let key = (rb_strategy b, ra_trade_id a) in
      case bm_get (rx_accruals ts) key of
        None \<Rightarrow> Inr (ts\<lparr>rx_accruals := bm_insert key (rb_id b, a) (rx_accruals ts)\<rparr>)
      | Some stored \<Rightarrow>
          if stored = (rb_id b, a) then Inr ts else Inl (RsConflict (sk_hash (rb_strategy b))))"

definition rebate_save :: "rebate_batch \<Rightarrow> unit rebate_store_call" where
  "rebate_save b =
     rebate_tx (\<lambda>ts.
       let conflict = RsConflict (sk_hash (rb_strategy b)); ts1 = insert_batch b ts in
       case open_row (rb_strategy b) ts1 of
         None \<Rightarrow> Inl conflict
       | Some (i, row) \<Rightarrow>
           if i \<noteq> rb_id b \<or> bw_pair row \<noteq> rb_pair b then Inl conflict
           else rbind (try_fold (persist_accrual b) ts1 (bm_values (rb_accruals b))) (\<lambda>ts2.
             case bm_get (rx_batches ts2) (rb_id b) of
               None \<Rightarrow> Inl conflict
             | Some row \<Rightarrow>
                 if \<not> bw_open row then Inl conflict
                 else Inr ((), ts2\<lparr>rx_batches := bm_insert (rb_id b)
                        (row\<lparr>bw_state := stored_name (rb_state b), bw_payload := Some (rb_state b)\<rparr>)
                        (rx_batches ts2)\<rparr>)))"

definition row_into_batch ::
  "filler_abi \<Rightarrow> rebate_batch_id \<Rightarrow> batch_row \<Rightarrow> rebate_batch rebate_store_call" where
  "row_into_batch abi i row =
     (case bw_payload row of
        None \<Rightarrow> eerr RsDb
      | Some payload \<Rightarrow>
          if stored_name payload \<noteq> bw_state row then eerr RsDb
          else ebind (eres (stored_state abi payload)) (\<lambda>st.
            ebind (rebate_query (\<lambda>ts. Inr (map (\<lambda>(_, _, a). a)
                     (filter (\<lambda>(_, j, _). j = i) (rx_accruals ts))))) (\<lambda>accruals.
              if \<exists>a \<in> set accruals. ra_strategy a \<noteq> bw_strategy row then eerr RsDb
              else eok \<lparr>rb_id = i, rb_strategy = bw_strategy row, rb_pair = bw_pair row,
                        rb_accruals = fold (\<lambda>a. bm_insert (ra_trade_id a) a) accruals [],
                        rb_state = st\<rparr>)))"

fun rows_into_batches ::
  "filler_abi \<Rightarrow> (rebate_batch_id \<times> batch_row) list \<Rightarrow> rebate_batch list rebate_store_call" where
  "rows_into_batches abi [] = eok []"
| "rows_into_batches abi ((i, row) # rows) =
     ebind (row_into_batch abi i row) (\<lambda>b.
     ebind (rows_into_batches abi rows) (\<lambda>bs. eok (b # bs)))"

definition rebate_open_batches :: "filler_abi \<Rightarrow> rebate_batch list rebate_store_call" where
  "rebate_open_batches abi =
     ebind (rebate_query (\<lambda>ts. Inr (filter (\<lambda>(_, row). bw_open row) (rx_batches ts)))) (rows_into_batches abi)"

definition closed_row :: "batch_row \<Rightarrow> batch_row" where
  "closed_row row = row\<lparr>bw_state := ''closed'', bw_payload := None, bw_open := False\<rparr>"

definition close_batch :: "(batch_row \<Rightarrow> bool) \<Rightarrow> rebate_batch_id \<Rightarrow> rebate_tables \<Rightarrow> rebate_tables" where
  "close_batch cond i ts =
     (case bm_get (rx_batches ts) i of
        None \<Rightarrow> ts
      | Some row \<Rightarrow>
          if cond row then ts\<lparr>rx_batches := bm_insert i (closed_row row) (rx_batches ts)\<rparr> else ts)"

definition rebate_close :: "rebate_batch_id \<Rightarrow> unit rebate_store_call" where
  "rebate_close i = rebate_tx (\<lambda>ts. Inr ((), close_batch bw_open i ts))"

definition scan_cursor :: "chain_id \<Rightarrow> u64 option rebate_store_call" where
  "scan_cursor chain =
     ebind (eres (rebate_i64 chain)) (\<lambda>c. rebate_query (\<lambda>ts. Inr (bm_get (rx_cursors ts) c)))"

definition save_scan_cursor :: "chain_id \<Rightarrow> u64 \<Rightarrow> unit rebate_store_call" where
  "save_scan_cursor chain block =
     ebind (eres (rebate_i64 chain)) (\<lambda>c. ebind (eres (rebate_i64 block)) (\<lambda>b.
       rebate_tx (\<lambda>ts. Inr ((),
         case bm_get (rx_cursors ts) c of
           Some old \<Rightarrow> if old \<le> b then ts\<lparr>rx_cursors := bm_insert c b (rx_cursors ts)\<rparr> else ts
         | None \<Rightarrow> ts\<lparr>rx_cursors := bm_insert c b (rx_cursors ts)\<rparr>))))"

section \<open>Settlements\<close>

text \<open>The insert and the read-back are two statements; a batch row must exist for the settlement.\<close>

definition insert_settlement :: "rebate_settlement \<Rightarrow> unit rebate_store_call" where
  "insert_settlement s =
     rebate_tx (\<lambda>ts.
       let i = bp_batch_id (rt_plan s) in
       if bm_contains (rx_settlements ts) i then Inr ((), ts)
       else if \<not> bm_contains (rx_batches ts) i then Inl RsDb
       else Inr ((), ts\<lparr>rx_settlements := bm_insert i (''settling'', s) (rx_settlements ts)\<rparr>))"

definition begin_settlement :: "rebate_settlement \<Rightarrow> unit rebate_store_call" where
  "begin_settlement s =
     ebind (eres (rebate_i64 (rt_executed_at s))) (\<lambda>_.
     ebind (insert_settlement s) (\<lambda>_.
     ebind (rebate_query (\<lambda>ts. Inr (bm_get (rx_settlements ts) (bp_batch_id (rt_plan s))))) (\<lambda>stored.
       case stored of
         None \<Rightarrow> eerr (RsConflict (sk_hash (bp_strategy (rt_plan s))))
       | Some (_, old) \<Rightarrow>
           if rt_plan old = rt_plan s \<and> rt_reservation old = rt_reservation s \<and> rt_event old = rt_event s
           then eok () else eerr (RsConflict (sk_hash (bp_strategy (rt_plan s)))))))"

definition pending_settlements :: "rebate_settlement list rebate_store_call" where
  "pending_settlements =
     rebate_query (\<lambda>ts. Inr (map (\<lambda>(_, _, s). s) (filter (\<lambda>(_, st, _). st = ''settling'') (rx_settlements ts))))"

definition finish_settlement :: "rebate_batch_id \<Rightarrow> unit rebate_store_call" where
  "finish_settlement i =
     rebate_tx (\<lambda>ts.
       case bm_get (rx_settlements ts) i of
         None \<Rightarrow> Inl RsDb
       | Some (st, s) \<Rightarrow>
           if st = ''settling'' then
             Inr ((), close_batch (\<lambda>_. True) i (ts\<lparr>rx_settlements := bm_insert i (''executed'', s) (rx_settlements ts)\<rparr>))
           else if st = ''executed'' then Inr ((), close_batch (\<lambda>_. True) i ts)
           else Inl RsDb)"

record executed_query =
  eq_maker :: "maker_id option"
  eq_before :: "(u64 \<times> rebate_batch_id) option"
  eq_limit :: nat

definition executed_matches :: "executed_query \<Rightarrow> rebate_batch_id \<times> string \<times> rebate_settlement \<Rightarrow> bool" where
  "executed_matches q e =
     (case e of (i, st, s) \<Rightarrow>
        st = ''executed'' \<and>
        (case eq_maker q of None \<Rightarrow> True | Some m \<Rightarrow> sk_maker (bp_strategy (rt_plan s)) = m) \<and>
        (case eq_before q of None \<Rightarrow> True
         | Some (when, j) \<Rightarrow> rt_executed_at s < when \<or> (rt_executed_at s = when \<and> i < j)))"

definition executed_rebates :: "executed_query \<Rightarrow> rebate_settlement list rebate_store_call" where
  "executed_rebates q =
     ebind (eres (case eq_before q of None \<Rightarrow> Inr 0 | Some (when, _) \<Rightarrow> rebate_i64 when)) (\<lambda>_.
       rebate_query (\<lambda>ts. Inr (take (eq_limit q) (map (\<lambda>(_, _, s). s)
         (rev (sort_key (\<lambda>(i, _, s). (rt_executed_at s, i))
            (filter (executed_matches q) (rx_settlements ts))))))))"

definition executed_rebate :: "rebate_batch_id \<Rightarrow> rebate_settlement option rebate_store_call" where
  "executed_rebate i =
     rebate_query (\<lambda>ts. Inr (case bm_get (rx_settlements ts) i of
                               Some (st, s) \<Rightarrow> if st = ''executed'' then Some s else None
                             | None \<Rightarrow> None))"

end
