(* ===== verification/Rebate_Service.thy ===== *)
theory Rebate_Service
  imports Rebate_Store Ledger_Recovery
begin

text \<open>
  The rebate service (core/src/rebate/service.rs) and its worker (core/src/rebate/worker.rs): one
  live batch per strategy, moved through accumulation, guarding, preparation, publication,
  invalidation and settlement. The mutex around the batches makes every method one step on the state,
  which is the in-memory batches, the ledger service, the routing guard and the rebate store.

  The store is reached through the port's operations, the call builder, Keccak-256, the market book,
  the gas price, the decimals and the clocks are arguments. Every early return keeps the effects that
  happened before it, so a fault at any statement leaves the state the code would leave.
\<close>

datatype rebate_flow_error =
    RfRebate rebate_error
  | RfLedger solvent_error
  | RfStore rebate_store_error
  | RfCall call_builder_error
  | RfMarket
  | RfGas
  | RfSource
  | RfRegistry

record 's rebate_ops =
  ro_save :: "rebate_batch \<Rightarrow> ('s, rebate_store_error, unit) eff"
  ro_open_batches :: "('s, rebate_store_error, rebate_batch list) eff"
  ro_close :: "rebate_batch_id \<Rightarrow> ('s, rebate_store_error, unit) eff"
  ro_scan_cursor :: "chain_id \<Rightarrow> ('s, rebate_store_error, u64 option) eff"
  ro_save_scan_cursor :: "chain_id \<Rightarrow> u64 \<Rightarrow> ('s, rebate_store_error, unit) eff"
  ro_begin_settlement :: "rebate_settlement \<Rightarrow> ('s, rebate_store_error, unit) eff"
  ro_pending_settlements :: "('s, rebate_store_error, rebate_settlement list) eff"
  ro_finish_settlement :: "rebate_batch_id \<Rightarrow> ('s, rebate_store_error, unit) eff"

record rebate_config =
  rf_native_token :: address
  rf_gas_units :: u64
  rf_market_max_age_secs :: u64

record market_request =
  mr_token_a :: address
  mr_token_a_decimals :: nat
  mr_token_b :: address
  mr_token_b_decimals :: nat
  mr_max_age_secs :: u64

record market_data =
  md_book :: "market_request \<Rightarrow> rebate_flow_error + rebate_market"
  md_gas_price :: "rebate_flow_error + u256"
  md_decimals :: "address \<Rightarrow> nat"

type_synonym call_builder =
  "maker_strategy \<Rightarrow> rebate_plan \<Rightarrow> reservation_id \<Rightarrow> u64 \<Rightarrow> u64 \<Rightarrow> call_builder_error + rebate_execution"

record ('l, 's) rebate_env =
  rq_ledger_store :: "'l store_ops"
  rq_budgets :: budget_source
  rq_store :: "'s rebate_ops"
  rq_policy :: rebate_policy
  rq_config :: rebate_config
  rq_build :: call_builder
  rq_keccak :: keccak

record ('l, 's) rebate_world =
  rw_batches :: "(strategy_key, rebate_batch) bmap"
  rw_ledger :: "'l ledger_service"
  rw_guard :: strategy_guard
  rw_store :: 's

type_synonym ('l, 's, 'a) rebate_call = "(('l, 's) rebate_world, rebate_flow_error, 'a) eff"

definition on_hold :: "('l ledger_service, solvent_error, 'a) eff \<Rightarrow> ('l, 's, 'a) rebate_call" where
  "on_hold m = emap_err RfLedger (on_part rw_ledger (\<lambda>v w. w\<lparr>rw_ledger := v\<rparr>) m)"

definition on_rebates :: "('s, rebate_store_error, 'a) eff \<Rightarrow> ('l, 's, 'a) rebate_call" where
  "on_rebates m = emap_err RfStore (on_part rw_store (\<lambda>v w. w\<lparr>rw_store := v\<rparr>) m)"

definition guard_strategy :: "strategy_key \<Rightarrow> ('l, 's, unit) rebate_call" where
  "guard_strategy key = emodify (\<lambda>w. w\<lparr>rw_guard := guard (rw_guard w) key\<rparr>)"

definition unguard_strategy :: "strategy_key \<Rightarrow> ('l, 's, unit) rebate_call" where
  "unguard_strategy key = emodify (\<lambda>w. w\<lparr>rw_guard := unguard (rw_guard w) key\<rparr>)"

definition put_batch :: "rebate_batch \<Rightarrow> ('l, 's, unit) rebate_call" where
  "put_batch b = emodify (\<lambda>w. w\<lparr>rw_batches := bm_insert (rb_strategy b) b (rw_batches w)\<rparr>)"

definition drop_batch :: "strategy_key \<Rightarrow> ('l, 's, unit) rebate_call" where
  "drop_batch key = emodify (\<lambda>w. w\<lparr>rw_batches := bm_remove key (rw_batches w)\<rparr>)"

definition live_batch :: "strategy_key \<Rightarrow> ('l, 's, rebate_batch option) rebate_call" where
  "live_batch key = eread (\<lambda>w. bm_get (rw_batches w) key)"

definition save_batch :: "('l, 's) rebate_env \<Rightarrow> rebate_batch \<Rightarrow> ('l, 's, unit) rebate_call" where
  "save_batch env b = on_rebates (ro_save (rq_store env) b)"

section \<open>Checks\<close>

fun active_reservation :: "rebate_batch_state \<Rightarrow> reservation_id option" where
  "active_reservation (BsPreparing _ r) = Some r"
| "active_reservation (BsInvalidating r) = Some r"
| "active_reservation (BsReady e) = Some (re_reservation e)"
| "active_reservation BsAccumulating = None"
| "active_reservation BsGuarded = None"

definition validate_accrual :: "rebate_accrual \<Rightarrow> rebate_error + unit" where
  "validate_accrual a =
     (if ra_token_in a = ra_token_out a then Inl (InvalidAccrual IdenticalTokens)
      else if ra_amount_in a = 0 \<or> ra_amount_out a = 0 \<or> ra_weight a = 0 \<or> ra_confirmed_block a = 0
      then Inl (InvalidAccrual ZeroAmounts)
      else Inr ())"

definition plan_matches_batch :: "rebate_plan \<Rightarrow> rebate_batch \<Rightarrow> bool" where
  "plan_matches_batch plan b =
     (if bp_batch_id plan \<noteq> rb_id b \<or> bp_strategy plan \<noteq> rb_strategy b
         \<or> token_pair_new (bp_token_in plan) (bp_token_out plan) \<noteq> rb_pair b
         \<or> bp_amount_in plan = 0 \<or> bp_amount_out plan = 0 \<or> bp_maker_rebate plan = 0
      then False
      else
        let allocation_trades = bs_of_list (map al_trade_id (bp_allocations plan));
            allocations_match = length allocation_trades = length (bp_allocations plan)
              \<and> length allocation_trades = length (rb_accruals b)
              \<and> (\<forall>t \<in> set allocation_trades. bm_contains (rb_accruals b) t);
            total_amount = try_fold (\<lambda>sum al. ok_or Arithmetic (checked_add sum (al_amount al))) 0 (bp_allocations plan)
        in allocations_match \<and> total_amount = Inr (bp_maker_rebate plan))"

definition execution_matches :: "rebate_batch \<Rightarrow> rebate_execution \<Rightarrow> bool" where
  "execution_matches b e =
     (let a = re_authorization e; plan = re_plan e in
      ea_kind a = KindRebate \<and> ea_context_hash a = rb_id b \<and> ea_strategy_hash a = sk_hash (rb_strategy b)
      \<and> ea_maker a = sk_maker (rb_strategy b) \<and> ea_token_in a = bp_token_in plan
      \<and> ea_token_out a = bp_token_out plan \<and> ea_amount_out a = bp_amount_out plan
      \<and> ea_amount_in_limit a = bp_amount_in plan \<and> ea_rebate_amount a = bp_maker_rebate plan
      \<and> ea_deadline_block a \<noteq> 0 \<and> re_order e \<noteq> [] \<and> length (re_policy_signature e) = 65
      \<and> re_calldata e \<noteq> [])"

definition accruals_valid :: "rebate_batch \<Rightarrow> bool" where
  "accruals_valid b =
     (rb_accruals b \<noteq> [] \<and>
      (\<forall>(t, a) \<in> set (rb_accruals b). t = ra_trade_id a \<and> ra_strategy a = rb_strategy b
         \<and> token_pair_new (ra_token_in a) (ra_token_out a) = rb_pair b
         \<and> validate_accrual a = Inr ()))"

definition planned :: "rebate_batch_state \<Rightarrow> rebate_plan option" where
  "planned st = (case st of BsPreparing plan _ \<Rightarrow> Some plan | BsReady e \<Rightarrow> Some (re_plan e) | _ \<Rightarrow> None)"

definition validate_batch :: "rebate_batch \<Rightarrow> rebate_error + unit" where
  "validate_batch b =
     (if \<not> accruals_valid b then Inl (InvalidAccrual BadAccruals)
      else if (case planned (rb_state b) of None \<Rightarrow> False | Some plan \<Rightarrow> \<not> plan_matches_batch plan b)
      then Inl (InvalidAccrual BadPlan)
      else case rb_state b of
        BsReady e \<Rightarrow> if execution_matches b e then Inr () else Inl (InvalidAccrual BadExecution)
      | _ \<Rightarrow> Inr ())"

text \<open>The fields in which a mined event must repeat the plan, and the event's own shape.\<close>

definition event_repeats :: "rebate_event \<Rightarrow> rebate_plan \<Rightarrow> bool" where
  "event_repeats event plan =
     (rv_batch_id event = bp_batch_id plan \<and> rv_strategy_hash event = sk_hash (bp_strategy plan)
      \<and> rv_maker event = sk_maker (bp_strategy plan) \<and> rv_token_in event = bp_token_in plan
      \<and> rv_token_out event = bp_token_out plan \<and> rv_amount_in event = bp_amount_in plan
      \<and> rv_amount_out event = bp_amount_out plan \<and> rv_maker_rebate event = bp_maker_rebate plan
      \<and> rv_executor event \<noteq> 0 \<and> rv_tx_hash event \<noteq> 0 \<and> rv_block_number event \<noteq> 0)"

definition validate_execution_event :: "rebate_event \<Rightarrow> rebate_execution \<Rightarrow> rebate_error + unit" where
  "validate_execution_event event e =
     (if event_repeats event (re_plan e) \<and> rv_block_number event \<le> ea_deadline_block (re_authorization e)
      then Inr () else Inl (InvalidExecution EventDiffers))"

definition validate_settlement :: "rebate_settlement \<Rightarrow> rebate_error + unit" where
  "validate_settlement s =
     (if rt_reservation s \<noteq> 0 \<and> event_repeats (rt_event s) (rt_plan s)
      then Inr () else Inl (InvalidExecution SettlementDiffers))"

section \<open>Economics\<close>

definition lift_rebate :: "rebate_error + 'a \<Rightarrow> rebate_flow_error + 'a" where
  "lift_rebate r = map_sum RfRebate id r"

definition market_between :: "rebate_config \<Rightarrow> market_data \<Rightarrow> address \<Rightarrow> address \<Rightarrow> rebate_flow_error + rebate_market" where
  "market_between cfg md a b =
     md_book md \<lparr>mr_token_a = a, mr_token_a_decimals = md_decimals md a, mr_token_b = b,
                 mr_token_b_decimals = md_decimals md b, mr_max_age_secs = rf_market_max_age_secs cfg\<rparr>"

definition gas_cost_in ::
  "rebate_config \<Rightarrow> market_data \<Rightarrow> u256 \<Rightarrow> address \<Rightarrow> rebate_flow_error + u256" where
  "gas_cost_in cfg md gas_native token =
     (if token = rf_native_token cfg then Inr gas_native
      else rbind (market_between cfg md (rf_native_token cfg) token) (\<lambda>conversion.
        lift_rebate
          (rbind (ok_or MarketPairMismatch (market_rate conversion token (rf_native_token cfg))) (\<lambda>native_per_token.
           rbind (ok_or MarketPairMismatch (ratio_invert native_per_token)) (\<lambda>inverse.
             ok_or Arithmetic (ratio_ceil (ratio_mul (ratio_from gas_native) inverse)))))))"

fun requirements_of ::
  "rebate_config \<Rightarrow> market_data \<Rightarrow> token_pair \<Rightarrow> u256 \<Rightarrow> rebate_minimums list \<Rightarrow>
   rebate_flow_error + rebate_requirements list" where
  "requirements_of cfg md pair gas_native [] = Inr []"
| "requirements_of cfg md pair gas_native (m # ms) =
     (if rn_token m \<noteq> tp_lo pair \<and> rn_token m \<noteq> tp_hi pair
      then Inl (RfRebate (MissingRequirements (rn_token m)))
      else rbind (gas_cost_in cfg md gas_native (rn_token m)) (\<lambda>gas_cost.
        rbind (requirements_of cfg md pair gas_native ms) (\<lambda>rest.
          Inr (\<lparr>rr_token = rn_token m, rr_gas_cost = gas_cost,
                rr_minimum_maker_rebate = rn_minimum_maker_rebate m,
                rr_minimum_executor_profit = rn_minimum_executor_profit m\<rparr> # rest))))"

definition economics ::
  "rebate_config \<Rightarrow> market_data \<Rightarrow> maker_strategy \<Rightarrow> rebate_minimums list \<Rightarrow>
   rebate_flow_error + rebate_market \<times> rebate_requirements list" where
  "economics cfg md strategy minimums =
     rbind (lift_rebate (ok_or MarketPairMismatch (ms_pair strategy))) (\<lambda>pair.
     rbind (market_between cfg md (tp_lo pair) (tp_hi pair)) (\<lambda>market.
     rbind (md_gas_price md) (\<lambda>gas_price.
     rbind (lift_rebate (ok_or Arithmetic (checked_mul gas_price (rf_gas_units cfg)))) (\<lambda>gas_native.
     rbind (requirements_of cfg md pair gas_native minimums) (\<lambda>requirements.
       Inr (market, requirements))))))"

section \<open>Transitions\<close>

definition release_if_held :: "('l, 's) rebate_env \<Rightarrow> reservation_id \<Rightarrow> ('l, 's, unit) rebate_call" where
  "release_if_held env r =
     ebind (eread (\<lambda>w. reservation_sources (rw_ledger w) r)) (\<lambda>held.
       case held of
         None \<Rightarrow> eok ()
       | Some _ \<Rightarrow> on_hold (service_void (rq_ledger_store env) r))"

definition post_if_held ::
  "('l, 's) rebate_env \<Rightarrow> rebate_settlement \<Rightarrow> ('l, 's, unit) rebate_call" where
  "post_if_held env s =
     ebind (eread (\<lambda>w. reservation_sources (rw_ledger w) (rt_reservation s))) (\<lambda>held.
       case held of
         None \<Rightarrow> eok ()
       | Some _ \<Rightarrow> on_hold (service_post (rq_ledger_store env) (rt_reservation s) [rv_amount_out (rt_event s)]))"

fun interrupted :: "rebate_batch_state \<Rightarrow> reservation_id option" where
  "interrupted (BsPreparing _ r) = Some r"
| "interrupted (BsInvalidating r) = Some r"
| "interrupted _ = None"

text \<open>Release the hold of an interrupted transition and fall back to guarded, in memory first.\<close>

definition finish_interrupted_transition ::
  "('l, 's) rebate_env \<Rightarrow> rebate_batch \<Rightarrow> ('l, 's, rebate_batch) rebate_call" where
  "finish_interrupted_transition env b =
     (case interrupted (rb_state b) of
        None \<Rightarrow> eok b
      | Some r \<Rightarrow>
          let b' = b\<lparr>rb_state := BsGuarded\<rparr> in
          ebind (guard_strategy (rb_strategy b)) (\<lambda>_.
          ebind (release_if_held env r) (\<lambda>_.
          ebind (put_batch b') (\<lambda>_.
          ebind (save_batch env b') (\<lambda>_. eok b')))))"

section \<open>Accrual\<close>

definition accrue_new ::
  "('l, 's) rebate_env \<Rightarrow> rebate_accrual \<Rightarrow> ('l, 's, rebate_batch_id) rebate_call" where
  "accrue_new env a =
     (let i = batch_id (rq_keccak env) a; key = ra_strategy a;
          b = (rebate_batch_new i (token_pair_new (ra_token_in a) (ra_token_out a)) a)\<lparr>rb_state := BsGuarded\<rparr> in
      ebind (guard_strategy key) (\<lambda>_.
      ebind (etry (save_batch env b)) (\<lambda>saved.
        case saved of
          Inl e \<Rightarrow> ebind (unguard_strategy key) (\<lambda>_. eerr e)
        | Inr _ \<Rightarrow> ebind (put_batch b) (\<lambda>_. eok i))))"

text \<open>The durable update that closes an accrual; a failure reopens routing only if nothing was held.\<close>

definition commit_accrual ::
  "('l, 's) rebate_env \<Rightarrow> rebate_batch \<Rightarrow> bool \<Rightarrow> ('l, 's, rebate_batch_id) rebate_call" where
  "commit_accrual env next reopen =
     ebind (etry (save_batch env next)) (\<lambda>saved.
       case saved of
         Inl e \<Rightarrow> ebind (if reopen then unguard_strategy (rb_strategy next) else eok ()) (\<lambda>_. eerr e)
       | Inr _ \<Rightarrow> ebind (put_batch next) (\<lambda>_. eok (rb_id next)))"

definition accrue_live ::
  "('l, 's) rebate_env \<Rightarrow> rebate_accrual \<Rightarrow> rebate_batch \<Rightarrow> ('l, 's, rebate_batch_id) rebate_call" where
  "accrue_live env a b =
     (case bm_get (rb_accruals b) (ra_trade_id a) of
        Some existing \<Rightarrow>
          if existing \<noteq> a then eerr (RfRebate (InvalidAccrual ConflictingLegs))
          else ebind (finish_interrupted_transition env b) (\<lambda>b'. eok (rb_id b'))
      | None \<Rightarrow>
          if rb_pair b \<noteq> token_pair_new (ra_token_in a) (ra_token_out a)
          then eerr (RfRebate (InvalidAccrual PairChanged))
          else if (case rb_state b of BsReady _ \<Rightarrow> True | _ \<Rightarrow> False)
          then eerr (RfRebate (InvalidExecution WorkIsPublic))
          else
            let grown = b\<lparr>rb_accruals := bm_insert (ra_trade_id a) a (rb_accruals b)\<rparr> in
            ebind (guard_strategy (ra_strategy a)) (\<lambda>_.
              case active_reservation (rb_state b) of
                Some r \<Rightarrow>
                  let marked = grown\<lparr>rb_state := BsInvalidating r\<rparr> in
                  ebind (save_batch env marked) (\<lambda>_.
                  ebind (put_batch marked) (\<lambda>_.
                  ebind (release_if_held env r) (\<lambda>_.
                    commit_accrual env (grown\<lparr>rb_state := BsGuarded\<rparr>) False)))
              | None \<Rightarrow>
                  commit_accrual env (grown\<lparr>rb_state := BsGuarded\<rparr>) (rb_state b = BsAccumulating)))"

definition accrue :: "('l, 's) rebate_env \<Rightarrow> rebate_accrual \<Rightarrow> ('l, 's, rebate_batch_id) rebate_call" where
  "accrue env a =
     ebind (eres (lift_rebate (validate_accrual a))) (\<lambda>_.
     ebind (live_batch (ra_strategy a)) (\<lambda>found.
       case found of
         Some b \<Rightarrow> accrue_live env a b
       | None \<Rightarrow> accrue_new env a))"

section \<open>Evaluation\<close>

record evaluation_input =
  ev_strategy :: maker_strategy
  ev_caps :: available_caps
  ev_minimums :: "rebate_minimums list"
  ev_reservation_id :: reservation_id
  ev_reservation_ttl_secs :: u64
  ev_deadline_block :: u64
  ev_published_at :: u64

text \<open>The firm reservation is in place: build the signed call and publish it durably.\<close>

definition publish_work ::
  "('l, 's) rebate_env \<Rightarrow> evaluation_input \<Rightarrow> rebate_batch \<Rightarrow> rebate_plan \<Rightarrow> ('l, 's, rebate_assessment) rebate_call" where
  "publish_work env input b plan =
     (case rq_build env (ev_strategy input) plan (ev_reservation_id input) (ev_deadline_block input)
             (ev_published_at input) of
        Inl e \<Rightarrow>
          let b' = b\<lparr>rb_state := BsGuarded\<rparr> in
          ebind (release_if_held env (ev_reservation_id input)) (\<lambda>_.
          ebind (put_batch b') (\<lambda>_.
          ebind (save_batch env b') (\<lambda>_. eerr (RfCall e))))
      | Inr execution \<Rightarrow>
          let ready = b\<lparr>rb_state := BsReady execution\<rparr> in
          ebind (etry (save_batch env ready)) (\<lambda>saved.
            case saved of
              Inl e \<Rightarrow> ebind (release_if_held env (ev_reservation_id input)) (\<lambda>_. eerr e)
            | Inr _ \<Rightarrow> ebind (put_batch ready) (\<lambda>_. eok (AsReady plan))))"

definition prepare_work ::
  "('l, 's) rebate_env \<Rightarrow> u64 \<Rightarrow> evaluation_input \<Rightarrow> rebate_batch \<Rightarrow> rebate_plan \<Rightarrow> ('l, 's, rebate_assessment) rebate_call" where
  "prepare_work env now input b plan =
     (let key = ms_key (ev_strategy input); r = ev_reservation_id input;
          preparing = b\<lparr>rb_state := BsPreparing plan r\<rparr> in
      ebind (guard_strategy key) (\<lambda>_.
      ebind (save_batch env preparing) (\<lambda>_.
      ebind (put_batch preparing) (\<lambda>_.
      ebind (etry (on_hold (service_reserve_rebate (rq_ledger_store env) (rq_budgets env) now r (rb_id b)
                     (rebate_sources key plan) (ev_reservation_ttl_secs input)))) (\<lambda>reserved.
        case reserved of
          Inr _ \<Rightarrow> publish_work env input preparing plan
        | Inl (RfLedger (SeLedger (Insufficient _))) \<Rightarrow>
            let b' = preparing\<lparr>rb_state := BsGuarded\<rparr> in
            ebind (put_batch b') (\<lambda>_.
            ebind (save_batch env b') (\<lambda>_. eok (AsGuarded (bp_deviation_bps plan))))
        | Inl e \<Rightarrow> eerr e)))))"

definition apply_assessment ::
  "('l, 's) rebate_env \<Rightarrow> u64 \<Rightarrow> evaluation_input \<Rightarrow> rebate_batch \<Rightarrow> rebate_assessment \<Rightarrow> ('l, 's, rebate_assessment) rebate_call" where
  "apply_assessment env now input b assessment =
     (case assessment of
        AsQuoteable d \<Rightarrow>
          let b' = b\<lparr>rb_state := BsAccumulating\<rparr> in
          ebind (save_batch env b') (\<lambda>_.
          ebind (put_batch b') (\<lambda>_.
          ebind (unguard_strategy (ms_key (ev_strategy input))) (\<lambda>_. eok assessment)))
      | AsGuarded d \<Rightarrow>
          let b' = b\<lparr>rb_state := BsGuarded\<rparr> in
          ebind (guard_strategy (ms_key (ev_strategy input))) (\<lambda>_.
          ebind (save_batch env b') (\<lambda>_.
          ebind (put_batch b') (\<lambda>_. eok assessment)))
      | AsReady plan \<Rightarrow> prepare_work env now input b plan)"

definition evaluate ::
  "('l, 's) rebate_env \<Rightarrow> market_data \<Rightarrow> u64 \<Rightarrow> evaluation_input \<Rightarrow> ('l, 's, rebate_assessment) rebate_call" where
  "evaluate env md now input =
     (let strategy = ev_strategy input in
      ebind (live_batch (ms_key strategy)) (\<lambda>found.
        case found of
          None \<Rightarrow> eerr (RfRebate (StrategyMismatch (sk_hash (ms_key strategy))))
        | Some b0 \<Rightarrow>
            ebind (finish_interrupted_transition env b0) (\<lambda>b.
              case rb_state b of
                BsReady e \<Rightarrow> eok (AsReady (re_plan e))
              | _ \<Rightarrow>
                  ebind (eres (economics (rq_config env) md strategy (ev_minimums input))) (\<lambda>(market, requirements).
                  ebind (eres (lift_rebate (assess (rq_policy env) (rb_id b) (bm_values (rb_accruals b))
                           strategy (ev_caps input) market requirements)))
                    (apply_assessment env now input b)))))"

section \<open>Discard, settlement and expiry\<close>

definition discard :: "('l, 's) rebate_env \<Rightarrow> strategy_key \<Rightarrow> ('l, 's, bool) rebate_call" where
  "discard env key =
     ebind (live_batch key) (\<lambda>found.
       case found of
         None \<Rightarrow> eok False
       | Some b \<Rightarrow>
           if (case rb_state b of BsReady _ \<Rightarrow> True | _ \<Rightarrow> False)
           then eerr (RfRebate (InvalidExecution MustExpireFirst))
           else
             ebind (case active_reservation (rb_state b) of
                      None \<Rightarrow> eok ()
                    | Some r \<Rightarrow>
                        let b' = b\<lparr>rb_state := BsInvalidating r\<rparr> in
                        ebind (put_batch b') (\<lambda>_.
                        ebind (save_batch env b') (\<lambda>_. release_if_held env r))) (\<lambda>_.
             ebind (on_rebates (ro_close (rq_store env) (rb_id b))) (\<lambda>_.
             ebind (drop_batch key) (\<lambda>_.
             ebind (unguard_strategy key) (\<lambda>_. eok True)))))"

definition settle_work ::
  "('l, 's) rebate_env \<Rightarrow> rebate_event \<Rightarrow> u64 \<Rightarrow> ('l, 's, bool) rebate_call" where
  "settle_work env event executed_at =
     ebind (eread (\<lambda>w. find (\<lambda>(_, b). rb_id b = rv_batch_id event) (rw_batches w))) (\<lambda>found.
       case found of
         None \<Rightarrow> eok False
       | Some (key, b) \<Rightarrow>
           (case rb_state b of
              BsReady e \<Rightarrow>
                ebind (eres (lift_rebate (validate_execution_event event e))) (\<lambda>_.
                  let s = \<lparr>rt_plan = re_plan e, rt_reservation = re_reservation e, rt_event = event,
                           rt_executed_at = executed_at\<rparr> in
                  ebind (on_rebates (ro_begin_settlement (rq_store env) s)) (\<lambda>_.
                  ebind (post_if_held env s) (\<lambda>_.
                  ebind (on_rebates (ro_finish_settlement (rq_store env) (rb_id b))) (\<lambda>_.
                  ebind (drop_batch key) (\<lambda>_.
                  ebind (unguard_strategy key) (\<lambda>_. eok True))))))
            | _ \<Rightarrow> eerr (RfRebate (InvalidExecution NotReadyWork))))"

definition expire_ready ::
  "('l, 's) rebate_env \<Rightarrow> strategy_key \<Rightarrow> u64 \<Rightarrow> ('l, 's, bool) rebate_call" where
  "expire_ready env key safe_scanned_block =
     ebind (live_batch key) (\<lambda>found.
       case found of
         None \<Rightarrow> eok False
       | Some b \<Rightarrow>
           (case rb_state b of
              BsReady e \<Rightarrow>
                if safe_scanned_block \<le> ea_deadline_block (re_authorization e) then eok False
                else
                  let r = re_reservation e; marked = b\<lparr>rb_state := BsInvalidating r\<rparr>;
                      next = b\<lparr>rb_state := BsGuarded\<rparr> in
                  ebind (save_batch env marked) (\<lambda>_.
                  ebind (put_batch marked) (\<lambda>_.
                  ebind (ebind (eread (\<lambda>w. reservation_sources (rw_ledger w) r)) (\<lambda>held.
                           case held of
                             None \<Rightarrow> eok ()
                           | Some _ \<Rightarrow> on_hold (service_expire (rq_ledger_store env) r))) (\<lambda>_.
                  ebind (save_batch env next) (\<lambda>_.
                  ebind (put_batch next) (\<lambda>_. eok True)))))
            | _ \<Rightarrow> eok False))"

section \<open>Recovery\<close>

fun finish_settlements ::
  "('l, 's) rebate_env \<Rightarrow> rebate_settlement list \<Rightarrow> ('l, 's, unit) rebate_call" where
  "finish_settlements env [] = eok ()"
| "finish_settlements env (s # ss) =
     ebind (eres (lift_rebate (validate_settlement s))) (\<lambda>_.
     ebind (guard_strategy (bp_strategy (rt_plan s))) (\<lambda>_.
     ebind (post_if_held env s) (\<lambda>_.
     ebind (on_rebates (ro_finish_settlement (rq_store env) (bp_batch_id (rt_plan s)))) (\<lambda>_.
     ebind (unguard_strategy (bp_strategy (rt_plan s))) (\<lambda>_.
       finish_settlements env ss)))))"

definition recover_batch ::
  "('l, 's) rebate_env \<Rightarrow> rebate_batch \<Rightarrow> ('l, 's, rebate_batch) rebate_call" where
  "recover_batch env b =
     ebind (guard_strategy (rb_strategy b)) (\<lambda>_.
       case rb_state b of
         BsReady e \<Rightarrow>
           ebind (eread (\<lambda>w. reservation_sources (rw_ledger w) (re_reservation e))) (\<lambda>held.
             case held of
               None \<Rightarrow> eerr (RfRebate (InvalidExecution NoReservation))
             | Some _ \<Rightarrow> eok b)
       | st \<Rightarrow>
           (case interrupted st of
              None \<Rightarrow> eok b
            | Some r \<Rightarrow>
                let b' = b\<lparr>rb_state := BsGuarded\<rparr> in
                ebind (release_if_held env r) (\<lambda>_.
                ebind (save_batch env b') (\<lambda>_. eok b'))))"

fun recover_batches ::
  "('l, 's) rebate_env \<Rightarrow> rebate_batch list \<Rightarrow> (strategy_key, rebate_batch) bmap \<Rightarrow>
   ('l, 's, (strategy_key, rebate_batch) bmap) rebate_call" where
  "recover_batches env [] recovered = eok recovered"
| "recover_batches env (b # bs) recovered =
     ebind (eres (lift_rebate (validate_batch b))) (\<lambda>_.
       if bm_contains recovered (rb_strategy b)
       then eerr (RfRebate (InvalidAccrual SeveralOpenBatches))
       else ebind (recover_batch env b) (\<lambda>b'.
         recover_batches env bs (bm_insert (rb_strategy b') b' recovered)))"

definition rebate_recover :: "('l, 's) rebate_env \<Rightarrow> ('l, 's, unit) rebate_call" where
  "rebate_recover env =
     ebind (on_rebates (ro_pending_settlements (rq_store env))) (\<lambda>settlements.
     ebind (finish_settlements env settlements) (\<lambda>_.
     ebind (on_rebates (ro_open_batches (rq_store env))) (\<lambda>opened.
     ebind (recover_batches env opened []) (\<lambda>recovered.
       emodify (\<lambda>w. w\<lparr>rw_batches := recovered\<rparr>)))))"

section \<open>Reads\<close>

definition open_batches :: "('l, 's) rebate_world \<Rightarrow> rebate_batch list" where
  "open_batches w = bm_values (rw_batches w)"

definition ready_work :: "('l, 's) rebate_world \<Rightarrow> rebate_execution list" where
  "ready_work w =
     List.map_filter (\<lambda>b. case rb_state b of BsReady e \<Rightarrow> Some e | _ \<Rightarrow> None) (bm_values (rw_batches w))"

definition ready_by_id :: "('l, 's) rebate_world \<Rightarrow> rebate_batch_id \<Rightarrow> rebate_execution option" where
  "ready_by_id w i =
     find_map (\<lambda>b. case rb_state b of BsReady e \<Rightarrow> if rb_id b = i then Some e else None | _ \<Rightarrow> None)
       (bm_values (rw_batches w))"

end
