(* ===== verification/Rebate_Laws.thy ===== *)
theory Rebate_Laws
  imports Rebate_Service
begin

text \<open>
  The contract of the rebate store port, and that the SQLite adapter meets it. A store is seen as one
  open batch per strategy and one pending settlement per batch: a save replaces the batch of its
  strategy, closing or finishing removes it, and a failed call changes neither. Accrual rows are part
  of the view: a save never loses one that was stored before.

  \<open>calm\<close> says that no fault is scheduled; the calls that recovery makes then succeed.
\<close>

section \<open>The contract\<close>

text \<open>A batch in canonical form: its accruals are keyed by their trade and belong to its strategy.\<close>

definition keyed :: "rebate_batch \<Rightarrow> bool" where
  "keyed b \<longleftrightarrow> bm_wf (rb_accruals b) \<and>
     (\<forall>t a. (t, a) \<in> set (rb_accruals b) \<longrightarrow> t = ra_trade_id a \<and> ra_strategy a = rb_strategy b)"

text \<open>\<open>grows_to d b\<close>: saving \<open>b\<close> over \<open>d\<close> keeps the identity and every accrual.\<close>

definition grows_to :: "rebate_batch option \<Rightarrow> rebate_batch \<Rightarrow> bool" where
  "grows_to d b \<longleftrightarrow>
     (\<forall>d'. d = Some d' \<longrightarrow> rb_id d' = rb_id b \<and> rb_pair d' = rb_pair b \<and> set (rb_accruals d') \<subseteq> set (rb_accruals b))"

definition without :: "rebate_batch_id \<Rightarrow> (strategy_key \<Rightarrow> rebate_batch option) \<Rightarrow> strategy_key \<Rightarrow> rebate_batch option"
  where "without i v k = (case v k of Some b \<Rightarrow> if rb_id b = i then None else Some b | None \<Rightarrow> None)"

definition same_settlement :: "rebate_settlement \<Rightarrow> rebate_settlement \<Rightarrow> bool" where
  "same_settlement x y \<longleftrightarrow> rt_plan x = rt_plan y \<and> rt_reservation x = rt_reservation y \<and> rt_event x = rt_event y"

locale rebate_store =
  fixes ops :: "'s rebate_ops"
    and opened :: "'s \<Rightarrow> strategy_key \<Rightarrow> rebate_batch option"
    and settling :: "'s \<Rightarrow> rebate_batch_id \<Rightarrow> rebate_settlement option"
    and readable :: "rebate_batch_state \<Rightarrow> bool"
    and store_wf :: "'s \<Rightarrow> bool"
    and calm :: "'s \<Rightarrow> bool"
  assumes opened_key: "store_wf s \<Longrightarrow> opened s k = Some b \<Longrightarrow> rb_strategy b = k \<and> keyed b \<and> readable (rb_state b)"
    and opened_id: "store_wf s \<Longrightarrow> opened s k = Some b \<Longrightarrow> opened s k' = Some b' \<Longrightarrow> rb_id b = rb_id b' \<Longrightarrow> k = k'"
    and settling_key: "store_wf s \<Longrightarrow> settling s i = Some x \<Longrightarrow> bp_batch_id (rt_plan x) = i"
    and save_fails: "store_wf s \<Longrightarrow> ro_save ops b s = (Inl e, s') \<Longrightarrow>
      store_wf s' \<and> opened s' = opened s \<and> settling s' = settling s"
    and save_works: "store_wf s \<Longrightarrow> keyed b \<Longrightarrow> readable (rb_state b) \<Longrightarrow>
      (\<And>d. opened s (rb_strategy b) = Some d \<Longrightarrow> set (rb_accruals d) \<subseteq> set (rb_accruals b)) \<Longrightarrow>
      ro_save ops b s = (Inr u, s') \<Longrightarrow>
      store_wf s' \<and> opened s' = (opened s)(rb_strategy b \<mapsto> b) \<and> settling s' = settling s \<and>
      grows_to (opened s (rb_strategy b)) b"
    and close_call: "store_wf s \<Longrightarrow> ro_close ops i s = (r, s') \<Longrightarrow>
      store_wf s' \<and> settling s' = settling s \<and> opened s' = (if isl r then opened s else without i (opened s))"
    and begin_call: "store_wf s \<Longrightarrow> ro_begin_settlement ops x s = (r, s') \<Longrightarrow>
      store_wf s' \<and> opened s' = opened s \<and>
      (settling s' = settling s \<or>
       settling s (bp_batch_id (rt_plan x)) = None \<and> settling s' = (settling s)(bp_batch_id (rt_plan x) \<mapsto> x)) \<and>
      (\<forall>k b. r = Inr () \<longrightarrow> opened s k = Some b \<longrightarrow> rb_id b = bp_batch_id (rt_plan x) \<longrightarrow>
        (\<exists>y. settling s' (bp_batch_id (rt_plan x)) = Some y \<and> same_settlement y x))"
    and finish_call: "store_wf s \<Longrightarrow> ro_finish_settlement ops i s = (r, s') \<Longrightarrow>
      store_wf s' \<and>
      (if isl r then opened s' = opened s \<and> settling s' = settling s
       else opened s' = without i (opened s) \<and> settling s' = (settling s)(i := None))"
    and pending_call: "store_wf s \<Longrightarrow> ro_pending_settlements ops s = (rp, s') \<Longrightarrow>
      store_wf s' \<and> opened s' = opened s \<and> settling s' = settling s \<and>
      (\<forall>xs. rp = Inr xs \<longrightarrow> set xs = ran (settling s) \<and> distinct (map (\<lambda>x. bp_batch_id (rt_plan x)) xs))"
    and open_call: "store_wf s \<Longrightarrow> ro_open_batches ops s = (r', s') \<Longrightarrow>
      store_wf s' \<and> opened s' = opened s \<and> settling s' = settling s \<and>
      (\<forall>bs. r' = Inr bs \<longrightarrow> set bs = ran (opened s) \<and> distinct (map rb_strategy bs))"
    and cursor_calls: "store_wf s \<Longrightarrow> ro_scan_cursor ops c s = (rc, s') \<Longrightarrow>
        store_wf s' \<and> opened s' = opened s \<and> settling s' = settling s"
      "store_wf s \<Longrightarrow> ro_save_scan_cursor ops c n s = (r, s') \<Longrightarrow>
        store_wf s' \<and> opened s' = opened s \<and> settling s' = settling s"
    and calm_calls: "store_wf s \<Longrightarrow> calm s \<Longrightarrow> keyed b \<Longrightarrow> opened s (rb_strategy b) = Some d \<Longrightarrow>
        rb_id d = rb_id b \<Longrightarrow> rb_pair d = rb_pair b \<Longrightarrow> rb_accruals d = rb_accruals b \<Longrightarrow>
        \<exists>s'. ro_save ops b s = (Inr (), s') \<and> calm s'"
      "store_wf s \<Longrightarrow> calm s \<Longrightarrow> settling s i = Some x \<Longrightarrow> \<exists>s'. ro_finish_settlement ops i s = (Inr (), s') \<and> calm s'"
      "store_wf s \<Longrightarrow> calm s \<Longrightarrow> \<exists>xs s'. ro_pending_settlements ops s = (Inr xs, s') \<and> calm s'"
      "store_wf s \<Longrightarrow> calm s \<Longrightarrow> \<exists>bs s'. ro_open_batches ops s = (Inr bs, s') \<and> calm s'"
begin

lemma save_call:
  assumes "store_wf s" "keyed b" "readable (rb_state b)" "ro_save ops b s = (r, s')"
    and "\<And>d. opened s (rb_strategy b) = Some d \<Longrightarrow> set (rb_accruals d) \<subseteq> set (rb_accruals b)"
  shows "store_wf s' \<and> settling s' = settling s \<and>
    opened s' = (if isl r then opened s else (opened s)(rb_strategy b \<mapsto> b))"
proof (cases r)
  case (Inl e)
  then show ?thesis using save_fails assms(1,4) by simp
next
  case (Inr u)
  then show ?thesis using save_works [OF assms(1,2,3) assms(5)] assms(4) by simp
qed

end

section \<open>The view of the SQLite tables\<close>

definition accruals_of :: "rebate_tables \<Rightarrow> rebate_batch_id \<Rightarrow> (trade_id, rebate_accrual) bmap" where
  "accruals_of ts i =
     fold (\<lambda>a. bm_insert (ra_trade_id a) a) (map (\<lambda>(_, _, a). a) (filter (\<lambda>(_, j, _). j = i) (rx_accruals ts))) []"

definition row_batch :: "rebate_tables \<Rightarrow> rebate_batch_id \<times> batch_row \<Rightarrow> rebate_batch" where
  "row_batch ts r =
     \<lparr>rb_id = fst r, rb_strategy = bw_strategy (snd r), rb_pair = bw_pair (snd r),
      rb_accruals = accruals_of ts (fst r), rb_state = the (bw_payload (snd r))\<rparr>"

definition table_opened :: "rebate_tables \<Rightarrow> strategy_key \<Rightarrow> rebate_batch option" where
  "table_opened ts k = map_option (row_batch ts) (open_row k ts)"

definition table_settling :: "rebate_tables \<Rightarrow> rebate_batch_id \<Rightarrow> rebate_settlement option" where
  "table_settling ts i =
     (case bm_get (rx_settlements ts) i of
        Some (st, s) \<Rightarrow> if st = ''settling'' then Some s else None
      | None \<Rightarrow> None)"

definition stored_readable :: "filler_abi \<Rightarrow> rebate_batch_state \<Rightarrow> bool" where
  "stored_readable abi st \<longleftrightarrow> stored_state abi st = Inr st"

definition batch_rows_wf :: "filler_abi \<Rightarrow> rebate_tables \<Rightarrow> bool" where
  "batch_rows_wf abi ts \<longleftrightarrow> bm_wf (rx_batches ts) \<and>
     (\<forall>i row. bm_get (rx_batches ts) i = Some row \<longrightarrow> bw_open row \<longrightarrow>
        (\<exists>st. bw_payload row = Some st \<and> bw_state row = stored_name st \<and> stored_readable abi st)) \<and>
     (\<forall>i j row row'. bm_get (rx_batches ts) i = Some row \<longrightarrow> bm_get (rx_batches ts) j = Some row' \<longrightarrow>
        bw_open row \<longrightarrow> bw_open row' \<longrightarrow> bw_strategy row = bw_strategy row' \<longrightarrow> i = j)"

definition accrual_rows_wf :: "rebate_tables \<Rightarrow> bool" where
  "accrual_rows_wf ts \<longleftrightarrow> bm_wf (rx_accruals ts) \<and>
     (\<forall>k t i a. bm_get (rx_accruals ts) (k, t) = Some (i, a) \<longrightarrow>
        ra_trade_id a = t \<and> ra_strategy a = k \<and>
        (\<exists>row. bm_get (rx_batches ts) i = Some row \<and> bw_strategy row = k))"

definition settlement_rows_wf :: "rebate_tables \<Rightarrow> bool" where
  "settlement_rows_wf ts \<longleftrightarrow> bm_wf (rx_settlements ts) \<and>
     (\<forall>i st s. bm_get (rx_settlements ts) i = Some (st, s) \<longrightarrow>
        bp_batch_id (rt_plan s) = i \<and> st \<in> {''settling'', ''executed''} \<and>
        (\<exists>row. bm_get (rx_batches ts) i = Some row \<and> (st = ''executed'' \<longrightarrow> \<not> bw_open row)))"

definition tables_wf :: "filler_abi \<Rightarrow> rebate_tables \<Rightarrow> bool" where
  "tables_wf abi ts \<longleftrightarrow> batch_rows_wf abi ts \<and> accrual_rows_wf ts \<and> settlement_rows_wf ts"

definition sqlite_rebate_ops :: "filler_abi \<Rightarrow> rebate_db rebate_ops" where
  "sqlite_rebate_ops abi =
     \<lparr>ro_save = rebate_save, ro_open_batches = rebate_open_batches abi, ro_close = rebate_close,
      ro_scan_cursor = scan_cursor, ro_save_scan_cursor = save_scan_cursor,
      ro_begin_settlement = begin_settlement, ro_pending_settlements = pending_settlements,
      ro_finish_settlement = finish_settlement\<rparr>"

section \<open>Transactions\<close>

lemma rebate_tx_cases:
  assumes "rebate_tx f db = (r, db')"
  obtains (fault) "r = Inl RsDb" "rd_tables db' = rd_tables db" "rd_faults db \<noteq> []"
    | (refused) e where "r = Inl e" "rd_tables db' = rd_tables db" "f (rd_tables db) = Inl e" "rd_faults db' = tl (rd_faults db)"
    | (worked) x where "r = Inr x" "f (rd_tables db) = Inr (x, rd_tables db')" "rd_faults db' = tl (rd_faults db)"
  using assms by (auto simp: rebate_tx_def split: list.splits bool.splits sum.splits prod.splits)

lemma rebate_tx_calm: "rd_faults db = [] \<Longrightarrow> f (rd_tables db) = Inr (x, ts) \<Longrightarrow>
  rebate_tx f db = (Inr x, db\<lparr>rd_tables := ts, rd_faults := []\<rparr>)"
  by (simp add: rebate_tx_def)

lemma rebate_query_cases:
  assumes "rebate_query f db = (r, db')"
  shows "rd_tables db' = rd_tables db" and "r = Inr x \<Longrightarrow> f (rd_tables db) = Inr x"
  using assms unfolding rebate_query_def
  by (auto elim!: rebate_tx_cases simp: rbind_def split: sum.splits)

lemma rebate_query_calm: "rd_faults db = [] \<Longrightarrow> f (rd_tables db) = Inr x \<Longrightarrow>
  rebate_query f db = (Inr x, db\<lparr>rd_faults := []\<rparr>)"
  unfolding rebate_query_def by (subst rebate_tx_calm [where ts = "rd_tables db"]) (simp_all add: rbind_def)

lemma rebate_query_total: "rd_faults db = [] \<Longrightarrow>
  rebate_query (\<lambda>ts. Inr (g ts)) db = (Inr (g (rd_tables db)), db\<lparr>rd_faults := []\<rparr>)"
  by (simp add: rebate_query_calm)

section \<open>Batch rows\<close>

lemma find_member: "find P xs = Some x \<Longrightarrow> x \<in> set xs \<and> P x"
  by (auto simp: find_Some_iff)

lemma open_row_iff:
  assumes "batch_rows_wf abi ts"
  shows "open_row k ts = Some (i, row) \<longleftrightarrow>
    bm_get (rx_batches ts) i = Some row \<and> bw_open row \<and> bw_strategy row = k"
proof
  assume "open_row k ts = Some (i, row)"
  then show "bm_get (rx_batches ts) i = Some row \<and> bw_open row \<and> bw_strategy row = k"
    using assms by (auto simp: open_row_def batch_rows_wf_def bm_get_iff dest!: find_member)
next
  assume a: "bm_get (rx_batches ts) i = Some row \<and> bw_open row \<and> bw_strategy row = k"
  then have "open_row k ts \<noteq> None"
    unfolding open_row_def find_None_iff using bm_get_set [of "rx_batches ts" i row] by auto
  then obtain j row' where o: "open_row k ts = Some (j, row')" by force
  then have "bm_get (rx_batches ts) j = Some row'" "bw_open row'" "bw_strategy row' = k"
    using assms by (auto simp: open_row_def batch_rows_wf_def bm_get_iff dest!: find_member)
  then have "j = i" using a assms by (auto simp: batch_rows_wf_def)
  then show "open_row k ts = Some (i, row)" using o a \<open>bm_get (rx_batches ts) j = Some row'\<close> by simp
qed

lemma fold_insert_get:
  assumes "\<And>a a'. a \<in> set as \<Longrightarrow> a' \<in> set as \<Longrightarrow> ra_trade_id a = ra_trade_id a' \<Longrightarrow> a = a'"
  shows "bm_get (fold (\<lambda>a. bm_insert (ra_trade_id a) a) as m) t =
    (case find (\<lambda>a. ra_trade_id a = t) as of Some a \<Rightarrow> Some a | None \<Rightarrow> bm_get m t)"
  using assms
proof (induction as arbitrary: m)
  case (Cons a as)
  show ?case
  proof (cases "find (\<lambda>a. ra_trade_id a = t) as")
    case None
    then show ?thesis using Cons by (auto split: option.splits)
  next
    case (Some a')
    then have "a' \<in> set as" "ra_trade_id a' = t" by (auto simp: find_Some_iff)
    then show ?thesis using Some Cons.IH Cons.prems [of a' a] Cons.prems by (auto split: option.splits)
  qed
qed simp

lemma fold_insert_wf: "bm_wf m \<Longrightarrow> bm_wf (fold (\<lambda>a. bm_insert (ra_trade_id a) a) as m)"
  by (induction as arbitrary: m) auto

lemma accrual_rowD:
  assumes "accrual_rows_wf ts" "bm_get (rx_accruals ts) (k, t) = Some (i, a)"
  shows "ra_trade_id a = t" "ra_strategy a = k" "\<exists>row. bm_get (rx_batches ts) i = Some row \<and> bw_strategy row = k"
  using assms unfolding accrual_rows_wf_def by blast+

text \<open>The accruals read back for a batch are the rows filed under it.\<close>

lemma accruals_of_get:
  assumes "accrual_rows_wf ts" "bm_get (rx_batches ts) i = Some row"
  shows "bm_get (accruals_of ts i) t = Some a \<longleftrightarrow> bm_get (rx_accruals ts) (bw_strategy row, t) = Some (i, a)"
proof -
  let ?as = "map (\<lambda>(_, _, a). a) (filter (\<lambda>(_, j, _). j = i) (rx_accruals ts))"
  have rows: "x \<in> set ?as \<longleftrightarrow> bm_get (rx_accruals ts) (bw_strategy row, ra_trade_id x) = Some (i, x)" for x
  proof
    assume "x \<in> set ?as"
    then obtain k t where g: "bm_get (rx_accruals ts) (k, t) = Some (i, x)"
      using assms(1) by (auto simp: accrual_rows_wf_def bm_get_iff)
    then have "ra_trade_id x = t" "bw_strategy row = k"
      using accrual_rowD(1,3) [OF assms(1) g] assms(2) by auto
    with g show "bm_get (rx_accruals ts) (bw_strategy row, ra_trade_id x) = Some (i, x)" by simp
  next
    assume "bm_get (rx_accruals ts) (bw_strategy row, ra_trade_id x) = Some (i, x)"
    then show "x \<in> set ?as" by (force dest: bm_get_set)
  qed
  have "bm_get (accruals_of ts i) t = find (\<lambda>a. ra_trade_id a = t) ?as"
    unfolding accruals_of_def by (subst fold_insert_get) (auto simp: rows [simplified] split: option.splits)
  also have "find (\<lambda>a. ra_trade_id a = t) ?as = Some a \<longleftrightarrow> a \<in> set ?as \<and> ra_trade_id a = t" (is "?l \<longleftrightarrow> ?r")
  proof
    show "?l \<Longrightarrow> ?r" by (blast dest: find_member)
    assume r: ?r
    then obtain b where b: "find (\<lambda>a. ra_trade_id a = t) ?as = Some b"
      by (cases "find (\<lambda>a. ra_trade_id a = t) ?as") (auto simp: find_None_iff)
    then have "b \<in> set ?as" "ra_trade_id b = t" by (blast dest: find_member)+
    then have "b = a" using r rows [of a] rows [of b] by simp
    then show ?l using b by simp
  qed
  also have "a \<in> set ?as \<and> ra_trade_id a = t \<longleftrightarrow> bm_get (rx_accruals ts) (bw_strategy row, t) = Some (i, a)"
    using rows [of a] accrual_rowD(1) [OF assms(1)] by blast
  finally show ?thesis .
qed

lemma accruals_of_wf: "bm_wf (accruals_of ts i)"
  by (simp add: accruals_of_def fold_insert_wf)

lemma tables_wfD:
  assumes "tables_wf abi ts"
  shows "batch_rows_wf abi ts" "accrual_rows_wf ts" "settlement_rows_wf ts"
  using assms by (simp_all add: tables_wf_def)

lemma table_opened_iff:
  assumes "batch_rows_wf abi ts"
  shows "table_opened ts k = Some b \<longleftrightarrow>
    (\<exists>i row. bm_get (rx_batches ts) i = Some row \<and> bw_open row \<and> bw_strategy row = k \<and> b = row_batch ts (i, row))"
  using open_row_iff [OF assms, of k] by (auto simp: table_opened_def)

lemma table_opened_row:
  assumes "batch_rows_wf abi ts" "bm_get (rx_batches ts) i = Some row" "bw_open row"
  shows "table_opened ts (bw_strategy row) = Some (row_batch ts (i, row))"
  using table_opened_iff [OF assms(1)] assms(2,3) by blast

lemma row_batch_sel [simp]:
  "rb_id (row_batch ts (i, row)) = i" "rb_strategy (row_batch ts (i, row)) = bw_strategy row"
  "rb_pair (row_batch ts (i, row)) = bw_pair row" "rb_accruals (row_batch ts (i, row)) = accruals_of ts i"
  "rb_state (row_batch ts (i, row)) = the (bw_payload row)"
  by (simp_all add: row_batch_def)

lemma table_opened_facts:
  assumes wf: "tables_wf abi ts" and op: "table_opened ts k = Some b"
  shows "rb_strategy b = k \<and> keyed b \<and> stored_readable abi (rb_state b)"
proof -
  obtain i row where r: "bm_get (rx_batches ts) i = Some row" "bw_open row" "bw_strategy row = k" "b = row_batch ts (i, row)"
    using op table_opened_iff [OF tables_wfD(1) [OF wf]] by blast
  have "stored_readable abi (rb_state b)"
    using tables_wfD(1) [OF wf] r by (fastforce simp: batch_rows_wf_def)
  moreover have "keyed b"
    using accruals_of_get [OF tables_wfD(2) [OF wf] r(1)] accrual_rowD(1,2) [OF tables_wfD(2) [OF wf]] accruals_of_wf
    by (auto simp: keyed_def r(4) simp flip: bm_get_iff [OF accruals_of_wf])
  ultimately show ?thesis using r by simp
qed

lemma table_opened_ids:
  assumes "tables_wf abi ts" "table_opened ts k = Some b" "table_opened ts k' = Some b'" "rb_id b = rb_id b'"
  shows "k = k'"
  using assms(2-) table_opened_iff [OF tables_wfD(1) [OF assms(1)]] by auto

text \<open>Two states of the tables show a strategy alike when its row and its accruals are alike.\<close>

lemma accruals_of_cong:
  assumes "accrual_rows_wf ts" "accrual_rows_wf ts'"
    and "bm_get (rx_batches ts) i = Some row" "bm_get (rx_batches ts') i = Some row'" "bw_strategy row = bw_strategy row'"
    and "\<And>t a. bm_get (rx_accruals ts) (bw_strategy row, t) = Some (i, a) \<longleftrightarrow>
                bm_get (rx_accruals ts') (bw_strategy row, t) = Some (i, a)"
  shows "accruals_of ts i = accruals_of ts' i"
proof (rule bm.entries_ext [OF accruals_of_wf accruals_of_wf])
  fix t
  show "bm_get (accruals_of ts i) t = bm_get (accruals_of ts' i) t"
    using accruals_of_get [OF assms(1,3), of t] accruals_of_get [OF assms(2,4), of t] assms(5,6)
    by (intro option_eqI) simp
qed

section \<open>Saving\<close>

lemma insert_twice: "bm_insert k v (bm_insert k u m) = bm_insert k v m"
  by (induction m) auto

lemma persist_accruals:
  assumes "try_fold (persist_accrual b) ts as = Inr ts'"
  shows "rx_batches ts' = rx_batches ts" "rx_settlements ts' = rx_settlements ts" "rx_cursors ts' = rx_cursors ts"
    "bm_wf (rx_accruals ts) \<Longrightarrow> bm_wf (rx_accruals ts')"
    "bm_get (rx_accruals ts) key = Some v \<Longrightarrow> bm_get (rx_accruals ts') key = Some v"
    "a \<in> set as \<Longrightarrow> bm_get (rx_accruals ts') (rb_strategy b, ra_trade_id a) = Some (rb_id b, a)"
    "bm_get (rx_accruals ts') key = Some v \<Longrightarrow> bm_get (rx_accruals ts) key = None \<Longrightarrow>
       \<exists>a \<in> set as. key = (rb_strategy b, ra_trade_id a) \<and> v = (rb_id b, a)"
proof -
  have step: "rx_batches ts1 = rx_batches ts0 \<and> rx_settlements ts1 = rx_settlements ts0 \<and> rx_cursors ts1 = rx_cursors ts0 \<and>
      rx_accruals ts1 = bm_insert (rb_strategy b, ra_trade_id a) (rb_id b, a) (rx_accruals ts0) \<and>
      bm_get (rx_accruals ts0) (rb_strategy b, ra_trade_id a) = None \<or>
      ts1 = ts0 \<and> bm_get (rx_accruals ts0) (rb_strategy b, ra_trade_id a) = Some (rb_id b, a)"
    if "persist_accrual b ts0 a = Inr ts1" for ts0 ts1 a
    using that by (auto simp: persist_accrual_def Let_def split: option.splits if_splits)
  show "rx_batches ts' = rx_batches ts" "rx_settlements ts' = rx_settlements ts" "rx_cursors ts' = rx_cursors ts"
    using assms by (induction as arbitrary: ts) (auto simp: rbind_def split: sum.splits dest!: step)
  have wf: "persist_accrual b ts0 a = Inr ts1 \<Longrightarrow> bm_wf (rx_accruals ts0) \<Longrightarrow> bm_wf (rx_accruals ts1)" for ts0 ts1 a
    by (auto dest!: step)
  show "bm_wf (rx_accruals ts) \<Longrightarrow> bm_wf (rx_accruals ts')"
    using assms by (induction as arbitrary: ts) (auto simp: rbind_def split: sum.splits dest: wf)
  have keep: "bm_get (rx_accruals t0) key = Some v \<Longrightarrow> try_fold (persist_accrual b) t0 xs = Inr t1 \<Longrightarrow>
      bm_get (rx_accruals t1) key = Some v" for t0 t1 xs key v
  proof (induction xs arbitrary: t0)
    case (Cons x xs)
    then obtain ts1 where s: "persist_accrual b t0 x = Inr ts1" "try_fold (persist_accrual b) ts1 xs = Inr t1"
      by (auto simp: rbind_def split: sum.splits)
    have "bm_get (rx_accruals ts1) key = Some v" using step [OF s(1)] Cons.prems(1) by auto
    then show ?case by (rule Cons.IH [OF _ s(2)])
  qed simp
  show "bm_get (rx_accruals ts) key = Some v \<Longrightarrow> bm_get (rx_accruals ts') key = Some v" by (rule keep [OF _ assms])
  show "a \<in> set as \<Longrightarrow> bm_get (rx_accruals ts') (rb_strategy b, ra_trade_id a) = Some (rb_id b, a)"
    using assms
  proof (induction as arbitrary: ts)
    case (Cons x xs)
    obtain ts1 where s: "persist_accrual b ts x = Inr ts1" "try_fold (persist_accrual b) ts1 xs = Inr ts'"
      using Cons.prems(2) by (auto simp: rbind_def split: sum.splits)
    have "bm_get (rx_accruals ts1) (rb_strategy b, ra_trade_id x) = Some (rb_id b, x)" using step [OF s(1)] by auto
    then show ?case using keep [OF _ s(2)] Cons.IH [OF _ s(2)] Cons.prems(1) by auto
  qed simp
  show "bm_get (rx_accruals ts') key = Some v \<Longrightarrow> bm_get (rx_accruals ts) key = None \<Longrightarrow>
       \<exists>a \<in> set as. key = (rb_strategy b, ra_trade_id a) \<and> v = (rb_id b, a)"
    using assms
  proof (induction as arbitrary: ts)
    case (Cons x xs)
    obtain ts1 where s: "persist_accrual b ts x = Inr ts1" "try_fold (persist_accrual b) ts1 xs = Inr ts'"
      using Cons.prems(3) by (auto simp: rbind_def split: sum.splits)
    show ?case
    proof (cases "bm_get (rx_accruals ts1) key")
      case None
      then show ?thesis using Cons.IH [OF Cons.prems(1) None s(2)] by auto
    next
      case (Some u)
      then have "u = v" using keep [OF Some s(2)] Cons.prems(1) by simp
      then show ?thesis using step [OF s(1)] Some Cons.prems(2) by (auto split: if_splits)
    qed
  qed simp
qed

definition saved_row :: "rebate_batch \<Rightarrow> batch_row" where
  "saved_row b =
     \<lparr>bw_strategy = rb_strategy b, bw_pair = rb_pair b, bw_state = stored_name (rb_state b),
      bw_payload = Some (rb_state b), bw_open = True\<rparr>"

text \<open>What a successful save does to the tables.\<close>

definition saved :: "rebate_batch \<Rightarrow> rebate_tables \<Rightarrow> rebate_tables \<Rightarrow> bool" where
  "saved b ts ts' \<longleftrightarrow>
     rx_batches ts' = bm_insert (rb_id b) (saved_row b) (rx_batches ts) \<and> rx_settlements ts' = rx_settlements ts \<and>
     (bm_get (rx_batches ts) (rb_id b) = None \<and> open_row (rb_strategy b) ts = None \<or>
      (\<exists>row. open_row (rb_strategy b) ts = Some (rb_id b, row) \<and> bw_pair row = rb_pair b)) \<and>
     (bm_wf (rx_accruals ts) \<longrightarrow> bm_wf (rx_accruals ts')) \<and>
     (\<forall>key v. bm_get (rx_accruals ts) key = Some v \<longrightarrow> bm_get (rx_accruals ts') key = Some v) \<and>
     (\<forall>a \<in> set (bm_values (rb_accruals b)). bm_get (rx_accruals ts') (rb_strategy b, ra_trade_id a) = Some (rb_id b, a)) \<and>
     (\<forall>key v. bm_get (rx_accruals ts') key = Some v \<longrightarrow> bm_get (rx_accruals ts) key = None \<longrightarrow>
        (\<exists>a \<in> set (bm_values (rb_accruals b)). key = (rb_strategy b, ra_trade_id a) \<and> v = (rb_id b, a)))"

lemma rebate_save_cases:
  assumes "rebate_save b db = (r, db')" "batch_rows_wf abi (rd_tables db)"
  shows "isl r \<and> rd_tables db' = rd_tables db \<or> r = Inr () \<and> saved b (rd_tables db) (rd_tables db')"
  using assms(1) unfolding rebate_save_def
proof (cases rule: rebate_tx_cases)
  case (worked x)
  let ?ts = "rd_tables db" and ?k = "rb_strategy b" and ?i = "rb_id b"
  let ?ts1 = "insert_batch b ?ts"
  obtain i row ts2 row2 where o: "open_row ?k ?ts1 = Some (i, row)" "i = ?i" "bw_pair row = rb_pair b"
    and f: "try_fold (persist_accrual b) ?ts1 (bm_values (rb_accruals b)) = Inr ts2"
    and g: "bm_get (rx_batches ts2) ?i = Some row2" "bw_open row2"
    and ts': "rd_tables db' = ts2\<lparr>rx_batches := bm_insert ?i
        (row2\<lparr>bw_state := stored_name (rb_state b), bw_payload := Some (rb_state b)\<rparr>) (rx_batches ts2)\<rparr>"
    using worked(2) by (auto simp: Let_def rbind_def split: option.splits if_splits sum.splits prod.splits)
  note p = persist_accruals [OF f]
  show ?thesis
  proof (cases "bm_contains (rx_batches ?ts) ?i \<or> open_row ?k ?ts \<noteq> None")
    case True
    then have same: "?ts1 = ?ts" by (simp add: insert_batch_def)
    have "bm_get (rx_batches ?ts) ?i = Some row \<and> bw_strategy row = ?k" "row2 = row"
      using o g p(1) open_row_iff [OF assms(2), of ?k i row] by (simp_all add: same)
    moreover from this have "row2\<lparr>bw_state := stored_name (rb_state b), bw_payload := Some (rb_state b)\<rparr> = saved_row b"
      using g(2) o(3) by (simp add: saved_row_def)
    ultimately show ?thesis
      unfolding saved_def ts' using p o worked(1) by (simp add: same)
  next
    case False
    then have fresh: "bm_get (rx_batches ?ts) ?i = None" "open_row ?k ?ts = None"
      by (auto simp: bm_get_None_iff)
    have new: "?ts1 = ?ts\<lparr>rx_batches := bm_insert ?i
        \<lparr>bw_strategy = ?k, bw_pair = rb_pair b, bw_state = ''accumulating'', bw_payload = None, bw_open = True\<rparr>
        (rx_batches ?ts)\<rparr>" using False by (simp add: insert_batch_def)
    then have "row2\<lparr>bw_state := stored_name (rb_state b), bw_payload := Some (rb_state b)\<rparr> = saved_row b"
      using g p(1) by (auto simp: saved_row_def)
    then show ?thesis
      unfolding saved_def ts' using p worked(1) fresh by (simp add: new insert_twice)
  qed
qed auto

lemma savedD:
  assumes "saved b ts ts'"
  shows "rx_batches ts' = bm_insert (rb_id b) (saved_row b) (rx_batches ts)" "rx_settlements ts' = rx_settlements ts"
    "bm_get (rx_batches ts) (rb_id b) = None \<and> open_row (rb_strategy b) ts = None \<or>
      (\<exists>row. open_row (rb_strategy b) ts = Some (rb_id b, row) \<and> bw_pair row = rb_pair b)"
    "bm_wf (rx_accruals ts) \<Longrightarrow> bm_wf (rx_accruals ts')"
    "bm_get (rx_accruals ts) key = Some v \<Longrightarrow> bm_get (rx_accruals ts') key = Some v"
    "a \<in> set (bm_values (rb_accruals b)) \<Longrightarrow> bm_get (rx_accruals ts') (rb_strategy b, ra_trade_id a) = Some (rb_id b, a)"
    "bm_get (rx_accruals ts') key = Some v \<Longrightarrow> bm_get (rx_accruals ts) key = None \<Longrightarrow>
        \<exists>a \<in> set (bm_values (rb_accruals b)). key = (rb_strategy b, ra_trade_id a) \<and> v = (rb_id b, a)"
  using assms unfolding saved_def by blast+

lemma keyedD:
  assumes "keyed b"
  shows "bm_wf (rb_accruals b)" "(t, a) \<in> set (rb_accruals b) \<Longrightarrow> t = ra_trade_id a"
    "(t, a) \<in> set (rb_accruals b) \<Longrightarrow> ra_strategy a = rb_strategy b"
  using assms unfolding keyed_def by blast+

lemma keyed_values:
  assumes "keyed b"
  shows "a \<in> set (bm_values (rb_accruals b)) \<longleftrightarrow> (ra_trade_id a, a) \<in> set (rb_accruals b)"
proof
  assume "a \<in> set (bm_values (rb_accruals b))"
  then obtain t where t: "(t, a) \<in> set (rb_accruals b)" by (auto simp: bm_values_def)
  then show "(ra_trade_id a, a) \<in> set (rb_accruals b)" using keyedD(2) [OF assms t] by simp
qed (force simp: bm_values_def)

lemma saved_target:
  assumes "saved b ts ts'" "tables_wf abi ts"
  obtains (new) "bm_get (rx_batches ts) (rb_id b) = None" "table_opened ts (rb_strategy b) = None"
  | (old) row where "bm_get (rx_batches ts) (rb_id b) = Some row" "bw_open row" "bw_strategy row = rb_strategy b"
      "bw_pair row = rb_pair b" "table_opened ts (rb_strategy b) = Some (row_batch ts (rb_id b, row))"
proof (cases "open_row (rb_strategy b) ts")
  case None
  then show thesis using savedD(3) [OF assms(1)] new by (simp add: table_opened_def)
next
  case (Some r)
  then obtain row where row: "open_row (rb_strategy b) ts = Some (rb_id b, row)" "bw_pair row = rb_pair b"
    using savedD(3) [OF assms(1)] by auto
  then have "bm_get (rx_batches ts) (rb_id b) = Some row \<and> bw_open row \<and> bw_strategy row = rb_strategy b"
    using open_row_iff [OF tables_wfD(1) [OF assms(2)]] by blast
  then show thesis using row by (intro old [of row]) (simp_all add: table_opened_def)
qed

lemma saved_wf:
  assumes s: "saved b ts ts'" and wf: "tables_wf abi ts" and b: "keyed b" "stored_readable abi (rb_state b)"
  shows "tables_wf abi ts'"
proof -
  note w = tables_wfD [OF wf]
  have row: "bw_open (saved_row b)" "bw_strategy (saved_row b) = rb_strategy b" by (simp_all add: saved_row_def)
  have kept: "\<exists>row'. bm_get (rx_batches ts') i = Some row' \<and> bw_strategy row' = bw_strategy row \<and>
      (\<not> bw_open row \<longrightarrow> \<not> bw_open row')" if "bm_get (rx_batches ts) i = Some row" for i row
    using saved_target [OF s wf] that by cases (auto simp: savedD(1) [OF s] row)
  have unique: "j = rb_id b" if "bm_get (rx_batches ts) j = Some r" "bw_open r" "bw_strategy r = rb_strategy b" for j r
    using saved_target [OF s wf] table_opened_row [OF w(1) that(1,2)] that(3)
    by cases (auto simp: row_batch_def)
  have "batch_rows_wf abi ts'"
    unfolding batch_rows_wf_def savedD(1) [OF s]
  proof (intro conjI allI impI)
    show "bm_wf (bm_insert (rb_id b) (saved_row b) (rx_batches ts))" using w(1) by (simp add: batch_rows_wf_def)
  next
    fix i row assume "bm_get (bm_insert (rb_id b) (saved_row b) (rx_batches ts)) i = Some row" "bw_open row"
    then show "\<exists>st. bw_payload row = Some st \<and> bw_state row = stored_name st \<and> stored_readable abi st"
      using w(1) b(2) by (auto simp: batch_rows_wf_def saved_row_def split: if_splits)
  next
    fix i j r r'
    assume "bm_get (bm_insert (rb_id b) (saved_row b) (rx_batches ts)) i = Some r"
      "bm_get (bm_insert (rb_id b) (saved_row b) (rx_batches ts)) j = Some r'" "bw_open r" "bw_open r'"
      "bw_strategy r = bw_strategy r'"
    then show "i = j" using unique w(1) row by (auto simp: batch_rows_wf_def split: if_splits)
  qed
  moreover have "accrual_rows_wf ts'"
    unfolding accrual_rows_wf_def
  proof (intro conjI allI impI)
    show "bm_wf (rx_accruals ts')" using savedD(4) [OF s] w(2) by (simp add: accrual_rows_wf_def)
  next
    fix k t i a assume get: "bm_get (rx_accruals ts') (k, t) = Some (i, a)"
    have "ra_trade_id a = t \<and> ra_strategy a = k \<and> (\<exists>row. bm_get (rx_batches ts') i = Some row \<and> bw_strategy row = k)"
    proof (cases "bm_get (rx_accruals ts) (k, t)")
      case None
      then obtain a' where "(ra_trade_id a', a') \<in> set (rb_accruals b)" "(k, t) = (rb_strategy b, ra_trade_id a')" "(i, a) = (rb_id b, a')"
        using savedD(7) [OF s get None] keyed_values [OF b(1)] by blast
      then show ?thesis using keyedD(3) [OF b(1)] row by (auto simp: savedD(1) [OF s])
    next
      case (Some v)
      then have old: "bm_get (rx_accruals ts) (k, t) = Some (i, a)" using savedD(5) [OF s Some] get by simp
      then obtain row where "bm_get (rx_batches ts) i = Some row" "bw_strategy row = k"
        using accrual_rowD(3) [OF w(2)] by blast
      then show ?thesis using accrual_rowD(1,2) [OF w(2) old] kept by blast
    qed
    then show "ra_trade_id a = t" "ra_strategy a = k" "\<exists>row. bm_get (rx_batches ts') i = Some row \<and> bw_strategy row = k"
      by blast+
  qed
  moreover have "settlement_rows_wf ts'"
    using w(3) kept unfolding settlement_rows_wf_def savedD(2) [OF s] by blast
  ultimately show ?thesis by (simp add: tables_wf_def)
qed

lemma saved_accruals:
  assumes s: "saved b ts ts'" and wf: "tables_wf abi ts" and b: "keyed b" "stored_readable abi (rb_state b)"
    and sub: "\<And>d. table_opened ts (rb_strategy b) = Some d \<Longrightarrow> set (rb_accruals d) \<subseteq> set (rb_accruals b)"
  shows "accruals_of ts' (rb_id b) = rb_accruals b"
proof (rule bm.entries_ext [OF accruals_of_wf keyedD(1) [OF b(1)]], rule option_eqI)
  fix t a
  have row: "bm_get (rx_batches ts') (rb_id b) = Some (saved_row b)" by (simp add: savedD(1) [OF s])
  have wf': "accrual_rows_wf ts'" by (rule tables_wfD(2) [OF saved_wf [OF s wf b]])
  have str: "bw_strategy (saved_row b) = rb_strategy b" by (simp add: saved_row_def)
  have "bm_get (accruals_of ts' (rb_id b)) t = Some a \<longleftrightarrow> bm_get (rx_accruals ts') (rb_strategy b, t) = Some (rb_id b, a)"
    using accruals_of_get [OF wf' row] str by simp
  also have "\<dots> \<longleftrightarrow> (t, a) \<in> set (rb_accruals b)"
  proof
    assume get: "bm_get (rx_accruals ts') (rb_strategy b, t) = Some (rb_id b, a)"
    have t: "ra_trade_id a = t" by (rule accrual_rowD(1) [OF wf' get])
    show "(t, a) \<in> set (rb_accruals b)"
    proof (cases "bm_get (rx_accruals ts) (rb_strategy b, t)")
      case None
      then show ?thesis using savedD(7) [OF s get None] keyed_values [OF b(1)] by auto
    next
      case (Some v)
      then have old: "bm_get (rx_accruals ts) (rb_strategy b, t) = Some (rb_id b, a)" using savedD(5) [OF s Some] get by simp
      show ?thesis
        using s wf
      proof (cases rule: saved_target)
        case new
        then show ?thesis using accrual_rowD(3) [OF tables_wfD(2) [OF wf] old] by simp
      next
        case (old row)
        then have "bm_get (accruals_of ts (rb_id b)) t = Some a"
          using accruals_of_get [OF tables_wfD(2) [OF wf] old(1)] \<open>bm_get (rx_accruals ts) (rb_strategy b, t) = Some (rb_id b, a)\<close> by simp
        then show ?thesis using sub [OF old(5)] by (auto dest: bm_get_set)
      qed
    qed
  next
    assume "(t, a) \<in> set (rb_accruals b)"
    then show "bm_get (rx_accruals ts') (rb_strategy b, t) = Some (rb_id b, a)"
      using savedD(6) [OF s, of a] keyed_values [OF b(1), of a] keyedD(2) [OF b(1), of t a] by simp
  qed
  also have "\<dots> \<longleftrightarrow> bm_get (rb_accruals b) t = Some a" by (simp add: bm_get_iff [OF keyedD(1) [OF b(1)]])
  finally show "bm_get (accruals_of ts' (rb_id b)) t = Some a \<longleftrightarrow> bm_get (rb_accruals b) t = Some a" .
qed

lemma saved_others:
  assumes s: "saved b ts ts'" and wf: "tables_wf abi ts" and b: "keyed b" "stored_readable abi (rb_state b)"
    and k: "k \<noteq> rb_strategy b"
  shows "table_opened ts' k = table_opened ts k"
proof (rule option_eqI)
  fix d
  note w = tables_wfD [OF wf] and w' = tables_wfD [OF saved_wf [OF s wf b]]
  have str: "bw_strategy (saved_row b) = rb_strategy b" by (simp add: saved_row_def)
  have acc: "bm_get (rx_accruals ts') (k, t) = bm_get (rx_accruals ts) (k, t)" for t
    using savedD(5,7) [OF s] k by (cases "bm_get (rx_accruals ts) (k, t)"; cases "bm_get (rx_accruals ts') (k, t)") fastforce+
  have row: "bm_get (rx_batches ts') i = Some row \<longleftrightarrow> bm_get (rx_batches ts) i = Some row"
    if "bw_strategy row = k" for i row
    using saved_target [OF s wf] that k str by cases (auto simp: savedD(1) [OF s])
  have same: "row_batch ts' (i, row) = row_batch ts (i, row)"
    if "bm_get (rx_batches ts) i = Some row" "bw_strategy row = k" for i row
    using accruals_of_cong [OF w'(2) w(2) row [THEN iffD2] that(1)] that acc by (simp add: row_batch_def)
  show "table_opened ts' k = Some d \<longleftrightarrow> table_opened ts k = Some d"
    unfolding table_opened_iff [OF w(1)] table_opened_iff [OF w'(1)] using row same by metis
qed

lemma saved_view:
  assumes s: "saved b ts ts'" and wf: "tables_wf abi ts" and b: "keyed b" "stored_readable abi (rb_state b)"
    and sub: "\<And>d. table_opened ts (rb_strategy b) = Some d \<Longrightarrow> set (rb_accruals d) \<subseteq> set (rb_accruals b)"
  shows "table_opened ts' = (table_opened ts)(rb_strategy b \<mapsto> b)" "grows_to (table_opened ts (rb_strategy b)) b"
proof -
  have row: "bm_get (rx_batches ts') (rb_id b) = Some (saved_row b)" "bw_open (saved_row b)"
    by (simp_all add: savedD(1) [OF s] saved_row_def)
  have "row_batch ts' (rb_id b, saved_row b) = b"
    using saved_accruals [OF s wf b sub] by (simp add: row_batch_def saved_row_def)
  moreover have "bw_strategy (saved_row b) = rb_strategy b" by (simp add: saved_row_def)
  ultimately have "table_opened ts' (rb_strategy b) = Some b"
    using table_opened_row [OF tables_wfD(1) [OF saved_wf [OF s wf b]] row] by simp
  then show "table_opened ts' = (table_opened ts)(rb_strategy b \<mapsto> b)"
    using saved_others [OF s wf b] by (auto simp: fun_eq_iff)
  show "grows_to (table_opened ts (rb_strategy b)) b"
    using saved_target [OF s wf] sub by cases (simp_all add: grows_to_def)
qed

section \<open>Closing and settling\<close>

lemma tables_view_cong:
  assumes "rx_batches ts' = rx_batches ts" "rx_accruals ts' = rx_accruals ts"
  shows "table_opened ts' = table_opened ts"
    and "batch_rows_wf abi ts' = batch_rows_wf abi ts" and "accrual_rows_wf ts' = accrual_rows_wf ts"
proof -
  have "row_batch ts' = row_batch ts"
    by (rule ext) (simp add: assms row_batch_def accruals_of_def)
  moreover have "open_row k ts' = open_row k ts" for k by (simp add: assms open_row_def)
  ultimately show "table_opened ts' = table_opened ts" unfolding table_opened_def by simp
qed (use assms in \<open>simp_all add: batch_rows_wf_def accrual_rows_wf_def\<close>)

lemma close_batch_rows:
  "bm_get (rx_batches (close_batch cond i ts)) j =
     (case bm_get (rx_batches ts) j of
        Some row \<Rightarrow> if j = i \<and> cond row then Some (closed_row row) else Some row
      | None \<Rightarrow> None)"
  "rx_accruals (close_batch cond i ts) = rx_accruals ts" "rx_settlements (close_batch cond i ts) = rx_settlements ts"
  "rx_cursors (close_batch cond i ts) = rx_cursors ts"
  "bm_wf (rx_batches ts) \<Longrightarrow> bm_wf (rx_batches (close_batch cond i ts))"
  by (auto simp: close_batch_def split: option.splits)

lemma closed_row_sel [simp]:
  "bw_open (closed_row row) = False" "bw_strategy (closed_row row) = bw_strategy row"
  by (simp_all add: closed_row_def)

lemma close_batch_wf:
  assumes wf: "tables_wf abi ts" and cond: "\<And>row. bw_open row \<Longrightarrow> cond row"
  shows "tables_wf abi (close_batch cond i ts)"
proof -
  note w = tables_wfD [OF wf]
  let ?ts = "close_batch cond i ts"
  have stays: "\<exists>row'. bm_get (rx_batches ?ts) j = Some row' \<and> bw_strategy row' = bw_strategy row \<and>
      (\<not> bw_open row \<longrightarrow> \<not> bw_open row')"
    if "bm_get (rx_batches ts) j = Some row" for j row
    using that by (auto simp: close_batch_rows)
  have opened: "bm_get (rx_batches ts) j = Some row" if "bm_get (rx_batches ?ts) j = Some row" "bw_open row" for j row
    using that by (auto simp: close_batch_rows split: option.splits if_splits)
  have "batch_rows_wf abi ?ts"
    using w(1) opened close_batch_rows(5) [of ts cond i] unfolding batch_rows_wf_def by blast
  moreover have "accrual_rows_wf ?ts"
    using w(2) accrual_rowD [OF w(2)] stays unfolding accrual_rows_wf_def close_batch_rows(2)
    by (metis (no_types, lifting))
  moreover have "settlement_rows_wf ?ts"
    unfolding settlement_rows_wf_def close_batch_rows(3)
    using w(3) stays unfolding settlement_rows_wf_def by blast
  ultimately show ?thesis by (simp add: tables_wf_def)
qed

lemma close_batch_view:
  assumes wf: "tables_wf abi ts" and cond: "\<And>row. bw_open row \<Longrightarrow> cond row"
  shows "table_opened (close_batch cond i ts) = without i (table_opened ts)"
proof (rule ext, rule option_eqI)
  fix k d
  let ?ts = "close_batch cond i ts"
  note w = tables_wfD [OF wf]
  have "tables_wf abi ?ts" by (rule close_batch_wf [OF wf cond])
  note w' = tables_wfD [OF this]
  have same: "row_batch ?ts r = row_batch ts r" for r
    by (simp add: row_batch_def accruals_of_def close_batch_rows)
  have row: "bm_get (rx_batches ?ts) j = Some row \<longleftrightarrow> bm_get (rx_batches ts) j = Some row \<and> j \<noteq> i"
    if "bw_open row" for j row
    using that cond by (auto simp: close_batch_rows split: option.splits if_splits)
  have "table_opened ?ts k = Some d \<longleftrightarrow>
      (\<exists>j row. bm_get (rx_batches ts) j = Some row \<and> j \<noteq> i \<and> bw_open row \<and> bw_strategy row = k \<and> d = row_batch ts (j, row))"
    unfolding table_opened_iff [OF w'(1)] same using row by blast
  also have "\<dots> \<longleftrightarrow> table_opened ts k = Some d \<and> rb_id d \<noteq> i"
    unfolding table_opened_iff [OF w(1)] by (metis row_batch_sel(1))
  also have "\<dots> \<longleftrightarrow> without i (table_opened ts) k = Some d" by (auto simp: without_def split: option.splits)
  finally show "table_opened ?ts k = Some d \<longleftrightarrow> without i (table_opened ts) k = Some d" .
qed

lemma settlement_rowD:
  assumes "settlement_rows_wf ts" "bm_get (rx_settlements ts) i = Some (st, s)"
  shows "bp_batch_id (rt_plan s) = i" "st = ''settling'' \<or> st = ''executed''"
    "\<exists>row. bm_get (rx_batches ts) i = Some row \<and> (st = ''executed'' \<longrightarrow> \<not> bw_open row)"
  using assms unfolding settlement_rows_wf_def by blast+

lemma rebate_close_view:
  assumes "tables_wf abi (rd_tables db)" "rebate_close i db = (r, db')"
  shows "tables_wf abi (rd_tables db') \<and> table_settling (rd_tables db') = table_settling (rd_tables db) \<and>
    table_opened (rd_tables db') = (if isl r then table_opened (rd_tables db) else without i (table_opened (rd_tables db)))"
  using assms(2) unfolding rebate_close_def
proof (cases rule: rebate_tx_cases)
  case (worked x)
  then have "rd_tables db' = close_batch bw_open i (rd_tables db)" by simp
  then show ?thesis
    using worked(1) close_batch_wf [OF assms(1)] close_batch_view [OF assms(1)]
    by (simp add: table_settling_def fun_eq_iff close_batch_rows)
qed (use assms(1) in simp_all)

lemma finish_settlement_view:
  assumes wf: "tables_wf abi (rd_tables db)" and run: "finish_settlement i db = (r, db')"
  shows "tables_wf abi (rd_tables db') \<and>
    (if isl r then table_opened (rd_tables db') = table_opened (rd_tables db) \<and>
        table_settling (rd_tables db') = table_settling (rd_tables db)
     else table_opened (rd_tables db') = without i (table_opened (rd_tables db)) \<and>
        table_settling (rd_tables db') = (table_settling (rd_tables db))(i := None))"
  using run unfolding finish_settlement_def
proof (cases rule: rebate_tx_cases)
  case (worked x)
  let ?ts = "rd_tables db"
  obtain st s where g: "bm_get (rx_settlements ?ts) i = Some (st, s)" "st \<in> {''settling'', ''executed''}"
    and ts': "rd_tables db' = close_batch (\<lambda>_. True) i
      (if st = ''settling'' then ?ts\<lparr>rx_settlements := bm_insert i (''executed'', s) (rx_settlements ?ts)\<rparr> else ?ts)"
    using worked(2) by (auto split: option.splits if_splits)
  note w = tables_wfD [OF wf] and d = settlement_rowD [OF tables_wfD(3) [OF wf]]
  let ?ts1 = "close_batch (\<lambda>_. True) i ?ts"
  let ?ts2 = "?ts1\<lparr>rx_settlements := bm_insert i (''executed'', s) (rx_settlements ?ts)\<rparr>"
  have eq: "rd_tables db' = (if st = ''settling'' then ?ts2 else ?ts1)"
    unfolding ts' by (auto simp: close_batch_def split: option.splits)
  have w1: "tables_wf abi ?ts1" by (rule close_batch_wf [OF wf]) simp
  have "settlement_rows_wf ?ts2"
    using tables_wfD(3) [OF w1] d(1,3) [OF g(1)]
    by (auto simp: settlement_rows_wf_def close_batch_rows split: if_splits)
  then have w2: "tables_wf abi ?ts2"
    using tables_wfD(1,2) [OF w1] tables_view_cong(2,3) [of ?ts2 ?ts1] by (simp add: tables_wf_def)
  have "table_opened (rd_tables db') = without i (table_opened ?ts)"
    using close_batch_view [OF wf, of "\<lambda>_. True" i] tables_view_cong(1) [of ?ts2 ?ts1] by (simp add: eq)
  moreover have "table_settling (rd_tables db') = (table_settling ?ts)(i := None)"
    using g by (auto simp: eq table_settling_def fun_eq_iff close_batch_rows)
  ultimately show ?thesis using worked(1) w1 w2 by (simp add: eq)
qed (use wf in simp_all)

lemma insert_settlement_view:
  assumes wf: "tables_wf abi (rd_tables db)" and run: "insert_settlement x db = (r, db')"
  defines "i \<equiv> bp_batch_id (rt_plan x)"
  shows "tables_wf abi (rd_tables db') \<and> table_opened (rd_tables db') = table_opened (rd_tables db) \<and>
    (rd_tables db' = rd_tables db \<or> bm_get (rx_settlements (rd_tables db)) i = None \<and>
       rx_settlements (rd_tables db') = bm_insert i (''settling'', x) (rx_settlements (rd_tables db)))"
  using run unfolding insert_settlement_def
proof (cases rule: rebate_tx_cases)
  case (worked u)
  let ?ts = "rd_tables db" and ?ts' = "rd_tables db'"
  show ?thesis
  proof (cases "bm_contains (rx_settlements ?ts) i")
    case True
    then show ?thesis using worked(2) wf by (simp add: i_def Let_def)
  next
    case False
    then obtain row where row: "bm_get (rx_batches ?ts) i = Some row"
      and ts': "?ts' = ?ts\<lparr>rx_settlements := bm_insert i (''settling'', x) (rx_settlements ?ts)\<rparr>"
      using worked(2) by (cases "bm_get (rx_batches ?ts) i") (auto simp: i_def Let_def bm_get_None_iff split: if_splits)
    have "settlement_rows_wf ?ts'"
      using tables_wfD(3) [OF wf] row by (auto simp: ts' settlement_rows_wf_def i_def)
    then have "tables_wf abi ?ts'" using tables_wfD(1,2) [OF wf] tables_view_cong(2,3) [of ?ts' ?ts]
      by (simp add: tables_wf_def ts')
    moreover have "table_opened ?ts' = table_opened ?ts" by (rule tables_view_cong(1)) (simp_all add: ts')
    ultimately show ?thesis using False by (simp add: ts' bm_get_None_iff)
  qed
qed (use wf in simp_all)

lemma begin_settlement_view:
  assumes wf: "tables_wf abi (rd_tables db)" and run: "begin_settlement x db = (r, db')"
  defines "i \<equiv> bp_batch_id (rt_plan x)"
  shows "tables_wf abi (rd_tables db') \<and> table_opened (rd_tables db') = table_opened (rd_tables db) \<and>
    (table_settling (rd_tables db') = table_settling (rd_tables db) \<or>
     table_settling (rd_tables db) i = None \<and>
     table_settling (rd_tables db') = (table_settling (rd_tables db))(i \<mapsto> x)) \<and>
    (\<forall>k b. r = Inr () \<longrightarrow> table_opened (rd_tables db) k = Some b \<longrightarrow> rb_id b = i \<longrightarrow>
      (\<exists>y. table_settling (rd_tables db') i = Some y \<and> same_settlement y x))"
proof (cases "rebate_i64 (rt_executed_at x)")
  case (Inl e)
  then show ?thesis using wf run by (auto simp: begin_settlement_def)
next
  case (Inr n)
  obtain r1 db1 where ins: "insert_settlement x db = (r1, db1)" by (cases "insert_settlement x db")
  note v = insert_settlement_view [OF wf ins, folded i_def]
  let ?read = "rebate_query (\<lambda>ts. Inr (bm_get (rx_settlements ts) i))"
  have tables: "rd_tables db' = rd_tables db1 \<and>
      (r = Inr () \<longrightarrow> (\<exists>st y. bm_get (rx_settlements (rd_tables db1)) i = Some (st, y) \<and> same_settlement y x))"
  proof (cases r1)
    case (Inl e)
    then show ?thesis using run Inr ins by (auto simp: begin_settlement_def ebind_def)
  next
    case r1: (Inr u)
    obtain r2 db2 where q: "?read db1 = (r2, db2)" by (cases "?read db1")
    show ?thesis
      using run Inr ins r1 q rebate_query_cases [OF q]
      by (cases r2) (auto simp: begin_settlement_def ebind_def i_def same_settlement_def split: option.splits if_splits)
  qed
  have view: "table_settling (rd_tables db1) = table_settling (rd_tables db) \<or>
      table_settling (rd_tables db) i = None \<and> table_settling (rd_tables db1) = (table_settling (rd_tables db))(i \<mapsto> x)"
    using v by (auto simp: table_settling_def fun_eq_iff)
  have "\<exists>y. table_settling (rd_tables db') i = Some y \<and> same_settlement y x"
    if ok: "r = Inr ()" and op: "table_opened (rd_tables db) k = Some b" "rb_id b = i" for k b
  proof -
    obtain st y where y: "bm_get (rx_settlements (rd_tables db1)) i = Some (st, y)" "same_settlement y x"
      using tables ok by blast
    have "table_opened (rd_tables db1) k = Some b" using v op(1) by simp
    then obtain row where "bm_get (rx_batches (rd_tables db1)) i = Some row" "bw_open row"
      using table_opened_iff tables_wfD(1) v op(2) by (metis row_batch_sel(1))
    then have "st = ''settling''" using settlement_rowD(2,3) [OF tables_wfD(3) y(1)] v by auto
    then show ?thesis using y tables by (simp add: table_settling_def)
  qed
  then show ?thesis using v view tables by auto
qed

section \<open>Reads\<close>

lemma table_settling_iff: "table_settling ts i = Some x \<longleftrightarrow> bm_get (rx_settlements ts) i = Some (''settling'', x)"
  by (auto simp: table_settling_def split: option.splits)

lemma pending_settlements_view:
  assumes wf: "tables_wf abi (rd_tables db)" and run: "pending_settlements db = (r, db')"
  shows "rd_tables db' = rd_tables db \<and>
    (\<forall>xs. r = Inr xs \<longrightarrow> set xs = ran (table_settling (rd_tables db)) \<and> distinct (map (\<lambda>x. bp_batch_id (rt_plan x)) xs))"
proof (intro conjI allI impI)
  let ?ts = "rd_tables db"
  let ?rows = "filter (\<lambda>(_, st, _). st = ''settling'') (rx_settlements ?ts)"
  show "rd_tables db' = ?ts" using rebate_query_cases(1) run unfolding pending_settlements_def by blast
  fix xs assume "r = Inr xs"
  then have xs: "xs = map (\<lambda>(_, _, s). s) ?rows"
    using rebate_query_cases(2) [OF run [unfolded pending_settlements_def]] by simp
  have bw: "bm_wf (rx_settlements ?ts)" using tables_wfD(3) [OF wf] by (simp add: settlement_rows_wf_def)
  have "x \<in> ran (table_settling ?ts) \<longleftrightarrow> (\<exists>i. (i, ''settling'', x) \<in> set (rx_settlements ?ts))" for x
    unfolding ran_def bm_get_iff [OF bw, symmetric] by (auto simp: table_settling_iff)
  moreover have "x \<in> set xs \<longleftrightarrow> (\<exists>i. (i, ''settling'', x) \<in> set (rx_settlements ?ts))" for x
    unfolding xs by force
  ultimately show "set xs = ran (table_settling ?ts)" by blast
  have "map (\<lambda>x. bp_batch_id (rt_plan x)) xs = map fst ?rows"
    unfolding xs map_map comp_def
  proof (rule map_cong [OF refl])
    fix e assume "e \<in> set ?rows"
    moreover obtain i st s where e: "e = (i, st, s)" by (rule prod_cases3)
    ultimately have "bm_get (rx_settlements ?ts) i = Some (st, s)" by (auto simp: bm_get_iff [OF bw])
    then show "bp_batch_id (rt_plan (case e of (_, _, s) \<Rightarrow> s)) = fst e"
      using settlement_rowD(1) [OF tables_wfD(3) [OF wf]] by (simp add: e)
  qed
  moreover have "distinct (map fst ?rows)" using bm.distinct_keys [OF bw] by (simp add: distinct_map_filter)
  ultimately show "distinct (map (\<lambda>x. bp_batch_id (rt_plan x)) xs)" by (simp only:)
qed

definition row_readable :: "filler_abi \<Rightarrow> rebate_tables \<Rightarrow> rebate_batch_id \<times> batch_row \<Rightarrow> bool" where
  "row_readable abi ts r \<longleftrightarrow>
     (\<exists>st. bw_payload (snd r) = Some st \<and> bw_state (snd r) = stored_name st \<and> stored_readable abi st) \<and>
     (\<forall>(_, j, a) \<in> set (rx_accruals ts). j = fst r \<longrightarrow> ra_strategy a = bw_strategy (snd r))"

lemma row_into_batch_view:
  assumes "row_readable abi (rd_tables db) (i, row)" and "row_into_batch abi i row db = (r, db')"
  shows "rd_tables db' = rd_tables db \<and> (isl r \<or> r = Inr (row_batch (rd_tables db) (i, row))) \<and>
    (rd_faults db = [] \<longrightarrow> rd_faults db' = [] \<and> \<not> isl r)"
proof -
  obtain st where st: "bw_payload row = Some st" "bw_state row = stored_name st" "stored_state abi st = Inr st"
    using assms(1) by (auto simp: row_readable_def stored_readable_def)
  let ?f = "\<lambda>ts. Inr (map (\<lambda>(_, _, a). a) (filter (\<lambda>(_, j, _). j = i) (rx_accruals ts)))"
  obtain r1 db1 where q: "rebate_query ?f db = (r1, db1)" by (cases "rebate_query ?f db")
  note v = rebate_query_cases [OF q]
  have ok: "\<not> (\<exists>a \<in> set (map (\<lambda>(_, _, a). a) (filter (\<lambda>(_, j, _). j = i) (rx_accruals (rd_tables db)))). ra_strategy a \<noteq> bw_strategy row)"
    using assms(1) by (fastforce simp: row_readable_def)
  have calm: "rd_faults db = [] \<Longrightarrow> rd_faults db1 = [] \<and> \<not> isl r1"
    using rebate_query_calm [of db ?f] q by auto
  show ?thesis
  proof (cases r1)
    case (Inl e)
    then show ?thesis using assms(2) st q v(1) calm by (auto simp: row_into_batch_def ebind_def)
  next
    case (Inr as)
    then have as: "as = map (\<lambda>(_, _, a). a) (filter (\<lambda>(_, j, _). j = i) (rx_accruals (rd_tables db)))"
      using v(2) by simp
    have own: "\<not> (\<exists>a \<in> set as. ra_strategy a \<noteq> bw_strategy row)" unfolding as by (rule ok)
    have "row_into_batch abi i row db = (Inr \<lparr>rb_id = i, rb_strategy = bw_strategy row, rb_pair = bw_pair row,
        rb_accruals = fold (\<lambda>a. bm_insert (ra_trade_id a) a) as [], rb_state = st\<rparr>, db1)"
      using st q Inr by (simp add: row_into_batch_def ebind_def if_not_P [OF own])
    then show ?thesis using assms(2) st v(1) calm by (auto simp: row_batch_def accruals_of_def as)
  qed
qed

lemma rows_into_batches_view:
  assumes "\<forall>r \<in> set rows. row_readable abi (rd_tables db) r" and "rows_into_batches abi rows db = (r, db')"
  shows "rd_tables db' = rd_tables db \<and> (isl r \<or> r = Inr (map (row_batch (rd_tables db)) rows)) \<and>
    (rd_faults db = [] \<longrightarrow> rd_faults db' = [] \<and> \<not> isl r)"
  using assms
proof (induction rows arbitrary: db r db')
  case (Cons x rows)
  obtain i row where x: "x = (i, row)" by (cases x)
  obtain r1 db1 where h: "row_into_batch abi i row db = (r1, db1)" by (cases "row_into_batch abi i row db")
  obtain r2 db2 where t: "rows_into_batches abi rows db1 = (r2, db2)" by (cases "rows_into_batches abi rows db1")
  have v: "rd_tables db1 = rd_tables db \<and> (isl r1 \<or> r1 = Inr (row_batch (rd_tables db) (i, row))) \<and>
    (rd_faults db = [] \<longrightarrow> rd_faults db1 = [] \<and> \<not> isl r1)"
    using row_into_batch_view [OF _ h] Cons.prems(1) x by simp
  have u: "rd_tables db2 = rd_tables db1 \<and> (isl r2 \<or> r2 = Inr (map (row_batch (rd_tables db1)) rows)) \<and>
    (rd_faults db1 = [] \<longrightarrow> rd_faults db2 = [] \<and> \<not> isl r2)"
    using Cons.IH [OF _ t] Cons.prems(1) v by simp
  show ?case
    using Cons.prems(2) h t v u by (cases r1; cases r2) (auto simp: x ebind_def)
qed simp

lemma rebate_open_batches_view:
  assumes wf: "tables_wf abi (rd_tables db)" and run: "rebate_open_batches abi db = (r, db')"
  shows "rd_tables db' = rd_tables db \<and>
    (\<forall>bs. r = Inr bs \<longrightarrow> set bs = ran (table_opened (rd_tables db)) \<and> distinct (map rb_strategy bs)) \<and>
    (rd_faults db = [] \<longrightarrow> rd_faults db' = [] \<and> \<not> isl r)"
proof -
  let ?ts = "rd_tables db" and ?f = "\<lambda>ts. Inr (filter (\<lambda>(_, row). bw_open row) (rx_batches ts))"
  let ?rows = "filter (\<lambda>(_, row). bw_open row) (rx_batches ?ts)"
  note w = tables_wfD [OF wf]
  have bw: "bm_wf (rx_batches ?ts)" "bm_wf (rx_accruals ?ts)"
    using w(1,2) by (simp_all add: batch_rows_wf_def accrual_rows_wf_def)
  have rows: "r \<in> set ?rows \<longleftrightarrow> bm_get (rx_batches ?ts) (fst r) = Some (snd r) \<and> bw_open (snd r)" for r
    by (cases r) (auto simp: bm_get_iff [OF bw(1)])
  have readable: "row_readable abi ?ts r" if "r \<in> set ?rows" for r
  proof -
    obtain i row where "r = (i, row)" by (cases r)
    with that [unfolded rows] have r: "r = (i, row)" "bm_get (rx_batches ?ts) i = Some row" "bw_open row" by simp_all
    have "ra_strategy a = bw_strategy row" if "(key, i, a) \<in> set (rx_accruals ?ts)" for key a
    proof -
      have "bm_get (rx_accruals ?ts) (fst key, snd key) = Some (i, a)" using that by (simp add: bm_get_iff [OF bw(2)])
      from accrual_rowD(2,3) [OF w(2) this] show ?thesis using r(2) by simp
    qed
    then show ?thesis using w(1) r by (auto simp: row_readable_def batch_rows_wf_def)
  qed
  have set: "set (map (row_batch ?ts) ?rows) = ran (table_opened ?ts)"
    unfolding ran_def table_opened_iff [OF w(1)] set_map image_def
    by (simp only: Bex_def rows split_paired_Ex) auto
  have "map rb_strategy (map (row_batch ?ts) ?rows) = map (\<lambda>r. bw_strategy (snd r)) ?rows" by (simp add: row_batch_def)
  moreover have "distinct (map (\<lambda>r. bw_strategy (snd r)) ?rows)"
  proof (rule distinct_map [THEN iffD2, OF conjI])
    show "distinct ?rows" using bm.distinct_keys [OF bw(1)] by (simp add: distinct_map)
    show "inj_on (\<lambda>r. bw_strategy (snd r)) (set ?rows)"
    proof (rule inj_onI)
      fix x y assume a: "x \<in> set ?rows" "y \<in> set ?rows" "bw_strategy (snd x) = bw_strategy (snd y)"
      have "fst x = fst y" using w(1) a unfolding batch_rows_wf_def rows by blast
      then show "x = y" using a(1,2) unfolding rows by (simp add: prod_eq_iff)
    qed
  qed
  ultimately have distinct: "distinct (map rb_strategy (map (row_batch ?ts) ?rows))" by (simp only:)
  obtain r1 db1 where q: "rebate_query ?f db = (r1, db1)" by (cases "rebate_query ?f db")
  note v = rebate_query_cases [OF q]
  have calm: "rd_faults db = [] \<Longrightarrow> rd_faults db1 = [] \<and> \<not> isl r1" using rebate_query_calm [of db ?f] q by auto
  show ?thesis
  proof (cases r1)
    case (Inl e)
    then show ?thesis using run q v(1) calm by (auto simp: rebate_open_batches_def ebind_def)
  next
    case (Inr x)
    then have "x = ?rows" using v(2) by simp
    then have "rows_into_batches abi ?rows db1 = (r, db')"
      using run q Inr by (simp add: rebate_open_batches_def ebind_def)
    from rows_into_batches_view [OF _ this] have "rd_tables db' = rd_tables db1 \<and> (isl r \<or> r = Inr (map (row_batch (rd_tables db1)) ?rows)) \<and>
        (rd_faults db1 = [] \<longrightarrow> rd_faults db' = [] \<and> \<not> isl r)"
      using readable v(1) by simp
    then show ?thesis using v(1) set distinct calm by auto
  qed
qed

section \<open>The adapter meets the contract\<close>

definition db_wf :: "filler_abi \<Rightarrow> rebate_db \<Rightarrow> bool" where
  "db_wf abi db = tables_wf abi (rd_tables db)"

definition db_opened :: "rebate_db \<Rightarrow> strategy_key \<Rightarrow> rebate_batch option" where
  "db_opened db = table_opened (rd_tables db)"

definition db_settling :: "rebate_db \<Rightarrow> rebate_batch_id \<Rightarrow> rebate_settlement option" where
  "db_settling db = table_settling (rd_tables db)"

definition db_calm :: "rebate_db \<Rightarrow> bool" where
  "db_calm db \<longleftrightarrow> rd_faults db = []"

lemmas db_views = db_wf_def db_opened_def db_settling_def db_calm_def

lemma calm_tx:
  assumes "rd_faults db = []" "f (rd_tables db) = Inr (x, ts)"
  shows "\<exists>db'. rebate_tx f db = (Inr x, db') \<and> db_calm db'"
  using rebate_tx_calm [of db f x ts] assms by (simp add: db_calm_def)

lemma persist_nothing:
  "\<forall>a \<in> set as. bm_get (rx_accruals ts) (rb_strategy b, ra_trade_id a) = Some (rb_id b, a) \<Longrightarrow>
   try_fold (persist_accrual b) ts as = Inr ts"
  by (induction as) (simp_all add: persist_accrual_def rbind_def)

text \<open>Without faults, a new state for an open batch with the stored accruals is accepted.\<close>

lemma save_calm:
  assumes wf: "db_wf abi db" and calm: "db_calm db" and b: "keyed b"
    and d: "db_opened db (rb_strategy b) = Some d" "rb_id d = rb_id b" "rb_pair d = rb_pair b" "rb_accruals d = rb_accruals b"
  shows "\<exists>db'. rebate_save b db = (Inr (), db') \<and> db_calm db'"
proof -
  let ?ts = "rd_tables db"
  note w = tables_wfD [OF wf [unfolded db_wf_def]]
  obtain row where row: "bm_get (rx_batches ?ts) (rb_id b) = Some row" "bw_open row" "bw_strategy row = rb_strategy b"
    "d = row_batch ?ts (rb_id b, row)"
    using d(1,2) table_opened_iff [OF w(1)] by (auto simp: db_opened_def)
  then have op: "open_row (rb_strategy b) ?ts = Some (rb_id b, row)" using open_row_iff [OF w(1)] by simp
  have same: "insert_batch b ?ts = ?ts" using op by (simp add: insert_batch_def)
  have stored: "bm_get (rx_accruals ?ts) (rb_strategy b, ra_trade_id a) = Some (rb_id b, a)"
    if "a \<in> set (bm_values (rb_accruals b))" for a
  proof -
    have "bm_get (accruals_of ?ts (rb_id b)) (ra_trade_id a) = Some a"
      using that d(4) row(4) by (simp add: keyed_values [OF b] bm_get_iff [OF keyedD(1) [OF b]])
    then show ?thesis using accruals_of_get [OF w(2) row(1)] row(3) by simp
  qed
  show ?thesis
    unfolding rebate_save_def
    by (rule calm_tx)
      (use calm row d(3) op same persist_nothing [of "bm_values (rb_accruals b)" ?ts b] stored in
        \<open>auto simp: db_calm_def Let_def rbind_def\<close>)
qed

lemma finish_calm:
  assumes "db_calm db" "db_settling db i = Some x"
  shows "\<exists>db'. finish_settlement i db = (Inr (), db') \<and> db_calm db'"
  unfolding finish_settlement_def
  by (rule calm_tx) (use assms in \<open>simp_all add: db_calm_def db_settling_def table_settling_iff\<close>)

lemma pending_calm:
  assumes "db_calm db"
  shows "\<exists>xs db'. pending_settlements db = (Inr xs, db') \<and> db_calm db'"
  unfolding pending_settlements_def using assms by (simp add: db_calm_def rebate_query_total)

lemma open_calm:
  assumes "db_wf abi db" "db_calm db"
  shows "\<exists>bs db'. rebate_open_batches abi db = (Inr bs, db') \<and> db_calm db'"
proof -
  obtain r db' where run: "rebate_open_batches abi db = (r, db')" by (cases "rebate_open_batches abi db")
  have "rd_faults db' = [] \<and> \<not> isl r"
    using rebate_open_batches_view [OF assms(1) [unfolded db_wf_def] run] assms(2) by (simp add: db_calm_def)
  then show ?thesis using run by (cases r) (simp_all add: db_calm_def)
qed

lemma cursor_view:
  "scan_cursor c db = (rc, db') \<Longrightarrow> rd_tables db' = rd_tables db"
  "save_scan_cursor c n db = (r, db') \<Longrightarrow> rx_batches (rd_tables db') = rx_batches (rd_tables db) \<and>
     rx_accruals (rd_tables db') = rx_accruals (rd_tables db) \<and> rx_settlements (rd_tables db') = rx_settlements (rd_tables db)"
proof -
  show "scan_cursor c db = (rc, db') \<Longrightarrow> rd_tables db' = rd_tables db"
    by (cases "rebate_i64 c") (auto simp: scan_cursor_def dest: rebate_query_cases(1))
  show "save_scan_cursor c n db = (r, db') \<Longrightarrow> rx_batches (rd_tables db') = rx_batches (rd_tables db) \<and>
     rx_accruals (rd_tables db') = rx_accruals (rd_tables db) \<and> rx_settlements (rd_tables db') = rx_settlements (rd_tables db)"
    by (cases "rebate_i64 c"; cases "rebate_i64 n")
      (auto simp: save_scan_cursor_def eq_commute [of _ "rd_tables db'"] elim!: rebate_tx_cases split: option.splits if_splits)
qed

lemma cursor_call:
  assumes "db_wf abi db" "save_scan_cursor c n db = (r, db')"
  shows "db_wf abi db' \<and> db_opened db' = db_opened db \<and> db_settling db' = db_settling db"
proof -
  note v = cursor_view(2) [OF assms(2)]
  have "tables_wf abi (rd_tables db') = tables_wf abi (rd_tables db)"
    using tables_view_cong(2,3) [of "rd_tables db'" "rd_tables db"] v
    by (simp add: tables_wf_def settlement_rows_wf_def)
  then show ?thesis
    using assms(1) v tables_view_cong(1) [of "rd_tables db'" "rd_tables db"] by (simp add: db_views table_settling_def fun_eq_iff)
qed

lemma save_view:
  assumes "db_wf abi db" "rebate_save b db = (r, db')"
  shows "isl r \<Longrightarrow> rd_tables db' = rd_tables db"
    and "keyed b \<Longrightarrow> stored_readable abi (rb_state b) \<Longrightarrow>
      (\<And>d. db_opened db (rb_strategy b) = Some d \<Longrightarrow> set (rb_accruals d) \<subseteq> set (rb_accruals b)) \<Longrightarrow> \<not> isl r \<Longrightarrow>
      db_wf abi db' \<and> db_opened db' = (db_opened db)(rb_strategy b \<mapsto> b) \<and> db_settling db' = db_settling db \<and>
      grows_to (db_opened db (rb_strategy b)) b"
proof -
  have wf: "tables_wf abi (rd_tables db)" using assms(1) by (simp add: db_wf_def)
  have c: "isl r \<and> rd_tables db' = rd_tables db \<or> r = Inr () \<and> saved b (rd_tables db) (rd_tables db')"
    by (rule rebate_save_cases [OF assms(2) tables_wfD(1) [OF wf]])
  then show "isl r \<Longrightarrow> rd_tables db' = rd_tables db" by auto
  assume b: "keyed b" "stored_readable abi (rb_state b)" and sub:
    "\<And>d. db_opened db (rb_strategy b) = Some d \<Longrightarrow> set (rb_accruals d) \<subseteq> set (rb_accruals b)" and "\<not> isl r"
  then have s: "saved b (rd_tables db) (rd_tables db')" using c by blast
  show "db_wf abi db' \<and> db_opened db' = (db_opened db)(rb_strategy b \<mapsto> b) \<and> db_settling db' = db_settling db \<and>
      grows_to (db_opened db (rb_strategy b)) b"
    using saved_wf [OF s wf b] saved_view [OF s wf b] sub savedD(2) [OF s]
    by (simp add: db_views table_settling_def fun_eq_iff)
qed

interpretation sqlite_rebates: rebate_store "sqlite_rebate_ops abi" db_opened db_settling "stored_readable abi" "db_wf abi" db_calm
proof (unfold_locales, unfold sqlite_rebate_ops_def rebate_ops.simps)
  fix s k b k' b' i x e s' u r rp r' c n rc d
  show "db_wf abi s \<Longrightarrow> db_opened s k = Some b \<Longrightarrow> rb_strategy b = k \<and> keyed b \<and> stored_readable abi (rb_state b)"
    unfolding db_views by (rule table_opened_facts)
  show "db_wf abi s \<Longrightarrow> db_opened s k = Some b \<Longrightarrow> db_opened s k' = Some b' \<Longrightarrow> rb_id b = rb_id b' \<Longrightarrow> k = k'"
    unfolding db_views by (rule table_opened_ids)
  show "db_wf abi s \<Longrightarrow> db_settling s i = Some x \<Longrightarrow> bp_batch_id (rt_plan x) = i"
    unfolding db_views table_settling_iff by (rule settlement_rowD(1) [OF tables_wfD(3)])
  show "db_wf abi s \<Longrightarrow> rebate_save b s = (Inl e, s') \<Longrightarrow>
      db_wf abi s' \<and> db_opened s' = db_opened s \<and> db_settling s' = db_settling s"
    using save_view(1) [of abi s b "Inl e" s'] by (simp add: db_views)
  show "db_wf abi s \<Longrightarrow> keyed b \<Longrightarrow> stored_readable abi (rb_state b) \<Longrightarrow>
      (\<And>d. db_opened s (rb_strategy b) = Some d \<Longrightarrow> set (rb_accruals d) \<subseteq> set (rb_accruals b)) \<Longrightarrow>
      rebate_save b s = (Inr u, s') \<Longrightarrow>
      db_wf abi s' \<and> db_opened s' = (db_opened s)(rb_strategy b \<mapsto> b) \<and> db_settling s' = db_settling s \<and>
      grows_to (db_opened s (rb_strategy b)) b"
    by (rule save_view(2) [where r = "Inr u"]) (assumption | simp (no_asm))+
  show "db_wf abi s \<Longrightarrow> save_scan_cursor c n s = (r, s') \<Longrightarrow>
      db_wf abi s' \<and> db_opened s' = db_opened s \<and> db_settling s' = db_settling s"
    by (rule cursor_call)
  show "db_wf abi s \<Longrightarrow> db_calm s \<Longrightarrow> \<exists>bs s'. rebate_open_batches abi s = (Inr bs, s') \<and> db_calm s'"
    by (rule open_calm)
  show "db_wf abi s \<Longrightarrow> pending_settlements s = (rp, s') \<Longrightarrow>
      db_wf abi s' \<and> db_opened s' = db_opened s \<and> db_settling s' = db_settling s \<and>
      (\<forall>xs. rp = Inr xs \<longrightarrow> set xs = ran (db_settling s) \<and> distinct (map (\<lambda>x. bp_batch_id (rt_plan x)) xs))"
    unfolding db_views using pending_settlements_view [of abi s rp s'] by simp
  show "db_wf abi s \<Longrightarrow> rebate_open_batches abi s = (r', s') \<Longrightarrow>
      db_wf abi s' \<and> db_opened s' = db_opened s \<and> db_settling s' = db_settling s \<and>
      (\<forall>bs. r' = Inr bs \<longrightarrow> set bs = ran (db_opened s) \<and> distinct (map rb_strategy bs))"
    unfolding db_views using rebate_open_batches_view [of abi s r' s'] by simp
  show "db_wf abi s \<Longrightarrow> scan_cursor c s = (rc, s') \<Longrightarrow>
      db_wf abi s' \<and> db_opened s' = db_opened s \<and> db_settling s' = db_settling s"
    unfolding db_views using cursor_view(1) [of c s rc s'] by simp
  show "db_wf abi s \<Longrightarrow> db_calm s \<Longrightarrow> keyed b \<Longrightarrow> db_opened s (rb_strategy b) = Some d \<Longrightarrow>
        rb_id d = rb_id b \<Longrightarrow> rb_pair d = rb_pair b \<Longrightarrow> rb_accruals d = rb_accruals b \<Longrightarrow>
        \<exists>s'. rebate_save b s = (Inr (), s') \<and> db_calm s'"
    by (rule save_calm)
  show "db_calm s \<Longrightarrow> db_settling s i = Some x \<Longrightarrow> \<exists>s'. finish_settlement i s = (Inr (), s') \<and> db_calm s'"
    by (rule finish_calm)
  show "db_calm s \<Longrightarrow> \<exists>xs s'. pending_settlements s = (Inr xs, s') \<and> db_calm s'"
    by (rule pending_calm)
qed (unfold db_views, (rule rebate_close_view begin_settlement_view finish_settlement_view; assumption)+)

end
