(* ===== verification/Rebate_Holds.thy ===== *)
theory Rebate_Holds
  imports Rebate_Laws
begin

text \<open>
  What ties the three records of rebate work together: the batches in memory, the durable batches and
  settlements, and the pending holds of the ledger. The invariant is stated on plain maps, so that
  every change the service makes (a save, a release, a reservation, a settlement) is one small lemma
  about them; Rebate_System lifts these lemmas to the operations.
\<close>

section \<open>Pending holds\<close>

type_synonym hold_map = "reservation_id \<Rightarrow> (reservation_owner \<times> reservation_source list) option"

definition hold :: "ledger \<Rightarrow> hold_map" where
  "hold l i =
     (case bm_get (lg_reservations l) i of
        Some r \<Rightarrow> if r_state r = StPending then Some (r_owner r, r_sources r) else None
      | None \<Rightarrow> None)"

lemma hold_cong: "lg_reservations l' = lg_reservations l \<Longrightarrow> hold l' = hold l"
  by (simp add: hold_def fun_eq_iff)

lemma reservation_sources_hold: "reservation_sources sv i = map_option snd (hold (sv_ledger sv) i)"
  by (simp add: reservation_sources_def lookup_reservation_def hold_def split: option.split)

lemma transition_hold: "st \<noteq> StPending \<Longrightarrow> hold (transition l i st) = (hold l)(i := None)"
  by (auto simp: hold_def transition_def fun_eq_iff split: option.splits)

lemma transition_hold_upd:
  assumes "st \<noteq> StPending"
  shows "hold (transition (l\<lparr>lg_held := h, lg_filled := f\<rparr>) i st) = (hold l)(i := None)"
    and "hold (transition (l\<lparr>lg_held := h\<rparr>) i st) = (hold l)(i := None)"
  using transition_hold [OF assms] hold_cong [of "l\<lparr>lg_held := h, lg_filled := f\<rparr>" l] hold_cong [of "l\<lparr>lg_held := h\<rparr>" l]
  by simp_all

lemma command_hold:
  "void l i = (r, l') \<Longrightarrow> hold l' = (if isl r then hold l else (hold l)(i := None))"
  "expire l i = (r, l') \<Longrightarrow> hold l' = (if isl r then hold l else (hold l)(i := None))"
  "post l i fs = (r, l') \<Longrightarrow> hold l' = (if isl r then hold l else (hold l)(i := None))"
  by (cases r; auto dest: error_leaves_ledger elim!: post_Inr simp: release_Inr release_sources_def transition_hold_upd)+

lemma durable_first_hold:
  assumes "durable_first persist cmd sv = (res, sv')"
    and "\<And>r l'. cmd (sv_ledger sv) = (r, l') \<Longrightarrow>
      hold l' = (if isl r then hold (sv_ledger sv) else (hold (sv_ledger sv))(i := None))"
  shows "hold (sv_ledger sv') =
    (if isl res then hold (sv_ledger sv) else (hold (sv_ledger sv))(i := None))"
proof (cases "persist (sv_store sv)")
  case (Pair r st)
  show ?thesis
  proof (cases "cmd (sv_ledger sv)")
    case cmd: (Pair r' l')
    then show ?thesis using assms(1) assms(2) [OF cmd] Pair by (cases r; cases r') (auto simp: durable_first_def)
  qed
qed

lemma service_hold:
  "service_void ops i sv = (res, sv') \<Longrightarrow>
     hold (sv_ledger sv') = (if isl res then hold (sv_ledger sv) else (hold (sv_ledger sv))(i := None))"
  "service_expire ops i sv = (res, sv') \<Longrightarrow>
     hold (sv_ledger sv') = (if isl res then hold (sv_ledger sv) else (hold (sv_ledger sv))(i := None))"
  "service_post ops i fs sv = (res, sv') \<Longrightarrow>
     hold (sv_ledger sv') = (if isl res then hold (sv_ledger sv) else (hold (sv_ledger sv))(i := None))"
  unfolding service_void_def service_expire_def service_post_def
  by (erule durable_first_hold, erule command_hold)+

lemma service_reserve_rebate_hold:
  assumes "service_reserve_rebate ops budgets now i batch ss ttl sv = (res, sv')"
  shows "hold (sv_ledger sv') =
      (if isl res then hold (sv_ledger sv) else (hold (sv_ledger sv))(i \<mapsto> (OwnerRebate batch, ss)))"
    and "\<not> isl res \<Longrightarrow> hold (sv_ledger sv) i = None"
proof -
  have "isl res \<and> lg_reservations (sv_ledger sv') = lg_reservations (sv_ledger sv) \<or>
      \<not> isl res \<and> bm_get (lg_reservations (sv_ledger sv)) i = None \<and>
      lg_reservations (sv_ledger sv') =
        bm_insert i (for_rebate i batch ss (sat_add64 now ttl)) (lg_reservations (sv_ledger sv))"
    using assms
    by (auto simp: service_reserve_rebate_def reserve_owned_def Let_def for_rebate_def reservation_new_def
        can_reserve_Inr restore_def bm_get_None_iff split: sum.splits prod.splits)
  then show "hold (sv_ledger sv') =
      (if isl res then hold (sv_ledger sv) else (hold (sv_ledger sv))(i \<mapsto> (OwnerRebate batch, ss)))"
    and "\<not> isl res \<Longrightarrow> hold (sv_ledger sv) i = None"
    by (auto simp: hold_def fun_eq_iff for_rebate_def reservation_new_def)
qed

text \<open>With a store that accepts the call, releasing or posting a pending hold succeeds.\<close>

lemma held_is_active:
  assumes "hold l i = Some (ow, ss)"
  obtains r where "bm_get (lg_reservations l) i = Some r" "r_state r = StPending" "is_active (r_state r)"
    "r_owner r = ow" "r_sources r = ss"
  using assms that by (auto simp: hold_def is_active_def split: option.splits if_splits)

lemma service_void_works:
  assumes "hold (sv_ledger sv) i \<noteq> None" "so_void ops i (sv_store sv) = (Inr (), st)"
  shows "\<exists>sv'. service_void ops i sv = (Inr (), sv') \<and> sv_store sv' = st"
proof -
  obtain ow ss where h: "hold (sv_ledger sv) i = Some (ow, ss)" using assms(1) by auto
  obtain r where "bm_get (lg_reservations (sv_ledger sv)) i = Some r" "is_active (r_state r)"
    by (rule held_is_active [OF h]) (rule that)
  then obtain l' where "void (sv_ledger sv) i = (Inr (), l')" using release_Inr(1) by blast
  then show ?thesis using assms(2) by (simp add: service_void_def durable_first_def)
qed

lemma service_post_works:
  assumes "hold (sv_ledger sv) i = Some (ow, ss)" "so_post ops i fs (sv_store sv) = (Inr (), st)"
    and "list_all2 (\<lambda>f s. f \<le> rs_amount s) fs ss"
  shows "\<exists>sv'. service_post ops i fs sv = (Inr (), sv') \<and> sv_store sv' = st"
proof -
  obtain r where r: "bm_get (lg_reservations (sv_ledger sv)) i = Some r" "is_active (r_state r)" "r_sources r = ss"
    by (rule held_is_active [OF assms(1)]) (rule that)
  have "fst (post (sv_ledger sv) i fs) = Inr ()" using post_accepts [OF r(1,2)] assms(3) r(3) by simp
  then obtain l' where "post (sv_ledger sv) i fs = (Inr (), l')" by (cases "post (sv_ledger sv) i fs") simp
  then show ?thesis using assms(2) by (simp add: service_post_def durable_first_def)
qed

lemma held_fills:
  "hold l i = Some (ow, ss) \<Longrightarrow> list_all2 (\<lambda>f s. f \<le> rs_amount s) fs ss \<Longrightarrow> fills_ok l i fs"
  by (auto simp: fills_ok_def hold_def split: option.splits if_splits)

section \<open>The invariant\<close>

type_synonym batch_view = "strategy_key \<Rightarrow> rebate_batch option"
type_synonym settle_view = "rebate_batch_id \<Rightarrow> rebate_settlement option"

text \<open>
  A published execution is backed: its reservation is a pending hold of exactly the plan's inventory,
  owned by its batch, until a durable settlement takes it over.
\<close>

definition backed :: "settle_view \<Rightarrow> hold_map \<Rightarrow> rebate_batch \<Rightarrow> bool" where
  "backed S H b \<longleftrightarrow>
     (\<forall>e. rb_state b = BsReady e \<longrightarrow> re_reservation e \<noteq> 0 \<and>
        (H (re_reservation e) = Some (OwnerRebate (rb_id b), rebate_sources (rb_strategy b) (re_plan e)) \<or>
         H (re_reservation e) = None \<and> S (rb_id b) \<noteq> None))"

definition settles :: "settle_view \<Rightarrow> rebate_batch \<Rightarrow> bool" where
  "settles S b \<longleftrightarrow>
     (\<forall>x. S (rb_id b) = Some x \<longrightarrow> validate_settlement x = Inr () \<and>
        (\<exists>e. rb_state b = BsReady e \<and> rt_plan x = re_plan e \<and> rt_reservation x = re_reservation e))"

text \<open>The pending holds of a batch are its active reservation and nothing else.\<close>

definition owns :: "hold_map \<Rightarrow> rebate_batch \<Rightarrow> bool" where
  "owns H b \<longleftrightarrow>
     (\<forall>r ss. H r = Some (OwnerRebate (rb_id b), ss) \<longrightarrow> active_reservation (rb_state b) = Some r) \<and>
     (\<forall>r. active_reservation (rb_state b) = Some r \<longrightarrow> H r = None \<or> (\<exists>ss. H r = Some (OwnerRebate (rb_id b), ss)))"

definition durable_ok :: "settle_view \<Rightarrow> hold_map \<Rightarrow> rebate_batch \<Rightarrow> bool" where
  "durable_ok S H b \<longleftrightarrow> validate_batch b = Inr () \<and> owns H b \<and> backed S H b \<and> settles S b"

text \<open>
  Memory repeats the durable batch. It may be ahead of it only in taking work back: an interrupted
  preparation is already marked, or already released and guarded.
\<close>

definition mirrors :: "hold_map \<Rightarrow> rebate_batch \<Rightarrow> rebate_batch \<Rightarrow> bool" where
  "mirrors H m d \<longleftrightarrow> m = d\<lparr>rb_state := rb_state m\<rparr> \<and>
     (rb_state m = rb_state d \<or>
      (\<exists>r. interrupted (rb_state d) = Some r \<and>
         (rb_state m = BsInvalidating r \<or> rb_state m = BsGuarded \<and> H r = None)))"

definition slot_ok :: "settle_view \<Rightarrow> hold_map \<Rightarrow> bool \<Rightarrow> rebate_batch option \<Rightarrow> rebate_batch option \<Rightarrow> bool" where
  "slot_ok S H g m d \<longleftrightarrow>
     (case d of
        None \<Rightarrow> m = None
      | Some d' \<Rightarrow> durable_ok S H d' \<and> (\<exists>m'. m = Some m' \<and> mirrors H m' d' \<and> (rb_state m' \<noteq> BsAccumulating \<longrightarrow> g)))"

text \<open>Every rebate hold and every pending settlement belongs to an open batch.\<close>

definition claims_ok :: "batch_view \<Rightarrow> settle_view \<Rightarrow> hold_map \<Rightarrow> bool" where
  "claims_ok V S H \<longleftrightarrow>
     (\<forall>r i ss. H r = Some (OwnerRebate i, ss) \<longrightarrow> (\<exists>k d. V k = Some d \<and> rb_id d = i)) \<and>
     (\<forall>i. S i \<noteq> None \<longrightarrow> (\<exists>k d. V k = Some d \<and> rb_id d = i))"

definition ids_ok :: "batch_view \<Rightarrow> bool" where
  "ids_ok V \<longleftrightarrow>
     (\<forall>k d. V k = Some d \<longrightarrow> rb_strategy d = k) \<and>
     (\<forall>k k' d d'. V k = Some d \<longrightarrow> V k' = Some d' \<longrightarrow> rb_id d = rb_id d' \<longrightarrow> k = k')"

definition rebate_inv :: "batch_view \<Rightarrow> batch_view \<Rightarrow> settle_view \<Rightarrow> hold_map \<Rightarrow> strategy_key set \<Rightarrow> bool" where
  "rebate_inv M V S H G \<longleftrightarrow> ids_ok V \<and> claims_ok V S H \<and> (\<forall>k. slot_ok S H (k \<in> G) (M k) (V k))"

lemma ids_okD:
  assumes "ids_ok V" "V k = Some d"
  shows "rb_strategy d = k" "V k' = Some d' \<Longrightarrow> rb_id d = rb_id d' \<Longrightarrow> k' = k"
  using assms unfolding ids_ok_def by blast+

lemma ownsD:
  assumes "owns H b"
  shows "H r = Some (OwnerRebate (rb_id b), ss) \<Longrightarrow> active_reservation (rb_state b) = Some r"
    "active_reservation (rb_state b) = Some r \<Longrightarrow> H r = None \<or> (\<exists>ss. H r = Some (OwnerRebate (rb_id b), ss))"
  using assms unfolding owns_def by blast+

lemma durable_okD:
  assumes "durable_ok S H b"
  shows "validate_batch b = Inr ()" "owns H b" "backed S H b" "settles S b"
  using assms by (simp_all add: durable_ok_def)

lemma rebate_invD:
  assumes "rebate_inv M V S H G"
  shows "ids_ok V" "claims_ok V S H" "slot_ok S H (k \<in> G) (M k) (V k)"
  using assms by (simp_all add: rebate_inv_def)

lemma rebate_invI:
  assumes "ids_ok V" "claims_ok V S H" "\<And>k. slot_ok S H (k \<in> G) (M k) (V k)"
  shows "rebate_inv M V S H G"
  using assms by (simp add: rebate_inv_def)

lemma slot_SomeD:
  assumes "slot_ok S H g m (Some d)"
  obtains m' where "m = Some m'" "durable_ok S H d" "mirrors H m' d" "rb_state m' \<noteq> BsAccumulating \<Longrightarrow> g"
  using assms by (auto simp: slot_ok_def)

lemma slot_SomeI:
  "durable_ok S H d \<Longrightarrow> mirrors H m d \<Longrightarrow> (rb_state m \<noteq> BsAccumulating \<Longrightarrow> g) \<Longrightarrow> slot_ok S H g (Some m) (Some d)"
  by (simp add: slot_ok_def)

lemma slot_mono: "slot_ok S H g m v \<Longrightarrow> (g \<Longrightarrow> g') \<Longrightarrow> slot_ok S H g' m v"
  by (auto simp: slot_ok_def split: option.splits)

lemma mirrors_same [simp]: "mirrors H b b"
  by (simp add: mirrors_def)

lemma memory_slot:
  assumes "rebate_inv M V S H G" "M k = Some m"
  obtains d where "V k = Some d" "durable_ok S H d" "mirrors H m d" "rb_state m \<noteq> BsAccumulating \<Longrightarrow> k \<in> G"
    "rb_strategy m = k" "rb_id m = rb_id d" "rb_pair m = rb_pair d" "rb_accruals m = rb_accruals d"
proof (cases "V k")
  case None
  then show ?thesis using rebate_invD(3) [OF assms(1), of k] assms(2) by (simp add: slot_ok_def)
next
  case (Some d)
  have slot: "slot_ok S H (k \<in> G) (Some m) (Some d)" using rebate_invD(3) [OF assms(1), of k] assms(2) Some by simp
  then have "mirrors H m d" by (simp add: slot_ok_def)
  then obtain st where "m = d\<lparr>rb_state := st\<rparr>" unfolding mirrors_def by blast
  then show ?thesis
    using slot Some ids_okD(1) [OF rebate_invD(1) [OF assms(1)] Some] that [OF Some] by (simp add: slot_ok_def)
qed

text \<open>A change for one strategy leaves the other slots as they are when holds and settlements of other batches stay.\<close>

lemma durable_ok_frame:
  assumes "durable_ok S H d" "S' (rb_id d) = S (rb_id d)"
    and "\<And>r ss. H' r = Some (OwnerRebate (rb_id d), ss) \<longleftrightarrow> H r = Some (OwnerRebate (rb_id d), ss)"
    and "\<And>r. active_reservation (rb_state d) = Some r \<Longrightarrow> H r = None \<Longrightarrow> H' r = None"
  shows "durable_ok S' H' d"
proof -
  note d = durable_okD [OF assms(1)]
  have "owns H' d" using d(2) assms(3,4) unfolding owns_def by metis
  moreover have "backed S' H' d"
    unfolding backed_def
  proof (intro allI impI)
    fix e assume e: "rb_state d = BsReady e"
    then have "active_reservation (rb_state d) = Some (re_reservation e)" by simp
    then show "re_reservation e \<noteq> 0 \<and>
        (H' (re_reservation e) = Some (OwnerRebate (rb_id d), rebate_sources (rb_strategy d) (re_plan e)) \<or>
         H' (re_reservation e) = None \<and> S' (rb_id d) \<noteq> None)"
      using d(3) e assms(2-4) unfolding backed_def by metis
  qed
  ultimately show ?thesis using d(1,4) assms(2) by (simp add: durable_ok_def settles_def)
qed

lemma mirrors_frame:
  assumes "mirrors H m d" "\<And>r. active_reservation (rb_state d) = Some r \<Longrightarrow> H r = None \<Longrightarrow> H' r = None"
  shows "mirrors H' m d"
proof -
  have "active_reservation (rb_state d) = Some r" if "interrupted (rb_state d) = Some r" for r
    using that by (cases "rb_state d") auto
  then show ?thesis using assms unfolding mirrors_def by blast
qed

lemma slot_frame:
  assumes "slot_ok S H g m v"
    and "\<And>d. v = Some d \<Longrightarrow> S' (rb_id d) = S (rb_id d)"
    and "\<And>d r ss. v = Some d \<Longrightarrow> H' r = Some (OwnerRebate (rb_id d), ss) \<longleftrightarrow> H r = Some (OwnerRebate (rb_id d), ss)"
    and "\<And>d r. v = Some d \<Longrightarrow> active_reservation (rb_state d) = Some r \<Longrightarrow> H r = None \<Longrightarrow> H' r = None"
    and "g \<Longrightarrow> g'"
  shows "slot_ok S' H' g' m v"
proof (cases v)
  case None
  then show ?thesis using assms(1) by (simp add: slot_ok_def)
next
  case (Some d)
  obtain m' where m: "m = Some m'" "durable_ok S H d" "mirrors H m' d" "rb_state m' \<noteq> BsAccumulating \<Longrightarrow> g"
    by (rule slot_SomeD [OF assms(1) [unfolded Some]]) (rule that)
  have "durable_ok S' H' d" by (rule durable_ok_frame [OF m(2)]) (use assms(2-4) Some in blast)+
  moreover have "mirrors H' m' d" by (rule mirrors_frame [OF m(3)]) (use assms(4) Some in blast)
  ultimately show ?thesis unfolding m(1) Some using m(4) assms(5) by (blast intro: slot_SomeI)
qed

lemma rebate_inv_change:
  assumes inv: "rebate_inv M V S H G" and ids: "ids_ok V'" and claims: "claims_ok V' S' H'"
    and here: "slot_ok S' H' (k \<in> G') (M' k) (V' k)"
    and others: "\<And>k'. k' \<noteq> k \<Longrightarrow> M' k' = M k' \<and> V' k' = V k' \<and> (k' \<in> G \<longrightarrow> k' \<in> G')"
    and frame: "\<And>k' d. k' \<noteq> k \<Longrightarrow> V k' = Some d \<Longrightarrow> S' (rb_id d) = S (rb_id d)"
      "\<And>k' d r ss. k' \<noteq> k \<Longrightarrow> V k' = Some d \<Longrightarrow>
         H' r = Some (OwnerRebate (rb_id d), ss) \<longleftrightarrow> H r = Some (OwnerRebate (rb_id d), ss)"
      "\<And>k' d r. k' \<noteq> k \<Longrightarrow> V k' = Some d \<Longrightarrow> active_reservation (rb_state d) = Some r \<Longrightarrow> H r = None \<Longrightarrow> H' r = None"
  shows "rebate_inv M' V' S' H' G'"
proof (rule rebate_invI [OF ids claims])
  fix k'
  show "slot_ok S' H' (k' \<in> G') (M' k') (V' k')"
  proof (cases "k' = k")
    case False
    have "slot_ok S' H' (k' \<in> G') (M k') (V k')"
      by (rule slot_frame [OF rebate_invD(3) [OF inv]]) (use frame [OF False] others [OF False] in blast)+
    then show ?thesis using others [OF False] by simp
  qed (use here in simp)
qed

section \<open>Changes\<close>

lemma claims_widen:
  assumes "claims_ok V S H" "\<And>k d. V k = Some d \<Longrightarrow> \<exists>k' d'. V' k' = Some d' \<and> rb_id d' = rb_id d"
  shows "claims_ok V' S H"
  using assms unfolding claims_ok_def by metis

text \<open>A batch saved and put: the identity it takes over, or a new one that nothing refers to yet.\<close>

lemma fresh_id:
  assumes "claims_ok V S H" "V (rb_strategy b) = None" "ids_ok (V(rb_strategy b \<mapsto> b))"
  shows "S (rb_id b) = None" "H r \<noteq> Some (OwnerRebate (rb_id b), ss)"
proof -
  have no: "\<not> (\<exists>k d. V k = Some d \<and> rb_id d = rb_id b)"
  proof
    assume "\<exists>k d. V k = Some d \<and> rb_id d = rb_id b"
    then obtain k d where k: "V k = Some d" "rb_id d = rb_id b" by blast
    have ne: "k \<noteq> rb_strategy b" using assms(2) k(1) by (metis option.distinct(1))
    have "(V(rb_strategy b \<mapsto> b)) (rb_strategy b) = Some b" "(V(rb_strategy b \<mapsto> b)) k = Some d"
      using ne k(1) by simp_all
    from ids_okD(2) [OF assms(3) this] show False using k(2) ne by metis
  qed
  then show "S (rb_id b) = None" "H r \<noteq> Some (OwnerRebate (rb_id b), ss)"
    using assms(1) unfolding claims_ok_def by blast+
qed

lemma inv_save:
  assumes inv: "rebate_inv M V S H G" and ids: "ids_ok (V(rb_strategy b \<mapsto> b))"
    and same: "\<And>d. V (rb_strategy b) = Some d \<Longrightarrow> rb_id d = rb_id b"
    and ok: "durable_ok S H b" and g: "rb_state b \<noteq> BsAccumulating \<Longrightarrow> rb_strategy b \<in> G"
  shows "rebate_inv (M(rb_strategy b \<mapsto> b)) (V(rb_strategy b \<mapsto> b)) S H G"
proof (rule rebate_inv_change [OF inv ids, where k = "rb_strategy b"])
  show "claims_ok (V(rb_strategy b \<mapsto> b)) S H"
  proof (rule claims_widen [OF rebate_invD(2) [OF inv]])
    fix k d assume "V k = Some d"
    then show "\<exists>k' d'. (V(rb_strategy b \<mapsto> b)) k' = Some d' \<and> rb_id d' = rb_id d"
      using same by (cases "k = rb_strategy b") (auto intro: exI [of _ k])
  qed
qed (use ok g in \<open>auto intro: slot_SomeI\<close>)

lemma inv_put:
  assumes inv: "rebate_inv M V S H G" and "V k = Some d" "mirrors H b d" "rb_state b \<noteq> BsAccumulating \<Longrightarrow> k \<in> G"
  shows "rebate_inv (M(k \<mapsto> b)) V S H G"
proof (rule rebate_inv_change [OF inv rebate_invD(1,2) [OF inv], where k = k])
  have "durable_ok S H d" using rebate_invD(3) [OF inv, of k] assms(2) by (auto elim: slot_SomeD)
  then show "slot_ok S H (k \<in> G) ((M(k \<mapsto> b)) k) (V k)" using assms(2-4) by (auto intro: slot_SomeI)
qed simp_all

lemma inv_guard: "rebate_inv M V S H G \<Longrightarrow> rebate_inv M V S H (insert k G)"
  using rebate_invD [of M V S H G] by (intro rebate_invI) (auto intro: slot_mono)

lemma inv_unguard:
  assumes inv: "rebate_inv M V S H G" and "\<And>m. M k = Some m \<Longrightarrow> rb_state m = BsAccumulating"
  shows "rebate_inv M V S H (G - {k})"
proof (rule rebate_inv_change [OF inv rebate_invD(1,2) [OF inv], where k = k])
  show "slot_ok S H (k \<in> G - {k}) (M k) (V k)"
    using rebate_invD(3) [OF inv, of k] assms(2) unfolding slot_ok_def by (cases "V k") auto
qed simp_all

text \<open>A hold goes away: the reservation of interrupted work, or of work whose settlement is durable.\<close>

lemma inv_released:
  assumes inv: "rebate_inv M V S H G" and d: "V k = Some d" "active_reservation (rb_state d) = Some r"
    and gone: "\<And>e. rb_state d = BsReady e \<Longrightarrow> S (rb_id d) \<noteq> None"
  shows "rebate_inv M V S (H(r := None)) G"
proof -
  obtain m where m: "M k = Some m" "durable_ok S H d" "mirrors H m d" "rb_state m \<noteq> BsAccumulating \<Longrightarrow> k \<in> G"
    by (rule slot_SomeD [OF rebate_invD(3) [OF inv, of k, unfolded d(1)]]) (rule that)
  note o = ownsD [OF durable_okD(2) [OF m(2)]]
  have mine: "H r = None \<or> (\<exists>ss. H r = Some (OwnerRebate (rb_id d), ss))" by (rule o(2) [OF d(2)])
  show ?thesis
  proof (rule rebate_inv_change [OF inv rebate_invD(1) [OF inv], where k = k])
    show "claims_ok V S (H(r := None))" using rebate_invD(2) [OF inv] unfolding claims_ok_def by simp
    have "owns (H(r := None)) d" using durable_okD(2) [OF m(2)] by (simp add: owns_def)
    moreover have "backed S (H(r := None)) d" using durable_okD(3) [OF m(2)] d(2) gone by (simp add: backed_def)
    ultimately have "durable_ok S (H(r := None)) d" using durable_okD [OF m(2)] by (simp add: durable_ok_def)
    moreover have "mirrors (H(r := None)) m d" by (rule mirrors_frame [OF m(3)]) simp
    ultimately show "slot_ok S (H(r := None)) (k \<in> G) (M k) (V k)" using m(1,4) d(1) by (auto intro: slot_SomeI)
    fix k' d' q ss assume "k' \<noteq> k" "V k' = Some d'"
    then have "rb_id d' \<noteq> rb_id d" using ids_okD(2) [OF rebate_invD(1) [OF inv] d(1)] by auto
    then show "(H(r := None)) q = Some (OwnerRebate (rb_id d'), ss) \<longleftrightarrow> H q = Some (OwnerRebate (rb_id d'), ss)"
      using mine by auto
  qed simp_all
qed

text \<open>A hold is taken for work whose preparation is durable; its id is used by no other batch.\<close>

lemma inv_reserved:
  assumes inv: "rebate_inv M V S H G" and d: "V k = Some d" "rb_state d = BsPreparing plan r" "M k = Some d"
    and free: "H r = None" "\<And>k' d'. k' \<noteq> k \<Longrightarrow> V k' = Some d' \<Longrightarrow> active_reservation (rb_state d') \<noteq> Some r"
  shows "rebate_inv M V S (H(r \<mapsto> (OwnerRebate (rb_id d), ss))) G"
proof -
  let ?H = "H(r \<mapsto> (OwnerRebate (rb_id d), ss))"
  have slot: "slot_ok S H (k \<in> G) (Some d) (Some d)" using rebate_invD(3) [OF inv, of k] d by simp
  then have dok: "durable_ok S H d" by (auto elim: slot_SomeD)
  show ?thesis
  proof (rule rebate_inv_change [OF inv rebate_invD(1) [OF inv], where k = k])
    show "claims_ok V S ?H" using rebate_invD(2) [OF inv] d(1) by (auto simp: claims_ok_def)
    have "owns ?H d" using durable_okD(2) [OF dok] d(2) by (auto simp: owns_def)
    then have "durable_ok S ?H d" using durable_okD [OF dok] d(2) by (simp add: durable_ok_def backed_def)
    then show "slot_ok S ?H (k \<in> G) (M k) (V k)" using slot d by (auto simp: slot_ok_def)
    fix k' d' q ss'
    assume k': "k' \<noteq> k" "V k' = Some d'"
    then have "rb_id d' \<noteq> rb_id d" using ids_okD(2) [OF rebate_invD(1) [OF inv] d(1)] by auto
    then show "?H q = Some (OwnerRebate (rb_id d'), ss') \<longleftrightarrow> H q = Some (OwnerRebate (rb_id d'), ss')"
      using free(1) by auto
    assume "active_reservation (rb_state d') = Some q" "H q = None"
    then show "?H q = None" using free(2) [OF k'] by auto
  qed simp_all
qed

text \<open>A batch goes away with its settlement, once nothing is held for it.\<close>

lemma without_simps:
  assumes "ids_ok V" "V k = Some d"
  shows "without (rb_id d) V = V(k := None)"
proof
  fix k'
  show "without (rb_id d) V k' = (V(k := None)) k'"
    using ids_okD(2) [OF assms, of k'] by (cases "V k'") (auto simp: without_def assms(2))
qed

lemma inv_close:
  assumes inv: "rebate_inv M V S H G" and d: "V k = Some d"
    and released: "\<And>r. active_reservation (rb_state d) = Some r \<Longrightarrow> H r = None"
  shows "rebate_inv (M(k := None)) (without (rb_id d) V) (S(rb_id d := None)) H G"
proof -
  note ids = rebate_invD(1) [OF inv]
  have "durable_ok S H d" using rebate_invD(3) [OF inv, of k] d by (auto elim: slot_SomeD)
  then have free: "H r \<noteq> Some (OwnerRebate (rb_id d), ss)" for r ss
    using ownsD(1) [OF durable_okD(2)] released by (metis option.distinct(1))
  show ?thesis
    unfolding without_simps [OF ids d]
  proof (rule rebate_inv_change [OF inv, where k = k])
    show "ids_ok (V(k := None))" using ids unfolding ids_ok_def by simp
    have other: "\<exists>k' d'. (V(k := None)) k' = Some d' \<and> rb_id d' = i"
      if "\<exists>k' d'. V k' = Some d' \<and> rb_id d' = i" "i \<noteq> rb_id d" for i
      using that d by (metis fun_upd_other option.inject)
    show "claims_ok (V(k := None)) (S(rb_id d := None)) H"
      unfolding claims_ok_def
    proof (intro conjI allI impI)
      fix r i ss assume held: "H r = Some (OwnerRebate i, ss)"
      then have "\<exists>k' d'. V k' = Some d' \<and> rb_id d' = i" "i \<noteq> rb_id d"
        using rebate_invD(2) [OF inv] free [of r ss] unfolding claims_ok_def by blast+
      then show "\<exists>k' d'. (V(k := None)) k' = Some d' \<and> rb_id d' = i" by (rule other)
    next
      fix i assume "(S(rb_id d := None)) i \<noteq> None"
      then have "i \<noteq> rb_id d" "S i \<noteq> None" by (auto split: if_splits)
      then show "\<exists>k' d'. (V(k := None)) k' = Some d' \<and> rb_id d' = i"
        using other rebate_invD(2) [OF inv] unfolding claims_ok_def by blast
    qed
    show "slot_ok (S(rb_id d := None)) H (k \<in> G) ((M(k := None)) k) ((V(k := None)) k)" by (simp add: slot_ok_def)
    fix k' d' assume "k' \<noteq> k" "V k' = Some d'"
    then have "rb_id d' \<noteq> rb_id d" using ids_okD(2) [OF ids d] by auto
    then show "(S(rb_id d := None)) (rb_id d') = S (rb_id d')" by simp
  qed simp_all
qed

lemma inv_begin:
  assumes inv: "rebate_inv M V S H G" and d: "V k = Some d" "rb_state d = BsReady e"
    and x: "validate_settlement x = Inr ()" "rt_plan x = re_plan e" "rt_reservation x = re_reservation e"
  shows "rebate_inv M V (S(rb_id d \<mapsto> x)) H G"
proof (rule rebate_inv_change [OF inv rebate_invD(1) [OF inv], where k = k])
  obtain m where m: "M k = Some m" "durable_ok S H d" "mirrors H m d" "rb_state m \<noteq> BsAccumulating \<Longrightarrow> k \<in> G"
    by (rule slot_SomeD [OF rebate_invD(3) [OF inv, of k, unfolded d(1)]]) (rule that)
  show "claims_ok V (S(rb_id d \<mapsto> x)) H" using rebate_invD(2) [OF inv] d(1) unfolding claims_ok_def by auto
  have "durable_ok (S(rb_id d \<mapsto> x)) H d"
    using durable_okD [OF m(2)] d(2) x by (auto simp: durable_ok_def backed_def settles_def)
  then show "slot_ok (S(rb_id d \<mapsto> x)) H (k \<in> G) (M k) (V k)" using m d(1) by (auto intro: slot_SomeI)
  fix k' d' assume "k' \<noteq> k" "V k' = Some d'"
  then have "rb_id d' \<noteq> rb_id d" using ids_okD(2) [OF rebate_invD(1) [OF inv] d(1)] by auto
  then show "(S(rb_id d \<mapsto> x)) (rb_id d') = S (rb_id d')" by simp
qed simp_all

text \<open>
  Other traffic on the ledger keeps the invariant when it leaves alone the rebate holds and the ids
  that open batches have reserved.
\<close>

definition spares :: "batch_view \<Rightarrow> hold_map \<Rightarrow> hold_map \<Rightarrow> bool" where
  "spares V H H' \<longleftrightarrow>
     (\<forall>r i ss. H' r = Some (OwnerRebate i, ss) \<longleftrightarrow> H r = Some (OwnerRebate i, ss)) \<and>
     (\<forall>k d r. V k = Some d \<longrightarrow> active_reservation (rb_state d) = Some r \<longrightarrow> H' r = H r)"

lemma inv_traffic:
  assumes inv: "rebate_inv M V S H G" and "spares V H H'"
  shows "rebate_inv M V S H' G"
proof (rule rebate_invI [OF rebate_invD(1) [OF inv]])
  show "claims_ok V S H'" using rebate_invD(2) [OF inv] assms(2) unfolding claims_ok_def spares_def by simp
  fix k show "slot_ok S H' (k \<in> G) (M k) (V k)"
    by (rule slot_frame [OF rebate_invD(3) [OF inv]]) (use assms(2) in \<open>auto simp: spares_def\<close>)
qed

text \<open>What survives a crash: the invariant with memory taken from the durable batches.\<close>

lemma inv_durable:
  assumes inv: "rebate_inv M V S H G"
  shows "rebate_inv V V S H UNIV"
proof (rule rebate_invI [OF rebate_invD(1,2) [OF inv]])
  fix k show "slot_ok S H (k \<in> UNIV) (V k) (V k)"
    using rebate_invD(3) [OF inv, of k] by (cases "V k") (auto simp: slot_ok_def)
qed

lemma inv_recovered:
  assumes inv: "rebate_inv V V S H UNIV" and "\<And>k. M k = V k" "\<And>k. V k \<noteq> None \<Longrightarrow> k \<in> G"
  shows "rebate_inv M V S H G"
proof (rule rebate_invI [OF rebate_invD(1,2) [OF inv]])
  fix k show "slot_ok S H (k \<in> G) (M k) (V k)"
    using rebate_invD(3) [OF inv, of k] assms(2,3) [of k] by (cases "V k") (auto simp: slot_ok_def)
qed

section \<open>Batches that may be saved\<close>

text \<open>Back to accumulating or guarded, once nothing is held.\<close>

lemma idle_ok:
  assumes "durable_ok S H d" "rb_id b = rb_id d" "\<And>e. rb_state d \<noteq> BsReady e" "active_reservation (rb_state b) = None"
    and "\<And>r. active_reservation (rb_state d) = Some r \<Longrightarrow> H r = None" "validate_batch b = Inr ()"
  shows "durable_ok S H b"
proof -
  note d = durable_okD [OF assms(1)]
  have "H q \<noteq> Some (OwnerRebate (rb_id d), ss)" for q ss
    using ownsD(1) [OF d(2)] assms(5) by (metis option.distinct(1))
  then have "owns H b" using assms(2,4) by (simp add: owns_def)
  moreover have "\<not> (\<exists>e. rb_state b = BsReady e)" using assms(4) by auto
  moreover have "S (rb_id b) = None" using d(4) assms(2,3) by (cases "S (rb_id b)") (auto simp: settles_def)
  ultimately show ?thesis using assms(6) by (simp add: durable_ok_def backed_def settles_def)
qed

text \<open>Marked for release, with the same reservation.\<close>

lemma marked_ok:
  assumes "durable_ok S H d" "rb_id b = rb_id d" "active_reservation (rb_state d) = Some r" "rb_state b = BsInvalidating r"
    and "\<And>e. rb_state d = BsReady e \<Longrightarrow> S (rb_id d) = None" "validate_batch b = Inr ()"
  shows "durable_ok S H b"
proof -
  note d = durable_okD [OF assms(1)]
  have "owns H b" using d(2) assms(2-4) by (simp add: owns_def)
  moreover have "S (rb_id b) = None" using d(4) assms(2,5) by (cases "S (rb_id b)") (auto simp: settles_def)
  ultimately show ?thesis using assms(4,6) by (simp add: durable_ok_def backed_def settles_def)
qed

text \<open>Preparing, with a reservation nobody holds yet.\<close>

lemma preparing_ok:
  assumes "durable_ok S H d" "rb_id b = rb_id d" "\<And>e. rb_state d \<noteq> BsReady e" "rb_state b = BsPreparing plan r"
    and "\<And>q. active_reservation (rb_state d) = Some q \<Longrightarrow> H q = None" "H r = None" "validate_batch b = Inr ()"
  shows "durable_ok S H b"
proof -
  note d = durable_okD [OF assms(1)]
  have "H q \<noteq> Some (OwnerRebate (rb_id d), ss)" for q ss
    using ownsD(1) [OF d(2)] assms(5) by (metis option.distinct(1))
  then have "owns H b" using assms(2,4,6) by (simp add: owns_def)
  moreover have "S (rb_id b) = None" using d(4) assms(2,3) by (cases "S (rb_id b)") (auto simp: settles_def)
  ultimately show ?thesis using assms(4,7) by (simp add: durable_ok_def backed_def settles_def)
qed

text \<open>Ready, with the prepared reservation held for exactly the plan.\<close>

lemma published_ok:
  assumes "durable_ok S H d" "rb_id b = rb_id d" "rb_strategy b = rb_strategy d" "rb_state d = BsPreparing plan r"
    and "rb_state b = BsReady e" "re_plan e = plan" "re_reservation e = r" "r \<noteq> 0"
    and "H r = Some (OwnerRebate (rb_id d), rebate_sources (rb_strategy d) plan)" "validate_batch b = Inr ()"
  shows "durable_ok S H b"
proof -
  note d = durable_okD [OF assms(1)]
  have "owns H b" using d(2) assms(2,4,5,7) by (simp add: owns_def)
  moreover have "backed S H b" using assms by (simp add: backed_def)
  moreover have "S (rb_id b) = None" using d(4) assms(2,4) by (cases "S (rb_id b)") (auto simp: settles_def)
  ultimately show ?thesis using assms(10) by (simp add: durable_ok_def settles_def)
qed

text \<open>The first accrual of a strategy opens a batch nothing refers to.\<close>

lemma opening_ok:
  assumes "claims_ok V S H" "V (rb_strategy b) = None" "ids_ok (V(rb_strategy b \<mapsto> b))"
    and "active_reservation (rb_state b) = None" "validate_batch b = Inr ()"
  shows "durable_ok S H b"
proof -
  note f = fresh_id [OF assms(1-3)]
  have "\<not> (\<exists>e. rb_state b = BsReady e)" using assms(4) by auto
  then show ?thesis using f assms(4,5) by (simp add: durable_ok_def owns_def backed_def settles_def)
qed

end
