(* ===== verification/Rebate_Economics.thy ===== *)
theory Rebate_Economics
  imports Rebate_Policy Routing_Plans
begin

text \<open>
  What the rebate policy guarantees: the maker's share is allocated to the contributing trades
  without loss and in proportion to their weights; a ready plan clears every threshold with exact
  accounting; and its output fits the room the ledger reports for the strategy, so that the
  reservation that follows is admitted.
\<close>

section \<open>Basis points\<close>

lemma from_bigint_of_nat: "n \<le> u256_max \<Longrightarrow> from_bigint (int n) = Some n"
  by (simp add: from_bigint_def)

lemma floor_mul_div:
  assumes "a * b div d \<le> u256_max"
  shows "ratio_floor (ratio_mul (ratio_from a) (of_nat b / of_nat d)) = Some (a * b div d)"
proof -
  have "\<lfloor>of_nat a * (of_nat b / of_nat d) :: rat\<rfloor> = int (a * b div d)"
    using floor_divide_of_nat_eq [of "a * b" d, where 'a = rat] by simp
  then show ?thesis using assms by (simp add: ratio_floor_def ratio_mul_def ratio_from_def from_bigint_of_nat)
qed

lemma scale_bps_floor:
  assumes "a \<le> u256_max" "bps \<le> BASIS_POINTS"
  shows "scale_bps a bps False = Inr (a * bps div BASIS_POINTS)"
proof -
  have "a * bps div BASIS_POINTS \<le> a * BASIS_POINTS div BASIS_POINTS"
    using assms(2) by (intro div_le_mono mult_le_mono2)
  then have "a * bps div BASIS_POINTS \<le> u256_max" using assms(1) by (simp add: BASIS_POINTS_def)
  from floor_mul_div [OF this] show ?thesis by (simp add: scale_bps_def ratio_new_def BASIS_POINTS_def)
qed

lemma scale_bps_ceil:
  assumes "scale_bps a bps True = Inr x"
  shows "int x = \<lceil>of_nat a * of_nat bps / of_nat BASIS_POINTS :: rat\<rceil>"
proof -
  let ?r = "of_nat a * (of_nat bps / of_nat BASIS_POINTS) :: rat"
  have "from_bigint \<lceil>?r\<rceil> = Some x"
    using assms by (auto simp: scale_bps_def ratio_new_def ratio_ceil_def ratio_mul_def ratio_from_def Let_def res
        BASIS_POINTS_def)
  then show ?thesis by (auto simp: from_bigint_def split: if_splits)
qed

lemma scale_bps_ceil_ge:
  assumes "scale_bps a bps True = Inr x" "BASIS_POINTS \<le> bps"
  shows "a \<le> x"
proof -
  have "(of_nat a * of_nat BASIS_POINTS :: rat) \<le> of_nat a * of_nat bps"
    using assms(2) by (intro mult_left_mono) simp_all
  then have "(of_nat a :: rat) \<le> of_nat a * of_nat bps / of_nat BASIS_POINTS"
    by (simp add: BASIS_POINTS_def field_simps)
  also have "\<dots> \<le> of_int (int x)" unfolding scale_bps_ceil [OF assms(1)] by (rule le_of_int_ceiling)
  finally show ?thesis by simp
qed

section \<open>Allocation\<close>

definition weight_sum :: "rebate_accrual list \<Rightarrow> nat" where
  "weight_sum as = sum_list (map ra_weight as)"

lemma weight_sum_simps [simp]: "weight_sum [] = 0" "weight_sum (a # as) = ra_weight a + weight_sum as"
  by (simp_all add: weight_sum_def)

lemma total_weight_fold:
  "tot + weight_sum as \<le> u256_max \<Longrightarrow>
   try_fold (\<lambda>tot a. ok_or Arithmetic (checked_add tot (ra_weight a))) tot as = Inr (tot + weight_sum as)"
  by (induction as arbitrary: tot) (simp_all add: checked_add_def add.assoc)

text \<open>
  The loop keeps two facts about the amount handed out so far: it is at most the exact share of the
  trades already served, and short of it by less than one unit per trade.
\<close>

definition allocated_ok :: "nat \<Rightarrow> nat \<Rightarrow> nat \<Rightarrow> nat \<Rightarrow> rebate_accrual list \<Rightarrow> bool" where
  "allocated_ok r tot index allocated as \<longleftrightarrow>
     allocated * tot + r * weight_sum as \<le> r * tot \<and>
     r * tot \<le> allocated * tot + r * weight_sum as + index * tot"

definition allocation_ok :: "nat \<Rightarrow> nat \<Rightarrow> nat \<Rightarrow> rebate_accrual list \<Rightarrow> rebate_allocation list \<Rightarrow> bool" where
  "allocation_ok r tot index as als \<longleftrightarrow>
     map al_trade_id als = map ra_trade_id as \<and>
     (\<forall>i. Suc i < length as \<longrightarrow> al_amount (als ! i) = r * ra_weight (as ! i) div tot) \<and>
     r * ra_weight (last as) div tot \<le> al_amount (last als) \<and>
     al_amount (last als) \<le> r * ra_weight (last as) div tot + (index + length as - 1)"

lemma allocated_ok_step:
  assumes "allocated_ok r tot index allocated (a # as)" "0 < tot"
  shows "allocated_ok r tot (Suc index) (allocated + r * ra_weight a div tot) as"
proof -
  let ?q = "r * ra_weight a div tot"
  have up: "?q * tot \<le> r * ra_weight a" by simp
  have lo: "r * ra_weight a \<le> ?q * tot + tot"
    using mod_less_divisor [OF assms(2), of "r * ra_weight a"] div_mult_mod_eq [of "r * ra_weight a" tot]
    by linarith
  have "allocated * tot + r * ra_weight a + r * weight_sum as \<le> r * tot"
    "r * tot \<le> allocated * tot + r * ra_weight a + r * weight_sum as + index * tot"
    using assms(1) by (simp_all add: allocated_ok_def distrib_left)
  then show ?thesis using up lo unfolding allocated_ok_def distrib_right mult_Suc by linarith
qed

lemma div_sandwich:
  assumes "0 < (t :: nat)"
  shows "m \<le> x * t \<Longrightarrow> m div t \<le> x" and "x * t \<le> m + k * t \<Longrightarrow> x \<le> m div t + k"
proof -
  show "m div t \<le> x" if "m \<le> x * t"
    using div_le_mono [OF that, of t] assms by simp
  show "x \<le> m div t + k" if "x * t \<le> m + k * t"
    using div_le_mono [OF that, of t] assms by simp
qed

lemma allocate_loop_spec:
  assumes "as \<noteq> []" "0 < tot" "r \<le> u256_max" "allocated_ok r tot index allocated as"
    and "last_index = index + length as - 1"
  shows "\<exists>als. allocate_loop r tot last_index index allocated as = Inr als \<and>
    allocated + sum_list (map al_amount als) = r \<and> allocation_ok r tot index as als"
  using assms
proof (induction as arbitrary: index allocated)
  case (Cons a as)
  show ?case
  proof (cases "as = []")
    case True
    let ?x = "r - allocated"
    have ok: "allocated * tot + r * ra_weight a \<le> r * tot"
      "r * tot \<le> allocated * tot + r * ra_weight a + index * tot"
      using Cons.prems(4) True by (simp_all add: allocated_ok_def)
    have le: "allocated \<le> r" using ok(1) Cons.prems(2) mult_le_cancel2 [of allocated tot r] by linarith
    have x: "r * ra_weight a \<le> ?x * tot" "?x * tot \<le> r * ra_weight a + index * tot"
      using ok le by (simp_all add: diff_mult_distrib)
    note bounds = div_sandwich(1) [OF Cons.prems(2) x(1)] div_sandwich(2) [OF Cons.prems(2) x(2)]
    show ?thesis using True le bounds Cons.prems(3,5)
      by (simp add: checked_sub_def checked_add_def allocation_ok_def)
  next
    case False
    let ?q = "r * ra_weight a div tot"
    note step = allocated_ok_step [OF Cons.prems(4,2)]
    have "(allocated + ?q) * tot \<le> r * tot" using step unfolding allocated_ok_def by linarith
    then have le: "allocated + ?q \<le> r" using Cons.prems(2) mult_le_cancel2 by blast
    have last: "index \<noteq> last_index" "last_index = Suc index + length as - 1"
      using False Cons.prems(5) by (simp_all add: neq_Nil_conv)
    obtain als where als: "allocate_loop r tot last_index (Suc index) (allocated + ?q) as = Inr als"
      "allocated + ?q + sum_list (map al_amount als) = r" "allocation_ok r tot (Suc index) as als"
      using Cons.IH [OF False Cons.prems(2,3) step last(2)] by blast
    have floor: "ratio_floor (ratio_mul (ratio_from r) (of_nat (ra_weight a) / of_nat tot)) = Some ?q"
      by (rule floor_mul_div) (use le Cons.prems(3) in simp)
    have "als \<noteq> []" using als(3) False by (auto simp: allocation_ok_def)
    then have ok: "allocation_ok r tot index (a # as) (\<lparr>al_trade_id = ra_trade_id a, al_amount = ?q\<rparr> # als)"
      using als(3) False by (auto simp: allocation_ok_def nth_Cons split: nat.splits)
    show ?thesis
      using last(1) als(1,2) floor le Cons.prems(2,3) ok
      by (simp add: ratio_new_def checked_add_def)
  qed
qed simp

lemma allocate_spec:
  assumes "0 < weight_sum as" "weight_sum as \<le> u256_max" "r \<le> u256_max"
  shows "\<exists>als. allocate r as = Inr als \<and> sum_list (map al_amount als) = r \<and>
    allocation_ok r (weight_sum as) 0 as als"
proof -
  have "as \<noteq> []" using assms(1) by auto
  moreover have "allocated_ok r (weight_sum as) 0 0 as" by (simp add: allocated_ok_def)
  ultimately obtain als where "allocate_loop r (weight_sum as) (length as - 1) 0 0 as = Inr als"
    "sum_list (map al_amount als) = r" "allocation_ok r (weight_sum as) 0 as als"
    using allocate_loop_spec [of as "weight_sum as" r 0 0 "length as - 1"] assms by auto
  then show ?thesis using total_weight_fold [of 0 as] assms by (simp add: allocate_def)
qed

lemma total_weight_Inr:
  "try_fold (\<lambda>tot a. ok_or Arithmetic (checked_add tot (ra_weight a))) tot as = Inr t \<Longrightarrow>
   tot \<le> u256_max \<Longrightarrow> t = tot + weight_sum as \<and> t \<le> u256_max"
  by (induction as arbitrary: tot) (fastforce simp: res add.assoc)+

lemma allocate_Inr:
  assumes "allocate r as = Inr als"
  shows "0 < weight_sum as \<and> weight_sum as \<le> u256_max"
  using assms total_weight_Inr [of 0 as] by (auto simp: allocate_def res split: if_splits)

section \<open>Room for the restoration\<close>

lemma limited_less:
  "xyc_quote_with_limit p a l = Inr q \<Longrightarrow> lq_limited q \<Longrightarrow> lq_amount_in q < a"
  "concentrate_quote_with_limit cp a l = Inr q \<Longrightarrow> lq_limited q \<Longrightarrow> lq_amount_in q < a"
  by (auto simp: xyc_quote_with_limit_def concentrate_quote_with_limit_def limited_none_def Let_def res
      split: if_splits)

lemma limited_fill_less:
  assumes "closed_curve c" "net_quote_with_limit c b l = Inr f" "lq_limited f"
  shows "lq_amount_in f < b"
proof -
  obtain n q x l' where n: "shrink_by_fees b (cd_fees_in_bps c) = Inr n" "quote_with_limit (cd_pool c) n l' = Inr q"
    and x: "gross_up_by_fees (lq_amount_in q) (cd_fees_in_bps c) = Inr x"
    and f: "lq_amount_in f = min x b" "lq_limited q"
    using assms(2,3) by (auto simp: net_quote_with_limit_def Let_def res)
  have less: "lq_amount_in q < n"
    using n(2) f(2) assms(1) limited_less by (cases "cd_pool c") (auto simp: closed_curve_def)
  then have "x \<le> b" using stacked_fees.least_input [OF x n(1)] by simp
  moreover have "x \<noteq> b" using fees_round_trip [OF x] n(1) less by fastforce
  ultimately show ?thesis by (simp add: f(1))
qed

definition probe :: "candidate \<Rightarrow> u256 \<Rightarrow> u256 option" where
  "probe c output =
     (case net_quote_exact_out c output of
        Inl _ \<Rightarrow> None
      | Inr input \<Rightarrow> if is_ok (net_quote_exact_in c input) then Some input else None)"

lemma probe_Some:
  "probe c y = Some b \<longleftrightarrow> net_quote_exact_out c y = Inr b \<and> (\<exists>out. net_quote_exact_in c b = Inr out)"
  by (auto simp: probe_def is_ok_iff split: sum.splits)

lemma probe_None: "probe c y = None \<Longrightarrow> input_within_output c y = None"
  by (auto simp: probe_def input_within_output_def is_ok_iff split: sum.splits if_splits)

lemma full_bound_cases:
  assumes "0 < cd_cap_out c"
  obtains (cap) "probe c (cd_cap_out c) = Some (full_input_bound c)"
  | (below) "probe c (cd_cap_out c) = None" "probe c (cd_cap_out c - 1) = Some (full_input_bound c)"
  | (uncapped) "probe c (cd_cap_out c) = None" "full_input_bound c = feasible_input c u256_max"
  using assms unfolding full_input_bound_def probe_def [symmetric]
  by (cases "probe c (cd_cap_out c)"; cases "probe c (cd_cap_out c - 1)"; cases "cd_cap_out c = 1") simp_all

lemma full_bound:
  assumes "venue_ok c"
  shows "full_input_bound c \<le> u256_max \<and> (\<exists>out. cquoted c (full_input_bound c) out) \<and>
    (\<forall>j w. j < full_input_bound c \<longrightarrow> cquoted c j w \<longrightarrow> w \<le> cd_cap_out c)"
proof -
  let ?b = "full_input_bound c" and ?cap = "cd_cap_out c"
  note p = venue_priced [OF assms]
  have cap: "0 < ?cap" "?cap \<le> u256_max" using assms by (auto simp: venue_ok_def)
  have priced: "?b \<le> u256_max \<and> (\<exists>out. cquoted c ?b out)" if "probe c y = Some ?b" "y \<le> ?cap" for y
    using that cap priced_quote.bwd_range [OF p, of y ?b] by (auto simp: probe_Some quoted_def)
  have low: "w \<le> ?cap" if "probe c ?cap = None" "?b \<le> u256_max" "j < ?b" "cquoted c j w" for j w
    using input_within_None [OF assms probe_None [OF that(1)] cap _ that(4)] that(2,3) by simp
  from cap(1) show ?thesis
  proof (cases rule: full_bound_cases)
    case cap
    have "w \<le> ?cap" if "j < ?b" "cquoted c j w" for j w
      using priced_quote.below_quote [OF p, of ?cap ?b j w] cap that by (auto simp: probe_Some quoted_def)
    then show ?thesis using priced [OF cap] by blast
  next
    case below
    then show ?thesis using priced [OF below(2)] low by fastforce
  next
    case uncapped
    then show ?thesis using feasible_input_spec [of c u256_max] low by fastforce
  qed
qed

text \<open>A fill the price limit binds stays within the deliverable cap.\<close>

lemma limited_fill_within_cap:
  assumes "venue_ok c" "0 \<le> l" "net_quote_with_limit c (full_input_bound c) l = Inr f" "lq_limited f"
  shows "lq_amount_out f \<le> cd_cap_out c"
proof -
  obtain out where out: "cquoted c (full_input_bound c) out" "full_input_bound c \<le> u256_max"
    using full_bound [OF assms(1)] by blast
  have "cquoted c (lq_amount_in f) (lq_amount_out f)"
    using venue_point [OF assms(1) out assms(2)] assms(3) by simp
  moreover have "lq_amount_in f < full_input_bound c"
    using limited_fill_less [OF _ assms(3,4)] assms(1) by (simp add: venue_ok_def)
  ultimately show ?thesis using full_bound [OF assms(1)] by blast
qed

section \<open>Ready plans\<close>

lemma direction_of_Some:
  assumes "direction_of strategy caps market ti tout = Inr (Some d)"
  shows "build_pricing_candidate strategy caps ti tout = Some (dr_candidate d)"
    "market_rate market tout ti = Some (dr_output_value_rate d)" "dr_output_value_rate d \<noteq> 0"
    "dr_price_limit d = 1 / dr_output_value_rate d"
  using assms
  by (auto simp: direction_of_def ratio_invert_def res split: option.splits if_splits)

lemma best_direction_Some:
  assumes "best_direction strategy caps market = Inr (Some d)"
  shows "direction_of strategy caps market (rm_token_a market) (rm_token_b market) = Inr (Some d) \<or>
    direction_of strategy caps market (rm_token_b market) (rm_token_a market) = Inr (Some d)"
  using assms by (auto simp: best_direction_def better_direction_def res split: option.splits if_splits)

lemma pricing_candidate_Some:
  assumes "build_pricing_candidate st caps ti tout = Some c"
  shows "cd_token_in c = ti" "cd_token_out c = tout"
    "0 < cd_cap_out c \<Longrightarrow> build_candidate st caps ti tout = Some c"
  using assms
  by (auto simp: build_candidate_def build_pricing_candidate_def Let_def
      split: option.splits if_splits curve_spec.splits)

definition priced_from ::
  "maker_strategy \<Rightarrow> available_caps \<Rightarrow> rebate_market \<Rightarrow> rebate_plan \<Rightarrow> candidate \<Rightarrow> ratio \<Rightarrow> bool" where
  "priced_from strategy caps market plan c rate \<longleftrightarrow>
     {bp_token_in plan, bp_token_out plan} = {rm_token_a market, rm_token_b market} \<and>
     build_candidate strategy caps (bp_token_in plan) (bp_token_out plan) = Some c \<and>
     market_rate market (bp_token_out plan) (bp_token_in plan) = Some rate \<and>
     net_quote_exact_out c (bp_amount_out plan) = Inr (bp_amount_in plan) \<and>
     0 < bp_amount_out plan"

definition shares_surplus :: "rebate_policy \<Rightarrow> rebate_requirements list \<Rightarrow> rebate_plan \<Rightarrow> bool" where
  "shares_surplus p requirements plan \<longleftrightarrow>
     bp_gross_surplus plan = bp_safe_gas_cost plan + bp_executor_profit plan + bp_maker_rebate plan \<and>
     bp_executor_profit plan =
       (bp_executor_profit plan + bp_maker_rebate plan) * EXECUTOR_SHARE_BPS div BASIS_POINTS \<and>
     (\<exists>req \<in> set requirements. rr_token req = bp_token_in plan \<and>
        scale_bps (rr_gas_cost req) (rp_gas_safety_bps p) True = Inr (bp_safe_gas_cost plan) \<and>
        rr_minimum_maker_rebate req \<le> bp_maker_rebate plan \<and>
        rr_minimum_executor_profit req \<le> bp_executor_profit plan)"

lemma find_Some_member: "find P xs = Some x \<Longrightarrow> x \<in> set xs \<and> P x"
  by (auto simp: find_Some_iff)

lemma share_surplus_ready:
  assumes "share_surplus p batch accruals strategy requirements d ain aout gross = Inr (AsReady plan)"
    and "gross \<le> u256_max"
  shows "bp_batch_id plan = batch" "bp_strategy plan = ms_key strategy"
    "bp_token_in plan = cd_token_in (dr_candidate d)" "bp_token_out plan = cd_token_out (dr_candidate d)"
    "bp_amount_in plan = ain" "bp_amount_out plan = aout" "bp_gross_surplus plan = gross"
    "bp_deviation_bps plan = dr_deviation_bps d"
    "allocate (bp_maker_rebate plan) accruals = Inr (bp_allocations plan)"
    "shares_surplus p requirements plan"
proof -
  obtain req gas post where req: "find (\<lambda>r. rr_token r = cd_token_in (dr_candidate d)) requirements = Some req"
    and gas: "scale_bps (rr_gas_cost req) (rp_gas_safety_bps p) True = Inr gas"
    and post: "gas \<le> gross" "post = gross - gas"
    and rest: "(rbind (scale_bps post EXECUTOR_SHARE_BPS False) (\<lambda>executor_profit.
            rbind (ok_or Arithmetic (checked_sub post executor_profit)) (\<lambda>maker_rebate.
              if maker_rebate < rr_minimum_maker_rebate req
                 \<or> executor_profit < rr_minimum_executor_profit req then Inr (AsGuarded (dr_deviation_bps d))
              else rbind (allocate maker_rebate accruals) (\<lambda>allocations.
                Inr (AsReady
                  \<lparr>bp_batch_id = batch, bp_strategy = ms_key strategy, bp_token_in = cd_token_in (dr_candidate d),
                   bp_token_out = cd_token_out (dr_candidate d), bp_amount_in = ain,
                   bp_amount_out = aout, bp_gross_surplus = gross,
                   bp_safe_gas_cost = gas, bp_maker_rebate = maker_rebate,
                   bp_executor_profit = executor_profit, bp_deviation_bps = dr_deviation_bps d,
                   bp_allocations = allocations\<rparr>))))) = Inr (AsReady plan)"
    using assms(1) by (auto simp: share_surplus_def Let_def checked_sub_def res split: if_splits)
  let ?e = "post * EXECUTOR_SHARE_BPS div BASIS_POINTS"
  have e: "scale_bps post EXECUTOR_SHARE_BPS False = Inr ?e"
    by (rule scale_bps_floor) (use assms(2) post(2) in \<open>simp_all add: EXECUTOR_SHARE_BPS_def BASIS_POINTS_def\<close>)
  have le: "?e \<le> post" by (simp add: EXECUTOR_SHARE_BPS_def BASIS_POINTS_def)
  from rest obtain als where als: "allocate (post - ?e) accruals = Inr als"
    "\<not> post - ?e < rr_minimum_maker_rebate req" "\<not> ?e < rr_minimum_executor_profit req"
    and plan: "plan = \<lparr>bp_batch_id = batch, bp_strategy = ms_key strategy,
       bp_token_in = cd_token_in (dr_candidate d), bp_token_out = cd_token_out (dr_candidate d),
       bp_amount_in = ain, bp_amount_out = aout, bp_gross_surplus = gross, bp_safe_gas_cost = gas,
       bp_maker_rebate = post - ?e, bp_executor_profit = ?e, bp_deviation_bps = dr_deviation_bps d,
       bp_allocations = als\<rparr>"
    unfolding e using le by (auto simp: checked_sub_def res split: if_splits)
  show "bp_batch_id plan = batch" "bp_strategy plan = ms_key strategy"
    "bp_token_in plan = cd_token_in (dr_candidate d)" "bp_token_out plan = cd_token_out (dr_candidate d)"
    "bp_amount_in plan = ain" "bp_amount_out plan = aout" "bp_gross_surplus plan = gross"
    "bp_deviation_bps plan = dr_deviation_bps d"
    "allocate (bp_maker_rebate plan) accruals = Inr (bp_allocations plan)"
    using als(1) by (simp_all add: plan)
  show "shares_surplus p requirements plan"
    using find_Some_member [OF req] gas post le als(2,3) unfolding shares_surplus_def plan
    by (auto intro!: bexI [of _ req])
qed

lemma assess_direction_ready:
  assumes "assess_direction p batch accruals strategy requirements d = Inr (AsReady plan)"
  obtains f ain external where "0 < cd_cap_out (dr_candidate d)"
    "net_quote_with_limit (dr_candidate d) (full_input_bound (dr_candidate d)) (dr_price_limit d) = Inr f"
    "0 < lq_amount_out f" "lq_limited f"
    "net_quote_exact_out (dr_candidate d) (lq_amount_out f) = Inr ain"
    "ratio_floor (ratio_mul (ratio_from (lq_amount_out f)) (dr_output_value_rate d)) = Some external"
    "ain \<le> external"
    "share_surplus p batch accruals strategy requirements d ain (lq_amount_out f) (external - ain) = Inr (AsReady plan)"
proof -
  have lift: "curve_of_rebate r = Inr x \<longleftrightarrow> r = Inr x" for r :: "curve_error + 'z" and x
    by (cases r) (simp_all add: curve_of_rebate_def)
  show thesis using assms
    by (auto simp: assess_direction_def Let_def checked_sub_def lift res split: if_splits intro: that)
qed

lemma assess_ready:
  assumes "assess p batch accruals strategy caps market requirements = Inr (AsReady plan)"
  obtains d where "rm_token_a market \<noteq> rm_token_b market"
    "best_direction strategy caps market = Inr (Some d)" "rp_deviation_threshold_bps p \<le> dr_deviation_bps d"
    "assess_direction p batch accruals strategy requirements d = Inr (AsReady plan)"
    "\<forall>a \<in> set accruals. ra_strategy a = ms_key strategy"
    "\<forall>a \<in> set accruals. token_pair_new (ra_token_in a) (ra_token_out a) =
       token_pair_new (rm_token_a market) (rm_token_b market)"
    "ms_pair strategy = Some (token_pair_new (rm_token_a market) (rm_token_b market))"
  using assms by (auto simp: assess_def res split: if_splits option.splits intro: that)

text \<open>Everything a ready plan promises, in one place.\<close>

lemma ready_plan_facts:
  assumes "assess p batch accruals strategy caps market requirements = Inr (AsReady plan)"
  obtains c rate f where "bp_batch_id plan = batch" "bp_strategy plan = ms_key strategy"
    "bp_token_in plan \<noteq> bp_token_out plan" "priced_from strategy caps market plan c rate" "0 \<le> rate \<Longrightarrow> 0 \<le> 1 / rate"
    "int (bp_amount_in plan + bp_gross_surplus plan) = \<lfloor>of_nat (bp_amount_out plan) * rate\<rfloor>"
    "bp_gross_surplus plan \<le> u256_max"
    "shares_surplus p requirements plan" "rp_deviation_threshold_bps p \<le> bp_deviation_bps plan"
    "allocate (bp_maker_rebate plan) accruals = Inr (bp_allocations plan)"
    "net_quote_with_limit c (full_input_bound c) (1 / rate) = Inr f" "lq_limited f"
    "lq_amount_out f = bp_amount_out plan"
proof -
  obtain d where d: "rm_token_a market \<noteq> rm_token_b market"
    "best_direction strategy caps market = Inr (Some d)" "rp_deviation_threshold_bps p \<le> dr_deviation_bps d"
    "assess_direction p batch accruals strategy requirements d = Inr (AsReady plan)"
    by (rule assess_ready [OF assms]) (rule that)
  let ?c = "dr_candidate d" and ?rate = "dr_output_value_rate d"
  obtain f ain external where f: "0 < cd_cap_out ?c"
    "net_quote_with_limit ?c (full_input_bound ?c) (dr_price_limit d) = Inr f" "0 < lq_amount_out f" "lq_limited f"
    "net_quote_exact_out ?c (lq_amount_out f) = Inr ain"
    and ext: "ratio_floor (ratio_mul (ratio_from (lq_amount_out f)) ?rate) = Some external" "ain \<le> external"
    and share: "share_surplus p batch accruals strategy requirements d ain (lq_amount_out f) (external - ain)
      = Inr (AsReady plan)"
    by (rule assess_direction_ready [OF d(4)]) (rule that)
  have external: "int external = \<lfloor>of_nat (lq_amount_out f) * ?rate\<rfloor>" "external \<le> u256_max"
    using ext(1) by (auto simp: ratio_floor_def ratio_mul_def ratio_from_def from_bigint_def split: if_splits)
  then have "external - ain \<le> u256_max" by simp
  note plan = share_surplus_ready [OF share this]
  have dir: "\<exists>ti tout. {ti, tout} = {rm_token_a market, rm_token_b market} \<and> ti \<noteq> tout \<and>
      direction_of strategy caps market ti tout = Inr (Some d)"
    using best_direction_Some [OF d(2)] d(1) by (metis insert_commute)
  then obtain ti tout where t: "{ti, tout} = {rm_token_a market, rm_token_b market}" "ti \<noteq> tout"
    "direction_of strategy caps market ti tout = Inr (Some d)" by blast
  note dd = direction_of_Some [OF t(3)]
  note cc = pricing_candidate_Some [OF dd(1)]
  have "priced_from strategy caps market plan ?c ?rate"
    unfolding priced_from_def plan cc(1,2) using t(1) cc(3) [OF f(1)] dd(2) f(3,5) by simp
  then show thesis
    by (intro that [of ?c ?rate f])
      (use plan external ext(2) t(2) cc(1,2) d(3) f dd(4) in simp_all)
qed

text \<open>
  C14. A ready rebate plan is profitable for everyone it names, with exact accounting. What the market
  pays for the restored output (rounded down) is the input the curve asks for it, plus the gas with
  its safety margin, plus the executor's share (5% of what is left, rounded down), plus the maker's
  rebate; nothing is lost. The gas reserve is at least the estimate, both shares reach their minimum,
  the displacement is at least the policy's threshold, and the maker's rebate is split over the
  contributing trades without remainder: every trade but the last receives exactly the rounded-down
  share of its weight and the last one the rest, at most one unit per other trade above its share.
\<close>

theorem ready_plan_is_profitable:
  assumes "assess (policy_config_new threshold safety) batch accruals strategy caps market requirements
             = Inr (AsReady plan)"
  shows "(\<exists>c rate. priced_from strategy caps market plan c rate \<and>
      \<lfloor>of_nat (bp_amount_out plan) * rate\<rfloor> =
        int (bp_amount_in plan + bp_safe_gas_cost plan + bp_executor_profit plan + bp_maker_rebate plan)) \<and>
    bp_executor_profit plan = (bp_executor_profit plan + bp_maker_rebate plan) * 5 div 100 \<and>
    (\<exists>req \<in> set requirements. rr_token req = bp_token_in plan \<and>
      rr_gas_cost req \<le> bp_safe_gas_cost plan \<and>
      rr_minimum_maker_rebate req \<le> bp_maker_rebate plan \<and>
      rr_minimum_executor_profit req \<le> bp_executor_profit plan) \<and>
    threshold \<le> bp_deviation_bps plan \<and>
    sum_list (map al_amount (bp_allocations plan)) = bp_maker_rebate plan \<and>
    allocation_ok (bp_maker_rebate plan) (weight_sum accruals) 0 accruals (bp_allocations plan)"
proof -
  obtain c rate where c: "priced_from strategy caps market plan c rate"
    and surplus: "int (bp_amount_in plan + bp_gross_surplus plan) = \<lfloor>of_nat (bp_amount_out plan) * rate\<rfloor>"
      "bp_gross_surplus plan \<le> u256_max"
    and shares: "shares_surplus (policy_config_new threshold safety) requirements plan"
    and dev: "rp_deviation_threshold_bps (policy_config_new threshold safety) \<le> bp_deviation_bps plan"
    and alloc: "allocate (bp_maker_rebate plan) accruals = Inr (bp_allocations plan)"
    by (rule ready_plan_facts [OF assms]) (rule that)
  show ?thesis
  proof (intro conjI)
  show "\<exists>c rate. priced_from strategy caps market plan c rate \<and>
      \<lfloor>of_nat (bp_amount_out plan) * rate\<rfloor> =
        int (bp_amount_in plan + bp_safe_gas_cost plan + bp_executor_profit plan + bp_maker_rebate plan)"
    using c surplus(1) shares unfolding shares_surplus_def by (metis add.assoc)
  show "bp_executor_profit plan = (bp_executor_profit plan + bp_maker_rebate plan) * 5 div 100"
  proof -
    have scaled: "x * 500 div 10000 = x * 5 div (100 :: nat)" for x
      using div_mult_mult1 [of 100 "x * 5" 100] by (simp add: mult.commute mult.left_commute)
    have "bp_executor_profit plan = (bp_executor_profit plan + bp_maker_rebate plan) * 500 div 10000"
      using shares unfolding shares_surplus_def EXECUTOR_SHARE_BPS_def BASIS_POINTS_def by (elim conjE)
    then show ?thesis unfolding scaled .
  qed
  show "\<exists>req \<in> set requirements. rr_token req = bp_token_in plan \<and>
      rr_gas_cost req \<le> bp_safe_gas_cost plan \<and>
      rr_minimum_maker_rebate req \<le> bp_maker_rebate plan \<and>
      rr_minimum_executor_profit req \<le> bp_executor_profit plan"
    using shares scale_bps_ceil_ge unfolding shares_surplus_def policy_config_new_def by fastforce
  show "threshold \<le> bp_deviation_bps plan" using dev by (simp add: policy_config_new_def)
  have "bp_maker_rebate plan \<le> u256_max" using shares surplus(2) by (simp add: shares_surplus_def)
  then show "sum_list (map al_amount (bp_allocations plan)) = bp_maker_rebate plan"
    "allocation_ok (bp_maker_rebate plan) (weight_sum accruals) 0 accruals (bp_allocations plan)"
    using allocate_spec [of accruals "bp_maker_rebate plan"] allocate_Inr [OF alloc] alloc by auto
  qed
qed

text \<open>
  C15. The reservation of a ready plan is admitted: on the closed-form curves the restored output never
  exceeds what the ledger reports as available for the maker's wallet and for the strategy, because a
  fill the price limit binds stays strictly inside the input that would drain the cap. The single
  source the service reserves therefore passes the ledger's check, unless its id is taken.
\<close>

theorem ready_plan_is_reservable:
  assumes "assess p batch accruals strategy (available_snapshot l) market requirements = Inr (AsReady plan)"
    and "closed_form (ms_curve strategy)" "ledger_shape l" "0 \<le> rm_a_to_b market" "0 \<le> rm_b_to_a market"
    and "bm_get (lg_reservations l) rid = None"
  shows "can_reserve l (for_rebate rid batch (rebate_sources (ms_key strategy) plan) expires) = Inr ()"
proof -
  obtain c rate f where c: "priced_from strategy (available_snapshot l) market plan c rate"
    and f: "net_quote_with_limit c (full_input_bound c) (1 / rate) = Inr f" "lq_limited f"
      "lq_amount_out f = bp_amount_out plan"
    by (rule ready_plan_facts [OF assms(1)]) (rule that)
  have room: "available l a \<le> u256_max" for a
    using assms(3) by (auto simp: ledger_shape_def available_def Let_def intro: le_trans [OF diff_le_self])
  have b: "build_candidate strategy (available_snapshot l) (bp_token_in plan) (bp_token_out plan) = Some c"
    "market_rate market (bp_token_out plan) (bp_token_in plan) = Some rate"
    using c by (simp_all add: priced_from_def)
  note cand = build_candidate_Some [OF b(1)]
  have "venue_ok c" using cand assms(2) room by (simp add: venue_ok_def available_caps_eq)
  moreover have "0 \<le> 1 / rate" using b(2) assms(4,5) by (auto simp: market_rate_def split: if_splits)
  ultimately have "bp_amount_out plan \<le> cd_cap_out c" using limited_fill_within_cap [OF _ _ f(1,2)] f(3) by simp
  then have "bp_amount_out plan \<le> available l (WalletBudget (sk_maker (ms_key strategy)) (bp_token_out plan))"
    "bp_amount_out plan \<le> available l
       (StrategyVirtual (sk_maker (ms_key strategy)) (sk_hash (ms_key strategy)) (bp_token_out plan))"
    using cand(5,6,7) by (simp_all add: available_caps_eq)
  then have "demand_on a (rebate_sources (ms_key strategy) plan) \<le> available l a" for a
    by (cases a) (auto simp: rebate_sources_def draws_on_def accounts_def)
  then have "min (demand_on a (rebate_sources (ms_key strategy) plan)) u256_max \<le> available l a" for a
    by (meson min.coboundedI1)
  then show ?thesis using assms(6) by (simp add: can_reserve_Inr for_rebate_def reservation_new_def)
qed

section \<open>A restoration\<close>

definition ex_displaced :: maker_strategy where
  "ex_displaced =
     \<lparr>ms_key = StrategyKey 1 2 3, ms_curve = Priceable Xyc [], ms_balances = [(5, 100), (6, 400)],
      ms_active = True, ms_program = []\<rparr>"

definition ex_rebate_room :: ledger where
  "ex_rebate_room = \<lparr>lg_budgets = [(WalletBudget 1 6, 300), (StrategyVirtual 1 3 6, 300)], lg_held = [],
     lg_reservations = [], lg_filled = []\<rparr>"

definition ex_market :: rebate_market where
  "ex_market = \<lparr>rm_token_a = 5, rm_token_b = 6, rm_a_to_b = 1, rm_b_to_a = 1\<rparr>"

definition ex_accrual :: "trade_id \<Rightarrow> u256 \<Rightarrow> rebate_accrual" where
  "ex_accrual t w = \<lparr>ra_trade_id = t, ra_strategy = StrategyKey 1 2 3, ra_token_in = 6, ra_token_out = 5,
     ra_amount_in = 10, ra_amount_out = 5, ra_confirmed_block = 7, ra_weight = w\<rparr>"

definition ex_requirements :: "rebate_requirements list" where
  "ex_requirements = [\<lparr>rr_token = 5, rr_gas_cost = 10, rr_minimum_maker_rebate = 1, rr_minimum_executor_profit = 1\<rparr>]"

definition ex_restoring :: candidate where
  "ex_restoring = \<lparr>cd_key = StrategyKey 1 2 3, cd_token_in = 5, cd_token_out = 6, cd_cap_out = 300,
     cd_wallet_cap = 300, cd_pool = PoolXyc \<lparr>xp_balance_in = 100, xp_balance_out = 400\<rparr>, cd_fees_in_bps = []\<rparr>"

lemma ex_directions:
  "direction_of ex_displaced (available_snapshot ex_rebate_room) ex_market 5 6 =
     Inr (Some \<lparr>dr_candidate = ex_restoring, dr_price_limit = 1, dr_output_value_rate = 1, dr_deviation_bps = 30000\<rparr>)"
  "direction_of ex_displaced (available_snapshot ex_rebate_room) ex_market 6 5 = Inr None"
  by (simp_all add: direction_of_def ex_displaced_def ex_market_def market_rate_def ratio_invert_def
      build_pricing_candidate_def ms_balance_def freeze_cap_def available_caps_eq available_def budget_def
      ex_rebate_room_def ex_restoring_def xyc_from_reserves_def cd_marginal_price_def xyc_marginal_price_def
      gamma_def ratio_mul_def ratio_from_def ratio_new_def curve_of_rebate_def rel_diff_bps_def u64_max_def Let_def
      xyc_is_empty_def)

lemma ex_root: "floor_sqrt 40000 = Some 200"
proof -
  obtain s where s: "\<And>x :: nat. x \<le> s \<longleftrightarrow> of_nat (x * x) \<le> (40000 :: rat)"
    and root: "floor_sqrt 40000 = (if s \<le> u256_max then Some s else None)"
    using floor_sqrt_iff [of 40000] by auto
  have "200 \<le> s" "\<not> 201 \<le> s" by (simp_all add: s)
  then have "s = 200" by simp
  then show ?thesis using root by (simp add: u256_max_def)
qed

lemmas ex_quote_eval = ex_restoring_def net_quote_exact_out_def net_quote_exact_in_def shrink_by_fees_def
  gross_up_by_fees_def xyc_quote_exact_out_def xyc_quote_exact_in_def xyc_is_empty_def cmul_def cadd_def
  checked_mul_def checked_add_def checked_sub_def fdiv_def ceil_div_def u256_max_def

lemma ex_fill:
  "full_input_bound ex_restoring = 300"
  "net_quote_with_limit ex_restoring 300 1 = Inr \<lparr>lq_amount_in = 100, lq_amount_out = 200, lq_limited = True\<rparr>"
  "net_quote_exact_out ex_restoring 200 = Inr 100"
  by (simp_all add: full_input_bound_def net_quote_with_limit_def ex_quote_eval gamma_def ratio_mul_def
      ratio_from_def ratio_invert_def xyc_quote_with_limit_def ratio_is_zero_def xyc_marginal_price_def
      ratio_new_def ex_root Let_def)

lemma ex_assess:
  "assess (policy_config_new 100 12000) 9 [ex_accrual 1 2, ex_accrual 2 1] ex_displaced
     (available_snapshot ex_rebate_room) ex_market ex_requirements =
   Inr (AsReady \<lparr>bp_batch_id = 9, bp_strategy = StrategyKey 1 2 3, bp_token_in = 5, bp_token_out = 6,
     bp_amount_in = 100, bp_amount_out = 200, bp_gross_surplus = 100, bp_safe_gas_cost = 12,
     bp_maker_rebate = 84, bp_executor_profit = 4, bp_deviation_bps = 30000,
     bp_allocations = [\<lparr>al_trade_id = 1, al_amount = 56\<rparr>, \<lparr>al_trade_id = 2, al_amount = 28\<rparr>]\<rparr>)"
proof -
  have "best_direction ex_displaced (available_snapshot ex_rebate_room) ex_market =
    Inr (Some \<lparr>dr_candidate = ex_restoring, dr_price_limit = 1, dr_output_value_rate = 1, dr_deviation_bps = 30000\<rparr>)"
    using ex_directions by (simp add: best_direction_def better_direction_def ex_market_def)
  moreover have "ms_pair ex_displaced = Some (TokenPair 5 6)" 
    by (simp add: ms_pair_def ex_displaced_def token_pair_new_def bm_keys_def)
  moreover have "allocate 84 [ex_accrual 1 2, ex_accrual 2 1] =
    Inr [\<lparr>al_trade_id = 1, al_amount = 56\<rparr>, \<lparr>al_trade_id = 2, al_amount = 28\<rparr>]"
    by (simp add: allocate_def ex_accrual_def checked_add_def checked_sub_def u256_max_def ratio_new_def
        ratio_floor_def ratio_mul_def ratio_from_def from_bigint_def)
  moreover have "scale_bps 10 12000 True = Inr 12" "scale_bps 88 EXECUTOR_SHARE_BPS False = Inr 4"
    using scale_bps_floor [of 88 EXECUTOR_SHARE_BPS]
    by (simp_all add: scale_bps_def ratio_new_def BASIS_POINTS_def EXECUTOR_SHARE_BPS_def ratio_ceil_def
        ratio_mul_def ratio_from_def from_bigint_def u256_max_def Let_def)
  moreover have "cd_cap_out ex_restoring = 300" "cd_token_in ex_restoring = 5" "cd_token_out ex_restoring = 6"
    "ms_key ex_displaced = StrategyKey 1 2 3" "ra_strategy (ex_accrual i w) = StrategyKey 1 2 3"
    "token_pair_new (ra_token_in (ex_accrual i w)) (ra_token_out (ex_accrual i w)) = TokenPair 5 6"
    "token_pair_new (rm_token_a ex_market) (rm_token_b ex_market) = TokenPair 5 6"
    "rm_token_a ex_market \<noteq> rm_token_b ex_market" "rm_a_to_b ex_market = 1" "rm_b_to_a ex_market = 1"
    "rp_deviation_threshold_bps (policy_config_new 100 12000) = 100"
    "rp_gas_safety_bps (policy_config_new 100 12000) = 12000" for i w
    by (simp_all add: ex_restoring_def ex_displaced_def ex_accrual_def ex_market_def policy_config_new_def
        token_pair_new_def BASIS_POINTS_def)
  moreover have "ratio_floor (ratio_mul (ratio_from 200) 1) = Some 200"
    by (simp add: ratio_floor_def ratio_mul_def ratio_from_def from_bigint_def u256_max_def)
  ultimately show ?thesis
    by (simp add: assess_def ex_fill assess_direction_def share_surplus_def Let_def curve_of_rebate_def
        ex_requirements_def checked_sub_def ratio_is_zero_def)
qed

theorem ready_plan_is_profitable_witness:
  "\<exists>plan. assess (policy_config_new 100 12000) 9 [ex_accrual 1 2, ex_accrual 2 1] ex_displaced
     (available_snapshot ex_rebate_room) ex_market ex_requirements = Inr (AsReady plan) \<and>
   bp_maker_rebate plan = 84 \<and> 100 \<le> bp_deviation_bps plan \<and>
   sum_list (map al_amount (bp_allocations plan)) = bp_maker_rebate plan"
  using ready_plan_is_profitable [OF ex_assess] ex_assess by simp

theorem ready_plan_is_reservable_witness:
  "\<exists>plan. assess (policy_config_new 100 12000) 9 [ex_accrual 1 2, ex_accrual 2 1] ex_displaced
     (available_snapshot ex_rebate_room) ex_market ex_requirements = Inr (AsReady plan) \<and>
   can_reserve ex_rebate_room (for_rebate 77 9 (rebate_sources (ms_key ex_displaced) plan) 1000) = Inr ()"
proof -
  have "closed_form (ms_curve ex_displaced)" by (simp add: closed_form_def ex_displaced_def)
  moreover have "ledger_shape ex_rebate_room"
    by (simp add: ledger_shape_def ex_rebate_room_def bm_wf_def u256_max_def less_account_key_def budget_def)
  moreover have "0 \<le> rm_a_to_b ex_market" "0 \<le> rm_b_to_a ex_market" by (simp_all add: ex_market_def)
  moreover have "bm_get (lg_reservations ex_rebate_room) 77 = None" by (simp add: ex_rebate_room_def)
  ultimately show ?thesis using ready_plan_is_reservable [OF ex_assess, of 77 1000] ex_assess by blast
qed

end
