(* ===== verification/Rebate_System.thy ===== *)
theory Rebate_System
  imports Rebate_Holds Rebate_Economics
begin

text \<open>
  The rebate service keeps its three records in step. The locale \<open>rebate_desk\<close> joins the contracts of
  the ledger store and of the rebate store with what the service relies on in its call builder; inside
  it every operation is shown to keep the invariant of Rebate_Holds, on success and on every error,
  whatever the faults of the two stores.
\<close>

section \<open>Valid batches\<close>

lemma validate_batch_iff:
  "validate_batch b = Inr () \<longleftrightarrow> accruals_valid b \<and>
     (\<forall>plan. planned (rb_state b) = Some plan \<longrightarrow> plan_matches_batch plan b) \<and>
     (\<forall>e. rb_state b = BsReady e \<longrightarrow> execution_matches b e)"
  by (auto simp: validate_batch_def split: option.splits rebate_batch_state.splits)

lemma accruals_valid_state [simp]: "accruals_valid (b\<lparr>rb_state := st\<rparr>) = accruals_valid b"
  by (simp add: accruals_valid_def)

lemma plan_matches_state [simp]: "plan_matches_batch p (b\<lparr>rb_state := st\<rparr>) = plan_matches_batch p b"
  by (simp add: plan_matches_batch_def)

lemma execution_matches_state [simp]: "execution_matches (b\<lparr>rb_state := st\<rparr>) e = execution_matches b e"
  by (simp add: execution_matches_def)

lemma keyed_state [simp]: "keyed (b\<lparr>rb_state := st\<rparr>) = keyed b"
  by (simp add: keyed_def)

lemma set_bm_insert: "bm_wf m \<Longrightarrow> bm_get m k = None \<Longrightarrow> set (bm_insert k v m) = insert (k, v) (set m)"
  by (induction k v m rule: bm_insert.induct) (auto simp: bm_wf_Cons split: if_splits)

text \<open>Adding a new accrual keeps a batch in canonical form and valid.\<close>

definition grown :: "rebate_batch \<Rightarrow> rebate_accrual \<Rightarrow> rebate_batch" where
  "grown b a = b\<lparr>rb_accruals := bm_insert (ra_trade_id a) a (rb_accruals b)\<rparr>"

lemma grown_ok:
  assumes "keyed b" "bm_get (rb_accruals b) (ra_trade_id a) = None" "ra_strategy a = rb_strategy b"
  shows "keyed (grown b a)" "set (rb_accruals b) \<subseteq> set (rb_accruals (grown b a))"
    "accruals_valid b \<Longrightarrow> rb_pair b = token_pair_new (ra_token_in a) (ra_token_out a) \<Longrightarrow>
     validate_accrual a = Inr () \<Longrightarrow> accruals_valid (grown b a)"
proof -
  have set: "set (rb_accruals (grown b a)) = insert (ra_trade_id a, a) (set (rb_accruals b))"
    using set_bm_insert [OF keyedD(1) [OF assms(1)] assms(2)] by (simp add: grown_def)
  have wf: "bm_wf (rb_accruals (grown b a))" using keyedD(1) [OF assms(1)] by (simp add: grown_def)
  have same: "rb_strategy (grown b a) = rb_strategy b" "rb_pair (grown b a) = rb_pair b" by (simp_all add: grown_def)
  show "keyed (grown b a)" unfolding keyed_def same set using wf keyedD(2,3) [OF assms(1)] assms(3) by auto
  show "set (rb_accruals b) \<subseteq> set (rb_accruals (grown b a))" by (auto simp: set)
  assume "accruals_valid b" "rb_pair b = token_pair_new (ra_token_in a) (ra_token_out a)" "validate_accrual a = Inr ()"
  then show "accruals_valid (grown b a)"
    using set assms(3) unfolding accruals_valid_def same by (auto simp flip: set_empty)
qed

lemma first_accrual_ok:
  fixes i
  assumes "validate_accrual a = Inr ()"
  defines "b \<equiv> rebate_batch_new i (token_pair_new (ra_token_in a) (ra_token_out a)) a"
  shows "keyed b" "accruals_valid b" "rb_strategy b = ra_strategy a" "rb_id b = i"
  using assms by (simp_all add: keyed_def accruals_valid_def rebate_batch_new_def bm_wf_Cons)

section \<open>Ready plans fit their batch\<close>

lemma amounts_fold:
  "acc + sum_list (map al_amount als) \<le> u256_max \<Longrightarrow>
   try_fold (\<lambda>sum al. ok_or Arithmetic (checked_add sum (al_amount al))) acc als = Inr (acc + sum_list (map al_amount als))"
  by (induction als arbitrary: acc) (simp_all add: checked_add_def add.assoc)

lemma distinct_bs_of_list: "distinct xs \<Longrightarrow> length (bs_of_list xs) = length xs"
  using bs_of_list_sorted [of xs] bs_of_list_set [of xs] by (metis distinct_card strict_sorted_iff)

lemma allocations_match:
  assumes "allocate r (bm_values (rb_accruals b)) = Inr als" "keyed b" "r \<le> u256_max"
  shows "let trades = bs_of_list (map al_trade_id als) in
      length trades = length als \<and> length trades = length (rb_accruals b) \<and>
      (\<forall>t \<in> set trades. bm_contains (rb_accruals b) t)"
    and "try_fold (\<lambda>sum al. ok_or Arithmetic (checked_add sum (al_amount al))) 0 als = Inr r"
proof -
  let ?as = "bm_values (rb_accruals b)"
  have "0 < weight_sum ?as" "weight_sum ?as \<le> u256_max" using allocate_Inr [OF assms(1)] by simp_all
  then obtain als' where "allocate r ?as = Inr als'" "sum_list (map al_amount als') = r"
    "allocation_ok r (weight_sum ?as) 0 ?as als'"
    using allocate_spec [OF _ _ assms(3)] by metis
  then have a: "sum_list (map al_amount als) = r" "map al_trade_id als = map ra_trade_id ?as"
    using assms(1) by (simp_all add: allocation_ok_def)
  have keys: "map ra_trade_id ?as = map fst (rb_accruals b)"
    using keyedD(2) [OF assms(2)] by (force simp: bm_values_def)
  then have t: "map al_trade_id als = map fst (rb_accruals b)" using a(2) by simp
  have d: "distinct (map al_trade_id als)" using bm.distinct_keys [OF keyedD(1) [OF assms(2)]] t by simp
  have "length als = length (rb_accruals b)" using arg_cong [OF t, of length] by simp
  moreover have "set (map al_trade_id als) = fst ` set (rb_accruals b)" using arg_cong [OF t, of set] by simp
  ultimately show "let trades = bs_of_list (map al_trade_id als) in
      length trades = length als \<and> length trades = length (rb_accruals b) \<and>
      (\<forall>t \<in> set trades. bm_contains (rb_accruals b) t)"
    using distinct_bs_of_list [OF d] by (simp add: Let_def)
  show "try_fold (\<lambda>sum al. ok_or Arithmetic (checked_add sum (al_amount al))) 0 als = Inr r"
    using amounts_fold [of 0 als] a(1) assms(3) by simp
qed

lemma assess_pair:
  assumes "assess p batch (bm_values (rb_accruals b)) strategy caps market requirements = Inr x" "accruals_valid b"
  shows "rb_pair b = token_pair_new (rm_token_a market) (rm_token_b market)"
proof -
  obtain t a where a: "(t, a) \<in> set (rb_accruals b)" using assms(2) by (cases "rb_accruals b") (auto simp: accruals_valid_def)
  then have "token_pair_new (ra_token_in a) (ra_token_out a) = rb_pair b" using assms(2) by (auto simp: accruals_valid_def)
  moreover have "a \<in> set (bm_values (rb_accruals b))" using a by (force simp: bm_values_def)
  ultimately show ?thesis using assms(1) by (auto simp: assess_def split: option.splits if_splits)
qed

text \<open>
  The premises a plan's fit rests on: a curve that gives no output for free, capacities and rates in
  range, and minimum rebates of at least one unit. The closed-form curves charge for every output; a
  pegged curve may round the price of one down to nothing (\<open>pegged_output_can_be_free\<close>), so there it is
  a premise on the strategy. The bound on the amount is its type in the code.
\<close>

definition charges :: "maker_strategy \<Rightarrow> available_caps \<Rightarrow> bool" where
  "charges strategy caps \<longleftrightarrow> closed_form (ms_curve strategy) \<or>
     (\<forall>token_in token_out c amount_out amount_in. build_candidate strategy caps token_in token_out = Some c \<longrightarrow>
        net_quote_exact_out c amount_out = Inr amount_in \<longrightarrow> 0 < amount_out \<longrightarrow>
        0 < amount_in \<and> amount_out \<le> u256_max)"

lemma ready_plan_fits:
  assumes run: "assess p (rb_id b) (bm_values (rb_accruals b)) strategy caps market requirements = Inr (AsReady plan)"
    and b: "keyed b" "accruals_valid b" "rb_strategy b = ms_key strategy"
    and cf: "charges strategy caps" and room: "\<And>a. caps_available caps a \<le> u256_max"
    and rates: "0 \<le> rm_a_to_b market" "0 \<le> rm_b_to_a market"
    and mins: "\<forall>req \<in> set requirements. 0 < rr_minimum_maker_rebate req"
  shows "plan_matches_batch plan b" "bp_strategy plan = ms_key strategy" "bp_batch_id plan = rb_id b"
    "bp_amount_out plan \<le> u256_max"
proof -
  obtain c rate f where c: "bp_batch_id plan = rb_id b" "bp_strategy plan = ms_key strategy"
    "priced_from strategy caps market plan c rate" and gross: "bp_gross_surplus plan \<le> u256_max"
    and shares: "shares_surplus p requirements plan"
    and al: "allocate (bp_maker_rebate plan) (bm_values (rb_accruals b)) = Inr (bp_allocations plan)"
    and f: "net_quote_with_limit c (full_input_bound c) (1 / rate) = Inr f" "lq_limited f" "lq_amount_out f = bp_amount_out plan"
    by (rule ready_plan_facts [OF run]) (rule that)
  have build: "build_candidate strategy caps (bp_token_in plan) (bp_token_out plan) = Some c"
    and rate: "market_rate market (bp_token_out plan) (bp_token_in plan) = Some rate"
    and inout: "net_quote_exact_out c (bp_amount_out plan) = Inr (bp_amount_in plan)" "0 < bp_amount_out plan"
    and toks: "{bp_token_in plan, bp_token_out plan} = {rm_token_a market, rm_token_b market}"
    using c(3) by (simp_all add: priced_from_def)
  note cand = build_candidate_Some [OF build]
  have amounts: "0 < bp_amount_in plan \<and> bp_amount_out plan \<le> u256_max"
  proof (cases "closed_form (ms_curve strategy)")
    case True
    then have venue: "venue_ok c" using cand room by (simp add: venue_ok_def)
    have "0 \<le> 1 / rate" using rate rates by (auto simp: market_rate_def split: if_splits)
    then have "bp_amount_out plan \<le> cd_cap_out c" using limited_fill_within_cap [OF venue _ f(1,2)] f(3) by simp
    then have "bp_amount_out plan \<le> u256_max" using venue unfolding venue_ok_def by linarith
    then show ?thesis using priced_quote.costs [OF venue_priced [OF venue] inout] by simp
  next
    case False
    then show ?thesis using cf build inout unfolding charges_def by blast
  qed
  then show "bp_amount_out plan \<le> u256_max" ..
  have amount: "0 < bp_amount_in plan" using amounts ..
  have rebate: "0 < bp_maker_rebate plan" "bp_maker_rebate plan \<le> u256_max"
    using shares mins gross by (auto simp: shares_surplus_def)
  have "token_pair_new (bp_token_in plan) (bp_token_out plan) = rb_pair b"
    unfolding assess_pair [OF run b(2)] using toks token_pair_new_commute by (metis doubleton_eq_iff)
  then show "plan_matches_batch plan b"
    using allocations_match [OF al b(1) rebate(2)] c(1,2) b(3) inout(2) amount rebate(1)
    by (simp add: plan_matches_batch_def Let_def)
  show "bp_strategy plan = ms_key strategy" "bp_batch_id plan = rb_id b" by (fact c)+
qed

text \<open>The inputs of an evaluation that the worker supplies.\<close>

definition evaluation_ok :: "market_data \<Rightarrow> evaluation_input \<Rightarrow> bool" where
  "evaluation_ok md input \<longleftrightarrow> charges (ev_strategy input) (ev_caps input) \<and>
     (\<forall>a. caps_available (ev_caps input) a \<le> u256_max) \<and>
     (\<forall>m \<in> set (ev_minimums input). 0 < rn_minimum_maker_rebate m) \<and>
     (\<forall>req m. md_book md req = Inr m \<longrightarrow> 0 \<le> rm_a_to_b m \<and> 0 \<le> rm_b_to_a m)"

lemma requirements_minimum:
  assumes "requirements_of cfg md pair gas ms = Inr reqs" "\<forall>m \<in> set ms. 0 < rn_minimum_maker_rebate m"
  shows "\<forall>req \<in> set reqs. 0 < rr_minimum_maker_rebate req"
  using assms by (induction ms arbitrary: reqs) (auto simp: res split: if_splits)

lemma economics_ok:
  assumes "economics cfg md strategy ms = Inr (market, reqs)" "\<forall>m \<in> set ms. 0 < rn_minimum_maker_rebate m"
    and "\<forall>req m. md_book md req = Inr m \<longrightarrow> 0 \<le> rm_a_to_b m \<and> 0 \<le> rm_b_to_a m"
  shows "\<forall>req \<in> set reqs. 0 < rr_minimum_maker_rebate req" "0 \<le> rm_a_to_b market" "0 \<le> rm_b_to_a market"
  using assms requirements_minimum by (fastforce simp: economics_def market_between_def res)+

section \<open>The desk\<close>

abbreviation guarded_keys :: "('l, 's) rebate_world \<Rightarrow> strategy_key set" where
  "guarded_keys w \<equiv> set (sg_guarded (rw_guard w))"

abbreviation memory :: "('l, 's) rebate_world \<Rightarrow> batch_view" where
  "memory w \<equiv> bm_get (rw_batches w)"

abbreviation held :: "('l, 's) rebate_world \<Rightarrow> hold_map" where
  "held w \<equiv> hold (sv_ledger (rw_ledger w))"

lemma guard_keys [simp]:
  "set (sg_guarded (guard G k)) = insert k (set (sg_guarded G))" "set (sg_guarded (unguard G k)) = set (sg_guarded G) - {k}"
  by (simp_all add: guard_def unguard_def)

lemma memory_update [simp]:
  "bm_get (bm_insert k b m) = (bm_get m)(k \<mapsto> b)" "bm_get (bm_remove k m) = (bm_get m)(k := None)"
  by (simp_all add: fun_eq_iff)

text \<open>
  What the service relies on in the builder of a published call: it repeats the plan and the
  reservation, fits the batch, and can be read back from the store.
\<close>

definition build_fits :: "(rebate_batch_state \<Rightarrow> bool) \<Rightarrow> call_builder \<Rightarrow> bool" where
  "build_fits readable mk \<longleftrightarrow>
     (\<forall>strategy plan r deadline t e. mk strategy plan r deadline t = Inr e \<longrightarrow>
        re_plan e = plan \<and> re_reservation e = r \<and> readable (BsReady e) \<and>
        (\<forall>b. rb_id b = bp_batch_id plan \<longrightarrow> rb_strategy b = bp_strategy plan \<longrightarrow> execution_matches b e))"

locale rebate_desk =
  led: ledger_store "rq_ledger_store env" rows led_wf +
  reb: rebate_store "rq_store env" opened settling readable reb_wf reb_calm
  for env :: "('l, 's) rebate_env" and rows led_wf opened settling readable reb_wf reb_calm +
  fixes led_calm :: "'l \<Rightarrow> bool"
  assumes bounded: "bounded_source (rq_budgets env)"
    and builder: "build_fits readable (rq_build env)"
    and plain: "(\<And>e. st \<noteq> BsReady e) \<Longrightarrow> readable st"
    and led_calm_calls:
      "led_calm st' \<Longrightarrow> \<exists>st''. so_void (rq_ledger_store env) i st' = (Inr (), st'') \<and> led_calm st''"
      "led_calm st' \<Longrightarrow> \<exists>st''. so_post (rq_ledger_store env) i fs st' = (Inr (), st'') \<and> led_calm st''"
begin

abbreviation durable :: "('l, 's) rebate_world \<Rightarrow> batch_view" where
  "durable w \<equiv> opened (rw_store w)"

definition stores_ok :: "('l, 's) rebate_world \<Rightarrow> bool" where
  "stores_ok w \<longleftrightarrow> consistent rows led_wf (sv_ledger (rw_ledger w)) (sv_store (rw_ledger w)) \<and> reb_wf (rw_store w) \<and>
     bm_wf (rw_batches w)"

definition desk_inv :: "('l, 's) rebate_world \<Rightarrow> bool" where
  "desk_inv w \<longleftrightarrow> stores_ok w \<and>
     rebate_inv (memory w) (durable w) (settling (rw_store w)) (held w) (guarded_keys w)"

text \<open>\<open>r\<close> is free for the batch of \<open>k\<close>: no other open batch has reserved it, and only its own batch may hold it.\<close>

definition free_for :: "strategy_key \<Rightarrow> reservation_id \<Rightarrow> ('l, 's) rebate_world \<Rightarrow> bool" where
  "free_for k r w \<longleftrightarrow> r \<noteq> 0 \<and>
     (\<forall>k' d. k' \<noteq> k \<longrightarrow> durable w k' = Some d \<longrightarrow> active_reservation (rb_state d) \<noteq> Some r) \<and>
     (\<forall>ow ss. held w r = Some (ow, ss) \<longrightarrow> (\<exists>d. durable w k = Some d \<and> ow = OwnerRebate (rb_id d)))"

text \<open>
  The assertion that follows one operation on the batch of \<open>k\<close>: the invariant, the batch in memory
  and on record, whether routing is closed, which reservations are known to be released and which
  are free.
\<close>

definition desk ::
  "strategy_key \<Rightarrow> rebate_batch option \<Rightarrow> rebate_batch option \<Rightarrow> bool \<Rightarrow> reservation_id set \<Rightarrow> reservation_id set \<Rightarrow>
   ('l, 's) rebate_world \<Rightarrow> bool" where
  "desk k m d g R F w \<longleftrightarrow> desk_inv w \<and> memory w k = m \<and> durable w k = d \<and> (g \<longrightarrow> k \<in> guarded_keys w) \<and>
     (\<forall>r \<in> R. held w r = None) \<and> (\<forall>r \<in> F. free_for k r w)"

lemma deskD:
  assumes "desk k m d g R F w"
  shows "desk_inv w" "memory w k = m" "durable w k = d" "g \<Longrightarrow> k \<in> guarded_keys w" "r \<in> R \<Longrightarrow> held w r = None"
    "r \<in> F \<Longrightarrow> free_for k r w" "stores_ok w"
    "rebate_inv (memory w) (durable w) (settling (rw_store w)) (held w) (guarded_keys w)"
  using assms by (simp_all add: desk_def desk_inv_def)

lemma desk_error: "desk k m d g R F w \<Longrightarrow> desk_inv w"
  by (rule deskD)

lemma desk_change:
  assumes "desk k m d g R F w"
    and "stores_ok w'" "rebate_inv (memory w') (durable w') (settling (rw_store w')) (held w') (guarded_keys w')"
    and "memory w' k = m'" "durable w' k = d'" "g' \<Longrightarrow> k \<in> guarded_keys w'"
    and "\<And>r. r \<in> R' \<Longrightarrow> held w' r = None" "\<And>r. r \<in> F \<Longrightarrow> free_for k r w \<Longrightarrow> free_for k r w'"
  shows "desk k m' d' g' R' F w'"
  using assms deskD(6) [OF assms(1)] by (simp add: desk_def desk_inv_def)

lemma stores_okD:
  assumes "stores_ok w"
  shows "consistent rows led_wf (sv_ledger (rw_ledger w)) (sv_store (rw_ledger w))" "reb_wf (rw_store w)" "bm_wf (rw_batches w)"
  using assms by (simp_all add: stores_ok_def)

subsection \<open>Guards and memory\<close>

lemma guard_triple: "triple (desk k m d g R F) (guard_strategy k) (\<lambda>_. desk k m d True R F) E"
  unfolding guard_strategy_def
proof (rule triple_emodify)
  fix w assume pre: "desk k m d g R F w"
  let ?w = "w\<lparr>rw_guard := guard (rw_guard w) k\<rparr>"
  show "desk k m d True R F ?w"
    by (rule desk_change [OF pre])
      (use deskD [OF pre] inv_guard [OF deskD(8) [OF pre], of k] in \<open>simp_all add: stores_ok_def free_for_def\<close>)
qed

lemma unguard_triple:
  assumes "\<And>b. m = Some b \<Longrightarrow> rb_state b = BsAccumulating"
  shows "triple (desk k m d g R F) (unguard_strategy k) (\<lambda>_. desk k m d False R F) E"
  unfolding unguard_strategy_def
proof (rule triple_emodify)
  fix w assume pre: "desk k m d g R F w"
  let ?w = "w\<lparr>rw_guard := unguard (rw_guard w) k\<rparr>"
  have "rebate_inv (memory w) (durable w) (settling (rw_store w)) (held w) (guarded_keys w - {k})"
    using inv_unguard [OF deskD(8) [OF pre]] assms deskD(2) [OF pre] by metis
  then show "desk k m d False R F ?w"
    by (intro desk_change [OF pre]) (use deskD [OF pre] in \<open>simp_all add: stores_ok_def free_for_def\<close>)
qed

text \<open>Putting a batch that mirrors the durable one.\<close>

lemma put_triple:
  assumes "d = Some d'" "rb_strategy b = k" "rb_state b \<noteq> BsAccumulating \<Longrightarrow> g"
    and mirror: "\<And>w. desk k m d g R F w \<Longrightarrow> mirrors (held w) b d'"
  shows "triple (desk k m d g R F) (put_batch b) (\<lambda>_. desk k (Some b) d g R F) E"
  unfolding put_batch_def
proof (rule triple_emodify)
  fix w assume pre: "desk k m d g R F w"
  let ?w = "w\<lparr>rw_batches := bm_insert (rb_strategy b) b (rw_batches w)\<rparr>"
  have "rebate_inv ((memory w)(k \<mapsto> b)) (durable w) (settling (rw_store w)) (held w) (guarded_keys w)"
    by (rule inv_put [OF deskD(8) [OF pre]]) (use deskD(3,4) [OF pre] assms(1,3) mirror [OF pre] in auto)
  then show "desk k (Some b) d g R F ?w"
    by (intro desk_change [OF pre]) (use deskD [OF pre] in \<open>simp_all add: assms(2) stores_ok_def free_for_def\<close>)
qed

subsection \<open>Saving\<close>

lemma opened_ids: "reb_wf s \<Longrightarrow> ids_ok (opened s)"
  unfolding ids_ok_def using reb.opened_key reb.opened_id by blast

definition saved_desk ::
  "strategy_key \<Rightarrow> rebate_batch option \<Rightarrow> rebate_batch \<Rightarrow> bool \<Rightarrow> reservation_id set \<Rightarrow> reservation_id set \<Rightarrow>
   ('l, 's) rebate_world \<Rightarrow> bool" where
  "saved_desk k m b g R F w \<longleftrightarrow>
     desk k (Some b) (Some b) g R F (w\<lparr>rw_batches := bm_insert k b (rw_batches w)\<rparr>) \<and> memory w k = m \<and>
     bm_wf (rw_batches w)"

lemma save_triple_from:
  assumes start: "\<And>w. P w \<Longrightarrow> desk k m d g R F w"
    and b: "keyed b" "readable (rb_state b)" "rb_strategy b = k" "rb_state b \<noteq> BsAccumulating \<Longrightarrow> g"
    and sub: "\<And>d'. d = Some d' \<Longrightarrow> set (rb_accruals d') \<subseteq> set (rb_accruals b)"
    and ok: "\<And>w. P w \<Longrightarrow> grows_to d b \<Longrightarrow> ids_ok ((durable w)(k \<mapsto> b)) \<Longrightarrow>
      durable_ok (settling (rw_store w)) (held w) b"
  shows "triple P (save_batch env b)
    (\<lambda>_. saved_desk k m b g R F) (\<lambda>_. desk k m d g R F)"
proof (rule tripleI)
  fix w x w' assume P: "P w" and run: "save_batch env b w = (Inr x, w')"
  note pre = start [OF P]
  obtain u s' where call: "ro_save (rq_store env) b (rw_store w) = (Inr u, s')" and w': "w' = w\<lparr>rw_store := s'\<rparr>"
    using run by (cases "ro_save (rq_store env) b (rw_store w)"; cases "fst (ro_save (rq_store env) b (rw_store w))")
      (auto simp: save_batch_def on_rebates_def emap_err_def on_part_def)
  note st = stores_okD [OF deskD(7) [OF pre]]
  have sub': "opened (rw_store w) (rb_strategy b) = Some d' \<Longrightarrow> set (rb_accruals d') \<subseteq> set (rb_accruals b)" for d'
    using sub deskD(3) [OF pre] b(3) by simp
  have s': "reb_wf s'" "opened s' = (durable w)(k \<mapsto> b)" "settling s' = settling (rw_store w)" "grows_to d b"
    using reb.save_works [OF st(2) b(1,2) sub' call] b(3) deskD(3) [OF pre] by simp_all
  have ids: "ids_ok ((durable w)(k \<mapsto> b))" using opened_ids [OF s'(1)] s'(2) by simp
  have "rebate_inv ((memory w)(k \<mapsto> b)) ((durable w)(k \<mapsto> b)) (settling (rw_store w)) (held w) (guarded_keys w)"
    unfolding b(3) [symmetric]
    by (rule inv_save [OF deskD(8) [OF pre]])
      (use ids s'(4) deskD(3,4) [OF pre] ok [OF P s'(4) ids] b(3,4) in \<open>auto simp: grows_to_def\<close>)
  moreover have "free_for k r (w\<lparr>rw_store := s', rw_batches := bm_insert k b (rw_batches w)\<rparr>)" if "free_for k r w" for r
    using that s'(2,4) deskD(3) [OF pre] by (auto simp: free_for_def grows_to_def)
  ultimately have "desk k (Some b) (Some b) g R F (w\<lparr>rw_store := s', rw_batches := bm_insert k b (rw_batches w)\<rparr>)"
    by (intro desk_change [OF pre])
      (use deskD(4,5) [OF pre] s' st in \<open>simp_all add: stores_ok_def\<close>)
  then show "saved_desk k m b g R F w'"
    using deskD(2) [OF pre] st(3) by (simp add: w' saved_desk_def)
next
  fix w e w' assume P: "P w" and run: "save_batch env b w = (Inl e, w')"
  note pre = start [OF P]
  obtain u s' where call: "ro_save (rq_store env) b (rw_store w) = (Inl u, s')" and w': "w' = w\<lparr>rw_store := s'\<rparr>"
    using run by (cases "ro_save (rq_store env) b (rw_store w)"; cases "fst (ro_save (rq_store env) b (rw_store w))")
      (auto simp: save_batch_def on_rebates_def emap_err_def on_part_def)
  note st = stores_okD [OF deskD(7) [OF pre]]
  have s': "reb_wf s'" "opened s' = durable w" "settling s' = settling (rw_store w)"
    using reb.save_fails [OF st(2) call] by simp_all
  show "desk k m d g R F w'"
    by (rule desk_change [OF pre]) (use deskD [OF pre] s' st in \<open>simp_all add: w' stores_ok_def free_for_def\<close>)
qed

lemma save_triple:
  assumes "keyed b" "readable (rb_state b)" "rb_strategy b = k" "rb_state b \<noteq> BsAccumulating \<Longrightarrow> g"
    and "\<And>d'. d = Some d' \<Longrightarrow> set (rb_accruals d') \<subseteq> set (rb_accruals b)"
    and "\<And>w. desk k m d g R F w \<Longrightarrow> grows_to d b \<Longrightarrow> ids_ok ((durable w)(k \<mapsto> b)) \<Longrightarrow>
      durable_ok (settling (rw_store w)) (held w) b"
  shows "triple (desk k m d g R F) (save_batch env b) (\<lambda>_. saved_desk k m b g R F) (\<lambda>_. desk k m d g R F)"
  by (rule save_triple_from [OF _ assms]) assumption

lemma put_saved:
  assumes "rb_strategy b = k"
  shows "triple (saved_desk k m b g R F) (put_batch b) (\<lambda>_. desk k (Some b) (Some b) g R F) E"
  unfolding put_batch_def assms by (rule triple_emodify) (simp add: saved_desk_def)

text \<open>Saving a batch that memory already has.\<close>

lemma insert_present: "bm_wf m \<Longrightarrow> bm_get m k = Some b \<Longrightarrow> bm_insert k b m = m"
  by (rule bm.entries_ext) auto

lemma save_present:
  assumes "keyed b" "readable (rb_state b)" "rb_strategy b = k" "rb_state b \<noteq> BsAccumulating \<Longrightarrow> g"
    and "\<And>d'. d = Some d' \<Longrightarrow> set (rb_accruals d') \<subseteq> set (rb_accruals b)"
    and "\<And>w. desk k (Some b) d g R F w \<Longrightarrow> grows_to d b \<Longrightarrow> ids_ok ((durable w)(k \<mapsto> b)) \<Longrightarrow>
      durable_ok (settling (rw_store w)) (held w) b"
  shows "triple (desk k (Some b) d g R F) (save_batch env b) (\<lambda>_. desk k (Some b) (Some b) g R F) (\<lambda>_. desk k (Some b) d g R F)"
proof (rule triple_weaken [OF save_triple [OF assms]])
  fix w assume "saved_desk k (Some b) b g R F w"
  then show "desk k (Some b) (Some b) g R F w" using insert_present [of "rw_batches w" k b] by (simp add: saved_desk_def)
qed

subsection \<open>Holds\<close>

lemma on_hold_run:
  "on_hold c w = (map_sum RfLedger id (fst (c (rw_ledger w))), w\<lparr>rw_ledger := snd (c (rw_ledger w))\<rparr>)"
  by (simp add: on_hold_def emap_err_def on_part_def split: prod.split)

definition if_held ::
  "reservation_id \<Rightarrow> ('l ledger_service \<Rightarrow> 'l service_result) \<Rightarrow> ('l, 's, unit) rebate_call" where
  "if_held r c =
     ebind (eread (\<lambda>w. reservation_sources (rw_ledger w) r)) (\<lambda>held.
       case held of None \<Rightarrow> eok () | Some _ \<Rightarrow> on_hold c)"

text \<open>A call that ends the hold \<open>r\<close> of a batch if it is held.\<close>

lemma if_held_triple:
  assumes act: "active_reservation (rb_state d) = Some r"
    and call: "\<And>w res sv'. desk k m (Some d) g R F w \<Longrightarrow> held w r \<noteq> None \<Longrightarrow> c (rw_ledger w) = (res, sv') \<Longrightarrow>
      consistent rows led_wf (sv_ledger sv') (sv_store sv') \<and>
      hold (sv_ledger sv') = (if isl res then held w else (held w)(r := None))"
    and gone: "\<And>w e. desk k m (Some d) g R F w \<Longrightarrow> X (rw_store w) \<Longrightarrow> rb_state d = BsReady e \<Longrightarrow> settling (rw_store w) (rb_id d) \<noteq> None"
  shows "triple (\<lambda>w. desk k m (Some d) g R F w \<and> X (rw_store w)) (if_held r c)
    (\<lambda>_ w. desk k m (Some d) g (insert r R) F w \<and> X (rw_store w)) (\<lambda>_. desk k m (Some d) g R F)"
  unfolding if_held_def
proof (rule triple_ebind [OF triple_eread])
  fix h :: "reservation_source list option"
  show "triple (\<lambda>w. (desk k m (Some d) g R F w \<and> X (rw_store w)) \<and> h = reservation_sources (rw_ledger w) r)
      (case h of None \<Rightarrow> eok () | Some _ \<Rightarrow> on_hold c)
      (\<lambda>_ w. desk k m (Some d) g (insert r R) F w \<and> X (rw_store w)) (\<lambda>_. desk k m (Some d) g R F)"
  proof (cases h)
    case None
    have "triple (\<lambda>w. (desk k m (Some d) g R F w \<and> X (rw_store w)) \<and> h = reservation_sources (rw_ledger w) r) (eok ())
      (\<lambda>_ w. desk k m (Some d) g (insert r R) F w \<and> X (rw_store w)) (\<lambda>_. desk k m (Some d) g R F)"
      by (rule triple_eok) (auto simp: None desk_def reservation_sources_hold)
    then show ?thesis by (simp only: None option.case)
  next
    case (Some ss)
    have "triple (\<lambda>w. (desk k m (Some d) g R F w \<and> X (rw_store w)) \<and> h = reservation_sources (rw_ledger w) r) (on_hold c)
      (\<lambda>_ w. desk k m (Some d) g (insert r R) F w \<and> X (rw_store w)) (\<lambda>_. desk k m (Some d) g R F)"
    proof (rule tripleI)
      fix w x w'
      assume "(desk k m (Some d) g R F w \<and> X (rw_store w)) \<and> h = reservation_sources (rw_ledger w) r" and run: "on_hold c w = (Inr x, w')"
      then have pre: "desk k m (Some d) g R F w" and X: "X (rw_store w)" and hr: "held w r \<noteq> None"
        by (cases "held w r"; auto simp: Some reservation_sources_hold)+
      obtain sv' where c: "c (rw_ledger w) = (Inr (), sv')" "w' = w\<lparr>rw_ledger := sv'\<rparr>"
        using run by (cases "c (rw_ledger w)"; cases "fst (c (rw_ledger w))") (auto simp: on_hold_run)
      note k = call [OF pre hr c(1)]
      have "rebate_inv (memory w) (durable w) (settling (rw_store w)) ((held w)(r := None)) (guarded_keys w)"
        by (rule inv_released [OF deskD(8,3) [OF pre] act]) (rule gone [OF pre X])
      then have "desk k m (Some d) g (insert r R) F w'"
        by (intro desk_change [OF pre])
          (use deskD [OF pre] k stores_okD [OF deskD(7) [OF pre]] in \<open>auto simp: c(2) stores_ok_def free_for_def split: if_splits\<close>)
      then show "desk k m (Some d) g (insert r R) F w' \<and> X (rw_store w')" using X by (simp add: c(2))
    next
      fix w e w'
      assume "(desk k m (Some d) g R F w \<and> X (rw_store w)) \<and> h = reservation_sources (rw_ledger w) r" and run: "on_hold c w = (Inl e, w')"
      then have pre: "desk k m (Some d) g R F w" and X: "X (rw_store w)" and hr: "held w r \<noteq> None"
        by (cases "held w r"; auto simp: Some reservation_sources_hold)+
      obtain e' sv' where c: "c (rw_ledger w) = (Inl e', sv')" "w' = w\<lparr>rw_ledger := sv'\<rparr>"
        using run by (cases "c (rw_ledger w)"; cases "fst (c (rw_ledger w))") (auto simp: on_hold_run)
      note k = call [OF pre hr c(1)]
      show "desk k m (Some d) g R F w'"
        by (rule desk_change [OF pre])
          (use deskD [OF pre] k stores_okD [OF deskD(7) [OF pre]] in \<open>auto simp: c(2) stores_ok_def free_for_def\<close>)
    qed
    then show ?thesis by (simp only: Some option.case)
  qed
qed

lemma release_triple:
  assumes "active_reservation (rb_state d) = Some r" "\<And>e. rb_state d \<noteq> BsReady e"
  shows "triple (desk k m (Some d) g R F) (release_if_held env r) (\<lambda>_. desk k m (Some d) g (insert r R) F)
    (\<lambda>_. desk k m (Some d) g R F)"
proof -
  have "release_if_held env r = if_held r (service_void (rq_ledger_store env) r)"
    by (simp add: release_if_held_def if_held_def)
  moreover have "triple (\<lambda>w. desk k m (Some d) g R F w \<and> True) (if_held r (service_void (rq_ledger_store env) r))
      (\<lambda>_ w. desk k m (Some d) g (insert r R) F w \<and> True) (\<lambda>_. desk k m (Some d) g R F)"
  proof (rule if_held_triple [OF assms(1), where X = "\<lambda>_. True"])
    fix w res sv' assume pre: "desk k m (Some d) g R F w" and run: "service_void (rq_ledger_store env) r (rw_ledger w) = (res, sv')"
    show "consistent rows led_wf (sv_ledger sv') (sv_store sv') \<and>
        hold (sv_ledger sv') = (if isl res then held w else (held w)(r := None))"
      using led.consistent_commands(3) [OF stores_okD(1) [OF deskD(7) [OF pre]], of r] service_hold(1) [OF run] run by simp
  qed (use assms(2) in blast)
  ultimately show ?thesis by simp
qed

lemma desk_durable:
  assumes "desk k m (Some d) g R F w"
  shows "durable_ok (settling (rw_store w)) (held w) d" "rb_strategy d = k" "keyed d" "accruals_valid d"
proof -
  have v: "durable w k = Some d" by (rule deskD(3) [OF assms])
  show d: "durable_ok (settling (rw_store w)) (held w) d"
    using rebate_invD(3) [OF deskD(8) [OF assms], of k] v by (auto elim: slot_SomeD)
  show "rb_strategy d = k" "keyed d" using reb.opened_key [OF stores_okD(2) [OF deskD(7) [OF assms]] v] by simp_all
  show "accruals_valid d" using durable_okD(1) [OF d] by (simp add: validate_batch_iff)
qed

lemma desk_memory:
  assumes "desk k (Some b) (Some d) g R F w"
  shows "mirrors (held w) b d" "rb_strategy b = k" "rb_id b = rb_id d" "rb_pair b = rb_pair d"
    "rb_accruals b = rb_accruals d" "keyed b" "accruals_valid b"
proof -
  obtain d' where d': "durable w k = Some d'" "mirrors (held w) b d'" "rb_strategy b = k" "rb_id b = rb_id d'"
    "rb_pair b = rb_pair d'" "rb_accruals b = rb_accruals d'"
    by (rule memory_slot [OF deskD(8,2) [OF assms]]) (rule that)
  have [simp]: "d' = d" using d'(1) deskD(3) [OF assms] by simp
  show "mirrors (held w) b d" "rb_strategy b = k" "rb_id b = rb_id d" "rb_pair b = rb_pair d"
    "rb_accruals b = rb_accruals d" using d' by simp_all
  show "keyed b" "accruals_valid b"
    using desk_durable [OF assms] d' by (simp_all add: keyed_def accruals_valid_def)
qed

text \<open>A batch that follows \<open>d\<close> on record, with at least its accruals.\<close>

definition follows :: "rebate_batch \<Rightarrow> rebate_batch \<Rightarrow> bool" where
  "follows b d \<longleftrightarrow> keyed b \<and> accruals_valid b \<and> rb_strategy b = rb_strategy d \<and> rb_id b = rb_id d \<and>
     set (rb_accruals d) \<subseteq> set (rb_accruals b)"

lemma follows_state [simp]: "follows (b\<lparr>rb_state := st\<rparr>) d = follows b d"
  by (simp add: follows_def)

lemma desk_follows: "desk k (Some b) (Some d) g R F w \<Longrightarrow> follows b d"
  using desk_memory [of k b d g R F w] desk_durable(2) [of k "Some b" d g R F w] by (simp add: follows_def)

lemma idle_durable:
  assumes "desk k m (Some d) g R F w" "follows b d" "rb_state b = BsAccumulating \<or> rb_state b = BsGuarded"
    and "\<And>e. rb_state d \<noteq> BsReady e" "\<And>r. active_reservation (rb_state d) = Some r \<Longrightarrow> r \<in> R"
  shows "durable_ok (settling (rw_store w)) (held w) b"
  by (rule idle_ok [OF desk_durable(1) [OF assms(1)]])
    (use assms(2-5) deskD(5) [OF assms(1)] in \<open>auto simp: follows_def validate_batch_iff planned_def\<close>)

lemma marked_durable:
  assumes "desk k m (Some d) g R F w" "follows b d" "rb_state b = BsInvalidating r" "active_reservation (rb_state d) = Some r"
    and "\<And>e. rb_state d = BsReady e \<Longrightarrow> settling (rw_store w) (rb_id d) = None"
  shows "durable_ok (settling (rw_store w)) (held w) b"
  by (rule marked_ok [OF desk_durable(1) [OF assms(1)]])
    (use assms(2-5) in \<open>auto simp: follows_def validate_batch_iff planned_def\<close>)

lemma follows_save:
  assumes "follows b d" "rb_state b \<noteq> BsAccumulating \<Longrightarrow> g" "\<And>e. rb_state b \<noteq> BsReady e"
    and "\<And>w. desk k m (Some d) g R F w \<Longrightarrow> durable_ok (settling (rw_store w)) (held w) b"
  shows "triple (desk k m (Some d) g R F) (save_batch env b) (\<lambda>_. saved_desk k m b g R F) (\<lambda>_. desk k m (Some d) g R F)"
proof (rule triple_pre [where b = "rb_strategy d = k"])
  show "rb_strategy d = k" if "desk k m (Some d) g R F w" for w by (rule desk_durable(2) [OF that])
  assume "rb_strategy d = k"
  then show "triple (desk k m (Some d) g R F) (save_batch env b) (\<lambda>_. saved_desk k m b g R F) (\<lambda>_. desk k m (Some d) g R F)"
    using assms by (intro save_triple) (auto simp: follows_def intro: plain)
qed

lemma follows_present:
  assumes "follows b d" "rb_state b \<noteq> BsAccumulating \<Longrightarrow> g" "\<And>e. rb_state b \<noteq> BsReady e"
    and "\<And>w. desk k (Some b) (Some d) g R F w \<Longrightarrow> durable_ok (settling (rw_store w)) (held w) b"
  shows "triple (desk k (Some b) (Some d) g R F) (save_batch env b) (\<lambda>_. desk k (Some b) (Some b) g R F)
    (\<lambda>_. desk k (Some b) (Some d) g R F)"
proof (rule triple_pre [where b = "rb_strategy d = k"])
  show "rb_strategy d = k" if "desk k (Some b) (Some d) g R F w" for w by (rule desk_durable(2) [OF that])
  assume "rb_strategy d = k"
  then show "triple (desk k (Some b) (Some d) g R F) (save_batch env b) (\<lambda>_. desk k (Some b) (Some b) g R F)
    (\<lambda>_. desk k (Some b) (Some d) g R F)"
    using assms by (intro save_present) (auto simp: follows_def intro: plain)
qed

text \<open>Saving and putting a batch that follows the record.\<close>

lemma save_put:
  assumes "follows b d" "rb_state b \<noteq> BsAccumulating \<Longrightarrow> g" "\<And>e. rb_state b \<noteq> BsReady e"
    and "\<And>w. desk k m (Some d) g R F w \<Longrightarrow> durable_ok (settling (rw_store w)) (held w) b"
    and rest: "rb_strategy b = k \<Longrightarrow> triple (desk k (Some b) (Some b) g R F) f Q E"
    and fail: "\<And>e w. desk k m (Some d) g R F w \<Longrightarrow> E e w"
  shows "triple (desk k m (Some d) g R F) (ebind (save_batch env b) (\<lambda>_. ebind (put_batch b) (\<lambda>_. f))) Q E"
proof (rule triple_pre [where b = "rb_strategy d = k"])
  show "rb_strategy d = k" if "desk k m (Some d) g R F w" for w by (rule desk_durable(2) [OF that])
  assume "rb_strategy d = k"
  then have k: "rb_strategy b = k" using assms(1) by (simp add: follows_def)
  have "triple (desk k m (Some d) g R F) (save_batch env b) (\<lambda>_. saved_desk k m b g R F) E"
    by (rule triple_weaken [OF follows_save [OF assms(1-4)]]) (use fail in blast)+
  then show "triple (desk k m (Some d) g R F) (ebind (save_batch env b) (\<lambda>_. ebind (put_batch b) (\<lambda>_. f))) Q E"
    by (rule triple_ebind) (rule triple_ebind [OF put_saved [OF k] rest [OF k]])
qed

subsection \<open>Interrupted work\<close>

lemma triple_ex: "(\<And>x. triple (P x) m Q E) \<Longrightarrow> triple (\<lambda>w. \<exists>x. P x w) m Q E"
  by (fastforce simp: triple_def)

text \<open>Memory has no interrupted work for \<open>k\<close>, and what the record still names is released.\<close>

definition resting :: "strategy_key \<Rightarrow> rebate_batch \<Rightarrow> rebate_batch \<Rightarrow> reservation_id set \<Rightarrow> ('l, 's) rebate_world \<Rightarrow> bool" where
  "resting k b d F w \<longleftrightarrow>
     desk k (Some b) (Some d) False {r. interrupted (rb_state d) = Some r} F w \<and> interrupted (rb_state b) = None"

lemma desk_weaken:
  assumes "desk k m d g R F w" "g' \<Longrightarrow> g" "R' \<subseteq> R" "F' \<subseteq> F"
  shows "desk k m d g' R' F' w"
  using assms unfolding desk_def by blast

lemma interrupted_active: "interrupted st = Some r \<Longrightarrow> active_reservation st = Some r \<and> (\<forall>e. st \<noteq> BsReady e)"
  by (cases st) auto

lemma restingI:
  assumes "desk k (Some b) (Some d) g R F w" "interrupted (rb_state b) = None"
  shows "resting k b d F w"
proof -
  have "held w r = None" if "interrupted (rb_state d) = Some r" for r
    using desk_memory(1) [OF assms(1)] assms(2) that unfolding mirrors_def by auto
  then show ?thesis using assms by (simp add: resting_def desk_def)
qed

lemma mirror_interrupted:
  assumes "mirrors H b d" "interrupted (rb_state b) = Some r"
  shows "interrupted (rb_state d) = Some r"
  using assms unfolding mirrors_def by auto

lemma finish_interrupted_triple:
  "triple (desk k (Some b) (Some d) g R F) (finish_interrupted_transition env b)
     (\<lambda>b' w. \<exists>d'. resting k b' d' F w) (\<lambda>_. desk_inv)"
proof (cases "interrupted (rb_state b)")
  case None
  have "triple (desk k (Some b) (Some d) g R F) (eok b) (\<lambda>b' w. \<exists>d'. resting k b' d' F w) (\<lambda>_. desk_inv)"
    by (rule triple_eok) (blast intro: restingI [OF _ None])
  then show ?thesis by (simp add: finish_interrupted_transition_def None)
next
  case (Some r)
  let ?b = "b\<lparr>rb_state := BsGuarded\<rparr>" and ?R = "insert r R"
  show ?thesis
  proof (rule triple_pre [where b = "interrupted (rb_state d) = Some r \<and> rb_strategy b = k \<and> follows b d \<and>
      b = d\<lparr>rb_state := rb_state b\<rparr>"])
    show "interrupted (rb_state d) = Some r \<and> rb_strategy b = k \<and> follows b d \<and> b = d\<lparr>rb_state := rb_state b\<rparr>"
      if "desk k (Some b) (Some d) g R F w" for w
      using mirror_interrupted [OF desk_memory(1) [OF that] Some] desk_memory(1,2) [OF that] desk_follows [OF that]
      by (simp add: mirrors_def)
    assume "interrupted (rb_state d) = Some r \<and> rb_strategy b = k \<and> follows b d \<and> b = d\<lparr>rb_state := rb_state b\<rparr>"
    then have d: "interrupted (rb_state d) = Some r" and k: "rb_strategy b = k" and f: "follows b d"
      and bd: "b = d\<lparr>rb_state := rb_state b\<rparr>" by blast+
    note act = interrupted_active [OF d]
    have kd: "rb_strategy d = k" using f k by (simp add: follows_def)
    have upd: "?b = d\<lparr>rb_state := BsGuarded\<rparr>" by (subst bd) simp
    have put: "triple (desk k (Some b) (Some d) True ?R F) (put_batch ?b) (\<lambda>_. desk k (Some ?b) (Some d) True ?R F) (\<lambda>_. desk_inv)"
      by (rule put_triple [where d' = d]) (use k kd d upd deskD(5) in \<open>auto simp: mirrors_def\<close>)
    have save: "triple (desk k (Some ?b) (Some d) True ?R F) (save_batch env ?b) (\<lambda>_. desk k (Some ?b) (Some ?b) True ?R F) (\<lambda>_. desk_inv)"
      by (rule triple_weaken [OF follows_present])
        (use f act desk_error in \<open>auto intro: idle_durable [where R = ?R]\<close>)
    have fin: "triple (desk k (Some ?b) (Some ?b) True ?R F) (eok ?b) (\<lambda>b' w. \<exists>d'. resting k b' d' F w) (\<lambda>_. desk_inv)"
      by (rule triple_eok) (rule exI, erule restingI, simp)
    have rel: "triple (desk k (Some b) (Some d) True R F) (release_if_held env r) (\<lambda>_. desk k (Some b) (Some d) True ?R F) (\<lambda>_. desk_inv)"
      by (rule triple_weaken [OF release_triple]) (use act desk_error in blast)+
    show "triple (desk k (Some b) (Some d) g R F) (finish_interrupted_transition env b) (\<lambda>b' w. \<exists>d'. resting k b' d' F w) (\<lambda>_. desk_inv)"
      unfolding finish_interrupted_transition_def Some option.case Let_def k
      by (rule triple_ebind [OF guard_triple triple_ebind [OF rel triple_ebind [OF put triple_ebind [OF save fin]]]])
  qed
qed

subsection \<open>Accrual\<close>

lemma desk_start:
  assumes "desk_inv w"
  shows "desk k (memory w k) (durable w k) False {} {r. free_for k r w} w"
  using assms by (simp add: desk_def)

lemma desk_absent:
  assumes "desk_inv w" "memory w k = None"
  shows "durable w k = None"
proof (cases "durable w k")
  case (Some d)
  then show ?thesis
    using rebate_invD(3) [of "memory w" "durable w" _ _ _ k] assms by (auto simp: desk_inv_def slot_ok_def)
qed

lemma accrue_new_triple:
  assumes a: "validate_accrual a = Inr ()" "ra_strategy a = k"
  shows "triple (desk k None None g R F) (accrue_new env a) (\<lambda>_. desk_inv) (\<lambda>_. desk_inv)"
proof -
  let ?i = "batch_id (rq_keccak env) a"
  let ?new = "rebate_batch_new ?i (token_pair_new (ra_token_in a) (ra_token_out a)) a"
  let ?b = "?new\<lparr>rb_state := BsGuarded\<rparr>"
  note new = first_accrual_ok [OF a(1), of ?i]
  have valid: "validate_batch ?b = Inr ()" using new(2) by (simp add: validate_batch_iff planned_def)
  have save: "triple (desk k None None True R F) (save_batch env ?b) (\<lambda>_. saved_desk k None ?b True R F)
      (\<lambda>_. desk k None None True R F)"
  proof (rule save_triple)
    fix w assume pre: "desk k None None True R F w" and ids: "ids_ok ((durable w)(k \<mapsto> ?b))"
    show "durable_ok (settling (rw_store w)) (held w) ?b"
      by (rule opening_ok [OF rebate_invD(2) [OF deskD(8) [OF pre]]])
        (use deskD(3) [OF pre] ids new a(2) valid in simp_all)
  qed (use new a(2) in \<open>auto intro: plain\<close>)
  let ?tried = "\<lambda>r. case r of Inl _ \<Rightarrow> desk k None None True R F | Inr _ \<Rightarrow> saved_desk k None ?b True R F"
  have tried: "triple (desk k None None True R F) (etry (save_batch env ?b)) ?tried (\<lambda>_. desk_inv)"
    by (rule triple_etry) (simp add: save)
  have after: "triple (?tried saved) (case saved of
        Inl e \<Rightarrow> ebind (unguard_strategy k) (\<lambda>_. eerr e)
      | Inr _ \<Rightarrow> ebind (put_batch ?b) (\<lambda>_. eok ?i)) (\<lambda>_. desk_inv) (\<lambda>_. desk_inv)" for saved
  proof (cases saved)
    case (Inl e)
    have "triple (desk k None None True R F) (ebind (unguard_strategy k) (\<lambda>_. eerr e)) (\<lambda>_. desk_inv) (\<lambda>_. desk_inv)"
      by (rule triple_ebind [OF unguard_triple triple_eerr]) (auto dest: desk_error)
    then show ?thesis by (simp add: Inl)
  next
    case (Inr u)
    have "triple (saved_desk k None ?b True R F) (ebind (put_batch ?b) (\<lambda>_. eok ?i)) (\<lambda>_. desk_inv) (\<lambda>_. desk_inv)"
      by (rule triple_ebind [OF put_saved triple_eok]) (use new a(2) in \<open>auto dest: desk_error\<close>)
    then show ?thesis by (simp add: Inr)
  qed
  show ?thesis
    unfolding accrue_new_def Let_def a(2)
    by (rule triple_ebind [OF guard_triple triple_ebind [OF tried after]])
qed

lemma commit_accrual_triple:
  assumes "follows b d" "rb_state b = BsGuarded" "rb_strategy b = k" "\<And>e. rb_state d \<noteq> BsReady e"
    and "\<And>r. active_reservation (rb_state d) = Some r \<Longrightarrow> r \<in> R"
    and "reopen \<Longrightarrow> (\<And>b'. m = Some b' \<Longrightarrow> rb_state b' = BsAccumulating)"
  shows "triple (desk k m (Some d) True R F) (commit_accrual env b reopen) (\<lambda>_. desk_inv) (\<lambda>_. desk_inv)"
proof -
  have save: "triple (desk k m (Some d) True R F) (save_batch env b) (\<lambda>_. saved_desk k m b True R F) (\<lambda>_. desk k m (Some d) True R F)"
    by (rule follows_save [OF assms(1)]) (use assms(1,2,4,5) in \<open>auto intro: idle_durable\<close>)
  let ?tried = "\<lambda>r. case r of Inl _ \<Rightarrow> desk k m (Some d) True R F | Inr _ \<Rightarrow> saved_desk k m b True R F"
  have tried: "triple (desk k m (Some d) True R F) (etry (save_batch env b)) ?tried (\<lambda>_. desk_inv)"
    by (rule triple_etry) (simp add: save)
  have open_again: "triple (desk k m (Some d) True R F) (if reopen then unguard_strategy k else eok ())
      (\<lambda>_. desk_inv) (\<lambda>_. desk_inv)"
  proof (cases reopen)
    case True
    have "triple (desk k m (Some d) True R F) (unguard_strategy k) (\<lambda>_. desk_inv) (\<lambda>_. desk_inv)"
      by (rule triple_weaken [OF unguard_triple [where m = m and d = "Some d" and g = True and R = R and F = F]])
        (use assms(6) [OF True] desk_error in blast)+
    then show ?thesis by (simp add: True)
  next
    case False
    have "triple (desk k m (Some d) True R F) (eok ()) (\<lambda>_. desk_inv) (\<lambda>_. desk_inv)"
      by (rule triple_eok) (rule desk_error)
    then show ?thesis by (simp add: False)
  qed
  have after: "triple (?tried saved) (case saved of
        Inl e \<Rightarrow> ebind (if reopen then unguard_strategy (rb_strategy b) else eok ()) (\<lambda>_. eerr e)
      | Inr _ \<Rightarrow> ebind (put_batch b) (\<lambda>_. eok (rb_id b))) (\<lambda>_. desk_inv) (\<lambda>_. desk_inv)" for saved
  proof (cases saved)
    case (Inl e)
    have "triple (desk k m (Some d) True R F) (ebind (if reopen then unguard_strategy k else eok ()) (\<lambda>_. eerr e))
        (\<lambda>_. desk_inv) (\<lambda>_. desk_inv)"
      by (rule triple_ebind [OF open_again triple_eerr]) simp
    then show ?thesis by (simp only: Inl assms(3) sum.case)
  next
    case (Inr u)
    have "triple (saved_desk k m b True R F) (ebind (put_batch b) (\<lambda>_. eok (rb_id b))) (\<lambda>_. desk_inv) (\<lambda>_. desk_inv)"
      by (rule triple_ebind [OF put_saved triple_eok]) (use assms(3) in \<open>auto dest: desk_error\<close>)
    then show ?thesis by (simp add: Inr)
  qed
  show ?thesis unfolding commit_accrual_def by (rule triple_ebind [OF tried after])
qed

lemma grown_follows:
  assumes "desk k (Some b) (Some d) g R F w" "bm_get (rb_accruals b) (ra_trade_id a) = None" "ra_strategy a = k"
    and "rb_pair b = token_pair_new (ra_token_in a) (ra_token_out a)" "validate_accrual a = Inr ()"
  shows "follows (grown b a) d" "rb_strategy (grown b a) = k"
proof -
  note m = desk_memory [OF assms(1)]
  note gr = grown_ok [OF m(6) assms(2)]
  have k: "ra_strategy a = rb_strategy b" using assms(3) m(2) by simp
  show "follows (grown b a) d"
    using gr(1,2) [OF k] gr(3) [OF k m(7) assms(4,5)] m desk_durable(2) [OF assms(1)]
    by (simp add: follows_def) (simp add: grown_def)
  show "rb_strategy (grown b a) = k" using m(2) by (simp add: grown_def)
qed

text \<open>The work that is not public is invalidated before the new accrual is committed.\<close>

lemma accrue_replace_triple:
  assumes f: "follows gb d" "rb_strategy gb = k" and act: "active_reservation (rb_state d) = Some r" "\<And>e. rb_state d \<noteq> BsReady e"
  shows "triple (desk k m (Some d) True R F)
    (ebind (save_batch env (gb\<lparr>rb_state := BsInvalidating r\<rparr>)) (\<lambda>_.
     ebind (put_batch (gb\<lparr>rb_state := BsInvalidating r\<rparr>)) (\<lambda>_.
     ebind (release_if_held env r) (\<lambda>_. commit_accrual env (gb\<lparr>rb_state := BsGuarded\<rparr>) False))))
    (\<lambda>_. desk_inv) (\<lambda>_. desk_inv)"
proof (rule save_put)
  let ?marked = "gb\<lparr>rb_state := BsInvalidating r\<rparr>" and ?next = "gb\<lparr>rb_state := BsGuarded\<rparr>"
  show "follows ?marked d" using f by simp
  show "durable_ok (settling (rw_store w)) (held w) ?marked" if "desk k m (Some d) True R F w" for w
    by (rule marked_durable [OF that, where r = r]) (use f act in auto)
  have rel: "triple (desk k (Some ?marked) (Some ?marked) True R F) (release_if_held env r)
      (\<lambda>_. desk k (Some ?marked) (Some ?marked) True (insert r R) F) (\<lambda>_. desk_inv)"
    by (rule triple_weaken [OF release_triple]) (use desk_error in auto)
  have self: "follows ?next ?marked" using f(1) by (simp add: follows_def)
  have com: "triple (desk k (Some ?marked) (Some ?marked) True (insert r R) F) (commit_accrual env ?next False)
      (\<lambda>_. desk_inv) (\<lambda>_. desk_inv)"
    by (rule commit_accrual_triple [OF self]) (use f(2) in auto)
  show "triple (desk k (Some ?marked) (Some ?marked) True R F)
      (ebind (release_if_held env r) (\<lambda>_. commit_accrual env ?next False)) (\<lambda>_. desk_inv) (\<lambda>_. desk_inv)"
    by (rule triple_ebind [OF rel com])
qed (use f desk_error in auto)

lemma mirror_active:
  assumes "mirrors H b d" "\<And>e. rb_state b \<noteq> BsReady e"
  shows "\<And>e. rb_state d \<noteq> BsReady e" "active_reservation (rb_state b) = Some r \<Longrightarrow> active_reservation (rb_state d) = Some r"
    "active_reservation (rb_state b) = None \<Longrightarrow> active_reservation (rb_state d) = Some q \<Longrightarrow> H q = None"
  using assms interrupted_active unfolding mirrors_def
  by (auto dest: interrupted_active) (cases "rb_state d"; auto)+

lemma accrue_grow_triple:
  assumes "bm_get (rb_accruals b) (ra_trade_id a) = None" "ra_strategy a = k"
    and "rb_pair b = token_pair_new (ra_token_in a) (ra_token_out a)" "validate_accrual a = Inr ()"
    and fresh: "\<And>e. rb_state b \<noteq> BsReady e"
  shows "triple (desk k (Some b) (Some d) g R F)
    (ebind (guard_strategy k) (\<lambda>_.
       case active_reservation (rb_state b) of
         Some r \<Rightarrow>
           ebind (save_batch env ((grown b a)\<lparr>rb_state := BsInvalidating r\<rparr>)) (\<lambda>_.
           ebind (put_batch ((grown b a)\<lparr>rb_state := BsInvalidating r\<rparr>)) (\<lambda>_.
           ebind (release_if_held env r) (\<lambda>_. commit_accrual env ((grown b a)\<lparr>rb_state := BsGuarded\<rparr>) False)))
       | None \<Rightarrow> commit_accrual env ((grown b a)\<lparr>rb_state := BsGuarded\<rparr>) (rb_state b = BsAccumulating)))
    (\<lambda>_. desk_inv) (\<lambda>_. desk_inv)"
proof (rule triple_ebind [OF guard_triple])
  fix u :: unit
  let ?P = "desk k (Some b) (Some d) True R F"
  let ?m = "\<lambda>w. follows (grown b a) d \<and> rb_strategy (grown b a) = k"
  show "triple ?P (case active_reservation (rb_state b) of
         Some r \<Rightarrow>
           ebind (save_batch env ((grown b a)\<lparr>rb_state := BsInvalidating r\<rparr>)) (\<lambda>_.
           ebind (put_batch ((grown b a)\<lparr>rb_state := BsInvalidating r\<rparr>)) (\<lambda>_.
           ebind (release_if_held env r) (\<lambda>_. commit_accrual env ((grown b a)\<lparr>rb_state := BsGuarded\<rparr>) False)))
       | None \<Rightarrow> commit_accrual env ((grown b a)\<lparr>rb_state := BsGuarded\<rparr>) (rb_state b = BsAccumulating)) (\<lambda>_. desk_inv) (\<lambda>_. desk_inv)"
  proof (cases "active_reservation (rb_state b)")
    case None
    let ?R = "{q. active_reservation (rb_state d) = Some q}"
    have "triple ?P (commit_accrual env ((grown b a)\<lparr>rb_state := BsGuarded\<rparr>) (rb_state b = BsAccumulating)) (\<lambda>_. desk_inv) (\<lambda>_. desk_inv)"
    proof (rule triple_pre [where b = "follows (grown b a) d \<and> rb_strategy (grown b a) = k \<and> (\<forall>e. rb_state d \<noteq> BsReady e)"])
      show "follows (grown b a) d \<and> rb_strategy (grown b a) = k \<and> (\<forall>e. rb_state d \<noteq> BsReady e)" if "?P w" for w
        using grown_follows [OF that assms(1-4)] mirror_active(1) [OF desk_memory(1) [OF that] fresh] by blast
      assume f: "follows (grown b a) d \<and> rb_strategy (grown b a) = k \<and> (\<forall>e. rb_state d \<noteq> BsReady e)"
      show "triple ?P (commit_accrual env ((grown b a)\<lparr>rb_state := BsGuarded\<rparr>) (rb_state b = BsAccumulating)) (\<lambda>_. desk_inv) (\<lambda>_. desk_inv)"
      proof (rule triple_weaken [OF commit_accrual_triple [where m = "Some b" and d = d and k = k and R = ?R and F = F]])
        show "desk k (Some b) (Some d) True ?R F w" if "?P w" for w
          using that mirror_active(3) [OF desk_memory(1) [OF that] fresh None] by (simp add: desk_def)
      qed (use f in auto)
    qed
    then show ?thesis by (simp only: None option.case)
  next
    case (Some r)
    have "triple ?P (ebind (save_batch env ((grown b a)\<lparr>rb_state := BsInvalidating r\<rparr>)) (\<lambda>_.
           ebind (put_batch ((grown b a)\<lparr>rb_state := BsInvalidating r\<rparr>)) (\<lambda>_.
           ebind (release_if_held env r) (\<lambda>_. commit_accrual env ((grown b a)\<lparr>rb_state := BsGuarded\<rparr>) False))))
         (\<lambda>_. desk_inv) (\<lambda>_. desk_inv)"
    proof (rule triple_pre [where b = "follows (grown b a) d \<and> rb_strategy (grown b a) = k \<and>
        active_reservation (rb_state d) = Some r \<and> (\<forall>e. rb_state d \<noteq> BsReady e)"])
      show "follows (grown b a) d \<and> rb_strategy (grown b a) = k \<and> active_reservation (rb_state d) = Some r \<and> (\<forall>e. rb_state d \<noteq> BsReady e)"
        if "?P w" for w
        using grown_follows [OF that assms(1-4)] mirror_active(1,2) [OF desk_memory(1) [OF that] fresh] Some by blast
    qed (intro accrue_replace_triple, auto)
    then show ?thesis by (simp only: Some option.case)
  qed
qed

lemma live_triple:
  assumes "triple (desk k None None False {} F) (f None) Q E"
    and "\<And>b d. triple (desk k (Some b) (Some d) False {} F) (f (Some b)) Q E"
  shows "triple (\<lambda>w. desk_inv w \<and> (\<forall>r \<in> F. free_for k r w)) (ebind (live_batch k) f) Q E"
  unfolding live_batch_def
proof (rule triple_ebind [OF triple_eread])
  fix found
  show "triple (\<lambda>w. (desk_inv w \<and> (\<forall>r \<in> F. free_for k r w)) \<and> found = memory w k) (f found) Q E"
  proof (cases found)
    case None
    show ?thesis unfolding None
      by (rule triple_weaken [OF assms(1)]) (auto simp: desk_def desk_absent)
  next
    case (Some b)
    have "triple (\<lambda>w. \<exists>d. desk k (Some b) (Some d) False {} F w) (f (Some b)) Q E"
      by (rule triple_ex) (rule assms(2))
    moreover have "\<exists>d. desk k (Some b) (Some d) False {} F w"
      if inv: "(desk_inv w \<and> (\<forall>r \<in> F. free_for k r w)) \<and> found = memory w k" for w
    proof -
      have i: "rebate_inv (memory w) (durable w) (settling (rw_store w)) (held w) (guarded_keys w)" "memory w k = Some b"
        using inv Some by (simp_all add: desk_inv_def)
      obtain d where "durable w k = Some d" by (rule memory_slot [OF i]) (rule that)
      then show ?thesis using inv Some by (auto simp: desk_def)
    qed
    ultimately show ?thesis unfolding Some by (rule triple_weaken) auto
  qed
qed

lemma accrue_live_triple:
  assumes "validate_accrual a = Inr ()" "ra_strategy a = k"
  shows "triple (desk k (Some b) (Some d) g R F) (accrue_live env a b) (\<lambda>_. desk_inv) (\<lambda>_. desk_inv)"
proof (cases "bm_get (rb_accruals b) (ra_trade_id a)")
  case None
  have refuse: "triple (desk k (Some b) (Some d) g R F) (eerr e) (\<lambda>_. desk_inv) (\<lambda>_. desk_inv)" for e :: rebate_flow_error
    by (rule triple_eerr) (rule desk_error)
  have busy: "(case rb_state b of BsReady _ \<Rightarrow> True | _ \<Rightarrow> False) \<longleftrightarrow> (\<exists>e. rb_state b = BsReady e)"
    by (cases "rb_state b") auto
  show ?thesis
    unfolding accrue_live_def None option.case busy Let_def assms(2) grown_def [symmetric]
    by (intro triple_if refuse accrue_grow_triple [OF None assms(2) _ assms(1)]) auto
next
  case (Some old)
  have fin: "triple (desk k (Some b) (Some d) g R F) (ebind (finish_interrupted_transition env b) (\<lambda>b'. eok (rb_id b')))
      (\<lambda>_. desk_inv) (\<lambda>_. desk_inv)"
    by (rule triple_ebind [OF finish_interrupted_triple triple_eok]) (auto simp: resting_def dest: desk_error)
  show ?thesis
    unfolding accrue_live_def Some option.case
    by (intro triple_if fin triple_eerr) (rule desk_error)
qed

lemma accrue_keeps: "triple desk_inv (accrue env a) (\<lambda>_. desk_inv) (\<lambda>_. desk_inv)"
proof (cases "validate_accrual a")
  case (Inl e)
  have "triple desk_inv (eerr (RfRebate e)) (\<lambda>_. desk_inv) (\<lambda>_. desk_inv)" by (rule triple_eerr)
  then show ?thesis by (simp only: accrue_def Inl lift_rebate_def map_sum.simps ebind_eres)
next
  case (Inr u)
  have ok: "validate_accrual a = Inr ()" using Inr by simp
  have "triple (\<lambda>w. desk_inv w \<and> (\<forall>r \<in> {}. free_for (ra_strategy a) r w)) (ebind (live_batch (ra_strategy a)) (\<lambda>found.
       case found of Some b \<Rightarrow> accrue_live env a b | None \<Rightarrow> accrue_new env a)) (\<lambda>_. desk_inv) (\<lambda>_. desk_inv)"
    by (rule live_triple) (simp_all only: option.case accrue_live_triple [OF ok refl] accrue_new_triple [OF ok refl])
  then show ?thesis by (simp add: accrue_def Inr lift_rebate_def)
qed

subsection \<open>Evaluation\<close>

text \<open>The hold is in place: publish, or take the work back.\<close>

lemma published_save:
  assumes b: "rb_state b = BsPreparing plan r" "execution_matches b e" "r \<noteq> 0"
    and e: "re_plan e = plan" "re_reservation e = r" "readable (BsReady e)"
  shows "triple (\<lambda>w. desk k (Some b) (Some b) True R F w \<and> held w r = Some (OwnerRebate (rb_id b), rebate_sources k plan))
    (save_batch env (b\<lparr>rb_state := BsReady e\<rparr>))
    (\<lambda>_. saved_desk k (Some b) (b\<lparr>rb_state := BsReady e\<rparr>) True R F) (\<lambda>_. desk k (Some b) (Some b) True R F)"
  (is "triple ?P _ _ _")
proof (rule triple_pre [where b = "rb_strategy b = k \<and> keyed b"])
  show "rb_strategy b = k \<and> keyed b" if "?P w" for w using that desk_durable(2,3) by blast
  assume k: "rb_strategy b = k \<and> keyed b"
  show "triple ?P (save_batch env (b\<lparr>rb_state := BsReady e\<rparr>))
    (\<lambda>_. saved_desk k (Some b) (b\<lparr>rb_state := BsReady e\<rparr>) True R F) (\<lambda>_. desk k (Some b) (Some b) True R F)"
  proof (rule save_triple_from)
    fix w assume pre: "?P w"
    have ok: "durable_ok (settling (rw_store w)) (held w) b" using pre desk_durable(1) by blast
    have held: "held w r = Some (OwnerRebate (rb_id b), rebate_sources (rb_strategy b) plan)" using pre k by blast
    have valid: "validate_batch (b\<lparr>rb_state := BsReady e\<rparr>) = Inr ()"
      using durable_okD(1) [OF ok] b e by (auto simp: validate_batch_iff planned_def)
    show "durable_ok (settling (rw_store w)) (held w) (b\<lparr>rb_state := BsReady e\<rparr>)"
      by (rule published_ok [OF ok _ _ b(1) _ e(1,2) b(3) held valid]) simp_all
  qed (use k e(3) in simp_all)
qed

lemma publish_triple:
  assumes b: "rb_state b = BsPreparing plan r" "r \<noteq> 0" and input: "ev_reservation_id input = r"
    and plan: "bp_batch_id plan = rb_id b" "bp_strategy plan = rb_strategy b"
  shows "triple (\<lambda>w. desk k (Some b) (Some b) True R F w \<and> held w r = Some (OwnerRebate (rb_id b), rebate_sources k plan))
    (publish_work env input b plan) (\<lambda>_. desk_inv) (\<lambda>_. desk_inv)"
  (is "triple ?P _ _ _")
proof (rule triple_pre [where b = "rb_strategy b = k \<and> follows b b"])
  show "rb_strategy b = k \<and> follows b b" if "?P w" for w using that desk_durable(2) desk_follows by blast
  assume k: "rb_strategy b = k \<and> follows b b"
  let ?g = "b\<lparr>rb_state := BsGuarded\<rparr>"
  have rel: "triple (desk k (Some b) (Some b) True R F) (release_if_held env r)
      (\<lambda>_. desk k (Some b) (Some b) True (insert r R) F) (\<lambda>_. desk_inv)"
    by (rule triple_weaken [OF release_triple]) (use b(1) desk_error in auto)
  show "triple ?P (publish_work env input b plan) (\<lambda>_. desk_inv) (\<lambda>_. desk_inv)"
  proof (cases "rq_build env (ev_strategy input) plan r (ev_deadline_block input) (ev_published_at input)")
    case (Inl e)
    have put: "triple (desk k (Some b) (Some b) True (insert r R) F) (put_batch ?g) (\<lambda>_. desk k (Some ?g) (Some b) True (insert r R) F) (\<lambda>_. desk_inv)"
      by (rule put_triple [where d' = b]) (use k b(1) deskD(5) in \<open>auto simp: mirrors_def\<close>)
    have save: "triple (desk k (Some ?g) (Some b) True (insert r R) F) (save_batch env ?g)
        (\<lambda>_. desk k (Some ?g) (Some ?g) True (insert r R) F) (\<lambda>_. desk_inv)"
      by (rule triple_weaken [OF follows_present])
        (use k b(1) desk_error in \<open>auto intro: idle_durable [where R = "insert r R"]\<close>)
    have err: "triple (desk k (Some ?g) (Some ?g) True (insert r R) F) (eerr (RfCall e)) (\<lambda>_. desk_inv) (\<lambda>_. desk_inv)"
      by (rule triple_eerr) (rule desk_error)
    have "triple ?P (ebind (release_if_held env r) (\<lambda>_. ebind (put_batch ?g) (\<lambda>_. ebind (save_batch env ?g) (\<lambda>_. eerr (RfCall e)))))
        (\<lambda>_. desk_inv) (\<lambda>_. desk_inv)"
      by (rule triple_conj_drop) (rule triple_ebind [OF rel triple_ebind [OF put triple_ebind [OF save err]]])
    then show ?thesis unfolding publish_work_def input Inl sum.case Let_def .
  next
    case (Inr e)
    let ?r = "b\<lparr>rb_state := BsReady e\<rparr>"
    have e: "re_plan e = plan" "re_reservation e = r" "readable (BsReady e)" "execution_matches b e"
      using builder Inr plan input by (auto simp: build_fits_def)
    let ?tried = "\<lambda>x. case x of Inl _ \<Rightarrow> desk k (Some b) (Some b) True R F | Inr _ \<Rightarrow> saved_desk k (Some b) ?r True R F"
    have tried: "triple ?P (etry (save_batch env ?r)) ?tried (\<lambda>_. desk_inv)"
      by (rule triple_etry) (simp add: published_save [OF b(1) e(4) b(2) e(1-3)])
    have after: "triple (?tried saved) (case saved of
          Inl e \<Rightarrow> ebind (release_if_held env r) (\<lambda>_. eerr e)
        | Inr _ \<Rightarrow> ebind (put_batch ?r) (\<lambda>_. eok (AsReady plan))) (\<lambda>_. desk_inv) (\<lambda>_. desk_inv)" for saved
    proof (cases saved)
      case (Inl x)
      have "triple (desk k (Some b) (Some b) True R F) (ebind (release_if_held env r) (\<lambda>_. eerr x)) (\<lambda>_. desk_inv) (\<lambda>_. desk_inv)"
        by (rule triple_ebind [OF rel triple_eerr]) (rule desk_error)
      then show ?thesis by (simp only: Inl sum.case)
    next
      case (Inr u)
      have "triple (saved_desk k (Some b) ?r True R F) (ebind (put_batch ?r) (\<lambda>_. eok (AsReady plan))) (\<lambda>_. desk_inv) (\<lambda>_. desk_inv)"
        by (rule triple_ebind [OF put_saved triple_eok]) (use k desk_error in auto)
      then show ?thesis by (simp only: Inr sum.case)
    qed
    show ?thesis
      unfolding publish_work_def input Inr sum.case Let_def by (rule triple_ebind [OF tried after])
  qed
qed

lemma reserve_triple:
  assumes b: "rb_state b = BsPreparing plan r" "r \<in> F" and fits: "bp_amount_out plan \<le> u256_max"
  shows "triple (desk k (Some b) (Some b) True R F)
    (on_hold (service_reserve_rebate (rq_ledger_store env) (rq_budgets env) now r (rb_id b) (rebate_sources k plan) ttl))
    (\<lambda>_ w. desk k (Some b) (Some b) True {} F w \<and> held w r = Some (OwnerRebate (rb_id b), rebate_sources k plan))
    (\<lambda>_. desk k (Some b) (Some b) True R F)"
proof -
  let ?c = "service_reserve_rebate (rq_ledger_store env) (rq_budgets env) now r (rb_id b) (rebate_sources k plan) ttl"
  have "demand_fits (rebate_sources k plan)"
    using fits by (auto simp: demand_fits_def demand_on_def rebate_sources_def draws_on_def)
  then have cons: "consistent rows led_wf (sv_ledger sv') (sv_store sv')"
    if "consistent rows led_wf (sv_ledger sv) (sv_store sv)" "?c sv = (res, sv')" for sv res sv'
    using led.consistent_step [OF service_step.sv_reserve_rebate [OF bounded], of now r "rb_id b" "rebate_sources k plan" ttl sv] that
    by simp
  show ?thesis
  proof (rule tripleI)
    fix w x w' assume pre: "desk k (Some b) (Some b) True R F w" and run: "on_hold ?c w = (Inr x, w')"
    obtain sv' where c: "?c (rw_ledger w) = (Inr (), sv')" "w' = w\<lparr>rw_ledger := sv'\<rparr>"
      using run by (cases "?c (rw_ledger w)"; cases "fst (?c (rw_ledger w))") (auto simp: on_hold_run)
    note h = service_reserve_rebate_hold [OF c(1)]
    note st = stores_okD [OF deskD(7) [OF pre]]
    have free: "free_for k r w" by (rule deskD(6) [OF pre b(2)])
    have "rebate_inv (memory w) (durable w) (settling (rw_store w))
        ((held w)(r \<mapsto> (OwnerRebate (rb_id b), rebate_sources k plan))) (guarded_keys w)"
      by (rule inv_reserved [OF deskD(8,3) [OF pre] b(1) deskD(2) [OF pre]]) (use h(2) free in \<open>auto simp: free_for_def\<close>)
    then have "desk k (Some b) (Some b) True {} F w'"
      by (intro desk_change [OF pre])
        (use deskD [OF pre] h cons [OF st(1) c(1)] st in \<open>auto simp: c(2) stores_ok_def free_for_def split: if_splits\<close>)
    then show "desk k (Some b) (Some b) True {} F w' \<and> held w' r = Some (OwnerRebate (rb_id b), rebate_sources k plan)"
      using h(1) by (simp add: c(2))
  next
    fix w e w' assume pre: "desk k (Some b) (Some b) True R F w" and run: "on_hold ?c w = (Inl e, w')"
    obtain e' sv' where c: "?c (rw_ledger w) = (Inl e', sv')" "w' = w\<lparr>rw_ledger := sv'\<rparr>"
      using run by (cases "?c (rw_ledger w)"; cases "fst (?c (rw_ledger w))") (auto simp: on_hold_run)
    note h = service_reserve_rebate_hold(1) [OF c(1)] and st = stores_okD [OF deskD(7) [OF pre]]
    show "desk k (Some b) (Some b) True R F w'"
      by (rule desk_change [OF pre])
        (use deskD [OF pre] h cons [OF st(1) c(1)] st in \<open>auto simp: c(2) stores_ok_def free_for_def\<close>)
  qed
qed

lemma prepare_triple:
  assumes "plan_matches_batch plan b" "bp_batch_id plan = rb_id b" "bp_strategy plan = rb_strategy b"
    and fits: "bp_amount_out plan \<le> u256_max" and r: "ev_reservation_id input = r" "r \<in> F" "ms_key (ev_strategy input) = k"
    and idle: "\<And>e. rb_state b \<noteq> BsReady e"
  shows "triple (resting k b d F) (prepare_work env now input b plan) (\<lambda>_. desk_inv) (\<lambda>_. desk_inv)"
proof (rule triple_pre [where b = "follows b d \<and> rb_strategy b = k \<and> (\<forall>e. rb_state d \<noteq> BsReady e) \<and> r \<noteq> 0"])
  let ?R = "{q. active_reservation (rb_state d) = Some q}"
  let ?p = "b\<lparr>rb_state := BsPreparing plan r\<rparr>"
  let ?g = "?p\<lparr>rb_state := BsGuarded\<rparr>"
  show "follows b d \<and> rb_strategy b = k \<and> (\<forall>e. rb_state d \<noteq> BsReady e) \<and> r \<noteq> 0" if "resting k b d F w" for w
  proof -
    have pre: "desk k (Some b) (Some d) False {r. interrupted (rb_state d) = Some r} F w" using that by (simp add: resting_def)
    show ?thesis using desk_follows [OF pre] desk_memory(2) [OF pre] mirror_active(1) [OF desk_memory(1) [OF pre] idle] deskD(6) [OF pre r(2)]
      by (simp add: free_for_def)
  qed
  assume a: "follows b d \<and> rb_strategy b = k \<and> (\<forall>e. rb_state d \<noteq> BsReady e) \<and> r \<noteq> 0"
  have released: "desk k (Some b) (Some d) False (insert r ?R) F w" if "resting k b d F w" for w
  proof -
    have pre: "desk k (Some b) (Some d) False {r. interrupted (rb_state d) = Some r} F w" using that by (simp add: resting_def)
    have R: "held w q = None" if "active_reservation (rb_state d) = Some q" for q
      using deskD(5) [OF pre, of q] that a by (cases "rb_state d") auto
    have "held w r = None"
    proof (rule ccontr)
      assume "held w r \<noteq> None"
      then obtain ss where "held w r = Some (OwnerRebate (rb_id d), ss)"
        using deskD(6) [OF pre r(2)] deskD(3) [OF pre] by (auto simp: free_for_def)
      then show False using ownsD(1) [OF durable_okD(2) [OF desk_durable(1) [OF pre]]] R [of r] by simp
    qed
    then show ?thesis using pre R by (auto simp: desk_def)
  qed
  have follow: "follows ?p d" "follows ?g ?p" using a by (auto simp: follows_def)
  have prep: "durable_ok (settling (rw_store w)) (held w) ?p" if pre: "desk k (Some b) (Some d) True (insert r ?R) F w" for w
    by (rule preparing_ok [OF desk_durable(1) [OF pre], where plan = plan and r = r])
      (use a assms(1) deskD(5) [OF pre] in \<open>auto simp: follows_def validate_batch_iff planned_def\<close>)
  let ?D = "desk k (Some ?p) (Some ?p) True (insert r ?R) F"
  let ?tried = "\<lambda>x. case x of Inl _ \<Rightarrow> ?D | Inr _ \<Rightarrow> (\<lambda>w. desk k (Some ?p) (Some ?p) True {} F w \<and>
      held w r = Some (OwnerRebate (rb_id ?p), rebate_sources k plan))"
  have tried: "triple ?D (etry (on_hold (service_reserve_rebate (rq_ledger_store env) (rq_budgets env) now r (rb_id b)
      (rebate_sources k plan) (ev_reservation_ttl_secs input)))) ?tried (\<lambda>_. desk_inv)"
    by (rule triple_etry) (use reserve_triple [of ?p plan r F k "insert r ?R" now "ev_reservation_ttl_secs input", OF _ r(2) fits] in simp)
  have put: "triple ?D (put_batch ?g) (\<lambda>_. desk k (Some ?g) (Some ?p) True (insert r ?R) F) (\<lambda>_. desk_inv)"
    by (rule put_triple [where d' = ?p]) (use a deskD(5) in \<open>auto simp: mirrors_def\<close>)
  have save: "triple (desk k (Some ?g) (Some ?p) True (insert r ?R) F) (save_batch env ?g)
      (\<lambda>_. desk k (Some ?g) (Some ?g) True (insert r ?R) F) (\<lambda>_. desk_inv)"
    by (rule triple_weaken [OF follows_present [OF follow(2)]])
      (use follow(2) desk_error in \<open>auto intro: idle_durable [where R = "insert r ?R"]\<close>)
  have short: "triple ?D (ebind (put_batch ?g) (\<lambda>_. ebind (save_batch env ?g) (\<lambda>_. eok (AsGuarded (bp_deviation_bps plan)))))
      (\<lambda>_. desk_inv) (\<lambda>_. desk_inv)"
    by (rule triple_ebind [OF put triple_ebind [OF save triple_eok]]) (rule desk_error)
  have fails: "triple ?D (eerr e) (\<lambda>_. desk_inv) (\<lambda>_. desk_inv)" for e by (rule triple_eerr) (rule desk_error)
  have publish: "triple (\<lambda>w. desk k (Some ?p) (Some ?p) True {} F w \<and> held w r = Some (OwnerRebate (rb_id ?p), rebate_sources k plan))
      (publish_work env input ?p plan) (\<lambda>_. desk_inv) (\<lambda>_. desk_inv)"
    by (rule publish_triple) (use a r assms(2,3) in simp_all)
  have after: "triple (?tried reserved) (case reserved of
        Inr _ \<Rightarrow> publish_work env input ?p plan
      | Inl (RfLedger (SeLedger (Insufficient _))) \<Rightarrow>
          ebind (put_batch ?g) (\<lambda>_. ebind (save_batch env ?g) (\<lambda>_. eok (AsGuarded (bp_deviation_bps plan))))
      | Inl e \<Rightarrow> eerr e) (\<lambda>_. desk_inv) (\<lambda>_. desk_inv)" for reserved
    using publish short fails by (auto split: sum.split rebate_flow_error.split solvent_error.split ledger_error.split)
  have "triple (desk k (Some b) (Some d) False (insert r ?R) F) (prepare_work env now input b plan) (\<lambda>_. desk_inv) (\<lambda>_. desk_inv)"
    unfolding prepare_work_def Let_def r(1,3)
  proof (rule triple_ebind [OF guard_triple], rule save_put [OF follow(1)])
    show "triple ?D (ebind (etry (on_hold (service_reserve_rebate (rq_ledger_store env) (rq_budgets env) now r (rb_id b)
        (rebate_sources k plan) (ev_reservation_ttl_secs input)))) (\<lambda>reserved. case reserved of
          Inr _ \<Rightarrow> publish_work env input ?p plan
        | Inl (RfLedger (SeLedger (Insufficient _))) \<Rightarrow>
            ebind (put_batch ?g) (\<lambda>_. ebind (save_batch env ?g) (\<lambda>_. eok (AsGuarded (bp_deviation_bps plan))))
        | Inl e \<Rightarrow> eerr e)) (\<lambda>_. desk_inv) (\<lambda>_. desk_inv)"
      by (rule triple_ebind [OF tried after])
  qed (use prep desk_error in auto)
  then show "triple (resting k b d F) (prepare_work env now input b plan) (\<lambda>_. desk_inv) (\<lambda>_. desk_inv)"
    by (rule triple_weaken) (use released in auto)
qed

lemma resting_idle:
  assumes "resting k b d F w" "\<And>e. rb_state b \<noteq> BsReady e"
  shows "desk k (Some b) (Some d) False {q. active_reservation (rb_state d) = Some q} F w" "\<And>e. rb_state d \<noteq> BsReady e"
    "follows b d" "rb_strategy b = k" "keyed b" "accruals_valid b"
proof -
  have pre: "desk k (Some b) (Some d) False {r. interrupted (rb_state d) = Some r} F w" using assms by (simp add: resting_def)
  show nr: "rb_state d \<noteq> BsReady e" for e by (rule mirror_active(1) [OF desk_memory(1) [OF pre] assms(2)])
  then have "active_reservation (rb_state d) = Some q \<Longrightarrow> interrupted (rb_state d) = Some q" for q by (cases "rb_state d") auto
  then show "desk k (Some b) (Some d) False {q. active_reservation (rb_state d) = Some q} F w"
    by (intro desk_weaken [OF pre]) auto
  show "follows b d" "rb_strategy b = k" "keyed b" "accruals_valid b"
    using desk_follows [OF pre] desk_memory(2,6,7) [OF pre] by simp_all
qed

lemma assessed_triple:
  assumes ready: "\<And>plan. assessment = AsReady plan \<Longrightarrow> plan_matches_batch plan b \<and> bp_batch_id plan = rb_id b \<and>
      bp_strategy plan = rb_strategy b \<and> bp_amount_out plan \<le> u256_max"
    and r: "ev_reservation_id input \<in> F" "ms_key (ev_strategy input) = k" and idle: "\<And>e. rb_state b \<noteq> BsReady e"
  shows "triple (resting k b d F) (apply_assessment env now input b assessment) (\<lambda>_. desk_inv) (\<lambda>_. desk_inv)"
proof (rule triple_pre [where b = "follows b d \<and> (\<forall>e. rb_state d \<noteq> BsReady e)"])
  show "follows b d \<and> (\<forall>e. rb_state d \<noteq> BsReady e)" if "resting k b d F w" for w
    using resting_idle [OF that idle] by blast
  assume f: "follows b d \<and> (\<forall>e. rb_state d \<noteq> BsReady e)"
  let ?R = "{q. active_reservation (rb_state d) = Some q}"
  have ok: "durable_ok (settling (rw_store w)) (held w) (b\<lparr>rb_state := st\<rparr>)"
    if "desk k (Some b) (Some d) g ?R F w" "st = BsAccumulating \<or> st = BsGuarded" for w st g
    by (rule idle_durable [OF that(1)]) (use f that(2) in auto)
  have "triple (desk k (Some b) (Some d) False ?R F) (apply_assessment env now input b assessment) (\<lambda>_. desk_inv) (\<lambda>_. desk_inv)"
    if "\<And>plan. assessment \<noteq> AsReady plan"
  proof (cases assessment)
    case (AsQuoteable dev)
    let ?b = "b\<lparr>rb_state := BsAccumulating\<rparr>"
    have "triple (desk k (Some b) (Some d) False ?R F) (ebind (save_batch env ?b) (\<lambda>_. ebind (put_batch ?b) (\<lambda>_.
        ebind (unguard_strategy k) (\<lambda>_. eok assessment)))) (\<lambda>_. desk_inv) (\<lambda>_. desk_inv)"
    proof (rule save_put)
      show "triple (desk k (Some ?b) (Some ?b) False ?R F) (ebind (unguard_strategy k) (\<lambda>_. eok assessment)) (\<lambda>_. desk_inv) (\<lambda>_. desk_inv)"
        by (rule triple_ebind [OF unguard_triple triple_eok]) (use desk_error in auto)
    qed (use f ok desk_error in auto)
    then show ?thesis by (simp add: apply_assessment_def AsQuoteable r(2) Let_def)
  next
    case (AsGuarded dev)
    let ?b = "b\<lparr>rb_state := BsGuarded\<rparr>"
    have "triple (desk k (Some b) (Some d) False ?R F) (ebind (guard_strategy k) (\<lambda>_. ebind (save_batch env ?b) (\<lambda>_.
        ebind (put_batch ?b) (\<lambda>_. eok assessment)))) (\<lambda>_. desk_inv) (\<lambda>_. desk_inv)"
    proof (rule triple_ebind [OF guard_triple], rule save_put)
      show "triple (desk k (Some ?b) (Some ?b) True ?R F) (eok assessment) (\<lambda>_. desk_inv) (\<lambda>_. desk_inv)"
        by (rule triple_eok) (rule desk_error)
    qed (use f ok desk_error in auto)
    then show ?thesis by (simp add: apply_assessment_def AsGuarded r(2) Let_def)
  qed (use that in blast)
  then have plain_case: "triple (resting k b d F) (apply_assessment env now input b assessment) (\<lambda>_. desk_inv) (\<lambda>_. desk_inv)"
    if "\<And>plan. assessment \<noteq> AsReady plan"
    by (rule triple_weaken) (use that resting_idle(1) [OF _ idle] in blast)+
  show "triple (resting k b d F) (apply_assessment env now input b assessment) (\<lambda>_. desk_inv) (\<lambda>_. desk_inv)"
  proof (cases assessment)
    case (AsReady plan)
    have "triple (resting k b d F) (prepare_work env now input b plan) (\<lambda>_. desk_inv) (\<lambda>_. desk_inv)"
      by (rule prepare_triple) (use ready [OF AsReady] r idle in auto)
    then show ?thesis by (simp add: apply_assessment_def AsReady)
  qed (use plain_case in simp_all)
qed

lemma evaluate_keeps:
  assumes ok: "evaluation_ok md input"
  shows "triple (\<lambda>w. desk_inv w \<and> free_for (ms_key (ev_strategy input)) (ev_reservation_id input) w)
    (evaluate env md now input) (\<lambda>_. desk_inv) (\<lambda>_. desk_inv)"
proof -
  let ?k = "ms_key (ev_strategy input)" and ?F = "{ev_reservation_id input}"
  let ?go = "\<lambda>b. case rb_state b of
      BsReady e \<Rightarrow> eok (AsReady (re_plan e))
    | _ \<Rightarrow> ebind (eres (economics (rq_config env) md (ev_strategy input) (ev_minimums input))) (\<lambda>(market, requirements).
        ebind (eres (lift_rebate (assess (rq_policy env) (rb_id b) (bm_values (rb_accruals b)) (ev_strategy input)
          (ev_caps input) market requirements))) (apply_assessment env now input b))"
  have go: "triple (resting ?k b d ?F) (?go b) (\<lambda>_. desk_inv) (\<lambda>_. desk_inv)" for b d
  proof (cases "\<exists>e. rb_state b = BsReady e")
    case True
    then obtain e where e: "rb_state b = BsReady e" by blast
    have "triple (resting ?k b d ?F) (eok (AsReady (re_plan e))) (\<lambda>_. desk_inv) (\<lambda>_. desk_inv)"
      by (rule triple_eok) (auto simp: resting_def dest: desk_error)
    then show ?thesis by (simp only: e rebate_batch_state.case)
  next
    case False
    then have idle: "rb_state b \<noteq> BsReady e" for e by blast
    have err: "triple (resting ?k b d ?F) (eerr e) (\<lambda>_. desk_inv) (\<lambda>_. desk_inv)" for e :: rebate_flow_error
      by (rule triple_eerr) (auto simp: resting_def dest: desk_error)
    have "triple (resting ?k b d ?F) (ebind (eres (economics (rq_config env) md (ev_strategy input) (ev_minimums input)))
        (\<lambda>(market, requirements). ebind (eres (lift_rebate (assess (rq_policy env) (rb_id b) (bm_values (rb_accruals b))
          (ev_strategy input) (ev_caps input) market requirements))) (apply_assessment env now input b)))
        (\<lambda>_. desk_inv) (\<lambda>_. desk_inv)" (is "triple _ (ebind (eres ?eco) ?rest) _ _")
    proof (cases ?eco)
      case (Inl e)
      show ?thesis unfolding Inl ebind_eres by (rule err)
    next
      case (Inr mr)
      obtain market reqs where mr: "mr = (market, reqs)" by (cases mr)
      note eco = economics_ok [OF Inr [unfolded mr]]
      let ?a = "assess (rq_policy env) (rb_id b) (bm_values (rb_accruals b)) (ev_strategy input) (ev_caps input) market reqs"
      have "triple (resting ?k b d ?F) (ebind (eres (lift_rebate ?a)) (apply_assessment env now input b)) (\<lambda>_. desk_inv) (\<lambda>_. desk_inv)"
      proof (cases ?a)
        case (Inl e)
        show ?thesis unfolding Inl lift_rebate_def map_sum.simps ebind_eres by (rule err)
      next
        case (Inr assessment)
        have "triple (resting ?k b d ?F) (apply_assessment env now input b assessment) (\<lambda>_. desk_inv) (\<lambda>_. desk_inv)"
        proof (rule triple_pre [where b = "rb_strategy b = ?k \<and> keyed b \<and> accruals_valid b"])
          show "rb_strategy b = ?k \<and> keyed b \<and> accruals_valid b" if "resting ?k b d ?F w" for w
            using resting_idle(4-6) [OF that idle] by blast
          assume b: "rb_strategy b = ?k \<and> keyed b \<and> accruals_valid b"
          show "triple (resting ?k b d ?F) (apply_assessment env now input b assessment) (\<lambda>_. desk_inv) (\<lambda>_. desk_inv)"
          proof (rule assessed_triple)
            fix plan assume plan: "assessment = AsReady plan"
            show "plan_matches_batch plan b \<and> bp_batch_id plan = rb_id b \<and> bp_strategy plan = rb_strategy b \<and> bp_amount_out plan \<le> u256_max"
              using ready_plan_fits [OF Inr [unfolded plan]] b ok eco by (simp add: evaluation_ok_def)
          qed (use idle in auto)
        qed
        then show ?thesis unfolding Inr lift_rebate_def map_sum.simps ebind_eres id_apply .
      qed
      then show ?thesis unfolding Inr mr ebind_eres by simp
    qed
    then show ?thesis using False by (cases "rb_state b") simp_all
  qed
  have "triple (\<lambda>w. desk_inv w \<and> (\<forall>r \<in> ?F. free_for ?k r w)) (ebind (live_batch ?k) (\<lambda>found.
      case found of None \<Rightarrow> eerr (RfRebate (StrategyMismatch (sk_hash ?k)))
      | Some b0 \<Rightarrow> ebind (finish_interrupted_transition env b0) ?go)) (\<lambda>_. desk_inv) (\<lambda>_. desk_inv)"
  proof (rule live_triple; unfold option.case)
    show "triple (desk ?k None None False {} ?F) (eerr (RfRebate (StrategyMismatch (sk_hash ?k)))) (\<lambda>_. desk_inv) (\<lambda>_. desk_inv)"
      by (rule triple_eerr) (rule desk_error)
    show "triple (desk ?k (Some b) (Some d) False {} ?F) (ebind (finish_interrupted_transition env b) ?go) (\<lambda>_. desk_inv) (\<lambda>_. desk_inv)" for b d
      by (rule triple_ebind [OF finish_interrupted_triple triple_ex]) (rule go)
  qed
  then show ?thesis unfolding evaluate_def Let_def by simp
qed

end

end
