(* ===== verification/Rebate_Work.thy ===== *)
theory Rebate_Work
  imports Rebate_System
begin

text \<open>
  The operations that end rebate work keep the invariant too: discarding a batch, settling a mined
  execution and expiring one, and the recovery that rebuilds memory after a restart.
\<close>

lemma finder:
  assumes "bm_wf m" "find (\<lambda>(_, b). P b) m = Some (k, b)"
  shows "bm_get m k = Some b" "P b"
  using find_member [OF assms(2)] bm_get_iff [OF assms(1)] by auto

context rebate_desk
begin

lemma desk_guarded:
  assumes "desk k (Some b) d g R F w" "rb_state b \<noteq> BsAccumulating"
  shows "desk k (Some b) d True R F w"
proof -
  have "k \<in> guarded_keys w"
    by (rule memory_slot [OF deskD(8,2) [OF assms(1)]]) (use assms(2) in blast)
  then show ?thesis using assms(1) by (simp add: desk_def)
qed

subsection \<open>Closing a batch\<close>

definition closed_desk :: "strategy_key \<Rightarrow> ('l, 's) rebate_world \<Rightarrow> bool" where
  "closed_desk k w \<longleftrightarrow> desk k None None False {} {} (w\<lparr>rw_batches := bm_remove k (rw_batches w)\<rparr>)"

lemma closedI:
  assumes pre: "desk k m (Some d) g R F w" and rel: "\<And>r. active_reservation (rb_state d) = Some r \<Longrightarrow> r \<in> R"
    and s: "reb_wf s'" "opened s' = without (rb_id d) (durable w)" "settling s' = (settling (rw_store w))(rb_id d := None)"
  shows "closed_desk k (w\<lparr>rw_store := s'\<rparr>)"
proof -
  have "rebate_inv ((memory w)(k := None)) (without (rb_id d) (durable w)) ((settling (rw_store w))(rb_id d := None))
      (held w) (guarded_keys w)"
    by (rule inv_close [OF deskD(8,3) [OF pre]]) (use rel deskD(5) [OF pre] in blast)
  moreover have "without (rb_id d) (durable w) k = None" by (simp add: without_def deskD(3) [OF pre])
  ultimately show ?thesis
    using stores_okD [OF deskD(7) [OF pre]] s by (simp add: closed_desk_def desk_def desk_inv_def stores_ok_def)
qed

lemma dropped: "triple (closed_desk k) (drop_batch k) (\<lambda>_. desk k None None False {} {}) E"
  unfolding drop_batch_def by (rule triple_emodify) (simp add: closed_desk_def)

lemma drop_unguard:
  "triple (closed_desk k) (ebind (drop_batch k) (\<lambda>_. ebind (unguard_strategy k) (\<lambda>_. eok True))) (\<lambda>_. desk_inv) (\<lambda>_. desk_inv)"
  by (rule triple_ebind [OF dropped triple_ebind [OF unguard_triple triple_eok]]) (use desk_error in auto)

lemma on_rebates_run:
  "on_rebates c w = (map_sum RfStore id (fst (c (rw_store w))), w\<lparr>rw_store := snd (c (rw_store w))\<rparr>)"
  by (simp add: on_rebates_def emap_err_def on_part_def split: prod.split)

lemma desk_store:
  assumes "desk k m d g R F w" "reb_wf s'" "opened s' = durable w" "settling s' = settling (rw_store w)"
  shows "desk k m d g R F (w\<lparr>rw_store := s'\<rparr>)"
  by (rule desk_change [OF assms(1)])
    (use deskD [OF assms(1)] stores_okD [OF deskD(7) [OF assms(1)]] assms(2-4) in \<open>auto simp: stores_ok_def free_for_def\<close>)

lemma close_triple:
  assumes rel: "\<And>r. active_reservation (rb_state d) = Some r \<Longrightarrow> r \<in> R" and idle: "\<And>e. rb_state d \<noteq> BsReady e"
    and i: "rb_id d = i"
  shows "triple (desk k m (Some d) g R F) (on_rebates (ro_close (rq_store env) i)) (\<lambda>_. closed_desk k) (\<lambda>_. desk_inv)"
proof (rule tripleI)
  fix w x w' assume pre: "desk k m (Some d) g R F w" and run: "on_rebates (ro_close (rq_store env) i) w = (Inr x, w')"
  obtain s' where c: "ro_close (rq_store env) i (rw_store w) = (Inr (), s')" "w' = w\<lparr>rw_store := s'\<rparr>"
    using run by (cases "ro_close (rq_store env) i (rw_store w)"; cases "fst (ro_close (rq_store env) i (rw_store w))")
      (auto simp: on_rebates_run)
  note v = reb.close_call [OF stores_okD(2) [OF deskD(7) [OF pre]] c(1)]
  have "settling (rw_store w) i = None"
    using durable_okD(4) [OF desk_durable(1) [OF pre]] idle i by (cases "settling (rw_store w) i") (auto simp: settles_def)
  then show "closed_desk k w'" unfolding c(2) by (intro closedI [OF pre rel]) (use v i in auto)
next
  fix w e w' assume pre: "desk k m (Some d) g R F w" and run: "on_rebates (ro_close (rq_store env) i) w = (Inl e, w')"
  obtain e' s' where c: "ro_close (rq_store env) i (rw_store w) = (Inl e', s')" "w' = w\<lparr>rw_store := s'\<rparr>"
    using run by (cases "ro_close (rq_store env) i (rw_store w)"; cases "fst (ro_close (rq_store env) i (rw_store w))")
      (auto simp: on_rebates_run)
  show "desk_inv w'"
    unfolding c(2) by (rule desk_error, rule desk_store [OF pre])
      (use reb.close_call [OF stores_okD(2) [OF deskD(7) [OF pre]] c(1)] in simp_all)
qed

lemma busy_iff: "(case st of BsReady _ \<Rightarrow> True | _ \<Rightarrow> False) \<longleftrightarrow> (\<exists>e. st = BsReady e)"
  by (cases st) auto

lemma discard_release_triple:
  assumes idle: "\<And>e. rb_state b \<noteq> BsReady e"
  shows "triple (desk k (Some b) (Some d) g R F)
    (case active_reservation (rb_state b) of
       None \<Rightarrow> eok ()
     | Some r \<Rightarrow> ebind (put_batch (b\<lparr>rb_state := BsInvalidating r\<rparr>)) (\<lambda>_.
         ebind (save_batch env (b\<lparr>rb_state := BsInvalidating r\<rparr>)) (\<lambda>_. release_if_held env r)))
    (\<lambda>_ w. \<exists>m d'. desk k m (Some d') False {r. active_reservation (rb_state d') = Some r} F w \<and>
       (\<forall>e. rb_state d' \<noteq> BsReady e) \<and> rb_id d' = rb_id b) (\<lambda>_. desk_inv)"
  (is "triple ?P _ ?Q _")
proof (cases "active_reservation (rb_state b)")
  case None
  have "triple ?P (eok ()) ?Q (\<lambda>_. desk_inv)"
  proof (rule triple_eok)
    fix w assume pre: "?P w"
    note m = mirror_active [OF desk_memory(1) [OF pre] idle]
    have "desk k (Some b) (Some d) False {r. active_reservation (rb_state d) = Some r} F w"
      using pre m(3) [OF None] by (simp add: desk_def)
    then show "?Q () w" using m(1) desk_memory(3) [OF pre] by metis
  qed
  then show ?thesis by (simp only: None option.case)
next
  case (Some r)
  let ?b = "b\<lparr>rb_state := BsInvalidating r\<rparr>"
  have "triple ?P (ebind (put_batch ?b) (\<lambda>_. ebind (save_batch env ?b) (\<lambda>_. release_if_held env r))) ?Q (\<lambda>_. desk_inv)"
  proof (rule triple_pre [where b = "follows b d \<and> rb_strategy b = k \<and> interrupted (rb_state d) = Some r \<and> b = d\<lparr>rb_state := rb_state b\<rparr>"])
    have "interrupted (rb_state b) = Some r" using Some idle by (cases "rb_state b") auto
    then show "follows b d \<and> rb_strategy b = k \<and> interrupted (rb_state d) = Some r \<and> b = d\<lparr>rb_state := rb_state b\<rparr>" if "?P w" for w
      using desk_follows [OF that] desk_memory(2) [OF that] mirror_interrupted [OF desk_memory(1) [OF that]] desk_memory(1) [OF that]
      unfolding mirrors_def by blast
    assume a: "follows b d \<and> rb_strategy b = k \<and> interrupted (rb_state d) = Some r \<and> b = d\<lparr>rb_state := rb_state b\<rparr>"
    then have upd: "?b = d\<lparr>rb_state := BsInvalidating r\<rparr>" by (metis rebate_batch.surjective rebate_batch.update_convs(5))
    note act = interrupted_active [of "rb_state d" r]
    have k: "rb_strategy d = k" using a unfolding follows_def by metis
    have put: "triple (desk k (Some b) (Some d) True R F) (put_batch ?b) (\<lambda>_. desk k (Some ?b) (Some d) True R F) (\<lambda>_. desk_inv)"
      by (rule put_triple [where d' = d]) (use a upd k in \<open>auto simp: mirrors_def\<close>)
    have save: "triple (desk k (Some ?b) (Some d) True R F) (save_batch env ?b) (\<lambda>_. desk k (Some ?b) (Some ?b) True R F) (\<lambda>_. desk_inv)"
      by (rule triple_weaken [OF follows_present [of ?b d]]) (use a act desk_error in \<open>auto intro: marked_durable [where r = r]\<close>)
    have rel: "triple (desk k (Some ?b) (Some ?b) True R F) (release_if_held env r) (\<lambda>_. desk k (Some ?b) (Some ?b) True (insert r R) F) (\<lambda>_. desk_inv)"
      by (rule triple_weaken [OF release_triple]) (use desk_error in auto)
    have fin: "?Q () w" if "desk k (Some ?b) (Some ?b) True (insert r R) F w" for w
      using desk_weaken [OF that, of False "{r}" F] by (intro exI [of _ "Some ?b"] exI [of _ ?b]) auto
    have "triple (desk k (Some b) (Some d) True R F) (ebind (put_batch ?b) (\<lambda>_. ebind (save_batch env ?b) (\<lambda>_. release_if_held env r))) ?Q (\<lambda>_. desk_inv)"
      by (rule triple_ebind [OF put triple_ebind [OF save triple_weaken [OF rel]]]) (use fin in auto)
    then show "triple ?P (ebind (put_batch ?b) (\<lambda>_. ebind (save_batch env ?b) (\<lambda>_. release_if_held env r))) ?Q (\<lambda>_. desk_inv)"
      by (rule triple_weaken) (use desk_guarded Some in force)+
  qed
  then show ?thesis by (simp only: Some option.case)
qed

lemma discard_keeps: "triple desk_inv (discard env k) (\<lambda>_. desk_inv) (\<lambda>_. desk_inv)"
proof -
  have live: "triple (desk k (Some b) (Some d) False {} {})
      (if (case rb_state b of BsReady _ \<Rightarrow> True | _ \<Rightarrow> False) then eerr (RfRebate (InvalidExecution MustExpireFirst))
       else ebind (case active_reservation (rb_state b) of
                      None \<Rightarrow> eok ()
                    | Some r \<Rightarrow> ebind (put_batch (b\<lparr>rb_state := BsInvalidating r\<rparr>)) (\<lambda>_.
                        ebind (save_batch env (b\<lparr>rb_state := BsInvalidating r\<rparr>)) (\<lambda>_. release_if_held env r))) (\<lambda>_.
             ebind (on_rebates (ro_close (rq_store env) (rb_id b))) (\<lambda>_.
             ebind (drop_batch k) (\<lambda>_. ebind (unguard_strategy k) (\<lambda>_. eok True))))) (\<lambda>_. desk_inv) (\<lambda>_. desk_inv)" for b d
    unfolding busy_iff
  proof (rule triple_if)
    show "triple (desk k (Some b) (Some d) False {} {}) (eerr (RfRebate (InvalidExecution MustExpireFirst))) (\<lambda>_. desk_inv) (\<lambda>_. desk_inv)"
      by (rule triple_eerr) (rule desk_error)
    assume "\<nexists>e. rb_state b = BsReady e"
    then have idle: "rb_state b \<noteq> BsReady e" for e by blast
    have "triple (\<lambda>w. desk k m (Some d') False {r. active_reservation (rb_state d') = Some r} {} w \<and>
        (\<forall>e. rb_state d' \<noteq> BsReady e) \<and> rb_id d' = rb_id b)
        (ebind (on_rebates (ro_close (rq_store env) (rb_id b))) (\<lambda>_. ebind (drop_batch k) (\<lambda>_. ebind (unguard_strategy k) (\<lambda>_. eok True))))
        (\<lambda>_. desk_inv) (\<lambda>_. desk_inv)" for m d'
      by (rule triple_conj_pre) (rule triple_ebind [OF close_triple drop_unguard], auto)
    then have close: "triple (\<lambda>w. \<exists>m d'. desk k m (Some d') False {r. active_reservation (rb_state d') = Some r} {} w \<and>
        (\<forall>e. rb_state d' \<noteq> BsReady e) \<and> rb_id d' = rb_id b)
        (ebind (on_rebates (ro_close (rq_store env) (rb_id b))) (\<lambda>_. ebind (drop_batch k) (\<lambda>_. ebind (unguard_strategy k) (\<lambda>_. eok True))))
        (\<lambda>_. desk_inv) (\<lambda>_. desk_inv)" by (intro triple_ex)
    show "triple (desk k (Some b) (Some d) False {} {}) (ebind (case active_reservation (rb_state b) of
                      None \<Rightarrow> eok ()
                    | Some r \<Rightarrow> ebind (put_batch (b\<lparr>rb_state := BsInvalidating r\<rparr>)) (\<lambda>_.
                        ebind (save_batch env (b\<lparr>rb_state := BsInvalidating r\<rparr>)) (\<lambda>_. release_if_held env r))) (\<lambda>_.
             ebind (on_rebates (ro_close (rq_store env) (rb_id b))) (\<lambda>_.
             ebind (drop_batch k) (\<lambda>_. ebind (unguard_strategy k) (\<lambda>_. eok True))))) (\<lambda>_. desk_inv) (\<lambda>_. desk_inv)"
      by (rule triple_ebind [OF discard_release_triple [OF idle] close])
  qed
  have none: "triple (desk k None None False {} {}) (eok False) (\<lambda>_. desk_inv) (\<lambda>_. desk_inv)"
    by (rule triple_eok) (rule desk_error)
  have "triple (\<lambda>w. desk_inv w \<and> (\<forall>r \<in> {}. free_for k r w)) (discard env k) (\<lambda>_. desk_inv) (\<lambda>_. desk_inv)"
    unfolding discard_def Let_def by (rule live_triple; unfold option.case) (rule none live)+
  then show ?thesis by simp
qed

subsection \<open>Settlement\<close>

lemma ready_record:
  assumes "desk k (Some b) (Some d) g R F w" "rb_state b = BsReady e"
  shows "d = b" "desk k (Some b) (Some b) True R F w" "re_reservation e \<noteq> 0"
proof -
  have "rb_state d = rb_state b" "b = d\<lparr>rb_state := rb_state b\<rparr>"
    using desk_memory(1) [OF assms(1)] assms(2) by (auto simp: mirrors_def)
  then show db: "d = b" by (metis rebate_batch.surjective rebate_batch.update_convs(5))
  show "desk k (Some b) (Some b) True R F w" using desk_guarded [OF assms(1)] assms(2) db by simp
  show "re_reservation e \<noteq> 0"
    using durable_okD(3) [OF desk_durable(1) [OF assms(1)]] assms(2) db by (auto simp: backed_def)
qed

text \<open>The settlement of a ready batch is durable.\<close>

definition begun :: "rebate_settlement \<Rightarrow> 's \<Rightarrow> bool" where
  "begun x s \<longleftrightarrow> (\<exists>y. settling s (bp_batch_id (rt_plan x)) = Some y \<and> same_settlement y x)"

lemma begin_triple:
  assumes b: "rb_state b = BsReady e"
    and x: "validate_settlement x = Inr ()" "rt_plan x = re_plan e" "rt_reservation x = re_reservation e" "bp_batch_id (re_plan e) = rb_id b"
  shows "triple (desk k (Some b) (Some b) True R F) (on_rebates (ro_begin_settlement (rq_store env) x))
    (\<lambda>_ w. desk k (Some b) (Some b) True R F w \<and> begun x (rw_store w)) (\<lambda>_. desk_inv)"
proof -
  let ?c = "ro_begin_settlement (rq_store env) x"
  have run: "desk k (Some b) (Some b) True R F (w\<lparr>rw_store := s'\<rparr>) \<and> (r = Inr () \<longrightarrow> begun x s')"
    if pre: "desk k (Some b) (Some b) True R F w" and c: "?c (rw_store w) = (r, s')" for w r s'
  proof -
    note st = stores_okD [OF deskD(7) [OF pre]]
    note v = reb.begin_call [OF st(2) c]
    have id: "bp_batch_id (rt_plan x) = rb_id b" using x by simp
    have "rebate_inv (memory w) (durable w) ((settling (rw_store w))(rb_id b \<mapsto> x)) (held w) (guarded_keys w)"
      by (rule inv_begin [OF deskD(8,3) [OF pre] b]) (use x in auto)
    then have "rebate_inv (memory w) (opened s') (settling s') (held w) (guarded_keys w)"
      using v deskD(8) [OF pre] id by auto
    then have "desk k (Some b) (Some b) True R F (w\<lparr>rw_store := s'\<rparr>)"
      by (intro desk_change [OF pre]) (use deskD [OF pre] v st in \<open>auto simp: stores_ok_def free_for_def\<close>)
    moreover have "r = Inr () \<Longrightarrow> begun x s'" using v deskD(3) [OF pre] id unfolding begun_def by metis
    ultimately show ?thesis by blast
  qed
  show ?thesis
  proof (rule tripleI)
    fix w u w' assume pre: "desk k (Some b) (Some b) True R F w" and "on_rebates ?c w = (Inr u, w')"
    then obtain s' where c: "?c (rw_store w) = (Inr (), s')" "w' = w\<lparr>rw_store := s'\<rparr>"
      by (cases "?c (rw_store w)"; cases "fst (?c (rw_store w))") (auto simp: on_rebates_run)
    show "desk k (Some b) (Some b) True R F w' \<and> begun x (rw_store w')" using run [OF pre c(1)] by (simp add: c(2))
  next
    fix w u w' assume pre: "desk k (Some b) (Some b) True R F w" and "on_rebates ?c w = (Inl u, w')"
    then obtain e' s' where c: "?c (rw_store w) = (Inl e', s')" "w' = w\<lparr>rw_store := s'\<rparr>"
      by (cases "?c (rw_store w)"; cases "fst (?c (rw_store w))") (auto simp: on_rebates_run)
    show "desk_inv w'" using run [OF pre c(1)] desk_error by (auto simp: c(2))
  qed
qed

lemma post_triple:
  assumes b: "rb_state b = BsReady e" and x: "rt_reservation x = re_reservation e" "rt_plan x = re_plan e"
    and out: "rv_amount_out (rt_event x) = bp_amount_out (re_plan e)" and id: "bp_batch_id (re_plan e) = rb_id b"
  shows "triple (\<lambda>w. desk k (Some b) (Some b) True R F w \<and> begun x (rw_store w)) (post_if_held env x)
    (\<lambda>_ w. desk k (Some b) (Some b) True (insert (re_reservation e) R) F w \<and> begun x (rw_store w))
    (\<lambda>_. desk k (Some b) (Some b) True R F)"
proof -
  let ?c = "service_post (rq_ledger_store env) (re_reservation e) [rv_amount_out (rt_event x)]"
  have "post_if_held env x = if_held (re_reservation e) ?c"
    unfolding post_if_held_def if_held_def x ..
  moreover have "triple (\<lambda>w. desk k (Some b) (Some b) True R F w \<and> begun x (rw_store w)) (if_held (re_reservation e) ?c)
    (\<lambda>_ w. desk k (Some b) (Some b) True (insert (re_reservation e) R) F w \<and> begun x (rw_store w))
    (\<lambda>_. desk k (Some b) (Some b) True R F)"
  proof (rule if_held_triple)
    fix w res sv'
    assume pre: "desk k (Some b) (Some b) True R F w" and hr: "held w (re_reservation e) \<noteq> None" and run: "?c (rw_ledger w) = (res, sv')"
    have "held w (re_reservation e) = Some (OwnerRebate (rb_id b), rebate_sources (rb_strategy b) (re_plan e))"
      using durable_okD(3) [OF desk_durable(1) [OF pre]] b hr by (auto simp: backed_def)
    then have "fills_ok (sv_ledger (rw_ledger w)) (re_reservation e) [rv_amount_out (rt_event x)]"
      by (rule held_fills) (simp add: rebate_sources_def out)
    then show "consistent rows led_wf (sv_ledger sv') (sv_store sv') \<and>
        hold (sv_ledger sv') = (if isl res then held w else (held w)(re_reservation e := None))"
      using led.consistent_commands(1) [OF stores_okD(1) [OF deskD(7) [OF pre]]] service_hold(3) [OF run] run
      by (metis snd_conv)
  qed (use b id x in \<open>auto simp: begun_def\<close>)
  ultimately show ?thesis by simp
qed

lemma finish_triple:
  assumes rel: "\<And>r. active_reservation (rb_state d) = Some r \<Longrightarrow> r \<in> R" and i: "rb_id d = i"
  shows "triple (desk k m (Some d) g R F) (on_rebates (ro_finish_settlement (rq_store env) i)) (\<lambda>_. closed_desk k)
    (\<lambda>_. desk k m (Some d) g R F)"
proof (rule tripleI)
  let ?c = "ro_finish_settlement (rq_store env) i"
  fix w u w' assume pre: "desk k m (Some d) g R F w" and "on_rebates ?c w = (Inr u, w')"
  then obtain s' where c: "?c (rw_store w) = (Inr (), s')" "w' = w\<lparr>rw_store := s'\<rparr>"
    by (cases "?c (rw_store w)"; cases "fst (?c (rw_store w))") (auto simp: on_rebates_run)
  show "closed_desk k w'"
    unfolding c(2) by (rule closedI [OF pre rel])
      (use reb.finish_call [OF stores_okD(2) [OF deskD(7) [OF pre]] c(1)] i in auto)
next
  let ?c = "ro_finish_settlement (rq_store env) i"
  fix w u w' assume pre: "desk k m (Some d) g R F w" and "on_rebates ?c w = (Inl u, w')"
  then obtain e' s' where c: "?c (rw_store w) = (Inl e', s')" "w' = w\<lparr>rw_store := s'\<rparr>"
    by (cases "?c (rw_store w)"; cases "fst (?c (rw_store w))") (auto simp: on_rebates_run)
  show "desk k m (Some d) g R F w'"
    unfolding c(2) by (rule desk_store [OF pre])
      (use reb.finish_call [OF stores_okD(2) [OF deskD(7) [OF pre]] c(1)] in simp_all)
qed

lemma settle_ready_triple:
  fixes executed_at :: u64
  assumes b: "rb_state b = BsReady e" "validate_execution_event event e = Inr ()"
  defines "x \<equiv> \<lparr>rt_plan = re_plan e, rt_reservation = re_reservation e, rt_event = event, rt_executed_at = executed_at\<rparr>"
  shows "triple (desk k (Some b) (Some d) g R {})
    (ebind (on_rebates (ro_begin_settlement (rq_store env) x)) (\<lambda>_.
     ebind (post_if_held env x) (\<lambda>_.
     ebind (on_rebates (ro_finish_settlement (rq_store env) (rb_id b))) (\<lambda>_.
     ebind (drop_batch k) (\<lambda>_. ebind (unguard_strategy k) (\<lambda>_. eok True))))))
    (\<lambda>_. desk_inv) (\<lambda>_. desk_inv)"
proof (rule triple_pre [where b = "re_reservation e \<noteq> 0 \<and> bp_batch_id (re_plan e) = rb_id b"])
  let ?r = "re_reservation e"
  show "?r \<noteq> 0 \<and> bp_batch_id (re_plan e) = rb_id b" if pre: "desk k (Some b) (Some d) g R {} w" for w
  proof -
    note r = ready_record [OF pre b(1)]
    have "validate_batch b = Inr ()" using durable_okD(1) [OF desk_durable(1) [OF r(2)]] .
    then have "plan_matches_batch (re_plan e) b" using b(1) by (simp add: validate_batch_iff planned_def)
    then show ?thesis using r(3) by (simp add: plan_matches_batch_def split: if_splits)
  qed
  assume a: "?r \<noteq> 0 \<and> bp_batch_id (re_plan e) = rb_id b"
  have rep: "event_repeats event (re_plan e)" using b(2) by (simp add: validate_execution_event_def split: if_splits)
  have x: "validate_settlement x = Inr ()" "rt_plan x = re_plan e" "rt_reservation x = ?r"
    "rv_amount_out (rt_event x) = bp_amount_out (re_plan e)"
    using rep a by (simp_all add: x_def validate_settlement_def event_repeats_def)
  note bt = begin_triple [OF b(1) x(1-3)] and pt = post_triple [OF b(1) x(3,2,4)]
  have post: "triple (\<lambda>w. desk k (Some b) (Some b) True R {} w \<and> begun x (rw_store w)) (post_if_held env x)
      (\<lambda>_. desk k (Some b) (Some b) True (insert ?r R) {}) (\<lambda>_. desk_inv)"
    by (rule triple_weaken [OF pt]) (use a desk_error in auto)
  have fin: "triple (desk k (Some b) (Some b) True (insert ?r R) {}) (on_rebates (ro_finish_settlement (rq_store env) (rb_id b)))
      (\<lambda>_. closed_desk k) (\<lambda>_. desk_inv)"
    by (rule triple_weaken [OF finish_triple]) (use b(1) desk_error in auto)
  have "triple (desk k (Some b) (Some b) True R {})
      (ebind (on_rebates (ro_begin_settlement (rq_store env) x)) (\<lambda>_.
       ebind (post_if_held env x) (\<lambda>_.
       ebind (on_rebates (ro_finish_settlement (rq_store env) (rb_id b))) (\<lambda>_.
       ebind (drop_batch k) (\<lambda>_. ebind (unguard_strategy k) (\<lambda>_. eok True))))))
      (\<lambda>_. desk_inv) (\<lambda>_. desk_inv)"
    by (rule triple_ebind [OF bt triple_ebind [OF post triple_ebind [OF fin drop_unguard]]]) (use a in simp)
  then show "triple (desk k (Some b) (Some d) g R {})
      (ebind (on_rebates (ro_begin_settlement (rq_store env) x)) (\<lambda>_.
       ebind (post_if_held env x) (\<lambda>_.
       ebind (on_rebates (ro_finish_settlement (rq_store env) (rb_id b))) (\<lambda>_.
       ebind (drop_batch k) (\<lambda>_. ebind (unguard_strategy k) (\<lambda>_. eok True))))))
      (\<lambda>_. desk_inv) (\<lambda>_. desk_inv)"
    by (rule triple_weaken) (use ready_record(2) [OF _ b(1)] in auto)
qed

lemma settle_keeps: "triple desk_inv (settle_work env event executed_at) (\<lambda>_. desk_inv) (\<lambda>_. desk_inv)"
proof -
  let ?find = "\<lambda>w. find (\<lambda>(_, b). rb_id b = rv_batch_id event) (rw_batches w)"
  have here: "\<exists>d. desk k (Some b) (Some d) False {} {} w" if "desk_inv w" "?find w = Some (k, b)" for w k b
  proof -
    have i: "rebate_inv (memory w) (durable w) (settling (rw_store w)) (held w) (guarded_keys w)" "bm_wf (rw_batches w)"
      using that(1) by (simp_all add: desk_inv_def stores_ok_def)
    have m: "memory w k = Some b" by (rule finder(1) [OF i(2) that(2)])
    obtain d where "durable w k = Some d" by (rule memory_slot [OF i(1) m]) (rule that)
    then show ?thesis using m that(1) by (auto simp: desk_def)
  qed
  have ok: "triple desk_inv (eok False) (\<lambda>_. desk_inv) (\<lambda>_. desk_inv)" by (rule triple_eok)
  have err: "triple desk_inv (eerr e) (\<lambda>_. desk_inv) (\<lambda>_. desk_inv)" for e :: rebate_flow_error by (rule triple_eerr)
  show ?thesis
    unfolding settle_work_def
  proof (rule triple_ebind [OF triple_eread])
    fix found
    show "triple (\<lambda>w. desk_inv w \<and> found = ?find w) (case found of
         None \<Rightarrow> eok False
       | Some (key, b) \<Rightarrow>
           (case rb_state b of
              BsReady e \<Rightarrow>
                ebind (eres (lift_rebate (validate_execution_event event e))) (\<lambda>_.
                  let s = \<lparr>rt_plan = re_plan e, rt_reservation = re_reservation e, rt_event = event,
                           rt_executed_at = executed_at\<rparr> in
                  ebind (on_rebates (ro_begin_settlement (rq_store env) s)) (\<lambda>_.
                  ebind (post_if_held env s) (\<lambda>_.
                  ebind (on_rebates (ro_finish_settlement (rq_store env) (rb_id b))) (\<lambda>_.
                  ebind (drop_batch key) (\<lambda>_.
                  ebind (unguard_strategy key) (\<lambda>_. eok True))))))
            | _ \<Rightarrow> eerr (RfRebate (InvalidExecution NotReadyWork)))) (\<lambda>_. desk_inv) (\<lambda>_. desk_inv)"
      (is "triple ?P (case found of None \<Rightarrow> _ | Some (key, b) \<Rightarrow> ?body key b) _ _")
    proof (cases found)
      case None
      then show ?thesis using triple_conj_drop [OF ok] by simp
    next
      case (Some kb)
      obtain k b where kb: "kb = (k, b)" by (cases kb)
      have "triple ?P (?body k b) (\<lambda>_. desk_inv) (\<lambda>_. desk_inv)"
      proof (cases "\<exists>e. rb_state b = BsReady e \<and> validate_execution_event event e = Inr ()")
        case True
        then obtain e where e: "rb_state b = BsReady e" "validate_execution_event event e = Inr ()" by blast
        note go = triple_ex [where P = "\<lambda>d. desk k (Some b) (Some d) False {} {}",
            OF settle_ready_triple [OF e, of k _ False "{}" executed_at]]
        have "triple ?P (ebind (eres (lift_rebate (validate_execution_event event e))) (\<lambda>_.
            let s = \<lparr>rt_plan = re_plan e, rt_reservation = re_reservation e, rt_event = event, rt_executed_at = executed_at\<rparr> in
            ebind (on_rebates (ro_begin_settlement (rq_store env) s)) (\<lambda>_. ebind (post_if_held env s) (\<lambda>_.
            ebind (on_rebates (ro_finish_settlement (rq_store env) (rb_id b))) (\<lambda>_. ebind (drop_batch k) (\<lambda>_.
            ebind (unguard_strategy k) (\<lambda>_. eok True))))))) (\<lambda>_. desk_inv) (\<lambda>_. desk_inv)"
          unfolding e(2) lift_rebate_def map_sum.simps ebind_eres Let_def
          by (rule triple_weaken [OF go]) (use here Some kb in auto)
        then show ?thesis by (simp only: e(1) rebate_batch_state.case)
      next
        case False
        then show ?thesis
          using triple_conj_drop [OF err]
          by (cases "rb_state b"; cases "validate_execution_event event (ready_execution (rb_state b))") (auto simp: lift_rebate_def)
      qed
      then show ?thesis by (simp only: Some kb option.case prod.case)
    qed
  qed
qed

subsection \<open>Expiry\<close>

lemma expire_hold_triple:
  assumes "rb_state d = BsInvalidating r"
  shows "triple (desk k m (Some d) g R F) (if_held r (service_expire (rq_ledger_store env) r))
    (\<lambda>_. desk k m (Some d) g (insert r R) F) (\<lambda>_. desk_inv)"
proof -
  have "triple (\<lambda>w. desk k m (Some d) g R F w \<and> True) (if_held r (service_expire (rq_ledger_store env) r))
      (\<lambda>_ w. desk k m (Some d) g (insert r R) F w \<and> True) (\<lambda>_. desk k m (Some d) g R F)"
  proof (rule if_held_triple [where X = "\<lambda>_. True"])
    fix w res sv'
    assume pre: "desk k m (Some d) g R F w" and run: "service_expire (rq_ledger_store env) r (rw_ledger w) = (res, sv')"
    show "consistent rows led_wf (sv_ledger sv') (sv_store sv') \<and>
        hold (sv_ledger sv') = (if isl res then held w else (held w)(r := None))"
      using led.consistent_commands(4) [OF stores_okD(1) [OF deskD(7) [OF pre]], of r] service_hold(2) [OF run] run by simp
  qed (use assms in auto)
  then show ?thesis by (rule triple_weaken) (use desk_error in auto)
qed

text \<open>Expiring ready work whose settlement has not begun.\<close>

lemma expire_work_triple:
  assumes b: "rb_state b = BsReady e"
  defines "r \<equiv> re_reservation e"
  shows "triple (\<lambda>w. desk k (Some b) (Some b) True {} {} w \<and> settling (rw_store w) (rb_id b) = None)
    (ebind (save_batch env (b\<lparr>rb_state := BsInvalidating r\<rparr>)) (\<lambda>_.
     ebind (put_batch (b\<lparr>rb_state := BsInvalidating r\<rparr>)) (\<lambda>_.
     ebind (if_held r (service_expire (rq_ledger_store env) r)) (\<lambda>_.
     ebind (save_batch env (b\<lparr>rb_state := BsGuarded\<rparr>)) (\<lambda>_.
     ebind (put_batch (b\<lparr>rb_state := BsGuarded\<rparr>)) (\<lambda>_. eok True))))))
    (\<lambda>_. desk_inv) (\<lambda>_. desk_inv)" (is "triple ?P _ _ _")
proof (rule triple_pre [where b = "follows b b \<and> rb_strategy b = k"])
  show "follows b b \<and> rb_strategy b = k" if "?P w" for w using that desk_follows desk_durable(2) by blast
  assume f: "follows b b \<and> rb_strategy b = k"
  let ?m = "b\<lparr>rb_state := BsInvalidating r\<rparr>" and ?g = "b\<lparr>rb_state := BsGuarded\<rparr>"
  have fm: "follows ?m b" "follows ?g ?m" using f by (auto simp: follows_def)
  have save: "triple ?P (save_batch env ?m) (\<lambda>_. saved_desk k (Some b) ?m True {} {}) (\<lambda>_. desk_inv)"
  proof (rule triple_weaken [OF save_triple_from [where P = ?P]])
    fix w assume "?P w"
    then show "durable_ok (settling (rw_store w)) (held w) ?m"
      using b by (intro marked_durable [where r = r and d = b]) (use fm(1) in \<open>auto simp: r_def\<close>)
  qed (use f fm(1) desk_error in \<open>auto simp: follows_def intro: plain\<close>)
  have last: "triple (desk k (Some ?m) (Some ?m) True {r} {}) (ebind (save_batch env ?g) (\<lambda>_. ebind (put_batch ?g) (\<lambda>_. eok True)))
      (\<lambda>_. desk_inv) (\<lambda>_. desk_inv)"
  proof (rule save_put [OF fm(2)])
    show "durable_ok (settling (rw_store w)) (held w) ?g" if "desk k (Some ?m) (Some ?m) True {r} {} w" for w
      by (rule idle_durable [OF that fm(2)]) auto
    show "triple (desk k (Some ?g) (Some ?g) True {r} {}) (eok True) (\<lambda>_. desk_inv) (\<lambda>_. desk_inv)"
      by (rule triple_eok) (rule desk_error)
  qed (use desk_error in auto)
  have hold: "triple (desk k (Some ?m) (Some ?m) True {} {}) (if_held r (service_expire (rq_ledger_store env) r))
      (\<lambda>_. desk k (Some ?m) (Some ?m) True {r} {}) (\<lambda>_. desk_inv)"
    using expire_hold_triple [of ?m r k "Some ?m" True "{}" "{}"] by simp
  show "triple ?P (ebind (save_batch env ?m) (\<lambda>_. ebind (put_batch ?m) (\<lambda>_.
     ebind (if_held r (service_expire (rq_ledger_store env) r)) (\<lambda>_.
     ebind (save_batch env ?g) (\<lambda>_. ebind (put_batch ?g) (\<lambda>_. eok True)))))) (\<lambda>_. desk_inv) (\<lambda>_. desk_inv)"
    by (rule triple_ebind [OF save triple_ebind [OF put_saved triple_ebind [OF hold last]]]) (use f in simp)
qed

text \<open>No settlement is under way for the batch of a strategy.\<close>

definition unsettled :: "strategy_key \<Rightarrow> ('l, 's) rebate_world \<Rightarrow> bool" where
  "unsettled k w \<longleftrightarrow> (\<forall>b. memory w k = Some b \<longrightarrow> settling (rw_store w) (rb_id b) = None)"

lemma expire_keeps:
  "triple (\<lambda>w. desk_inv w \<and> unsettled k w) (expire_ready env k block) (\<lambda>_. desk_inv) (\<lambda>_. desk_inv)"
proof -
  have fold: "ebind (eread (\<lambda>w. reservation_sources (rw_ledger w) r)) (\<lambda>held. case held of None \<Rightarrow> eok ()
      | Some _ \<Rightarrow> on_hold (service_expire (rq_ledger_store env) r)) = if_held r (service_expire (rq_ledger_store env) r)" for r
    by (simp add: if_held_def)
  have ok: "triple (\<lambda>w. desk_inv w \<and> X w) (eok False) (\<lambda>_. desk_inv) (\<lambda>_. desk_inv)" for X by (rule triple_eok) simp
  show ?thesis
    unfolding expire_ready_def live_batch_def Let_def fold
  proof (rule triple_ebind [OF triple_eread])
    fix found
    let ?P = "\<lambda>w. (desk_inv w \<and> unsettled k w) \<and> found = memory w k"
    show "triple ?P (case found of
         None \<Rightarrow> eok False
       | Some b \<Rightarrow>
           (case rb_state b of
              BsReady e \<Rightarrow>
                if block \<le> ea_deadline_block (re_authorization e) then eok False
                else
                  ebind (save_batch env (b\<lparr>rb_state := BsInvalidating (re_reservation e)\<rparr>)) (\<lambda>_.
                  ebind (put_batch (b\<lparr>rb_state := BsInvalidating (re_reservation e)\<rparr>)) (\<lambda>_.
                  ebind (if_held (re_reservation e) (service_expire (rq_ledger_store env) (re_reservation e))) (\<lambda>_.
                  ebind (save_batch env (b\<lparr>rb_state := BsGuarded\<rparr>)) (\<lambda>_.
                  ebind (put_batch (b\<lparr>rb_state := BsGuarded\<rparr>)) (\<lambda>_. eok True)))))
            | _ \<Rightarrow> eok False)) (\<lambda>_. desk_inv) (\<lambda>_. desk_inv)" (is "triple _ (case found of None \<Rightarrow> _ | Some b \<Rightarrow> ?body b) _ _")
    proof (cases found)
      case None
      then show ?thesis using ok by (simp add: conj_assoc)
    next
      case (Some b)
      have "triple ?P (?body b) (\<lambda>_. desk_inv) (\<lambda>_. desk_inv)"
      proof (cases "\<exists>e. rb_state b = BsReady e")
        case True
        then obtain e where e: "rb_state b = BsReady e" by blast
        have start: "desk k (Some b) (Some b) True {} {} w \<and> settling (rw_store w) (rb_id b) = None" if "?P w" for w
        proof -
          have m: "memory w k = Some b" "desk_inv w" "settling (rw_store w) (rb_id b) = None"
            using that Some by (auto simp: unsettled_def)
          then have i: "rebate_inv (memory w) (durable w) (settling (rw_store w)) (held w) (guarded_keys w)" by (simp add: desk_inv_def)
          obtain d where "durable w k = Some d" by (rule memory_slot [OF i m(1)]) (rule that)
          then have "desk k (Some b) (Some d) False {} {} w" using m by (simp add: desk_def)
          then show ?thesis using ready_record(2) [OF _ e] m(3) by blast
        qed
        have "triple ?P (if block \<le> ea_deadline_block (re_authorization e) then eok False
            else ebind (save_batch env (b\<lparr>rb_state := BsInvalidating (re_reservation e)\<rparr>)) (\<lambda>_.
                  ebind (put_batch (b\<lparr>rb_state := BsInvalidating (re_reservation e)\<rparr>)) (\<lambda>_.
                  ebind (if_held (re_reservation e) (service_expire (rq_ledger_store env) (re_reservation e))) (\<lambda>_.
                  ebind (save_batch env (b\<lparr>rb_state := BsGuarded\<rparr>)) (\<lambda>_.
                  ebind (put_batch (b\<lparr>rb_state := BsGuarded\<rparr>)) (\<lambda>_. eok True)))))) (\<lambda>_. desk_inv) (\<lambda>_. desk_inv)"
        proof (rule triple_if)
          show "triple ?P (eok False) (\<lambda>_. desk_inv) (\<lambda>_. desk_inv)" by (rule triple_eok) simp
        qed (rule triple_weaken [OF expire_work_triple [OF e]], use start in auto)
        then show ?thesis by (simp only: e rebate_batch_state.case)
      next
        case False
        then show ?thesis using ok by (cases "rb_state b") (simp_all add: conj_assoc)
      qed
      then show ?thesis by (simp only: Some option.case)
    qed
  qed
qed

end

end
