(* ===== verification/Rebate_Recovery.thy ===== *)
theory Rebate_Recovery
  imports Rebate_Work
begin

text \<open>
  Recovery of the rebate service (\<open>RebateService::recover\<close>): settlements that had begun are finished,
  interrupted work is released, and published work is taken over if its reservation still stands. The
  triples carry a flag: without scheduled faults no step fails, so recovery accepts every state the
  service can leave behind.
\<close>

context rebate_desk
begin

text \<open>What holds of the stores alone, with nothing in memory.\<close>

definition store_inv :: "('l, 's) rebate_world \<Rightarrow> bool" where
  "store_inv w \<longleftrightarrow> consistent rows led_wf (sv_ledger (rw_ledger w)) (sv_store (rw_ledger w)) \<and> reb_wf (rw_store w) \<and>
     rebate_inv (durable w) (durable w) (settling (rw_store w)) (held w) UNIV"

definition down ::
  "bool \<Rightarrow> batch_view \<Rightarrow> settle_view \<Rightarrow> reservation_id set \<Rightarrow> strategy_key set \<Rightarrow> ('l, 's) rebate_world \<Rightarrow> bool" where
  "down c V S R G w \<longleftrightarrow> store_inv w \<and> durable w = V \<and> settling (rw_store w) = S \<and> (\<forall>r \<in> R. held w r = None) \<and>
     G \<subseteq> guarded_keys w \<and> (c \<longrightarrow> led_calm (sv_store (rw_ledger w)) \<and> reb_calm (rw_store w))"

abbreviation failed :: "bool \<Rightarrow> rebate_flow_error \<Rightarrow> ('l, 's) rebate_world \<Rightarrow> bool" where
  "failed c \<equiv> (\<lambda>_ w. store_inv w \<and> \<not> c)"

lemma downD:
  assumes "down c V S R G w"
  shows "store_inv w" "durable w = V" "settling (rw_store w) = S" "r \<in> R \<Longrightarrow> held w r = None" "G \<subseteq> guarded_keys w"
    "c \<Longrightarrow> led_calm (sv_store (rw_ledger w))" "c \<Longrightarrow> reb_calm (rw_store w)"
    "consistent rows led_wf (sv_ledger (rw_ledger w)) (sv_store (rw_ledger w))" "reb_wf (rw_store w)"
    "rebate_inv V V S (held w) UNIV"
  using assms by (auto simp: down_def store_inv_def)

lemma downI:
  assumes "consistent rows led_wf (sv_ledger (rw_ledger w)) (sv_store (rw_ledger w))" "reb_wf (rw_store w)"
    and "rebate_inv (durable w) (durable w) (settling (rw_store w)) (held w) UNIV"
    and "durable w = V" "settling (rw_store w) = S" "\<And>r. r \<in> R \<Longrightarrow> held w r = None" "G \<subseteq> guarded_keys w"
    and "c \<Longrightarrow> led_calm (sv_store (rw_ledger w))" "c \<Longrightarrow> reb_calm (rw_store w)"
  shows "down c V S R G w"
  using assms by (simp add: down_def store_inv_def)

lemma down_slot:
  assumes "down c V S R G w" "V k = Some d"
  shows "durable_ok S (held w) d" "rb_strategy d = k" "keyed d" "accruals_valid d"
proof -
  show d: "durable_ok S (held w) d"
    using rebate_invD(3) [OF downD(10) [OF assms(1)], of k] assms(2) by (auto elim: slot_SomeD)
  show "rb_strategy d = k" "keyed d"
    using reb.opened_key [OF downD(9) [OF assms(1)]] downD(2) [OF assms(1)] assms(2) by auto
  show "accruals_valid d" using durable_okD(1) [OF d] by (simp add: validate_batch_iff)
qed

lemma down_guard: "triple (down c V S R G) (guard_strategy k) (\<lambda>_. down c V S R (insert k G)) E"
  unfolding guard_strategy_def
  by (rule triple_emodify) (auto simp: down_def store_inv_def)

lemma down_unguard: "triple (down c V S R G) (unguard_strategy k) (\<lambda>_. down c V S R (G - {k})) E"
  unfolding unguard_strategy_def
  by (rule triple_emodify) (auto simp: down_def store_inv_def)

text \<open>A call that ends the hold of a batch on record.\<close>

lemma down_if_held:
  assumes d: "V k = Some d" "active_reservation (rb_state d) = Some r"
    and call: "\<And>w res sv'. down c V S R G w \<Longrightarrow> held w r \<noteq> None \<Longrightarrow> cmd (rw_ledger w) = (res, sv') \<Longrightarrow>
      consistent rows led_wf (sv_ledger sv') (sv_store sv') \<and>
      hold (sv_ledger sv') = (if isl res then held w else (held w)(r := None)) \<and>
      (c \<longrightarrow> \<not> isl res \<and> led_calm (sv_store sv'))"
    and gone: "\<And>e. rb_state d = BsReady e \<Longrightarrow> S (rb_id d) \<noteq> None"
  shows "triple (down c V S R G) (if_held r cmd) (\<lambda>_. down c V S (insert r R) G) (failed c)"
  unfolding if_held_def
proof (rule triple_ebind [OF triple_eread])
  fix h :: "reservation_source list option"
  let ?P = "\<lambda>w. down c V S R G w \<and> h = reservation_sources (rw_ledger w) r"
  show "triple ?P (case h of None \<Rightarrow> eok () | Some _ \<Rightarrow> on_hold cmd) (\<lambda>_. down c V S (insert r R) G) (failed c)"
  proof (cases h)
    case None
    have "triple ?P (eok ()) (\<lambda>_. down c V S (insert r R) G) (failed c)"
      by (rule triple_eok) (auto simp: None down_def reservation_sources_hold)
    then show ?thesis by (simp only: None option.case)
  next
    case (Some ss)
    have "triple ?P (on_hold cmd) (\<lambda>_. down c V S (insert r R) G) (failed c)"
    proof (rule tripleI)
      fix w x w' assume P: "?P w" and run: "on_hold cmd w = (Inr x, w')"
      then have pre: "down c V S R G w" and hr: "held w r \<noteq> None"
        by (cases "held w r"; auto simp: Some reservation_sources_hold)+
      obtain sv' where c: "cmd (rw_ledger w) = (Inr (), sv')" "w' = w\<lparr>rw_ledger := sv'\<rparr>"
        using run by (cases "cmd (rw_ledger w)"; cases "fst (cmd (rw_ledger w))") (auto simp: on_hold_run)
      have "rebate_inv V V S ((held w)(r := None)) UNIV" by (rule inv_released [OF downD(10) [OF pre] d gone])
      then show "down c V S (insert r R) G w'"
        using call [OF pre hr c(1)] downD [OF pre] by (intro downI) (auto simp: c(2) split: if_splits)
    next
      fix w e w' assume P: "?P w" and run: "on_hold cmd w = (Inl e, w')"
      then have pre: "down c V S R G w" and hr: "held w r \<noteq> None"
        by (cases "held w r"; auto simp: Some reservation_sources_hold)+
      obtain e' sv' where c: "cmd (rw_ledger w) = (Inl e', sv')" "w' = w\<lparr>rw_ledger := sv'\<rparr>"
        using run by (cases "cmd (rw_ledger w)"; cases "fst (cmd (rw_ledger w))") (auto simp: on_hold_run)
      show "failed c e w'"
        using call [OF pre hr c(1)] downD [OF pre] by (auto simp: c(2) store_inv_def)
    qed
    then show ?thesis by (simp only: Some option.case)
  qed
qed

lemma down_release:
  assumes d: "V k = Some d" "interrupted (rb_state d) = Some r"
  shows "triple (down c V S R G) (release_if_held env r) (\<lambda>_. down c V S (insert r R) G) (failed c)"
proof -
  note act = interrupted_active [OF d(2)]
  have "release_if_held env r = if_held r (service_void (rq_ledger_store env) r)"
    by (simp add: release_if_held_def if_held_def)
  moreover have "triple (down c V S R G) (if_held r (service_void (rq_ledger_store env) r)) (\<lambda>_. down c V S (insert r R) G) (failed c)"
  proof (rule down_if_held [where V = V and k = k, OF d(1)])
    fix w res sv'
    assume pre: "down c V S R G w" and hr: "held w r \<noteq> None"
      and run: "service_void (rq_ledger_store env) r (rw_ledger w) = (res, sv')"
    have "\<not> isl res \<and> led_calm (sv_store sv')" if calm: c
    proof -
      obtain st where st: "so_void (rq_ledger_store env) r (sv_store (rw_ledger w)) = (Inr (), st)" "led_calm st"
        using led_calm_calls(1) [OF downD(6) [OF pre calm]] by blast
      then show ?thesis using service_void_works [OF hr st(1)] run by auto
    qed
    then show "consistent rows led_wf (sv_ledger sv') (sv_store sv') \<and>
        hold (sv_ledger sv') = (if isl res then held w else (held w)(r := None)) \<and>
        (c \<longrightarrow> \<not> isl res \<and> led_calm (sv_store sv'))"
      using led.consistent_commands(3) [OF downD(8) [OF pre], of r] service_hold(1) [OF run] run by simp
  qed (use act in auto)
  ultimately show ?thesis by simp
qed

lemma down_save:
  assumes d: "V k = Some d" "interrupted (rb_state d) = Some r" "r \<in> R"
  defines "b \<equiv> d\<lparr>rb_state := BsGuarded\<rparr>"
  shows "triple (down c V S R G) (save_batch env b) (\<lambda>_. down c (V(k \<mapsto> b)) S R G) (failed c)"
proof (rule tripleI)
  note act = interrupted_active [OF d(2)]
  fix w x w' assume pre: "down c V S R G w" and run: "save_batch env b w = (Inr x, w')"
  obtain u s' where call: "ro_save (rq_store env) b (rw_store w) = (Inr u, s')" and w': "w' = w\<lparr>rw_store := s'\<rparr>"
    using run by (cases "ro_save (rq_store env) b (rw_store w)"; cases "fst (ro_save (rq_store env) b (rw_store w))")
      (auto simp: save_batch_def on_rebates_run)
  note slot = down_slot [OF pre d(1)]
  have b: "keyed b" "rb_strategy b = k" "readable (rb_state b)" "rb_id b = rb_id d" "rb_accruals b = rb_accruals d" "rb_pair b = rb_pair d"
    using slot plain by (auto simp: b_def)
  have v: "reb_wf s'" "opened s' = V(k \<mapsto> b)" "settling s' = S"
    using reb.save_works [OF downD(9) [OF pre] b(1,3) _ call] b downD(2,3) [OF pre] d(1) by auto
  have ok: "durable_ok S (held w) b"
    by (rule idle_ok [OF slot(1) b(4)])
      (use act d(3) downD(4) [OF pre] slot(4) in \<open>auto simp: b_def validate_batch_iff planned_def\<close>)
  have "rebate_inv (V(k \<mapsto> b)) (V(k \<mapsto> b)) S (held w) UNIV"
    using inv_save [OF downD(10) [OF pre], of b] opened_ids [OF v(1)] v(2) b d(1) ok by simp
  moreover have "reb_calm s'" if c
    using reb.calm_calls(1) [OF downD(9,7) [OF pre] b(1), of d] that b downD(2) [OF pre] d(1) call by auto
  ultimately show "down c (V(k \<mapsto> b)) S R G w'"
    using downD [OF pre] v by (intro downI) (auto simp: w')
next
  fix w e w' assume pre: "down c V S R G w" and run: "save_batch env b w = (Inl e, w')"
  obtain u s' where call: "ro_save (rq_store env) b (rw_store w) = (Inl u, s')" and w': "w' = w\<lparr>rw_store := s'\<rparr>"
    using run by (cases "ro_save (rq_store env) b (rw_store w)"; cases "fst (ro_save (rq_store env) b (rw_store w))")
      (auto simp: save_batch_def on_rebates_run)
  have "\<not> c"
    using reb.calm_calls(1) [OF downD(9,7) [OF pre], of b d] down_slot(2,3) [OF pre d(1)] downD(2) [OF pre] d(1) call
    by (auto simp: b_def)
  then show "failed c e w'"
    using downD [OF pre] reb.save_fails [OF downD(9) [OF pre] call] by (auto simp: w' store_inv_def)
qed

subsection \<open>Settlements that had begun\<close>

lemma down_post:
  assumes d: "V k = Some d" "rb_state d = BsReady e" and x: "S (rb_id d) = Some x" "rt_reservation x = re_reservation e"
    "rv_amount_out (rt_event x) = bp_amount_out (re_plan e)"
  shows "triple (down c V S R G) (post_if_held env x) (\<lambda>_. down c V S (insert (re_reservation e) R) G) (failed c)"
proof -
  let ?r = "re_reservation e" and ?c = "service_post (rq_ledger_store env) (re_reservation e) [rv_amount_out (rt_event x)]"
  have "post_if_held env x = if_held ?r ?c" unfolding post_if_held_def if_held_def x(2) ..
  moreover have "triple (down c V S R G) (if_held ?r ?c) (\<lambda>_. down c V S (insert ?r R) G) (failed c)"
  proof (rule down_if_held [where V = V and k = k, OF d(1)])
    fix w res sv'
    assume pre: "down c V S R G w" and hr: "held w ?r \<noteq> None" and run: "?c (rw_ledger w) = (res, sv')"
    have h: "held w ?r = Some (OwnerRebate (rb_id d), rebate_sources (rb_strategy d) (re_plan e))"
      using durable_okD(3) [OF down_slot(1) [OF pre d(1)]] d(2) hr by (auto simp: backed_def)
    have fits: "list_all2 (\<lambda>f s. f \<le> rs_amount s) [rv_amount_out (rt_event x)] (rebate_sources (rb_strategy d) (re_plan e))"
      by (simp add: rebate_sources_def x(3))
    have "\<not> isl res \<and> led_calm (sv_store sv')" if calm: c
    proof -
      obtain st where st: "so_post (rq_ledger_store env) ?r [rv_amount_out (rt_event x)] (sv_store (rw_ledger w)) = (Inr (), st)" "led_calm st"
        using led_calm_calls(2) [OF downD(6) [OF pre calm]] by blast
      then show ?thesis using service_post_works [OF h st(1) fits] run by auto
    qed
    then show "consistent rows led_wf (sv_ledger sv') (sv_store sv') \<and>
        hold (sv_ledger sv') = (if isl res then held w else (held w)(?r := None)) \<and>
        (c \<longrightarrow> \<not> isl res \<and> led_calm (sv_store sv'))"
      using led.consistent_commands(1) [OF downD(8) [OF pre] held_fills [OF h fits]] service_hold(3) [OF run] run
      by (metis snd_conv)
  qed (use d x in auto)
  ultimately show ?thesis by simp
qed

lemma down_finish:
  assumes d: "V k = Some d" "rb_id d = i" "S i = Some x" and rel: "\<And>r. active_reservation (rb_state d) = Some r \<Longrightarrow> r \<in> R"
  shows "triple (down c V S R G) (on_rebates (ro_finish_settlement (rq_store env) i))
    (\<lambda>_. down c (without i V) (S(i := None)) R G) (failed c)"
proof (rule tripleI)
  let ?c = "ro_finish_settlement (rq_store env) i"
  fix w u w' assume pre: "down c V S R G w" and "on_rebates ?c w = (Inr u, w')"
  then obtain s' where run: "?c (rw_store w) = (Inr (), s')" "w' = w\<lparr>rw_store := s'\<rparr>"
    by (cases "?c (rw_store w)"; cases "fst (?c (rw_store w))") (auto simp: on_rebates_run)
  note v = reb.finish_call [OF downD(9) [OF pre] run(1)]
  have "rebate_inv (V(k := None)) (without i V) (S(i := None)) (held w) UNIV"
    using inv_close [OF downD(10) [OF pre] d(1)] rel downD(4) [OF pre] d(2) by blast
  then have "rebate_inv (without i V) (without i V) (S(i := None)) (held w) UNIV" by (rule inv_durable)
  moreover have "reb_calm s'" if c
    using reb.calm_calls(2) [OF downD(9,7) [OF pre], of i x] that d(3) downD(3) [OF pre] run(1) by auto
  ultimately show "down c (without i V) (S(i := None)) R G w'"
    using downD [OF pre] v by (intro downI) (auto simp: run(2))
next
  let ?c = "ro_finish_settlement (rq_store env) i"
  fix w u w' assume pre: "down c V S R G w" and "on_rebates ?c w = (Inl u, w')"
  then obtain e' s' where run: "?c (rw_store w) = (Inl e', s')" "w' = w\<lparr>rw_store := s'\<rparr>"
    by (cases "?c (rw_store w)"; cases "fst (?c (rw_store w))") (auto simp: on_rebates_run)
  have "\<not> c" using reb.calm_calls(2) [OF downD(9,7) [OF pre], of i x] d(3) downD(3) [OF pre] run(1) by auto
  then show "failed c u w'"
    using reb.finish_call [OF downD(9) [OF pre] run(1)] downD [OF pre] by (auto simp: run(2) store_inv_def)
qed

lemma down_weaken:
  assumes "down c V S R G w" "R' \<subseteq> R" "G' \<subseteq> G"
  shows "down c V S R' G' w"
  using assms unfolding down_def by blast

lemma ran_forget:
  assumes "\<And>j y. S j = Some y \<Longrightarrow> f y = j" "S (f x) = Some x" "set (x # xs) = ran S" "distinct (map f (x # xs))"
  shows "set xs = ran (S(f x := None))"
proof (rule set_eqI)
  fix y
  have "y \<in> set xs \<longleftrightarrow> y \<in> ran S \<and> f y \<noteq> f x"
    unfolding assms(3) [symmetric] using assms(4) by (auto simp: image_iff)
  also have "\<dots> \<longleftrightarrow> y \<in> ran (S(f x := None))"
    unfolding ran_def using assms(1) by auto
  finally show "y \<in> set xs \<longleftrightarrow> y \<in> ran (S(f x := None))" .
qed

text \<open>\<open>K\<close> is published work whose settlement has not begun; recovery carries it over.\<close>

definition carries :: "batch_view \<Rightarrow> batch_view \<Rightarrow> settle_view \<Rightarrow> bool" where
  "carries K V S \<longleftrightarrow> (\<forall>k b. K k = Some b \<longrightarrow> V k = Some b \<and> S (rb_id b) = None \<and> (\<exists>e. rb_state b = BsReady e))"

lemma carriesD: "carries K V S \<Longrightarrow> K k = Some b \<Longrightarrow> V k = Some b"
  unfolding carries_def by blast

lemma carries_without: "carries K V S \<Longrightarrow> S i = Some x \<Longrightarrow> carries K (without i V) (S(i := None))"
  unfolding carries_def without_def by (fastforce split: option.splits)

lemma carries_update:
  "carries K V S \<Longrightarrow> V k = Some b \<Longrightarrow> ((\<exists>e. rb_state b = BsReady e) \<longrightarrow> b' = b) \<Longrightarrow> carries K (V(k \<mapsto> b')) S"
  unfolding carries_def by (metis fun_upd_apply option.inject)

lemma finish_settlements_triple:
  assumes "set xs = ran S" "distinct (map (\<lambda>x. bp_batch_id (rt_plan x)) xs)" "carries K V S"
  shows "triple (down c V S {} {}) (finish_settlements env xs)
    (\<lambda>_ w. \<exists>V'. down c V' Map.empty {} {} w \<and> carries K V' Map.empty) (failed c)"
  using assms
proof (induction xs arbitrary: V S)
  case Nil
  have none: "S = Map.empty"
  proof
    fix i show "S i = None" using Nil.prems(1) ranI [of S i] by (cases "S i") auto
  qed
  show ?case using Nil.prems(3) unfolding none finish_settlements.simps by (intro triple_eok) blast
next
  case (Cons x xs)
  let ?i = "bp_batch_id (rt_plan x)" and ?k = "bp_strategy (rt_plan x)"
  let ?facts = "(\<forall>j y. S j = Some y \<longrightarrow> bp_batch_id (rt_plan y) = j) \<and> S ?i = Some x \<and> validate_settlement x = Inr () \<and>
    (\<exists>k d e. V k = Some d \<and> rb_id d = ?i \<and> rb_state d = BsReady e \<and> rt_plan x = re_plan e \<and> rt_reservation x = re_reservation e)"
  have facts: ?facts if pre: "down c V S {} {} w" for w
  proof -
    have key: "\<forall>j y. S j = Some y \<longrightarrow> bp_batch_id (rt_plan y) = j"
      using reb.settling_key [OF downD(9) [OF pre]] downD(3) [OF pre] by auto
    obtain j where j: "S j = Some x" using Cons.prems(1) by (auto simp: ran_def)
    then have i: "j = ?i" using key by blast
    obtain k d where k: "V k = Some d" "rb_id d = j"
      using rebate_invD(2) [OF downD(10) [OF pre]] j unfolding claims_ok_def by blast
    have "validate_settlement x = Inr () \<and> (\<exists>e. rb_state d = BsReady e \<and> rt_plan x = re_plan e \<and> rt_reservation x = re_reservation e)"
      using durable_okD(4) [OF down_slot(1) [OF pre k(1)]] j k(2) by (auto simp: settles_def)
    then show ?thesis using j i k key by blast
  qed
  show ?case
  proof (rule triple_pre [OF facts])
    assume a: ?facts
    then obtain k d e where d: "V k = Some d" "rb_id d = ?i" "rb_state d = BsReady e" "rt_plan x = re_plan e" "rt_reservation x = re_reservation e"
      by blast
    have ok: "validate_settlement x = Inr ()" and Sx: "S ?i = Some x" using a by blast+
    have out: "rv_amount_out (rt_event x) = bp_amount_out (re_plan e)"
      using ok d(4) by (auto simp: validate_settlement_def event_repeats_def split: if_splits)
    have post: "triple (down c V S {} {?k}) (post_if_held env x) (\<lambda>_. down c V S {re_reservation e} {?k}) (failed c)"
      by (rule down_post [where V = V and k = k and S = S, OF d(1,3) _ d(5) out]) (simp add: Sx d(2))
    have fin: "triple (down c V S {re_reservation e} {?k}) (on_rebates (ro_finish_settlement (rq_store env) ?i))
        (\<lambda>_. down c (without ?i V) (S(?i := None)) {re_reservation e} {?k}) (failed c)"
      by (rule down_finish [where V = V and k = k and S = S, OF d(1,2) Sx]) (use d(3) in auto)
    have unguard: "triple (down c (without ?i V) (S(?i := None)) {re_reservation e} {?k}) (unguard_strategy ?k)
        (\<lambda>_. down c (without ?i V) (S(?i := None)) {} {}) (failed c)"
      by (rule triple_weaken [OF down_unguard]) (auto elim: down_weaken)
    have ranS: "set xs = ran (S(?i := None))"
      by (rule ran_forget [where f = "\<lambda>x. bp_batch_id (rt_plan x)"]) (use a Cons.prems in auto)
    have "distinct (map (\<lambda>x. bp_batch_id (rt_plan x)) xs)" using Cons.prems(2) by simp
    note rest = Cons.IH [OF ranS this carries_without [OF Cons.prems(3) Sx]]
    show "triple (down c V S {} {}) (finish_settlements env (x # xs))
        (\<lambda>_ w. \<exists>V'. down c V' Map.empty {} {} w \<and> carries K V' Map.empty) (failed c)"
      unfolding finish_settlements.simps ok lift_rebate_def map_sum.simps ebind_eres
      by (rule triple_ebind [OF down_guard triple_ebind [OF post triple_ebind [OF fin triple_ebind [OF unguard rest]]]])
  qed
qed

subsection \<open>Open batches\<close>

lemma recover_batch_triple:
  assumes b: "V k = Some b"
  shows "triple (down c V Map.empty {} G) (recover_batch env b)
    (\<lambda>b' w. down c (V(k \<mapsto> b')) Map.empty {} (insert k G) w \<and>
       rb_strategy b' = k \<and> ((\<exists>e. rb_state b = BsReady e) \<longrightarrow> b' = b)) (failed c)"
proof (rule triple_pre [where b = "rb_strategy b = k"])
  show "rb_strategy b = k" if "down c V Map.empty {} G w" for w by (rule down_slot(2) [OF that b])
  assume k: "rb_strategy b = k"
  let ?P = "down c V Map.empty {} (insert k G)"
  let ?Q = "\<lambda>b' w. down c (V(k \<mapsto> b')) Map.empty {} (insert k G) w \<and>
       rb_strategy b' = k \<and> ((\<exists>e. rb_state b = BsReady e) \<longrightarrow> b' = b)"
  have same: "V(k \<mapsto> b) = V" using b by auto
  have keep: "triple ?P (eok b) ?Q (failed c)" by (rule triple_eok) (use k same in simp)
  have "triple ?P (case rb_state b of
         BsReady e \<Rightarrow>
           ebind (eread (\<lambda>w. reservation_sources (rw_ledger w) (re_reservation e))) (\<lambda>held.
             case held of
               None \<Rightarrow> eerr (RfRebate (InvalidExecution NoReservation))
             | Some _ \<Rightarrow> eok b)
       | st \<Rightarrow>
           (case interrupted st of
              None \<Rightarrow> eok b
            | Some r \<Rightarrow>
                ebind (release_if_held env r) (\<lambda>_.
                ebind (save_batch env (b\<lparr>rb_state := BsGuarded\<rparr>)) (\<lambda>_. eok (b\<lparr>rb_state := BsGuarded\<rparr>))))) ?Q (failed c)"
    (is "triple _ ?body _ _")
  proof (cases "\<exists>e. rb_state b = BsReady e")
    case True
    then obtain e where e: "rb_state b = BsReady e" by blast
    have "triple ?P (ebind (eread (\<lambda>w. reservation_sources (rw_ledger w) (re_reservation e))) (\<lambda>held.
        case held of None \<Rightarrow> eerr (RfRebate (InvalidExecution NoReservation)) | Some _ \<Rightarrow> eok b)) ?Q (failed c)"
    proof (rule triple_ebind [OF triple_eread])
      fix h
      have "h \<noteq> None" if pre: "?P w \<and> h = reservation_sources (rw_ledger w) (re_reservation e)" for w
      proof -
        have "durable_ok Map.empty (held w) b" using pre down_slot(1) [where V = V and k = k and w = w] b by blast
        then show ?thesis using durable_okD(3) e pre by (fastforce simp: backed_def reservation_sources_hold)
      qed
      then show "triple (\<lambda>w. ?P w \<and> h = reservation_sources (rw_ledger w) (re_reservation e))
          (case h of None \<Rightarrow> eerr (RfRebate (InvalidExecution NoReservation)) | Some _ \<Rightarrow> eok b) ?Q (failed c)"
        using triple_conj_drop [OF keep] by (cases h) (auto simp: triple_def)
    qed
    then show ?thesis by (simp only: e rebate_batch_state.case)
  next
    case False
    have body: "?body = (case interrupted (rb_state b) of
              None \<Rightarrow> eok b
            | Some r \<Rightarrow>
                ebind (release_if_held env r) (\<lambda>_.
                ebind (save_batch env (b\<lparr>rb_state := BsGuarded\<rparr>)) (\<lambda>_. eok (b\<lparr>rb_state := BsGuarded\<rparr>))))"
      using False by (cases "rb_state b") auto
    show ?thesis
    proof (cases "interrupted (rb_state b)")
      case None
      show ?thesis unfolding body None option.case by (rule keep)
    next
      case (Some r)
      let ?b = "b\<lparr>rb_state := BsGuarded\<rparr>"
      have rel: "triple ?P (release_if_held env r) (\<lambda>_. down c V Map.empty {r} (insert k G)) (failed c)"
        by (rule down_release [where V = V and k = k, OF b Some])
      have save: "triple (down c V Map.empty {r} (insert k G)) (save_batch env ?b)
          (\<lambda>_. down c (V(k \<mapsto> ?b)) Map.empty {r} (insert k G)) (failed c)"
        by (rule down_save [where V = V and k = k, OF b Some]) simp
      have fin: "triple (down c (V(k \<mapsto> ?b)) Map.empty {r} (insert k G)) (eok ?b) ?Q (failed c)"
        by (rule triple_eok) (use k False in \<open>auto elim: down_weaken\<close>)
      show ?thesis unfolding body Some option.case by (rule triple_ebind [OF rel triple_ebind [OF save fin]])
    qed
  qed
  then show "triple (down c V Map.empty {} G) (recover_batch env b) ?Q (failed c)"
    unfolding recover_batch_def k Let_def by (rule triple_ebind [OF down_guard])
qed

text \<open>The batches recovered so far repeat the record and are closed for routing.\<close>

definition taken_over :: "(strategy_key, rebate_batch) bmap \<Rightarrow> batch_view \<Rightarrow> strategy_key set \<Rightarrow> bool" where
  "taken_over rec V G \<longleftrightarrow> bm_wf rec \<and> (\<forall>k b. bm_get rec k = Some b \<longrightarrow> V k = Some b \<and> k \<in> G)"

lemma recover_batches_triple:
  assumes "taken_over rec V G" "\<And>b. b \<in> set bs \<Longrightarrow> V (rb_strategy b) = Some b" "distinct (map rb_strategy bs)"
    and "\<And>b. b \<in> set bs \<Longrightarrow> bm_get rec (rb_strategy b) = None"
    and "\<And>k d. V k = Some d \<Longrightarrow> bm_get rec k \<noteq> None \<or> k \<in> rb_strategy ` set bs" "carries K V Map.empty"
  shows "triple (down c V Map.empty {} G) (recover_batches env bs rec)
    (\<lambda>rec' w. \<exists>V' G'. down c V' Map.empty {} G' w \<and> taken_over rec' V' G' \<and>
         (\<forall>k. bm_get rec' k = V' k) \<and> carries K V' Map.empty) (failed c)"
  using assms
proof (induction bs arbitrary: rec V G)
  case Nil
  have "bm_get rec k = V k" for k
    using Nil.prems(1) Nil.prems(5) [of k] by (cases "bm_get rec k"; cases "V k") (auto simp: taken_over_def)
  then show ?case using Nil.prems(1,6) by (simp only: recover_batches.simps) (rule triple_eok, blast)
next
  case (Cons b bs)
  let ?k = "rb_strategy b"
  have Vb: "V ?k = Some b" using Cons.prems(2) by simp
  have new: "\<not> bm_contains rec ?k" using Cons.prems(4) [of b] by (simp add: bm_get_None_iff)
  have rest: "triple (\<lambda>w. down c (V(?k \<mapsto> b')) Map.empty {} (insert ?k G) w \<and>
        rb_strategy b' = ?k \<and> ((\<exists>e. rb_state b = BsReady e) \<longrightarrow> b' = b))
      (recover_batches env bs (bm_insert (rb_strategy b') b' rec))
      (\<lambda>rec' w. \<exists>V' G'. down c V' Map.empty {} G' w \<and> taken_over rec' V' G' \<and>
         (\<forall>k. bm_get rec' k = V' k) \<and> carries K V' Map.empty) (failed c)" for b'
  proof (rule triple_conj_pre)
    assume b': "rb_strategy b' = ?k \<and> ((\<exists>e. rb_state b = BsReady e) \<longrightarrow> b' = b)"
    then have k: "rb_strategy b' = ?k" by blast
    have other: "rb_strategy x \<noteq> ?k" if "x \<in> set bs" for x using Cons.prems(3) that by (auto simp: image_iff)
    show "triple (down c (V(?k \<mapsto> b')) Map.empty {} (insert ?k G)) (recover_batches env bs (bm_insert (rb_strategy b') b' rec))
      (\<lambda>rec' w. \<exists>V' G'. down c V' Map.empty {} G' w \<and> taken_over rec' V' G' \<and>
         (\<forall>k. bm_get rec' k = V' k) \<and> carries K V' Map.empty) (failed c)"
    proof (rule Cons.IH)
      show "taken_over (bm_insert (rb_strategy b') b' rec) (V(?k \<mapsto> b')) (insert ?k G)"
        using Cons.prems(1) k by (auto simp: taken_over_def)
      show "distinct (map rb_strategy bs)" using Cons.prems(3) by simp
      show "carries K (V(?k \<mapsto> b')) Map.empty" by (rule carries_update [OF Cons.prems(6) Vb]) (use b' in blast)
      fix x assume x: "x \<in> set bs"
      show "(V(?k \<mapsto> b')) (rb_strategy x) = Some x" using Cons.prems(2) [of x] x other [OF x] by simp
      show "bm_get (bm_insert (rb_strategy b') b' rec) (rb_strategy x) = None"
        using Cons.prems(4) [of x] x other [OF x] k by simp
    next
      fix k' d assume d: "(V(?k \<mapsto> b')) k' = Some d"
      show "bm_get (bm_insert (rb_strategy b') b' rec) k' \<noteq> None \<or> k' \<in> rb_strategy ` set bs"
        using Cons.prems(5) [of k' d] d k Vb by (cases "k' = ?k") auto
    qed
  qed
  show ?case
  proof (rule triple_pre [where b = "validate_batch b = Inr ()"])
    show "validate_batch b = Inr ()" if "down c V Map.empty {} G w" for w
      by (rule durable_okD(1) [OF down_slot(1) [OF that Vb]])
    assume ok: "validate_batch b = Inr ()"
    show "triple (down c V Map.empty {} G) (recover_batches env (b # bs) rec)
        (\<lambda>rec' w. \<exists>V' G'. down c V' Map.empty {} G' w \<and> taken_over rec' V' G' \<and>
         (\<forall>k. bm_get rec' k = V' k) \<and> carries K V' Map.empty) (failed c)"
      unfolding recover_batches.simps ok lift_rebate_def map_sum.simps ebind_eres if_not_P [OF new]
      by (rule triple_ebind [OF recover_batch_triple [where V = V and k = ?k, OF Vb] rest])
  qed
qed

subsection \<open>Recovery\<close>

lemma down_pending:
  "triple (down c V S R G) (on_rebates (ro_pending_settlements (rq_store env)))
     (\<lambda>xs w. down c V S R G w \<and> set xs = ran S \<and> distinct (map (\<lambda>x. bp_batch_id (rt_plan x)) xs)) (failed c)"
proof (rule tripleI)
  let ?c = "ro_pending_settlements (rq_store env)"
  fix w xs w' assume pre: "down c V S R G w" and "on_rebates ?c w = (Inr xs, w')"
  then obtain s' where run: "?c (rw_store w) = (Inr xs, s')" "w' = w\<lparr>rw_store := s'\<rparr>"
    by (cases "?c (rw_store w)"; cases "fst (?c (rw_store w))") (auto simp: on_rebates_run)
  note v = reb.pending_call [OF downD(9) [OF pre] run(1)]
  have "reb_calm s'" if c using reb.calm_calls(3) [OF downD(9,7) [OF pre]] that run(1) by auto
  then have "down c V S R G w'" using downD [OF pre] v by (intro downI) (auto simp: run(2))
  then show "down c V S R G w' \<and> set xs = ran S \<and> distinct (map (\<lambda>x. bp_batch_id (rt_plan x)) xs)"
    using v downD(3) [OF pre] by simp
next
  let ?c = "ro_pending_settlements (rq_store env)"
  fix w e w' assume pre: "down c V S R G w" and "on_rebates ?c w = (Inl e, w')"
  then obtain e' s' where run: "?c (rw_store w) = (Inl e', s')" "w' = w\<lparr>rw_store := s'\<rparr>"
    by (cases "?c (rw_store w)"; cases "fst (?c (rw_store w))") (auto simp: on_rebates_run)
  have "\<not> c" using reb.calm_calls(3) [OF downD(9,7) [OF pre]] run(1) by auto
  then show "failed c e w'"
    using reb.pending_call [OF downD(9) [OF pre] run(1)] downD [OF pre] by (auto simp: run(2) store_inv_def)
qed

lemma down_open:
  "triple (down c V S R G) (on_rebates (ro_open_batches (rq_store env)))
     (\<lambda>bs w. down c V S R G w \<and> set bs = ran V \<and> distinct (map rb_strategy bs)) (failed c)"
proof (rule tripleI)
  let ?c = "ro_open_batches (rq_store env)"
  fix w bs w' assume pre: "down c V S R G w" and "on_rebates ?c w = (Inr bs, w')"
  then obtain s' where run: "?c (rw_store w) = (Inr bs, s')" "w' = w\<lparr>rw_store := s'\<rparr>"
    by (cases "?c (rw_store w)"; cases "fst (?c (rw_store w))") (auto simp: on_rebates_run)
  note v = reb.open_call [OF downD(9) [OF pre] run(1)]
  have "reb_calm s'" if c using reb.calm_calls(4) [OF downD(9,7) [OF pre]] that run(1) by auto
  then have "down c V S R G w'" using downD [OF pre] v by (intro downI) (auto simp: run(2))
  then show "down c V S R G w' \<and> set bs = ran V \<and> distinct (map rb_strategy bs)"
    using v downD(2) [OF pre] by simp
next
  let ?c = "ro_open_batches (rq_store env)"
  fix w e w' assume pre: "down c V S R G w" and "on_rebates ?c w = (Inl e, w')"
  then obtain e' s' where run: "?c (rw_store w) = (Inl e', s')" "w' = w\<lparr>rw_store := s'\<rparr>"
    by (cases "?c (rw_store w)"; cases "fst (?c (rw_store w))") (auto simp: on_rebates_run)
  have "\<not> c" using reb.calm_calls(4) [OF downD(9,7) [OF pre]] run(1) by auto
  then show "failed c e w'"
    using reb.open_call [OF downD(9) [OF pre] run(1)] downD [OF pre] by (auto simp: run(2) store_inv_def)
qed

lemma recover_carries:
  assumes K: "carries K V S"
  shows "triple (down c V S {} {}) (rebate_recover env) (\<lambda>_ w. desk_inv w \<and> carries K (memory w) Map.empty) (failed c)"
proof -
  let ?kept = "\<lambda>_ w. desk_inv w \<and> carries K (memory w) Map.empty"
  let ?taken = "\<lambda>rec w. \<exists>V' G'. down c V' Map.empty {} G' w \<and> taken_over rec V' G' \<and> (\<forall>k. bm_get rec k = V' k) \<and>
    carries K V' Map.empty"
  have publish: "triple (?taken rec) (emodify (\<lambda>w. w\<lparr>rw_batches := rec\<rparr>)) ?kept (failed c)" for rec
  proof (rule triple_emodify)
    fix w :: "('l, 's) rebate_world" assume "?taken rec w"
    then obtain V' G' where d: "down c V' Map.empty {} G' w" and t: "taken_over rec V' G'" and g: "\<forall>k. bm_get rec k = V' k"
      and K': "carries K V' Map.empty"
      by blast
    have "rebate_inv (bm_get rec) V' Map.empty (held w) (guarded_keys w)"
      by (rule inv_recovered [OF downD(10) [OF d]]) (use g t downD(5) [OF d] in \<open>auto simp: taken_over_def\<close>)
    moreover have "memory (w\<lparr>rw_batches := rec\<rparr>) = V'" using g by (simp add: fun_eq_iff)
    ultimately show "?kept () (w\<lparr>rw_batches := rec\<rparr>)"
      using downD [OF d] t K' by (auto simp: desk_inv_def stores_ok_def taken_over_def)
  qed
  have batches: "triple (\<lambda>w. down c V' Map.empty {} {} w \<and> set bs = ran V' \<and> distinct (map rb_strategy bs))
      (ebind (recover_batches env bs []) (\<lambda>rec. emodify (\<lambda>w. w\<lparr>rw_batches := rec\<rparr>))) ?kept (failed c)"
    if K': "carries K V' Map.empty" for V' bs
  proof (rule triple_conj_pre, rule triple_pre [where b = "\<forall>k d. V' k = Some d \<longrightarrow> rb_strategy d = k"])
    show "\<forall>k d. V' k = Some d \<longrightarrow> rb_strategy d = k" if "down c V' Map.empty {} {} w" for w
      using down_slot(2) [OF that] by blast
    assume k: "\<forall>k d. V' k = Some d \<longrightarrow> rb_strategy d = k" and bs: "set bs = ran V' \<and> distinct (map rb_strategy bs)"
    have "triple (down c V' Map.empty {} {}) (recover_batches env bs []) ?taken (failed c)"
    proof (rule recover_batches_triple)
      show "V' (rb_strategy b) = Some b" if "b \<in> set bs" for b using that bs k by (auto simp: ran_def)
      show "bm_get [] k' \<noteq> None \<or> k' \<in> rb_strategy ` set bs" if "V' k' = Some d" for k' d
        using that bs k by (force simp: ran_def)
    qed (use bs K' in \<open>auto simp: taken_over_def\<close>)
    then show "triple (down c V' Map.empty {} {}) (ebind (recover_batches env bs []) (\<lambda>rec. emodify (\<lambda>w. w\<lparr>rw_batches := rec\<rparr>)))
        ?kept (failed c)" by (rule triple_ebind) (rule publish)
  qed
  have settle: "triple (\<lambda>w. down c V S {} {} w \<and> set xs = ran S \<and> distinct (map (\<lambda>x. bp_batch_id (rt_plan x)) xs))
      (finish_settlements env xs) (\<lambda>_ w. \<exists>V'. down c V' Map.empty {} {} w \<and> carries K V' Map.empty) (failed c)" for xs
    by (rule triple_conj_pre) (rule finish_settlements_triple [OF _ _ K], blast+)
  have rest: "triple (\<lambda>w. down c V' Map.empty {} {} w \<and> carries K V' Map.empty) (ebind (on_rebates (ro_open_batches (rq_store env)))
      (\<lambda>opened. ebind (recover_batches env opened []) (\<lambda>rec. emodify (\<lambda>w. w\<lparr>rw_batches := rec\<rparr>)))) ?kept (failed c)" for V'
    by (rule triple_conj_pre) (rule triple_ebind [OF down_open batches])
  show ?thesis
    unfolding rebate_recover_def
    by (rule triple_ebind [OF down_pending triple_ebind [OF settle triple_ex]]) (rule rest)
qed

lemma recover_keeps: "triple (down c V S {} {}) (rebate_recover env) (\<lambda>_. desk_inv) (failed c)"
  by (rule triple_weaken [OF recover_carries [of Map.empty]]) (auto simp: carries_def)

end

end
