(* ===== verification/Rebate_History.thy ===== *)
theory Rebate_History
  imports Rebate_Recovery
begin

text \<open>
  Histories of the rebate service on the two SQLite stores: every operation of the service with any
  schedule of database faults, other traffic on the shared ledger, crashes and restarts. The locale
  \<open>rebate_deployment\<close> fixes the adapters the service is deployed with and inherits the lemmas of
  \<open>rebate_desk\<close>; the properties of the service are read off its invariant.
\<close>

section \<open>The deployed service\<close>

type_synonym rebate_node = "(sqlite, rebate_db) rebate_world"

definition deployed ::
  "filler_abi \<Rightarrow> address \<Rightarrow> policy_signer \<Rightarrow> (sqlite, rebate_db) rebate_env \<Rightarrow> bool" where
  "deployed abi credential authorize env \<longleftrightarrow>
     rq_ledger_store env = sqlite_ops \<and> rq_store env = sqlite_rebate_ops abi \<and>
     rq_build env = build_rebate_call abi credential authorize \<and> abi_law abi \<and>
     (\<forall>a sig. authorize a = Some sig \<longrightarrow> length sig = 65) \<and> bounded_source (rq_budgets env)"

text \<open>The published call fits its batch and is read back from its row.\<close>

lemma build_Inr:
  assumes "build_rebate_call abi credential authorize strategy plan r deadline t = Inr e"
  obtains order sig where "bp_strategy plan = ms_key strategy" "deadline \<noteq> 0"
    "o_maker order = sk_maker (ms_key strategy)"
    "fa_keccak abi (fa_encode_order abi order) = sk_hash (ms_key strategy)"
    "authorize (rebate_authorization (rebate_nonce (fa_keccak abi) plan deadline) (ms_key strategy) plan deadline) = Some sig"
    "e = \<lparr>re_plan = plan, re_reservation = r,
          re_authorization = rebate_authorization (rebate_nonce (fa_keccak abi) plan deadline) (ms_key strategy) plan deadline,
          re_order = fa_encode_order abi order, re_policy_signature = sig,
          re_calldata = fa_encode_call abi order
            (rebate_authorization (rebate_nonce (fa_keccak abi) plan deadline) (ms_key strategy) plan deadline) sig,
          re_published_at = t\<rparr>"
proof -
  have "deadline \<noteq> 0" if "validate_rebate_plan plan deadline = Inr ()"
    using that by (auto simp: validate_rebate_plan_def split: if_splits)
  then show ?thesis
    using assms that by (auto simp: build_rebate_call_def Let_def res split: if_splits)
qed

lemma build_fits_rebate:
  assumes "abi_law abi" "\<And>a sig. authorize a = Some sig \<Longrightarrow> length sig = 65"
  shows "build_fits (stored_readable abi) (build_rebate_call abi credential authorize)"
  unfolding build_fits_def
proof (intro allI impI)
  fix strategy plan r deadline t e
  assume run: "build_rebate_call abi credential authorize strategy plan r deadline t = Inr e"
  obtain order sig where k: "bp_strategy plan = ms_key strategy" "deadline \<noteq> 0"
    and o: "o_maker order = sk_maker (ms_key strategy)"
      "fa_keccak abi (fa_encode_order abi order) = sk_hash (ms_key strategy)"
    and s: "authorize (rebate_authorization (rebate_nonce (fa_keccak abi) plan deadline) (ms_key strategy) plan deadline) = Some sig"
    and e: "e = \<lparr>re_plan = plan, re_reservation = r,
          re_authorization = rebate_authorization (rebate_nonce (fa_keccak abi) plan deadline) (ms_key strategy) plan deadline,
          re_order = fa_encode_order abi order, re_policy_signature = sig,
          re_calldata = fa_encode_call abi order
            (rebate_authorization (rebate_nonce (fa_keccak abi) plan deadline) (ms_key strategy) plan deadline) sig,
          re_published_at = t\<rparr>"
    by (rule build_Inr [OF run]) (rule that)
  have law: "fa_decode_order abi (fa_encode_order abi order) = Some order" "fa_encode_order abi order \<noteq> []"
    "\<And>a sig. fa_encode_call abi order a sig \<noteq> []" using assms(1) by (auto simp: abi_law_def)
  have "stored_readable abi (BsReady e)"
    using law(1) o assms(2) [OF s] by (simp add: stored_readable_def e stored_execution_def rebate_authorization_def Let_def res)
  moreover have "execution_matches b e" if "rb_id b = bp_batch_id plan" "rb_strategy b = bp_strategy plan" for b
    using that k law(2,3) assms(2) [OF s] by (simp add: execution_matches_def e rebate_authorization_def)
  ultimately show "re_plan e = plan \<and> re_reservation e = r \<and> stored_readable abi (BsReady e) \<and>
      (\<forall>b. rb_id b = bp_batch_id plan \<longrightarrow> rb_strategy b = bp_strategy plan \<longrightarrow> execution_matches b e)"
    by (simp add: e)
qed

text \<open>Without scheduled faults the ledger store accepts every release and settlement.\<close>

lemma ledger_calm:
  assumes "sq_faults st = []"
  shows "\<exists>st'. so_void sqlite_ops i st = (Inr (), st') \<and> sq_faults st' = []"
    and "\<exists>st'. so_post sqlite_ops i fs st = (Inr (), st') \<and> sq_faults st' = []"
  using assms by (simp_all add: sqlite_ops_def sqlite_void_def sqlite_post_def sqlite_transition_def with_db_def)

locale rebate_deployment =
  fixes abi :: filler_abi and credential :: address and authorize :: policy_signer
    and env :: "(sqlite, rebate_db) rebate_env"
  assumes deployed: "deployed abi credential authorize env"

sublocale rebate_deployment \<subseteq> desk: rebate_desk env sqlite_rows sqlite_wf db_opened db_settling
  "stored_readable abi" "db_wf abi" db_calm "\<lambda>st. sq_faults st = []"
proof -
  have env: "rq_ledger_store env = sqlite_ops" "rq_store env = sqlite_rebate_ops abi"
    "rq_build env = build_rebate_call abi credential authorize" "bounded_source (rq_budgets env)"
    and law: "abi_law abi" "\<And>a sig. authorize a = Some sig \<Longrightarrow> length sig = 65"
    using deployed by (auto simp: deployed_def)
  show "rebate_desk env sqlite_rows sqlite_wf db_opened db_settling (stored_readable abi) (db_wf abi) db_calm
      (\<lambda>st. sq_faults st = [])"
  proof (rule rebate_desk.intro)
    show "ledger_store (rq_ledger_store env) sqlite_rows sqlite_wf" unfolding env by (rule sqlite.ledger_store_axioms)
    show "rebate_store (rq_store env) db_opened db_settling (stored_readable abi) (db_wf abi) db_calm"
      unfolding env by (rule sqlite_rebates.rebate_store_axioms)
    show "rebate_desk_axioms env (stored_readable abi) (\<lambda>st. sq_faults st = [])"
    proof (rule rebate_desk_axioms.intro; (unfold env(1,3))?)
      show "build_fits (stored_readable abi) (build_rebate_call abi credential authorize)"
        by (rule build_fits_rebate [OF law])
      show "bounded_source (rq_budgets env)" by (rule env(4))
      show "stored_readable abi st" if "\<And>e. st \<noteq> BsReady e" for st
        using that by (cases st) (auto simp: stored_readable_def)
    qed (erule ledger_calm)+
  qed
qed

section \<open>Histories\<close>

text \<open>
  A batch may reserve under \<open>r\<close>: the id is the hash of its batch and the deadline block, so no other
  open batch uses it and nobody else holds it.
\<close>

definition reservation_free :: "strategy_key \<Rightarrow> reservation_id \<Rightarrow> rebate_node \<Rightarrow> bool" where
  "reservation_free k r w \<longleftrightarrow> r \<noteq> 0 \<and>
     (\<forall>k' d. k' \<noteq> k \<longrightarrow> db_opened (rw_store w) k' = Some d \<longrightarrow> active_reservation (rb_state d) \<noteq> Some r) \<and>
     (\<forall>ow ss. held w r = Some (ow, ss) \<longrightarrow> (\<exists>d. db_opened (rw_store w) k = Some d \<and> ow = OwnerRebate (rb_id d)))"

definition settlement_free :: "strategy_key \<Rightarrow> rebate_node \<Rightarrow> bool" where
  "settlement_free k w \<longleftrightarrow> (\<forall>b. memory w k = Some b \<longrightarrow> db_settling (rw_store w) (rb_id b) = None)"

text \<open>A process that starts: memory is empty, the stores are what the last one left.\<close>

definition booted :: "sqlite ledger_service \<Rightarrow> rebate_db \<Rightarrow> rebate_node" where
  "booted sv db = \<lparr>rw_batches = [], rw_ledger = sv, rw_guard = strategy_guard_default, rw_store = db\<rparr>"

definition empty_tables :: rebate_tables where
  "empty_tables = \<lparr>rx_batches = [], rx_accruals = [], rx_settlements = [], rx_cursors = []\<rparr>"

text \<open>
  The flag says whether the process is up: it is after a recovery that succeeded. A crash may come
  after every step, and a fault at any store call cuts an operation short at that statement; the
  schedule of later faults is arbitrary. Four things are left out of these histories. Strategies whose
  curve gives output for free are not evaluated (\<open>charges\<close>): the service would store a plan with a zero
  input, and no later recovery gets past it (\<open>free_plan_blocks_recovery\<close>). A batch reserves under an id
  that no other batch or user of the ledger has. Ready work is expired only once the scan has settled
  what was executed. Other users of the ledger keep away from rebate holds and reserved ids. A read of
  the store changes nothing but the schedule of faults.
\<close>

inductive rebate_step ::
  "(sqlite, rebate_db) rebate_env \<Rightarrow> bool \<Rightarrow> rebate_node \<Rightarrow> bool \<Rightarrow> rebate_node \<Rightarrow> bool" for env where
  rb_accrue: "accrue env a w = (res, w') \<Longrightarrow> rebate_step env True w True w'"
| rb_evaluate: "evaluation_ok md input \<Longrightarrow> reservation_free (ms_key (ev_strategy input)) (ev_reservation_id input) w \<Longrightarrow>
    evaluate env md now input w = (outcome, w') \<Longrightarrow> rebate_step env True w True w'"
| rb_discard: "discard env k w = (gone, w') \<Longrightarrow> rebate_step env True w True w'"
| rb_settle: "settle_work env event executed_at w = (gone, w') \<Longrightarrow> rebate_step env True w True w'"
| rb_expire: "settlement_free k w \<Longrightarrow> expire_ready env k block w = (gone, w') \<Longrightarrow> rebate_step env True w True w'"
| rb_cursor: "ro_save_scan_cursor (rq_store env) chain n (rw_store w) = (kept, db) \<Longrightarrow>
    rebate_step env up w up (w\<lparr>rw_store := db\<rparr>)"
| rb_read: "rd_tables db = rd_tables (rw_store w) \<Longrightarrow> rebate_step env up w up (w\<lparr>rw_store := db\<rparr>)"
| rb_traffic: "service_step sqlite_ops (rw_ledger w) sv \<Longrightarrow>
    spares (db_opened (rw_store w)) (held w) (hold (sv_ledger sv)) \<Longrightarrow> rebate_step env up w up (w\<lparr>rw_ledger := sv\<rparr>)"
| rb_crash: "rebate_step env up w False (w\<lparr>rw_ledger := (rw_ledger w)\<lparr>sv_store := (sv_store (rw_ledger w))\<lparr>sq_faults := fl\<rparr>\<rparr>,
    rw_store := (rw_store w)\<lparr>rd_faults := fr\<rparr>\<rparr>)"
| rb_restart: "recover sqlite_ops (rq_budgets env) (service_new (sv_store (rw_ledger w))) = (Inr (), sv) \<Longrightarrow>
    rebate_recover env (booted sv (rw_store w)) = (res', w') \<Longrightarrow> rebate_step env False w (\<not> isl res') w'"

inductive rebate_reachable :: "(sqlite, rebate_db) rebate_env \<Rightarrow> bool \<Rightarrow> rebate_node \<Rightarrow> bool" for env where
  rb_init: "rebate_reachable env False (booted (service_new \<lparr>sq_rows = [], sq_faults = fl\<rparr>) \<lparr>rd_tables = empty_tables, rd_faults = fr\<rparr>)"
| rb_next: "rebate_reachable env up w \<Longrightarrow> rebate_step env up w up' w' \<Longrightarrow> rebate_reachable env up' w'"

lemma restart_hold:
  assumes "consistent sqlite_rows sqlite_wf l st" "bounded_source budgets"
    and "recover sqlite_ops budgets (service_new st) = (Inr (), sv)"
  shows "hold (sv_ledger sv) = hold l" "consistent sqlite_rows sqlite_wf (sv_ledger sv) (sv_store sv)"
  using sqlite.consistent_restart [OF assms]
  by (auto simp: hold_def fun_eq_iff is_active_def split: option.split)

lemma restart_calm:
  assumes "recover sqlite_ops budgets (service_new st) = (Inr (), sv)" "sq_faults st = []"
  shows "sq_faults (sv_store sv) = []"
  using assms
  by (auto simp: recover_def service_new_def sqlite_ops_def sqlite_open_reservations_def with_db_def Let_def
      split: prod.splits sum.splits)

lemma consistent_faults:
  "consistent sqlite_rows sqlite_wf l (st\<lparr>sq_faults := fl\<rparr>) = consistent sqlite_rows sqlite_wf l st"
  by (simp add: consistent_def sqlite_wf_def sqlite_rows_def fun_eq_iff agrees_def)

lemma db_faults [simp]:
  "db_opened (db\<lparr>rd_faults := fr\<rparr>) = db_opened db" "db_settling (db\<lparr>rd_faults := fr\<rparr>) = db_settling db"
  "db_wf abi (db\<lparr>rd_faults := fr\<rparr>) = db_wf abi db"
  by (simp_all add: db_views)

context rebate_deployment
begin

lemma store_change:
  assumes "desk.store_inv w" "db_wf abi (rw_store w')" "db_opened (rw_store w') = db_opened (rw_store w)"
    "db_settling (rw_store w') = db_settling (rw_store w)" "held w' = held w"
    "consistent sqlite_rows sqlite_wf (sv_ledger (rw_ledger w')) (sv_store (rw_ledger w'))"
  shows "desk.store_inv w'"
  using assms by (simp add: desk.store_inv_def)

lemma desk_change':
  assumes "desk.desk_inv w" "db_wf abi (rw_store w')" "db_opened (rw_store w') = db_opened (rw_store w)"
    "db_settling (rw_store w') = db_settling (rw_store w)"
    "consistent sqlite_rows sqlite_wf (sv_ledger (rw_ledger w')) (sv_store (rw_ledger w'))"
    "rw_batches w' = rw_batches w" "rw_guard w' = rw_guard w" "spares (db_opened (rw_store w)) (held w) (held w')"
  shows "desk.desk_inv w'"
  using assms inv_traffic [of "memory w" "db_opened (rw_store w)" "db_settling (rw_store w)" "held w" "guarded_keys w" "held w'"]
  by (simp add: desk.desk_inv_def desk.stores_ok_def)

lemma desk_store: "desk.desk_inv w \<Longrightarrow> desk.store_inv w"
  unfolding desk.desk_inv_def desk.store_inv_def desk.stores_ok_def using inv_durable by blast

lemma reachable_init:
  "desk.store_inv (booted (service_new \<lparr>sq_rows = [], sq_faults = fl\<rparr>) \<lparr>rd_tables = empty_tables, rd_faults = fr\<rparr>)"
proof -
  have "consistent sqlite_rows sqlite_wf ledger_default \<lparr>sq_rows = [], sq_faults = fl\<rparr>"
    using reachable_consistent [OF service_init, of fl] by (simp add: service_new_def)
  then show ?thesis
    by (simp add: desk.store_inv_def booted_def service_new_def db_views tables_wf_def batch_rows_wf_def accrual_rows_wf_def
        settlement_rows_wf_def empty_tables_def table_opened_def open_row_def table_settling_def rebate_inv_def ids_ok_def
        claims_ok_def slot_ok_def hold_def ledger_default_def)
qed

text \<open>The durable side is in order along every history, and memory too while the process is up.\<close>

definition node_ok :: "bool \<Rightarrow> rebate_node \<Rightarrow> bool" where
  "node_ok up w \<longleftrightarrow> desk.store_inv w \<and> (up \<longrightarrow> desk.desk_inv w)"

lemma upI: "desk.desk_inv w \<Longrightarrow> node_ok True w"
  using desk_store by (simp add: node_ok_def)

lemma op_keeps:
  assumes "triple (\<lambda>w. desk.desk_inv w \<and> P w) op (\<lambda>_. desk.desk_inv) (\<lambda>_. desk.desk_inv)" "node_ok True w" "P w" "op w = (r, w')"
  shows "node_ok True w'"
proof -
  have pre: "desk.desk_inv w \<and> P w" using assms(2,3) by (simp add: node_ok_def)
  have "desk.desk_inv w'"
  proof (cases r)
    case (Inl e)
    show ?thesis by (rule tripleD(2) [OF assms(1) pre, of e]) (use Inl assms(4) in simp)
  next
    case (Inr x)
    show ?thesis by (rule tripleD(1) [OF assms(1) pre, of x]) (use Inr assms(4) in simp)
  qed
  then show ?thesis by (rule upI)
qed

lemmas plain_op_keeps = op_keeps [where P = "\<lambda>_. True", simplified]

lemma restart_keeps:
  assumes ok: "desk.store_inv w"
    and led: "recover sqlite_ops (rq_budgets env) (service_new (sv_store (rw_ledger w))) = (Inr (), sv)"
    and run: "rebate_recover env (booted sv (rw_store w)) = (r, w')"
  shows "node_ok (\<not> isl r) w'" "sq_faults (sv_store (rw_ledger w)) = [] \<Longrightarrow> rd_faults (rw_store w) = [] \<Longrightarrow> \<not> isl r"
proof -
  have c: "consistent sqlite_rows sqlite_wf (sv_ledger (rw_ledger w)) (sv_store (rw_ledger w))"
    using ok by (simp add: desk.store_inv_def)
  note h = restart_hold [OF c desk.bounded led]
  have st: "desk.store_inv (booted sv (rw_store w))" using ok h by (simp add: desk.store_inv_def booted_def)
  have down: "desk.down calm (db_opened (rw_store w)) (db_settling (rw_store w)) {} {} (booted sv (rw_store w))"
    if "calm \<Longrightarrow> sq_faults (sv_store (rw_ledger w)) = [] \<and> rd_faults (rw_store w) = []" for calm
    using st that restart_calm [OF led] by (auto simp: desk.down_def booted_def db_calm_def)
  show "node_ok (\<not> isl r) w'"
    using tripleD [OF desk.recover_keeps down [of False]] run desk_store by (cases r) (auto simp: node_ok_def)
  assume "sq_faults (sv_store (rw_ledger w)) = []" "rd_faults (rw_store w) = []"
  then show "\<not> isl r"
    using tripleD(2) [OF desk.recover_keeps down [of True]] run by (cases r) auto
qed

lemma step_keeps:
  assumes "rebate_step env up w up' w'" "node_ok up w"
  shows "node_ok up' w'"
  using assms
proof (induction rule: rebate_step.induct)
  case (rb_accrue a w res w')
  show ?case by (rule plain_op_keeps [OF desk.accrue_keeps rb_accrue(2,1)])
next
  case (rb_evaluate md input w now outcome w')
  have "desk.free_for (ms_key (ev_strategy input)) (ev_reservation_id input) w"
    using rb_evaluate(2) unfolding desk.free_for_def reservation_free_def .
  then show ?case by (rule op_keeps [OF desk.evaluate_keeps [OF rb_evaluate(1)] rb_evaluate(4) _ rb_evaluate(3)])
next
  case (rb_discard k w gone w')
  show ?case by (rule plain_op_keeps [OF desk.discard_keeps rb_discard(2,1)])
next
  case (rb_settle event executed_at w gone w')
  show ?case by (rule plain_op_keeps [OF desk.settle_keeps rb_settle(2,1)])
next
  case (rb_expire k w block gone w')
  have "desk.unsettled k w" using rb_expire(1) unfolding desk.unsettled_def settlement_free_def .
  then show ?case by (rule op_keeps [OF desk.expire_keeps rb_expire(3) _ rb_expire(2)])
next
  case (rb_cursor chain n w kept db up)
  have "db_wf abi (rw_store w)" using rb_cursor(2) by (simp add: node_ok_def desk.store_inv_def)
  note v = desk.reb.cursor_calls(2) [OF this rb_cursor(1)]
  have s: "desk.store_inv w" using rb_cursor(2) by (simp add: node_ok_def)
  have "desk.store_inv (w\<lparr>rw_store := db\<rparr>)"
    by (rule store_change [OF s]) (use v s in \<open>auto simp: desk.store_inv_def\<close>)
  moreover have "desk.desk_inv (w\<lparr>rw_store := db\<rparr>)" if "desk.desk_inv w"
    by (rule desk_change' [OF that]) (use v s in \<open>auto simp: desk.store_inv_def spares_def\<close>)
  ultimately show ?case using rb_cursor(2) by (simp add: node_ok_def)
next
  case (rb_read db w up)
  have s: "desk.store_inv w" using rb_read(2) by (simp add: node_ok_def)
  have v: "db_opened db = db_opened (rw_store w)" "db_settling db = db_settling (rw_store w)" "db_wf abi db = db_wf abi (rw_store w)"
    using rb_read(1) by (simp_all add: db_views)
  have "desk.store_inv (w\<lparr>rw_store := db\<rparr>)"
    by (rule store_change [OF s]) (use v s in \<open>auto simp: desk.store_inv_def\<close>)
  moreover have "desk.desk_inv (w\<lparr>rw_store := db\<rparr>)" if "desk.desk_inv w"
    by (rule desk_change' [OF that]) (use v s in \<open>auto simp: desk.store_inv_def spares_def\<close>)
  ultimately show ?case using rb_read(2) by (simp add: node_ok_def)
next
  case (rb_traffic w sv up)
  have s: "desk.store_inv w" using rb_traffic(3) by (simp add: node_ok_def)
  have c: "consistent sqlite_rows sqlite_wf (sv_ledger sv) (sv_store sv)"
    by (rule sqlite.consistent_step [OF rb_traffic(1)]) (use s in \<open>simp add: desk.store_inv_def\<close>)
  have "desk.store_inv (w\<lparr>rw_ledger := sv\<rparr>)"
    using s c inv_traffic [OF _ rb_traffic(2)] by (auto simp: desk.store_inv_def)
  moreover have "desk.desk_inv (w\<lparr>rw_ledger := sv\<rparr>)" if "desk.desk_inv w"
    by (rule desk_change' [OF that]) (use c s rb_traffic(2) in \<open>auto simp: desk.store_inv_def\<close>)
  ultimately show ?case using rb_traffic(3) by (simp add: node_ok_def)
next
  case (rb_crash up w fl fr)
  then have s: "desk.store_inv w" by (simp add: node_ok_def)
  show ?case unfolding node_ok_def
    by (rule conjI [OF store_change [OF s]]) (use s in \<open>auto simp: desk.store_inv_def consistent_faults\<close>)
next
  case (rb_restart w sv res' w')
  then show ?case using restart_keeps(1) by (simp add: node_ok_def)
qed

lemma reachable_node: "rebate_reachable env up w \<Longrightarrow> node_ok up w"
proof (induction rule: rebate_reachable.induct)
  case (rb_init fl fr)
  show ?case using reachable_init by (simp add: node_ok_def)
qed (rule step_keeps)

lemma up_inv:
  assumes "rebate_reachable env True w"
  shows "rebate_inv (memory w) (db_opened (rw_store w)) (db_settling (rw_store w)) (held w) (guarded_keys w)" "bm_wf (rw_batches w)"
  using reachable_node [OF assms] by (simp_all add: node_ok_def desk.desk_inv_def desk.stores_ok_def)

lemma ready_backed:
  assumes "rebate_reachable env True w" "memory w k = Some b" "rb_state b = BsReady e"
  shows "validate_batch b = Inr ()" "k \<in> guarded_keys w" "rb_strategy b = k" "db_opened (rw_store w) k = Some b"
    "held w (re_reservation e) = Some (OwnerRebate (rb_id b), rebate_sources k (re_plan e)) \<or>
     held w (re_reservation e) = None \<and> (\<exists>s. db_settling (rw_store w) (rb_id b) = Some s \<and>
       rt_plan s = re_plan e \<and> rt_reservation s = re_reservation e)"
proof -
  obtain d where d: "db_opened (rw_store w) k = Some d" "durable_ok (db_settling (rw_store w)) (held w) d" "mirrors (held w) b d"
    "rb_state b \<noteq> BsAccumulating \<Longrightarrow> k \<in> guarded_keys w" "rb_strategy b = k"
    by (rule memory_slot [OF up_inv(1) [OF assms(1)] assms(2)]) (rule that)
  have "rb_state b = rb_state d" "b = d\<lparr>rb_state := rb_state b\<rparr>" using d(3) assms(3) by (auto simp: mirrors_def)
  then have b: "d = b" by (metis rebate_batch.surjective rebate_batch.update_convs(5))
  show "validate_batch b = Inr ()" "k \<in> guarded_keys w" "rb_strategy b = k" "db_opened (rw_store w) k = Some b"
    using durable_okD(1) [OF d(2)] d assms(3) b by auto
  show "held w (re_reservation e) = Some (OwnerRebate (rb_id b), rebate_sources k (re_plan e)) \<or>
     held w (re_reservation e) = None \<and> (\<exists>s. db_settling (rw_store w) (rb_id b) = Some s \<and>
       rt_plan s = re_plan e \<and> rt_reservation s = re_reservation e)"
    using durable_okD(3,4) [OF d(2)] assms(3) d(5) unfolding b by (auto simp: backed_def settles_def)
qed

lemma hold_claimed:
  assumes "rebate_reachable env True w" "held w r = Some (OwnerRebate i, ss)"
  obtains k b where "memory w k = Some b" "rb_id b = i" "active_reservation (rb_state b) = Some r" "k \<in> guarded_keys w"
    "rb_strategy b = k"
proof -
  note inv = up_inv(1) [OF assms(1)]
  obtain k d where d: "db_opened (rw_store w) k = Some d" "rb_id d = i"
    using rebate_invD(2) [OF inv] assms(2) unfolding claims_ok_def by blast
  obtain m where m: "memory w k = Some m" "durable_ok (db_settling (rw_store w)) (held w) d" "mirrors (held w) m d"
    "rb_state m \<noteq> BsAccumulating \<Longrightarrow> k \<in> guarded_keys w"
    by (rule slot_SomeD [OF rebate_invD(3) [OF inv, of k, unfolded d(1)]]) (rule that)
  have act: "active_reservation (rb_state d) = Some r" using ownsD(1) [OF durable_okD(2) [OF m(2)]] assms(2) d(2) by blast
  have "active_reservation (rb_state m) = Some r"
    using m(3) act assms(2) desk.interrupted_active [of "rb_state d"] by (auto simp: mirrors_def)
  moreover have "rb_id m = i" "rb_strategy m = k"
    using memory_slot [OF inv m(1)] d by (metis option.inject)+
  moreover have "k \<in> guarded_keys w" using m(4) calculation(1) by (cases "rb_state m") auto
  ultimately show thesis using that [OF m(1)] by blast
qed

lemma ledger_restarts:
  assumes "desk.store_inv w" and "sq_faults (sv_store (rw_ledger w)) = []" and "\<forall>a. \<exists>b. rq_budgets env a = Inr b"
  obtains sv where "recover sqlite_ops (rq_budgets env) (service_new (sv_store (rw_ledger w))) = (Inr (), sv)"
proof -
  have "sqlite_wf (sv_store (rw_ledger w))" using assms(1) by (simp add: desk.store_inv_def consistent_def)
  from recover_succeeds [OF assms(2) this assms(3)] show thesis using that by (metis prod.collapse)
qed

lemma restart_carries:
  assumes ok: "desk.store_inv w" and calm: "sq_faults (sv_store (rw_ledger w)) = []" "rd_faults (rw_store w) = []"
    and led: "recover sqlite_ops (rq_budgets env) (service_new (sv_store (rw_ledger w))) = (Inr (), sv)"
  shows "\<exists>w'. rebate_recover env (booted sv (rw_store w)) = (Inr (), w') \<and> bm_wf (rw_batches w') \<and>
    (\<forall>k b e. db_opened (rw_store w) k = Some b \<longrightarrow> rb_state b = BsReady e \<longrightarrow> db_settling (rw_store w) (rb_id b) = None \<longrightarrow>
       memory w' k = Some b)"
proof -
  obtain r w' where run: "rebate_recover env (booted sv (rw_store w)) = (r, w')" by force
  have c: "consistent sqlite_rows sqlite_wf (sv_ledger (rw_ledger w)) (sv_store (rw_ledger w))"
    using ok by (simp add: desk.store_inv_def)
  note h = restart_hold [OF c desk.bounded led]
  let ?V = "db_opened (rw_store w)" and ?S = "db_settling (rw_store w)"
  define K where "K k = (case ?V k of
      Some b \<Rightarrow> if (\<exists>e. rb_state b = BsReady e) \<and> ?S (rb_id b) = None then Some b else None | None \<Rightarrow> None)" for k
  have down: "desk.down True ?V ?S {} {} (booted sv (rw_store w))"
    using ok h calm restart_calm [OF led] by (simp add: desk.down_def desk.store_inv_def booted_def db_calm_def)
  have "desk.carries K ?V ?S" by (auto simp: desk.carries_def K_def split: option.splits if_splits)
  note post = tripleD [OF desk.recover_carries [OF this] down]
  have "\<not> isl r" by (rule restart_keeps(2) [OF ok led run calm])
  then have "r = Inr ()" by (cases r) simp_all
  then have run': "rebate_recover env (booted sv (rw_store w)) = (Inr (), w')" using run by simp
  have kept: "memory w' k = Some b"
    if "?V k = Some b" "rb_state b = BsReady e" "?S (rb_id b) = None" for k b e
  proof -
    have "K k = Some b" using that by (simp add: K_def)
    then show ?thesis by (rule desk.carriesD [OF conjunct2 [OF post(1) [OF run']]])
  qed
  have "bm_wf (rw_batches w')" using post(1) [OF run'] by (simp add: desk.desk_inv_def desk.stores_ok_def)
  then have "bm_wf (rw_batches w') \<and> (\<forall>k b e. ?V k = Some b \<longrightarrow> rb_state b = BsReady e \<longrightarrow> ?S (rb_id b) = None \<longrightarrow> memory w' k = Some b)"
    using kept by blast
  from conjI [OF run' this] show ?thesis by (rule exI)
qed

end

section \<open>Published work\<close>

lemma ready_workD:
  assumes "bm_wf (rw_batches w)"
  shows "e \<in> set (ready_work w) \<longleftrightarrow> (\<exists>k b. memory w k = Some b \<and> rb_state b = BsReady e)"
proof -
  have some: "(case st of BsReady x \<Rightarrow> Some x | _ \<Rightarrow> None) = Some e \<longleftrightarrow> st = BsReady e" for st e by (cases st) auto
  have "e \<in> set (List.map_filter f xs) \<longleftrightarrow> (\<exists>x \<in> set xs. f x = Some e)" for f :: "rebate_batch \<Rightarrow> _" and xs
    by (force simp: List.map_filter_def)
  then have "e \<in> set (ready_work w) \<longleftrightarrow> (\<exists>b \<in> set (bm_values (rw_batches w)). rb_state b = BsReady e)"
    by (simp add: ready_work_def some)
  also have "\<dots> \<longleftrightarrow> (\<exists>k b. memory w k = Some b \<and> rb_state b = BsReady e)"
    unfolding bm_values_def bm_get_iff [OF assms] by force
  finally show ?thesis .
qed

lemma open_batchesI: "memory w k = Some b \<Longrightarrow> b \<in> set (open_batches w)"
  unfolding open_batches_def bm_values_def using bm_get_set by force

text \<open>
  C3. Published rebate work is safe to execute at any moment, along every history of the service with
  database faults at any statement, crashes, restarts and other traffic on the ledger: it belongs to
  an open batch it matches in every signed field, no route can be planned through its strategy, and
  its reservation is a pending hold of exactly the inventory the work delivers, unless the settlement
  of that very work has already begun.
\<close>

theorem published_work_is_backed:
  assumes "deployed abi credential authorize env" "rebate_reachable env True w" "e \<in> set (ready_work w)"
  shows "\<exists>b \<in> set (open_batches w). rb_state b = BsReady e \<and> validate_batch b = Inr () \<and>
     rb_strategy b \<notin> cd_key ` set (sl_chosen (select snap caps (guard_snapshot (rw_guard w)) request n)) \<and>
     (reservation_sources (rw_ledger w) (re_reservation e) = Some (rebate_sources (rb_strategy b) (re_plan e)) \<or>
      (\<exists>s. db_settling (rw_store w) (rb_id b) = Some s \<and> rt_plan s = re_plan e \<and> rt_reservation s = re_reservation e))"
proof -
  note dep = rebate_deployment.intro [OF assms(1)]
  obtain k b where b: "memory w k = Some b" "rb_state b = BsReady e"
    using assms(3) ready_workD [OF rebate_deployment.up_inv(2) [OF dep assms(2)]] by blast
  note r = rebate_deployment.ready_backed [OF dep assms(2) b]
  have "rb_strategy b \<notin> cd_key ` set (sl_chosen (select snap caps (guard_snapshot (rw_guard w)) request n))"
  proof
    assume "rb_strategy b \<in> cd_key ` set (sl_chosen (select snap caps (guard_snapshot (rw_guard w)) request n))"
    then obtain c where c: "c \<in> set (sl_chosen (select snap caps (guard_snapshot (rw_guard w)) request n))" "cd_key c = k"
      using r(3) by auto
    from chosen_built [OF c(1)] c(2) build_candidate_Some(1) r(2) show False
      by (metis guard_snapshot_def is_guarded_def)
  qed
  then show ?thesis
    using r b(2) by (intro bexI [OF _ open_batchesI [OF b(1)]]) (auto simp: reservation_sources_hold)
qed

text \<open>
  C5. No inventory is locked up for nothing: along every such history, each pending hold that belongs
  to a rebate is the active reservation of an open batch in memory, whose strategy is closed to
  routing, so the service can still settle, expire or release it.
\<close>

theorem rebate_holds_are_claimed:
  assumes "deployed abi credential authorize env" "rebate_reachable env True w"
    and "lookup_reservation (sv_ledger (rw_ledger w)) r = Some rv" "r_state rv = StPending" "r_owner rv = OwnerRebate i"
  shows "\<exists>b \<in> set (open_batches w). rb_id b = i \<and> active_reservation (rb_state b) = Some r \<and>
     is_guarded (guard_snapshot (rw_guard w)) (rb_strategy b)"
proof -
  have "held w r = Some (OwnerRebate i, r_sources rv)" using assms(3-5) by (simp add: hold_def lookup_reservation_def)
  then obtain k b where "memory w k = Some b" "rb_id b = i" "active_reservation (rb_state b) = Some r" "k \<in> guarded_keys w"
    "rb_strategy b = k"
    using rebate_deployment.hold_claimed [OF rebate_deployment.intro [OF assms(1)] assms(2)] by metis
  then show ?thesis by (intro bexI [OF _ open_batchesI]) (auto simp: is_guarded_def guard_snapshot_def)
qed

text \<open>
  C4. Recovery never gets stuck and loses no published work. Take any history of faults, crashes and
  restarts in which the strategies evaluated charge for every output (all closed-form curves do), each
  batch reserves under an id of its own, ready work is expired only after its settlements are scanned,
  and other users of the ledger leave rebate holds alone. Once the databases answer and the budget source
  does, the ledger restarts, the rebate service recovers on top of it, and every published execution
  whose settlement had not begun is published again.
\<close>

theorem recovery_restores_published_work:
  assumes "deployed abi credential authorize env" "rebate_reachable env up w"
    and "sq_faults (sv_store (rw_ledger w)) = []" "rd_faults (rw_store w) = []"
    and "\<forall>a. \<exists>b. rq_budgets env a = Inr b"
  shows "\<exists>sv w'. recover sqlite_ops (rq_budgets env) (service_new (sv_store (rw_ledger w))) = (Inr (), sv) \<and>
     rebate_recover env (booted sv (rw_store w)) = (Inr (), w') \<and>
     (\<forall>k b e. db_opened (rw_store w) k = Some b \<longrightarrow> rb_state b = BsReady e \<longrightarrow> db_settling (rw_store w) (rb_id b) = None \<longrightarrow>
        e \<in> set (ready_work w'))"
proof -
  note dep = rebate_deployment.intro [OF assms(1)]
  have inv: "rebate_desk.store_inv sqlite_rows sqlite_wf db_opened db_settling (db_wf abi) w"
    using rebate_deployment.reachable_node [OF dep assms(2)] by (simp add: rebate_deployment.node_ok_def [OF dep])
  obtain sv where led: "recover sqlite_ops (rq_budgets env) (service_new (sv_store (rw_ledger w))) = (Inr (), sv)"
    by (rule rebate_deployment.ledger_restarts [OF dep inv assms(3,5)]) (rule that)
  from rebate_deployment.restart_carries [OF dep inv assms(3,4) led] led show ?thesis
    using ready_workD by blast
qed

section \<open>A plan recovery does not get past\<close>

text \<open>
  An evaluation stores the plan of the work it prepares before anything checks that the plan has an
  input, and recovery refuses a stored batch whose plan has none. So once such a batch is on record,
  every restart fails, whatever else is stored and whenever it is tried.
\<close>

lemma recover_batches_valid:
  "recover_batches env bs recovered w = (Inr out, w') \<Longrightarrow> b \<in> set bs \<Longrightarrow> validate_batch b = Inr ()"
proof (induction bs arbitrary: recovered w)
  case (Cons c bs)
  then show ?case by (cases "validate_batch c") (auto simp: ebind_Inr lift_rebate_def split: if_splits)
qed simp

theorem free_plan_blocks_recovery:
  assumes "on_rebates (ro_pending_settlements (rq_store env)) w = (Inr [], w1)"
    and "on_rebates (ro_open_batches (rq_store env)) w1 = (Inr bs, w2)" and "b \<in> set bs"
    and "planned (rb_state b) = Some plan" and "bp_amount_in plan = 0"
  shows "\<exists>e. fst (rebate_recover env w) = Inl e"
proof -
  have bad: "validate_batch b \<noteq> Inr ()" using assms(4,5) by (auto simp: validate_batch_def plan_matches_batch_def)
  have "fst (recover_batches env bs [] w2) \<noteq> Inr out" for out
    using recover_batches_valid [OF _ assms(3)] bad by (metis prod.collapse)
  then obtain e where "fst (recover_batches env bs [] w2) = Inl e" by (cases "fst (recover_batches env bs [] w2)") auto
  then show ?thesis using assms(1,2)
    by (cases "recover_batches env bs [] w2") (auto simp: rebate_recover_def ebind_def)
qed

end
