(* ===== verification/Rebate_Log.thy ===== *)
theory Rebate_Log
  imports Rebate_History
begin

text \<open>
  The durable record of rebates is append-only: accrual rows, settlements and closed batches survive
  every later step. A relation that every primitive step of a computation respects is respected by the
  whole computation; the locale \<open>evolution\<close> carries this over the constructs the services are written
  in, and is interpreted for the tables of a store and for the store inside the service's state.
\<close>

section \<open>Relations along a computation\<close>

locale evolution =
  fixes R :: "'w \<Rightarrow> 'w \<Rightarrow> bool"
  assumes same: "R w w" and chain: "R u v \<Longrightarrow> R v w \<Longrightarrow> R u w"
begin

definition evolves :: "('w, 'e, 'a) eff \<Rightarrow> bool" where
  "evolves m \<longleftrightarrow> (\<forall>w. R w (snd (m w)))"

lemma evolvesI: "(\<And>w r w'. m w = (r, w') \<Longrightarrow> R w w') \<Longrightarrow> evolves m"
  unfolding evolves_def by (metis prod.collapse)

lemma evolvesD: "evolves m \<Longrightarrow> m w = (r, w') \<Longrightarrow> R w w'"
  unfolding evolves_def by (metis snd_conv)

lemma plain: "evolves (eok x)" "evolves (eerr e)" "evolves (eres r)" "evolves (eread f)"
  by (simp_all add: evolves_def same eread_def)

lemma emodify: "(\<And>w. R w (f w)) \<Longrightarrow> evolves (emodify f)"
  by (simp add: evolves_def emodify_def)

lemma ebind: "evolves m \<Longrightarrow> (\<And>x. evolves (f x)) \<Longrightarrow> evolves (ebind m f)"
proof (rule evolvesI)
  fix w r w' assume m: "evolves m" and f: "\<And>x. evolves (f x)" and run: "ebind m f w = (r, w')"
  obtain s v where s: "m w = (s, v)" by force
  show "R w w'"
  proof (cases s)
    case (Inl e)
    then show ?thesis using evolvesD [OF m s] run s by (simp add: ebind_def)
  next
    case (Inr x)
    then have "f x v = (r, w')" using run s by (simp add: ebind_def)
    then show ?thesis using chain [OF evolvesD [OF m s] evolvesD [OF f]] by blast
  qed
qed

lemma etry: "evolves m \<Longrightarrow> evolves (etry m)"
  by (simp add: evolves_def etry_def split: prod.split) (metis snd_conv)

lemma emap_err: "evolves m \<Longrightarrow> evolves (emap_err g m)"
  by (simp add: evolves_def emap_err_def split: prod.split) (metis snd_conv)

lemma branches:
  "(c \<Longrightarrow> evolves m) \<Longrightarrow> (\<not> c \<Longrightarrow> evolves m') \<Longrightarrow> evolves (if c then m else m')"
  "evolves m \<Longrightarrow> (\<And>x. evolves (f x)) \<Longrightarrow> evolves (case v of None \<Rightarrow> m | Some x \<Rightarrow> f x)"
  "(\<And>x. evolves (g x)) \<Longrightarrow> (\<And>x. evolves (h x)) \<Longrightarrow> evolves (case s of Inl x \<Rightarrow> g x | Inr x \<Rightarrow> h x)"
  "(\<And>x y. evolves (p x y)) \<Longrightarrow> evolves (case q of (x, y) \<Rightarrow> p x y)"
  by (simp_all split: option.split sum.split prod.split)

lemmas steps = plain ebind etry emap_err branches

end

section \<open>What is never lost\<close>

definition append_only :: "rebate_tables \<Rightarrow> rebate_tables \<Rightarrow> bool" where
  "append_only ts ts' \<longleftrightarrow>
     (\<forall>k row. bm_get (rx_accruals ts) k = Some row \<longrightarrow> bm_get (rx_accruals ts') k = Some row) \<and>
     (\<forall>i st s. bm_get (rx_settlements ts) i = Some (st, s) \<longrightarrow>
        (\<exists>st'. bm_get (rx_settlements ts') i = Some (st', s) \<and> (st = ''executed'' \<longrightarrow> st' = ''executed''))) \<and>
     (\<forall>i row. bm_get (rx_batches ts) i = Some row \<longrightarrow>
        (\<exists>row'. bm_get (rx_batches ts') i = Some row' \<and> bw_strategy row' = bw_strategy row \<and> bw_pair row' = bw_pair row \<and>
           (\<not> bw_open row \<longrightarrow> \<not> bw_open row')))"

lemma append_only_refl [simp]: "append_only ts ts"
  by (simp add: append_only_def)

lemma append_onlyD:
  assumes "append_only ts ts'"
  shows "bm_get (rx_accruals ts) k = Some a \<Longrightarrow> bm_get (rx_accruals ts') k = Some a"
    and "bm_get (rx_settlements ts) i = Some (st, s) \<Longrightarrow>
      \<exists>st'. bm_get (rx_settlements ts') i = Some (st', s) \<and> (st = ''executed'' \<longrightarrow> st' = ''executed'')"
    and "bm_get (rx_batches ts) i = Some row \<Longrightarrow>
      \<exists>row'. bm_get (rx_batches ts') i = Some row' \<and> bw_strategy row' = bw_strategy row \<and> bw_pair row' = bw_pair row \<and>
         (\<not> bw_open row \<longrightarrow> \<not> bw_open row')"
  using assms unfolding append_only_def by blast+

lemma append_only_trans:
  assumes "append_only ts ts'" "append_only ts' ts''"
  shows "append_only ts ts''"
  unfolding append_only_def
proof (intro conjI allI impI)
  note one = append_onlyD [OF assms(1)] and two = append_onlyD [OF assms(2)]
  show "bm_get (rx_accruals ts'') k = Some row" if "bm_get (rx_accruals ts) k = Some row" for k row
    by (rule two(1) [OF one(1) [OF that]])
  fix i
  show "\<exists>st'. bm_get (rx_settlements ts'') i = Some (st', s) \<and> (st = ''executed'' \<longrightarrow> st' = ''executed'')"
    if "bm_get (rx_settlements ts) i = Some (st, s)" for st s
    using one(2) [OF that] two(2) [of i _ s] by blast
  fix row assume "bm_get (rx_batches ts) i = Some row"
  from one(3) [OF this] obtain row' where r: "bm_get (rx_batches ts') i = Some row'" "bw_strategy row' = bw_strategy row"
    "bw_pair row' = bw_pair row" "\<not> bw_open row \<longrightarrow> \<not> bw_open row'" by blast
  from two(3) [OF r(1)] r(2-4) show "\<exists>row''. bm_get (rx_batches ts'') i = Some row'' \<and> bw_strategy row'' = bw_strategy row \<and>
      bw_pair row'' = bw_pair row \<and> (\<not> bw_open row \<longrightarrow> \<not> bw_open row'')" by auto
qed

interpretation tables: evolution "\<lambda>db db'. append_only (rd_tables db) (rd_tables db')"
  by unfold_locales (auto intro: append_only_trans)

section \<open>The store\<close>

lemma tx_evolves:
  assumes "\<And>ts x ts'. f ts = Inr (x, ts') \<Longrightarrow> append_only ts ts'"
  shows "tables.evolves (rebate_tx f)"
proof (rule tables.evolvesI)
  fix db r db' assume "rebate_tx f db = (r, db')"
  then show "append_only (rd_tables db) (rd_tables db')"
    by (cases rule: rebate_tx_cases) (auto dest: assms)
qed

lemma query_evolves: "tables.evolves (rebate_query f)"
  unfolding rebate_query_def by (rule tx_evolves) (auto simp: res)

lemma insert_batch_evolves: "append_only ts (insert_batch b ts)"
  by (auto simp: append_only_def insert_batch_def bm_contains_def simp del: bm_contains_iff)

lemma accruals_evolve:
  "try_fold (persist_accrual b) ts as = Inr ts' \<Longrightarrow> append_only ts ts' \<and> rx_batches ts' = rx_batches ts"
proof (induction as arbitrary: ts)
  case (Cons a as)
  obtain ts1 where s: "persist_accrual b ts a = Inr ts1" "try_fold (persist_accrual b) ts1 as = Inr ts'"
    using Cons.prems by (auto simp: res)
  have "append_only ts ts1 \<and> rx_batches ts1 = rx_batches ts"
    using s(1) by (auto simp: persist_accrual_def append_only_def Let_def split: option.splits if_splits)
  then show ?case using Cons.IH [OF s(2)] append_only_trans by auto
qed simp

lemma rewrite_row:
  assumes "bm_get (rx_batches ts) i = Some row" "bw_strategy row' = bw_strategy row" "bw_pair row' = bw_pair row"
    "\<not> bw_open row \<Longrightarrow> \<not> bw_open row'"
  shows "append_only ts (ts\<lparr>rx_batches := bm_insert i row' (rx_batches ts)\<rparr>)"
  using assms by (auto simp: append_only_def)

lemma close_evolves: "append_only ts (close_batch cond i ts)"
  by (auto simp: close_batch_def closed_row_def intro!: rewrite_row split: option.splits)

lemma save_evolves: "tables.evolves (rebate_save b)"
  unfolding rebate_save_def
proof (rule tx_evolves)
  fix ts x ts'
  assume "(let conflict = RsConflict (sk_hash (rb_strategy b)); ts1 = insert_batch b ts in
       case open_row (rb_strategy b) ts1 of
         None \<Rightarrow> Inl conflict
       | Some (i, row) \<Rightarrow>
           if i \<noteq> rb_id b \<or> bw_pair row \<noteq> rb_pair b then Inl conflict
           else rbind (try_fold (persist_accrual b) ts1 (bm_values (rb_accruals b))) (\<lambda>ts2.
             case bm_get (rx_batches ts2) (rb_id b) of
               None \<Rightarrow> Inl conflict
             | Some row \<Rightarrow>
                 if \<not> bw_open row then Inl conflict
                 else Inr ((), ts2\<lparr>rx_batches := bm_insert (rb_id b)
                        (row\<lparr>bw_state := stored_name (rb_state b), bw_payload := Some (rb_state b)\<rparr>)
                        (rx_batches ts2)\<rparr>))) = Inr (x, ts')"
  then obtain ts2 row where t: "try_fold (persist_accrual b) (insert_batch b ts) (bm_values (rb_accruals b)) = Inr ts2"
      "bm_get (rx_batches ts2) (rb_id b) = Some row"
    and ts': "ts' = ts2\<lparr>rx_batches := bm_insert (rb_id b)
        (row\<lparr>bw_state := stored_name (rb_state b), bw_payload := Some (rb_state b)\<rparr>) (rx_batches ts2)\<rparr>"
    by (auto simp: Let_def rbind_def split: option.splits if_splits sum.splits prod.splits)
  have "append_only ts2 ts'" unfolding ts' by (rule rewrite_row [OF t(2)]) simp_all
  then show "append_only ts ts'"
    using append_only_trans insert_batch_evolves accruals_evolve [OF t(1)] by blast
qed

lemma settlement_evolves:
  assumes "\<And>st s. bm_get (rx_settlements ts) i = Some (st, s) \<Longrightarrow> s' = s \<and> (st = ''executed'' \<longrightarrow> st' = ''executed'')"
  shows "append_only ts (ts\<lparr>rx_settlements := bm_insert i (st', s') (rx_settlements ts)\<rparr>)"
  using assms by (auto simp: append_only_def)

lemma begin_evolves: "tables.evolves (begin_settlement s)"
proof -
  have "tables.evolves (insert_settlement s)"
    unfolding insert_settlement_def Let_def
    by (rule tx_evolves) (auto intro!: settlement_evolves simp: bm_get_None_iff [symmetric] split: if_splits)
  then show ?thesis unfolding begin_settlement_def by (intro tables.steps query_evolves)
qed

lemma finish_evolves: "tables.evolves (finish_settlement i)"
  unfolding finish_settlement_def
proof (rule tx_evolves)
  fix ts x ts'
  assume run: "(case bm_get (rx_settlements ts) i of
         None \<Rightarrow> Inl RsDb
       | Some (st, s) \<Rightarrow>
           if st = ''settling'' then
             Inr ((), close_batch (\<lambda>_. True) i (ts\<lparr>rx_settlements := bm_insert i (''executed'', s) (rx_settlements ts)\<rparr>))
           else if st = ''executed'' then Inr ((), close_batch (\<lambda>_. True) i ts)
           else Inl RsDb) = Inr (x, ts')"
  then obtain st s where s: "bm_get (rx_settlements ts) i = Some (st, s)" by (auto split: option.splits)
  have "append_only ts (ts\<lparr>rx_settlements := bm_insert i (''executed'', s) (rx_settlements ts)\<rparr>)"
    by (rule settlement_evolves) (use s in simp)
  then show "append_only ts ts'"
    using run s close_evolves append_only_trans by (auto split: if_splits)
qed

lemma cursor_evolves: "tables.evolves (save_scan_cursor c n)"
  unfolding save_scan_cursor_def
  by (intro tables.steps tx_evolves) (auto simp: append_only_def split: option.splits)

lemma rows_evolve: "tables.evolves (rows_into_batches abi rows)"
proof (induction abi rows rule: rows_into_batches.induct)
  case (2 abi i row rows)
  have "tables.evolves (row_into_batch abi i row)"
    unfolding row_into_batch_def by (intro tables.steps query_evolves)
  then show ?case unfolding rows_into_batches.simps by (intro tables.steps 2)
qed (simp only: rows_into_batches.simps tables.plain)

lemma port_evolves:
  "tables.evolves (ro_save (sqlite_rebate_ops abi) b)" "tables.evolves (ro_close (sqlite_rebate_ops abi) i)"
  "tables.evolves (ro_begin_settlement (sqlite_rebate_ops abi) s)" "tables.evolves (ro_finish_settlement (sqlite_rebate_ops abi) i)"
  "tables.evolves (ro_open_batches (sqlite_rebate_ops abi))" "tables.evolves (ro_pending_settlements (sqlite_rebate_ops abi))"
  "tables.evolves (ro_scan_cursor (sqlite_rebate_ops abi) c)" "tables.evolves (ro_save_scan_cursor (sqlite_rebate_ops abi) c n)"
  unfolding sqlite_rebate_ops_def rebate_ops.simps rebate_close_def rebate_open_batches_def pending_settlements_def scan_cursor_def
  by (intro save_evolves begin_evolves finish_evolves cursor_evolves rows_evolve query_evolves tables.steps tx_evolves;
      auto simp: close_evolves)+

section \<open>The service\<close>

text \<open>
  A relation on the states of the service that ignores memory, guard and ledger and that the calls of
  the rebate store respect is respected by every operation; for \<open>settle_work\<close> it must also respect
  the call that begins a settlement.
\<close>

locale rebate_moves = evolution R
  for R :: "('l, 's) rebate_world \<Rightarrow> ('l, 's) rebate_world \<Rightarrow> bool" +
  fixes env :: "('l, 's) rebate_env"
  assumes store_only: "rw_store w' = rw_store w \<Longrightarrow> R w w'"
    and save_moves: "evolves (on_rebates (ro_save (rq_store env) b))"
    and close_moves: "evolves (on_rebates (ro_close (rq_store env) i))"
    and finish_moves: "evolves (on_rebates (ro_finish_settlement (rq_store env) i))"
    and open_moves: "evolves (on_rebates (ro_open_batches (rq_store env)))"
    and pending_moves: "evolves (on_rebates (ro_pending_settlements (rq_store env)))"
begin

lemma hold_moves: "evolves (on_hold m)"
  by (rule evolvesI) (auto simp: on_hold_def emap_err_def on_part_def intro: store_only split: prod.splits)

lemma memory_moves:
  "evolves (guard_strategy k)" "evolves (unguard_strategy k)" "evolves (put_batch b)"
  "evolves (drop_batch k)" "evolves (live_batch k)" "evolves (emodify (\<lambda>w. w\<lparr>rw_batches := m\<rparr>))"
  unfolding guard_strategy_def unguard_strategy_def put_batch_def drop_batch_def live_batch_def
  by (rule emodify store_only plain, simp?)+

lemma batch_moves: "evolves (save_batch env b)"
  unfolding save_batch_def by (rule save_moves)

lemma releases: "evolves (release_if_held env r)" "evolves (post_if_held env s)"
  unfolding release_if_held_def post_if_held_def by (intro steps hold_moves)+

lemma state_branches:
  "(\<And>e. evolves (f e)) \<Longrightarrow> evolves g \<Longrightarrow> (\<And>p r. evolves (g' p r)) \<Longrightarrow> (\<And>r. evolves (g'' r)) \<Longrightarrow> evolves h \<Longrightarrow>
   evolves (case st of BsAccumulating \<Rightarrow> g | BsGuarded \<Rightarrow> h | BsPreparing p r \<Rightarrow> g' p r | BsReady e \<Rightarrow> f e
     | BsInvalidating r \<Rightarrow> g'' r)"
  by (cases st) simp_all

lemma assessment_branches:
  "(\<And>d. evolves (f d)) \<Longrightarrow> (\<And>d. evolves (g d)) \<Longrightarrow> (\<And>p. evolves (h p)) \<Longrightarrow>
   evolves (case a of AsQuoteable d \<Rightarrow> f d | AsGuarded d \<Rightarrow> g d | AsReady p \<Rightarrow> h p)"
  by (cases a) simp_all

lemmas moves = steps memory_moves batch_moves close_moves finish_moves open_moves pending_moves releases hold_moves
  state_branches assessment_branches

lemma finish_interrupted: "evolves (finish_interrupted_transition env b)"
  unfolding finish_interrupted_transition_def Let_def by (intro moves)

lemma accrue_logs: "evolves (accrue env a)"
proof -
  have commit: "evolves (commit_accrual env b c)" for b c
    unfolding commit_accrual_def by (intro moves)
  have "evolves (accrue_new env a)" unfolding accrue_new_def Let_def by (intro moves)
  moreover have "evolves (accrue_live env a b)" for b
    unfolding accrue_live_def Let_def by (intro moves finish_interrupted commit)
  ultimately show ?thesis unfolding accrue_def by (intro moves)
qed

lemma prepare_logs: "evolves (prepare_work env now input b plan)"
proof -
  have publish: "evolves (publish_work env input b plan)" for b
    unfolding publish_work_def Let_def by (intro moves)
  have short: "evolves (ebind (put_batch b) (\<lambda>_. ebind (save_batch env b) (\<lambda>_. eok x)))" for b x by (intro moves)
  show ?thesis
    unfolding prepare_work_def Let_def
    by (intro ebind etry moves)
      (auto intro: publish short plain split: sum.split rebate_flow_error.split solvent_error.split ledger_error.split)
qed

lemma evaluate_logs: "evolves (evaluate env md now input)"
proof -
  have "evolves (apply_assessment env now input b assessment)" for b assessment
    unfolding apply_assessment_def Let_def by (intro moves prepare_logs)
  then show ?thesis unfolding evaluate_def Let_def by (intro moves finish_interrupted)
qed

lemma closing_logs: "evolves (discard env k)" "evolves (expire_ready env k block)"
  unfolding discard_def expire_ready_def Let_def by (intro moves)+

lemma settle_logs:
  assumes "\<And>x. rt_event x = event \<Longrightarrow> evolves (on_rebates (ro_begin_settlement (rq_store env) x))"
  shows "evolves (settle_work env event t)"
  unfolding settle_work_def Let_def by (intro moves assms) simp

lemma recover_logs: "evolves (rebate_recover env)"
proof -
  have settle: "evolves (finish_settlements env ss)" for ss
  proof (induction ss)
    case Nil
    show ?case unfolding finish_settlements.simps by (intro moves)
  next
    case (Cons s ss)
    show ?case unfolding finish_settlements.simps by (intro moves Cons)
  qed
  have batch: "evolves (recover_batch env b)" for b
    unfolding recover_batch_def Let_def by (intro moves)
  have "evolves (recover_batches env bs rec)" for bs rec
  proof (induction bs arbitrary: rec)
    case Nil
    show ?case unfolding recover_batches.simps by (intro moves)
  next
    case (Cons b bs)
    show ?case unfolding recover_batches.simps by (intro moves batch Cons)
  qed
  then show ?thesis unfolding rebate_recover_def by (intro moves settle)
qed

end

lemma on_rebates_step: "on_rebates m w = (r, w') \<Longrightarrow> \<exists>r'. m (rw_store w) = (r', rw_store w')"
  by (auto simp: on_rebates_def emap_err_def on_part_def split: prod.splits)

interpretation node: evolution
  "\<lambda>w w' :: ('l, rebate_db) rebate_world. append_only (rd_tables (rw_store w)) (rd_tables (rw_store w'))"
  by unfold_locales (auto intro: append_only_trans)

lemma on_rebates_log: "tables.evolves m \<Longrightarrow> node.evolves (on_rebates m)"
  by (rule node.evolvesI) (auto dest!: on_rebates_step dest: tables.evolvesD)

lemmas port_logs = on_rebates_log [OF port_evolves(1)] on_rebates_log [OF port_evolves(2)] on_rebates_log [OF port_evolves(3)]
  on_rebates_log [OF port_evolves(4)] on_rebates_log [OF port_evolves(5)] on_rebates_log [OF port_evolves(6)]

sublocale rebate_deployment \<subseteq> log: rebate_moves
  "\<lambda>w w'. append_only (rd_tables (rw_store w)) (rd_tables (rw_store w'))" env
proof -
  have store: "rq_store env = sqlite_rebate_ops abi" using deployed by (simp add: deployed_def)
  show "rebate_moves (\<lambda>w w'. append_only (rd_tables (rw_store w)) (rd_tables (rw_store w'))) env"
    by unfold_locales (simp_all add: store port_logs)
qed

context rebate_deployment
begin

lemmas accrue_logs = log.evolvesD [OF log.accrue_logs]
lemmas evaluate_logs = log.evolvesD [OF log.evaluate_logs]
lemmas discard_logs = log.evolvesD [OF log.closing_logs(1)]
lemmas expire_logs = log.evolvesD [OF log.closing_logs(2)]

lemmas recover_logs = log.evolvesD [OF log.recover_logs]

lemma settle_logs:
  "settle_work env event t w = (r, w') \<Longrightarrow> append_only (rd_tables (rw_store w)) (rd_tables (rw_store w'))"
  using deployed by (intro log.evolvesD [OF log.settle_logs]) (simp_all add: deployed_def port_logs)

end

text \<open>
  C6. The record that attributes rebates to trades is append-only. Whatever the service does next, with
  any faults: an accrual row keeps its batch, amounts and weight, a settlement keeps its plan,
  reservation, event and time and an executed one stays executed, and a batch keeps its strategy and
  pair and is never reopened once closed.
\<close>

theorem rebate_record_is_append_only:
  assumes "deployed abi credential authorize env" "rebate_step env up w up' w'"
  shows "append_only (rd_tables (rw_store w)) (rd_tables (rw_store w'))"
proof -
  note dep = rebate_deployment.intro [OF assms(1)]
  have store: "rq_store env = sqlite_rebate_ops abi" using assms(1) by (simp add: deployed_def)
  show ?thesis
    using assms(2)
  proof (cases rule: rebate_step.cases)
    case (rb_cursor chain n kept db)
    then show ?thesis using tables.evolvesD [OF port_evolves(8)] by (auto simp: store)
  next
    case (rb_restart sv res')
    then show ?thesis using rebate_deployment.recover_logs [OF dep] by (fastforce simp: booted_def)
  qed (auto dest: rebate_deployment.accrue_logs [OF dep] rebate_deployment.evaluate_logs [OF dep]
      rebate_deployment.discard_logs [OF dep] rebate_deployment.settle_logs [OF dep] rebate_deployment.expire_logs [OF dep])
qed

end
