(* ===== verification/Rebate_Worker.thy ===== *)
theory Rebate_Worker
  imports Rebate_Service
begin

text \<open>
  The rebate worker (core/src/rebate/worker.rs) and its accrual source
  (adapters/src/rebate/trade_source.rs): a tick settles the mined executions up to the safe head, takes
  in the confirmed trade legs that are not accrued yet, and then expires or evaluates each open batch.

  The chain source, the registry's cursor and snapshot, the market data and the clock are arguments. The
  code reads the clock several times in a tick; here one tick has one reading (\<open>wk_now\<close>).
  The accrual source reads the trade tables, which a tick does not change, and the rebate tables of the
  same database. The intake loop has no bound in the code; it takes fuel here, and \<open>None\<close> says that the
  fuel did not suffice (Rebate_Scan shows how much always does).
\<close>

section \<open>The accrual source\<close>

definition leg_strategy_key :: "address \<Rightarrow> trade_leg \<Rightarrow> strategy_key" where
  "leg_strategy_key app leg = StrategyKey (tl_maker leg) app (tl_strategy_hash leg)"

record pending_row =
  pn_trade_id :: trade_id
  pn_token_in :: address
  pn_token_out :: address
  pn_block_number :: u64
  pn_leg :: trade_leg

definition into_domain :: "address \<Rightarrow> pending_row \<Rightarrow> rebate_accrual" where
  "into_domain app row =
     (let pair = token_pair_new (pn_token_in row) (pn_token_out row);
          leg = pn_leg row;
          allocation_weight = (if pn_token_in row = tp_lo pair then tl_amount_in leg else tl_amount_out leg) in
      \<lparr>ra_trade_id = pn_trade_id row, ra_strategy = leg_strategy_key app leg, ra_token_in = pn_token_in row,
       ra_token_out = pn_token_out row, ra_amount_in = tl_amount_in leg, ra_amount_out = tl_amount_out leg,
       ra_confirmed_block = pn_block_number row, ra_weight = allocation_weight\<rparr>)"

text \<open>The join of the query: the legs of confirmed trades with a block, in the order of trade and index.\<close>

definition confirmed_row :: "trade_tables \<Rightarrow> (trade_id \<times> nat) \<times> trade_leg \<Rightarrow> pending_row option" where
  "confirmed_row tt entry =
     (case entry of ((t, _), leg) \<Rightarrow>
        (case bm_get (tt_trades tt) t of
           None \<Rightarrow> None
         | Some row \<Rightarrow>
             if tw_status row = ''confirmed'' then
               (case tw_block_number row of
                  None \<Rightarrow> None
                | Some n \<Rightarrow> Some \<lparr>pn_trade_id = t, pn_token_in = tw_token_in row, pn_token_out = tw_token_out row,
                                  pn_block_number = n, pn_leg = leg\<rparr>)
             else None))"

definition accrual_missing :: "address \<Rightarrow> rebate_tables \<Rightarrow> pending_row \<Rightarrow> bool" where
  "accrual_missing app ts row =
     (bm_get (rx_accruals ts) (leg_strategy_key app (pn_leg row), pn_trade_id row) = None \<and>
      \<not> (\<exists>(i, b) \<in> set (rx_batches ts). bw_strategy b = leg_strategy_key app (pn_leg row) \<and> bw_open b \<and> bw_state b = ''ready''))"

definition pending_rows :: "address \<Rightarrow> trade_tables \<Rightarrow> rebate_tables \<Rightarrow> pending_row list" where
  "pending_rows app tt ts =
     filter (accrual_missing app ts) (List.map_filter (confirmed_row tt) (sort_key fst (tt_legs tt)))"

definition on_source :: "('s, rebate_store_error, 'a) eff \<Rightarrow> ('l, 's, 'a) rebate_call" where
  "on_source m = emap_err (\<lambda>_. RfSource) (on_part rw_store (\<lambda>v w. w\<lparr>rw_store := v\<rparr>) m)"

definition source_pending ::
  "address \<Rightarrow> trade_tables \<Rightarrow> nat \<Rightarrow> ('l, rebate_db, rebate_accrual list) rebate_call" where
  "source_pending app tt limit =
     on_source (rebate_query (\<lambda>ts. Inr (map (into_domain app) (take limit (pending_rows app tt ts)))))"

definition source_has_unsettled ::
  "trade_tables \<Rightarrow> strategy_key \<Rightarrow> ('l, rebate_db, bool) rebate_call" where
  "source_has_unsettled tt key =
     on_source (rebate_query (\<lambda>_. Inr (list_ex (\<lambda>((t, _), leg).
        tl_maker leg = sk_maker key \<and> tl_strategy_hash leg = sk_hash key \<and>
        (case bm_get (tt_trades tt) t of
           None \<Rightarrow> False
         | Some row \<Rightarrow> tw_settled_at row = None \<and> tw_status row \<in> {''reserved'', ''simulated'', ''submitted''}))
        (tt_legs tt))))"

section \<open>The worker\<close>

definition INTAKE_BATCH_LIMIT :: nat where "INTAKE_BATCH_LIMIT = 256"

record worker_config =
  wc_chain :: chain_id
  wc_start_block :: u64
  wc_authorization_ttl_blocks :: u64
  wc_reservation_ttl_secs :: u64

record worker_report =
  wr_accrued :: nat
  wr_evaluated :: nat
  wr_settled :: nat
  wr_expired :: nat

definition report_default :: worker_report where
  "report_default = \<lparr>wr_accrued = 0, wr_evaluated = 0, wr_settled = 0, wr_expired = 0\<rparr>"

record ('l, 's) rebate_worker =
  wk_env :: "('l, 's) rebate_env"
  wk_config :: worker_config
  wk_pending :: "nat \<Rightarrow> ('l, 's, rebate_accrual list) rebate_call"
  wk_has_unsettled :: "strategy_key \<Rightarrow> ('l, 's, bool) rebate_call"
  wk_fetch :: "u64 \<Rightarrow> u64 \<Rightarrow> rebate_flow_error + rebate_event list"
  wk_registry_cursor :: "rebate_flow_error + u64 option"
  wk_registry :: snapshot
  wk_market :: market_data
  wk_now :: u64

datatype batch_outcome = Unchanged | Evaluated | Expired

definition worker_minimums :: "token_pair \<Rightarrow> rebate_minimums list" where
  "worker_minimums pair =
     [\<lparr>rn_token = tp_lo pair, rn_minimum_maker_rebate = 1, rn_minimum_executor_profit = 1\<rparr>,
      \<lparr>rn_token = tp_hi pair, rn_minimum_maker_rebate = 1, rn_minimum_executor_profit = 1\<rparr>]"

definition worker_input :: "('l, 's) rebate_worker \<Rightarrow> rebate_batch \<Rightarrow> u64 \<Rightarrow> available_caps \<Rightarrow> maker_strategy \<Rightarrow> evaluation_input" where
  "worker_input wk b current_head caps strategy =
     (let deadline_block = sat_add64 current_head (wc_authorization_ttl_blocks (wk_config wk)) in
      \<lparr>ev_strategy = strategy, ev_caps = caps, ev_minimums = worker_minimums (rb_pair b),
       ev_reservation_id = rebate_reservation_id (rq_keccak (wk_env wk)) (rb_id b) deadline_block,
       ev_reservation_ttl_secs = wc_reservation_ttl_secs (wk_config wk), ev_deadline_block = deadline_block,
       ev_published_at = wk_now wk\<rparr>)"

definition process_batch ::
  "('l, 's) rebate_worker \<Rightarrow> u64 \<Rightarrow> u64 \<Rightarrow> available_caps \<Rightarrow> rebate_batch \<Rightarrow> ('l, 's, batch_outcome) rebate_call" where
  "process_batch wk safe_head current_head caps b =
     (if (case rb_state b of BsReady _ \<Rightarrow> True | _ \<Rightarrow> False) then
        ebind (expire_ready (wk_env wk) (rb_strategy b) safe_head) (\<lambda>expired.
          eok (if expired then Expired else Unchanged))
      else if list_ex (\<lambda>a. safe_head < ra_confirmed_block a) (bm_values (rb_accruals b)) then eok Unchanged
      else ebind (wk_has_unsettled wk (rb_strategy b)) (\<lambda>unsettled.
        if unsettled then eok Unchanged
        else case sn_strategy (wk_registry wk) (rb_strategy b) of
          None \<Rightarrow> eok Unchanged
        | Some strategy \<Rightarrow>
            if \<not> ms_active strategy then
              ebind (discard (wk_env wk) (rb_strategy b)) (\<lambda>_. eok Unchanged)
            else
              ebind (evaluate (wk_env wk) (wk_market wk) (wk_now wk) (worker_input wk b current_head caps strategy)) (\<lambda>_.
                eok Evaluated)))"

fun settle_events :: "('l, 's) rebate_worker \<Rightarrow> rebate_event list \<Rightarrow> nat \<Rightarrow> ('l, 's, nat) rebate_call" where
  "settle_events wk [] settled = eok settled"
| "settle_events wk (event # events) settled =
     ebind (settle_work (wk_env wk) event (wk_now wk)) (\<lambda>done_now.
       settle_events wk events (settled + (if done_now then 1 else 0)))"

definition reconcile_executions :: "('l, 's) rebate_worker \<Rightarrow> u64 \<Rightarrow> ('l, 's, nat) rebate_call" where
  "reconcile_executions wk safe_head =
     ebind (on_rebates (ro_scan_cursor (rq_store (wk_env wk)) (wc_chain (wk_config wk)))) (\<lambda>cursor.
       let from_block = (case cursor of None \<Rightarrow> wc_start_block (wk_config wk) | Some block \<Rightarrow> sat_add64 block 1) in
       if safe_head < from_block then eok 0
       else ebind (eres (wk_fetch wk from_block safe_head)) (\<lambda>events.
         ebind (settle_events wk events 0) (\<lambda>settled.
         ebind (on_rebates (ro_save_scan_cursor (rq_store (wk_env wk)) (wc_chain (wk_config wk)) safe_head)) (\<lambda>_.
           eok settled))))"

fun accrue_all :: "('l, 's) rebate_worker \<Rightarrow> rebate_accrual list \<Rightarrow> ('l, 's, unit) rebate_call" where
  "accrue_all wk [] = eok ()"
| "accrue_all wk (a # as) = ebind (accrue (wk_env wk) a) (\<lambda>_. accrue_all wk as)"

fun intake :: "nat \<Rightarrow> ('l, 's) rebate_worker \<Rightarrow> nat \<Rightarrow> ('l, 's, nat option) rebate_call" where
  "intake 0 wk accrued = eok None"
| "intake (Suc fuel) wk accrued =
     ebind (wk_pending wk INTAKE_BATCH_LIMIT) (\<lambda>as.
     ebind (accrue_all wk as) (\<lambda>_.
       if length as < INTAKE_BATCH_LIMIT then eok (Some (accrued + length as))
       else intake fuel wk (accrued + length as)))"

text \<open>One failing batch does not stop the others; the first error is reported after the pass.\<close>

fun process_batches ::
  "('l, 's) rebate_worker \<Rightarrow> u64 \<Rightarrow> u64 \<Rightarrow> available_caps \<Rightarrow> rebate_batch list \<Rightarrow> worker_report \<Rightarrow>
   rebate_flow_error option \<Rightarrow> ('l, 's, worker_report \<times> rebate_flow_error option) rebate_call" where
  "process_batches wk safe_head current_head caps [] report first_error = eok (report, first_error)"
| "process_batches wk safe_head current_head caps (b # bs) report first_error =
     ebind (etry (process_batch wk safe_head current_head caps b)) (\<lambda>outcome.
       case outcome of
         Inr Unchanged \<Rightarrow> process_batches wk safe_head current_head caps bs report first_error
       | Inr Evaluated \<Rightarrow> process_batches wk safe_head current_head caps bs (report\<lparr>wr_evaluated := wr_evaluated report + 1\<rparr>) first_error
       | Inr Expired \<Rightarrow> process_batches wk safe_head current_head caps bs (report\<lparr>wr_expired := wr_expired report + 1\<rparr>) first_error
       | Inl e \<Rightarrow> process_batches wk safe_head current_head caps bs report
                    (case first_error of None \<Rightarrow> Some e | Some _ \<Rightarrow> first_error))"

definition rebate_tick ::
  "nat \<Rightarrow> ('l, 's) rebate_worker \<Rightarrow> u64 \<Rightarrow> ('l, 's, worker_report option) rebate_call" where
  "rebate_tick fuel wk current_head =
     ebind (eres (wk_registry_cursor wk)) (\<lambda>registry_cursor.
       case registry_cursor of
         None \<Rightarrow> eok (Some report_default)
       | Some block_number \<Rightarrow>
           let safe_head = min current_head block_number in
           ebind (reconcile_executions wk safe_head) (\<lambda>settled.
           ebind (intake fuel wk 0) (\<lambda>taken.
             case taken of
               None \<Rightarrow> eok None
             | Some accrued \<Rightarrow>
                 ebind (eread (\<lambda>w. (open_batches w, sv_available (rw_ledger w)))) (\<lambda>(bs, caps).
                 ebind (process_batches wk safe_head current_head caps bs
                          (report_default\<lparr>wr_settled := settled, wr_accrued := accrued\<rparr>) None) (\<lambda>(report, first_error).
                   case first_error of
                     Some e \<Rightarrow> eerr e
                   | None \<Rightarrow> eok (Some report))))))"

end
