(* ===== verification/Rebate_Scan.thy ===== *)
theory Rebate_Scan
  imports Rebate_Log Rebate_Worker
begin

text \<open>
  The rebate worker on the deployed service: the intake loop ends, and the scan of mined executions
  settles everything it has begun before ready work may expire.
\<close>

section \<open>Intake\<close>

lemma try_Inr:
  "ebind (etry m) (\<lambda>s. case s of Inl e \<Rightarrow> f e | Inr x \<Rightarrow> g x) w = (Inr y, w') \<longleftrightarrow>
   (\<exists>e v. m w = (Inl e, v) \<and> f e v = (Inr y, w')) \<or> (\<exists>x v. m w = (Inr x, v) \<and> g x v = (Inr y, w'))"
  by (cases "m w"; cases "fst (m w)") (auto simp: ebind_def etry_def)

abbreviation rows_of :: "('l, rebate_db) rebate_world \<Rightarrow> (strategy_key \<times> trade_id, rebate_batch_id \<times> rebate_accrual) bmap" where
  "rows_of w \<equiv> rx_accruals (rd_tables (rw_store w))"

definition recorded :: "rebate_accrual \<Rightarrow> ('l, rebate_db) rebate_world \<Rightarrow> bool" where
  "recorded a w \<longleftrightarrow> (\<exists>i. bm_get (rows_of w) (ra_strategy a, ra_trade_id a) = Some (i, a))"

lemma persist_records:
  "try_fold (persist_accrual b) ts as = Inr ts' \<Longrightarrow> a \<in> set as \<Longrightarrow>
   bm_get (rx_accruals ts') (rb_strategy b, ra_trade_id a) = Some (rb_id b, a)"
proof (induction as arbitrary: ts)
  case (Cons x as)
  obtain ts1 where s: "persist_accrual b ts x = Inr ts1" "try_fold (persist_accrual b) ts1 as = Inr ts'"
    using Cons.prems by (auto simp: res)
  have "bm_get (rx_accruals ts1) (rb_strategy b, ra_trade_id x) = Some (rb_id b, x)"
    using s(1) by (auto simp: persist_accrual_def Let_def split: option.splits if_splits)
  then have "bm_get (rx_accruals ts') (rb_strategy b, ra_trade_id x) = Some (rb_id b, x)"
    using accruals_evolve [OF s(2)] append_onlyD(1) by blast
  then show ?case using Cons.IH [OF s(2)] Cons.prems(2) by auto
qed simp

lemma save_records:
  assumes "rebate_save b db = (Inr u, db')" "a \<in> set (bm_values (rb_accruals b))"
  shows "bm_get (rx_accruals (rd_tables db')) (rb_strategy b, ra_trade_id a) = Some (rb_id b, a)"
proof -
  obtain ts1 ts2 where f: "try_fold (persist_accrual b) ts1 (bm_values (rb_accruals b)) = Inr ts2"
    "rx_accruals (rd_tables db') = rx_accruals ts2"
    using assms(1) unfolding rebate_save_def
    by (auto elim!: rebate_tx_cases simp: Let_def rbind_def eq_commute [of _ "rd_tables db'"]
        split: option.splits if_splits sum.splits prod.splits)
  show ?thesis unfolding f(2) by (rule persist_records [OF f(1) assms(2)])
qed

context rebate_deployment
begin

lemma store: "rq_store env = sqlite_rebate_ops abi"
  using deployed by (simp add: deployed_def)

lemma batch_records:
  assumes "save_batch env b w = (Inr u, w')" "(t, a) \<in> set (rb_accruals b)" "ra_strategy a = rb_strategy b"
  shows "recorded a w'"
proof -
  have "\<exists>u. rebate_save b (rw_store w) = (Inr u, rw_store w')"
    using assms(1) by (auto simp: save_batch_def store sqlite_rebate_ops_def on_rebates_def emap_err_def on_part_def map_sum_def
        split: prod.splits sum.splits)
  moreover have "a \<in> set (bm_values (rb_accruals b))" using assms(2) by (force simp: bm_values_def)
  ultimately show ?thesis using save_records assms(3) unfolding recorded_def by fastforce
qed

lemma commit_records:
  assumes "commit_accrual env b c w = (Inr i, w')" "(t, a) \<in> set (rb_accruals b)" "ra_strategy a = rb_strategy b"
  shows "recorded a w'"
proof -
  have "ebind (etry (save_batch env b)) (\<lambda>saved. case saved of
      Inl e \<Rightarrow> ebind (if c then unguard_strategy (rb_strategy b) else eok ()) (\<lambda>_. eerr e)
    | Inr _ \<Rightarrow> ebind (put_batch b) (\<lambda>_. eok (rb_id b))) w = (Inr i, w')"
    using assms(1) by (simp only: commit_accrual_def)
  then obtain v where "save_batch env b w = (Inr (), v)" "rw_store w' = rw_store v"
    unfolding try_Inr by (auto simp: ebind_Inr put_batch_def emodify_def)
  then show ?thesis using batch_records [OF _ assms(2,3)] by (simp add: recorded_def)
qed

lemma recorded_stays: "recorded a w \<Longrightarrow> append_only (rd_tables (rw_store w)) (rd_tables (rw_store w')) \<Longrightarrow> recorded a w'"
  unfolding recorded_def using append_onlyD(1) by blast

text \<open>An accrual the service accepts is on record.\<close>

lemma live_recorded:
  assumes "desk.desk_inv w" "memory w k = Some b" "bm_get (rb_accruals b) t = Some a"
  shows "recorded a w"
proof -
  have inv: "rebate_inv (memory w) (db_opened (rw_store w)) (db_settling (rw_store w)) (held w) (guarded_keys w)"
    and wf: "tables_wf abi (rd_tables (rw_store w))"
    using assms(1) by (simp_all add: desk.desk_inv_def desk.stores_ok_def db_wf_def)
  obtain d where d: "db_opened (rw_store w) k = Some d" "rb_accruals b = rb_accruals d"
    by (rule memory_slot [OF inv assms(2)]) (rule that)
  obtain i row where o: "bm_get (rx_batches (rd_tables (rw_store w))) i = Some row" "d = row_batch (rd_tables (rw_store w)) (i, row)"
    using d(1) open_row_iff [OF tables_wfD(1) [OF wf]] by (force simp: db_opened_def table_opened_def)
  have "bm_get (rows_of w) (bw_strategy row, t) = Some (i, a)"
    using assms(3) d(2) accruals_of_get [OF tables_wfD(2) [OF wf] o(1)] by (simp add: o(2) row_batch_def)
  then show ?thesis using accrual_rowD(1,2) [OF tables_wfD(2) [OF wf]] unfolding recorded_def by metis
qed

lemma grown_member: "(ra_trade_id a, a) \<in> set (bm_insert (ra_trade_id a) a m)"
  by (metis bm_get_insert bm_get_set)

lemma accrue_records:
  assumes ok: "desk.desk_inv w" and run: "accrue env a w = (Inr i, w')"
  shows "recorded a w'"
proof (cases "memory w (ra_strategy a)")
  case None
  then have new: "accrue_new env a w = (Inr i, w')" using run by (auto simp: accrue_def ebind_Inr live_batch_def eread_def)
  define b where "b = (rebate_batch_new (batch_id (rq_keccak env) a) (token_pair_new (ra_token_in a) (ra_token_out a)) a)\<lparr>rb_state := BsGuarded\<rparr>"
  have b: "rb_accruals b = bm_insert (ra_trade_id a) a []" "rb_strategy b = ra_strategy a"
    by (simp_all add: b_def rebate_batch_new_def)
  obtain v where save: "ebind (etry (save_batch env b)) (\<lambda>saved. case saved of
      Inl e \<Rightarrow> ebind (unguard_strategy (ra_strategy a)) (\<lambda>_. eerr e)
    | Inr _ \<Rightarrow> ebind (put_batch b) (\<lambda>_. eok (batch_id (rq_keccak env) a))) v = (Inr i, w')"
    using new unfolding accrue_new_def Let_def ebind_Inr [of "guard_strategy _"] b_def by blast
  obtain v' where "save_batch env b v = (Inr (), v')" "rw_store w' = rw_store v'"
    using save unfolding try_Inr by (auto simp: ebind_Inr put_batch_def emodify_def)
  then have "recorded a v'" using batch_records [where t = "ra_trade_id a"] b by auto
  then show ?thesis using \<open>rw_store w' = rw_store v'\<close> by (simp add: recorded_def)
next
  case (Some b)
  then have live: "accrue_live env a b w = (Inr i, w')" using run by (auto simp: accrue_def ebind_Inr live_batch_def eread_def)
  show ?thesis
  proof (cases "bm_get (rb_accruals b) (ra_trade_id a)")
    case None
    have "rebate_inv (memory w) (db_opened (rw_store w)) (db_settling (rw_store w)) (held w) (guarded_keys w)"
      using ok by (simp add: desk.desk_inv_def)
    then have k: "rb_strategy b = ra_strategy a" using memory_slot Some by metis
    let ?b = "b\<lparr>rb_accruals := bm_insert (ra_trade_id a) a (rb_accruals b), rb_state := BsGuarded\<rparr>"
    obtain v c where "commit_accrual env ?b c v = (Inr i, w')"
      using live None by (auto simp: accrue_live_def Let_def ebind_Inr split: if_splits option.splits)
    then show ?thesis by (rule commit_records) (use k grown_member in auto)
  next
    case (Some x)
    then have x: "x = a" and run': "\<exists>b'. finish_interrupted_transition env b w = (Inr b', w')"
      using live by (auto simp: accrue_live_def ebind_Inr split: if_splits)
    have "recorded a w" using live_recorded [OF ok \<open>memory w (ra_strategy a) = Some b\<close> Some] x by simp
    then show ?thesis using run' recorded_stays log.evolvesD [OF log.finish_interrupted] by blast
  qed
qed

lemma accrue_keeps_node: "node_ok True w \<Longrightarrow> accrue env a w = (r, w') \<Longrightarrow> node_ok True w'"
  by (rule step_keeps [OF rb_accrue])

lemma accrue_all_records:
  "wk_env wk = env \<Longrightarrow> node_ok True w \<Longrightarrow> accrue_all wk as w = (Inr u, w') \<Longrightarrow>
   node_ok True w' \<and> append_only (rd_tables (rw_store w)) (rd_tables (rw_store w')) \<and> (\<forall>a \<in> set as. recorded a w')"
proof (induction as arbitrary: w)
  case (Cons a as)
  obtain i v where v: "accrue env a w = (Inr i, v)" "accrue_all wk as v = (Inr u, w')"
    using Cons.prems(1,3) by (auto simp: ebind_Inr)
  have ok: "node_ok True v" by (rule accrue_keeps_node [OF Cons.prems(2) v(1)])
  have "desk.desk_inv w" using Cons.prems(2) by (simp add: node_ok_def)
  note a = accrue_records [OF this v(1)]
  note rest = Cons.IH [OF Cons.prems(1) ok v(2)]
  show ?case using rest a recorded_stays append_only_trans [OF accrue_logs [OF v(1)]] by auto
qed simp

end

text \<open>The trades that still wait for their accrual.\<close>

definition waiting :: "address \<Rightarrow> trade_tables \<Rightarrow> rebate_tables \<Rightarrow> (strategy_key \<times> trade_id) set" where
  "waiting app tt ts =
     {(leg_strategy_key app (pn_leg row), pn_trade_id row) | row. row \<in> set (List.map_filter (confirmed_row tt) (tt_legs tt)) \<and>
        bm_get (rx_accruals ts) (leg_strategy_key app (pn_leg row), pn_trade_id row) = None}"

lemma set_map_filter: "set (List.map_filter f xs) = {y. \<exists>x \<in> set xs. f x = Some y}"
  by (force simp: List.map_filter_def)

lemma waiting_bound: "finite (waiting app tt ts)" "card (waiting app tt ts) \<le> length (tt_legs tt)"
proof -
  let ?rows = "List.map_filter (confirmed_row tt) (tt_legs tt)"
  have sub: "waiting app tt ts \<subseteq> (\<lambda>row. (leg_strategy_key app (pn_leg row), pn_trade_id row)) ` set ?rows"
    by (auto simp: waiting_def)
  then show "finite (waiting app tt ts)" by (rule finite_subset) simp
  have "card (waiting app tt ts) \<le> card ((\<lambda>row. (leg_strategy_key app (pn_leg row), pn_trade_id row)) ` set ?rows)"
    by (rule card_mono [OF _ sub]) simp
  also have "\<dots> \<le> length ?rows" by (metis card_image_le card_length finite_set le_trans)
  also have "\<dots> \<le> length (tt_legs tt)" by (simp add: List.map_filter_def)
  finally show "card (waiting app tt ts) \<le> length (tt_legs tt)" .
qed

lemma waiting_shrinks:
  assumes log: "append_only ts ts'" and row: "row \<in> set (pending_rows app tt ts)"
    and rec: "bm_get (rx_accruals ts') (leg_strategy_key app (pn_leg row), pn_trade_id row) \<noteq> None"
  shows "card (waiting app tt ts') < card (waiting app tt ts)"
proof (rule psubset_card_mono [OF waiting_bound(1)])
  have "waiting app tt ts' \<subseteq> waiting app tt ts"
  proof
    fix x assume "x \<in> waiting app tt ts'"
    then obtain r where r: "x = (leg_strategy_key app (pn_leg r), pn_trade_id r)"
      "r \<in> set (List.map_filter (confirmed_row tt) (tt_legs tt))" "bm_get (rx_accruals ts') x = None"
      unfolding waiting_def by blast
    have "bm_get (rx_accruals ts) x = None"
      using append_onlyD(1) [OF log, of x] r(3) by (cases "bm_get (rx_accruals ts) x") auto
    then show "x \<in> waiting app tt ts" using r unfolding waiting_def by blast
  qed
  moreover have "(leg_strategy_key app (pn_leg row), pn_trade_id row) \<in> waiting app tt ts - waiting app tt ts'"
    using row rec by (auto simp: waiting_def pending_rows_def accrual_missing_def set_map_filter)
  ultimately show "waiting app tt ts' \<subset> waiting app tt ts" by blast
qed

lemma source_run:
  assumes "on_source (rebate_query f) w = (r, w')"
  shows "rd_tables (rw_store w') = rd_tables (rw_store w)" "rw_batches w' = rw_batches w" "rw_ledger w' = rw_ledger w"
    "rw_guard w' = rw_guard w" "r = Inr x \<Longrightarrow> f (rd_tables (rw_store w)) = Inr x"
proof -
  obtain q db where q: "rebate_query f (rw_store w) = (q, db)" by force
  have w': "r = map_sum (\<lambda>_. RfSource) id q" "w' = w\<lparr>rw_store := db\<rparr>"
    using assms q by (simp_all add: on_source_def emap_err_def on_part_def)
  show "rd_tables (rw_store w') = rd_tables (rw_store w)" using rebate_query_cases(1) [OF q] w' by simp
  show "rw_batches w' = rw_batches w" "rw_ledger w' = rw_ledger w" "rw_guard w' = rw_guard w" using w' by simp_all
  show "r = Inr x \<Longrightarrow> f (rd_tables (rw_store w)) = Inr x" using rebate_query_cases(2) [OF q] w'(1) by (cases q) auto
qed

context rebate_deployment
begin

lemma source_keeps:
  assumes "node_ok True w" "on_source (rebate_query f) w = (r, w')"
  shows "node_ok True w'"
proof (rule upI, rule desk_change')
  note run = source_run [OF assms(2)]
  have inv: "desk.desk_inv w" using assms(1) by (simp add: node_ok_def)
  then show "desk.desk_inv w" .
  show "db_opened (rw_store w') = db_opened (rw_store w)" "db_settling (rw_store w') = db_settling (rw_store w)"
    "spares (db_opened (rw_store w)) (held w) (held w')" "rw_batches w' = rw_batches w" "rw_guard w' = rw_guard w"
    using run by (simp_all add: db_views spares_def)
  show "db_wf abi (rw_store w')"
    "consistent sqlite_rows sqlite_wf (sv_ledger (rw_ledger w')) (sv_store (rw_ledger w'))"
    using inv run by (simp_all add: desk.desk_inv_def desk.stores_ok_def db_wf_def)
qed

lemma intake_ends:
  assumes wk: "wk_env wk = env" "wk_pending wk = source_pending app tt"
  shows "node_ok True w \<Longrightarrow> intake fuel wk n w = (r, w') \<Longrightarrow> card (waiting app tt (rd_tables (rw_store w))) < fuel \<Longrightarrow> r \<noteq> Inr None"
proof (induction fuel arbitrary: n w)
  case (Suc fuel)
  show ?case
  proof
    assume "r = Inr None"
    then obtain as v u v' where v: "source_pending app tt INTAKE_BATCH_LIMIT w = (Inr as, v)" "accrue_all wk as v = (Inr u, v')"
      and rest: "(if length as < INTAKE_BATCH_LIMIT then eok (Some (n + length as)) else intake fuel wk (n + length as)) v' = (Inr None, w')"
      using Suc.prems(2) wk(2) by (auto simp: ebind_Inr)
    note run = source_run [OF v(1) [unfolded source_pending_def]]
    let ?ts = "rd_tables (rw_store w)" and ?ts' = "rd_tables (rw_store v')"
    have rows: "as = map (into_domain app) (take INTAKE_BATCH_LIMIT (pending_rows app tt ?ts))" using run(5) by auto
    have ok: "node_ok True v" by (rule source_keeps [OF Suc.prems(1) v(1) [unfolded source_pending_def]])
    note acc = accrue_all_records [OF wk(1) ok v(2)]
    have long: "\<not> length as < INTAKE_BATCH_LIMIT" using rest by (auto split: if_splits)
    then have "length as \<noteq> 0" by (auto simp: INTAKE_BATCH_LIMIT_def)
    then obtain row rs where row: "pending_rows app tt ?ts = row # rs" "into_domain app row \<in> set as"
      by (cases "pending_rows app tt ?ts") (auto simp: rows INTAKE_BATCH_LIMIT_def)
    then have "recorded (into_domain app row) v'" using acc by blast
    then have "bm_get (rx_accruals ?ts') (leg_strategy_key app (pn_leg row), pn_trade_id row) \<noteq> None"
      by (auto simp: recorded_def into_domain_def Let_def)
    then have "card (waiting app tt ?ts') < card (waiting app tt ?ts)"
      using waiting_shrinks [of ?ts ?ts' row] acc run(1) row(1) by simp
    moreover have "intake fuel wk (n + length as) v' = (Inr None, w')" using rest long by simp
    ultimately show False using Suc.IH [of v'] acc Suc.prems(3) \<open>r = Inr None\<close> by auto
  qed
qed simp

end

text \<open>
  C8. The intake loop of the rebate worker ends: each full page of confirmed legs it takes in puts at
  least one more trade on record, so as many rounds as the trade tables have legs, and one more, always
  suffice, whatever else the service has recorded and whatever faults it meets.
\<close>

theorem intake_terminates:
  assumes "deployed abi credential authorize (wk_env wk)" "rebate_reachable (wk_env wk) True w"
    and "wk_pending wk = source_pending app tt" "length (tt_legs tt) < fuel" "intake fuel wk n w = (r, w')"
  shows "r \<noteq> Inr None"
proof -
  note dep = rebate_deployment.intro [OF assms(1)]
  show ?thesis
    by (rule rebate_deployment.intake_ends [OF dep refl assms(3) rebate_deployment.reachable_node [OF dep assms(2)] assms(5)])
      (use waiting_bound(2) [of app tt "rd_tables (rw_store w)"] assms(4) in linarith)
qed

section \<open>The scan\<close>

text \<open>
  \<open>settles_from A\<close>: no settlement is pending that was not pending before, except for the events of \<open>A\<close>;
  the scan cursor stays.
\<close>

definition settles_from :: "rebate_event set \<Rightarrow> rebate_db \<Rightarrow> rebate_db \<Rightarrow> bool" where
  "settles_from A db db' \<longleftrightarrow> rx_cursors (rd_tables db') = rx_cursors (rd_tables db) \<and>
     (\<forall>i s. db_settling db' i = Some s \<longrightarrow> db_settling db i = Some s \<or> rt_event s \<in> A)"

lemma settles_from_refl [simp]: "settles_from A db db"
  by (simp add: settles_from_def)

lemma settles_from_trans: "settles_from A db db' \<Longrightarrow> settles_from A db' db'' \<Longrightarrow> settles_from A db db''"
  unfolding settles_from_def by metis

interpretation part: evolution "settles_from A"
  by unfold_locales (auto intro: settles_from_trans)

interpretation scan: evolution "\<lambda>w w' :: ('l, rebate_db) rebate_world. settles_from A (rw_store w) (rw_store w')"
  by unfold_locales (auto intro: settles_from_trans)

lemma tx_settles:
  assumes "\<And>ts x ts'. f ts = Inr (x, ts') \<Longrightarrow> rx_cursors ts' = rx_cursors ts \<and>
      (\<forall>i s. table_settling ts' i = Some s \<longrightarrow> table_settling ts i = Some s \<or> rt_event s \<in> A)"
  shows "part.evolves A (rebate_tx f)"
proof (rule part.evolvesI)
  fix db r db' assume "rebate_tx f db = (r, db')"
  then show "settles_from A db db'"
    by (cases rule: rebate_tx_cases) (use assms in \<open>auto simp: settles_from_def db_settling_def\<close>)
qed

lemma query_settles: "part.evolves A (rebate_query f)"
  unfolding rebate_query_def by (rule tx_settles) (auto simp: res)

lemma insert_batch_frame: "rx_settlements (insert_batch b ts) = rx_settlements ts" "rx_cursors (insert_batch b ts) = rx_cursors ts"
  by (simp_all add: insert_batch_def)

lemma accruals_frame: "try_fold (persist_accrual b) ts as = Inr ts' \<Longrightarrow>
  rx_settlements ts' = rx_settlements ts \<and> rx_cursors ts' = rx_cursors ts"
proof (induction as arbitrary: ts)
  case (Cons a as)
  obtain ts1 where s: "persist_accrual b ts a = Inr ts1" "try_fold (persist_accrual b) ts1 as = Inr ts'"
    using Cons.prems by (auto simp: res)
  have "rx_settlements ts1 = rx_settlements ts \<and> rx_cursors ts1 = rx_cursors ts"
    using s(1) by (auto simp: persist_accrual_def Let_def split: option.splits if_splits)
  then show ?case using Cons.IH [OF s(2)] by simp
qed simp

lemma save_settles: "part.evolves A (rebate_save b)"
  unfolding rebate_save_def
  by (rule tx_settles)
    (auto simp: Let_def rbind_def table_settling_def insert_batch_frame dest!: accruals_frame split: option.splits if_splits sum.splits prod.splits)

lemma close_frame: "rx_settlements (close_batch c i ts) = rx_settlements ts" "rx_cursors (close_batch c i ts) = rx_cursors ts"
  by (simp_all add: close_batch_def split: option.split)

lemma finish_settles: "part.evolves A (finish_settlement i)"
  unfolding finish_settlement_def
  by (rule tx_settles) (auto simp: table_settling_def close_frame split: option.splits if_splits prod.splits)

lemma begin_settles: "rt_event s \<in> A \<Longrightarrow> part.evolves A (begin_settlement s)"
proof -
  assume "rt_event s \<in> A"
  then have "part.evolves A (insert_settlement s)"
    unfolding insert_settlement_def Let_def
    by (intro tx_settles) (auto simp: table_settling_def split: option.splits if_splits prod.splits)
  then show ?thesis unfolding begin_settlement_def by (intro part.steps query_settles)
qed

lemma rows_settle: "part.evolves A (rows_into_batches abi rows)"
proof (induction abi rows rule: rows_into_batches.induct)
  case (2 abi i row rows)
  have "part.evolves A (row_into_batch abi i row)"
    unfolding row_into_batch_def by (intro part.steps query_settles)
  then show ?case unfolding rows_into_batches.simps by (intro part.steps 2)
qed (simp only: rows_into_batches.simps part.plain)

lemma on_rebates_scan: "part.evolves A m \<Longrightarrow> scan.evolves A (on_rebates m)"
  by (rule scan.evolvesI) (auto dest!: on_rebates_step dest: part.evolvesD)

lemma port_scans:
  "scan.evolves A (on_rebates (ro_save (sqlite_rebate_ops abi) b))" "scan.evolves A (on_rebates (ro_close (sqlite_rebate_ops abi) i))"
  "scan.evolves A (on_rebates (ro_finish_settlement (sqlite_rebate_ops abi) i))"
  "scan.evolves A (on_rebates (ro_open_batches (sqlite_rebate_ops abi)))" "scan.evolves A (on_rebates (ro_pending_settlements (sqlite_rebate_ops abi)))"
  "rt_event s \<in> A \<Longrightarrow> scan.evolves A (on_rebates (ro_begin_settlement (sqlite_rebate_ops abi) s))"
  unfolding sqlite_rebate_ops_def rebate_ops.simps rebate_close_def rebate_open_batches_def pending_settlements_def
  by (rule on_rebates_scan,
      (intro save_settles begin_settles finish_settles rows_settle query_settles part.ebind tx_settles;
       auto simp: table_settling_def close_frame)[])+

sublocale rebate_deployment \<subseteq> scans: rebate_moves
  "\<lambda>w w'. settles_from A (rw_store w) (rw_store w')" env for A
  using deployed by unfold_locales (simp_all add: deployed_def port_scans)

context rebate_deployment
begin

lemma settle_scan:
  assumes "settle_work env event t w = (r, w')"
  shows "settles_from {event} (rw_store w) (rw_store w')"
  by (rule scans.evolvesD [OF scans.settle_logs assms]) (use deployed in \<open>simp add: deployed_def port_scans\<close>)

lemma post_memory: "post_if_held env s w = (r, w') \<Longrightarrow> rw_batches w' = rw_batches w"
  by (auto simp: post_if_held_def ebind_def eread_def on_hold_def emap_err_def on_part_def
      split: prod.splits sum.splits option.splits)

lemma rebates_memory: "on_rebates m w = (r, w') \<Longrightarrow> rw_batches w' = rw_batches w"
  by (auto simp: on_rebates_def emap_err_def on_part_def split: prod.splits)

text \<open>After a settlement that succeeds, no open batch has the event's id.\<close>

lemma settle_memory:
  assumes "settle_work env event t w = (Inr b, w')"
  shows "(\<forall>(k, x) \<in> set (rw_batches w). rb_id x \<noteq> rv_batch_id event) \<and> w' = w \<or>
    (\<exists>k x. (k, x) \<in> set (rw_batches w) \<and> rb_id x = rv_batch_id event \<and> rw_batches w' = bm_remove k (rw_batches w))"
proof (cases "find (\<lambda>(_, b). rb_id b = rv_batch_id event) (rw_batches w)")
  case None
  then have "w' = w" using assms by (simp add: settle_work_def ebind_def eread_def)
  then show ?thesis using None by (auto simp: find_None_iff)
next
  case (Some kx)
  obtain k x where kx: "kx = (k, x)" by (cases kx)
  have m: "(k, x) \<in> set (rw_batches w)" "rb_id x = rv_batch_id event" using find_member [OF Some] kx by auto
  have run: "(case rb_state x of
      BsReady e \<Rightarrow>
        ebind (eres (lift_rebate (validate_execution_event event e))) (\<lambda>_.
          let s = \<lparr>rt_plan = re_plan e, rt_reservation = re_reservation e, rt_event = event, rt_executed_at = t\<rparr> in
          ebind (on_rebates (ro_begin_settlement (rq_store env) s)) (\<lambda>_.
          ebind (post_if_held env s) (\<lambda>_.
          ebind (on_rebates (ro_finish_settlement (rq_store env) (rb_id x))) (\<lambda>_.
          ebind (drop_batch k) (\<lambda>_.
          ebind (unguard_strategy k) (\<lambda>_. eok True))))))
    | _ \<Rightarrow> eerr (RfRebate (InvalidExecution NotReadyWork))) w = (Inr b, w')"
    using assms Some kx by (simp add: settle_work_def ebind_def eread_def)
  then obtain e where e: "rb_state x = BsReady e" by (cases "rb_state x") auto
  obtain w1 w2 w3 where "\<exists>u. on_rebates (ro_begin_settlement (rq_store env)
        \<lparr>rt_plan = re_plan e, rt_reservation = re_reservation e, rt_event = event, rt_executed_at = t\<rparr>) w = (Inr u, w1)"
      "\<exists>u. post_if_held env \<lparr>rt_plan = re_plan e, rt_reservation = re_reservation e, rt_event = event, rt_executed_at = t\<rparr> w1 = (Inr u, w2)"
      "\<exists>u. on_rebates (ro_finish_settlement (rq_store env) (rb_id x)) w2 = (Inr u, w3)"
      "rw_batches w' = bm_remove k (rw_batches w3)"
    using run e by (fastforce simp: ebind_Inr Let_def drop_batch_def unguard_strategy_def emodify_def)
  then have "rw_batches w' = bm_remove k (rw_batches w)" using rebates_memory post_memory by metis
  then show ?thesis using m by blast
qed

lemma settle_done:
  assumes ok: "node_ok True w" and run: "settle_work env event t w = (Inr b, w')"
  shows "db_settling (rw_store w') (rv_batch_id event) = None"
proof (rule ccontr)
  assume "db_settling (rw_store w') (rv_batch_id event) \<noteq> None"
  moreover have "node_ok True w'" by (rule step_keeps [OF rb_settle [OF run] ok])
  then have inv': "rebate_inv (memory w') (db_opened (rw_store w')) (db_settling (rw_store w')) (held w') (guarded_keys w')"
    by (simp add: node_ok_def desk.desk_inv_def)
  ultimately obtain k' d where d: "db_opened (rw_store w') k' = Some d" "rb_id d = rv_batch_id event"
    using rebate_invD(2) [OF inv'] unfolding claims_ok_def by blast
  obtain m where m: "memory w' k' = Some m" "mirrors (held w') m d"
    by (rule slot_SomeD [OF rebate_invD(3) [OF inv', of k', unfolded d(1)]]) (rule that)
  have id: "rb_id m = rv_batch_id event" using memory_slot [OF inv' m(1)] d by (metis option.inject)
  have inv: "rebate_inv (memory w) (db_opened (rw_store w)) (db_settling (rw_store w)) (held w) (guarded_keys w)"
    and wf: "bm_wf (rw_batches w)"
    using ok by (simp_all add: node_ok_def desk.desk_inv_def desk.stores_ok_def)
  from settle_memory [OF run] show False
  proof
    assume "(\<forall>(k, x) \<in> set (rw_batches w). rb_id x \<noteq> rv_batch_id event) \<and> w' = w"
    then show False using m(1) id bm_get_iff [OF wf] by auto
  next
    assume "\<exists>k x. (k, x) \<in> set (rw_batches w) \<and> rb_id x = rv_batch_id event \<and> rw_batches w' = bm_remove k (rw_batches w)"
    then obtain k x where x: "memory w k = Some x" "rb_id x = rv_batch_id event" "rw_batches w' = bm_remove k (rw_batches w)"
      using bm_get_iff [OF wf] by blast
    then have m': "memory w k' = Some m" "k' \<noteq> k" using m(1) by (auto split: if_splits)
    obtain a where a: "db_opened (rw_store w) k = Some a" "rb_id x = rb_id a" by (rule memory_slot [OF inv x(1)]) (rule that)
    obtain c where c: "db_opened (rw_store w) k' = Some c" "rb_id m = rb_id c" by (rule memory_slot [OF inv m'(1)]) (rule that)
    show False using ids_okD(2) [OF rebate_invD(1) [OF inv] a(1) c(1)] a(2) c(2) x(2) id m'(2) by simp
  qed
qed

lemma settling_facts:
  assumes "rebate_reachable env True w" "db_settling (rw_store w) i = Some s"
  shows "bp_batch_id (rt_plan s) = i \<and> rv_batch_id (rt_event s) = i"
proof -
  note inv = up_inv(1) [OF assms(1)]
  obtain k d where d: "db_opened (rw_store w) k = Some d" "rb_id d = i"
    using rebate_invD(2) [OF inv] assms(2) unfolding claims_ok_def by blast
  have "durable_ok (db_settling (rw_store w)) (held w) d"
    by (rule slot_SomeD [OF rebate_invD(3) [OF inv, of k, unfolded d(1)]])
  then have "validate_settlement s = Inr ()" using durable_okD(4) assms(2) d(2) by (auto simp: settles_def)
  moreover have "bp_batch_id (rt_plan s) = i"
    using reachable_node [OF assms(1)] desk.reb.settling_key assms(2) by (auto simp: node_ok_def desk.store_inv_def)
  ultimately show ?thesis by (auto simp: validate_settlement_def event_repeats_def split: if_splits)
qed

lemma settles_from_wider:
  "settles_from {ev} db db' \<Longrightarrow> settles_from A db' db'' \<Longrightarrow> settles_from (insert ev A) db db''"
  unfolding settles_from_def by (metis insertCI singletonD)

text \<open>Along the events of a scan, each step only adds settlements of its own event, and those behind are settled.\<close>

lemma settle_events_scan:
  "wk_env wk = env \<Longrightarrow> rebate_reachable env True w \<Longrightarrow> settle_events wk evs n w = (r, w') \<Longrightarrow>
   rebate_reachable env True w' \<and> settles_from (set evs) (rw_store w) (rw_store w') \<and>
   (\<not> isl r \<longrightarrow> (\<forall>i s. db_settling (rw_store w') i = Some s \<longrightarrow> i \<notin> rv_batch_id ` set evs))"
proof (induction evs arbitrary: n w)
  case Nil
  then show ?case by auto
next
  case (Cons ev evs)
  obtain q v where v: "settle_work env ev (wk_now wk) w = (q, v)" by force
  have reach: "rebate_reachable env True v" by (rule rb_next [OF Cons.prems(2) rb_settle [OF v]])
  note one = settle_scan [OF v]
  show ?case
  proof (cases q)
    case (Inl e)
    then have "w' = v" "isl r" using Cons.prems(1,3) v by (auto simp: ebind_def)
    then show ?thesis using reach one by (auto simp: settles_from_def)
  next
    case (Inr b)
    then have run: "settle_events wk evs (n + (if b then 1 else 0)) v = (r, w')"
      using Cons.prems(1,3) v by (simp add: ebind_def)
    note rest = Cons.IH [OF Cons.prems(1) reach run]
    have gone: "db_settling (rw_store v) (rv_batch_id ev) = None"
      using settle_done [OF reachable_node [OF Cons.prems(2)]] v Inr by blast
    have key: "bp_batch_id (rt_plan s) = i" "rv_batch_id (rt_event s) = i" if s: "db_settling (rw_store w') i = Some s" for i s
      using settling_facts [OF conjunct1 [OF rest] s] by auto
    have "i \<noteq> rv_batch_id ev" if s: "db_settling (rw_store w') i = Some s" "i \<notin> rv_batch_id ` set evs" for i s
    proof -
      have "db_settling (rw_store v) i = Some s"
        using rest s key(2) [OF s(1)] unfolding settles_from_def by auto
      then show ?thesis using gone by auto
    qed
    then show ?thesis using rest one settles_from_wider by auto
  qed
qed

end

text \<open>
  What the scan relies on in its chain source: a fetch returns exactly the mined executions of the
  blocks asked for.
\<close>

definition mined :: "rebate_event set \<Rightarrow> (u64 \<Rightarrow> u64 \<Rightarrow> rebate_flow_error + rebate_event list) \<Rightarrow> bool" where
  "mined E fetch \<longleftrightarrow>
     (\<forall>a b evs. fetch a b = Inr evs \<longrightarrow> set evs = {e \<in> E. a \<le> rv_block_number e \<and> rv_block_number e \<le> b})"

definition scan_from :: "('l, 's) rebate_worker \<Rightarrow> rebate_db \<Rightarrow> u64" where
  "scan_from wk db =
     (case bm_get (rx_cursors (rd_tables db)) (wc_chain (wk_config wk)) of
        None \<Rightarrow> wc_start_block (wk_config wk) | Some block \<Rightarrow> sat_add64 block 1)"

text \<open>Every settlement that is under way belongs to a mined execution the next scan will see again.\<close>

definition rescanned :: "rebate_event set \<Rightarrow> u64 \<Rightarrow> ('l, 's) rebate_worker \<Rightarrow> rebate_db \<Rightarrow> bool" where
  "rescanned E H wk db \<longleftrightarrow>
     (\<forall>i s. db_settling db i = Some s \<longrightarrow>
        rt_event s \<in> E \<and> scan_from wk db \<le> rv_block_number (rt_event s) \<and> rv_block_number (rt_event s) \<le> H)"

lemma scan_cursor_run:
  assumes "on_rebates (ro_scan_cursor (sqlite_rebate_ops abi) c) w = (r, w')"
  shows "rd_tables (rw_store w') = rd_tables (rw_store w)" "r = Inr x \<Longrightarrow> x = bm_get (rx_cursors (rd_tables (rw_store w))) c"
proof -
  obtain q db where q: "scan_cursor c (rw_store w) = (q, db)" by force
  have w': "r = map_sum RfStore id q" "w' = w\<lparr>rw_store := db\<rparr>"
    using assms q by (simp_all add: on_rebates_def emap_err_def on_part_def sqlite_rebate_ops_def)
  show "rd_tables (rw_store w') = rd_tables (rw_store w)" using cursor_view(1) [OF q] w' by simp
  have "y = bm_get (rx_cursors (rd_tables (rw_store w))) c" if "q = Inr y" for y
    using q that rebate_query_cases(2)
    by (auto simp: scan_cursor_def rebate_i64_def ebind_def eres_def eerr_def split: if_splits) fastforce
  then show "r = Inr x \<Longrightarrow> x = bm_get (rx_cursors (rd_tables (rw_store w))) c" using w'(1) by (cases q) auto
qed

context rebate_deployment
begin

lemma cursor_reachable:
  assumes "rebate_reachable env True w" "on_rebates (ro_save_scan_cursor (rq_store env) c n) w = (r, w')"
  shows "rebate_reachable env True w'"
proof -
  obtain q db where q: "ro_save_scan_cursor (rq_store env) c n (rw_store w) = (q, db)" by force
  have "w' = w\<lparr>rw_store := db\<rparr>" using assms(2) q by (simp add: on_rebates_def emap_err_def on_part_def)
  then show ?thesis using rb_next [OF assms(1) rb_cursor [OF q]] by simp
qed

lemma read_reachable:
  assumes "rebate_reachable env True w" "on_rebates m w = (r, w')" "rd_tables (rw_store w') = rd_tables (rw_store w)"
  shows "rebate_reachable env True w'"
proof -
  have "w' = w\<lparr>rw_store := rw_store w'\<rparr>" using assms(2) by (auto simp: on_rebates_def emap_err_def on_part_def split: prod.splits)
  then show ?thesis using rb_next [OF assms(1) rb_read [OF assms(3)]] by metis
qed

lemma save_cursor_settling:
  assumes "on_rebates (ro_save_scan_cursor (rq_store env) c n) w = (r, w')"
  shows "db_settling (rw_store w') = db_settling (rw_store w)"
proof -
  obtain q where "save_scan_cursor c n (rw_store w) = (q, rw_store w')"
    using on_rebates_step [OF assms] store by (auto simp: sqlite_rebate_ops_def)
  then show ?thesis using cursor_view(2) by (fastforce simp: db_settling_def table_settling_def fun_eq_iff)
qed

text \<open>A scan that stops early leaves settlements only for events it will fetch again.\<close>

lemma scan_settles:
  assumes wk: "wk_env wk = env" and E: "mined E (wk_fetch wk)" and reach: "rebate_reachable env True w"
    and pend: "rescanned E H wk (rw_store w)" "H \<le> safe_head"
    and fetch: "wk_fetch wk (scan_from wk (rw_store w)) safe_head = Inr evs" and run: "settle_events wk evs 0 w = (r, w')"
  shows "rescanned E safe_head wk (rw_store w')" "\<not> isl r \<Longrightarrow> db_settling (rw_store w') i = None"
proof -
  note ev = settle_events_scan [OF wk reach run]
  have evs: "set evs = {e \<in> E. scan_from wk (rw_store w) \<le> rv_block_number e \<and> rv_block_number e \<le> safe_head}"
    using E fetch unfolding mined_def by blast
  have from_same: "scan_from wk (rw_store w') = scan_from wk (rw_store w)" using ev by (simp add: settles_from_def scan_from_def)
  have mem: "rt_event s \<in> set evs" if s: "db_settling (rw_store w') j = Some s" for j s
  proof -
    have "db_settling (rw_store w) j = Some s \<or> rt_event s \<in> set evs" using ev s unfolding settles_from_def by blast
    then show ?thesis using pend unfolding rescanned_def evs by fastforce
  qed
  then show "rescanned E safe_head wk (rw_store w')" unfolding rescanned_def from_same evs by blast
  show "db_settling (rw_store w') i = None" if "\<not> isl r"
  proof (cases "db_settling (rw_store w') i")
    case (Some s)
    then have "rv_batch_id (rt_event s) = i" using settling_facts ev by blast
    then show ?thesis using mem [OF Some] ev that Some by blast
  qed
qed

lemma reconcile_settles:
  assumes wk: "wk_env wk = env" and E: "mined E (wk_fetch wk)" and reach: "rebate_reachable env True w"
    and pend: "rescanned E H wk (rw_store w)" "H \<le> safe_head" and run: "reconcile_executions wk safe_head w = (r, w')"
  shows "rebate_reachable env True w' \<and> rescanned E safe_head wk (rw_store w') \<and>
    (\<not> isl r \<longrightarrow> (\<forall>i. db_settling (rw_store w') i = None))"
proof -
  let ?c = "wc_chain (wk_config wk)"
  obtain q v where q: "on_rebates (ro_scan_cursor (rq_store env) ?c) w = (q, v)" by force
  note read = scan_cursor_run [OF q [unfolded store]]
  have rv: "rebate_reachable env True v" by (rule read_reachable [OF reach q read(1)])
  have settling: "db_settling (rw_store v) = db_settling (rw_store w)" using read(1) by (simp add: db_settling_def)
  have pv: "rescanned E H wk (rw_store v)" using pend(1) read(1) unfolding rescanned_def settling by (simp add: scan_from_def)
  then have pv': "rescanned E safe_head wk (rw_store v)" using pend(2) unfolding rescanned_def by fastforce
  show ?thesis
  proof (cases q)
    case (Inl e)
    then have "w' = v" "isl r" using run q wk by (auto simp: reconcile_executions_def ebind_def)
    then show ?thesis using rv pv' by simp
  next
    case (Inr cursor)
    have cur: "(case cursor of None \<Rightarrow> wc_start_block (wk_config wk) | Some block \<Rightarrow> sat_add64 block 1) = scan_from wk (rw_store v)"
      using read Inr by (simp add: scan_from_def)
    have body: "(if safe_head < scan_from wk (rw_store v) then eok 0
       else ebind (eres (wk_fetch wk (scan_from wk (rw_store v)) safe_head)) (\<lambda>events.
         ebind (settle_events wk events 0) (\<lambda>settled.
         ebind (on_rebates (ro_save_scan_cursor (rq_store env) ?c safe_head)) (\<lambda>_. eok settled)))) v = (r, w')"
      using run unfolding reconcile_executions_def wk
        ebind_run(1) [of "on_rebates (ro_scan_cursor (rq_store env) ?c)" w, OF q [unfolded Inr]] Let_def cur .
    show ?thesis
    proof (cases "safe_head < scan_from wk (rw_store v)")
      case True
      then have "w' = v" using body by simp
      moreover have "db_settling (rw_store v) i = None" for i
        using pv' True unfolding rescanned_def by (cases "db_settling (rw_store v) i") fastforce+
      ultimately show ?thesis using rv pv' by simp
    next
      case False
      note go = body [unfolded if_not_P [OF False]]
      show ?thesis
      proof (cases "wk_fetch wk (scan_from wk (rw_store v)) safe_head")
        case (Inl e)
        then have "w' = v" "isl r" using go by auto
        then show ?thesis using rv pv' by simp
      next
        case (Inr evs)
        obtain p u where p: "settle_events wk evs 0 v = (p, u)" by force
        have ru: "rebate_reachable env True u" using settle_events_scan [OF wk rv p] by blast
        note s = scan_settles [OF wk E rv pv pend(2) Inr p]
        show ?thesis
        proof (cases p)
          case (Inl e)
          then have "w' = u" "isl r" using go Inr p \<open>wk_fetch _ _ _ = Inr evs\<close> by (auto simp: ebind_def)
          then show ?thesis using ru s(1) by simp
        next
          case p': (Inr n)
          obtain t x where t: "on_rebates (ro_save_scan_cursor (rq_store env) ?c safe_head) u = (t, x)" by force
          have "w' = x" using go p' p t \<open>wk_fetch _ _ _ = Inr evs\<close> by (cases t) (auto simp: ebind_def)
          moreover have "db_settling (rw_store x) i = None" for i using save_cursor_settling [OF t] s(2) [of i] p' by simp
          ultimately show ?thesis using cursor_reachable [OF ru t] by (simp add: rescanned_def)
        qed
      qed
    qed
  qed
qed

end

text \<open>
  C7. The scan of mined executions never leaves a settlement behind. A crash or a fault may stop it after
  a settlement was recorded as begun; then the cursor still stands before that event, so the next scan
  meets it again. A scan that succeeds has finished every settlement: nothing is under way, whatever was
  interrupted before. The chain source returns the mined executions of its range, and safe heads do not
  go back.
\<close>

theorem scan_finishes_settlements:
  assumes "deployed abi credential authorize (wk_env wk)" "rebate_reachable (wk_env wk) True w"
    and "mined E (wk_fetch wk)" "rescanned E H wk (rw_store w)" "H \<le> safe_head"
    and "reconcile_executions wk safe_head w = (r, w')"
  shows "rebate_reachable (wk_env wk) True w' \<and> rescanned E safe_head wk (rw_store w') \<and>
    (\<not> isl r \<longrightarrow> (\<forall>k. settlement_free k w') \<and> (\<forall>i. db_settling (rw_store w') i = None))"
  using rebate_deployment.reconcile_settles [OF rebate_deployment.intro [OF assms(1)] refl assms(3,2,4,5,6)]
  unfolding settlement_free_def by blast

end
