(* ===== verification/Rebate_Run.thy ===== *)
theory Rebate_Run
  imports Rebate_Scan
begin

text \<open>
  A concrete run of the rebate service, from empty stores to published work, which shows that the
  hypotheses of the properties of Rebate_History, Rebate_Log and Rebate_Scan can be met.
\<close>

section \<open>A run of the service\<close>

text \<open>
  Two trades of one strategy accrue, the market asks for a restoration, and the work is published: the
  batch of Rebate_Economics's example, with all stores empty at the start.
\<close>

definition ex_order :: order where
  "ex_order = \<lparr>o_maker = 1, o_traits = 0, o_data = [14, 20] @ be_bytes 20 7\<rparr>"

text \<open>An injective codec; the empty program stands for the example's order.\<close>

definition ex_filler_abi :: filler_abi where
  "ex_filler_abi = \<lparr>fa_decode_order = (\<lambda>bs. case bs of m # t # d \<Rightarrow> Some \<lparr>o_maker = m, o_traits = t, o_data = d\<rparr> | _ \<Rightarrow> Some ex_order),
     fa_encode_order = (\<lambda>ord. o_maker ord # o_traits ord # o_data ord), fa_encode_call = (\<lambda>ord a sig. 1 # sig), fa_keccak = (\<lambda>_. 3)\<rparr>"

definition ex_signer :: policy_signer where
  "ex_signer a = Some (replicate 65 0)"

definition ex_rebate_env :: "(sqlite, rebate_db) rebate_env" where
  "ex_rebate_env = \<lparr>rq_ledger_store = sqlite_ops, rq_budgets = (\<lambda>_. Inr 300), rq_store = sqlite_rebate_ops ex_filler_abi,
     rq_policy = policy_config_new 100 12000,
     rq_config = \<lparr>rf_native_token = 5, rf_gas_units = 1, rf_market_max_age_secs = 60\<rparr>,
     rq_build = build_rebate_call ex_filler_abi 7 ex_signer, rq_keccak = (\<lambda>_. 9)\<rparr>"

lemma ex_deployed: "deployed ex_filler_abi 7 ex_signer ex_rebate_env"
  by (simp add: deployed_def ex_rebate_env_def abi_law_def ex_filler_abi_def ex_signer_def bounded_source_def u256_max_def)

interpretation example_desk: rebate_deployment ex_filler_abi 7 ex_signer ex_rebate_env
  by unfold_locales (rule ex_deployed)

definition ex_market_data :: market_data where
  "ex_market_data = \<lparr>md_book = (\<lambda>_. Inr ex_market), md_gas_price = Inr 10, md_decimals = (\<lambda>_. 18)\<rparr>"

definition ex_evaluation :: evaluation_input where
  "ex_evaluation = \<lparr>ev_strategy = ex_displaced, ev_caps = available_snapshot ex_rebate_room,
     ev_minimums = [\<lparr>rn_token = 5, rn_minimum_maker_rebate = 1, rn_minimum_executor_profit = 1\<rparr>],
     ev_reservation_id = 77, ev_reservation_ttl_secs = 60, ev_deadline_block = 1000, ev_published_at = 50\<rparr>"

definition ex_start :: rebate_node where
  "ex_start = booted (service_new \<lparr>sq_rows = [], sq_faults = []\<rparr>) \<lparr>rd_tables = empty_tables, rd_faults = []\<rparr>"

definition ex_accrued :: rebate_node where
  "ex_accrued = snd (accrue ex_rebate_env (ex_accrual 2 1) (snd (accrue ex_rebate_env (ex_accrual 1 2) ex_start)))"

definition ex_published :: rebate_node where
  "ex_published = snd (evaluate ex_rebate_env ex_market_data 50 ex_evaluation ex_accrued)"

lemmas ex_eval = ex_rebate_env_def ebind_def eread_def emodify_def etry_def on_rebates_def on_hold_def emap_err_def on_part_def
  guard_strategy_def unguard_strategy_def put_batch_def live_batch_def save_batch_def guard_def unguard_def lift_rebate_def Let_def

abbreviation ex_key :: strategy_key where
  "ex_key \<equiv> StrategyKey 1 2 3"

definition ex_batch :: "(trade_id \<times> rebate_accrual) list \<Rightarrow> rebate_batch_state \<Rightarrow> rebate_batch" where
  "ex_batch as st = \<lparr>rb_id = 9, rb_strategy = ex_key, rb_pair = TokenPair 5 6, rb_accruals = as, rb_state = st\<rparr>"

definition ex_node :: "(trade_id \<times> rebate_accrual) list \<Rightarrow> rebate_batch_state \<Rightarrow> sqlite ledger_service \<Rightarrow> rebate_node" where
  "ex_node as st sv = \<lparr>rw_batches = [(ex_key, ex_batch as st)], rw_ledger = sv, rw_guard = \<lparr>sg_guarded = [ex_key]\<rparr>,
     rw_store = \<lparr>rd_tables = \<lparr>rx_batches = [(9, \<lparr>bw_strategy = ex_key, bw_pair = TokenPair 5 6, bw_state = stored_name st,
         bw_payload = Some st, bw_open = True\<rparr>)], rx_accruals = map (\<lambda>(t, a). ((ex_key, t), 9, a)) as,
         rx_settlements = [], rx_cursors = []\<rparr>, rd_faults = []\<rparr>\<rparr>"

lemma ex_accrual_sel [simp]:
  "ra_trade_id (ex_accrual t x) = t" "ra_strategy (ex_accrual t x) = ex_key" "ra_token_in (ex_accrual t x) = 6"
  "ra_token_out (ex_accrual t x) = 5" "x \<noteq> 0 \<Longrightarrow> validate_accrual (ex_accrual t x) = Inr ()"
  by (simp_all add: ex_accrual_def validate_accrual_def)

lemmas ex_save = save_batch_def sqlite_rebate_ops_def rebate_save_def rebate_tx_def insert_batch_def Rebate_Store.open_row_def
  persist_accrual_def bm_values_def token_pair_new_def rbind_def

lemma ex_first: "accrue ex_rebate_env (ex_accrual 1 2) ex_start =
    (Inr 9, ex_node [(1, ex_accrual 1 2)] BsGuarded (service_new \<lparr>sq_rows = [], sq_faults = []\<rparr>))"
  by (simp add: accrue_def ex_start_def booted_def accrue_new_def ex_eval ex_save empty_tables_def rebate_batch_new_def
      batch_id_def strategy_guard_default_def ex_node_def ex_batch_def)

lemma ex_second: "accrue ex_rebate_env (ex_accrual 2 1) (ex_node [(1, ex_accrual 1 2)] BsGuarded sv) =
    (Inr 9, ex_node [(1, ex_accrual 1 2), (2, ex_accrual 2 1)] BsGuarded sv)"
  by (simp add: accrue_def accrue_live_def commit_accrual_def ex_eval ex_save ex_node_def ex_batch_def less_prod_def)

lemma ex_accrued_eval: "ex_accrued = ex_node [(1, ex_accrual 1 2), (2, ex_accrual 2 1)] BsGuarded (service_new \<lparr>sq_rows = [], sq_faults = []\<rparr>)"
  by (simp only: ex_accrued_def ex_first ex_second snd_conv)

lemma ex_economics: "economics (rq_config ex_rebate_env) ex_market_data ex_displaced (ev_minimums ex_evaluation) = Inr (ex_market, ex_requirements)"
  by (simp add: economics_def ex_rebate_env_def ex_market_data_def ex_evaluation_def ms_pair_def ex_displaced_def token_pair_new_def
      bm_keys_def lift_rebate_def market_between_def checked_mul_def u256_max_def gas_cost_in_def ex_requirements_def)

definition ex_rebate_plan :: rebate_plan where
  "ex_rebate_plan = \<lparr>bp_batch_id = 9, bp_strategy = StrategyKey 1 2 3, bp_token_in = 5, bp_token_out = 6,
     bp_amount_in = 100, bp_amount_out = 200, bp_gross_surplus = 100, bp_safe_gas_cost = 12,
     bp_maker_rebate = 84, bp_executor_profit = 4, bp_deviation_bps = 30000,
     bp_allocations = [\<lparr>al_trade_id = 1, al_amount = 56\<rparr>, \<lparr>al_trade_id = 2, al_amount = 28\<rparr>]\<rparr>"

definition ex_execution :: rebate_execution where
  "ex_execution = \<lparr>re_plan = ex_rebate_plan, re_reservation = 77, re_authorization = rebate_authorization 3 ex_key ex_rebate_plan 1000,
     re_order = fa_encode_order ex_filler_abi ex_order, re_policy_signature = replicate 65 0,
     re_calldata = 1 # replicate 65 0, re_published_at = 50\<rparr>"

lemma ex_call: "build_rebate_call ex_filler_abi 7 ex_signer ex_displaced ex_rebate_plan 77 1000 50 = Inr ex_execution"
proof -
  have "uses_taker_credential (o_data ex_order) 7"
    by (simp add: uses_taker_credential_def ex_order_def)
  moreover have "validate_rebate_plan ex_rebate_plan 1000 = Inr ()"
    by (simp add: validate_rebate_plan_def ex_rebate_plan_def checked_add_def u256_max_def)
  moreover have "bp_strategy ex_rebate_plan = ms_key ex_displaced" "sk_maker (ms_key ex_displaced) = 1" "o_maker ex_order = 1"
    "sk_hash (ms_key ex_displaced) = 3" "ms_key ex_displaced = ex_key" "ms_program ex_displaced = []"
    by (simp_all add: ex_rebate_plan_def ex_displaced_def ex_order_def)
  ultimately show ?thesis
    by (simp add: build_rebate_call_def rbind_def ex_filler_abi_def Let_def rebate_nonce_def ex_signer_def ex_execution_def)
qed

definition ex_held :: "sqlite ledger_service" where
  "ex_held = snd (service_reserve_rebate sqlite_ops (\<lambda>_. Inr 300) 50 77 9 (rebate_sources ex_key ex_rebate_plan) 60
     (service_new \<lparr>sq_rows = [], sq_faults = []\<rparr>))"

lemma ex_reserved: "service_reserve_rebate sqlite_ops (\<lambda>_. Inr 300) 50 77 9 (rebate_sources ex_key ex_rebate_plan) 60
     (service_new \<lparr>sq_rows = [], sq_faults = []\<rparr>) = (Inr (), ex_held)"
  "lookup_reservation (sv_ledger ex_held) 77 = Some (for_rebate 77 9 (rebate_sources ex_key ex_rebate_plan) 110)"
  "sq_faults (sv_store ex_held) = []"
  and ex_held_store: "sq_rows (sv_store ex_held) =
     [(77, \<lparr>lr_owner_kind = ''rebate'', lr_owner_id = 9, lr_sources = rebate_sources ex_key ex_rebate_plan,
           lr_state = ''pending'', lr_filled = None, lr_expires_at = 110\<rparr>)]"
  by (simp_all add: ex_held_def service_reserve_rebate_def service_new_def read_budgets_def accounts_of_def
      bs_of_list_def accounts_def rebate_sources_def ex_rebate_plan_def less_account_key_def reserve_owned_def
      feed_budgets_def set_budget_def ledger_default_def can_reserve_def bm_contains_def
      for_rebate_def reservation_new_def aggregate_demand_def add_demand_def available_def budget_def
      sat_add_def u256_max_def sqlite_ops_def sqlite_reserve_def with_db_def i64_of_def i64_max_def
      sat_add64_def u64_max_def restore_def with_held_def held_default_def publish_def
      less_eq_account_key_def Let_def lookup_reservation_def del: bm_contains_iff)

lemma ex_publishing:
  assumes "as = [(1, ex_accrual 1 2), (2, ex_accrual 2 1)]"
  shows "evaluate ex_rebate_env ex_market_data 50 ex_evaluation (ex_node as BsGuarded (service_new \<lparr>sq_rows = [], sq_faults = []\<rparr>)) =
    (Inr (AsReady ex_rebate_plan), ex_node as (BsReady ex_execution) ex_held)"
proof -
  note One_nat_def [simp del]
  have inputs: "ev_strategy ex_evaluation = ex_displaced" "ev_caps ex_evaluation = available_snapshot ex_rebate_room"
    "ev_reservation_id ex_evaluation = 77" "ev_reservation_ttl_secs ex_evaluation = 60" "ev_deadline_block ex_evaluation = 1000"
    "ev_published_at ex_evaluation = 50" "ms_key ex_displaced = ex_key" "rq_policy ex_rebate_env = policy_config_new 100 12000"
    "rq_build ex_rebate_env = build_rebate_call ex_filler_abi 7 ex_signer" "rq_budgets ex_rebate_env = (\<lambda>_. Inr 300)"
    "rq_ledger_store ex_rebate_env = sqlite_ops" "rq_store ex_rebate_env = sqlite_rebate_ops ex_filler_abi"
    by (simp_all add: ex_evaluation_def ex_displaced_def ex_rebate_env_def)
  have save: "save_batch ex_rebate_env (ex_batch as st') (ex_node as st sv) = (Inr (), (ex_node as st' sv)\<lparr>rw_batches := [(ex_key, ex_batch as st)]\<rparr>)"
    for st st' sv
    by (simp add: assms inputs ex_save ex_node_def ex_batch_def on_rebates_def emap_err_def on_part_def Let_def less_prod_def)
  have put: "put_batch (ex_batch as st') ((ex_node as st' sv)\<lparr>rw_batches := [(ex_key, ex_batch as st)]\<rparr>) = (Inr (), ex_node as st' sv)" for st st' sv
    by (simp add: put_batch_def emodify_def ex_node_def ex_batch_def)
  have guard: "guard_strategy ex_key (ex_node as st sv) = (Inr (), ex_node as st sv)" for st sv
    by (simp add: guard_strategy_def emodify_def guard_def ex_node_def)
  have batch: "live_batch ex_key (ex_node as st sv) = (Inr (Some (ex_batch as st)), ex_node as st sv)"
    "(ex_batch as st)\<lparr>rb_state := st'\<rparr> = ex_batch as st'" "rb_state (ex_batch as st) = st" "rb_id (ex_batch as st) = 9"
    "finish_interrupted_transition ex_rebate_env (ex_batch as BsGuarded) = eok (ex_batch as BsGuarded)"
    "bm_values (rb_accruals (ex_batch as st)) = [ex_accrual 1 2, ex_accrual 2 1]" for st st' sv
    by (simp_all add: live_batch_def eread_def ex_node_def ex_batch_def finish_interrupted_transition_def assms bm_values_def)
  have hold: "on_hold (service_reserve_rebate sqlite_ops (\<lambda>_. Inr 300) 50 77 9 (rebate_sources ex_key ex_rebate_plan) 60)
      (ex_node as st (service_new \<lparr>sq_rows = [], sq_faults = []\<rparr>)) = (Inr (), ex_node as st ex_held)" for st
    by (simp add: on_hold_def emap_err_def on_part_def ex_reserved(1) ex_node_def)
  show ?thesis
    unfolding evaluate_def Let_def inputs
    by (simp add: ebind_def batch inputs ex_economics ex_assess [folded ex_rebate_plan_def] lift_rebate_def apply_assessment_def
        prepare_work_def publish_work_def Let_def guard save put hold ex_call etry_def)
qed

lemma ex_published_eval: "ex_published = ex_node [(1, ex_accrual 1 2), (2, ex_accrual 2 1)] (BsReady ex_execution) ex_held"
  by (simp add: ex_published_def ex_accrued_eval ex_publishing)

lemma ex_keep_room: "\<forall>a. caps_available (available_snapshot ex_rebate_room) a \<le> u256_max"
proof -
  have "ledger_shape ex_rebate_room"
    by (simp add: ledger_shape_def ex_rebate_room_def bm_wf_def u256_max_def less_account_key_def budget_def)
  then show ?thesis
    by (auto simp: available_caps_eq ledger_shape_def available_def Let_def intro: le_trans [OF diff_le_self])
qed

lemma ex_up: "rebate_reachable ex_rebate_env True ex_start"
proof -
  let ?sv = "service_new \<lparr>sq_rows = [], sq_faults = []\<rparr>"
  have led: "recover sqlite_ops (rq_budgets ex_rebate_env) (service_new (sv_store (rw_ledger ex_start))) = (Inr (), ?sv)"
    by (simp add: recover_def service_new_def sqlite_ops_def sqlite_open_reservations_def with_db_def ex_start_def booted_def
        publish_def available_snapshot_def ledger_default_def bs_of_list_def bm_keys_def)
  have "rebate_recover ex_rebate_env (booted ?sv (rw_store ex_start)) = (Inr (), ex_start)"
    by (simp add: rebate_recover_def ex_start_def booted_def ex_rebate_env_def sqlite_rebate_ops_def ebind_def on_rebates_def emap_err_def
        on_part_def pending_settlements_def rebate_open_batches_def rebate_query_def rebate_tx_def rbind_def empty_tables_def emodify_def)
  then have "rebate_step ex_rebate_env False ex_start (\<not> isl (Inr () :: rebate_flow_error + unit)) ex_start"
    by (rule rb_restart [OF led])
  moreover have "rebate_reachable ex_rebate_env False ex_start" unfolding ex_start_def by (rule rb_init)
  ultimately show ?thesis using rb_next by fastforce
qed

lemma ex_accrued_reachable: "rebate_reachable ex_rebate_env True ex_accrued"
proof -
  have "rebate_step ex_rebate_env True w True (snd (accrue ex_rebate_env a w))" for a w
    by (rule rb_accrue) (rule prod.collapse [symmetric])
  then show ?thesis unfolding ex_accrued_def using ex_up rb_next by blast
qed

lemma ex_publish_step: "rebate_step ex_rebate_env True ex_accrued True ex_published"
proof -
  have "evaluation_ok ex_market_data ex_evaluation"
    using ex_keep_room by (simp add: evaluation_ok_def charges_def ex_evaluation_def ex_displaced_def closed_form_def ex_market_data_def ex_market_def)
  moreover have "reservation_free (ms_key (ev_strategy ex_evaluation)) (ev_reservation_id ex_evaluation) ex_accrued"
    by (simp add: reservation_free_def ex_accrued_eval ex_node_def ex_evaluation_def ex_displaced_def db_opened_def table_opened_def
        Rebate_Store.open_row_def hold_def service_new_def ledger_default_def)
  ultimately show ?thesis unfolding ex_published_def by (rule rb_evaluate [OF _ _ prod.collapse [symmetric]])
qed

lemma ex_published_reachable: "rebate_reachable ex_rebate_env True ex_published"
  by (rule rb_next [OF ex_accrued_reachable ex_publish_step])

lemma ex_ready: "ready_work ex_published = [ex_execution]" "re_reservation ex_execution = 77" "re_plan ex_execution = ex_rebate_plan"
  "db_settling (rw_store ex_published) i = None" "rw_ledger ex_published = ex_held"
  "open_batches ex_published = [ex_batch [(1, ex_accrual 1 2), (2, ex_accrual 2 1)] (BsReady ex_execution)]"
  "db_opened (rw_store ex_published) ex_key = Some (ex_batch [(1, ex_accrual 1 2), (2, ex_accrual 2 1)] (BsReady ex_execution))"
  by (simp_all add: ready_work_def ex_published_eval ex_node_def ex_batch_def bm_values_def map_filter_simps ex_execution_def
      db_settling_def table_settling_def open_batches_def db_opened_def table_opened_def Rebate_Store.open_row_def row_batch_def accruals_of_def)

section \<open>Witnesses\<close>

theorem published_work_is_backed_witness:
  "ex_execution \<in> set (ready_work ex_published) \<and>
   reservation_sources (rw_ledger ex_published) 77 = Some (rebate_sources (StrategyKey 1 2 3) ex_rebate_plan) \<and>
   StrategyKey 1 2 3 \<notin> cd_key ` set (sl_chosen (select ex_registry (available_snapshot ex_wallets)
     (guard_snapshot (rw_guard ex_published)) (ex_request True) 5))"
proof -
  have mem: "ex_execution \<in> set (ready_work ex_published)" by (simp add: ex_ready)
  from published_work_is_backed [OF ex_deployed ex_published_reachable mem,
      of ex_registry "available_snapshot ex_wallets" "ex_request True" 5]
  show ?thesis using mem by (auto simp: ex_ready ex_batch_def)
qed

theorem rebate_holds_are_claimed_witness:
  "\<exists>b \<in> set (open_batches ex_published). rb_id b = 9 \<and> active_reservation (rb_state b) = Some 77 \<and>
     is_guarded (guard_snapshot (rw_guard ex_published)) (rb_strategy b)"
proof (rule rebate_holds_are_claimed [OF ex_deployed ex_published_reachable])
  show "lookup_reservation (sv_ledger (rw_ledger ex_published)) 77 = Some (for_rebate 77 9 (rebate_sources ex_key ex_rebate_plan) 110)"
    by (simp only: ex_ready ex_reserved)
qed (simp_all add: for_rebate_def reservation_new_def)

theorem recovery_restores_published_work_witness:
  "\<exists>sv w'. recover sqlite_ops (rq_budgets ex_rebate_env) (service_new (sv_store (rw_ledger ex_published))) = (Inr (), sv) \<and>
     rebate_recover ex_rebate_env (booted sv (rw_store ex_published)) = (Inr (), w') \<and> ex_execution \<in> set (ready_work w')"
proof -
  have calm: "sq_faults (sv_store (rw_ledger ex_published)) = []" "rd_faults (rw_store ex_published) = []"
    by (simp_all add: ex_ready ex_reserved) (simp add: ex_published_eval ex_node_def)
  have budgets: "\<forall>a. \<exists>b. rq_budgets ex_rebate_env a = Inr b" by (simp add: ex_rebate_env_def)
  have st: "rb_state (ex_batch as (BsReady ex_execution)) = BsReady ex_execution" for as by (simp add: ex_batch_def)
  from recovery_restores_published_work [OF ex_deployed ex_published_reachable calm budgets]
  show ?thesis using ex_ready(4,7) st by metis
qed

theorem rebate_record_is_append_only_witness:
  "bm_get (rx_accruals (rd_tables (rw_store ex_published))) (StrategyKey 1 2 3, 1) = Some (9, ex_accrual 1 2)"
  by (rule append_onlyD(1) [OF rebate_record_is_append_only [OF ex_deployed ex_publish_step]])
    (simp add: ex_accrued_eval ex_node_def)

section \<open>The worker\<close>

definition ex_trade_tables :: trade_tables where
  "ex_trade_tables = \<lparr>tt_trades = [(1, \<lparr>tw_order_hash = 4, tw_taker = 8, tw_token_in = 6, tw_token_out = 5, tw_amount_in = 10,
       tw_min_amount_out = 5, tw_amount_out = Some 5, tw_status = ''confirmed'', tw_status_rank = 5, tw_deadline_block = 9,
       tw_signature = None, tw_price_impact_bps = None, tw_surplus = None, tw_tx_hash = Some 1, tw_block_number = Some 7,
       tw_created_at = 1, tw_settled_at = Some 2, tw_token_in_price_usd = None, tw_token_out_price_usd = None\<rparr>)],
     tt_attempts = [],
     tt_legs = [((1, 0), \<lparr>tl_maker = 1, tl_strategy_hash = 3, tl_amount_in = 10, tl_amount_out = 5\<rparr>)]\<rparr>"

definition ex_mined :: rebate_event where
  "ex_mined = \<lparr>rv_batch_id = 9, rv_strategy_hash = 3, rv_executor = 4, rv_maker = 1, rv_token_in = 5, rv_token_out = 6,
     rv_amount_in = 100, rv_amount_out = 200, rv_maker_rebate = 84, rv_tx_hash = 12, rv_block_number = 600, rv_log_index = 0\<rparr>"

definition ex_worker :: "(sqlite, rebate_db) rebate_worker" where
  "ex_worker = \<lparr>wk_env = ex_rebate_env,
     wk_config = \<lparr>wc_chain = 1, wc_start_block = 500, wc_authorization_ttl_blocks = 100, wc_reservation_ttl_secs = 60\<rparr>,
     wk_pending = source_pending 2 ex_trade_tables, wk_has_unsettled = source_has_unsettled ex_trade_tables,
     wk_fetch = (\<lambda>a b. Inr (if a \<le> 600 \<and> 600 \<le> b then [ex_mined] else [])), wk_registry_cursor = Inr (Some 700),
     wk_registry = snapshot_default, wk_market = ex_market_data, wk_now = 80\<rparr>"

lemma ex_worker_sel [simp]: "wk_env ex_worker = ex_rebate_env" "wk_pending ex_worker = source_pending 2 ex_trade_tables"
  by (simp_all add: ex_worker_def)

theorem intake_terminates_witness:
  "length (tt_legs ex_trade_tables) < 2 \<and> fst (intake 2 ex_worker 0 ex_start) \<noteq> Inr None"
proof -
  have legs: "length (tt_legs ex_trade_tables) < 2" by (simp add: ex_trade_tables_def)
  show ?thesis
    using intake_terminates [where wk = ex_worker, unfolded ex_worker_sel,
        OF ex_deployed ex_up refl legs prod.collapse [symmetric], of 0] legs by simp
qed

lemma ex_rescanned: "mined {ex_mined} (wk_fetch ex_worker)" "rescanned {ex_mined} 600 ex_worker (rw_store ex_published)"
  by (auto simp: mined_def ex_worker_def ex_mined_def rescanned_def ex_ready split: if_splits)

lemma ex_post: "\<exists>l. post (sv_ledger ex_held) 77 [200] = (Inr (), l)"
proof -
  obtain rv where "bm_get (lg_reservations (sv_ledger ex_held)) 77 = Some rv" "is_active (r_state rv)"
    "r_sources rv = rebate_sources ex_key ex_rebate_plan"
    using ex_reserved(2) by (simp add: lookup_reservation_def for_rebate_def reservation_new_def is_active_def)
  then have "fst (post (sv_ledger ex_held) 77 [200]) = Inr ()"
    using post_accepts by (simp add: rebate_sources_def ex_rebate_plan_def)
  then show ?thesis by (metis prod.collapse)
qed

lemma ex_posted: "\<exists>sv. service_post sqlite_ops 77 [200] ex_held = (Inr (), sv)"
proof -
  have "so_post sqlite_ops 77 [200] (sv_store ex_held) = (Inr (), snd (so_post sqlite_ops 77 [200] (sv_store ex_held)))"
    by (simp add: sqlite_ops_def sqlite_post_def with_db_def ex_reserved(3))
  then show ?thesis using ex_post by (auto simp: service_post_def durable_first_def split: prod.split)
qed

lemma ex_scan: "fst (reconcile_executions ex_worker 650 ex_published) = Inr 1"
proof -
  note One_nat_def [simp del]
  obtain sv where sv: "service_post sqlite_ops 77 [200] ex_held = (Inr (), sv)" using ex_posted by blast
  have held: "reservation_sources ex_held 77 = Some (rebate_sources ex_key ex_rebate_plan)"
    using ex_reserved(2) by (simp add: reservation_sources_def for_rebate_def reservation_new_def)
  have ev: "validate_execution_event ex_mined ex_execution = Inr ()"
    by (simp add: validate_execution_event_def event_repeats_def ex_mined_def ex_execution_def ex_rebate_plan_def rebate_authorization_def)
  have scan: "on_rebates (ro_scan_cursor (rq_store ex_rebate_env) 1) ex_published = (Inr None, ex_published)"
    by (simp add: ex_rebate_env_def sqlite_rebate_ops_def scan_cursor_def rebate_i64_def i64_max_def on_rebates_def emap_err_def on_part_def
        rebate_query_def rebate_tx_def rbind_def ex_published_eval ex_node_def)
  define x where "x = \<lparr>rt_plan = re_plan ex_execution, rt_reservation = re_reservation ex_execution, rt_event = ex_mined, rt_executed_at = 80\<rparr>"
  have x: "rt_executed_at x = 80" "bp_batch_id (rt_plan x) = 9" "rt_reservation x = 77" "rv_amount_out (rt_event x) = 200" "rv_batch_id ex_mined = 9"
    by (simp_all add: x_def ex_execution_def ex_rebate_plan_def ex_mined_def)
  let ?st = "\<lambda>name ex. ex\<lparr>rw_store := (rw_store ex)\<lparr>rd_tables := (rd_tables (rw_store ex))\<lparr>rx_settlements := [(9, name, x)]\<rparr>\<rparr>\<rparr>"
  have one: "on_rebates (ro_begin_settlement (rq_store ex_rebate_env) x) ex_published = (Inr (), ?st ''settling'' ex_published)"
    by (simp add: ex_rebate_env_def sqlite_rebate_ops_def begin_settlement_def insert_settlement_def rebate_query_def rebate_tx_def rbind_def
        on_rebates_def emap_err_def on_part_def ebind_def rebate_i64_def i64_max_def x ex_published_eval ex_node_def Let_def)
  have two: "post_if_held ex_rebate_env x (?st ''settling'' ex_published) = (Inr (), (?st ''settling'' ex_published)\<lparr>rw_ledger := sv\<rparr>)"
    by (simp add: post_if_held_def ebind_def eread_def x held on_hold_def emap_err_def on_part_def ex_rebate_env_def ex_published_eval ex_node_def sv)
  have three: "fst (on_rebates (ro_finish_settlement (rq_store ex_rebate_env) 9) ((?st ''settling'' ex_published)\<lparr>rw_ledger := sv\<rparr>)) = Inr ()"
    by (simp add: ex_rebate_env_def sqlite_rebate_ops_def finish_settlement_def rebate_tx_def on_rebates_def emap_err_def on_part_def
        ex_published_eval ex_node_def)
  then obtain w3 where three: "on_rebates (ro_finish_settlement (rq_store ex_rebate_env) 9) ((?st ''settling'' ex_published)\<lparr>rw_ledger := sv\<rparr>) = (Inr (), w3)"
    by (metis prod.collapse)
  have calm: "rd_faults (rw_store w3) = []"
    using three by (auto simp: ex_rebate_env_def sqlite_rebate_ops_def finish_settlement_def rebate_tx_def on_rebates_def emap_err_def on_part_def
        ex_published_eval ex_node_def)
  have find: "find (\<lambda>(_, b). rb_id b = 9) (rw_batches ex_published) = Some (ex_key, ex_batch [(1, ex_accrual 1 2), (2, ex_accrual 2 1)] (BsReady ex_execution))"
    by (simp add: ex_published_eval ex_node_def ex_batch_def)
  obtain w4 where four: "settle_work ex_rebate_env ex_mined 80 ex_published = (Inr True, w4)" "rd_faults (rw_store w4) = []"
    using one two three calm
    by (simp add: settle_work_def ebind_def eread_def x(5) find ex_batch_def ev lift_rebate_def x_def [symmetric] Let_def drop_batch_def
        unguard_strategy_def emodify_def)
  have five: "fst (on_rebates (ro_save_scan_cursor (rq_store ex_rebate_env) 1 650) w4) = Inr ()"
    using four(2) by (simp add: ex_rebate_env_def sqlite_rebate_ops_def save_scan_cursor_def rebate_i64_def i64_max_def rebate_tx_def
        on_rebates_def emap_err_def on_part_def split: prod.split)
  then obtain w5 where five: "on_rebates (ro_save_scan_cursor (rq_store ex_rebate_env) 1 650) w4 = (Inr (), w5)"
    by (metis prod.collapse)
  show ?thesis
    using scan four(1) five by (simp add: reconcile_executions_def ebind_def ex_worker_def)
qed

theorem scan_finishes_settlements_witness:
  "\<exists>w'. reconcile_executions ex_worker 650 ex_published = (Inr 1, w') \<and> rebate_reachable ex_rebate_env True w' \<and>
     db_settling (rw_store w') 9 = None"
proof -
  obtain r w' where run: "reconcile_executions ex_worker 650 ex_published = (r, w')" by force
  have "r = Inr 1" using ex_scan run by simp
  then show ?thesis
    using scan_finishes_settlements [where wk = ex_worker, unfolded ex_worker_sel, OF ex_deployed ex_published_reachable ex_rescanned _ run]
      run by auto
qed

end
