(* ===== verification/Spec2Isabelle.thy ===== *)
theory Spec2Isabelle
  imports Ledger_Recovery Registry_Laws Ingest Crosschain_History Routing_Plans Swap_Properties
    Rebate_Run
begin

text \<open>
  A verification development for \<open>solvent\<close>, a solver service for signed swap orders over on-chain maker
  strategies (Rust workspace src/crates; the core logic is in core/src, the durable and external ends
  in adapters/src).

  \<^bold>\<open>The program.\<close> Chain events build a registry of maker strategies, each a small program that
  decodes to a pricing curve. An order is normalized to an intent, priced and split over strategies
  by the router, whose plan is reserved in a double-entry ledger of maker budgets, recorded as a
  trade, simulated and submitted as a fill. A reconcile tick follows every fill to its terminal state,
  posts or voids its reservation, settles its trade and sweeps promises that ran out. Fills displace
  curve prices; the rebate service gathers them into batches, withholds displaced strategies from
  routing and publishes signed restorations whose surplus is shared with the maker. Orders across
  chains run as a saga of a coordinator over two such services.

  \<^bold>\<open>Theories and sources.\<close>

  \<^item> \<open>Prelude\<close>, \<open>Btree\<close>, \<open>Keys\<close>, \<open>Effects\<close>: machine integers, results, ordered maps and sets
    (\<open>BTreeMap\<close>, \<open>BTreeSet\<close>), the composite keys with their derived orders, and stateful computations
    that can fail, with a calculus of triples.
  \<^item> \<open>Ledger_Engine\<close>, \<open>Ledger_Invariant\<close>, \<open>Ledger_Properties\<close> (core/src/primitives/ledger): the pure
    ledger, its invariant, the laws of every command. \<open>Ledger_Store\<close> (core/src/deps/ledger,
    adapters/src/ledger/sqlite_store.rs) is the store port as the locale \<open>ledger_store\<close>, interpreted by
    the SQLite adapter. \<open>Ledger_Service\<close>, \<open>Ledger_Recovery\<close> (core/src/ledger/service.rs): the durable-first
    single writer, agreement of memory and store, recovery, sweep and published snapshot.
  \<^item> \<open>Registry_Decode\<close>, \<open>Registry_Snapshot\<close>, \<open>Registry_Laws\<close> (core/src/primitives/registry,
    core/src/registry/pricing.rs): program walk and classification, the event fold with its pair
    index, exact-out pricing.
  \<^item> \<open>Pricing\<close>, \<open>Curves\<close>, \<open>Curve_Laws\<close> (core/src/primitives/pricing.rs, core/src/registry/curves.rs):
    exact rationals, the three curves with every revert branch, stacked fees, limited quotes and the
    bisections. Locales \<open>quote_inverse\<close> and \<open>quote_stage\<close> say when an exact-out quote inverts an exact-in one.
  \<^item> \<open>Ingest\<close> (core/src/primitives/ingest, core/src/ingest/service.rs): decaying amounts, the executor
    fee, admission and deduplication.
  \<^item> \<open>Routing_Candidates\<close>, \<open>Routing_Waterfill\<close> (core/src/routing): candidates, guard, selection, the
    water-filling split and its sparsity pass. \<open>Routing_Curves\<close>, \<open>Routing_Assembly\<close>, \<open>Routing_Laws\<close>,
    \<open>Routing_Properties\<close>, \<open>Routing_Plans\<close>: the contract of a venue (locales \<open>priced_quote\<close>,
    \<open>limited_curve\<close>, \<open>limited_fill\<close>, interpreted by both closed-form curves behind any fees), the
    guarantees of the split, and the router entry (core/src/routing/service.rs).
  \<^item> \<open>Trade_Store\<close>, \<open>Trade_Laws\<close> (core/src/primitives/trade.rs, core/src/deps/trade.rs,
    adapters/src/trade/sqlite_store.rs): the trade lifecycle and its store, locale \<open>trade_store\<close>.
    \<open>Execution_Engine\<close> (adapters/src/execution, core/src/deps/execution): fill store and executor over an
    arbitrary transaction engine, locale \<open>execution_engine\<close>.
  \<^item> \<open>Swap_Flow\<close> (core/src/swap/service.rs, core/src/execution/service.rs, core/src/reconcile/service.rs)
    composes ledger, router, trades and execution; \<open>Swap_Laws\<close>, \<open>Swap_Holds\<close>, \<open>Swap_System\<close> (locale
    \<open>swap_system\<close>), \<open>Swap_Submit\<close>, \<open>Swap_Properties\<close> prove what a submission and a tick do and interpret
    the locale on the SQLite adapters.
  \<^item> \<open>Rebate_Policy\<close>, \<open>Rebate_Economics\<close> (core/src/primitives/rebate.rs, core/src/rebate/policy.rs): the
    assessment of a displaced strategy. \<open>Rebate_Calls\<close> (adapters/src/rebate/call_builder.rs), \<open>Rebate_Store\<close>
    (adapters/src/rebate/sqlite_store.rs), \<open>Rebate_Service\<close> (core/src/rebate/service.rs): the batch state
    machine. \<open>Rebate_Worker\<close> (core/src/rebate/worker.rs, adapters/src/rebate/trade_source.rs): the tick and
    its accrual source. \<open>Rebate_Laws\<close> states the store's contract (locale \<open>rebate_store\<close>, interpreted by the
    SQLite adapter), \<open>Rebate_Holds\<close> the invariant that ties memory, durable batches, settlements and ledger
    holds, as lemmas on plain maps; \<open>Rebate_System\<close>, \<open>Rebate_Work\<close> and \<open>Rebate_Recovery\<close> (locale
    \<open>rebate_desk\<close>, which joins the contracts of both stores) show that every operation keeps it on success
    and on every error and that recovery succeeds without faults. \<open>Rebate_History\<close> (locale
    \<open>rebate_deployment\<close>, the deployed adapters) draws the histories with faults, crashes and restarts and
    what holds of published work; \<open>Rebate_Log\<close> (locales \<open>evolution\<close>, \<open>rebate_moves\<close>) that the record is
    append-only; \<open>Rebate_Scan\<close> that the intake ends and the scan finishes what it began. \<open>Rebate_Run\<close> runs
    the service from empty stores to a settled execution and interprets the locales on it.
  \<^item> \<open>Crosschain_Types\<close>, \<open>Crosschain_Quotes\<close>, \<open>Crosschain_Store\<close>, \<open>Crosschain_Saga\<close>
    (core/src/primitives/crosschain.rs, core/src/crosschain, adapters/src/crosschain/sqlite.rs): values,
    fingerprints, store and coordinator; \<open>Crosschain_Laws\<close> (locale \<open>saga_relation\<close>, how a stored record may
    change, interpreted for calls that do not overlap and for calls that do), \<open>Crosschain_Properties\<close>,
    \<open>Crosschain_History\<close> prove the saga's histories.

  \<^bold>\<open>Modelling conventions.\<close> \<open>U256\<close> and \<open>u64\<close> are natural numbers with checked, saturating and
  wrapping operations written out, \<open>Ratio\<close> is \<^typ>\<open>rat\<close>. \<open>Result\<close> is a sum, \<open>?\<close> its bind; a panic is an
  explicit value. A service method is a function from its state to a result and the new state; an
  error keeps the effects before it. A database is its tables and a schedule of faults: a scheduled
  fault makes one transaction fail without effect, so a crash inside a method is a schedule of faults
  up to its end followed by a restart. The ledger, swap and rebate services serialize their methods with
  locks, so there each method is one step; histories are inductive relations over these steps. The
  cross-chain coordinator takes no lock: \<open>overlap_step\<close> lets an advance be overtaken by any other calls
  between the read of its record and the rest, and the theorems say which of them hold for such
  histories. Parameters stand for code outside the repository: Keccak-256, the ABI
  codec, order normalizers, the deduplication cache, clocks, budget and market sources, the wallet
  engine, the chain provider, the fill builder, the policy signer, remote chain services and the CCTP
  client. They are arbitrary functions unless a theorem names a hypothesis on them.

  \<^bold>\<open>Loops and bounds.\<close> Every loop of the model is structural or has a termination proof: the
  bisections shrink an interval (their measure is its width), the water-fill search runs its
  \<open>MAX_ITERS\<close> rounds, the sparsity pass removes a leg per round, the top-up and trim loops consume
  legs. The one exception is the worker's intake loop, whose end depends on the database: it takes
  fuel, and one round per trade leg and one more is proved to suffice.

  \<^bold>\<open>Hypotheses of the ledger theorems.\<close> Two things the code accepts are left out of the histories of the
  engine and of the service: admitting a promise whose sources on one account add up to more than 256
  bits (possible only at an account with the largest budget, \<open>admitted_demand_fits\<close> and
  \<open>saturated_demand_is_admitted\<close>), and, for the service, settling an active reservation with fills that do
  not fit its sources (\<open>refused_settlement_is_already_durable\<close> says what happens then). Budgets are 256-bit
  words.

  \<^bold>\<open>Hypotheses of the routing theorems.\<close> The pair's active strategies are on the closed-form curves (constant
  product or concentrated), and for exact-out each selected venue that quotes the input for the whole
  target can also quote that input forwards; for the reservation of a plan no two of the strategies share
  a ledger account; for the profit equation the taker's bound is neither zero nor the largest number. The
  pegged curve's numerical fill has its own termination and soundness theorems but not the inverse law
  these proofs rest on.

  \<^bold>\<open>Hypotheses of the rebate theorems.\<close> The call builder's ABI codec decodes what it encodes, the signer
  returns 65 bytes, budgets fit 256 bits, evaluated strategies charge for every output (closed-form curves
  do; on a pegged curve it is a premise, and \<open>free_plan_blocks_recovery\<close> says what happens without it),
  rates are not negative and minimum rebates at least one unit (the worker's own minimum), reservation ids
  do not collide, ready work is expired only after the scan, other users of the ledger keep off rebate
  holds, and the chain source returns the mined executions of its range.

  \<^bold>\<open>Hypotheses of the cross-chain theorems.\<close> Stored sagas are well formed and keep their terms along every
  history, overlapping calls included. That tokens and evidence are never overwritten and that terminal
  sagas never change holds for calls that do not overlap; \<open>overtaken_advance_overwrites\<close> and
  \<open>overtaken_advance_reopens_saga\<close> show that it fails for calls that do. Completion is relative to services
  that bring the saga to its end (\<open>finishes\<close>), with any finite number of errors, pending answers and, after
  the delivery, failures on the way.

  \<^bold>\<open>Not modelled.\<close> The read services behind the API (core/src/maker, pool, asset, quote, trade/service.rs),
  which project the modelled state into views with \<open>f64\<close> prices; the node side of cross-chain steps
  (core/src/crosschain/local.rs, steps.rs), which the coordinator's model reaches as remote services.
  Concurrency inside one method, except for the coordinator's overtaken advances; \<open>f64\<close> and
  decimal display values (price impact keeps its basis points); JSON and column encodings (columns hold
  the value they encode); HTTP handlers, the process binaries and configuration; the contract call
  builders and the plan validator of the cross-chain adapters, which consist of ABI encodings of
  contracts outside the repository's Rust code; metrics, feeds and the devnet; the frontend, the SDK
  and the Solidity contracts.
\<close>

end
